(* ===== verification/Aqua_Prelude.thy ===== *)
theory Aqua_Prelude
  imports Main "HOL-Library.Word" "HOL-Library.List_Lexorder"
begin

text \<open>
  The shared layer of the development. It holds the machine types the C++ code computes with,
  the faults a run of the code can end in, the two results collections the component proofs
  draw on, and lemmas on words, bytes and lists that several components use.

  An integer of the code of width w is a \<^typ>\<open>64 word\<close> (or 32, 16, 8); a signed one is the
  same word read with \<^const>\<open>sint\<close>. Memory is a list of bytes, lowest address first.
\<close>

unbundle bit_operations_syntax

type_synonym u8 = "8 word"
type_synonym u16 = "16 word"
type_synonym u32 = "32 word"
type_synonym u64 = "64 word"
type_synonym i8 = "8 word"
type_synonym i16 = "16 word"
type_synonym i32 = "32 word"
type_synonym i64 = "64 word"
type_synonym bytes = "8 word list"

text \<open>
  How a run can end other than by returning. The first three are undefined behaviour or a failed
  assertion; the next ones are the exceptions the code throws; \<open>OutOfFuel\<close> is the bound of a
  recursion of the model and is shown never to be reached where it is used.
\<close>

datatype fault =
    MemFault          \<comment> \<open>an access outside the object\<close>
  | SignedOverflow    \<comment> \<open>a signed operation that overflows\<close>
  | DivideByZero      \<comment> \<open>an integer division by zero\<close>
  | AssertFailed      \<comment> \<open>an \<open>assert\<close> that fails\<close>
  | LengthError       \<comment> \<open>\<open>std::length_error\<close>\<close>
  | InvalidArgument   \<comment> \<open>\<open>std::invalid_argument\<close>\<close>
  | LogicError        \<comment> \<open>\<open>std::logic_error\<close>\<close>
  | OutOfRange        \<comment> \<open>\<open>std::out_of_range\<close>, from \<open>at\<close>\<close>
  | OverflowError     \<comment> \<open>\<open>std::overflow_error\<close>\<close>
  | RuntimeError      \<comment> \<open>\<open>std::runtime_error\<close>\<close>
  | JsonTypeError     \<comment> \<open>\<open>type_error\<close> of the JSON library\<close>
  | JsonParseError    \<comment> \<open>\<open>parse_error\<close> of the JSON library\<close>
  | BadFunctionCall   \<comment> \<open>\<open>std::bad_function_call\<close>, of an empty \<open>std::function\<close>\<close>
  | OutOfFuel         \<comment> \<open>the bound of a recursion of the model\<close>

type_synonym 'a res = "fault + 'a"

definition rbind :: "'e + 'a \<Rightarrow> ('a \<Rightarrow> 'e + 'b) \<Rightarrow> 'e + 'b" where
  "rbind m f = (case m of Inl e \<Rightarrow> Inl e | Inr x \<Rightarrow> f x)"

lemma rbind_simps [simp]:
  "rbind (Inl e) f = Inl e"
  "rbind (Inr x) f = f x"
  by (simp_all add: rbind_def)

lemma rbind_eq_Inr: "rbind m f = Inr y \<longleftrightarrow> (\<exists>x. m = Inr x \<and> f x = Inr y)"
  by (cases m) auto

lemma rbind_eq_Inl: "rbind m f = Inl e \<longleftrightarrow> m = Inl e \<or> (\<exists>x. m = Inr x \<and> f x = Inl e)"
  by (cases m) auto

text \<open>
  An exception leaves the objects as they are when it is thrown, and a program that catches it goes on with them. Code
  whose exceptions are caught has as its error the fault with that state: \<open>left_at s\<close> says that a step which fails
  leaves s, \<open>left_in f\<close> puts the state that a step leaves into a larger one. Only exceptions can be caught; after the
  other faults there is no state to go on with.
\<close>

definition thrown :: "fault \<Rightarrow> bool" where
  "thrown e \<longleftrightarrow> e \<notin> {MemFault, SignedOverflow, DivideByZero, AssertFailed, OutOfFuel}"

lemma thrown_simps [simp]:
  "\<not> thrown MemFault" "thrown LogicError" "thrown OutOfRange" "thrown BadFunctionCall"
  by (simp_all add: thrown_def)

type_synonym ('s, 'a) run = "(fault \<times> 's) + 'a"

definition left_at :: "'s \<Rightarrow> 'a res \<Rightarrow> ('s, 'a) run" where
  "left_at s m = (case m of Inl e \<Rightarrow> Inl (e, s) | Inr x \<Rightarrow> Inr x)"

definition left_in :: "('s \<Rightarrow> 't) \<Rightarrow> ('s, 'a) run \<Rightarrow> ('t, 'a) run" where
  "left_in f m = (case m of Inl (e, s) \<Rightarrow> Inl (e, f s) | Inr x \<Rightarrow> Inr x)"

lemma left_simps [simp]:
  "left_at s (Inl e) = Inl (e, s)" "left_at s (Inr x) = Inr x"
  "left_in f (Inl (e, s)) = Inl (e, f s)" "left_in f (Inr x) = Inr x"
  by (simp_all add: left_at_def left_in_def)

lemma left_Inr [simp]:
  "left_at s m = Inr x \<longleftrightarrow> m = Inr x" "Inr x = left_at s m \<longleftrightarrow> Inr x = m"
  "left_in f r = Inr x \<longleftrightarrow> r = Inr x" "Inr x = left_in f r \<longleftrightarrow> Inr x = r"
  by (auto simp: left_at_def left_in_def split: sum.splits)

lemma left_Inl:
  "left_at s m = Inl (e, s1) \<longleftrightarrow> m = Inl e \<and> s1 = s"
  "left_in f r = Inl (e, t1) \<longleftrightarrow> (\<exists>s1. r = Inl (e, s1) \<and> t1 = f s1)"
  by (auto simp: left_at_def left_in_def split: sum.splits)

text \<open>
  Collections: \<open>mem_simps\<close> evaluates reads and writes of memory, \<open>bit_lits\<close> says which bits the
  literals of the code have.
\<close>

named_theorems mem_simps
named_theorems bit_lits

section \<open>Memory\<close>

definition peek_at :: "bytes \<Rightarrow> nat \<Rightarrow> u8 res" where
  "peek_at m k = (if k < length m then Inr (m ! k) else Inl MemFault)"

definition poke_at :: "bytes \<Rightarrow> nat \<Rightarrow> u8 \<Rightarrow> bytes res" where
  "poke_at m k b = (if k < length m then Inr (m[k := b]) else Inl MemFault)"

text \<open>A block of bytes written at (or read from) an offset, as \<open>memcpy\<close> does.\<close>

definition write_block :: "bytes \<Rightarrow> nat \<Rightarrow> bytes \<Rightarrow> bytes res" where
  "write_block m k bs =
     (if k + length bs \<le> length m then Inr (take k m @ bs @ drop (k + length bs) m)
      else Inl MemFault)"

definition read_block :: "bytes \<Rightarrow> nat \<Rightarrow> nat \<Rightarrow> bytes res" where
  "read_block m k n = (if k + n \<le> length m then Inr (take n (drop k m)) else Inl MemFault)"

lemma peek_at_Inr [mem_simps]: "k < length m \<Longrightarrow> peek_at m k = Inr (m ! k)"
  by (simp add: peek_at_def)

lemma peek_at_append [mem_simps]: "k < length xs \<Longrightarrow> peek_at (xs @ ys) k = Inr (xs ! k)"
  by (simp add: peek_at_def nth_append)

lemma write_block_Inr [mem_simps]:
  "k + length bs \<le> length m \<Longrightarrow>
     write_block m k bs = Inr (take k m @ bs @ drop (k + length bs) m)"
  by (simp add: write_block_def)

lemma write_block_length: "write_block m k bs = Inr m' \<Longrightarrow> length m' = length m"
  by (auto simp: write_block_def split: if_splits)

lemma poke_at_Inr [mem_simps]: "k < length m \<Longrightarrow> poke_at m k b = Inr (m[k := b])"
  by (simp add: poke_at_def)

lemma read_block_Inr [mem_simps]:
  "k + n \<le> length m \<Longrightarrow> read_block m k n = Inr (take n (drop k m))"
  by (simp add: read_block_def)

section \<open>Words and bytes\<close>

text \<open>The negative of a signed value; the least value has none, and C leaves it undefined.\<close>

definition neg_i64 :: "i64 \<Rightarrow> i64 res" where
  "neg_i64 i = (if i = 0x8000000000000000 then Inl SignedOverflow else Inr (- i))"

lemma sint_neg_i64:
  assumes "i \<noteq> 0x8000000000000000"
  shows "sint (- i) = - sint (i :: i64)"
proof -
  have "sint i \<noteq> sint (0x8000000000000000 :: i64)"
    using assms by (metis signed_word_eqI)
  then have "- (2 ^ 63) < sint i"
    using sint_ge [of i] by simp
  then show ?thesis
    using sint_lt [of i] by (simp add: sint_word_ariths signed_take_bit_int_eq_self)
qed

text \<open>A property of a byte holds if it holds of the 256 values.\<close>

lemma byte_cases:
  assumes "list_all (\<lambda>n. P (word_of_nat n)) [0..<256]"
  shows "P (b :: u8)"
proof -
  have "\<forall>n \<in> set [0..<256]. P (word_of_nat n)"
    using assms by (simp only: list_all_iff)
  moreover have "unat b \<in> set [0..<256]"
    using unsigned_less [of b, where ?'a = nat] by simp
  ultimately have "P (word_of_nat (unat b))"
    by blast
  then show ?thesis
    by simp
qed

text \<open>
  A byte is its eight bits: an equation of bytes becomes a conjunction that simplification decides
  where the bytes are built from literals.
\<close>

lemma u8_eq_bits:
  "(a :: u8) = b \<longleftrightarrow>
     bit a 0 = bit b 0 \<and> bit a 1 = bit b 1 \<and> bit a 2 = bit b 2 \<and> bit a 3 = bit b 3 \<and>
     bit a 4 = bit b 4 \<and> bit a 5 = bit b 5 \<and> bit a 6 = bit b 6 \<and> bit a 7 = bit b 7"
  (is "?l = ?r")
proof
  assume ?r
  show ?l
  proof (rule bit_word_eqI)
    fix n
    assume "n < LENGTH(8)"
    then have "n \<in> {0, 1, 2, 3, 4, 5, 6, 7}"
      by auto
    then show "bit a n = bit b n"
      using \<open>?r\<close> by auto
  qed
qed simp

text \<open>
  The bits of the literals. A literal of a word type is read as an integer by the simplifier
  (\<open>bit_numeral_word_iff\<close>), so these are stated of integers.
\<close>

lemma bit_int_lits [bit_lits]:
  "bit (0x80 :: int) n \<longleftrightarrow> n = 7"
  "bit (0xc0 :: int) n \<longleftrightarrow> n = 6 \<or> n = 7"
  "bit (0xe0 :: int) n \<longleftrightarrow> n = 5 \<or> n = 6 \<or> n = 7"
  "bit (0xff :: int) n \<longleftrightarrow> n < 8"
  "bit (0x7f :: int) n \<longleftrightarrow> n < 7"
  "bit (0x3f :: int) n \<longleftrightarrow> n < 6"
  "bit (0x1f :: int) n \<longleftrightarrow> n < 5"
  "bit (0x0f :: int) n \<longleftrightarrow> n < 4"
  "bit (0x03 :: int) n \<longleftrightarrow> n < 2"
  by (auto simp: bit_numeral_rec bit_1_iff split: nat.splits)

lemma mask_lits:
  "(0x7f :: u64) = mask 7" "(0x3fff :: u64) = mask 14" "(0x1fffff :: u64) = mask 21"
  "(0xfffffff :: u64) = mask 28" "(0xfffffffff :: u64) = mask 36"
  by (simp_all add: mask_eq_exp_minus_1)

lemma and_not_mask:
  assumes "(i :: u64) AND NOT (mask k) = 0" "bit i n"
  shows "n < k"
proof -
  have "\<not> bit (i AND NOT (mask k)) n"
    using assms(1) by simp
  with assms(2) show ?thesis
    by (auto simp: bit_simps dest: bit_imp_le_length)
qed

lemma and_not_mask_iff: "(i :: u64) AND NOT (mask k) = 0 \<longleftrightarrow> take_bit k i = i"
proof
  assume "i AND NOT (mask k) = 0"
  then show "take_bit k i = i"
    by (intro bit_word_eqI) (auto simp: bit_simps dest: and_not_mask)
next
  assume "take_bit k i = i"
  then have "i AND NOT (mask k) = take_bit k i AND NOT (mask k)"
    by simp
  also have "\<dots> = 0"
    by (rule bit_word_eqI) (auto simp: bit_simps)
  finally show "i AND NOT (mask k) = 0" .
qed

lemma take_bit_less_iff: "take_bit k (i :: u64) = i \<longleftrightarrow> uint i < 2 ^ k"
proof -
  have "take_bit k i = i \<longleftrightarrow> uint (take_bit k i) = uint i"
    by (simp only: word_uint_eq_iff)
  also have "\<dots> \<longleftrightarrow> take_bit k (uint i) = uint i"
    by (simp only: unsigned_take_bit_eq)
  also have "\<dots> \<longleftrightarrow> uint i < 2 ^ k"
    by (simp add: take_bit_int_eq_self_iff)
  finally show ?thesis .
qed

section \<open>Ordered maps\<close>

text \<open>
  A \<open>std::map\<close>, and the data of a column family, as the list of its items in strictly increasing order
  of their keys.
\<close>

definition ordered_items :: "('k :: linorder \<times> 'v) list \<Rightarrow> bool" where
  "ordered_items its \<longleftrightarrow> sorted_wrt (<) (map fst its)"

definition put_item :: "'k \<times> 'v \<Rightarrow> ('k :: linorder \<times> 'v) list \<Rightarrow> ('k :: linorder \<times> 'v) list" where
  "put_item x its = filter (\<lambda>y. fst y < fst x) its @ x # filter (\<lambda>y. fst x < fst y) its"

definition delete_item :: "'k \<Rightarrow> ('k :: linorder \<times> 'v) list \<Rightarrow> ('k :: linorder \<times> 'v) list" where
  "delete_item k its = filter (\<lambda>y. fst y \<noteq> k) its"

text \<open>Deleting a range keeps its end.\<close>

definition delete_items :: "'k \<Rightarrow> 'k \<Rightarrow> ('k :: linorder \<times> 'v) list \<Rightarrow> ('k :: linorder \<times> 'v) list" where
  "delete_items b e its = filter (\<lambda>y. \<not> (b \<le> fst y \<and> fst y < e)) its"

lemma ordered_simps [simp]:
  "ordered_items []"
  "ordered_items (x # its) \<longleftrightarrow> (\<forall>y \<in> set its. fst x < fst y) \<and> ordered_items its"
  by (auto simp: ordered_items_def)

lemma ordered_append [simp]:
  "ordered_items (a @ b) \<longleftrightarrow>
   ordered_items a \<and> ordered_items b \<and> (\<forall>x \<in> set a. \<forall>y \<in> set b. fst x < fst y)"
  by (induction a) auto

lemma ordered_filter: "ordered_items its \<Longrightarrow> ordered_items (filter P its)"
  by (induction its) auto

lemma ordered_put: "ordered_items its \<Longrightarrow> ordered_items (put_item x its)"
  unfolding put_item_def by (auto simp: ordered_filter)

lemma ordered_delete:
  "ordered_items its \<Longrightarrow> ordered_items (delete_item k its)"
  "ordered_items its \<Longrightarrow> ordered_items (delete_items b e its)"
  unfolding delete_item_def delete_items_def by (rule ordered_filter, assumption)+

lemma put_item_first:
  assumes "\<forall>y \<in> set its. fst x < fst y"
  shows "put_item x its = x # its"
  using assms unfolding put_item_def
  by (auto simp: filter_empty_conv filter_id_conv not_less intro: less_imp_le)

lemma map_of_filter:
  assumes "ordered_items its"
  shows "map_of (filter (\<lambda>y. P (fst y)) its) k = (if P k then map_of its k else None)"
  using assms by (induction its) auto

lemma map_of_put:
  assumes "ordered_items its"
  shows "map_of (put_item (k, v) its) = (map_of its)(k \<mapsto> v)"
proof
  fix j
  show "map_of (put_item (k, v) its) j = ((map_of its)(k \<mapsto> v)) j"
    using map_of_filter [OF assms, of "\<lambda>y. y < k" j] map_of_filter [OF assms, of "\<lambda>y. k < y" j]
    unfolding put_item_def by (cases k j rule: linorder_cases) (auto simp: map_add_def split: option.splits)
qed

lemma map_of_delete:
  assumes "ordered_items its"
  shows "map_of (delete_item k its) = (map_of its)(k := None)"
    "map_of (delete_items b e its) = (\<lambda>j. if b \<le> j \<and> j < e then None else map_of its j)"
  using map_of_filter [OF assms, of "\<lambda>j. j \<noteq> k"]
    map_of_filter [OF assms, of "\<lambda>j. \<not> (b \<le> j \<and> j < e)"]
  unfolding delete_item_def delete_items_def by (auto simp: fun_eq_iff)

lemma put_item_set: "ordered_items its \<Longrightarrow>
    set (put_item x its) = insert x {y \<in> set its. fst y \<noteq> fst x}"
  unfolding put_item_def by auto

lemma filter_put_from:
  "filter (\<lambda>y. fst x \<le> fst y) (put_item x its) = x # filter (\<lambda>y. fst x < fst y) its"
proof -
  have "filter (\<lambda>y. fst y < fst x \<and> fst x \<le> fst y) its = []" by (auto simp: filter_empty_conv)
  moreover have "filter (\<lambda>y. fst x < fst y \<and> fst x \<le> fst y) its = filter (\<lambda>y. fst x < fst y) its"
    by (rule filter_cong) auto
  ultimately show ?thesis by (simp add: put_item_def)
qed

lemma sorted_bounds:
  fixes xs :: "'a :: linorder list"
  assumes "sorted_wrt (<) xs" "x \<in> set xs"
  shows "hd xs \<le> x" "x \<le> last xs"
  using assms by (induction xs) (auto intro: less_imp_le order_trans split: if_splits)

section \<open>Signed arithmetic\<close>

text \<open>A result of arithmetic in \<open>int64_t\<close>, which must not overflow.\<close>

definition to_i64 :: "int \<Rightarrow> i64 res" where
  "to_i64 x = (if - (2 ^ 63) \<le> x \<and> x < 2 ^ 63 then Inr (word_of_int x) else Inl SignedOverflow)"

lemma to_i64_sint: "rbind (to_i64 x) (\<lambda>w. Inr (sint w)) =
    (if - (2 ^ 63) \<le> x \<and> x < 2 ^ 63 then Inr x else Inl SignedOverflow)"
proof -
  have "sint (word_of_int x :: i64) = x" if "- (2 ^ 63) \<le> x \<and> x < 2 ^ 63"
    using that signed_take_bit_int_eq_self [of 63 x] by (simp add: signed_of_int)
  then show ?thesis by (simp add: to_i64_def)
qed

lemma uint_sint_nonneg: "0 \<le> sint (i :: i64) \<Longrightarrow> uint i = sint i"
proof -
  assume "0 \<le> sint i"
  then have n: "\<not> bit (uint i) 63"
    using signed_take_bit_negative_iff [of 63 "uint i"] by (simp add: sint_uint not_less)
  have "uint i = take_bit (Suc 63) (uint i)"
    using bintr_uint [of 64 i] by simp
  also have "\<dots> = take_bit 63 (uint i)"
    using n by (simp only: take_bit_Suc_from_most) simp
  also have "\<dots> = sint i"
    using n by (simp add: sint_uint signed_take_bit_eq_if_positive)
  finally show ?thesis .
qed

end
