(* ===== verification/Varint.thy ===== *)
theory Varint
  imports Aqua_Prelude
begin

text \<open>
  The variable-length integers of \<open>db/varint.c\<close>. An encoded integer is a header byte whose top
  bits give the length, followed by the remaining bytes, most significant first; a value below
  -3 is the marker byte 0xf8 followed by the encoding of its absolute value.

  A buffer pointer is the list of bytes that are accessible from it. An access outside it is
  \<open>Inl MemFault\<close>, and negating the least \<open>int64_t\<close> is \<open>Inl SignedOverflow\<close>.
\<close>

section \<open>The code\<close>

text \<open>The type tags (\<open>varint.h\<close>); they are header bytes, and fit the \<open>int\<close> the code keeps them in.\<close>

definition VARINT_NEG_R :: u8 where "VARINT_NEG_R = 0xf8"
definition VARINT_NEG_2 :: u8 where "VARINT_NEG_2 = 0xfc"
definition VARINT_POS_7 :: u8 where "VARINT_POS_7 = 0x00"
definition VARINT_POS_14 :: u8 where "VARINT_POS_14 = 0x80"
definition VARINT_POS_21 :: u8 where "VARINT_POS_21 = 0xc0"
definition VARINT_POS_28 :: u8 where "VARINT_POS_28 = 0xe0"
definition VARINT_POS_32 :: u8 where "VARINT_POS_32 = 0xf0"
definition VARINT_POS_64 :: u8 where "VARINT_POS_64 = 0xf4"
definition VARINT_INVALID :: u8 where "VARINT_INVALID = 0xff"

lemmas varint_tags = VARINT_NEG_R_def VARINT_NEG_2_def VARINT_POS_7_def VARINT_POS_14_def
  VARINT_POS_21_def VARINT_POS_28_def VARINT_POS_32_def VARINT_POS_64_def VARINT_INVALID_def

definition varint_classify_v :: "u8 \<Rightarrow> u8" where
  "varint_classify_v b0 =
     (if b0 AND 0xfc = VARINT_NEG_R then VARINT_NEG_R
      else if b0 AND 0xfc = VARINT_NEG_2 then VARINT_NEG_2
      else if b0 AND 0x80 = VARINT_POS_7 then VARINT_POS_7
      else if b0 AND 0xc0 = VARINT_POS_14 then VARINT_POS_14
      else if b0 AND 0xe0 = VARINT_POS_21 then VARINT_POS_21
      else if b0 AND 0xf0 = VARINT_POS_28 then VARINT_POS_28
      else if b0 AND 0xfc = VARINT_POS_32 then VARINT_POS_32
      else if b0 AND 0xfc = VARINT_POS_64 then VARINT_POS_64
      else VARINT_INVALID)"

definition varint_classify_i :: "i64 \<Rightarrow> u8" where
  "varint_classify_i i =
     (if sint i < -3 then VARINT_NEG_R
      else if sint i < 0 then VARINT_NEG_2
      else if i AND NOT 0x7f = 0 then VARINT_POS_7
      else if i AND NOT 0x3fff = 0 then VARINT_POS_14
      else if i AND NOT 0x1fffff = 0 then VARINT_POS_21
      else if i AND NOT 0xfffffff = 0 then VARINT_POS_28
      else if i AND NOT 0xfffffffff = 0 then VARINT_POS_32
      else VARINT_POS_64)"

text \<open>
  The recursive call is made on a negated value, so it is made at most once.
\<close>

lemma classify_neg_r:
  "varint_classify_i i = VARINT_NEG_R \<longleftrightarrow> sint i < -3"
  "VARINT_NEG_R = varint_classify_i i \<longleftrightarrow> sint i < -3"
  by (auto simp: varint_classify_i_def varint_tags)

lemma neg_i64_sint: "neg_i64 i = Inr j \<Longrightarrow> sint j = - sint i"
  by (auto simp: neg_i64_def sint_neg_i64 split: if_splits)

function varint_len_i :: "i64 \<Rightarrow> nat res" where
  "varint_len_i i =
     (let t = varint_classify_i i in
      if t = VARINT_NEG_R then
        (case neg_i64 i of Inl e \<Rightarrow> Inl e
         | Inr j \<Rightarrow> rbind (varint_len_i j) (\<lambda>n. Inr (1 + n)))
      else if t = VARINT_NEG_2 then Inr 1
      else if t = VARINT_POS_7 then Inr 1
      else if t = VARINT_POS_14 then Inr 2
      else if t = VARINT_POS_21 then Inr 3
      else if t = VARINT_POS_28 then Inr 4
      else if t = VARINT_POS_32 then Inr 5
      else if t = VARINT_POS_64 then Inr 9
      else Inr 0)"
  by pat_completeness auto
termination
  by (relation "measure (\<lambda>i. if sint i < -3 then 1 else 0)")
    (auto simp: classify_neg_r dest: neg_i64_sint)

text \<open>
  \<open>varint_identify\<close> fills \<open>*type\<close>, \<open>*rtype\<close> and \<open>*len\<close>. Its first argument here counts how many
  of the pointers \<open>type\<close>, \<open>rtype\<close> are not null: the caller passes both, the inner call has only the
  first, and a call with none returns false at once. The result is (returned, type, rtype, len),
  where an output that is not written keeps the \<open>VARINT_INVALID\<close> that the caller initialised.
\<close>

fun varint_identify :: "nat \<Rightarrow> bytes \<Rightarrow> nat \<Rightarrow> (bool \<times> u8 \<times> u8 \<times> nat) res" where
  "varint_identify 0 buf lim = Inr (False, VARINT_INVALID, VARINT_INVALID, 0)"
| "varint_identify (Suc d) buf lim =
     (if lim < 1 then Inr (False, VARINT_INVALID, VARINT_INVALID, 0)
      else rbind (peek_at buf 0) (\<lambda>b0.
        let t = varint_classify_v b0 in
        if t = VARINT_NEG_R then
          rbind (varint_identify d (drop 1 buf) (lim - 1)) (\<lambda>(ok, rt, _, len).
            if \<not> ok then Inr (False, VARINT_INVALID, rt, 0)
            else Inr (True, t, rt, len + 1))
        else if t = VARINT_NEG_2 then Inr (True, t, VARINT_INVALID, 1)
        else if t = VARINT_POS_7 then Inr (True, t, VARINT_INVALID, 1)
        else if t = VARINT_POS_14 then Inr (True, t, VARINT_INVALID, 2)
        else if t = VARINT_POS_21 then Inr (True, t, VARINT_INVALID, 3)
        else if t = VARINT_POS_28 then Inr (True, t, VARINT_INVALID, 4)
        else if t = VARINT_POS_32 then Inr (True, t, VARINT_INVALID, 5)
        else if t = VARINT_POS_64 then Inr (True, t, VARINT_INVALID, 9)
        else Inr (False, t, VARINT_INVALID, 0)))"

text \<open>
  The byte \<open>buf[k]\<close> shifted into place. \<open>varint_decode_tail\<close> joins the bytes \<open>buf[k], \<dots>\<close> with the
  shifts \<open>ss\<close>, as the or-expressions of \<open>varint_decode_\<close> spell out.
\<close>

fun varint_decode_tail :: "bytes \<Rightarrow> nat \<Rightarrow> nat list \<Rightarrow> u64 \<Rightarrow> u64 res" where
  "varint_decode_tail buf k [] acc = Inr acc"
| "varint_decode_tail buf k (s # ss) acc =
     rbind (peek_at buf k) (\<lambda>b. varint_decode_tail buf (Suc k) ss (acc OR push_bit s (ucast b)))"

definition varint_decode_payload :: "u8 \<Rightarrow> bytes \<Rightarrow> i64 res" where
  "varint_decode_payload type buf =
     (if type = VARINT_NEG_2 then rbind (peek_at buf 0) (\<lambda>b. Inr (ucast (b AND 0x03)))
      else if type = VARINT_POS_7 then rbind (peek_at buf 0) (\<lambda>b. Inr (ucast b))
      else if type = VARINT_POS_14 then
        rbind (peek_at buf 0) (\<lambda>b. varint_decode_tail buf 1 [0] (push_bit 8 (ucast (b AND 0x3f))))
      else if type = VARINT_POS_21 then
        rbind (peek_at buf 0)
          (\<lambda>b. varint_decode_tail buf 1 [8, 0] (push_bit 16 (ucast (b AND 0x1f))))
      else if type = VARINT_POS_28 then
        rbind (peek_at buf 0)
          (\<lambda>b. varint_decode_tail buf 1 [16, 8, 0] (push_bit 24 (ucast (b AND 0x0f))))
      else if type = VARINT_POS_32 then varint_decode_tail buf 1 [24, 16, 8, 0] 0
      else if type = VARINT_POS_64 then
        varint_decode_tail buf 1 [56, 48, 40, 32, 24, 16, 8, 0] 0
      else Inr 0)"

text \<open>The result of \<open>varint_decode\<close> is the returned length and \<open>*i\<close>.\<close>

definition varint_decode :: "bytes \<Rightarrow> nat \<Rightarrow> (nat \<times> i64) res" where
  "varint_decode buf lim =
     rbind (varint_identify 2 buf lim) (\<lambda>(ok, type, rtype, len).
       if ok then
         (if type = VARINT_NEG_R then
            rbind (varint_decode_payload rtype (drop 1 buf)) (\<lambda>v.
              rbind (neg_i64 v) (\<lambda>i. Inr (len, i)))
          else rbind (varint_decode_payload type buf) (\<lambda>i. Inr (len, i)))
       else Inr (0, 0))"

text \<open>
  \<open>varint_encode\<close> returns the count it reports and the buffer after its writes. \<open>i >> k\<close> on
  \<open>int64_t\<close> is the arithmetic shift, and the byte stored is the low one of the or-expression.
\<close>

abbreviation shr :: "i64 \<Rightarrow> nat \<Rightarrow> i64" where
  "shr i k \<equiv> signed_drop_bit k i"

definition byte_at :: "i64 \<Rightarrow> nat \<Rightarrow> u8" where
  "byte_at i k = ucast (0xff AND shr i k)"

function varint_encode :: "bytes \<Rightarrow> nat \<Rightarrow> i64 \<Rightarrow> (nat \<times> bytes) res" where
  "varint_encode buf lim i =
     (let t = varint_classify_i i in
      if lim < 1 then Inr (0, buf)
      else if t = VARINT_NEG_R then
        (if lim < 2 then Inr (0, buf)
         else rbind (poke_at buf 0 VARINT_NEG_R) (\<lambda>buf1.
           (case neg_i64 i of Inl e \<Rightarrow> Inl e
            | Inr j \<Rightarrow> rbind (varint_encode (drop 1 buf1) (lim - 1) j) (\<lambda>(n, rest).
                Inr (if n \<noteq> 0 then n else 0, take 1 buf1 @ rest)))))
      else if t = VARINT_NEG_2 then
        rbind (neg_i64 i) (\<lambda>j.
          rbind (poke_at buf 0 (ucast (0xfc OR (0x03 AND j)))) (\<lambda>b. Inr (1, b)))
      else if t = VARINT_POS_7 then
        rbind (poke_at buf 0 (ucast (0x00 OR (0x7f AND i)))) (\<lambda>b. Inr (1, b))
      else if t = VARINT_POS_14 then
        (if lim < 2 then Inr (0, buf)
         else rbind (write_block buf 0 [ucast (0x80 OR (0x3f AND shr i 8)), byte_at i 0])
           (\<lambda>b. Inr (2, b)))
      else if t = VARINT_POS_21 then
        (if lim < 3 then Inr (0, buf)
         else rbind (write_block buf 0
             [ucast (0xc0 OR (0x1f AND shr i 16)), byte_at i 8, byte_at i 0])
           (\<lambda>b. Inr (3, b)))
      else if t = VARINT_POS_28 then
        (if lim < 4 then Inr (0, buf)
         else rbind (write_block buf 0
             [ucast (0xe0 OR (0x0f AND shr i 24)), byte_at i 16, byte_at i 8, byte_at i 0])
           (\<lambda>b. Inr (4, b)))
      else if t = VARINT_POS_32 then
        (if lim < 5 then Inr (0, buf)
         else rbind (write_block buf 0
             [VARINT_POS_32, byte_at i 24, byte_at i 16, byte_at i 8, byte_at i 0])
           (\<lambda>b. Inr (5, b)))
      else if t = VARINT_POS_64 then
        (if lim < 9 then Inr (0, buf)
         else rbind (write_block buf 0
             [VARINT_POS_64, byte_at i 56, byte_at i 48, byte_at i 40, byte_at i 32,
              byte_at i 24, byte_at i 16, byte_at i 8, byte_at i 0])
           (\<lambda>b. Inr (9, b)))
      else Inr (0, buf))"
  by pat_completeness auto
termination
  by (relation "measure (\<lambda>(buf, lim, i). if sint i < -3 then 1 else 0)")
    (auto simp: classify_neg_r dest: neg_i64_sint)

declare varint_len_i.simps [simp del] varint_encode.simps [simp del]


declare varint_decode_tail.simps [simp del]

section \<open>The bytes of a non-negative integer\<close>

text \<open>
  The reference: the bytes \<open>varint_encode\<close> stores for a non-negative value, as a list that does
  not depend on the buffer or the limit.
\<close>

definition varint_bytes :: "i64 \<Rightarrow> bytes" where
  "varint_bytes i =
     (let t = varint_classify_i i in
      if t = VARINT_POS_7 then [ucast (0x7f AND i)]
      else if t = VARINT_POS_14 then [ucast (0x80 OR (0x3f AND shr i 8)), byte_at i 0]
      else if t = VARINT_POS_21 then
        [ucast (0xc0 OR (0x1f AND shr i 16)), byte_at i 8, byte_at i 0]
      else if t = VARINT_POS_28 then
        [ucast (0xe0 OR (0x0f AND shr i 24)), byte_at i 16, byte_at i 8, byte_at i 0]
      else if t = VARINT_POS_32 then
        [VARINT_POS_32, byte_at i 24, byte_at i 16, byte_at i 8, byte_at i 0]
      else
        [VARINT_POS_64, byte_at i 56, byte_at i 48, byte_at i 40, byte_at i 32,
         byte_at i 24, byte_at i 16, byte_at i 8, byte_at i 0])"

text \<open>
  What reading those bytes gives. The class of five bytes holds the values below 2^36 (the mask in
  \<open>varint_classify_i\<close> has nine hexadecimal digits), but its encoding has four bytes of payload.
\<close>

definition varint_stored :: "i64 \<Rightarrow> i64" where
  "varint_stored i =
     (if 2 ^ 32 \<le> uint i \<and> uint i < 2 ^ 36 then take_bit 32 i else i)"

lemma classify_nonneg:
  assumes "0 \<le> sint i"
  obtains
    (P7) "varint_classify_i i = VARINT_POS_7" "i AND NOT (mask 7) = 0"
  | (P14) "varint_classify_i i = VARINT_POS_14" "i AND NOT (mask 14) = 0"
  | (P21) "varint_classify_i i = VARINT_POS_21" "i AND NOT (mask 21) = 0"
  | (P28) "varint_classify_i i = VARINT_POS_28" "i AND NOT (mask 28) = 0"
  | (P32) "varint_classify_i i = VARINT_POS_32" "i AND NOT (mask 36) = 0"
  | (P64) "varint_classify_i i = VARINT_POS_64" "i AND NOT (mask 36) \<noteq> 0"
  using assms unfolding varint_classify_i_def mask_lits
  by (smt (verit) not_less)

text \<open>Headers are read back as the class they were written for.\<close>

lemma header_class:
  "varint_classify_v (ucast (0x7f AND (x :: u64))) = VARINT_POS_7"
  "varint_classify_v (ucast (0x80 OR (0x3f AND (x :: u64)))) = VARINT_POS_14"
  "varint_classify_v (ucast (0xc0 OR (0x1f AND (x :: u64)))) = VARINT_POS_21"
  "varint_classify_v (ucast (0xe0 OR (0x0f AND (x :: u64)))) = VARINT_POS_28"
  "varint_classify_v (ucast (0xfc OR (0x03 AND (x :: u64)))) = VARINT_NEG_2"
  "varint_classify_v VARINT_POS_32 = VARINT_POS_32"
  "varint_classify_v VARINT_POS_64 = VARINT_POS_64"
  "varint_classify_v VARINT_NEG_R = VARINT_NEG_R"
  by (simp_all add: varint_classify_v_def varint_tags u8_eq_bits bit_simps)

lemma byte_at_eq: "k \<le> 56 \<Longrightarrow> byte_at i k = ucast (drop_bit k i)"
  unfolding byte_at_def by (rule bit_word_eqI) (auto simp: bit_simps bit_lits)

text \<open>Joining payload bytes puts bits s to s+7 of the value back for each shift s.\<close>

lemma tail_bits:
  assumes "\<forall>s \<in> set ss. s \<le> 56"
  shows "\<exists>v. varint_decode_tail (pre @ map (byte_at i) ss @ rest) (length pre) ss acc = Inr v \<and>
    (\<forall>n < 64. bit v n \<longleftrightarrow> bit acc n \<or> (\<exists>s \<in> set ss. s \<le> n \<and> n < s + 8 \<and> bit i n))"
  using assms
proof (induction ss arbitrary: pre acc)
  case Nil
  then show ?case
    by (simp add: varint_decode_tail.simps)
next
  case (Cons s ss)
  define acc' where "acc' = acc OR push_bit s (ucast (byte_at i s))"
  have b: "bit acc' n \<longleftrightarrow> bit acc n \<or> s \<le> n \<and> n < s + 8 \<and> bit i n" if "n < 64" for n
    using Cons.prems that by (auto simp: acc'_def byte_at_eq bit_simps)
  have "varint_decode_tail (pre @ map (byte_at i) (s # ss) @ rest) (length pre) (s # ss) acc
      = varint_decode_tail ((pre @ [byte_at i s]) @ map (byte_at i) ss @ rest)
          (length (pre @ [byte_at i s])) ss acc'"
    by (simp add: varint_decode_tail.simps peek_at_def nth_append acc'_def)
  then show ?case
    using Cons.IH [of "pre @ [byte_at i s]" acc'] Cons.prems b by auto
qed

lemma tail_eq:
  assumes "\<forall>s \<in> set ss. s \<le> 56" and "bs = h # map (byte_at i) ss @ rest"
    and "\<forall>n < 64. bit v n \<longleftrightarrow> bit acc n \<or> (\<exists>s \<in> set ss. s \<le> n \<and> n < s + 8 \<and> bit i n)"
  shows "varint_decode_tail bs 1 ss acc = Inr v"
proof -
  obtain w where w: "varint_decode_tail bs 1 ss acc = Inr w"
    "\<forall>n < 64. bit w n \<longleftrightarrow> bit acc n \<or> (\<exists>s \<in> set ss. s \<le> n \<and> n < s + 8 \<and> bit i n)"
    using tail_bits [OF assms(1), of "[h]" i rest acc] assms(2) by auto
  have "v = w"
    using w(2) assms(3) by (intro bit_word_eqI) simp
  with w(1) show ?thesis by simp
qed

lemmas bits_below = and_not_mask [where k = 14] and_not_mask [where k = 21]
  and_not_mask [where k = 28] and_not_mask [where k = 36]

lemma eight_shifts:
  "n < 64 \<Longrightarrow> \<exists>s \<in> set [56, 48, 40, 32, 24, 16, 8, 0]. s \<le> n \<and> n < s + (8 :: nat)"
  by simp presburger

lemma payload_7: "i AND NOT (mask 7) = 0 \<Longrightarrow> ucast (ucast (0x7f AND i) :: u8) = (i :: i64)"
  by (rule bit_word_eqI) (auto simp: bit_simps bit_lits dest: and_not_mask)

lemma payload_14:
  "i AND NOT (mask 14) = 0 \<Longrightarrow>
   varint_decode_tail (ucast (0x80 OR (0x3f AND shr i 8)) # byte_at i 0 # rest) 1 [0]
     (push_bit 8 (ucast (ucast (0x80 OR (0x3f AND shr i 8)) AND 0x3f :: u8))) = Inr i"
  by (rule tail_eq [where i = i]) (auto simp: bit_simps bit_lits dest: bits_below)

lemma payload_21:
  "i AND NOT (mask 21) = 0 \<Longrightarrow>
   varint_decode_tail (ucast (0xc0 OR (0x1f AND shr i 16)) # byte_at i 8 # byte_at i 0 # rest) 1
     [8, 0] (push_bit 16 (ucast (ucast (0xc0 OR (0x1f AND shr i 16)) AND 0x1f :: u8))) = Inr i"
  by (rule tail_eq [where i = i]) (auto simp: bit_simps bit_lits dest: bits_below)

lemma payload_28:
  "i AND NOT (mask 28) = 0 \<Longrightarrow>
   varint_decode_tail
     (ucast (0xe0 OR (0x0f AND shr i 24)) # byte_at i 16 # byte_at i 8 # byte_at i 0 # rest) 1
     [16, 8, 0] (push_bit 24 (ucast (ucast (0xe0 OR (0x0f AND shr i 24)) AND 0x0f :: u8))) = Inr i"
  by (rule tail_eq [where i = i]) (auto simp: bit_simps bit_lits dest: bits_below)

lemma payload_32:
  "varint_decode_tail
     (h # byte_at i 24 # byte_at i 16 # byte_at i 8 # byte_at i 0 # rest) 1 [24, 16, 8, 0] 0
   = Inr (take_bit 32 i)"
  by (rule tail_eq [where i = i]) (auto simp: bit_simps)

lemma payload_64:
  "varint_decode_tail
     (h # byte_at i 56 # byte_at i 48 # byte_at i 40 # byte_at i 32 # byte_at i 24 # byte_at i 16
        # byte_at i 8 # byte_at i 0 # rest) 1 [56, 48, 40, 32, 24, 16, 8, 0] 0 = Inr i"
  by (rule tail_eq [where i = i]) (simp, simp, metis bit_0_eq bot_apply bot_bool_def eight_shifts)

lemma payload_bytes:
  assumes "0 \<le> sint i"
  shows "varint_decode_payload (varint_classify_i i) (varint_bytes i @ rest) = Inr (varint_stored i)"
proof -
  have stored: "varint_stored i = i" if "i AND NOT (mask k) = 0" "k \<le> 32" for k
  proof -
    have "uint i < 2 ^ k"
      using that(1) by (simp add: and_not_mask_iff take_bit_less_iff)
    also have "(2 :: int) ^ k \<le> 2 ^ 32"
      using that(2) by (intro power_increasing) auto
    finally show ?thesis
      by (simp add: varint_stored_def)
  qed
  have stored32: "varint_stored i = take_bit 32 i" if "i AND NOT (mask 36) = 0"
  proof -
    have "uint i < 2 ^ 36"
      using that by (simp only: and_not_mask_iff take_bit_less_iff)
    then show ?thesis
      using take_bit_less_iff [of 32 i] unfolding varint_stored_def by (metis not_less)
  qed
  have stored64: "varint_stored i = i" if "i AND NOT (mask 36) \<noteq> 0"
    using that by (auto simp: varint_stored_def and_not_mask_iff take_bit_less_iff)
  note defs = varint_bytes_def varint_decode_payload_def varint_tags peek_at_def
  show ?thesis
  proof (cases rule: classify_nonneg [OF assms, case_names P7 P14 P21 P28 P32 P64])
    case P7
    then show ?thesis by (simp add: defs stored payload_7)
  next
    case P14
    then show ?thesis by (simp add: defs stored payload_14 [unfolded One_nat_def])
  next
    case P21
    then show ?thesis by (simp add: defs stored payload_21 [unfolded One_nat_def])
  next
    case P28
    then show ?thesis by (simp add: defs stored payload_28 [unfolded One_nat_def])
  next
    case P32
    then show ?thesis by (simp add: defs stored32 payload_32 [unfolded One_nat_def])
  next
    case P64
    then show ?thesis by (simp add: defs stored64 payload_64 [unfolded One_nat_def])
  qed
qed

section \<open>Encoding and decoding a non-negative integer\<close>

lemma identify_bytes:
  assumes "0 \<le> sint i" "0 < lim"
  shows "varint_identify (Suc d) (varint_bytes i @ rest) lim
       = Inr (True, varint_classify_i i, VARINT_INVALID, length (varint_bytes i))"
proof -
  note defs = assms(2) varint_bytes_def peek_at_def header_class
  show ?thesis
    by (cases rule: classify_nonneg [OF assms(1)])
      (simp_all add: defs varint_tags header_class [unfolded varint_tags])
qed

lemma len_bytes:
  assumes "0 \<le> sint i"
  shows "varint_len_i i = Inr (length (varint_bytes i))"
  by (cases rule: classify_nonneg [OF assms])
    (simp_all add: varint_len_i.simps varint_bytes_def varint_tags)

lemma bytes_le_9: "0 < length (varint_bytes i)" "length (varint_bytes i) \<le> 9"
  by (simp_all add: varint_bytes_def Let_def)

lemma encode_bytes:
  assumes "0 \<le> sint i"
  shows "varint_encode buf lim i =
    (if length (varint_bytes i) \<le> lim then
       rbind (write_block buf 0 (varint_bytes i)) (\<lambda>b. Inr (length (varint_bytes i), b))
     else Inr (0, buf))"
  by (cases rule: classify_nonneg [OF assms])
    (auto simp: varint_encode.simps [of buf lim i] varint_bytes_def varint_tags
      poke_at_def write_block_def upd_conv_take_nth_drop not_less
      Suc_le_eq)

section \<open>Every integer\<close>

text \<open>
  The reference for all values but the least: the bytes stored, and what reading them back gives.
\<close>

definition varint_image :: "i64 \<Rightarrow> bytes" where
  "varint_image i =
     (if sint i < -3 then VARINT_NEG_R # varint_bytes (- i)
      else if sint i < 0 then [ucast (0xfc OR (0x03 AND (- i)))]
      else varint_bytes i)"

definition varint_value :: "i64 \<Rightarrow> i64" where
  "varint_value i =
     (if sint i < -3 then - varint_stored (- i)
      else if sint i < 0 then - i
      else varint_stored i)"

lemma classify_image:
  "sint i < -3 \<Longrightarrow> varint_classify_i i = VARINT_NEG_R"
  "\<not> sint i < -3 \<Longrightarrow> sint i < 0 \<Longrightarrow> varint_classify_i i = VARINT_NEG_2"
  by (simp_all add: varint_classify_i_def)

lemma stored_range: "0 \<le> sint i \<Longrightarrow> varint_stored i \<noteq> 0x8000000000000000"
proof (rule notI)
  assume "0 \<le> sint i" and *: "varint_stored i = 0x8000000000000000"
  have "take_bit 32 i \<noteq> 0x8000000000000000"
    by (rule notI, drule arg_cong [where f = "\<lambda>w. bit w 63"]) (simp add: bit_simps)
  with * have "i = 0x8000000000000000"
    by (auto simp: varint_stored_def split: if_splits)
  with \<open>0 \<le> sint i\<close> show False
    by simp
qed

lemma neg_2_values:
  assumes "\<not> sint (i :: i64) < -3" "sint i < 0"
  shows "i = -1 \<or> i = -2 \<or> i = -3"
proof -
  have "sint i = -1 \<or> sint i = -2 \<or> sint i = -3"
    using assms by linarith
  then have "sint i = sint (-1 :: i64) \<or> sint i = sint (-2 :: i64) \<or> sint i = sint (-3 :: i64)"
    by simp
  then show ?thesis
    by (metis signed_word_eqI)
qed

lemma neg_tags: "VARINT_NEG_2 \<noteq> VARINT_NEG_R" "VARINT_NEG_R \<noteq> VARINT_NEG_2"
  by (simp_all add: varint_tags)

lemma len_image:
  assumes "i \<noteq> 0x8000000000000000"
  shows "varint_len_i i = Inr (length (varint_image i))"
proof (cases "sint i < 0")
  case True
  then show ?thesis
    using assms
    by (auto simp: varint_image_def len_bytes varint_len_i.simps [of i] classify_image
      neg_i64_def sint_neg_i64 neg_tags)
next
  case False
  then show ?thesis
    by (simp add: varint_image_def len_bytes)
qed

lemma identify_neg_r:
  "0 < lim \<Longrightarrow> varint_identify (Suc d) (VARINT_NEG_R # bs) lim =
    rbind (varint_identify d bs (lim - 1)) (\<lambda>(ok, rt, _, len).
      if ok then Inr (True, VARINT_NEG_R, rt, len + 1)
      else Inr (False, VARINT_INVALID, rt, 0))"
  by (auto simp: peek_at_def header_class split: prod.splits intro!: arg_cong2 [where f = rbind])

lemma identify_neg_2:
  "0 < lim \<Longrightarrow> varint_identify (Suc d) (ucast (0xfc OR (0x03 AND (x :: u64))) # bs) lim =
    Inr (True, VARINT_NEG_2, VARINT_INVALID, 1)"
  by (simp add: peek_at_def header_class neg_tags)

lemma encode_image:
  assumes "i \<noteq> 0x8000000000000000" "length (varint_image i) \<le> lim" "lim \<le> length buf"
  shows "varint_encode buf lim i =
    Inr (if sint i < -3 then length (varint_image i) - 1 else length (varint_image i),
         varint_image i @ drop (length (varint_image i)) buf)"
proof -
  obtain c cs where buf: "buf = c # cs"
    using assms(2,3) bytes_le_9 [of i] by (cases buf) (auto simp: varint_image_def split: if_splits)
  consider (R) "sint i < -3" | (N) "\<not> sint i < -3" "sint i < 0" | (P) "0 \<le> sint i"
    by linarith
  then show ?thesis
  proof cases
    case R
    then have "0 \<le> sint (- i)"
      using sint_neg_i64 [OF assms(1)] by simp
    moreover have "length (varint_bytes (- i)) \<le> lim - Suc 0" "\<not> lim < 2"
      using R assms(2) bytes_le_9(1) [of "- i"]
      by (auto simp: varint_image_def neq_Nil_conv)
    ultimately show ?thesis
      using R assms bytes_le_9 [of "- i"]
      by (simp add: varint_encode.simps [of _ _ i] classify_image poke_at_def neg_i64_def
        encode_bytes varint_image_def buf write_block_def)
  next
    case N
    then have "neg_i64 i = Inr (- i)" "0 < lim"
      using assms by (auto simp: neg_i64_def varint_image_def)
    with N show ?thesis
      by (simp add: varint_encode.simps [of _ _ i] classify_image poke_at_def
        varint_image_def buf varint_tags)
  next
    case P
    then show ?thesis
      using assms by (simp add: encode_bytes varint_image_def write_block_def)
  qed
qed

lemma decode_image:
  assumes "i \<noteq> 0x8000000000000000" "1 < lim"
  shows "varint_decode (varint_image i @ rest) lim = Inr (length (varint_image i), varint_value i)"
proof -
  consider (R) "sint i < -3" | (N) "\<not> sint i < -3" "sint i < 0" | (P) "0 \<le> sint i"
    by linarith
  then show ?thesis
  proof cases
    case R
    then have "0 \<le> sint (- i)"
      using sint_neg_i64 [OF assms(1)] by simp
    with R assms(2) show ?thesis
      by (simp add: varint_decode_def varint_image_def varint_value_def numeral_2_eq_2
        identify_neg_r identify_bytes payload_bytes neg_i64_def stored_range
        del: varint_identify.simps)
  next
    case N
    have "ucast (ucast (0xfc OR (0x03 AND (- i))) AND 0x03 :: u8) = - i"
      using neg_2_values [OF N] by auto
    then have "varint_decode_payload VARINT_NEG_2 (ucast (0xfc OR (0x03 AND (- i))) # rest)
        = Inr (- i)"
      by (simp add: varint_decode_payload_def peek_at_def)
    with N assms(2) show ?thesis
      by (simp add: varint_decode_def varint_image_def varint_value_def numeral_2_eq_2
        identify_neg_2 neg_tags del: varint_identify.simps)
  next
    case P
    then show ?thesis
      using assms(2)
      by (simp add: varint_decode_def varint_image_def varint_value_def numeral_2_eq_2
        identify_bytes payload_bytes classify_neg_r del: varint_identify.simps)
  qed
qed

text \<open>The values that survive: all but -1, -2, -3 and those of magnitude from 2^32 to 2^36 - 1.\<close>

definition varint_exact :: "i64 \<Rightarrow> bool" where
  "varint_exact i \<longleftrightarrow>
     \<not> (-3 \<le> sint i \<and> sint i < 0) \<and> \<not> (2 ^ 32 \<le> \<bar>sint i\<bar> \<and> \<bar>sint i\<bar> < 2 ^ 36)"

lemma stored_exact:
  assumes "0 \<le> sint i"
  shows "varint_stored i = i \<longleftrightarrow> \<not> (2 ^ 32 \<le> sint i \<and> sint i < 2 ^ 36)"
proof -
  have "take_bit 32 i = i \<longleftrightarrow> \<not> 2 ^ 32 \<le> sint i"
    unfolding take_bit_less_iff uint_sint_nonneg [OF assms] by (simp add: not_le)
  then show ?thesis
    unfolding varint_stored_def uint_sint_nonneg [OF assms] by simp
qed

lemma value_exact:
  assumes "i \<noteq> 0x8000000000000000"
  shows "varint_value i = i \<longleftrightarrow> varint_exact i"
proof (cases "sint i < -3")
  case True
  then have n: "0 \<le> sint (- i)" "\<bar>sint i\<bar> = sint (- i)"
    using sint_neg_i64 [OF assms] by simp_all
  have "varint_value i = i \<longleftrightarrow> varint_stored (- i) = - i"
    using True minus_equation_iff [of "varint_stored (- i)" i] by (auto simp: varint_value_def)
  also have "\<dots> \<longleftrightarrow> varint_exact i"
    using True unfolding stored_exact [OF n(1)] varint_exact_def n(2) by auto
  finally show ?thesis .
next
  case F: False
  show ?thesis
  proof (cases "sint i < 0")
    case True
    then show ?thesis
      using F neg_2_values [OF F True] by (auto simp: varint_value_def varint_exact_def)
  next
    case False
    then show ?thesis
      using F stored_exact [of i] by (simp add: varint_value_def varint_exact_def)
  qed
qed

section \<open>Properties\<close>

text \<open>
  C36. Decoding what was encoded. For every \<open>int64_t\<close> but the least, a limit that \<open>varint_len_i\<close>
  fits in and that the buffer really has, \<open>varint_encode\<close> followed by \<open>varint_decode\<close> runs without
  a fault, leaves the buffer unchanged behind the encoded bytes, reports \<open>varint_len_i\<close> bytes
  consumed, and gives the same value back exactly when the value is not one of -1, -2, -3 and its
  magnitude is not between 2^32 and 2^36 - 1.
\<close>

theorem varint_roundtrip:
  assumes "i \<noteq> 0x8000000000000000" and "varint_len_i i = Inr len"
    and "len \<le> lim" "1 < lim" "lim \<le> length buf"
  shows "\<exists>n buf' j. varint_encode buf lim i = Inr (n, buf') \<and> drop len buf' = drop len buf \<and>
    length buf' = length buf \<and>
    varint_decode buf' lim = Inr (len, j) \<and> (j = i \<longleftrightarrow> varint_exact i)"
  using assms by (auto simp: len_image encode_image decode_image value_exact)

theorem varint_roundtrip_witness:
  "\<exists>n buf' j. varint_encode [1, 2, 3, 4, 5, 6, 7, 8, 9, 10] 10 (-300) = Inr (n, buf') \<and>
    drop 3 buf' = drop 3 [1, 2, 3, 4, 5, 6, 7, 8, 9, 10] \<and>
    length buf' = length [1, 2, 3, 4, 5, 6, 7, 8, 9, 10 :: u8] \<and>
    varint_decode buf' 10 = Inr (3, j) \<and> (j = -300 \<longleftrightarrow> varint_exact (-300))"
proof (rule varint_roundtrip)
  show "varint_len_i (-300) = Inr 3"
    by (simp add: varint_len_i.simps varint_classify_i_def varint_tags neg_i64_def)
qed simp_all

text \<open>
  The count \<open>varint_encode\<close> reports is \<open>varint_len_i\<close> for values from -3 on, but one byte less
  than what it stored for every value below -3 (the marker byte is not counted).
\<close>

theorem varint_encode_count:
  assumes "i \<noteq> 0x8000000000000000" and "varint_len_i i = Inr len"
    and "len \<le> lim" "lim \<le> length buf"
  shows "\<exists>buf'. varint_encode buf lim i = Inr (if sint i < -3 then len - 1 else len, buf')"
  using assms by (auto simp: len_image encode_image)

theorem varint_encode_count_witness:
  "\<exists>buf'. varint_encode [0, 0, 0] 3 (-300) = Inr (if sint (-300 :: i64) < -3 then 3 - 1 else 3, buf')"
proof (rule varint_encode_count)
  show "varint_len_i (-300) = Inr 3"
    by (simp add: varint_len_i.simps varint_classify_i_def varint_tags neg_i64_def)
qed simp_all

lemma encode_zero_tail:
  assumes "0 \<le> sint i" "lim < length (varint_bytes i)"
  shows "varint_encode buf lim i = Inr (0, buf)"
  using assms by (simp add: encode_bytes)

lemma encode_short:
  assumes "i \<noteq> 0x8000000000000000" "lim < length (varint_image i)" "lim \<le> length buf"
  shows "\<exists>buf'. varint_encode buf lim i = Inr (0, buf') \<and> length buf' = length buf \<and>
    drop lim buf' = drop lim buf"
proof (cases "sint i < -3 \<and> 2 \<le> lim")
  case True
  then obtain c cs where buf: "buf = c # cs"
    using assms(3) by (cases buf) auto
  have "0 \<le> sint (- i)" "lim - Suc 0 < length (varint_bytes (- i))"
    using True assms sint_neg_i64 [OF assms(1)] by (auto simp: varint_image_def)
  then show ?thesis
    using True assms(1)
    by (cases lim) (auto simp: varint_encode.simps [of _ _ i] classify_image poke_at_def
      neg_i64_def encode_zero_tail buf)
next
  case F: False
  show ?thesis
  proof (cases "sint i < 0")
    case True
    then show ?thesis
      using F assms
      by (cases "sint i < -3")
        (auto simp: varint_encode.simps [of _ _ i] varint_image_def classify_image Let_def)
  next
    case False
    then show ?thesis
      using assms(2) by (simp add: varint_image_def encode_zero_tail)
  qed
qed

lemma encode_least:
  assumes "lim \<le> length buf"
  shows "varint_encode buf lim 0x8000000000000000 = (if lim < 2 then Inr (0, buf) else Inl SignedOverflow)"
  using assms by (cases buf) (auto simp: varint_encode.simps [of _ _ "0x8000000000000000"] varint_classify_i_def
      varint_tags neg_i64_def poke_at_def)



lemma decode_tail_short:
  "length buf < k + length ss \<Longrightarrow> ss \<noteq> [] \<Longrightarrow> varint_decode_tail buf k ss acc = Inl MemFault"
proof (induction ss arbitrary: k acc)
  case (Cons s ss)
  show ?case
  proof (cases "k < length buf")
    case True
    then have "ss \<noteq> []"
      using Cons.prems by auto
    then show ?thesis
      using True Cons by (simp add: varint_decode_tail.simps peek_at_def)
  next
    case False
    then show ?thesis
      by (simp add: varint_decode_tail.simps peek_at_def)
  qed
qed simp

text \<open>
  \<open>varint_decode\<close> checks its limit against the header byte only: on a nine byte header it reads
  nine bytes whatever \<open>lim\<close> is, outside the buffer when the buffer is shorter.
\<close>

theorem varint_decode_overread:
  assumes "0 < lim" and "varint_classify_v b0 = VARINT_POS_64" and "length rest < 8"
  shows "varint_decode (b0 # rest) lim = Inl MemFault"
  using assms
  by (simp add: varint_decode_def numeral_2_eq_2 peek_at_def varint_decode_payload_def
    decode_tail_short) (simp add: varint_tags varint_decode_payload_def decode_tail_short)

theorem varint_decode_overread_witness: "varint_decode [0xf4, 1, 2] 3 = Inl MemFault"
  by (rule varint_decode_overread) (simp_all add: varint_classify_v_def varint_tags)

end
