(* ===== verification/Key_Encoder.thy ===== *)
theory Key_Encoder
  imports Aqua_Prelude
begin

text \<open>
  The memory-comparable encodings of \<open>db/key_encoder.h\<close>: the functions that make the unsigned
  byte-wise order of a stored key agree with the order of the value it was built from.

  The byte order of the host is the first argument \<open>big\<close> of every function that asks
  \<open>is_big_endian()\<close>; every theorem holds for both. A \<open>float\<close> or \<open>double\<close> is its IEEE 754 bit pattern,
  which is what the \<open>reinterpret_cast\<close>s of the code work on.
\<close>

section \<open>Memory order\<close>

text \<open>
  The n bytes of a word, most significant first, and the bytes an object of that word has in the
  memory of the host.
\<close>

definition be_bytes :: "nat \<Rightarrow> 'a::len word \<Rightarrow> bytes" where
  "be_bytes n w = map (\<lambda>k. ucast (drop_bit (8 * k) w)) (rev [0..<n])"

definition host_bytes :: "bool \<Rightarrow> nat \<Rightarrow> 'a::len word \<Rightarrow> bytes" where
  "host_bytes big n w = (if big then be_bytes n w else rev (be_bytes n w))"

fun be_word :: "bytes \<Rightarrow> 'a::len word" where
  "be_word [] = 0"
| "be_word (b # bs) = push_bit (8 * length bs) (ucast b) OR be_word bs"

definition host_word :: "bool \<Rightarrow> bytes \<Rightarrow> 'a::len word" where
  "host_word big bs = (if big then be_word bs else be_word (rev bs))"

section \<open>The code\<close>

text \<open>\<open>i\<close> is the \<open>int16_t\<close> 0x1234 and \<open>c\<close> its first two bytes in memory.\<close>

definition is_big_endian :: "bool \<Rightarrow> bool" where
  "is_big_endian big =
     (let c = host_bytes big 2 (0x1234 :: i16) in c ! 1 = 0x34 \<and> c ! 0 = 0x12)"

definition to_endian_u16 :: "bool \<Rightarrow> u16 \<Rightarrow> u16" where
  "to_endian_u16 big w =
     (if is_big_endian big then w
      else push_bit 8 (w AND 0x00FF) OR drop_bit 8 (w AND 0xFF00))"

definition to_endian_u32 :: "bool \<Rightarrow> u32 \<Rightarrow> u32" where
  "to_endian_u32 big w =
     (if is_big_endian big then w
      else push_bit 24 (w AND 0x000000FF) OR push_bit 8 (w AND 0x0000FF00) OR
           drop_bit 8 (w AND 0x00FF0000) OR drop_bit 24 (w AND 0xFF000000))"

definition to_endian_u64 :: "bool \<Rightarrow> u64 \<Rightarrow> u64" where
  "to_endian_u64 big w =
     (if is_big_endian big then w
      else push_bit 56 (w AND 0x00000000000000FF) OR push_bit 40 (w AND 0x000000000000FF00) OR
           push_bit 24 (w AND 0x0000000000FF0000) OR push_bit 8 (w AND 0x00000000FF000000) OR
           drop_bit 8 (w AND 0x000000FF00000000) OR drop_bit 24 (w AND 0x0000FF0000000000) OR
           drop_bit 40 (w AND 0x00FF000000000000) OR drop_bit 56 (w AND 0xFF00000000000000))"

definition to_little_endian_u16 :: "bool \<Rightarrow> u16 \<Rightarrow> u16" where
  "to_little_endian_u16 big w =
     (if \<not> is_big_endian big then w
      else push_bit 8 (w AND 0x00FF) OR drop_bit 8 (w AND 0xFF00))"

definition to_little_endian_u32 :: "bool \<Rightarrow> u32 \<Rightarrow> u32" where
  "to_little_endian_u32 big w =
     (if \<not> is_big_endian big then w
      else push_bit 24 (w AND 0x000000FF) OR push_bit 8 (w AND 0x0000FF00) OR
           drop_bit 8 (w AND 0x00FF0000) OR drop_bit 24 (w AND 0xFF000000))"

definition to_little_endian_u64 :: "bool \<Rightarrow> u64 \<Rightarrow> u64" where
  "to_little_endian_u64 big w =
     (if \<not> is_big_endian big then w
      else push_bit 56 (w AND 0x00000000000000FF) OR push_bit 40 (w AND 0x000000000000FF00) OR
           push_bit 24 (w AND 0x0000000000FF0000) OR push_bit 8 (w AND 0x00000000FF000000) OR
           drop_bit 8 (w AND 0x000000FF00000000) OR drop_bit 24 (w AND 0x0000FF0000000000) OR
           drop_bit 40 (w AND 0x00FF000000000000) OR drop_bit 56 (w AND 0xFF00000000000000))"

definition SIGN_MASK_08 :: u8 where "SIGN_MASK_08 = 0x80"
definition SIGN_MASK_16 :: u16 where "SIGN_MASK_16 = 0x8000"
definition SIGN_MASK_32 :: u32 where "SIGN_MASK_32 = 0x80000000"
definition SIGN_MASK_64 :: u64 where "SIGN_MASK_64 = 0x8000000000000000"

definition encode_i8 :: "i8 \<Rightarrow> u8" where "encode_i8 v = v XOR SIGN_MASK_08"
definition decode_i8 :: "u8 \<Rightarrow> i8" where "decode_i8 w = w XOR SIGN_MASK_08"
definition encode_i16 :: "i16 \<Rightarrow> u16" where "encode_i16 v = v XOR SIGN_MASK_16"
definition decode_i16 :: "u16 \<Rightarrow> i16" where "decode_i16 w = w XOR SIGN_MASK_16"
definition encode_i32 :: "i32 \<Rightarrow> u32" where "encode_i32 v = v XOR SIGN_MASK_32"
definition decode_i32 :: "u32 \<Rightarrow> i32" where "decode_i32 w = w XOR SIGN_MASK_32"
definition encode_i64 :: "i64 \<Rightarrow> u64" where "encode_i64 v = v XOR SIGN_MASK_64"
definition decode_i64 :: "u64 \<Rightarrow> i64" where "decode_i64 w = w XOR SIGN_MASK_64"

text \<open>
  The comparison \<open>in > 0\<close> on bit patterns: the sign bit is clear and the rest is neither zero nor
  a NaN (exponent all ones, fraction not zero).
\<close>

definition f32_nan :: "u32 \<Rightarrow> bool" where "f32_nan w \<longleftrightarrow> 0x7f800000 < w AND 0x7fffffff"
definition f64_nan :: "u64 \<Rightarrow> bool" where
  "f64_nan w \<longleftrightarrow> 0x7ff0000000000000 < w AND 0x7fffffffffffffff"

definition f32_gt_0 :: "u32 \<Rightarrow> bool" where
  "f32_gt_0 w \<longleftrightarrow> \<not> f32_nan w \<and> \<not> bit w 31 \<and> w \<noteq> 0"
definition f64_gt_0 :: "u64 \<Rightarrow> bool" where
  "f64_gt_0 w \<longleftrightarrow> \<not> f64_nan w \<and> \<not> bit w 63 \<and> w \<noteq> 0"

definition encode_f32 :: "u32 \<Rightarrow> u32" where
  "encode_f32 w = (if f32_gt_0 w then w OR SIGN_MASK_32 else NOT w)"

definition decode_f32 :: "u32 \<Rightarrow> u32" where
  "decode_f32 w =
     (if drop_bit 31 (w AND SIGN_MASK_32) > 0 then w AND NOT SIGN_MASK_32 else NOT w)"

definition encode_f64 :: "u64 \<Rightarrow> u64" where
  "encode_f64 w = (if f64_gt_0 w then w OR SIGN_MASK_64 else NOT w)"

definition decode_f64 :: "u64 \<Rightarrow> u64" where
  "decode_f64 w =
     (if drop_bit 63 (w AND SIGN_MASK_64) > 0 then w AND NOT SIGN_MASK_64 else NOT w)"

section \<open>Bytes of words\<close>

lemma is_big_endian [simp]: "is_big_endian big = big"
proof -
  have "is_big_endian True" "\<not> is_big_endian False"
    by code_simp+
  then show ?thesis
    by (cases big) simp_all
qed

lemma be_bytes_length [simp]: "length (be_bytes n w) = n"
  by (simp add: be_bytes_def)

lemma host_bytes_length [simp]: "length (host_bytes big n w) = n"
  by (simp add: host_bytes_def)

lemma be_bytes_0 [simp]: "be_bytes 0 w = []"
  by (simp add: be_bytes_def)

lemma be_bytes_Suc: "be_bytes (Suc n) w = ucast (drop_bit (8 * n) w) # be_bytes n w"
  by (simp add: be_bytes_def)

lemma be_word_bit:
  assumes "8 * n \<le> LENGTH('a)"
  shows "bit (be_word (be_bytes n w) :: 'a::len word) k \<longleftrightarrow> k < 8 * n \<and> bit (w :: 'a word) k"
  using assms
proof (induction n)
  case (Suc n)
  then show ?case
    by (auto simp: be_bytes_Suc bit_simps not_less dest: less_le_trans)
qed simp

lemma be_word_bytes:
  assumes "LENGTH('a::len) = 8 * n"
  shows "be_word (be_bytes n w) = (w :: 'a word)"
  using assms by (intro bit_word_eqI) (simp add: be_word_bit)

lemma host_word_bytes:
  assumes "LENGTH('a::len) = 8 * n"
  shows "host_word big (host_bytes big n w) = (w :: 'a word)"
  using assms by (simp add: host_word_def host_bytes_def be_word_bytes)

text \<open>The big-endian bytes compare as the words do.\<close>

lemma lex_step:
  assumes "0 \<le> (r :: int)" "r < B" "0 \<le> s" "s < B"
  shows "B * p + r < B * q + s \<longleftrightarrow> p < q \<or> p = q \<and> r < s"
proof -
  have "B * p + B \<le> B * q" if "p < q" for p q
    using that assms mult_left_mono [of "p + 1" q B] by (simp add: algebra_simps)
  from this [of p q] this [of q p] show ?thesis
    using assms by (cases p q rule: linorder_cases) auto
qed

lemma take_bit_step:
  "take_bit (8 * Suc n) x = 2 ^ (8 * n) * take_bit 8 (drop_bit (8 * n) x) + take_bit (8 * n) (x :: int)"
proof -
  have "take_bit (8 * n + 8) x = push_bit (8 * n) (take_bit 8 (drop_bit (8 * n) x)) OR take_bit (8 * n) x"
    by (rule bit_eqI) (auto simp: bit_simps)
  also have "\<dots> = push_bit (8 * n) (take_bit 8 (drop_bit (8 * n) x)) + take_bit (8 * n) x"
    by (rule disjunctive_add_eq_or [symmetric]) (rule bit_eqI, auto simp: bit_simps)
  finally show ?thesis
    by (simp add: push_bit_eq_mult mult.commute add.commute)
qed

lemma be_bytes_less:
  "be_bytes n (a :: 'a::len word) < be_bytes n (b :: 'a word) \<longleftrightarrow>
   take_bit (8 * n) (uint a) < take_bit (8 * n) (uint b)"
proof (induction n)
  case (Suc n)
  let ?t = "\<lambda>w :: 'a word. take_bit 8 (drop_bit (8 * n) (uint w))"
  have top: "uint (ucast (drop_bit (8 * n) w) :: u8) = ?t w" for w :: "'a word"
    by (simp add: unsigned_ucast_eq unsigned_drop_bit_eq bintr_uint)
  have "ucast (drop_bit (8 * n) a) < (ucast (drop_bit (8 * n) b) :: u8) \<longleftrightarrow> ?t a < ?t b"
    "ucast (drop_bit (8 * n) a) = (ucast (drop_bit (8 * n) b) :: u8) \<longleftrightarrow> ?t a = ?t b"
    unfolding word_less_def word_uint_eq_iff top by simp_all
  then show ?case
    using Suc lex_step [of "take_bit (8 * n) (uint a)" "2 ^ (8 * n)" "take_bit (8 * n) (uint b)"]
    unfolding be_bytes_Suc Cons_less_Cons take_bit_step by simp
qed simp

lemma be_bytes_order:
  assumes "LENGTH('a::len) = 8 * n"
  shows "be_bytes n a < be_bytes n b \<longleftrightarrow> a < (b :: 'a word)"
  unfolding be_bytes_less by (simp add: assms [symmetric] bintr_uint word_less_def)

section \<open>Byte swapping\<close>

lemma byte_masks [bit_lits]:
  "bit (0xFF00 :: int) k \<longleftrightarrow> 8 \<le> k \<and> k < 16"
  "bit (0xFF0000 :: int) k \<longleftrightarrow> 16 \<le> k \<and> k < 24"
  "bit (0xFF000000 :: int) k \<longleftrightarrow> 24 \<le> k \<and> k < 32"
  "bit (0xFF00000000 :: int) k \<longleftrightarrow> 32 \<le> k \<and> k < 40"
  "bit (0xFF0000000000 :: int) k \<longleftrightarrow> 40 \<le> k \<and> k < 48"
  "bit (0xFF000000000000 :: int) k \<longleftrightarrow> 48 \<le> k \<and> k < 56"
  "bit (0xFF00000000000000 :: int) k \<longleftrightarrow> 56 \<le> k \<and> k < 64"
proof -
  have *: "bit (push_bit m (mask 8) :: int) k \<longleftrightarrow> m \<le> k \<and> k < m + 8" for m
    by (auto simp: bit_simps)
  show
    "bit (0xFF00 :: int) k \<longleftrightarrow> 8 \<le> k \<and> k < 16"
    "bit (0xFF0000 :: int) k \<longleftrightarrow> 16 \<le> k \<and> k < 24"
    "bit (0xFF000000 :: int) k \<longleftrightarrow> 24 \<le> k \<and> k < 32"
    "bit (0xFF00000000 :: int) k \<longleftrightarrow> 32 \<le> k \<and> k < 40"
    "bit (0xFF0000000000 :: int) k \<longleftrightarrow> 40 \<le> k \<and> k < 48"
    "bit (0xFF000000000000 :: int) k \<longleftrightarrow> 48 \<le> k \<and> k < 56"
    "bit (0xFF00000000000000 :: int) k \<longleftrightarrow> 56 \<le> k \<and> k < 64"
    using * [of 8] * [of 16] * [of 24] * [of 32] * [of 40] * [of 48] * [of 56]
    by (simp_all add: push_bit_eq_mult mask_eq_exp_minus_1)
qed

lemmas be_bytes_expand = be_bytes_def upt_conv_Cons

lemma swap16_bytes: "rev (be_bytes 2 (to_endian_u16 False w)) = be_bytes 2 w"
  by (simp add: be_bytes_expand to_endian_u16_def)
    (intro conjI bit_word_eqI; auto simp: bit_simps bit_lits)

lemma swap32_bytes: "rev (be_bytes 4 (to_endian_u32 False w)) = be_bytes 4 w"
  by (simp add: be_bytes_expand to_endian_u32_def)
    (intro conjI bit_word_eqI; auto simp: bit_simps bit_lits)

lemma swap64_bytes: "rev (be_bytes 8 (to_endian_u64 False w)) = be_bytes 8 w"
  by (simp add: be_bytes_expand to_endian_u64_def)
    (intro conjI bit_word_eqI; auto simp: bit_simps bit_lits)

text \<open>
  What a key holds: the object bytes of \<open>to_endian\<close> of a word are its big-endian bytes, on either
  host, and reading them back and swapping again gives the word.
\<close>

lemma endian_u16_bytes: "host_bytes big 2 (to_endian_u16 big w) = be_bytes 2 w"
  by (cases big) (simp_all add: host_bytes_def swap16_bytes to_endian_u16_def [of True])

lemma endian_u32_bytes: "host_bytes big 4 (to_endian_u32 big w) = be_bytes 4 w"
  by (cases big) (simp_all add: host_bytes_def swap32_bytes to_endian_u32_def [of True])

lemma endian_u64_bytes: "host_bytes big 8 (to_endian_u64 big w) = be_bytes 8 w"
  by (cases big) (simp_all add: host_bytes_def swap64_bytes to_endian_u64_def [of True])

lemma be_bytes_inj:
  assumes "LENGTH('a::len) = 8 * n" "be_bytes n v = be_bytes n (w :: 'a word)"
  shows "v = w"
  using assms be_word_bytes by metis

lemma swap16_swap: "to_endian_u16 big (to_endian_u16 big w) = w"
  by (rule bit_word_eqI) (auto simp: to_endian_u16_def bit_simps bit_lits)

lemma swap32_swap: "to_endian_u32 big (to_endian_u32 big w) = w"
proof -
  have "host_bytes True 4 w = rev (host_bytes False 4 w)" for w :: u32
    by (simp add: host_bytes_def)
  then have "be_bytes 4 (to_endian_u32 False (to_endian_u32 False w)) = be_bytes 4 w"
    using swap32_bytes [of w] swap32_bytes [of "to_endian_u32 False w"] by (metis rev_rev_ident)
  then show ?thesis
    by (cases big) (auto dest: be_bytes_inj [rotated] simp: to_endian_u32_def [of True])
qed

lemma swap64_swap: "to_endian_u64 big (to_endian_u64 big w) = w"
proof -
  have "be_bytes 8 (to_endian_u64 False (to_endian_u64 False w)) = be_bytes 8 w"
    using swap64_bytes [of w] swap64_bytes [of "to_endian_u64 False w"] by (metis rev_rev_ident)
  then show ?thesis
    by (cases big) (auto dest: be_bytes_inj [rotated] simp: to_endian_u64_def [of True])
qed

lemma host_u16_back: "to_endian_u16 big (host_word big (be_bytes 2 w)) = w"
  using host_word_bytes [where n = 2 and w = "to_endian_u16 big w" and big = big]
  by (simp add: endian_u16_bytes swap16_swap)

lemma host_u32_back: "to_endian_u32 big (host_word big (be_bytes 4 w)) = w"
  using host_word_bytes [where n = 4 and w = "to_endian_u32 big w" and big = big]
  by (simp add: endian_u32_bytes swap32_swap)

lemma host_u64_back: "to_endian_u64 big (host_word big (be_bytes 8 w)) = w"
  using host_word_bytes [where n = 8 and w = "to_endian_u64 big w" and big = big]
  by (simp add: endian_u64_bytes swap64_swap)

section \<open>Signed order\<close>

text \<open>Flipping the sign bit adds half of the range, which turns the signed order into the unsigned one.\<close>

lemma xor_top:
  "(w :: 'a::len word) XOR push_bit (LENGTH('a) - Suc 0) 1 = w + push_bit (LENGTH('a) - Suc 0) 1"
proof (cases "bit w (LENGTH('a) - Suc 0)")
  case False
  then have "w AND push_bit (LENGTH('a) - Suc 0) 1 = 0"
    by (intro bit_word_eqI) (auto simp: bit_simps dest: le_antisym)
  then show ?thesis
    by (simp only: disjunctive_add_eq_xor)
next
  case True
  let ?m = "push_bit (LENGTH('a) - Suc 0) 1 :: 'a word"
  have "(w XOR ?m) AND ?m = 0"
    using True by (intro bit_word_eqI) (auto simp: bit_simps)
  then have "(w XOR ?m) + ?m = (w XOR ?m) XOR ?m"
    by (simp only: disjunctive_add_eq_xor)
  also have "\<dots> = w"
    by (simp add: xor.assoc)
  finally have "w + ?m = (w XOR ?m) + (?m + ?m)"
    by (simp add: algebra_simps)
  also have "?m + ?m = 2 ^ Suc (LENGTH('a) - Suc 0)"
    by (simp only: push_bit_eq_mult power_Suc mult_1 mult_2)
  also have "\<dots> = (0 :: 'a word)"
    by (metis Suc_pred' len_gt_0 One_nat_def word_exp_length_eq_0)
  finally show ?thesis
    by simp
qed

lemma unsigned_power_top: "uint (2 ^ (LENGTH('a) - Suc 0) :: 'a::len word) = 2 ^ (LENGTH('a) - Suc 0)"
proof -
  have "uint (push_bit (LENGTH('a) - Suc 0) 1 :: 'a word)
      = take_bit LENGTH('a) (push_bit (LENGTH('a) - Suc 0) (1 :: int))"
    by (simp only: unsigned_push_bit_eq unsigned_1)
  also have "\<dots> = push_bit (LENGTH('a) - Suc 0) 1"
    by (rule bit_eqI) (auto simp: bit_simps)
  finally show ?thesis
    by (simp add: push_bit_eq_mult)
qed

lemma uint_xor_top:
  "uint ((w :: 'a::len word) XOR push_bit (LENGTH('a) - Suc 0) 1) = sint w + 2 ^ (LENGTH('a) - Suc 0)"
proof -
  have "sint w = take_bit (Suc (LENGTH('a) - Suc 0)) (uint w + 2 ^ (LENGTH('a) - Suc 0)) - 2 ^ (LENGTH('a) - Suc 0)"
    unfolding sint_uint by (rule signed_take_bit_eq_take_bit_shift)
  moreover have "uint (push_bit (LENGTH('a) - Suc 0) 1 :: 'a word) = 2 ^ (LENGTH('a) - Suc 0)"
    by (simp add: push_bit_eq_mult unsigned_power_top)
  ultimately show ?thesis
    unfolding xor_top by (simp add: uint_word_ariths take_bit_eq_mod)
qed

lemma xor_top_less:
  assumes "m = push_bit (LENGTH('a) - Suc 0) 1"
  shows "v XOR m < w XOR m \<longleftrightarrow> sint (v :: 'a::len word) < sint w"
  unfolding assms word_less_def uint_xor_top by simp

lemma encode_order:
  "encode_i8 a8 < encode_i8 b8 \<longleftrightarrow> sint a8 < sint b8"
  "encode_i16 a16 < encode_i16 b16 \<longleftrightarrow> sint a16 < sint b16"
  "encode_i32 a32 < encode_i32 b32 \<longleftrightarrow> sint a32 < sint b32"
  "encode_i64 a64 < encode_i64 b64 \<longleftrightarrow> sint a64 < sint b64"
  unfolding encode_i8_def encode_i16_def encode_i32_def encode_i64_def
    SIGN_MASK_08_def SIGN_MASK_16_def SIGN_MASK_32_def SIGN_MASK_64_def
  by (rule xor_top_less, simp add: push_bit_eq_mult)+

lemma decode_encode:
  "decode_i8 (encode_i8 a8) = a8" "decode_i16 (encode_i16 a16) = a16"
  "decode_i32 (encode_i32 a32) = a32" "decode_i64 (encode_i64 a64) = a64"
  by (simp_all add: encode_i8_def encode_i16_def encode_i32_def encode_i64_def
    decode_i8_def decode_i16_def decode_i32_def decode_i64_def xor.assoc)

section \<open>Floating point\<close>

text \<open>
  The order of IEEE numbers on bit patterns: sign and magnitude, with both zeros at 0. \<open>in > 0\<close> is
  that order.
\<close>

definition f64_key :: "u64 \<Rightarrow> int" where
  "f64_key w = (if bit w 63 then - uint (take_bit 63 w) else uint (take_bit 63 w))"

definition f64_less :: "u64 \<Rightarrow> u64 \<Rightarrow> bool" where
  "f64_less v w \<longleftrightarrow> \<not> f64_nan v \<and> \<not> f64_nan w \<and> f64_key v < f64_key w"

definition f32_key :: "u32 \<Rightarrow> int" where
  "f32_key w = (if bit w 31 then - uint (take_bit 31 w) else uint (take_bit 31 w))"

definition f32_less :: "u32 \<Rightarrow> u32 \<Rightarrow> bool" where
  "f32_less v w \<longleftrightarrow> \<not> f32_nan v \<and> \<not> f32_nan w \<and> f32_key v < f32_key w"

lemma uint_top:
  "uint (w :: 'a::len word) =
   (if bit w (LENGTH('a) - Suc 0) then 2 ^ (LENGTH('a) - Suc 0) else 0)
   + uint (take_bit (LENGTH('a) - Suc 0) w)"
proof -
  have "uint w = take_bit (Suc (LENGTH('a) - Suc 0)) (uint w)"
    by (simp add: bintr_uint)
  also have "\<dots> = 2 ^ (LENGTH('a) - Suc 0) * of_bool (bit (uint w) (LENGTH('a) - Suc 0))
      + take_bit (LENGTH('a) - Suc 0) (uint w)"
    by (simp only: take_bit_Suc_from_most)
  finally show ?thesis
    by (cases "bit w (LENGTH('a) - Suc 0)") (simp_all add: unsigned_take_bit_eq bit_uint_iff)
qed

lemma uint_not: "uint (NOT (w :: 'a::len word)) = 2 ^ LENGTH('a) - 1 - uint w"
proof -
  have "NOT w = - 1 - w"
    by (simp add: not_eq_complement)
  moreover have "uint (- 1 - w) = uint (- 1 :: 'a word) - uint w"
    by (rule uint_minus_simple_alt [THEN iffD1]) simp
  ultimately show ?thesis
    by (simp add: unsigned_minus_1_eq_mask mask_eq_exp_minus_1)
qed

lemma uint_or_top:
  assumes "\<not> bit w (LENGTH('a) - Suc 0)"
  shows "uint (w OR push_bit (LENGTH('a) - Suc 0) 1) = 2 ^ (LENGTH('a) - Suc 0) + uint (w :: 'a::len word)"
proof -
  have "take_bit (LENGTH('a) - Suc 0) (w OR push_bit (LENGTH('a) - Suc 0) 1) = take_bit (LENGTH('a) - Suc 0) w"
    by (rule bit_word_eqI) (auto simp: bit_simps)
  then show ?thesis
    using assms uint_top [of w] uint_top [of "w OR push_bit (LENGTH('a) - Suc 0) 1"]
    by (simp add: bit_simps)
qed

lemma encode_f64_key:
  assumes "\<not> f64_nan w" "w \<noteq> 0"
  shows "uint (encode_f64 w) = f64_key w + (if bit w 63 then 2 ^ 63 - 1 else 2 ^ 63)"
    "bit w 63 \<longleftrightarrow> f64_key w \<le> 0"
proof -
  have m: "SIGN_MASK_64 = push_bit (LENGTH(64) - Suc 0) 1"
    by (simp add: SIGN_MASK_64_def push_bit_eq_mult)
  have nz: "0 < uint w"
    using assms(2) by (simp add: order_less_le) (metis uint_0_iff)
  show "uint (encode_f64 w) = f64_key w + (if bit w 63 then 2 ^ 63 - 1 else 2 ^ 63)"
    using assms uint_or_top [of w] uint_top [of w]
    by (auto simp: encode_f64_def f64_gt_0_def f64_key_def m uint_not simp del: push_bit_of_1)
  show "bit w 63 \<longleftrightarrow> f64_key w \<le> 0"
    using nz uint_top [of w] by (auto simp: f64_key_def)
qed

lemma encode_f32_key:
  assumes "\<not> f32_nan w" "w \<noteq> 0"
  shows "uint (encode_f32 w) = f32_key w + (if bit w 31 then 2 ^ 31 - 1 else 2 ^ 31)"
    "bit w 31 \<longleftrightarrow> f32_key w \<le> 0"
proof -
  have m: "SIGN_MASK_32 = push_bit (LENGTH(32) - Suc 0) 1"
    by (simp add: SIGN_MASK_32_def push_bit_eq_mult)
  have nz: "0 < uint w"
    using assms(2) by (simp add: order_less_le) (metis uint_0_iff)
  show "uint (encode_f32 w) = f32_key w + (if bit w 31 then 2 ^ 31 - 1 else 2 ^ 31)"
    using assms uint_or_top [of w] uint_top [of w]
    by (auto simp: encode_f32_def f32_gt_0_def f32_key_def m uint_not simp del: push_bit_of_1)
  show "bit w 31 \<longleftrightarrow> f32_key w \<le> 0"
    using nz uint_top [of w] by (auto simp: f32_key_def)
qed

lemma f64_gt_0_less: "f64_gt_0 w \<longleftrightarrow> f64_less 0 w"
proof -
  have "0 < uint w \<longleftrightarrow> w \<noteq> 0"
    by (simp add: order_less_le) (metis uint_0_iff)
  then show ?thesis
    using uint_top [of w] by (auto simp: f64_gt_0_def f64_less_def f64_key_def f64_nan_def)
qed

lemma f32_gt_0_less: "f32_gt_0 w \<longleftrightarrow> f32_less 0 w"
proof -
  have "0 < uint w \<longleftrightarrow> w \<noteq> 0"
    by (simp add: order_less_le) (metis uint_0_iff)
  then show ?thesis
    using uint_top [of w] by (auto simp: f32_gt_0_def f32_less_def f32_key_def f32_nan_def)
qed

text \<open>Of the numbers other than the positive zero the encodings keep the order.\<close>

lemma encode_f64_order:
  assumes "\<not> f64_nan v" "v \<noteq> 0" "\<not> f64_nan w" "w \<noteq> 0"
  shows "encode_f64 v < encode_f64 w \<longleftrightarrow> f64_less v w"
  using encode_f64_key [OF assms(1,2)] encode_f64_key [OF assms(3,4)] assms
  by (simp add: word_less_def f64_less_def)

lemma encode_f32_order:
  assumes "\<not> f32_nan v" "v \<noteq> 0" "\<not> f32_nan w" "w \<noteq> 0"
  shows "encode_f32 v < encode_f32 w \<longleftrightarrow> f32_less v w"
  using encode_f32_key [OF assms(1,2)] encode_f32_key [OF assms(3,4)] assms
  by (simp add: word_less_def f32_less_def)

lemma sign_mask_bit:
  "bit SIGN_MASK_64 k \<longleftrightarrow> k = 63" "bit SIGN_MASK_32 k \<longleftrightarrow> k = 31"
proof -
  have "bit SIGN_MASK_64 k = bit (push_bit 63 1 :: u64) k"
    by (simp add: SIGN_MASK_64_def push_bit_eq_mult)
  then show "bit SIGN_MASK_64 k \<longleftrightarrow> k = 63"
    by (auto simp: bit_simps simp del: push_bit_of_1)
  have "bit SIGN_MASK_32 k = bit (push_bit 31 1 :: u32) k"
    by (simp add: SIGN_MASK_32_def push_bit_eq_mult)
  then show "bit SIGN_MASK_32 k \<longleftrightarrow> k = 31"
    by (auto simp: bit_simps simp del: push_bit_of_1)
qed

lemma sign_test:
  "0 < drop_bit 63 (w AND SIGN_MASK_64) \<longleftrightarrow> bit w 63"
  "0 < drop_bit 31 (v AND SIGN_MASK_32) \<longleftrightarrow> bit v 31"
proof -
  have "drop_bit 63 (w AND SIGN_MASK_64) = of_bool (bit w 63)"
    by (rule bit_word_eqI) (auto simp: bit_simps sign_mask_bit)
  then show "0 < drop_bit 63 (w AND SIGN_MASK_64) \<longleftrightarrow> bit w 63"
    by (simp only:) simp
  have "drop_bit 31 (v AND SIGN_MASK_32) = of_bool (bit v 31)"
    by (rule bit_word_eqI) (auto simp: bit_simps sign_mask_bit)
  then show "0 < drop_bit 31 (v AND SIGN_MASK_32) \<longleftrightarrow> bit v 31"
    by (simp only:) simp
qed

text \<open>Decoding gives back exactly the positive numbers and what has the sign bit set.\<close>

lemma decode_encode_f64: "decode_f64 (encode_f64 w) = w \<longleftrightarrow> bit w 63 \<or> f64_gt_0 w"
proof (cases "bit w 63 \<or> f64_gt_0 w")
  case True
  then have "decode_f64 (encode_f64 w) = w"
    unfolding decode_f64_def encode_f64_def sign_test
    by (intro bit_word_eqI) (auto simp: sign_mask_bit bit_simps f64_gt_0_def)
  with True show ?thesis by simp
next
  case False
  then have "bit (decode_f64 (encode_f64 w)) 0 \<noteq> bit w 0"
    unfolding decode_f64_def encode_f64_def sign_test by (auto simp: sign_mask_bit bit_simps)
  with False show ?thesis by auto
qed

lemma decode_encode_f32: "decode_f32 (encode_f32 w) = w \<longleftrightarrow> bit w 31 \<or> f32_gt_0 w"
proof (cases "bit w 31 \<or> f32_gt_0 w")
  case True
  then have "decode_f32 (encode_f32 w) = w"
    unfolding decode_f32_def encode_f32_def sign_test
    by (intro bit_word_eqI) (auto simp: sign_mask_bit bit_simps f32_gt_0_def)
  with True show ?thesis by simp
next
  case False
  then have "bit (decode_f32 (encode_f32 w)) 0 \<noteq> bit w 0"
    unfolding decode_f32_def encode_f32_def sign_test by (auto simp: sign_mask_bit bit_simps)
  with False show ?thesis by auto
qed

section \<open>The interface of an ordered key field\<close>

text \<open>
  What a table key needs of the encoding of a column: a fixed number of bytes, that can be read
  back, and that compare as the values do. \<open>ok\<close> are the values the encoding is made for.
\<close>

lemma append_less:
  "length a = length b \<Longrightarrow> a @ r < b @ s \<longleftrightarrow> a < b \<or> a = b \<and> r < (s :: 'a::linorder list)"
  by (induction a b rule: list_induct2) auto

locale key_codec =
  fixes code :: "'v \<Rightarrow> bytes" and uncode :: "bytes \<Rightarrow> 'v" and less :: "'v \<Rightarrow> 'v \<Rightarrow> bool"
    and ok :: "'v \<Rightarrow> bool" and width :: nat
  assumes code_length: "length (code x) = width"
    and uncode_code: "ok x \<Longrightarrow> uncode (code x) = x"
    and code_order: "ok x \<Longrightarrow> ok y \<Longrightarrow> code x < code y \<longleftrightarrow> less x y"
begin

lemma code_inj: "ok x \<Longrightarrow> ok y \<Longrightarrow> code x = code y \<longleftrightarrow> x = y"
  using uncode_code by metis

text \<open>A column followed by the rest of the key: the rest decides between equal columns only.\<close>

lemma code_append:
  "ok x \<Longrightarrow> ok y \<Longrightarrow> code x @ r < code y @ s \<longleftrightarrow> less x y \<or> x = y \<and> r < s"
  by (simp add: append_less code_length code_order code_inj)

text \<open>Behind a shared prefix, which is how the keys of one table lie next to each other.\<close>

lemma code_prefix:
  "ok x \<Longrightarrow> ok y \<Longrightarrow> p @ code x @ r < p @ code y @ s \<longleftrightarrow> less x y \<or> x = y \<and> r < s"
  by (induction p) (simp_all add: code_append)

lemma uncode_at:
  "ok x \<Longrightarrow> uncode (take width (drop (length p) (p @ code x @ r))) = x"
  by (simp add: code_length uncode_code)

end

text \<open>
  Two key fields one after the other are a key field again, ordered lexicographically: keys of
  several columns need no separate argument.
\<close>

definition pair_code :: "('v \<Rightarrow> bytes) \<Rightarrow> ('w \<Rightarrow> bytes) \<Rightarrow> 'v \<times> 'w \<Rightarrow> bytes" where
  "pair_code c d p = c (fst p) @ d (snd p)"

definition pair_less :: "('v \<Rightarrow> 'v \<Rightarrow> bool) \<Rightarrow> ('w \<Rightarrow> 'w \<Rightarrow> bool) \<Rightarrow> 'v \<times> 'w \<Rightarrow> 'v \<times> 'w \<Rightarrow> bool" where
  "pair_less l m p q \<longleftrightarrow> l (fst p) (fst q) \<or> fst p = fst q \<and> m (snd p) (snd q)"

lemma pair_codec:
  assumes "key_codec c u l ok n" "key_codec d v m ok' k"
  shows "key_codec (pair_code c d) (\<lambda>b. (u (take n b), v (drop n b))) (pair_less l m)
    (\<lambda>p. ok (fst p) \<and> ok' (snd p)) (n + k)"
proof -
  have len: "length (c x) = n" "length (d y) = k" for x y
    using assms by (auto simp: key_codec_def)
  have inj: "c x = c x' \<longleftrightarrow> x = x'" if "ok x" "ok x'" for x x'
    using key_codec.code_inj [OF assms(1)] that .
  show ?thesis
  proof
    show "length (pair_code c d p) = n + k" for p
      by (simp add: pair_code_def len)
    show "(u (take n (pair_code c d p)), v (drop n (pair_code c d p))) = p"
      if "ok (fst p) \<and> ok' (snd p)" for p
      using that assms by (simp add: pair_code_def len key_codec_def)
    show "pair_code c d p < pair_code c d q \<longleftrightarrow> pair_less l m p q"
      if "ok (fst p) \<and> ok' (snd p)" "ok (fst q) \<and> ok' (snd q)" for p q
      using that assms
      by (simp add: pair_code_def pair_less_def append_less len inj key_codec_def)
  qed
qed

end
