(* ===== verification/Str_Buffer.thy ===== *)
theory Str_Buffer
  imports Aqua_Prelude
begin

text \<open>
  The string buffer of \<open>db/str.h\<close> and \<open>db/str.cpp\<close>, which the keys and tuple views are built on.
  The program only uses the base class \<open>Str\<close> and \<open>StrRef\<close>, whose \<open>LocalBufSize\<close> is 0, so the
  branches for a local buffer are not taken and are left out; \<open>TinyStr\<close> and \<open>StrView\<close> follow at the end.

  A pointer to characters is the list of bytes accessible from it; \<open>NULL\<close> is \<^const>\<open>None\<close> where
  the code tests for it. \<open>malloc\<close> succeeds and gives bytes of indeterminate value: the argument
  \<open>junk\<close>, of which no theorem depends.
\<close>

section \<open>The C library\<close>

text \<open>The number of bytes before the first zero byte, or all of them.\<close>

definition nul_pos :: "bytes \<Rightarrow> nat" where
  "nul_pos m = length (takeWhile (\<lambda>b. b \<noteq> 0) m)"

definition strlen :: "bytes \<Rightarrow> nat res" where
  "strlen m = (if nul_pos m < length m then Inr (nul_pos m) else Inl MemFault)"

text \<open>The n bytes \<open>strncpy\<close> writes: up to the first zero byte of the source, then zeros.\<close>

definition strncpy :: "bytes \<Rightarrow> nat \<Rightarrow> bytes res" where
  "strncpy src n =
     (if n \<le> nul_pos src then Inr (take n src)
      else if nul_pos src < length src then Inr (take (nul_pos src) src @ replicate (n - nul_pos src) 0)
      else Inl MemFault)"

text \<open>The sign of the first difference, as unsigned characters; equal strings end at a zero byte.\<close>

fun strncmp :: "nat \<Rightarrow> bytes \<Rightarrow> bytes \<Rightarrow> int res" where
  "strncmp 0 a b = Inr 0"
| "strncmp (Suc n) (x # xs) (y # ys) =
     (if x \<noteq> y then Inr (uint x - uint y) else if x = 0 then Inr 0 else strncmp n xs ys)"
| "strncmp (Suc n) _ _ = Inl MemFault"

fun strcmp :: "bytes \<Rightarrow> bytes \<Rightarrow> int res" where
  "strcmp (x # xs) (y # ys) =
     (if x \<noteq> y then Inr (uint x - uint y) else if x = 0 then Inr 0 else strcmp xs ys)"
| "strcmp _ _ = Inl MemFault"

text \<open>
  Arithmetic: an \<open>int\<close> that overflows is undefined, a conversion to \<open>int\<close> and a store to one of
  the signed 26-bit fields wrap. An access at a negative index is a fault.
\<close>

definition int32 :: "int \<Rightarrow> int res" where
  "int32 x = (if - (2 ^ 31) \<le> x \<and> x < 2 ^ 31 then Inr x else Inl SignedOverflow)"

definition to_int32 :: "int \<Rightarrow> int" where "to_int32 x = signed_take_bit 31 x"

definition wrap26 :: "int \<Rightarrow> int" where "wrap26 x = signed_take_bit 25 x"

definition poke_i :: "bytes \<Rightarrow> int \<Rightarrow> u8 \<Rightarrow> bytes res" where
  "poke_i m k b = (if k < 0 then Inl MemFault else poke_at m (nat k) b)"

definition write_i :: "bytes \<Rightarrow> int \<Rightarrow> bytes \<Rightarrow> bytes res" where
  "write_i m k bs = (if k < 0 then Inl MemFault else write_block m (nat k) bs)"

definition read_i :: "bytes \<Rightarrow> int \<Rightarrow> int \<Rightarrow> bytes res" where
  "read_i m k n = (if k < 0 \<or> n < 0 then Inl MemFault else read_block m (nat k) (nat n))"

section \<open>Str\<close>

text \<open>
  \<open>mem\<close> is what \<open>Data\<close> points to. \<open>EmptyBuffer\<close> is the literal the empty string shares; it is
  never written, because every write first gets the object memory of its own.
\<close>

record str =
  mem :: bytes
  Capacity :: int
  Length :: int
  Owned :: bool

definition EmptyBuffer :: bytes where "EmptyBuffer = [0, 0x4e, 0x55, 0x4c, 0x4c, 0]"

definition str_new :: str where
  "str_new = \<lparr> mem = EmptyBuffer, Capacity = 0, Length = 0, Owned = False \<rparr>"

definition str_clear :: "str \<Rightarrow> str" where
  "str_clear s = \<lparr> mem = EmptyBuffer, Capacity = 0, Length = 0, Owned = False \<rparr>"

definition str_empty :: "str \<Rightarrow> bool" where "str_empty s \<longleftrightarrow> Length s = 0"

text \<open>\<open>length()\<close> converts to \<open>size_t\<close>.\<close>

definition str_length :: "str \<Rightarrow> nat" where "str_length s = nat (Length s mod 2 ^ 64)"

definition str_reserve :: "str \<Rightarrow> int \<Rightarrow> str res" where
  "str_reserve s new_capacity =
     (if new_capacity \<le> Capacity s then Inr s
      else if new_capacity \<le> 0 then Inl MemFault
      else rbind (strncpy (mem s) (nat new_capacity - 1)) (\<lambda>new_data.
        Inr (s\<lparr> mem := new_data @ [0], Capacity := wrap26 new_capacity, Owned := True \<rparr>)))"

definition str_reserve_discard :: "u8 \<Rightarrow> str \<Rightarrow> int \<Rightarrow> str" where
  "str_reserve_discard junk s new_capacity =
     (if new_capacity \<le> Capacity s then s
      else s\<lparr> mem := replicate (nat new_capacity) junk, Capacity := wrap26 new_capacity,
              Owned := True \<rparr>)"

definition str_shrink_to_fit :: "str \<Rightarrow> str res" where
  "str_shrink_to_fit s =
     (if \<not> Owned s then Inr s
      else if Capacity s \<le> Length s + 1 then Inr s
      else rbind (read_i (mem s) 0 (Length s + 1)) (\<lambda>new_data.
        Inr (s\<lparr> mem := new_data, Capacity := wrap26 (Length s + 1) \<rparr>)))"

text \<open>The setters. \<open>set_copy\<close> is \<open>set(const Str&)\<close> and \<open>set_string\<close> is \<open>set(const std::string&)\<close>.\<close>

definition str_store :: "u8 \<Rightarrow> str \<Rightarrow> bytes \<Rightarrow> str res" where
  "str_store junk s bs =
     (let buf_len = int (length bs);
          s1 = (if Capacity s < buf_len then str_reserve_discard junk s buf_len else s)
      in rbind (write_i (mem s1) 0 bs) (\<lambda>m.
           Inr (s1\<lparr> mem := m, Owned := True, Length := wrap26 (buf_len - 1) \<rparr>)))"

definition str_set :: "u8 \<Rightarrow> str \<Rightarrow> bytes option \<Rightarrow> str res" where
  "str_set junk s src =
     (case src of None \<Rightarrow> Inr (str_clear s)
      | Some c \<Rightarrow> rbind (strlen c) (\<lambda>n. str_store junk s (take (n + 1) c)))"

definition str_set_range :: "u8 \<Rightarrow> str \<Rightarrow> bytes option \<Rightarrow> int \<Rightarrow> str res" where
  "str_set_range junk s src sz =
     (case src of None \<Rightarrow> Inl AssertFailed
      | Some c \<Rightarrow>
        if sz < 0 then Inl AssertFailed
        else rbind (read_i c 0 sz) (\<lambda>bs. str_store junk s (bs @ [0])))"

definition str_set_copy :: "u8 \<Rightarrow> str \<Rightarrow> str \<Rightarrow> str res" where
  "str_set_copy junk s src = rbind (strlen (mem src)) (\<lambda>n. str_store junk s (take (n + 1) (mem src)))"

definition str_set_string :: "u8 \<Rightarrow> str \<Rightarrow> bytes \<Rightarrow> str res" where
  "str_set_string junk s src = str_store junk s (src @ [0])"

definition str_set_ref :: "str \<Rightarrow> bytes option \<Rightarrow> str res" where
  "str_set_ref s src =
     (case src of None \<Rightarrow> Inl MemFault
      | Some c \<Rightarrow> rbind (strlen c) (\<lambda>n.
          Inr \<lparr> mem = c, Capacity = 0, Length = wrap26 (int n), Owned = False \<rparr>))"

definition str_set_ref_n :: "str \<Rightarrow> bytes option \<Rightarrow> int \<Rightarrow> str" where
  "str_set_ref_n s src sz =
     \<lparr> mem = (case src of None \<Rightarrow> EmptyBuffer | Some c \<Rightarrow> c), Capacity = 0,
       Length = wrap26 sz, Owned = False \<rparr>"

text \<open>\<open>set(Str&&)\<close>; the result is the target and what is left of the source.\<close>

definition str_set_move :: "str \<Rightarrow> str \<Rightarrow> (str \<times> str) res" where
  "str_set_move s src =
     (if \<not> Owned src then rbind (str_set_ref s (Some (mem src))) (\<lambda>s1. Inr (s1, src))
      else Inr (\<lparr> mem = mem src, Capacity = Capacity src, Length = Length src, Owned = True \<rparr>,
                str_clear (src\<lparr> Owned := False \<rparr>)))"

text \<open>Appending; \<open>bs\<close> are the bytes from \<open>s\<close> to \<open>s_end\<close>.\<close>

definition str_grow :: "str \<Rightarrow> int \<Rightarrow> str res" where
  "str_grow s need =
     rbind (int32 need) (\<lambda>n. if Capacity s < n then str_reserve s n else Inr s)"

definition str_append_from_char :: "str \<Rightarrow> int \<Rightarrow> u8 \<Rightarrow> (int \<times> str) res" where
  "str_append_from_char s idx c =
     rbind (str_grow s (idx + 1 + 1)) (\<lambda>s1.
       rbind (poke_i (mem s1) idx c) (\<lambda>m.
         rbind (poke_i m (idx + 1) 0) (\<lambda>m'.
           if \<not> Owned s1 then Inl AssertFailed
           else Inr (1, s1\<lparr> mem := m', Length := wrap26 (Length s1 + 1) \<rparr>))))"

definition str_append_from :: "str \<Rightarrow> int \<Rightarrow> bytes \<Rightarrow> (int \<times> str) res" where
  "str_append_from s idx bs =
     (let add_len = to_int32 (int (length bs)) in
      rbind (str_grow s (idx + add_len + 1)) (\<lambda>s1.
        if add_len < 0 then Inl MemFault
        else rbind (write_i (mem s1) idx (take (nat add_len) bs)) (\<lambda>m.
          rbind (poke_i m (idx + add_len) 0) (\<lambda>m'.
            if \<not> Owned s1 then Inl AssertFailed
            else Inr (add_len, s1\<lparr> mem := m', Length := wrap26 (Length s1 + add_len) \<rparr>)))))"

definition str_append :: "str \<Rightarrow> bytes \<Rightarrow> (int \<times> str) res" where
  "str_append s bs = str_append_from s (Length s) bs"

definition str_append_char :: "str \<Rightarrow> u8 \<Rightarrow> (int \<times> str) res" where
  "str_append_char s c = str_append_from_char s (Length s) c"

text \<open>\<open>append(int num, char c)\<close>: \<open>k\<close> rounds of its loop from \<open>cur_len\<close> on.\<close>

fun str_fill_loop :: "nat \<Rightarrow> str \<Rightarrow> int \<Rightarrow> u8 \<Rightarrow> int \<Rightarrow> (int \<times> str) res" where
  "str_fill_loop 0 s at c len = Inr (len, s)"
| "str_fill_loop (Suc k) s at c len =
     rbind (str_append_from_char s at c) (\<lambda>(len', s1). str_fill_loop k s1 (at + 1) c len')"

definition str_append_fill :: "str \<Rightarrow> int \<Rightarrow> u8 \<Rightarrow> (int \<times> str) res" where
  "str_append_fill s num c =
     rbind (str_grow s (Length s + num + 1)) (\<lambda>s1.
       str_fill_loop (nat num) s1 (Length s) c 0)"

definition str_replace :: "str \<Rightarrow> int \<Rightarrow> int \<Rightarrow> bytes \<Rightarrow> int \<Rightarrow> (int \<times> str) res" where
  "str_replace s idx src_size dest dest_size =
     (let add_len = dest_size - src_size in
      rbind (str_grow s (idx + add_len + 1)) (\<lambda>s1.
        rbind (if add_len = 0 then Inr (mem s1)
               else rbind (read_i (mem s1) (idx + src_size) (Length s1 - idx - src_size))
                      (write_i (mem s1) (idx + dest_size))) (\<lambda>m.
          rbind (read_i dest 0 dest_size) (\<lambda>d.
            rbind (write_i m idx d) (\<lambda>m1.
              rbind (poke_i m1 (idx + add_len) 0) (\<lambda>m2.
                if \<not> Owned s1 then Inl AssertFailed
                else Inr (add_len, s1\<lparr> mem := m2, Length := wrap26 (Length s1 + add_len) \<rparr>)))))))"

text \<open>Comparison stops at the first zero byte, whatever the lengths are.\<close>

definition str_eq :: "str \<Rightarrow> str \<Rightarrow> bool res" where
  "str_eq a b = rbind (strcmp (mem a) (mem b)) (\<lambda>c. Inr (c = 0))"

definition str_compare :: "str \<Rightarrow> str \<Rightarrow> int res" where
  "str_compare a b =
     strncmp (if str_length a > str_length b then str_length a else str_length b) (mem a) (mem b)"

text \<open>
  The \<open>printf\<close> family. \<open>out\<close> is the text the format yields; \<open>vsnprintf\<close> stores what fits in the n
  bytes it is given, with a final zero byte, and returns the length of the whole text.
\<close>

definition vsnprintf :: "bytes \<Rightarrow> int \<Rightarrow> int \<Rightarrow> bytes \<Rightarrow> bytes res" where
  "vsnprintf m at n out =
     (if n = 0 then Inr m
      else if n < 0 then Inl MemFault
      else write_i m at (take (nat n - 1) out @ [0]))"

definition str_setfv :: "u8 \<Rightarrow> str \<Rightarrow> bytes \<Rightarrow> (int \<times> str) res" where
  "str_setfv junk s out =
     (let len = int (length out) in
      rbind (if Owned s then vsnprintf (mem s) 0 (Capacity s) out else Inr (mem s)) (\<lambda>m.
        let s1 = s\<lparr> mem := m \<rparr> in
        rbind (if Capacity s1 < len + 1 then
                 let s2 = str_reserve_discard junk s1 (len + 1) in
                 rbind (vsnprintf (mem s2) 0 (len + 1) out) (\<lambda>m2. Inr (s2\<lparr> mem := m2 \<rparr>))
               else Inr s1) (\<lambda>s3.
          if \<not> Owned s3 then Inl AssertFailed
          else Inr (len, s3\<lparr> Length := wrap26 len \<rparr>))))"

definition str_setfv_nogrow :: "str \<Rightarrow> bytes \<Rightarrow> (int \<times> str) res" where
  "str_setfv_nogrow s out =
     (if \<not> Owned s then Inl AssertFailed
      else if Capacity s = 0 then Inr (0, s)
      else
        let w = int (length out) in
        rbind (vsnprintf (mem s) 0 (Capacity s) out) (\<lambda>m.
          rbind (poke_i m (Capacity s - 1) 0) (\<lambda>m1.
            Inr (w, s\<lparr> mem := m1, Owned := True, Length := wrap26 w \<rparr>))))"

definition str_appendfv_from :: "str \<Rightarrow> int \<Rightarrow> bytes \<Rightarrow> (int \<times> str) res" where
  "str_appendfv_from s idx out =
     (let add_len = int (length out) in
      rbind (if Owned s then vsnprintf (mem s) idx (Capacity s - idx) out else Inr (mem s)) (\<lambda>m.
        let s1 = s\<lparr> mem := m \<rparr> in
        rbind (if Capacity s1 < idx + add_len + 1 then
                 rbind (str_reserve s1 (idx + add_len + 1)) (\<lambda>s2.
                   rbind (vsnprintf (mem s2) idx (add_len + 1) out) (\<lambda>m2. Inr (s2\<lparr> mem := m2 \<rparr>)))
               else Inr s1) (\<lambda>s3.
          if \<not> Owned s3 then Inl AssertFailed
          else Inr (add_len, s3\<lparr> Length := wrap26 (Length s3 + add_len) \<rparr>))))"

definition str_appendf_from :: "str \<Rightarrow> int \<Rightarrow> bytes \<Rightarrow> (int \<times> str) res" where
  "str_appendf_from s idx out =
     rbind (str_appendfv_from s idx out) (\<lambda>(len, s1). Inr (len, s1\<lparr> Length := wrap26 (idx + len) \<rparr>))"

definition str_appendf :: "str \<Rightarrow> bytes \<Rightarrow> (int \<times> str) res" where
  "str_appendf s out = str_appendfv_from s (Length s) out"

section \<open>TinyStr and StrView\<close>

text \<open>
  \<open>TinyStr<N>\<close> is its array \<open>_buffer\<close> of N bytes. \<open>strnlen\<close> looks at no more than n bytes.
\<close>

definition strnlen :: "bytes \<Rightarrow> nat \<Rightarrow> nat res" where
  "strnlen m n =
     (if n \<le> nul_pos m then Inr n else if nul_pos m < length m then Inr (nul_pos m)
      else Inl MemFault)"

definition tiny_set_str :: "nat \<Rightarrow> bytes \<Rightarrow> bytes option \<Rightarrow> int \<Rightarrow> bytes res" where
  "tiny_set_str N buf src sz =
     (case src of None \<Rightarrow> Inr buf
      | Some c \<Rightarrow>
        if sz < int N then
          rbind (read_i c 0 sz) (\<lambda>d. rbind (write_i buf 0 d) (\<lambda>m. poke_i m sz 0))
        else Inl LengthError)"

definition tiny_of_cstr :: "nat \<Rightarrow> bytes \<Rightarrow> bytes \<Rightarrow> bytes res" where
  "tiny_of_cstr N buf c = rbind (strnlen c N) (\<lambda>n. tiny_set_str N buf (Some c) (int n))"

definition tiny_size :: "nat \<Rightarrow> bytes \<Rightarrow> nat res" where "tiny_size N buf = strnlen buf N"

definition tiny_clear :: "bytes \<Rightarrow> bytes res" where "tiny_clear buf = poke_at buf 0 0"

definition tiny_compare :: "nat \<Rightarrow> bytes \<Rightarrow> bytes \<Rightarrow> int res" where
  "tiny_compare N a b =
     rbind (tiny_size N a) (\<lambda>n. rbind (tiny_size N b) (\<lambda>k. strncmp (if n > k then n else k) a b))"

record strview =
  sv_buffer :: "bytes option"
  sv_size :: int

definition strview_set_ref :: "bytes option \<Rightarrow> strview res" where
  "strview_set_ref src =
     (case src of None \<Rightarrow> Inr \<lparr> sv_buffer = None, sv_size = 0 \<rparr>
      | Some c \<Rightarrow> rbind (strlen c) (\<lambda>n.
          Inr \<lparr> sv_buffer = Some c, sv_size = to_int32 (int n) \<rparr>))"

definition strview_set_ref_n :: "bytes option \<Rightarrow> int \<Rightarrow> strview" where
  "strview_set_ref_n src sz = \<lparr> sv_buffer = src, sv_size = sz \<rparr>"

text \<open>\<open>clear()\<close> drops the pointer and keeps the size.\<close>

definition strview_clear :: "strview \<Rightarrow> strview" where
  "strview_clear v = v\<lparr> sv_buffer := None \<rparr>"

section \<open>Well-formed buffers\<close>

text \<open>
  The contents a buffer stands for, and the invariant: the recorded capacity is the size of the
  allocation (0 for memory the object does not own), and there is a zero byte not after the end of
  the contents.
\<close>

definition str_view :: "str \<Rightarrow> bytes" where
  "str_view s = take (nat (Length s)) (mem s)"

definition str_ok :: "str \<Rightarrow> bool" where
  "str_ok s \<longleftrightarrow> 0 \<le> Length s \<and> Length s < 2 ^ 25 \<and> nat (Length s) < length (mem s) \<and>
     nul_pos (mem s) \<le> nat (Length s) \<and>
     (if Owned s then Capacity s = int (length (mem s)) \<and> Capacity s < 2 ^ 25 \<and>
        mem s ! nat (Length s) = 0
      else Capacity s = 0)"

text \<open>What \<open>strncpy\<close> leaves of a byte string when the buffer grows.\<close>

definition nul_tail :: "bytes \<Rightarrow> bytes" where
  "nul_tail v = take (nul_pos v) v @ replicate (length v - nul_pos v) 0"

lemma wrap26_id [simp]: "0 \<le> x \<Longrightarrow> x < 2 ^ 25 \<Longrightarrow> wrap26 x = x"
  by (simp add: wrap26_def signed_take_bit_int_eq_self)

lemma to_int32_id [simp]: "0 \<le> x \<Longrightarrow> x < 2 ^ 31 \<Longrightarrow> to_int32 x = x"
  by (simp add: to_int32_def signed_take_bit_int_eq_self)

lemma int32_id [simp]: "0 \<le> x \<Longrightarrow> x < 2 ^ 31 \<Longrightarrow> int32 x = Inr x"
  by (simp add: int32_def)

lemma str_new_ok [simp]: "str_ok str_new" "str_view str_new = []"
  by (simp_all add: str_ok_def str_new_def EmptyBuffer_def nul_pos_def str_view_def)

lemma nul_pos_le [simp]: "nul_pos m \<le> length m"
  by (simp add: nul_pos_def length_takeWhile_le)

lemma nul_pos_take: "nul_pos (take n m) = min n (nul_pos m)"
  by (induction m arbitrary: n) (auto simp: nul_pos_def take_Cons' min_def)

lemma nul_pos_zero: "k < length m \<Longrightarrow> m ! k = 0 \<Longrightarrow> nul_pos m \<le> k"
  unfolding nul_pos_def
  by (metis (mono_tags, lifting) linorder_not_less nth_mem set_takeWhileD takeWhile_nth)

lemma nul_pos_at: "nul_pos m < length m \<Longrightarrow> m ! nul_pos m = 0"
  unfolding nul_pos_def using nth_length_takeWhile by blast

lemma nul_pos_append_zero: "nul_pos (a @ 0 # b) \<le> length a"
  by (rule nul_pos_zero) simp_all

lemma nul_tail_length [simp]: "length (nul_tail v) = length v"
  by (simp add: nul_tail_def)

lemma nul_tail_id: "0 \<notin> set (butlast v) \<Longrightarrow> nul_tail v = v"
proof (cases v rule: rev_cases)
  case (snoc u b)
  assume "0 \<notin> set (butlast v)"
  then have "\<forall>x \<in> set u. x \<noteq> 0"
    using snoc by auto
  then have "takeWhile (\<lambda>b. b \<noteq> 0) u = u"
    by (simp add: takeWhile_eq_all_conv)
  then have "nul_pos v = (if b = 0 then length u else Suc (length u))"
    using snoc by (simp add: nul_pos_def takeWhile_append)
  then show ?thesis
    using snoc by (simp add: nul_tail_def)
qed (simp add: nul_tail_def)

lemma nul_tail_hd: "v \<noteq> [] \<Longrightarrow> hd v = 0 \<Longrightarrow> nul_tail v = replicate (length v) 0"
  by (cases v) (simp_all add: nul_tail_def nul_pos_def)

lemma strncpy_eq:
  "nul_pos m \<le> n \<Longrightarrow> nul_pos m < length m \<Longrightarrow>
     strncpy m n = Inr (take (nul_pos m) m @ replicate (n - nul_pos m) 0)"
  by (simp add: strncpy_def)

text \<open>Growing: the new buffer holds \<^const>\<open>nul_tail\<close> of the old contents.\<close>

lemma grow_eq:
  assumes "str_ok s" "Capacity s < need" "Length s < need" "need < 2 ^ 25"
  shows "\<exists>m. str_grow s need = Inr (s\<lparr> mem := m, Capacity := need, Owned := True \<rparr>) \<and>
    length m = nat need \<and> take (nat (Length s)) m = nul_tail (str_view s)"
proof -
  let ?k = "nul_pos (mem s)" and ?L = "nat (Length s)"
  define d where "d = take ?k (mem s) @ replicate (nat need - 1 - ?k) 0"
  have ok: "?k \<le> ?L" "?L < length (mem s)" "0 \<le> Length s"
    using assms(1) by (simp_all add: str_ok_def)
  have L: "?L \<le> nat need - 1" "0 < need"
    using assms(3) ok by auto
  have "strncpy (mem s) (nat need - 1) = Inr d"
    using ok L by (simp add: strncpy_eq d_def)
  then have "str_grow s need = Inr (s\<lparr> mem := d @ [0], Capacity := need, Owned := True \<rparr>)"
    using assms L by (simp add: str_grow_def str_reserve_def)
  moreover have "length (d @ [0]) = nat need"
    using ok L by (simp add: d_def)
  moreover have "take ?L (d @ [0]) = nul_tail (str_view s)"
    using ok L by (simp add: d_def nul_tail_def str_view_def nul_pos_take min_def)
  ultimately show ?thesis
    by blast
qed

lemma write_tail:
  assumes "length m = nat need" "L + length bs + 1 \<le> nat need"
  shows "\<exists>m'. rbind (write_block m L bs) (\<lambda>m. poke_at m (L + length bs) 0) = Inr m' \<and>
    length m' = length m \<and> take (L + length bs) m' = take L m @ bs \<and> m' ! (L + length bs) = 0"
  using assms
  by (auto simp: write_block_def poke_at_def nth_append take_update_swap list_update_beyond min_def)

lemma view_ok:
  assumes "length m = nat c" "0 \<le> l" "l < c" "c < 2 ^ 25" "m ! nat l = 0"
  shows "str_ok (s\<lparr> mem := m, Capacity := c, Length := l, Owned := True \<rparr>)"
  using assms nul_pos_zero [of "nat l" m] by (simp add: str_ok_def)

text \<open>
  Appending: the new contents are the old ones with the bytes behind them when they fit, and
  otherwise the old ones up to their first zero byte, the rest of them zeroed.
\<close>

lemma append_view:
  assumes "str_ok s" "Length s + int (length bs) + 1 < 2 ^ 25"
  shows "\<exists>s'. str_append s bs = Inr (int (length bs), s') \<and> str_ok s' \<and> Owned s' \<and>
    Length s' = Length s + int (length bs) \<and>
    Capacity s' = max (Capacity s) (Length s + int (length bs) + 1) \<and>
    str_view s' =
      (if Length s + int (length bs) + 1 \<le> Capacity s then str_view s else nul_tail (str_view s)) @ bs"
proof -
  let ?L = "nat (Length s)" and ?need = "Length s + int (length bs) + 1"
  have L: "0 \<le> Length s"
    using assms(1) by (simp add: str_ok_def)
  obtain m where m: "str_grow s ?need = Inr (s\<lparr> mem := m, Capacity := max (Capacity s) ?need, Owned := True \<rparr>)"
    "length m = nat (max (Capacity s) ?need)"
    "take ?L m = (if ?need \<le> Capacity s then str_view s else nul_tail (str_view s))"
  proof (cases "?need \<le> Capacity s")
    case True
    then have o: "Owned s" "Capacity s = int (length (mem s))"
      using assms(1) L by (auto simp: str_ok_def split: if_splits)
    then have same: "s\<lparr> mem := mem s, Capacity := max (Capacity s) ?need, Owned := True \<rparr> = s"
      using True by (cases s) (simp add: max_def)
    have "str_grow s ?need = Inr s"
      using True L assms(2) by (simp add: str_grow_def)
    then show ?thesis
      using True o by (intro that [of "mem s"]) (simp_all only: same, simp_all add: max_def str_view_def)
  next
    case False
    then have "Capacity s < ?need" "Length s < ?need"
      by linarith+
    from grow_eq [OF assms(1) this assms(2)] obtain m' where
      "str_grow s ?need = Inr (s\<lparr> mem := m', Capacity := ?need, Owned := True \<rparr>)"
      "length m' = nat ?need" "take ?L m' = nul_tail (str_view s)"
      by blast
    with False show ?thesis
      by (intro that [of m']) (simp_all add: max_def)
  qed
  let ?m = "take ?L m @ bs @ drop (?L + length bs) m"
  have len: "?L + length bs + 1 \<le> length m"
    using m(2) L by linarith
  define s' where "s' = s\<lparr> mem := ?m[?L + length bs := 0], Capacity := max (Capacity s) ?need,
      Length := Length s + int (length bs), Owned := True \<rparr>"
  have a: "str_append s bs = Inr (int (length bs), s')"
    using m(1) len L assms(2)
    by (simp add: str_append_def str_append_from_def write_i_def write_block_def poke_i_def
      poke_at_def nat_add_distrib Let_def s'_def)
  have "max (Capacity s) ?need < 2 ^ 25"
    using assms by (auto simp: str_ok_def split: if_splits)
  then have ok: "str_ok s'"
    unfolding s'_def using len m(2) L by (intro view_ok) (auto simp: nat_add_distrib nth_append)
  have "take (?L + length bs) (?m[?L + length bs := 0]) = take ?L m @ bs"
    using len by (simp add: take_update_swap list_update_beyond)
  then have "str_view s' = (if ?need \<le> Capacity s then str_view s else nul_tail (str_view s)) @ bs"
    using m(3) L by (simp add: s'_def str_view_def nat_add_distrib)
  with a ok show ?thesis
    by (intro exI [of _ s'] conjI) (simp_all add: s'_def)
qed

lemma append_exact:
  assumes "str_ok s" "Length s + int (length bs) + 1 < 2 ^ 25"
    and "0 \<notin> set (butlast (str_view s)) \<or> Length s + int (length bs) + 1 \<le> Capacity s"
  shows "\<exists>s'. str_append s bs = Inr (int (length bs), s') \<and> str_ok s' \<and> Owned s' \<and>
    Length s' = Length s + int (length bs) \<and> str_view s' = str_view s @ bs"
  using append_view [OF assms(1,2)] assms(3) nul_tail_id [of "str_view s"] by auto

text \<open>The setters replace the contents; the last byte stored is the terminating zero.\<close>

lemma store_view:
  assumes "str_ok s" "length bs < 2 ^ 25 - 1"
  shows "\<exists>s'. str_store junk s (bs @ [0]) = Inr s' \<and> str_ok s' \<and> Owned s' \<and> str_view s' = bs"
proof -
  let ?n = "int (length bs)"
  define s1 where
    "s1 = (if Capacity s < int (length (bs @ [0])) then str_reserve_discard junk s (int (length (bs @ [0]))) else s)"
  have s1: "Capacity s1 = int (length (mem s1))" "length bs < length (mem s1)" "Capacity s1 < 2 ^ 25"
    using assms by (auto simp: s1_def str_reserve_discard_def str_ok_def split: if_splits)
  define s' where
    "s' = s1\<lparr> mem := (bs @ [0]) @ drop (length (bs @ [0])) (mem s1), Owned := True, Length := ?n \<rparr>"
  have "str_store junk s (bs @ [0]) = Inr s'"
    using s1(2) assms(2)
    unfolding str_store_def Let_def s1_def [symmetric] by (simp add: write_i_def write_block_def s'_def)
  moreover have "str_ok s'"
  proof -
    have eq: "s' = s1\<lparr> mem := mem s', Capacity := Capacity s1, Length := ?n, Owned := True \<rparr>"
      by (simp add: s'_def)
    show ?thesis
      by (subst eq, rule view_ok) (use s1 assms(2) in \<open>simp_all add: s'_def nth_append\<close>)
  qed
  ultimately show ?thesis
    by (simp add: s'_def str_view_def)
qed

lemma str_set_string_view:
  assumes "str_ok s" "length bs < 2 ^ 25 - 1"
  shows "\<exists>s'. str_set_string junk s bs = Inr s' \<and> str_ok s' \<and> Owned s' \<and> str_view s' = bs"
  using store_view [OF assms] by (simp add: str_set_string_def)

lemma str_set_range_view:
  assumes "str_ok s" "0 \<le> n" "nat n \<le> length c" "n < 2 ^ 25 - 1"
  shows "\<exists>s'. str_set_range junk s (Some c) n = Inr s' \<and> str_ok s' \<and> Owned s' \<and>
    str_view s' = take (nat n) c"
  using store_view [OF assms(1), of "take (nat n) c" junk] assms(2-4)
  by (simp add: str_set_range_def read_i_def read_block_def min_def)

lemma take_nul_pos:
  "nul_pos m < length m \<Longrightarrow> take (nul_pos m + 1) m = take (nul_pos m) m @ [0]"
  by (simp add: take_Suc_conv_app_nth nul_pos_at)

lemma ok_nul: "str_ok s \<Longrightarrow> nul_pos (mem s) < length (mem s)"
  by (simp add: str_ok_def)

lemma view_nul: "str_ok s \<Longrightarrow> take (nul_pos (mem s)) (mem s) = take (nul_pos (str_view s)) (str_view s)"
  by (auto simp: str_ok_def str_view_def nul_pos_take min_def)

section \<open>Comparing\<close>

lemma strcmp_total:
  "nul_pos a < length a \<Longrightarrow> nul_pos b < length b \<Longrightarrow>
     \<exists>c. strcmp a b = Inr c \<and> (c = 0 \<longleftrightarrow> take (nul_pos a) a = take (nul_pos b) b)"
proof (induction a b rule: strcmp.induct)
  case (1 x xs y ys)
  then show ?case
    by (auto simp: nul_pos_def word_uint_eq_iff [symmetric])
qed (auto simp: nul_pos_def)

section \<open>Properties\<close>

text \<open>
  Appending to a well-formed buffer never faults below the 32 MB the length field can hold and
  keeps the buffer well formed. The appended bytes are stored exactly; the old contents survive
  when the allocation is large enough, and otherwise everything behind their first zero byte is
  overwritten with zeros, because \<open>reserve\<close> copies with \<open>strncpy\<close>.
\<close>

theorem str_append_contents:
  assumes "str_ok s" and "Length s + int (length bs) + 1 < 2 ^ 25"
  shows "\<exists>s'. str_append s bs = Inr (int (length bs), s') \<and> str_ok s' \<and>
    str_view s' =
      (if Length s + int (length bs) + 1 \<le> Capacity s then str_view s else nul_tail (str_view s)) @ bs"
  using append_view [OF assms] by auto

theorem str_append_contents_witness:
  "\<exists>s'. str_append str_new [1, 0, 2] = Inr (int (length [1, 0, 2 :: u8]), s') \<and> str_ok s' \<and>
    str_view s' =
      (if Length str_new + int (length [1, 0, 2 :: u8]) + 1 \<le> Capacity str_new then str_view str_new
       else nul_tail (str_view str_new)) @ [1, 0, 2]"
  by (rule str_append_contents) (simp, simp add: str_new_def)

text \<open>
  Replacing bytes in place changes nothing outside of them, but leaves a zero in place of the
  first new byte: \<open>replace\<close> ends by writing the terminator at \<open>idx + add_len\<close>, not at the end.
\<close>

theorem str_replace_in_place:
  assumes "str_ok s" "Owned s" and "0 \<le> idx" "d \<noteq> []"
    and "idx + int (length d) \<le> Length s"
  shows "\<exists>s'. str_replace s idx (int (length d)) d (int (length d)) = Inr (0, s') \<and>
    str_view s' = take (nat idx) (str_view s) @ 0 # tl d
      @ drop (nat idx + length d) (str_view s)"
proof -
  have ok: "Capacity s = int (length (mem s))" "nat (Length s) < length (mem s)" "Length s < 2 ^ 25"
    "0 \<le> Length s"
    using assms(1,2) by (simp_all add: str_ok_def)
  then have le: "nat idx + length d \<le> nat (Length s)" "nat idx + length d \<le> length (mem s)"
    using assms(3,5) by linarith+
  have lt: "0 \<le> idx + 1" "\<not> Capacity s < idx + 1" "idx + 1 < 2 ^ 31"
    using ok le assms(3-5) by (cases d; simp)+
  define m where "m = take (nat idx) (mem s) @ d @ drop (nat idx + length d) (mem s)"
  have "m[nat idx := 0] = take (nat idx) (mem s) @ 0 # tl d @ drop (nat idx + length d) (mem s)"
    using le assms(4) by (cases d) (simp_all add: m_def list_update_append)
  moreover have "nat idx < length m"
    using le assms(4) by (cases d) (simp_all add: m_def)
  ultimately have "str_replace s idx (int (length d)) d (int (length d)) =
      Inr (0, s\<lparr> mem := take (nat idx) (mem s) @ 0 # tl d @ drop (nat idx + length d) (mem s) \<rparr>)"
    using lt ok le assms(2,3)
    by (simp add: str_replace_def str_grow_def read_i_def read_block_def write_i_def write_block_def
      poke_i_def poke_at_def m_def [symmetric])
  moreover obtain a as where "d = a # as"
    using assms(4) by (cases d) auto
  moreover obtain k where "nat (Length s) = nat idx + length d + k"
    using le(1) by (auto dest: le_Suc_ex)
  ultimately show ?thesis
    by (simp add: str_view_def drop_take min_def)
qed

theorem str_replace_in_place_witness:
  "\<exists>s'. str_replace \<lparr> mem = [5, 6, 7, 0], Capacity = 4, Length = 3, Owned = True \<rparr> 1
      (int (length [9 :: u8])) [9] (int (length [9 :: u8])) = Inr (0, s') \<and>
    str_view s' = take (nat 1) (str_view \<lparr> mem = [5, 6, 7, 0], Capacity = 4, Length = 3, Owned = True \<rparr>)
      @ 0 # tl [9] @ drop (nat 1 + length [9 :: u8])
          (str_view \<lparr> mem = [5, 6, 7, 0], Capacity = 4, Length = 3, Owned = True \<rparr>)"
  by (rule str_replace_in_place) (simp_all add: str_ok_def nul_pos_def)

text \<open>
  Copying a buffer (copy constructor and copy assignment) keeps the contents up to the first
  zero byte only, while moving it keeps them all and leaves the source empty.
\<close>

theorem str_copy_contents:
  assumes "str_ok s" "str_ok src" "Length src < 2 ^ 25 - 1" "Owned src"
  shows "\<exists>s' s''. str_set_copy junk s src = Inr s' \<and> str_ok s' \<and>
      str_view s' = take (nul_pos (str_view src)) (str_view src) \<and>
    str_set_move s src = Inr (s'', str_new) \<and> str_ok s'' \<and> str_view s'' = str_view src"
proof -
  let ?v = "take (nul_pos (mem src)) (mem src)"
  have "nul_pos (mem src) \<le> nat (Length src)" "0 \<le> Length src"
    using assms(2) by (simp_all add: str_ok_def)
  then have "length ?v < 2 ^ 25 - 1"
    using assms(3) by simp
  moreover have "str_set_copy junk s src = str_store junk s (?v @ [0])"
    using ok_nul [OF assms(2)]
    by (simp add: str_set_copy_def strlen_def take_nul_pos [simplified])
  moreover have "str_set_move s src = Inr (src, str_new)"
    using assms(4) by (cases src) (simp add: str_set_move_def str_clear_def str_new_def)
  ultimately show ?thesis
    using store_view [OF assms(1), of ?v junk] assms(2) view_nul [OF assms(2)] by auto
qed

theorem str_copy_contents_witness:
  "\<exists>s' s''. str_set_copy 7 str_new \<lparr> mem = [5, 0, 7, 0], Capacity = 4, Length = 3, Owned = True \<rparr>
      = Inr s' \<and> str_ok s' \<and>
      str_view s' = take (nul_pos (str_view \<lparr> mem = [5, 0, 7, 0], Capacity = 4, Length = 3, Owned = True \<rparr>))
        (str_view \<lparr> mem = [5, 0, 7, 0], Capacity = 4, Length = 3, Owned = True \<rparr>) \<and>
    str_set_move str_new \<lparr> mem = [5, 0, 7, 0], Capacity = 4, Length = 3, Owned = True \<rparr>
      = Inr (s'', str_new) \<and> str_ok s'' \<and>
      str_view s'' = str_view \<lparr> mem = [5, 0, 7, 0], Capacity = 4, Length = 3, Owned = True \<rparr>"
  by (rule str_copy_contents, rule str_new_ok) (simp_all add: str_ok_def nul_pos_def)

end
