(* ===== verification/Table_Key.thy ===== *)
theory Table_Key
  imports Key_Encoder Str_Buffer
begin

text \<open>
  Table keys: \<open>MutTableKey\<close> (\<open>db/mut_table_key.h\<close>, \<open>.cpp\<close>), which builds a key by appending columns
  to a \<open>Str\<close>, and \<open>TableKey\<close> (\<open>db/table_key.h\<close>, \<open>.cpp\<close>), which reads columns of a key through a
  \<open>StrRef\<close>. \<open>big\<close> is the byte order of the host, as in \<open>Key_Encoder\<close>.
\<close>

section \<open>The bytes of a column\<close>

text \<open>The bytes an append stores, and what an extract makes of the bytes at its position.\<close>

definition col_u8 :: "u8 \<Rightarrow> bytes" where "col_u8 v = [v]"
definition col_i8 :: "i8 \<Rightarrow> bytes" where "col_i8 v = [encode_i8 v]"
definition col_u16 :: "bool \<Rightarrow> u16 \<Rightarrow> bytes" where
  "col_u16 big v = host_bytes big 2 (to_endian_u16 big v)"
definition col_i16 :: "bool \<Rightarrow> i16 \<Rightarrow> bytes" where
  "col_i16 big v = host_bytes big 2 (to_endian_u16 big (encode_i16 v))"
definition col_u32 :: "bool \<Rightarrow> u32 \<Rightarrow> bytes" where
  "col_u32 big v = host_bytes big 4 (to_endian_u32 big v)"
definition col_i32 :: "bool \<Rightarrow> i32 \<Rightarrow> bytes" where
  "col_i32 big v = host_bytes big 4 (to_endian_u32 big (encode_i32 v))"
definition col_u64 :: "bool \<Rightarrow> u64 \<Rightarrow> bytes" where
  "col_u64 big v = host_bytes big 8 (to_endian_u64 big v)"
definition col_i64 :: "bool \<Rightarrow> i64 \<Rightarrow> bytes" where
  "col_i64 big v = host_bytes big 8 (to_endian_u64 big (encode_i64 v))"
definition col_float :: "bool \<Rightarrow> u32 \<Rightarrow> bytes" where
  "col_float big v = host_bytes big 4 (to_endian_u32 big (encode_f32 v))"
definition col_double :: "bool \<Rightarrow> u64 \<Rightarrow> bytes" where
  "col_double big v = host_bytes big 8 (to_endian_u64 big (encode_f64 v))"

section \<open>MutTableKey\<close>

record mut_key =
  mk_full :: bool
  mk_data :: str

definition mut_key_new :: mut_key where
  "mut_key_new = \<lparr> mk_full = False, mk_data = str_new \<rparr>"

text \<open>Every append discards the count \<open>Str::append\<close> returns.\<close>

definition key_append :: "mut_key \<Rightarrow> bytes \<Rightarrow> mut_key res" where
  "key_append k bs = rbind (str_append (mk_data k) bs) (\<lambda>(_, s). Inr (k\<lparr> mk_data := s \<rparr>))"

definition append_u8 :: "mut_key \<Rightarrow> u8 \<Rightarrow> mut_key res" where
  "append_u8 k v = key_append k (col_u8 v)"
definition append_i8 :: "mut_key \<Rightarrow> i8 \<Rightarrow> mut_key res" where
  "append_i8 k v = key_append k (col_i8 v)"
definition append_u16 :: "bool \<Rightarrow> mut_key \<Rightarrow> u16 \<Rightarrow> mut_key res" where
  "append_u16 big k v = key_append k (col_u16 big v)"
definition append_i16 :: "bool \<Rightarrow> mut_key \<Rightarrow> i16 \<Rightarrow> mut_key res" where
  "append_i16 big k v = key_append k (col_i16 big v)"
definition append_u32 :: "bool \<Rightarrow> mut_key \<Rightarrow> u32 \<Rightarrow> mut_key res" where
  "append_u32 big k v = key_append k (col_u32 big v)"
definition append_i32 :: "bool \<Rightarrow> mut_key \<Rightarrow> i32 \<Rightarrow> mut_key res" where
  "append_i32 big k v = key_append k (col_i32 big v)"
definition append_u64 :: "bool \<Rightarrow> mut_key \<Rightarrow> u64 \<Rightarrow> mut_key res" where
  "append_u64 big k v = key_append k (col_u64 big v)"
definition append_i64 :: "bool \<Rightarrow> mut_key \<Rightarrow> i64 \<Rightarrow> mut_key res" where
  "append_i64 big k v = key_append k (col_i64 big v)"
definition append_float :: "bool \<Rightarrow> mut_key \<Rightarrow> u32 \<Rightarrow> mut_key res" where
  "append_float big k v = key_append k (col_float big v)"
definition append_double :: "bool \<Rightarrow> mut_key \<Rightarrow> u64 \<Rightarrow> mut_key res" where
  "append_double big k v = key_append k (col_double big v)"
definition append_boolean :: "mut_key \<Rightarrow> bool \<Rightarrow> mut_key res" where
  "append_boolean k v = key_append k [if v then 1 else 0]"

definition key_append_char :: "mut_key \<Rightarrow> u8 \<Rightarrow> mut_key res" where
  "key_append_char k c = rbind (str_append_char (mk_data k) c) (\<lambda>(_, s). Inr (k\<lparr> mk_data := s \<rparr>))"

definition append_string :: "mut_key \<Rightarrow> bytes \<Rightarrow> mut_key res" where
  "append_string k v = rbind (key_append k v) (\<lambda>k1. key_append_char k1 0)"

definition append_string_prefix :: "mut_key \<Rightarrow> bytes \<Rightarrow> mut_key res" where
  "append_string_prefix k v = key_append k v"

definition append_char :: "mut_key \<Rightarrow> bytes \<Rightarrow> mut_key res" where
  "append_char k data = key_append k data"

text \<open>\<open>data\<close> has \<open>size\<close> bytes; \<open>fixed_size - sz\<close> is converted to the \<open>int\<close> of \<open>append(int, char)\<close>.\<close>

definition append_fixed_char :: "mut_key \<Rightarrow> bytes \<Rightarrow> nat \<Rightarrow> mut_key res" where
  "append_fixed_char k data fixed_size =
     (let sz = min (length data) fixed_size in
      rbind (key_append k (take sz data)) (\<lambda>k1.
        if sz < fixed_size then
          rbind (str_append_fill (mk_data k1) (to_int32 (int (fixed_size - sz))) 0) (\<lambda>(_, s).
            Inr (k1\<lparr> mk_data := s \<rparr>))
        else Inr k1))"

definition key_replace :: "mut_key \<Rightarrow> int \<Rightarrow> bytes \<Rightarrow> mut_key res" where
  "key_replace k pos bs =
     rbind (str_replace (mk_data k) (to_int32 pos) (int (length bs)) bs (int (length bs)))
       (\<lambda>(_, s). Inr (k\<lparr> mk_data := s \<rparr>))"

definition replace_u8 :: "mut_key \<Rightarrow> u8 \<Rightarrow> int \<Rightarrow> mut_key res" where
  "replace_u8 k v pos = key_replace k pos (col_u8 v)"
definition replace_i32 :: "bool \<Rightarrow> mut_key \<Rightarrow> i32 \<Rightarrow> nat \<Rightarrow> mut_key res" where
  "replace_i32 big k v pos = key_replace k (int pos) (col_i32 big v)"
definition replace_i64 :: "bool \<Rightarrow> mut_key \<Rightarrow> i64 \<Rightarrow> nat \<Rightarrow> mut_key res" where
  "replace_i64 big k v pos = key_replace k (int pos) (col_i64 big v)"

text \<open>\<open>append_index\<close> of another key and of a string: \<open>data()\<close> and \<open>size()\<close> of it.\<close>

definition key_bytes_n :: "str \<Rightarrow> bytes res" where
  "key_bytes_n s = read_i (mem s) 0 (to_int32 (int (str_length s)))"

text \<open>The \<open>Slice\<close> of the bytes of a key.\<close>

definition key_slice :: "mut_key \<Rightarrow> bytes res" where
  "key_slice k = read_block (mem (mk_data k)) 0 (str_length (mk_data k))"

definition append_index :: "mut_key \<Rightarrow> mut_key \<Rightarrow> mut_key res" where
  "append_index k key = rbind (key_bytes_n (mk_data key)) (key_append k)"

definition append_index_string :: "mut_key \<Rightarrow> bytes \<Rightarrow> mut_key res" where
  "append_index_string k key = key_append k key"

section \<open>TableKey\<close>

record table_key =
  tk_full :: bool
  tk_data :: str

definition table_key_new :: table_key where
  "table_key_new = \<lparr> tk_full = False, tk_data = str_set_ref_n str_new None 0 \<rparr>"

definition table_key_of_slice :: "str \<Rightarrow> bool \<Rightarrow> table_key" where
  "table_key_of_slice key full =
     \<lparr> tk_full = full,
       tk_data = str_set_ref_n str_new (Some (mem key)) (to_int32 (int (str_length key))) \<rparr>"

definition table_key_of_chars :: "bytes \<Rightarrow> nat \<Rightarrow> bool \<Rightarrow> table_key" where
  "table_key_of_chars s sz full =
     \<lparr> tk_full = full, tk_data = str_set_ref_n str_new (Some s) (to_int32 (int sz)) \<rparr>"

text \<open>\<open>TableKey(const MutTableKey&)\<close> passes the pointer only, so its length is that of a C string.\<close>

definition table_key_of_mut :: "mut_key \<Rightarrow> table_key res" where
  "table_key_of_mut key =
     rbind (str_set_ref str_new (Some (mem (mk_data key)))) (\<lambda>s.
       Inr \<lparr> tk_full = mk_full key, tk_data = s \<rparr>)"

definition mut_key_of_slice :: "u8 \<Rightarrow> str \<Rightarrow> bool \<Rightarrow> mut_key res" where
  "mut_key_of_slice junk key full =
     rbind (str_set_range junk str_new (Some (mem key)) (to_int32 (int (str_length key)))) (\<lambda>s.
       Inr \<lparr> mk_full = full, mk_data = s \<rparr>)"

definition mut_key_of_table :: "u8 \<Rightarrow> table_key \<Rightarrow> mut_key res" where
  "mut_key_of_table junk key = mut_key_of_slice junk (tk_data key) (tk_full key)"

definition append_index_table :: "mut_key \<Rightarrow> table_key \<Rightarrow> mut_key res" where
  "append_index_table k key = rbind (key_bytes_n (tk_data key)) (key_append k)"

definition mut_key_move :: "mut_key \<Rightarrow> (mut_key \<times> mut_key) res" where
  "mut_key_move k =
     rbind (str_set_move str_new (mk_data k)) (\<lambda>(s, r).
       Inr (\<lparr> mk_full = mk_full k, mk_data = s \<rparr>, k\<lparr> mk_data := r \<rparr>))"

definition mut_key_copy :: "u8 \<Rightarrow> mut_key \<Rightarrow> mut_key res" where
  "mut_key_copy junk k =
     rbind (str_set_copy junk str_new (mk_data k)) (\<lambda>s. Inr \<lparr> mk_full = mk_full k, mk_data = s \<rparr>)"

definition skip_table_prefix :: "int \<Rightarrow> int" where "skip_table_prefix pos = pos + 8"
definition skip_region_prefix :: "int \<Rightarrow> int" where "skip_region_prefix pos = pos + 8"

text \<open>Reading: the n bytes at \<open>_data.data() + pos\<close>, whatever the length of the key is.\<close>

definition key_at :: "table_key \<Rightarrow> int \<Rightarrow> nat \<Rightarrow> bytes res" where
  "key_at k pos n = read_i (mem (tk_data k)) pos (int n)"

definition extract_u8 :: "table_key \<Rightarrow> int \<Rightarrow> u8 res" where
  "extract_u8 k pos = rbind (key_at k pos 1) (\<lambda>b. Inr (b ! 0))"
definition extract_i8 :: "table_key \<Rightarrow> int \<Rightarrow> i8 res" where
  "extract_i8 k pos = rbind (key_at k pos 1) (\<lambda>b. Inr (decode_i8 (b ! 0)))"
definition extract_u16 :: "bool \<Rightarrow> table_key \<Rightarrow> int \<Rightarrow> u16 res" where
  "extract_u16 big k pos = rbind (key_at k pos 2) (\<lambda>b. Inr (to_endian_u16 big (host_word big b)))"
definition extract_i16 :: "bool \<Rightarrow> table_key \<Rightarrow> int \<Rightarrow> i16 res" where
  "extract_i16 big k pos =
     rbind (key_at k pos 2) (\<lambda>b. Inr (decode_i16 (to_endian_u16 big (host_word big b))))"
definition extract_u32 :: "bool \<Rightarrow> table_key \<Rightarrow> int \<Rightarrow> u32 res" where
  "extract_u32 big k pos = rbind (key_at k pos 4) (\<lambda>b. Inr (to_endian_u32 big (host_word big b)))"
definition extract_i32 :: "bool \<Rightarrow> table_key \<Rightarrow> int \<Rightarrow> i32 res" where
  "extract_i32 big k pos =
     rbind (key_at k pos 4) (\<lambda>b. Inr (decode_i32 (to_endian_u32 big (host_word big b))))"
definition extract_u64 :: "bool \<Rightarrow> table_key \<Rightarrow> int \<Rightarrow> u64 res" where
  "extract_u64 big k pos = rbind (key_at k pos 8) (\<lambda>b. Inr (to_endian_u64 big (host_word big b)))"
definition extract_i64 :: "bool \<Rightarrow> table_key \<Rightarrow> int \<Rightarrow> i64 res" where
  "extract_i64 big k pos =
     rbind (key_at k pos 8) (\<lambda>b. Inr (decode_i64 (to_endian_u64 big (host_word big b))))"
definition extract_float :: "bool \<Rightarrow> table_key \<Rightarrow> int \<Rightarrow> u32 res" where
  "extract_float big k pos =
     rbind (key_at k pos 4) (\<lambda>b. Inr (decode_f32 (to_endian_u32 big (host_word big b))))"
definition extract_double :: "bool \<Rightarrow> table_key \<Rightarrow> int \<Rightarrow> u64 res" where
  "extract_double big k pos =
     rbind (key_at k pos 8) (\<lambda>b. Inr (decode_f64 (to_endian_u64 big (host_word big b))))"
definition extract_boolean :: "table_key \<Rightarrow> int \<Rightarrow> bool res" where
  "extract_boolean k pos = rbind (key_at k pos 1) (\<lambda>b. Inr (b ! 0 \<noteq> 0))"
definition extract_char :: "table_key \<Rightarrow> int \<Rightarrow> nat \<Rightarrow> bytes res" where
  "extract_char k pos len = key_at k pos len"
definition extract_string :: "table_key \<Rightarrow> int \<Rightarrow> bytes res" where
  "extract_string k pos =
     (if pos < 0 then Inl MemFault
      else let m = drop (nat pos) (mem (tk_data k)) in rbind (strlen m) (\<lambda>n. Inr (take n m)))"

definition end_key_compare :: "str \<Rightarrow> str \<Rightarrow> int res" where
  "end_key_compare key1 key2 =
     rbind (str_eq key1 key2) (\<lambda>eq.
       if eq then Inr 0
       else if str_empty key1 then Inr 1
       else if str_empty key2 then Inr (-1)
       else str_compare key1 key2)"

section \<open>The columns are ordered key fields\<close>

lemma col_bytes:
  "col_u16 big v2 = be_bytes 2 v2" "col_i16 big w2 = be_bytes 2 (encode_i16 w2)"
  "col_u32 big v4 = be_bytes 4 v4" "col_i32 big w4 = be_bytes 4 (encode_i32 w4)"
  "col_u64 big v8 = be_bytes 8 v8" "col_i64 big w8 = be_bytes 8 (encode_i64 w8)"
  "col_float big x4 = be_bytes 4 (encode_f32 x4)" "col_double big x8 = be_bytes 8 (encode_f64 x8)"
  by (simp_all add: col_u16_def col_i16_def col_u32_def col_i32_def col_u64_def col_i64_def
    col_float_def col_double_def endian_u16_bytes endian_u32_bytes endian_u64_bytes)

lemmas col_length [simp] = arg_cong [where f = length, OF col_bytes(1), simplified]
  arg_cong [where f = length, OF col_bytes(2), simplified]
  arg_cong [where f = length, OF col_bytes(3), simplified]
  arg_cong [where f = length, OF col_bytes(4), simplified]
  arg_cong [where f = length, OF col_bytes(5), simplified]
  arg_cong [where f = length, OF col_bytes(6), simplified]
  arg_cong [where f = length, OF col_bytes(7), simplified]
  arg_cong [where f = length, OF col_bytes(8), simplified]

interpretation c_u8: key_codec col_u8 hd "(<)" "\<lambda>_. True" 1
  by unfold_locales (auto simp: col_u8_def)

interpretation c_i8: key_codec col_i8 "\<lambda>b. decode_i8 (hd b)" "\<lambda>v w. sint v < sint w" "\<lambda>_. True" 1
  by unfold_locales (auto simp: col_i8_def encode_order decode_encode)

interpretation c_u16: key_codec "col_u16 big" "\<lambda>b. to_endian_u16 big (host_word big b)" "(<)"
  "\<lambda>_. True" 2 for big
  by unfold_locales (auto simp: col_bytes be_bytes_order host_u16_back)

interpretation c_i16: key_codec "col_i16 big" "\<lambda>b. decode_i16 (to_endian_u16 big (host_word big b))"
  "\<lambda>v w. sint v < sint w" "\<lambda>_. True" 2 for big
  by unfold_locales (auto simp: col_bytes be_bytes_order host_u16_back encode_order decode_encode)

interpretation c_u32: key_codec "col_u32 big" "\<lambda>b. to_endian_u32 big (host_word big b)" "(<)"
  "\<lambda>_. True" 4 for big
  by unfold_locales (auto simp: col_bytes be_bytes_order host_u32_back)

interpretation c_i32: key_codec "col_i32 big" "\<lambda>b. decode_i32 (to_endian_u32 big (host_word big b))"
  "\<lambda>v w. sint v < sint w" "\<lambda>_. True" 4 for big
  by unfold_locales (auto simp: col_bytes be_bytes_order host_u32_back encode_order decode_encode)

interpretation c_u64: key_codec "col_u64 big" "\<lambda>b. to_endian_u64 big (host_word big b)" "(<)"
  "\<lambda>_. True" 8 for big
  by unfold_locales (auto simp: col_bytes be_bytes_order host_u64_back)

interpretation c_i64: key_codec "col_i64 big" "\<lambda>b. decode_i64 (to_endian_u64 big (host_word big b))"
  "\<lambda>v w. sint v < sint w" "\<lambda>_. True" 8 for big
  by unfold_locales (auto simp: col_bytes be_bytes_order host_u64_back encode_order decode_encode)

text \<open>The floating point columns order the numbers other than the positive zero.\<close>

interpretation c_float: key_codec "col_float big" "\<lambda>b. decode_f32 (to_endian_u32 big (host_word big b))"
  f32_less "\<lambda>w. \<not> f32_nan w \<and> w \<noteq> 0" 4 for big
  by unfold_locales
    (auto simp: col_bytes be_bytes_order host_u32_back encode_f32_order decode_encode_f32 f32_gt_0_def)

interpretation c_double: key_codec "col_double big" "\<lambda>b. decode_f64 (to_endian_u64 big (host_word big b))"
  f64_less "\<lambda>w. \<not> f64_nan w \<and> w \<noteq> 0" 8 for big
  by unfold_locales
    (auto simp: col_bytes be_bytes_order host_u64_back encode_f64_order decode_encode_f64 f64_gt_0_def)

section \<open>Building a key\<close>

definition key_view :: "mut_key \<Rightarrow> bytes" where "key_view k = str_view (mk_data k)"

definition key_ok :: "mut_key \<Rightarrow> bool" where "key_ok k \<longleftrightarrow> str_ok (mk_data k)"

lemma mut_key_new_ok [simp]: "key_ok mut_key_new" "key_view mut_key_new = []"
  by (simp_all add: key_ok_def key_view_def mut_key_new_def)

lemma mut_key_new_fields [simp]: "Length (mk_data mut_key_new) = 0" "Capacity (mk_data mut_key_new) = 0"
  by (simp_all add: mut_key_new_def str_new_def)

lemma nul_tail_Nil [simp]: "nul_tail [] = []"
  by (simp add: nul_tail_def)

lemma key_append_view:
  assumes "key_ok k" "Length (mk_data k) + int (length bs) + 1 < 2 ^ 25"
  shows "\<exists>k'. key_append k bs = Inr k' \<and> key_ok k' \<and> Owned (mk_data k') \<and> mk_full k' = mk_full k \<and>
    Length (mk_data k') = Length (mk_data k) + int (length bs) \<and>
    Capacity (mk_data k') = max (Capacity (mk_data k)) (Length (mk_data k) + int (length bs) + 1) \<and>
    key_view k' =
      (if Length (mk_data k) + int (length bs) + 1 \<le> Capacity (mk_data k) then key_view k
       else nul_tail (key_view k)) @ bs"
proof -
  obtain s where "str_append (mk_data k) bs = Inr (int (length bs), s)" "str_ok s" "Owned s"
    "Length s = Length (mk_data k) + int (length bs)"
    "Capacity s = max (Capacity (mk_data k)) (Length (mk_data k) + int (length bs) + 1)"
    "str_view s = (if Length (mk_data k) + int (length bs) + 1 \<le> Capacity (mk_data k)
      then str_view (mk_data k) else nul_tail (str_view (mk_data k))) @ bs"
    using append_view [of "mk_data k" bs] assms unfolding key_ok_def by blast
  then show ?thesis
    by (simp add: key_append_def key_ok_def key_view_def)
qed

text \<open>The first column of a fresh key, which the appends after it may damage.\<close>

lemma key_append_first:
  assumes "length bs < 2 ^ 24"
  shows "\<exists>k. key_append mut_key_new bs = Inr k \<and> key_ok k \<and> key_view k = bs \<and>
    Length (mk_data k) = int (length bs) \<and> Capacity (mk_data k) = int (length bs) + 1 \<and>
    Owned (mk_data k)"
  using key_append_view [of mut_key_new bs] assms by auto

lemma key_append_second:
  assumes "length a < 2 ^ 24 - 1" "length b < 2 ^ 24 - 1" "b \<noteq> []"
  shows "\<exists>k. rbind (key_append mut_key_new a) (\<lambda>k. key_append k b) = Inr k \<and> key_ok k \<and>
    Owned (mk_data k) \<and> key_view k = nul_tail a @ b"
proof -
  obtain k where k: "key_append mut_key_new a = Inr k" "key_ok k" "key_view k = a"
    "Length (mk_data k) = int (length a)" "Capacity (mk_data k) = int (length a) + 1"
    using key_append_first [of a] assms by auto
  moreover have "\<exists>k'. key_append k b = Inr k' \<and> key_ok k' \<and> Owned (mk_data k') \<and>
    key_view k' = nul_tail a @ b"
    using key_append_view [OF k(2), of b] k(3-5) assms by (cases b) auto
  ultimately show ?thesis
    by auto
qed

lemma be_bytes_4_hd: "uint t < 2 ^ 24 \<Longrightarrow> hd (be_bytes 4 (t :: u32)) = 0"
proof -
  assume t: "uint t < 2 ^ 24"
  have "uint (drop_bit 24 t) = 0"
    unfolding unsigned_drop_bit_eq using t by (simp add: drop_bit_eq_div bintr_uint)
  then have "drop_bit 24 t = 0"
    by (metis uint_0_iff)
  then show ?thesis
    by (simp add: be_bytes_def upt_conv_Cons)
qed

lemma be_bytes_4_zero: "uint t < 2 ^ 24 \<Longrightarrow> nul_tail (be_bytes 4 (t :: u32)) = [0, 0, 0, 0]"
proof -
  assume t: "uint t < 2 ^ 24"
  have "be_bytes 4 t \<noteq> []"
    by (metis be_bytes_length length_0_conv zero_neq_numeral)
  then have "nul_tail (be_bytes 4 t) = replicate 4 0"
    using nul_tail_hd [of "be_bytes 4 t"] be_bytes_4_hd [OF t] by simp
  then show ?thesis
    by (simp add: numeral_eq_Suc)
qed

text \<open>Reading a column back at the offset it was appended at.\<close>

lemma key_at_append:
  assumes "key_append k bs = Inr k'" "key_ok k" "Length (mk_data k) + int (length bs) + 1 < 2 ^ 25"
  shows "key_at (table_key_of_slice (mk_data k') full) (Length (mk_data k)) (length bs) = Inr bs"
proof -
  let ?L = "nat (Length (mk_data k))"
  obtain v where v: "key_view k' = v @ bs" "length v = ?L" "key_ok k'"
    "Length (mk_data k') = Length (mk_data k) + int (length bs)"
    using key_append_view [OF assms(2,3)] assms(1,2)
    by (auto simp: key_view_def str_view_def key_ok_def str_ok_def split: if_splits)
  have "take (?L + length bs) (mem (mk_data k')) = v @ bs"
    using v assms(2) by (simp add: key_view_def str_view_def key_ok_def str_ok_def nat_add_distrib)
  then have "take (length bs) (drop ?L (mem (mk_data k'))) = bs"
    using v(2) by (metis append_eq_conv_conj drop_take add_diff_cancel_left')
  moreover have "?L + length bs < length (mem (mk_data k'))" "0 \<le> Length (mk_data k)"
    using v(3,4) assms(2) by (auto simp: key_ok_def str_ok_def nat_add_distrib)
  ultimately show ?thesis
    by (simp add: key_at_def read_i_def read_block_def table_key_of_slice_def str_set_ref_n_def)
qed

lemma col_u8_length [simp]: "length (col_u8 v) = 1" "length (col_i8 w) = 1"
  by (simp_all add: col_u8_def col_i8_def)

lemma append_then:
  assumes "key_ok k" "Length (mk_data k) < 2 ^ 24" "length bs \<le> 8"
    and "\<And>k'. key_append k bs = Inr k' \<Longrightarrow>
      key_at (table_key_of_slice (mk_data k') full) (Length (mk_data k)) (length bs) = Inr bs \<Longrightarrow> P k'"
  shows "\<exists>k'. key_append k bs = Inr k' \<and> P k'"
proof -
  have "Length (mk_data k) + int (length bs) + 1 < 2 ^ 25"
    using assms(2,3) by simp
  then show ?thesis
    using key_append_view [OF assms(1)] key_at_append [OF _ assms(1)] assms(4) by blast
qed

lemma encode_f64_max:
  assumes "encode_f64 v = -1" "\<not> f64_nan v"
  shows "v = 0"
proof (cases "f64_gt_0 v")
  case True
  then have "v = (v OR SIGN_MASK_64) AND NOT SIGN_MASK_64"
    by (intro bit_word_eqI) (auto simp: bit_simps sign_mask_bit f64_gt_0_def)
  also have "\<dots> = NOT SIGN_MASK_64"
    using True assms(1) by (simp add: encode_f64_def)
  also have "\<dots> = 0x7fffffffffffffff"
    by (simp add: SIGN_MASK_64_def)
  finally show ?thesis
    using assms(2) by (simp add: f64_nan_def)
next
  case False
  then have "NOT v = NOT 0"
    using assms(1) by (simp add: encode_f64_def)
  then show ?thesis
    by (metis bit.double_compl)
qed

lemmas extract_defs = extract_u8_def extract_i8_def extract_u16_def extract_i16_def extract_u32_def
  extract_i32_def extract_u64_def extract_i64_def

lemmas append_defs = append_u8_def append_i8_def append_u16_def append_i16_def append_u32_def
  append_i32_def append_u64_def append_i64_def

section \<open>Properties\<close>

text \<open>
  C38. The order of the bytes of an integer column is the order of its values, on hosts of either
  byte order: unsigned for the unsigned columns and signed for the signed ones. Between equal
  values the rest of the key decides, whatever prefix the keys share.
\<close>

theorem key_column_order:
  "(p @ col_u8 a1 @ r < p @ col_u8 b1 @ s \<longleftrightarrow> a1 < b1 \<or> a1 = b1 \<and> r < s) \<and>
   (p @ col_i8 c1 @ r < p @ col_i8 d1 @ s \<longleftrightarrow> sint c1 < sint d1 \<or> c1 = d1 \<and> r < s) \<and>
   (p @ col_u16 big a2 @ r < p @ col_u16 big b2 @ s \<longleftrightarrow> a2 < b2 \<or> a2 = b2 \<and> r < s) \<and>
   (p @ col_i16 big c2 @ r < p @ col_i16 big d2 @ s \<longleftrightarrow> sint c2 < sint d2 \<or> c2 = d2 \<and> r < s) \<and>
   (p @ col_u32 big a4 @ r < p @ col_u32 big b4 @ s \<longleftrightarrow> a4 < b4 \<or> a4 = b4 \<and> r < s) \<and>
   (p @ col_i32 big c4 @ r < p @ col_i32 big d4 @ s \<longleftrightarrow> sint c4 < sint d4 \<or> c4 = d4 \<and> r < s) \<and>
   (p @ col_u64 big a8 @ r < p @ col_u64 big b8 @ s \<longleftrightarrow> a8 < b8 \<or> a8 = b8 \<and> r < s) \<and>
   (p @ col_i64 big c8 @ r < p @ col_i64 big d8 @ s \<longleftrightarrow> sint c8 < sint d8 \<or> c8 = d8 \<and> r < s)"
  by (simp add: c_u8.code_prefix c_i8.code_prefix c_u16.code_prefix c_i16.code_prefix
    c_u32.code_prefix c_i32.code_prefix c_u64.code_prefix c_i64.code_prefix)

text \<open>
  A \<open>double\<close> column orders the numbers as numbers, except that the positive zero comes after
  every other number, infinity included: \<open>encode_f64\<close> takes the branch of the negative numbers for it.
\<close>

theorem key_double_order:
  assumes "\<not> f64_nan v" "\<not> f64_nan w"
  shows "p @ col_double big v @ r < p @ col_double big w @ r \<longleftrightarrow>
    v \<noteq> 0 \<and> (w = 0 \<or> f64_less v w)"
proof -
  have "p @ col_double big v @ r < p @ col_double big w @ r \<longleftrightarrow> encode_f64 v < encode_f64 w"
    by (induction p) (auto simp: append_less col_bytes be_bytes_order)
  also have "\<dots> \<longleftrightarrow> v \<noteq> 0 \<and> (w = 0 \<or> f64_less v w)"
  proof (cases "v = 0 \<or> w = 0")
    case True
    have max: "encode_f64 0 = -1"
      by (simp add: encode_f64_def f64_gt_0_def)
    have "encode_f64 u \<noteq> -1 \<longleftrightarrow> u \<noteq> 0" if "\<not> f64_nan u" for u
      using that max encode_f64_max by blast
    with True max assms show ?thesis
      by (metis word_order.not_eq_extremum word_order.extremum_strict)
  next
    case False
    then show ?thesis
      using assms encode_f64_order by simp
  qed
  finally show ?thesis .
qed

theorem key_double_order_witness:
  "[1] @ col_double False 0x7ff0000000000000 @ [] < [1] @ col_double False 0 @ [] \<longleftrightarrow>
    (0x7ff0000000000000 :: u64) \<noteq> 0 \<and> ((0 :: u64) = 0 \<or> f64_less 0x7ff0000000000000 0)"
  by (rule key_double_order) (simp_all add: f64_nan_def)

text \<open>
  C39. A column appended to a well-formed key is read back by the extract of its type at the offset
  the key had before, on hosts of either byte order.
\<close>

theorem key_append_extract:
  assumes "key_ok k" "Length (mk_data k) < 2 ^ 24"
  shows "(\<exists>k'. append_u8 k a1 = Inr k' \<and>
      extract_u8 (table_key_of_slice (mk_data k') full) (Length (mk_data k)) = Inr a1) \<and>
    (\<exists>k'. append_i8 k b1 = Inr k' \<and>
      extract_i8 (table_key_of_slice (mk_data k') full) (Length (mk_data k)) = Inr b1) \<and>
    (\<exists>k'. append_u16 big k a2 = Inr k' \<and>
      extract_u16 big (table_key_of_slice (mk_data k') full) (Length (mk_data k)) = Inr a2) \<and>
    (\<exists>k'. append_i16 big k b2 = Inr k' \<and>
      extract_i16 big (table_key_of_slice (mk_data k') full) (Length (mk_data k)) = Inr b2) \<and>
    (\<exists>k'. append_u32 big k a4 = Inr k' \<and>
      extract_u32 big (table_key_of_slice (mk_data k') full) (Length (mk_data k)) = Inr a4) \<and>
    (\<exists>k'. append_i32 big k b4 = Inr k' \<and>
      extract_i32 big (table_key_of_slice (mk_data k') full) (Length (mk_data k)) = Inr b4) \<and>
    (\<exists>k'. append_u64 big k a8 = Inr k' \<and>
      extract_u64 big (table_key_of_slice (mk_data k') full) (Length (mk_data k)) = Inr a8) \<and>
    (\<exists>k'. append_i64 big k b8 = Inr k' \<and>
      extract_i64 big (table_key_of_slice (mk_data k') full) (Length (mk_data k)) = Inr b8)"
  unfolding append_defs
  by (intro conjI; rule append_then [OF assms, where full = full];
    simp add: extract_defs c_u16.uncode_code c_i16.uncode_code c_u32.uncode_code c_i32.uncode_code
      c_u64.uncode_code c_i64.uncode_code col_u8_def col_i8_def decode_encode)

theorem key_append_extract_witness:
  "(\<exists>k'. append_u8 mut_key_new 1 = Inr k' \<and>
      extract_u8 (table_key_of_slice (mk_data k') True) (Length (mk_data mut_key_new)) = Inr 1) \<and>
    (\<exists>k'. append_i8 mut_key_new 2 = Inr k' \<and>
      extract_i8 (table_key_of_slice (mk_data k') True) (Length (mk_data mut_key_new)) = Inr 2) \<and>
    (\<exists>k'. append_u16 False mut_key_new 3 = Inr k' \<and>
      extract_u16 False (table_key_of_slice (mk_data k') True) (Length (mk_data mut_key_new)) = Inr 3) \<and>
    (\<exists>k'. append_i16 False mut_key_new 4 = Inr k' \<and>
      extract_i16 False (table_key_of_slice (mk_data k') True) (Length (mk_data mut_key_new)) = Inr 4) \<and>
    (\<exists>k'. append_u32 False mut_key_new 5 = Inr k' \<and>
      extract_u32 False (table_key_of_slice (mk_data k') True) (Length (mk_data mut_key_new)) = Inr 5) \<and>
    (\<exists>k'. append_i32 False mut_key_new 6 = Inr k' \<and>
      extract_i32 False (table_key_of_slice (mk_data k') True) (Length (mk_data mut_key_new)) = Inr 6) \<and>
    (\<exists>k'. append_u64 False mut_key_new 7 = Inr k' \<and>
      extract_u64 False (table_key_of_slice (mk_data k') True) (Length (mk_data mut_key_new)) = Inr 7) \<and>
    (\<exists>k'. append_i64 False mut_key_new 8 = Inr k' \<and>
      extract_i64 False (table_key_of_slice (mk_data k') True) (Length (mk_data mut_key_new)) = Inr 8)"
  by (rule key_append_extract) simp_all

text \<open>
  A key of a table id below 2^24 and a row id, built as the code builds it, does not depend on
  the table: growing the buffer for the second column zeroes the first one. Keys of different tables
  with the same row id are the same bytes.
\<close>

theorem key_table_lost:
  assumes "uint t < 2 ^ 24"
  shows "\<exists>k. rbind (append_u32 big mut_key_new t) (\<lambda>k. append_u64 big k v) = Inr k \<and>
    key_view k = [0, 0, 0, 0] @ col_u64 big v"
proof -
  have "length (col_u64 big v) \<noteq> 0"
    by simp
  then have "col_u64 big v \<noteq> []"
    by force
  then show ?thesis
    using key_append_second [of "col_u32 big t" "col_u64 big v"] assms
    by (auto simp: append_u32_def append_u64_def col_bytes(3) be_bytes_4_zero)
qed

theorem key_table_lost_witness:
  "\<exists>k. rbind (append_u32 False mut_key_new 0x010203) (\<lambda>k. append_u64 False k 5) = Inr k \<and>
    key_view k = [0, 0, 0, 0] @ col_u64 False 5"
  by (rule key_table_lost) simp

text \<open>
  \<open>end_key_compare\<close> calls keys equal when they agree up to the first zero byte, whatever
  follows it; for keys of small integers that is before the first significant byte.
\<close>

theorem end_key_compare_prefix:
  assumes "str_ok a" "str_ok b"
    and "take (nul_pos (str_view a)) (str_view a) = take (nul_pos (str_view b)) (str_view b)"
  shows "end_key_compare a b = Inr 0"
proof -
  obtain c where "strcmp (mem a) (mem b) = Inr c"
    "c = 0 \<longleftrightarrow> take (nul_pos (mem a)) (mem a) = take (nul_pos (mem b)) (mem b)"
    using strcmp_total [OF ok_nul [OF assms(1)] ok_nul [OF assms(2)]] by blast
  then show ?thesis
    using assms(3) view_nul [OF assms(1)] view_nul [OF assms(2)]
    by (simp add: end_key_compare_def str_eq_def)
qed

theorem end_key_compare_prefix_witness:
  "end_key_compare \<lparr> mem = [0, 1, 0], Capacity = 3, Length = 2, Owned = True \<rparr>
     \<lparr> mem = [0, 2, 0], Capacity = 3, Length = 2, Owned = True \<rparr> = Inr 0"
  by (rule end_key_compare_prefix) (simp_all add: str_ok_def str_view_def nul_pos_def)

end
