(* ===== verification/Tuple_Value.thy ===== *)
theory Tuple_Value
  imports Key_Encoder Str_Buffer Varint
begin

text \<open>
  The cell value of \<open>db/tuple_value.h\<close> and \<open>db/tuple_value.cpp\<close>: the class \<open>Value\<close>, its setters,
  conversions and comparisons, and the \<open>BufferView\<close> cursor that the readers move over bytes.

  A value is a tagged union. Whether a string lies in the object or on the heap (\<open>_isalloc\<close>) does not
  show in what its operations return and is left out; an object or array behind a pointer is part
  of the value. A \<open>double\<close> is its bit pattern. \<open>set_ref\<close>, which the program never calls, is not
  modelled. Formatting and reading decimal fractions are libc: \<open>fmt\<close> and \<open>atof\<close> below.
\<close>

section \<open>Line types\<close>

definition TLV_LTYPE_NULL :: u8 where "TLV_LTYPE_NULL = 0x00"
definition TLV_LTYPE_TRUE :: u8 where "TLV_LTYPE_TRUE = 0x01"
definition TLV_LTYPE_FALSE :: u8 where "TLV_LTYPE_FALSE = 0x02"
definition TLV_LTYPE_NAN :: u8 where "TLV_LTYPE_NAN = 0x03"
definition TLV_LTYPE_ONE_NEG :: u8 where "TLV_LTYPE_ONE_NEG = 0x04"
definition TLV_LTYPE_VARINT_POS :: u8 where "TLV_LTYPE_VARINT_POS = 0x06"
definition TLV_LTYPE_VARINT_NEG :: u8 where "TLV_LTYPE_VARINT_NEG = 0x07"
definition TLV_LTYPE_FLOAT32 :: u8 where "TLV_LTYPE_FLOAT32 = 0x08"
definition TLV_LTYPE_FLOAT64 :: u8 where "TLV_LTYPE_FLOAT64 = 0x09"
definition TLV_LTYPE_BYTES :: u8 where "TLV_LTYPE_BYTES = 0x0a"
definition TLV_LTYPE_ARRAY0 :: u8 where "TLV_LTYPE_ARRAY0 = 0x0b"
definition TLV_LTYPE_OBJECT :: u8 where "TLV_LTYPE_OBJECT = 0x0f"
definition TLV_LTYPE_ERROR :: u8 where "TLV_LTYPE_ERROR = 0xff"

lemmas ltypes = TLV_LTYPE_NULL_def TLV_LTYPE_TRUE_def TLV_LTYPE_FALSE_def TLV_LTYPE_NAN_def
  TLV_LTYPE_ONE_NEG_def TLV_LTYPE_VARINT_POS_def TLV_LTYPE_VARINT_NEG_def TLV_LTYPE_FLOAT32_def
  TLV_LTYPE_FLOAT64_def TLV_LTYPE_BYTES_def TLV_LTYPE_ARRAY0_def TLV_LTYPE_OBJECT_def
  TLV_LTYPE_ERROR_def

section \<open>BufferView\<close>

text \<open>
  \<open>bv_data\<close> are the bytes accessible from \<open>_data\<close>. \<open>peek\<close> returns whether it moved; its result is
  \<open>nullptr\<close> otherwise.
\<close>

record buffer_view =
  bv_data :: bytes
  bv_size :: nat

definition view_of :: "bytes \<Rightarrow> buffer_view" where
  "view_of bs = \<lparr> bv_data = bs, bv_size = length bs \<rparr>"

definition view_peek :: "buffer_view \<Rightarrow> nat \<Rightarrow> bytes option \<times> buffer_view" where
  "view_peek v n =
     (if n > bv_size v \<or> bv_size v = 0 then (None, v)
      else (Some (drop n (bv_data v)), \<lparr> bv_data = drop n (bv_data v), bv_size = bv_size v - n \<rparr>))"

definition view_empty :: "buffer_view \<Rightarrow> bool" where
  "view_empty v \<longleftrightarrow> bv_size v = 0"

section \<open>Value\<close>

text \<open>
  \<open>VPtr t p\<close> is a pointer set by \<open>set_ptr\<close> with the type t as the 6-bit field keeps it: 5 for an
  object and 6 for an array read by \<open>deserialize\<close>. An object is a \<open>std::map\<close>: an association list in
  the order of its keys.
\<close>

datatype val =
    VNone
  | VDouble u64
  | VLong i64
  | VString bytes
  | VULong u64
  | VPtr nat pointee
and pointee =
    PObject "(int \<times> val) list"
  | PArray "val list"

type_synonym tuple_object = "(int \<times> val) list"

fun val_dtype :: "val \<Rightarrow> nat" where
  "val_dtype VNone = 0"
| "val_dtype (VDouble _) = 1"
| "val_dtype (VLong _) = 2"
| "val_dtype (VString _) = 3"
| "val_dtype (VULong _) = 4"
| "val_dtype (VPtr t _) = t"

definition is_none :: "val \<Rightarrow> bool" where "is_none v \<longleftrightarrow> val_dtype v = 0"
definition is_double :: "val \<Rightarrow> bool" where "is_double v \<longleftrightarrow> val_dtype v = 1"
definition is_long :: "val \<Rightarrow> bool" where "is_long v \<longleftrightarrow> val_dtype v = 2"
definition is_string :: "val \<Rightarrow> bool" where "is_string v \<longleftrightarrow> val_dtype v = 3"
definition is_ulong :: "val \<Rightarrow> bool" where "is_ulong v \<longleftrightarrow> val_dtype v = 4"

text \<open>Setters; each first clears the old value. A string of 2^24 - 1 bytes or more is refused.\<close>

definition val_clear :: "val \<Rightarrow> val" where "val_clear v = VNone"
definition set_double :: "u64 \<Rightarrow> val" where "set_double w = VDouble w"
definition set_int :: "i32 \<Rightarrow> val" where "set_int w = VLong (scast w)"
definition set_int64 :: "i64 \<Rightarrow> val" where "set_int64 w = VLong w"
definition set_uint64 :: "u64 \<Rightarrow> val" where "set_uint64 w = VULong w"
definition set_uint32 :: "u32 \<Rightarrow> val" where "set_uint32 w = VLong (ucast w)"

definition set_bytes :: "bytes \<Rightarrow> nat \<Rightarrow> val res" where
  "set_bytes v n =
     (if n \<ge> 0xffffff then Inl InvalidArgument
      else rbind (read_block v 0 n) (\<lambda>s. Inr (VString s)))"

definition set_string :: "bytes \<Rightarrow> val res" where
  "set_string v = set_bytes v (length v)"

definition set_ptr :: "pointee \<Rightarrow> u8 \<Rightarrow> val" where
  "set_ptr p t = VPtr (unat (t AND 0x3f)) p"

text \<open>Copying copies the value (the pointer of an object), moving leaves an empty one.\<close>

definition val_copy :: "val \<Rightarrow> val" where "val_copy v = v"
definition val_move :: "val \<Rightarrow> val \<times> val" where "val_move v = (v, VNone)"

fun val_size :: "val \<Rightarrow> nat" where
  "val_size (VString s) = length s"
| "val_size VNone = 0"
| "val_size _ = 8"

text \<open>
  The characters \<open>c_str()\<close> points to. Of a value that holds a pointer they are the address, of which
  the model knows nothing: reading them is a fault of the model.
\<close>

fun val_c_str :: "bool \<Rightarrow> val \<Rightarrow> bytes res" where
  "val_c_str big VNone = Inr (replicate 8 0)"
| "val_c_str big (VDouble w) = Inr (host_bytes big 8 w)"
| "val_c_str big (VLong w) = Inr (host_bytes big 8 w)"
| "val_c_str big (VString s) = Inr (s @ [0])"
| "val_c_str big (VULong w) = Inr (host_bytes big 8 w)"
| "val_c_str big (VPtr t p) = Inl MemFault"

text \<open>The bytes of a \<open>Slice\<close> of \<open>c_str()\<close> and \<open>size()\<close>.\<close>

definition value_slice :: "bool \<Rightarrow> val \<Rightarrow> bytes res" where
  "value_slice big v = rbind (val_c_str big v) (\<lambda>m. read_block m 0 (val_size v))"

fun as_object :: "val \<Rightarrow> pointee res" where
  "as_object (VPtr t p) = (if t > 4 then Inr p else Inl InvalidArgument)"
| "as_object _ = Inl InvalidArgument"

text \<open>The comparisons with the constants 0.0, 1.0 and -1.0 on bit patterns.\<close>

definition f64_is_zero :: "u64 \<Rightarrow> bool" where "f64_is_zero w \<longleftrightarrow> w = 0 \<or> w = 0x8000000000000000"
definition f64_one :: u64 where "f64_one = 0x3ff0000000000000"
definition f64_neg_one :: u64 where "f64_neg_one = 0xbff0000000000000"
definition f64_quiet_nan :: u64 where "f64_quiet_nan = 0x7ff8000000000000"

fun wrie_type :: "val \<Rightarrow> u8" where
  "wrie_type VNone = TLV_LTYPE_NULL"
| "wrie_type (VDouble w) =
     (if f64_is_zero w then TLV_LTYPE_FALSE
      else if w = f64_one then TLV_LTYPE_TRUE
      else if f64_nan w then TLV_LTYPE_NAN
      else if w = f64_neg_one then TLV_LTYPE_ONE_NEG
      else TLV_LTYPE_FLOAT64)"
| "wrie_type (VLong i) =
     (if i = 0 then TLV_LTYPE_FALSE
      else if i = 1 then TLV_LTYPE_TRUE
      else if i = -1 then TLV_LTYPE_ONE_NEG
      else if sint i > 0 then TLV_LTYPE_VARINT_POS
      else TLV_LTYPE_VARINT_NEG)"
| "wrie_type (VString _) = TLV_LTYPE_BYTES"
| "wrie_type (VULong u) =
     (if u = 0 then TLV_LTYPE_FALSE
      else if u = 1 then TLV_LTYPE_TRUE
      else TLV_LTYPE_VARINT_POS)"
| "wrie_type (VPtr t _) =
     (if t = 5 then TLV_LTYPE_OBJECT
      else if t = 6 then TLV_LTYPE_ARRAY0
      else TLV_LTYPE_ERROR)"

section \<open>Conversions\<close>

text \<open>
  \<open>static_cast\<close> of a double to an integer: the number without its fraction. \<^const>\<open>None\<close> is a NaN or an infinity;
  the cast of a number outside the target type is undefined.
\<close>

definition f64_trunc :: "u64 \<Rightarrow> int option" where
  "f64_trunc w =
     (let e = nat (uint (drop_bit 52 w AND 0x7ff));
          f = uint (w AND 0xfffffffffffff);
          m = (if e = 0 then f else f + 2 ^ 52);
          a = (if e \<ge> 1075 then m * 2 ^ (e - 1075) else m div 2 ^ (1075 - max e 1))
      in if e = 0x7ff then None else Some (if bit w 63 then - a else a))"

definition cast_range :: "int \<Rightarrow> int \<Rightarrow> int option \<Rightarrow> int res" where
  "cast_range lo hi x =
     (case x of None \<Rightarrow> Inl SignedOverflow
      | Some n \<Rightarrow> if lo \<le> n \<and> n \<le> hi then Inr n else Inl SignedOverflow)"

text \<open>An integer as the nearest double, ties to the even one.\<close>

fun bit_count :: "nat \<Rightarrow> nat" where
  "bit_count n = (if n = 0 then 0 else Suc (bit_count (n div 2)))"

declare bit_count.simps [simp del]

definition f64_of_int :: "int \<Rightarrow> u64" where
  "f64_of_int i =
     (if i = 0 then 0
      else
        let a = nat \<bar>i\<bar>; k = bit_count a;
            m = (if k \<le> 53 then a * 2 ^ (53 - k)
                 else let q = a div 2 ^ (k - 53); r = a mod 2 ^ (k - 53); h = 2 ^ (k - 54)
                      in if r > h \<or> r = h \<and> odd q then q + 1 else q);
            e = k + 1022
        in word_of_nat (m + (e - 1) * 2 ^ 52) OR (if i < 0 then 0x8000000000000000 else 0))"

text \<open>
  Decimal numbers: \<open>strtol\<close> and \<open>strtoul\<close> skip spaces, take a sign and digits, and saturate; \<open>atoi\<close> is
  the \<open>strtol\<close> of the string as \<open>int\<close>.
\<close>

definition is_space :: "u8 \<Rightarrow> bool" where
  "is_space b \<longleftrightarrow> b = 0x20 \<or> 0x09 \<le> b \<and> b \<le> 0x0d"

definition is_digit :: "u8 \<Rightarrow> bool" where
  "is_digit b \<longleftrightarrow> 0x30 \<le> b \<and> b \<le> 0x39"

definition digits_value :: "bytes \<Rightarrow> int" where
  "digits_value ds = foldl (\<lambda>a d. a * 10 + (uint d - 0x30)) 0 ds"

definition parse_decimal :: "bytes \<Rightarrow> bool \<times> int" where
  "parse_decimal s =
     (let t = dropWhile is_space s;
          neg = (t \<noteq> [] \<and> hd t = 0x2d);
          u = (if t \<noteq> [] \<and> (hd t = 0x2d \<or> hd t = 0x2b) then tl t else t)
      in (neg, digits_value (takeWhile is_digit u)))"

definition c_strtol :: "bytes \<Rightarrow> int" where
  "c_strtol s =
     (case parse_decimal s of (neg, n) \<Rightarrow>
        if neg then max (- n) (- (2 ^ 63)) else min n (2 ^ 63 - 1))"

definition c_strtoul :: "bytes \<Rightarrow> u64" where
  "c_strtoul s =
     (case parse_decimal s of (neg, n) \<Rightarrow>
        if n > 2 ^ 64 - 1 then -1 else if neg then - word_of_int n else word_of_int n)"

text \<open>\<open>std::string(c_str())\<close> ends at the first zero byte; \<open>strto\<close> of an empty string is 0.\<close>

definition c_string :: "bytes \<Rightarrow> bytes" where
  "c_string s = takeWhile (\<lambda>b. b \<noteq> 0) s"

fun to_i32 :: "val \<Rightarrow> i32 res" where
  "to_i32 (VDouble w) =
     rbind (cast_range (- (2 ^ 31)) (2 ^ 31 - 1) (f64_trunc w)) (\<lambda>n. Inr (word_of_int n))"
| "to_i32 (VLong i) = Inr (ucast i)"
| "to_i32 (VString s) = Inr (word_of_int (c_strtol (c_string s)))"
| "to_i32 (VULong u) = Inr (ucast u)"
| "to_i32 _ = Inr 0"

fun to_u32 :: "val \<Rightarrow> u32 res" where
  "to_u32 (VDouble w) = rbind (cast_range 0 (2 ^ 32 - 1) (f64_trunc w)) (\<lambda>n. Inr (word_of_int n))"
| "to_u32 (VLong i) = Inr (ucast i)"
| "to_u32 (VString s) = Inr (ucast (c_strtoul (c_string s)))"
| "to_u32 (VULong u) = Inr (ucast u)"
| "to_u32 _ = Inr 0"

fun to_long :: "val \<Rightarrow> i64 res" where
  "to_long (VDouble w) =
     rbind (cast_range (- (2 ^ 63)) (2 ^ 63 - 1) (f64_trunc w)) (\<lambda>n. Inr (word_of_int n))"
| "to_long (VLong i) = Inr i"
| "to_long (VString s) = Inr (word_of_int (c_strtol (c_string s)))"
| "to_long (VULong u) = Inr u"
| "to_long _ = Inr 0"

fun to_ulong :: "val \<Rightarrow> u64 res" where
  "to_ulong (VDouble w) = rbind (cast_range 0 (2 ^ 64 - 1) (f64_trunc w)) (\<lambda>n. Inr (word_of_int n))"
| "to_ulong (VLong i) = Inr i"
| "to_ulong (VString s) = Inr (c_strtoul (c_string s))"
| "to_ulong (VULong u) = Inr u"
| "to_ulong _ = Inr 0"

text \<open>The case of \<open>ULONG\<close> is missing here, so an unsigned value is 0.0 (and its string is empty).\<close>

fun to_double :: "(bytes \<Rightarrow> u64) \<Rightarrow> val \<Rightarrow> u64" where
  "to_double atof (VDouble w) = w"
| "to_double atof (VLong i) = f64_of_int (sint i)"
| "to_double atof (VString s) = (if c_string s = [] then 0 else atof (c_string s))"
| "to_double atof _ = 0"

fun decimal_digits :: "nat \<Rightarrow> bytes" where
  "decimal_digits n =
     (if n < 10 then [0x30 + word_of_nat n]
      else decimal_digits (n div 10) @ [0x30 + word_of_nat (n mod 10)])"

declare decimal_digits.simps [simp del]

definition decimal_text :: "int \<Rightarrow> bytes" where
  "decimal_text i = (if i < 0 then 0x2d # decimal_digits (nat (- i)) else decimal_digits (nat i))"

fun val_to_string :: "(u64 \<Rightarrow> bytes) \<Rightarrow> val \<Rightarrow> bytes" where
  "val_to_string fmt (VDouble w) = fmt w"
| "val_to_string fmt (VLong i) = decimal_text (sint i)"
| "val_to_string fmt (VString s) = c_string s"
| "val_to_string fmt _ = []"

section \<open>Comparison\<close>

text \<open>
  Values of one type are compared, those of different types are an exception (or unequal). Two values that are not
  numbers are compared as C strings. The equality of doubles scales their difference by 10^12 and casts it to an
  integer: \<open>near\<close> stands for that floating point expression.
\<close>

definition val_strcmp :: "bool \<Rightarrow> val \<Rightarrow> val \<Rightarrow> int res" where
  "val_strcmp big a b = rbind (val_c_str big a) (\<lambda>x. rbind (val_c_str big b) (strcmp x))"

definition val_less :: "bool \<Rightarrow> val \<Rightarrow> val \<Rightarrow> bool res" where
  "val_less big l r =
     (case (l, r) of
        (VDouble x, VDouble y) \<Rightarrow> Inr (f64_less x y)
      | (VLong x, VLong y) \<Rightarrow> Inr (sint x < sint y)
      | (VULong x, VULong y) \<Rightarrow> Inr (x < y)
      | _ \<Rightarrow> if val_dtype l = val_dtype r then rbind (val_strcmp big l r) (\<lambda>c. Inr (c < 0))
            else Inl LogicError)"

definition val_greater :: "bool \<Rightarrow> val \<Rightarrow> val \<Rightarrow> bool res" where
  "val_greater big l r =
     (case (l, r) of
        (VDouble x, VDouble y) \<Rightarrow> Inr (f64_less y x)
      | (VLong x, VLong y) \<Rightarrow> Inr (sint x > sint y)
      | (VULong x, VULong y) \<Rightarrow> Inr (x > y)
      | _ \<Rightarrow> if val_dtype l = val_dtype r then rbind (val_strcmp big l r) (\<lambda>c. Inr (c > 0))
            else Inl LogicError)"

definition val_equal :: "(u64 \<Rightarrow> u64 \<Rightarrow> bool res) \<Rightarrow> bool \<Rightarrow> val \<Rightarrow> val \<Rightarrow> bool res" where
  "val_equal near big l r =
     (case (l, r) of
        (VDouble x, VDouble y) \<Rightarrow> near x y
      | (VLong x, VLong y) \<Rightarrow> Inr (x = y)
      | (VULong x, VULong y) \<Rightarrow> Inr (x = y)
      | _ \<Rightarrow> if val_dtype l = val_dtype r then rbind (val_strcmp big l r) (\<lambda>c. Inr (c = 0))
            else Inr False)"

definition val_not_equal :: "(u64 \<Rightarrow> u64 \<Rightarrow> bool res) \<Rightarrow> bool \<Rightarrow> val \<Rightarrow> val \<Rightarrow> bool res" where
  "val_not_equal near big l r =
     (case (l, r) of
        (VDouble x, VDouble y) \<Rightarrow> rbind (near x y) (\<lambda>b. Inr (\<not> b))
      | (VLong x, VLong y) \<Rightarrow> Inr (x \<noteq> y)
      | (VULong x, VULong y) \<Rightarrow> Inr (x \<noteq> y)
      | _ \<Rightarrow> if val_dtype l = val_dtype r then rbind (val_strcmp big l r) (\<lambda>c. Inr (c \<noteq> 0))
            else Inr True)"

section \<open>Decimal text\<close>

lemma set_string_ok: "length v < 0xffffff \<Longrightarrow> set_string v = Inr (VString v)"
  by (simp add: set_string_def set_bytes_def read_block_def)

lemma digit_word:
  assumes "k < 10"
  shows "uint (0x30 + word_of_nat k :: u8) = 48 + int k"
proof -
  have "uint (word_of_nat k :: u8) = int k"
    using assms by (simp add: unsigned_of_nat take_bit_nat_eq_self_iff)
  then show ?thesis
    using assms by (simp add: uint_word_ariths)
qed

lemma digit_props:
  assumes "k < 10"
  shows "is_digit (0x30 + word_of_nat k)" "(0x30 + word_of_nat k :: u8) \<noteq> 0"
    "\<not> is_space (0x30 + word_of_nat k)" "(0x30 + word_of_nat k :: u8) \<noteq> 0x2d"
    "(0x30 + word_of_nat k :: u8) \<noteq> 0x2b"
proof -
  have "k = 0 \<or> k = 1 \<or> k = 2 \<or> k = 3 \<or> k = 4 \<or> k = 5 \<or> k = 6 \<or> k = 7 \<or> k = 8 \<or> k = 9"
    using assms by auto
  then show "is_digit (0x30 + word_of_nat k)" "(0x30 + word_of_nat k :: u8) \<noteq> 0"
    "\<not> is_space (0x30 + word_of_nat k)" "(0x30 + word_of_nat k :: u8) \<noteq> 0x2d"
    "(0x30 + word_of_nat k :: u8) \<noteq> 0x2b"
    by (elim disjE; simp add: is_digit_def is_space_def)+
qed

lemma digits_append: "digits_value (ds @ [d]) = digits_value ds * 10 + (uint d - 48)"
  by (simp add: digits_value_def)

lemma decimal_digits_props:
  "digits_value (decimal_digits n) = int n" "decimal_digits n \<noteq> []"
  "\<forall>d \<in> set (decimal_digits n). \<exists>k < 10. d = 0x30 + word_of_nat k"
proof (induction n rule: decimal_digits.induct)
  case (1 n)
  {
    case 1
    show ?case
    proof (cases "n < 10")
      case True
      then show ?thesis
        by (simp add: decimal_digits.simps [of n] digits_value_def digit_word)
    next
      case False
      have "int (n div 10) * 10 + int (n mod 10) = int n"
        by (metis div_mult_mod_eq of_nat_add of_nat_mult of_nat_numeral)
      with False show ?thesis
        using "1.IH"(1) by (subst decimal_digits.simps) (simp add: digits_append digit_word)
    qed
  next
    case 2
    show ?case
      by (subst decimal_digits.simps) simp
  next
    case 3
    show ?case
      using "1.IH"(3) by (subst decimal_digits.simps) (auto intro: exI [of _ "n mod 10"])
  }
qed

lemma decimal_digits_all:
  "takeWhile is_digit (decimal_digits n) = decimal_digits n"
  "takeWhile (\<lambda>b. b \<noteq> 0) (decimal_digits n) = decimal_digits n"
  "\<not> is_space (hd (decimal_digits n))" "hd (decimal_digits n) \<noteq> 0x2d" "hd (decimal_digits n) \<noteq> 0x2b"
proof -
  have d: "\<exists>k < 10. d = 0x30 + word_of_nat k" if "d \<in> set (decimal_digits n)" for d
    using decimal_digits_props(3) that by blast
  have "\<forall>b \<in> set (decimal_digits n). is_digit b \<and> b \<noteq> 0"
    using d digit_props by metis
  then show "takeWhile is_digit (decimal_digits n) = decimal_digits n"
    "takeWhile (\<lambda>b. b \<noteq> 0) (decimal_digits n) = decimal_digits n"
    by (simp_all add: takeWhile_eq_all_conv)
  have "hd (decimal_digits n) \<in> set (decimal_digits n)"
    using decimal_digits_props(2) by simp
  then show "\<not> is_space (hd (decimal_digits n))" "hd (decimal_digits n) \<noteq> 0x2d"
    "hd (decimal_digits n) \<noteq> 0x2b"
    using d digit_props by metis+
qed

lemma parse_digits: "parse_decimal (decimal_digits n) = (False, int n)"
proof -
  obtain d ds where dd: "decimal_digits n = d # ds"
    using decimal_digits_props(2) by (cases "decimal_digits n") auto
  show ?thesis
    using decimal_digits_all [of n] decimal_digits_props(1) [of n]
    by (simp add: parse_decimal_def dd)
qed

lemma parse_minus: "parse_decimal (0x2d # decimal_digits n) = (True, int n)"
  using decimal_digits_props(1) [of n]
  by (simp add: parse_decimal_def is_space_def decimal_digits_all(1) del: takeWhile_eq_all_conv)

section \<open>Properties\<close>

text \<open>
  An integer survives the way through text: \<open>to_long\<close> of a string that holds \<open>to_string\<close> of a
  64-bit integer is that integer, the least one included.
\<close>

theorem long_text_roundtrip: "to_long (VString (val_to_string fmt (VLong i))) = Inr i"
proof -
  let ?t = "decimal_text (sint i)"
  have zero: "c_string ?t = ?t"
    using decimal_digits_all(2) by (simp add: c_string_def decimal_text_def)
  have "c_strtol ?t = sint i"
  proof (cases "sint i < 0")
    case True
    then show ?thesis
      using sint_ge [of i] by (simp add: c_strtol_def decimal_text_def parse_minus max_def)
  next
    case False
    then show ?thesis
      using sint_lt [of i] by (simp add: c_strtol_def decimal_text_def parse_digits min_def)
  qed
  with zero show ?thesis
    by simp
qed

text \<open>
  Strings are compared as C strings: equality holds exactly when they agree before their first
  zero byte, so binary strings that differ behind one are equal.
\<close>

theorem string_equal_prefix:
  "val_equal near big (VString a) (VString b) = Inr (c_string a = c_string b) \<and>
   val_not_equal near big (VString a) (VString b) = Inr (c_string a \<noteq> c_string b)"
proof -
  have n: "nul_pos (s @ [0]) < length (s @ [0])" "take (nul_pos (s @ [0])) (s @ [0]) = c_string s" for s
  proof -
    have "takeWhile (\<lambda>b. b \<noteq> 0) (s @ [0]) = takeWhile (\<lambda>b. b \<noteq> 0) s"
      by (induction s) auto
    then show "take (nul_pos (s @ [0])) (s @ [0]) = c_string s"
      using takeWhile_eq_take [of "\<lambda>b. b \<noteq> 0" "s @ [0]"] by (simp add: nul_pos_def c_string_def)
    show "nul_pos (s @ [0]) < length (s @ [0])"
      using nul_pos_append_zero [of s "[]"] by simp
  qed
  obtain c where "strcmp (a @ [0]) (b @ [0]) = Inr c" "c = 0 \<longleftrightarrow> c_string a = c_string b"
    using strcmp_total [OF n(1) [of a] n(1) [of b]] n(2) by metis
  then show ?thesis
    by (simp add: val_equal_def val_not_equal_def val_strcmp_def)
qed

end
