(* ===== verification/Tuple_Record.thy ===== *)
theory Tuple_Record
  imports Tuple_Value
begin

text \<open>
  The tagged wire format of \<open>db/tuple_value.cpp\<close> (\<open>Value::serialize\<close>, \<open>Value::deserialize\<close>) and of
  \<open>db/tuple_record.h\<close>, \<open>db/tuple_record.cpp\<close>: arrays, objects, and the buffers and views of single
  values.

  The writers append to a byte vector; their result is the return code and the vector. The readers
  move a \<open>BufferView\<close>; \<open>Value::deserialize\<close> returns 0 on every path, so its result is the view, the
  tag and the value, and the branches of its callers for another code are not reached. Readers take
  fuel, because a reader on a view that is smaller than its memory can loop without moving.
\<close>

section \<open>Writing\<close>

text \<open>The head of a value: one byte for tags below 8, two up to 2047. \<open>None\<close> is the return code -1.\<close>

definition value_head :: "u16 \<Rightarrow> u8 \<Rightarrow> bytes option" where
  "value_head tag wtype =
     (if tag < 0x08 then Some [push_bit 4 (ucast tag) OR wtype]
      else if tag < 0x800 then
        Some [ucast ((tag AND 0x007f) OR 0x80), ucast (drop_bit 8 tag AND 0x00ff) OR wtype]
      else None)"

definition object_head :: "u16 \<Rightarrow> bytes option" where
  "object_head tag =
     (if tag < 0x08 then Some [push_bit 4 (ucast tag) OR TLV_LTYPE_OBJECT]
      else if tag < 0x800 then
        Some [ucast ((tag AND 0x007f) OR 0x80),
              ucast (push_bit 4 (drop_bit 7 tag AND 0x000f)) OR TLV_LTYPE_OBJECT]
      else None)"

text \<open>
  \<open>out.resize(out.size() + len)\<close> followed by \<open>varint_encode\<close> with limit 9 at the first new byte,
  when \<open>n\<close> more bytes were made room for behind it.
\<close>

definition put_varint :: "bytes \<Rightarrow> i64 \<Rightarrow> nat \<Rightarrow> bytes res" where
  "put_varint out v n =
     rbind (varint_len_i v) (\<lambda>len.
       rbind (varint_encode (replicate (len + n) 0) 9 v) (\<lambda>(_, b). Inr (out @ b)))"

text \<open>
  What \<open>Value::serialize\<close> writes behind the head for the values that are not pointers. Its branch for
  \<open>TLV_LTYPE_FLOAT32\<close> is left out: \<open>wrie_type\<close> never gives that type.
\<close>

definition put_scalar :: "bool \<Rightarrow> val \<Rightarrow> bytes \<Rightarrow> bytes res" where
  "put_scalar big v out =
     (let t = wrie_type v in
      if t = TLV_LTYPE_VARINT_POS then rbind (to_long v) (\<lambda>i. put_varint out i 0)
      else if t = TLV_LTYPE_VARINT_NEG then
        rbind (to_long v) (\<lambda>i.
          rbind (if sint i < 0 then neg_i64 i else Inr i) (\<lambda>a. put_varint out a 0))
      else if t = TLV_LTYPE_FLOAT64 then
        (case v of VDouble w \<Rightarrow> Inr (out @ host_bytes big 8 (to_little_endian_u64 big w))
         | _ \<Rightarrow> Inl MemFault)
      else if t = TLV_LTYPE_BYTES then
        (case v of VString s \<Rightarrow>
           rbind (put_varint out (word_of_nat (length s)) (length s)) (\<lambda>out1.
             write_block out1 (length out1 - length s) s)
         | _ \<Rightarrow> Inl MemFault)
      else Inr out)"

text \<open>
  \<open>Value::serialize\<close>, \<open>Array::serialize\<close> and the loop of \<open>TupleObject::serialize\<close> call each other. An
  array writes the elements of type 0 to 3; the cases 100 and 101 for objects and arrays cannot be
  reached, because the type field has 6 bits.
\<close>

fun array_items :: "bool \<Rightarrow> val list \<Rightarrow> bytes \<Rightarrow> bytes res" where
  "array_items big [] out = Inr out"
| "array_items big (v # vs) out =
     (if val_dtype v \<le> 3 then
        (case value_head 0 (wrie_type v) of
           None \<Rightarrow> array_items big vs out
         | Some h \<Rightarrow> rbind (put_scalar big v (out @ h)) (array_items big vs))
      else array_items big vs out)"

definition array_serialize :: "bool \<Rightarrow> val list \<Rightarrow> u16 \<Rightarrow> bytes \<Rightarrow> (int \<times> bytes) res" where
  "array_serialize big vs tag out =
     (if vs = [] then Inr (0, out)
      else case value_head tag TLV_LTYPE_ARRAY0 of
        None \<Rightarrow> Inr (-1, out)
      | Some h \<Rightarrow> rbind (put_varint (out @ h) (word_of_nat (length vs)) 0) (\<lambda>out1.
          rbind (array_items big vs out1) (\<lambda>out2. Inr (0, out2))))"

fun object_serialize :: "bool \<Rightarrow> pointee \<Rightarrow> u16 \<Rightarrow> bytes \<Rightarrow> (int \<times> bytes) res"
  and object_items :: "bool \<Rightarrow> (int \<times> val) list \<Rightarrow> bytes \<Rightarrow> (int \<times> bytes) res"
where
  "object_serialize big (PArray vs) tag out = Inl MemFault"
| "object_serialize big (PObject kvs) tag out =
     (if kvs = [] then Inr (0, out)
      else case object_head tag of
        None \<Rightarrow> Inr (-1, out)
      | Some h \<Rightarrow> rbind (object_items big kvs (out @ h)) (\<lambda>(rc, out1).
          if rc \<noteq> 0 then Inr (rc, out1) else Inr (0, out1 @ [0])))"
| "object_items big [] out = Inr (0, out)"
| "object_items big ((k, v) # kvs) out =
     rbind
       (case v of
          VPtr t p \<Rightarrow>
            (if t = 5 then object_serialize big p (word_of_int k) out
             else if t = 6 then
               (case p of PArray vs \<Rightarrow> array_serialize big vs (word_of_int k) out
                | PObject _ \<Rightarrow> Inl MemFault)
             else Inr (0, out))
        | VULong _ \<Rightarrow> Inr (0, out)
        | _ \<Rightarrow>
            (case value_head (word_of_int k) (wrie_type v) of
               None \<Rightarrow> Inr (-1, out)
             | Some h \<Rightarrow> rbind (put_scalar big v (out @ h)) (\<lambda>out1. Inr (0, out1))))
       (\<lambda>(rc, out1). if rc \<noteq> 0 then Inr (rc, out1) else object_items big kvs out1)"

definition value_serialize :: "bool \<Rightarrow> val \<Rightarrow> u16 \<Rightarrow> bytes \<Rightarrow> (int \<times> bytes) res" where
  "value_serialize big v tag out =
     (case value_head tag (wrie_type v) of
        None \<Rightarrow> Inr (-1, out)
      | Some h \<Rightarrow>
        (case v of
           VPtr t p \<Rightarrow>
             (if t = 6 then
                (case p of PArray vs \<Rightarrow> array_serialize big vs 0 (out @ h) | PObject _ \<Rightarrow> Inl MemFault)
              else if t = 5 then object_serialize big p 0 (out @ h)
              else Inr (0, out @ h))
         | _ \<Rightarrow> rbind (put_scalar big v (out @ h)) (\<lambda>out1. Inr (0, out1))))"

definition tuple_serialize :: "bool \<Rightarrow> tuple_object \<Rightarrow> u16 \<Rightarrow> bytes \<Rightarrow> (int \<times> bytes) res" where
  "tuple_serialize big kvs tag out = object_serialize big (PObject kvs) tag out"

text \<open>\<open>TupleBuffer\<close>: every value gets the head of an object and then its own.\<close>

definition buffer_serialize :: "bool \<Rightarrow> u16 \<Rightarrow> val \<Rightarrow> bytes \<Rightarrow> (int \<times> bytes) res" where
  "buffer_serialize big tag v out =
     (case object_head tag of
        None \<Rightarrow> Inr (-1, out)
      | Some h \<Rightarrow>
        (case v of
           VPtr t p \<Rightarrow>
             (if t = 5 then object_serialize big p tag (out @ h)
              else if t = 6 then
                (case p of PArray vs \<Rightarrow> array_serialize big vs tag (out @ h)
                 | PObject _ \<Rightarrow> Inl MemFault)
              else Inr (0, out @ h))
         | VULong _ \<Rightarrow> Inr (0, out @ h)
         | _ \<Rightarrow> value_serialize big v tag (out @ h)))"

definition buffer_append :: "bool \<Rightarrow> bytes \<Rightarrow> int \<Rightarrow> val \<Rightarrow> (int \<times> bytes) res" where
  "buffer_append big buf tag v = buffer_serialize big (word_of_int tag) v buf"

section \<open>Reading\<close>

text \<open>\<open>std::map\<close>: \<open>emplace\<close> keeps an element that is there, \<open>operator[]\<close> assigns.\<close>

fun map_emplace :: "'k :: linorder \<Rightarrow> 'v \<Rightarrow> ('k \<times> 'v) list \<Rightarrow> ('k \<times> 'v) list" where
  "map_emplace k v [] = [(k, v)]"
| "map_emplace k v ((l, w) # m) =
     (if k < l then (k, v) # (l, w) # m
      else if k = l then (l, w) # m
      else (l, w) # map_emplace k v m)"

fun map_assign :: "'k :: linorder \<Rightarrow> 'v \<Rightarrow> ('k \<times> 'v) list \<Rightarrow> ('k \<times> 'v) list" where
  "map_assign k v [] = [(k, v)]"
| "map_assign k v ((l, w) # m) =
     (if k < l then (k, v) # (l, w) # m
      else if k = l then (k, v) # m
      else (l, w) # map_assign k v m)"

text \<open>The head: tag, line type and the number of its bytes.\<close>

definition read_head :: "bytes \<Rightarrow> (u16 \<times> u8 \<times> nat) res" where
  "read_head data =
     rbind (peek_at data 0) (\<lambda>d0.
       if d0 AND 0x80 \<noteq> 0 then
         rbind (peek_at data 1) (\<lambda>d1.
           Inr (ucast (d0 AND 0x7f) OR ucast (drop_bit 4 d1 AND 0x0f), d1 AND 0x0f, 2))
       else Inr (ucast (drop_bit 4 (d0 AND 0x70)), d0 AND 0x0f, 1))"

text \<open>
  \<open>varint_decode(&v, data, in->size() < 9 ? in->size() : 9)\<close>, then \<open>in->peek(len)\<close>. \<open>data\<close> is
  \<open>nullptr\<close> when the \<open>peek\<close> before failed.
\<close>

definition take_varint :: "bytes option \<Rightarrow> buffer_view \<Rightarrow> (i64 \<times> buffer_view) res" where
  "take_varint data v =
     rbind
       (case data of
          Some d \<Rightarrow> varint_decode d (min (bv_size v) 9)
        | None \<Rightarrow> if bv_size v = 0 then Inr (0, 0) else Inl MemFault)
       (\<lambda>(len, i). Inr (i, snd (view_peek v len)))"

text \<open>A \<open>float\<close> as the \<open>double\<close> of the same value.\<close>

definition f64_of_f32 :: "u32 \<Rightarrow> u64" where
  "f64_of_f32 w =
     (let e = nat (uint (drop_bit 23 w AND 0xff)); f = nat (uint (w AND 0x7fffff));
          s = (if bit w 31 then 0x8000000000000000 else 0) in
      if e = 0xff then s OR 0x7ff0000000000000 OR word_of_nat (f * 2 ^ 29)
             OR (if f = 0 then 0 else 0x8000000000000)
      else if e = 0 then
        (if f = 0 then s
         else let k = bit_count f in
              s OR word_of_nat ((k + 873) * 2 ^ 52 + f * 2 ^ (53 - k) - 2 ^ 52))
      else s OR word_of_nat ((e + 896) * 2 ^ 52 + f * 2 ^ 29))"

text \<open>The scalar cases of \<open>Value::deserialize\<close>; \<open>cur\<close> is the value before.\<close>

definition read_scalar :: "bool \<Rightarrow> u8 \<Rightarrow> val \<Rightarrow> bytes option \<Rightarrow> buffer_view \<Rightarrow> (buffer_view \<times> val) res" where
  "read_scalar big wtype cur data v =
     (if wtype = TLV_LTYPE_TRUE then Inr (v, set_int 1)
      else if wtype = TLV_LTYPE_FALSE then Inr (v, set_int 0)
      else if wtype = TLV_LTYPE_NAN then Inr (v, set_double f64_quiet_nan)
      else if wtype = TLV_LTYPE_ONE_NEG then Inr (v, set_int (-1))
      else if wtype = TLV_LTYPE_VARINT_POS then
        rbind (take_varint data v) (\<lambda>(i, v1). Inr (v1, set_int64 i))
      else if wtype = TLV_LTYPE_VARINT_NEG then
        rbind (take_varint data v) (\<lambda>(i, v1). rbind (neg_i64 i) (\<lambda>n. Inr (v1, set_int64 n)))
      else if wtype = TLV_LTYPE_FLOAT32 then
        rbind (read_block (bv_data v) 0 4) (\<lambda>b.
          Inr (snd (view_peek v 4), set_double (f64_of_f32 (to_little_endian_u32 big (host_word big b)))))
      else if wtype = TLV_LTYPE_FLOAT64 then
        rbind (read_block (bv_data v) 0 8) (\<lambda>b.
          Inr (snd (view_peek v 8), set_double (to_little_endian_u64 big (host_word big b))))
      else if wtype = TLV_LTYPE_BYTES then
        rbind (take_varint data v) (\<lambda>(sz, v1).
          rbind (set_bytes (bv_data v1) (unat sz)) (\<lambda>s. Inr (snd (view_peek v1 (unat sz)), s)))
      else Inr (v, cur))"

text \<open>
  The readers of arrays and objects call \<open>Value::deserialize\<close>, which is their argument \<open>rd\<close> here.
  Elements of an array are read one by one, as many as its head says; those of an object until the
  view is empty or a zero byte follows a value.
\<close>

type_synonym value_reader = "val \<Rightarrow> buffer_view \<Rightarrow> (buffer_view \<times> u16 \<times> val) res"

fun array_loop :: "value_reader \<Rightarrow> nat \<Rightarrow> buffer_view \<Rightarrow> val list \<Rightarrow> (buffer_view \<times> val list) res" where
  "array_loop rd 0 v xs = Inr (v, xs)"
| "array_loop rd (Suc k) v xs =
     rbind (rd VNone v) (\<lambda>(v1, _, x). array_loop rd k v1 (xs @ [x]))"

definition array_deserialize :: "value_reader \<Rightarrow> buffer_view \<Rightarrow> (buffer_view \<times> val list) res" where
  "array_deserialize rd v =
     (if bv_size v = 0 then Inr (v, [])
      else rbind (read_head (bv_data v)) (\<lambda>(_, _, pos).
        let v1 = snd (view_peek v pos) in
        rbind (varint_decode (bv_data v1) 9) (\<lambda>(len, sz).
          array_loop rd (nat (sint sz)) (snd (view_peek v1 len)) [])))"

fun object_loop :: "value_reader \<Rightarrow> nat \<Rightarrow> buffer_view \<Rightarrow> tuple_object \<Rightarrow> (buffer_view \<times> tuple_object) res" where
  "object_loop rd 0 v m = Inl OutOfFuel"
| "object_loop rd (Suc n) v m =
     (if bv_size v = 0 then Inr (v, m)
      else rbind (rd VNone v) (\<lambda>(v1, tag, x).
        let m1 = map_emplace (int (unat tag)) x m in
        rbind (peek_at (bv_data v1) 0) (\<lambda>b.
          if b = 0 then Inr (snd (view_peek v1 1), m1)
          else object_loop rd n v1 m1)))"

definition object_deserialize ::
  "value_reader \<Rightarrow> nat \<Rightarrow> buffer_view \<Rightarrow> tuple_object \<Rightarrow> (buffer_view \<times> u16 \<times> tuple_object) res" where
  "object_deserialize rd n v m =
     (if bv_size v = 0 then Inr (v, 0, m)
      else rbind (read_head (bv_data v)) (\<lambda>(tag, _, pos).
        rbind (object_loop rd n (snd (view_peek v pos)) m) (\<lambda>(v1, m1). Inr (v1, tag, m1))))"

text \<open>
  \<open>Value::deserialize\<close>. The case of an array has no \<open>break\<close>: what was read is dropped and an object
  is read from the bytes behind it. The fuel bounds the nesting and the values of one object.
\<close>

fun value_deserialize :: "bool \<Rightarrow> nat \<Rightarrow> value_reader" where
  "value_deserialize big 0 cur v = Inl OutOfFuel"
| "value_deserialize big (Suc n) cur v =
     rbind (read_head (bv_data v)) (\<lambda>(tag, wtype, pos).
       case view_peek v pos of (data, v1) \<Rightarrow>
         if wtype = TLV_LTYPE_ARRAY0 \<or> wtype = TLV_LTYPE_OBJECT then
           rbind (if wtype = TLV_LTYPE_ARRAY0
                  then rbind (array_deserialize (value_deserialize big n) v1) (\<lambda>(v2, _). Inr v2)
                  else Inr v1) (\<lambda>v2.
             rbind (object_deserialize (value_deserialize big n) n v2 []) (\<lambda>(v3, _, m).
               Inr (v3, tag, VPtr 5 (PObject m))))
         else rbind (read_scalar big wtype cur data v1) (\<lambda>(v2, x). Inr (v2, tag, x)))"

declare value_deserialize.simps [simp del]

text \<open>
  \<open>TupleObject::deserialize\<close> of a byte string, with the fuel shown below to be enough.
\<close>

definition tuple_deserialize :: "bool \<Rightarrow> bytes \<Rightarrow> tuple_object \<Rightarrow> tuple_object res" where
  "tuple_deserialize big bs m =
     (if bs = [] then Inr m
      else rbind (object_deserialize (value_deserialize big (length bs + 1)) (length bs + 1) (view_of bs) m)
        (\<lambda>(_, _, m1). Inr m1))"

text \<open>\<open>TupleView\<close>. \<open>extract\<close> loops while \<open>next\<close> reports that it did not read a value.\<close>

definition view_next :: "bool \<Rightarrow> nat \<Rightarrow> buffer_view \<Rightarrow> (int \<times> buffer_view \<times> u16 option \<times> val) res" where
  "view_next big n v =
     (if bv_size v = 0 then Inr (1, v, None, VNone)
      else rbind (value_deserialize big n VNone v) (\<lambda>(v1, tag, x). Inr (0, v1, Some tag, x)))"

fun view_extract :: "bool \<Rightarrow> nat \<Rightarrow> nat \<Rightarrow> buffer_view \<Rightarrow> int \<Rightarrow> int \<Rightarrow> (int \<times> buffer_view \<times> val) res" where
  "view_extract big fuel 0 v tag stag = Inl OutOfFuel"
| "view_extract big fuel (Suc n) v tag stag =
     rbind (view_next big fuel v) (\<lambda>(rc, v1, st, x).
       let stag1 = (case st of None \<Rightarrow> stag | Some t \<Rightarrow> int (unat t)) in
       if rc = 0 then Inr (-1, v1, x)
       else if stag1 = tag then Inr (0, v1, x)
       else view_extract big fuel n v1 tag stag1)"

definition view_deserialize :: "bool \<Rightarrow> nat \<Rightarrow> val \<Rightarrow> buffer_view \<Rightarrow> (buffer_view \<times> u16 option \<times> val) res" where
  "view_deserialize big n cur v =
     (if bv_size v = 0 then Inr (v, None, VNone)
      else rbind (value_deserialize big n cur v) (\<lambda>(v1, tag, x). Inr (v1, Some tag, x)))"

section \<open>TupleObject\<close>

definition tuple_new :: tuple_object where "tuple_new = []"

definition tuple_insert :: "tuple_object \<Rightarrow> int \<Rightarrow> val \<Rightarrow> tuple_object" where
  "tuple_insert m tag v = map_assign tag v m"

definition tuple_insert_object :: "tuple_object \<Rightarrow> int \<Rightarrow> tuple_object \<Rightarrow> tuple_object" where
  "tuple_insert_object m tag v = map_assign tag (set_ptr (PObject v) 100) m"

definition tuple_insert_array :: "tuple_object \<Rightarrow> int \<Rightarrow> val list \<Rightarrow> tuple_object" where
  "tuple_insert_array m tag v = map_assign tag (set_ptr (PArray v) 101) m"

definition tuple_insert_bytes :: "tuple_object \<Rightarrow> int \<Rightarrow> bytes \<Rightarrow> tuple_object res" where
  "tuple_insert_bytes m tag v =
     rbind (set_bytes v (length v)) (\<lambda>x. Inr (map_assign tag x m))"

definition tuple_get :: "tuple_object \<Rightarrow> int \<Rightarrow> val option" where
  "tuple_get m tag = map_of m tag"

definition tuple_at :: "tuple_object \<Rightarrow> int \<Rightarrow> val res" where
  "tuple_at m tag = (case map_of m tag of None \<Rightarrow> Inl OutOfRange | Some v \<Rightarrow> Inr v)"

definition tuple_has :: "tuple_object \<Rightarrow> int \<Rightarrow> bool" where
  "tuple_has m tag \<longleftrightarrow> map_of m tag \<noteq> None"

definition tuple_size :: "tuple_object \<Rightarrow> nat" where
  "tuple_size m = length m"

section \<open>Heads\<close>

lemma head_lits [bit_lits]:
  "bit (0x07 :: int) n \<longleftrightarrow> n < 3"
  "bit (0x70 :: int) n \<longleftrightarrow> n = 4 \<or> n = 5 \<or> n = 6"
  by (auto simp: bit_numeral_rec bit_1_iff split: nat.splits)

lemma less_bit: "(w :: 'a::len word) < 2 ^ k \<Longrightarrow> bit w n \<Longrightarrow> n < k"
proof -
  assume w: "w < 2 ^ k" and n: "bit w n"
  show ?thesis
  proof (cases "k < LENGTH('a)")
    case True
    have "uint w < uint (2 ^ k :: 'a word)"
      using w by (simp add: word_less_def)
    also have "\<dots> = uint (push_bit k 1 :: 'a word)"
      by (simp add: push_bit_eq_mult)
    also have "\<dots> = take_bit LENGTH('a) (push_bit k 1)"
      by (simp only: unsigned_push_bit_eq unsigned_1)
    also have "\<dots> = push_bit k 1"
      by (rule bit_eqI) (use True in \<open>auto simp: bit_simps\<close>)
    also have "\<dots> = 2 ^ k"
      by (simp add: push_bit_eq_mult)
    finally have "take_bit k (uint w) = uint w"
      by (simp add: take_bit_int_eq_self_iff)
    moreover have "bit (uint w) n"
      using n by (simp add: bit_uint_iff bit_imp_le_length)
    ultimately show ?thesis
      by (metis bit_take_bit_iff)
  next
    case False
    then show ?thesis
      using n by (auto dest: bit_imp_le_length)
  qed
qed

lemma bit_small_u16:
  "(t :: u16) < 0x08 \<Longrightarrow> bit t n \<Longrightarrow> n < 3" "(t :: u16) < 0x80 \<Longrightarrow> bit t n \<Longrightarrow> n < 7"
  "(t :: u16) < 0x800 \<Longrightarrow> bit t n \<Longrightarrow> n < 11"
  using less_bit [of t 3 n] less_bit [of t 7 n] less_bit [of t 11 n] by simp_all

lemma bit_small_u8: "(w :: u8) < 0x10 \<Longrightarrow> bit w n \<Longrightarrow> n < 4"
  using less_bit [of w 4 n] by simp

text \<open>What \<open>read_head\<close> makes of the head of a value: the tag keeps 7 bits, and bits 8 to 10 of it are or-ed into the line type.\<close>

lemma read_head_one:
  assumes "t < 0x08" "w < 0x10"
  shows "read_head ((push_bit 4 (ucast t) OR w) # xs) = Inr (t, w, 1)"
proof -
  note b = bit_small_u16(1) [OF assms(1)] bit_small_u8 [OF assms(2)]
  let ?d = "push_bit 4 (ucast t) OR w"
  have "?d AND 0x80 = 0"
    using b [of 7] b(1) [of 3] by (simp add: u8_eq_bits bit_simps bit_lits) (fastforce dest: b)
  moreover have "ucast (drop_bit 4 (?d AND 0x70)) = t"
    by (rule bit_word_eqI) (auto simp: bit_simps bit_lits dest: b)
  moreover have "?d AND 0x0f = w"
    by (rule bit_word_eqI) (auto simp: bit_simps bit_lits dest: b)
  ultimately show ?thesis
    by (simp add: read_head_def peek_at_def)
qed

lemma read_head_two:
  assumes "\<not> t < 0x08" "t < 0x800" "w < 0x10"
  shows "read_head (ucast ((t AND 0x007f) OR 0x80) # (ucast (drop_bit 8 t AND 0x00ff) OR w) # xs)
    = Inr (t AND 0x7f, ucast (drop_bit 8 t) OR w, 2)"
proof -
  note b = bit_small_u16(3) [OF assms(2)] bit_small_u8 [OF assms(3)]
  let ?d = "ucast ((t AND 0x007f) OR 0x80) :: u8" and ?e = "ucast (drop_bit 8 t AND 0x00ff) OR w"
  have "?d AND 0x80 \<noteq> 0"
    by (rule notI, drule arg_cong [where f = "\<lambda>x. bit x 7"]) (simp add: bit_simps bit_lits)
  moreover have "ucast (?d AND 0x7f) OR ucast (drop_bit 4 ?e AND 0x0f) = t AND 0x7f"
    by (rule bit_word_eqI) (auto simp: bit_simps bit_lits dest: b)
  moreover have "?e AND 0x0f = ucast (drop_bit 8 t) OR w"
    by (rule bit_word_eqI) (auto simp: bit_simps bit_lits dest: b)
  ultimately show ?thesis
    by (simp add: read_head_def peek_at_def)
qed

lemma read_head_value:
  assumes "value_head t w = Some h" "t < 0x80" "w < 0x10"
  shows "read_head (h @ xs) = Inr (t, w, length h)" "h \<noteq> []" "length h \<le> 2"
    "hd h = 0 \<longleftrightarrow> t = 0 \<and> w = 0"
proof -
  note b = bit_small_u16(2) [OF assms(2)] bit_small_u8 [OF assms(3)]
  have "t AND 0x7f = t" "ucast (drop_bit 8 t) OR w = w"
    by (rule bit_word_eqI; auto simp: bit_simps bit_lits dest: b)+
  then have two: "Inr (t AND 0x7f, ucast (drop_bit 8 t) OR w, 2) = Inr (t, w, 2 :: nat)"
    by simp
  have "t < 0x800"
    using assms(2) by (rule less_trans) simp
  show "read_head (h @ xs) = Inr (t, w, length h)"
  proof (cases "t < 0x08")
    case True
    then show ?thesis
      using assms(1) read_head_one [OF True assms(3)] by (auto simp: value_head_def)
  next
    case False
    then have "h = [ucast ((t AND 0x007f) OR 0x80), ucast (drop_bit 8 t AND 0x00ff) OR w]"
      using assms(1) \<open>t < 0x800\<close> by (simp only: value_head_def if_False if_True option.inject)
    then show ?thesis
      using trans [OF read_head_two [OF False \<open>t < 0x800\<close> assms(3), of xs] two]
      by (simp only: append_Cons append_Nil list.size) simp
  qed
  show "h \<noteq> []" "length h \<le> 2"
    using assms(1) by (auto simp: value_head_def split: if_splits)
  show "hd h = 0 \<longleftrightarrow> t = 0 \<and> w = 0"
  proof (cases "t < 0x08")
    case True
    note c = bit_small_u16(1) [OF True] bit_small_u8 [OF assms(3)]
    have "push_bit 4 (ucast t) OR w = 0 \<longleftrightarrow> t = 0 \<and> w = 0"
    proof
      assume z: "push_bit 4 (ucast t) OR w = 0"
      have zb: "\<not> bit (push_bit 4 (ucast t) OR w) n" for n
        by (simp add: z)
      have "\<not> bit t n" for n
        using zb [of "n + 4"] c(1) [of n] by (auto simp: bit_simps)
      moreover have "\<not> bit w n" for n
        using zb [of n] by (auto simp: bit_simps)
      ultimately show "t = 0 \<and> w = 0"
        by (simp add: bit_eq_iff)
    qed simp
    then show ?thesis
      using True assms(1) by (auto simp: value_head_def)
  next
    case False
    have "ucast ((t AND 0x007f) OR 0x80) \<noteq> (0 :: u8)"
      by (rule notI, drule arg_cong [where f = "\<lambda>x. bit x 7"]) (simp add: bit_simps bit_lits)
    then show ?thesis
      using False assms(1) by (auto simp: value_head_def split: if_splits)
  qed
qed

lemma value_head_Some: "t < 0x80 \<Longrightarrow> \<exists>h. value_head t w = Some h"
  using less_trans [of t "0x80" "0x800"] by (auto simp: value_head_def)

section \<open>Scalars\<close>

text \<open>
  The value a scalar comes back as: 0.0, 1.0 and -1.0 become integers, every NaN the quiet one, and
  an integer what the varint of its magnitude holds.
\<close>

fun val_back :: "val \<Rightarrow> val" where
  "val_back (VDouble w) =
     (if f64_is_zero w then VLong 0 else if w = f64_one then VLong 1
      else if f64_nan w then VDouble f64_quiet_nan
      else if w = f64_neg_one then VLong (-1) else VDouble w)"
| "val_back (VLong i) =
     VLong (if sint i > 1 then varint_stored i
            else if sint i < -1 then - varint_stored (- i) else i)"
| "val_back v = v"

text \<open>The values of the round trip: everything the setters give but unsigned ones and \<open>INT64_MIN\<close>.\<close>

fun flat_val :: "val \<Rightarrow> bool" where
  "flat_val VNone = True"
| "flat_val (VDouble w) = True"
| "flat_val (VLong i) = (i \<noteq> 0x8000000000000000)"
| "flat_val (VString s) = (length s < 0xffffff)"
| "flat_val (VULong u) = False"
| "flat_val (VPtr t p) = False"

lemma put_varint_bytes:
  assumes "0 \<le> sint i"
  shows "put_varint out i n = Inr (out @ varint_bytes i @ replicate n 0)"
  using bytes_le_9 [of i]
  by (simp add: put_varint_def len_bytes [OF assms] encode_bytes [OF assms] write_block_def)

lemma take_varint_bytes:
  assumes "0 \<le> sint i" "bv_data v = varint_bytes i @ rest" "length (varint_bytes i) \<le> bv_size v"
  shows "take_varint (Some (bv_data v)) v =
    Inr (varint_stored i, \<lparr> bv_data = rest, bv_size = bv_size v - length (varint_bytes i) \<rparr>)"
proof -
  have "0 < length (varint_bytes i)"
    by (rule bytes_le_9)
  then have "0 < bv_size v"
    using assms(3) by linarith
  then have "0 < min (bv_size v) 9"
    by simp
  then have "varint_decode (bv_data v) (min (bv_size v) 9) = Inr (length (varint_bytes i), varint_stored i)"
    using assms(1,2)
    by (simp add: varint_decode_def numeral_2_eq_2 identify_bytes payload_bytes classify_neg_r
      del: varint_identify.simps min_less_iff_conj)
  then show ?thesis
    using assms(2,3) \<open>0 < length (varint_bytes i)\<close> by (auto simp: take_varint_def view_peek_def)
qed

lemma host_le_back: "to_little_endian_u64 big (host_word big (host_bytes big 8 (to_little_endian_u64 big w))) = w"
proof -
  have "to_little_endian_u64 big x = to_endian_u64 (\<not> big) x" for x
    by (simp add: to_little_endian_u64_def to_endian_u64_def)
  moreover have "host_word big (host_bytes big 8 x) = x" for x :: u64
    by (rule host_word_bytes) simp
  ultimately show ?thesis
    by (simp add: swap64_swap)
qed

text \<open>The bytes behind the head, and what reading them back gives.\<close>

definition val_body :: "bool \<Rightarrow> val \<Rightarrow> bytes" where
  "val_body big v =
     (case v of
        VLong i \<Rightarrow> if sint i > 1 then varint_bytes i else if sint i < -1 then varint_bytes (- i) else []
      | VDouble w \<Rightarrow>
          if wrie_type v = TLV_LTYPE_FLOAT64 then host_bytes big 8 (to_little_endian_u64 big w) else []
      | VString s \<Rightarrow> varint_bytes (word_of_nat (length s)) @ s
      | _ \<Rightarrow> [])"

lemma ltype_distinct:
  "TLV_LTYPE_VARINT_POS \<noteq> TLV_LTYPE_VARINT_NEG" "TLV_LTYPE_FLOAT64 \<noteq> TLV_LTYPE_VARINT_NEG"
  by (simp_all add: ltypes)

lemma sint_cases_small:
  assumes "\<not> sint (i :: i64) > 1" "\<not> sint i < -1"
  shows "i = 0 \<or> i = 1 \<or> i = -1"
proof -
  have "sint i = sint (0 :: i64) \<or> sint i = sint (1 :: i64) \<or> sint i = sint (-1 :: i64)"
    using assms by simp linarith
  then show ?thesis
    by (metis signed_word_eqI)
qed

lemma wrie_long:
  "sint i > 1 \<Longrightarrow> wrie_type (VLong i) = TLV_LTYPE_VARINT_POS"
  "sint i < -1 \<Longrightarrow> wrie_type (VLong i) = TLV_LTYPE_VARINT_NEG"
  by auto

lemma length_word:
  assumes "length s < 0xffffff"
  shows "unat (word_of_nat (length s) :: i64) = length s" "0 \<le> sint (word_of_nat (length s) :: i64)"
    "varint_stored (word_of_nat (length s)) = word_of_nat (length s)"
proof -
  have u: "uint (word_of_nat (length s) :: i64) = int (length s)"
    using assms by (simp add: unsigned_of_nat take_bit_int_eq_self_iff take_bit_nat_eq_self_iff)
  show "unat (word_of_nat (length s) :: i64) = length s"
    using assms by (simp add: unsigned_of_nat take_bit_nat_eq_self_iff)
  have "sint (word_of_nat (length s) :: i64) = int (length s)"
    using u assms by (simp add: sint_uint signed_take_bit_int_eq_self)
  then show "0 \<le> sint (word_of_nat (length s) :: i64)"
    by simp
  show "varint_stored (word_of_nat (length s)) = word_of_nat (length s)"
    using u assms by (simp add: varint_stored_def)
qed

lemma put_scalar_body:
  assumes "flat_val v"
  shows "put_scalar big v out = Inr (out @ val_body big v)"
proof (cases v)
  case (VLong i)
  consider (P) "sint i > 1" | (N) "sint i < -1" | (S) "i = 0 \<or> i = 1 \<or> i = -1"
    using sint_cases_small by blast
  then show ?thesis
  proof cases
    case P
    then show ?thesis
      unfolding put_scalar_def VLong wrie_long(1) [OF P] by (simp add: put_varint_bytes val_body_def)
  next
    case N
    then have "neg_i64 i = Inr (- i)" "0 \<le> sint (- i)" "sint i < 0"
      using assms VLong by (simp_all add: neg_i64_def sint_neg_i64)
    with N show ?thesis
      unfolding put_scalar_def VLong wrie_long(2) [OF N]
      by (simp add: put_varint_bytes val_body_def ltype_distinct ltype_distinct [symmetric])
  next
    case S
    then show ?thesis
      unfolding VLong by (auto simp: put_scalar_def val_body_def ltypes)
  qed
next
  case (VString s)
  then have s: "length s < 0xffffff"
    using assms by simp
  show ?thesis
    unfolding VString using length_word [OF s]
    by (simp add: put_scalar_def val_body_def ltypes put_varint_bytes write_block_def)
next
  case (VDouble w)
  then show ?thesis
    by (auto simp: put_scalar_def val_body_def ltypes)
qed (use assms in \<open>auto simp: put_scalar_def val_body_def ltypes\<close>)

lemma read_scalar_body:
  assumes "flat_val v"
  shows "read_scalar big (wrie_type v) VNone (Some (val_body big v @ rest))
      \<lparr> bv_data = val_body big v @ rest, bv_size = length (val_body big v) + r \<rparr>
    = Inr (\<lparr> bv_data = rest, bv_size = r \<rparr>, val_back v)"
proof (cases v)
  case (VLong i)
  consider (P) "sint i > 1" | (N) "sint i < -1" | (S) "i = 0 \<or> i = 1 \<or> i = -1"
    using sint_cases_small by blast
  then show ?thesis
  proof cases
    case P
    then show ?thesis
      unfolding VLong wrie_long(1) [OF P] read_scalar_def
      using take_varint_bytes [of i "\<lparr> bv_data = varint_bytes i @ rest, bv_size = length (varint_bytes i) + r \<rparr>" rest]
      by (simp add: ltypes val_body_def set_int64_def)
  next
    case N
    then have n: "0 \<le> sint (- i)" "\<not> 1 < sint i"
      using assms VLong by (simp_all add: sint_neg_i64)
    with N show ?thesis
      unfolding VLong wrie_long(2) [OF N] read_scalar_def
      using take_varint_bytes [of "- i" "\<lparr> bv_data = varint_bytes (- i) @ rest, bv_size = length (varint_bytes (- i)) + r \<rparr>" rest]
        stored_range [OF n(1)]
      by (simp add: ltypes val_body_def set_int64_def neg_i64_def)
  next
    case S
    then show ?thesis
      unfolding VLong by (auto simp: read_scalar_def val_body_def ltypes set_int_def)
  qed
next
  case (VString s)
  then have s: "length s < 0xffffff"
    using assms by simp
  let ?n = "word_of_nat (length s) :: i64"
  have "take_varint (Some (varint_bytes ?n @ s @ rest))
      \<lparr> bv_data = varint_bytes ?n @ s @ rest, bv_size = length (varint_bytes ?n) + length s + r \<rparr>
    = Inr (?n, \<lparr> bv_data = s @ rest, bv_size = length s + r \<rparr>)"
    using take_varint_bytes [of ?n "\<lparr> bv_data = varint_bytes ?n @ s @ rest,
      bv_size = length (varint_bytes ?n) + length s + r \<rparr>" "s @ rest"] length_word [OF s]
    by simp
  then show ?thesis
    unfolding VString using s length_word [OF s]
    by (cases "length s + r = 0")
      (simp_all add: read_scalar_def ltypes val_body_def set_bytes_def read_block_def view_peek_def)
next
  case (VDouble w)
  then show ?thesis
    by (auto simp: read_scalar_def val_body_def ltypes set_int_def set_double_def read_block_def
      view_peek_def host_le_back)
qed (use assms in \<open>auto simp: read_scalar_def val_body_def ltypes\<close>)

lemma wrie_flat:
  assumes "flat_val v"
  shows "wrie_type v < 0x10" "wrie_type v \<noteq> TLV_LTYPE_ARRAY0" "wrie_type v \<noteq> TLV_LTYPE_OBJECT"
    "wrie_type v = 0 \<longleftrightarrow> v = VNone"
  using assms by (cases v; auto simp: ltypes)+

section \<open>Values and objects\<close>

text \<open>The bytes of one tagged value, and of the items of a flat object.\<close>

definition val_image :: "bool \<Rightarrow> u16 \<Rightarrow> val \<Rightarrow> bytes" where
  "val_image big tag v = the (value_head tag (wrie_type v)) @ val_body big v"

lemma val_image_head:
  assumes "flat_val v" "tag < 0x80"
  shows "val_image big tag v \<noteq> []" "hd (val_image big tag v) = 0 \<longleftrightarrow> tag = 0 \<and> v = VNone"
proof -
  obtain h where h: "value_head tag (wrie_type v) = Some h"
    using value_head_Some [OF assms(2)] by blast
  note r = read_head_value [OF h assms(2) wrie_flat(1) [OF assms(1)]]
  show "val_image big tag v \<noteq> []"
    using h r by (simp add: val_image_def)
  show "hd (val_image big tag v) = 0 \<longleftrightarrow> tag = 0 \<and> v = VNone"
    using h r wrie_flat(4) [OF assms(1)] by (simp add: val_image_def)
qed

lemma value_read:
  assumes "flat_val v" "tag < 0x80"
  shows "value_deserialize big (Suc n) VNone
      \<lparr> bv_data = val_image big tag v @ rest, bv_size = length (val_image big tag v) + r \<rparr>
    = Inr (\<lparr> bv_data = rest, bv_size = r \<rparr>, tag, val_back v)"
proof -
  obtain h where h: "value_head tag (wrie_type v) = Some h"
    using value_head_Some [OF assms(2)] by blast
  note r = read_head_value [OF h assms(2) wrie_flat(1) [OF assms(1)]]
  have "view_peek \<lparr> bv_data = val_image big tag v @ rest, bv_size = length (val_image big tag v) + r \<rparr> (length h)
    = (Some (val_body big v @ rest),
       \<lparr> bv_data = val_body big v @ rest, bv_size = length (val_body big v) + r \<rparr>)"
    using h r(2) by (auto simp: view_peek_def val_image_def)
  then show ?thesis
    using h r(1) [of "val_body big v @ rest"] wrie_flat(2,3) [OF assms(1)] read_scalar_body [OF assms(1)]
    by (simp add: value_deserialize.simps val_image_def)
qed

definition flat_object :: "tuple_object \<Rightarrow> bool" where
  "flat_object m \<longleftrightarrow> sorted_wrt (<) (map fst m) \<and> (\<forall>(k, v) \<in> set m. 0 < k \<and> k < 0x80 \<and> flat_val v)"

definition object_image :: "bool \<Rightarrow> tuple_object \<Rightarrow> bytes" where
  "object_image big m = concat (map (\<lambda>(k, v). val_image big (word_of_int k) v) m)"

lemma small_tag:
  assumes "0 < k" "k < 0x80"
  shows "(word_of_int k :: u16) < 0x80" "int (unat (word_of_int k :: u16)) = k" "(word_of_int k :: u16) \<noteq> 0"
proof -
  have "uint (word_of_int k :: u16) = k"
    using assms by (simp add: unsigned_of_int take_bit_int_eq_self_iff)
  then show "(word_of_int k :: u16) < 0x80" "int (unat (word_of_int k :: u16)) = k"
    "(word_of_int k :: u16) \<noteq> 0"
    using assms by (auto simp: word_less_def)
qed

lemma object_items_image:
  assumes "\<forall>(k, v) \<in> set m. 0 < k \<and> k < 0x80 \<and> flat_val v"
  shows "object_items big m out = Inr (0, out @ object_image big m)"
  using assms
proof (induction m arbitrary: out)
  case (Cons kv m)
  obtain k v where kv: "kv = (k, v)" "0 < k" "k < 0x80" "flat_val v"
    using Cons.prems by (cases kv) auto
  obtain h where h: "value_head (word_of_int k) (wrie_type v) = Some h"
    using value_head_Some [OF small_tag(1) [OF kv(2,3)]] by blast
  show ?case
    using Cons kv h put_scalar_body [OF kv(4)]
    by (cases v) (simp_all add: object_image_def val_image_def del: wrie_type.simps)
qed (simp add: object_image_def)

lemma map_emplace_last: "\<forall>l \<in> set (map fst m). l < k \<Longrightarrow> map_emplace k v m = m @ [(k, v)]"
  by (induction m) auto

lemma object_loop_image:
  assumes "flat_object m" "m \<noteq> []" "length m \<le> n" "\<forall>l \<in> set (map fst acc). \<forall>k \<in> set (map fst m). l < k"
  shows "object_loop (value_deserialize big (Suc f)) n
      \<lparr> bv_data = object_image big m @ [0], bv_size = length (object_image big m) + 1 \<rparr> acc
    = Inr (\<lparr> bv_data = [], bv_size = 0 \<rparr>, acc @ map (\<lambda>(k, v). (k, val_back v)) m)"
  using assms
proof (induction m arbitrary: n acc)
  case (Cons kv m)
  obtain k v where kv: "kv = (k, v)" "0 < k" "k < 0x80" "flat_val v"
    using Cons.prems(1) by (cases kv) (auto simp: flat_object_def)
  note tag = small_tag [OF kv(2,3)]
  obtain n' where n: "n = Suc n'"
    using Cons.prems(3) by (cases n) auto
  have rd: "value_deserialize big (Suc f) VNone
      \<lparr> bv_data = object_image big (kv # m) @ [0], bv_size = length (object_image big (kv # m)) + 1 \<rparr>
    = Inr (\<lparr> bv_data = object_image big m @ [0], bv_size = length (object_image big m) + 1 \<rparr>,
        word_of_int k, val_back v)"
    using value_read [OF kv(4) tag(1), of big f "object_image big m @ [0]" "length (object_image big m) + 1"]
    by (simp add: object_image_def kv(1) add.assoc)
  have em: "map_emplace k (val_back v) acc = acc @ [(k, val_back v)]"
    using Cons.prems(4) kv(1) by (intro map_emplace_last) auto
  show ?case
  proof (cases m)
    case Nil
    then show ?thesis
      using rd em kv(1) tag(2) by (simp add: n object_image_def peek_at_def view_peek_def)
  next
    case (Cons kv' m')
    obtain k' v' where kv': "kv' = (k', v')" "0 < k'" "k' < 0x80" "flat_val v'"
      using Cons.prems(1) Cons by (cases kv') (auto simp: flat_object_def)
    have "object_image big m \<noteq> []" "hd (object_image big m) \<noteq> 0"
      using val_image_head [OF kv'(4) small_tag(1) [OF kv'(2,3)], of big] small_tag(3) [OF kv'(2,3)] kv'(1)
      by (auto simp: object_image_def Cons)
    then obtain b bs where b: "object_image big m = b # bs" "b \<noteq> 0"
      by (cases "object_image big m") auto
    have "flat_object m" "length m \<le> n'" "m \<noteq> []"
      "\<forall>l \<in> set (map fst (acc @ [(k, val_back v)])). \<forall>k \<in> set (map fst m). l < k"
      using Cons.prems kv(1) n Cons by (auto simp: flat_object_def)
    from Cons.IH [OF this(1,3,2,4)] show ?thesis
      using rd em kv(1) tag(2) b by (simp add: n peek_at_def)
  qed
qed simp

lemma object_image_length:
  assumes "\<forall>(k, v) \<in> set m. 0 < k \<and> k < 0x80 \<and> flat_val v"
  shows "length m \<le> length (object_image big m)"
  using assms
proof (induction m)
  case (Cons kv m)
  obtain k v where kv: "kv = (k, v)" "0 < k" "k < 0x80" "flat_val v"
    using Cons.prems by (cases kv) auto
  have "val_image big (word_of_int k) v \<noteq> []"
    using val_image_head(1) [OF kv(4) small_tag(1) [OF kv(2,3)]] .
  then have "1 \<le> length (val_image big (word_of_int k) v)"
    by (simp add: Suc_le_eq)
  then show ?case
    using Cons kv(1) by (simp add: object_image_def)
qed simp

lemma tuple_image:
  assumes "flat_object m" "m \<noteq> []"
  shows "tuple_serialize big m 0 [] = Inr (0, 0x0f # object_image big m @ [0])"
  using assms
  by (simp add: tuple_serialize_def object_head_def TLV_LTYPE_OBJECT_def object_items_image flat_object_def)

lemma read_head_object: "read_head (0x0f # xs) = Inr (0, 0x0f, 1)"
  by (simp add: read_head_def peek_at_def)

lemma tuple_read:
  assumes "flat_object m" "m \<noteq> []"
  shows "tuple_deserialize big (0x0f # object_image big m @ [0]) []
    = Inr (map (\<lambda>(k, v). (k, val_back v)) m)"
proof -
  have "length m \<le> length (object_image big m) + 3"
    using object_image_length [of m big] assms(1) by (simp add: flat_object_def)
  then show ?thesis
    using object_loop_image [OF assms, of "Suc (Suc (Suc (length (object_image big m))))" "[]" big
      "length (object_image big m) + 2"]
    by (simp add: tuple_deserialize_def object_deserialize_def view_of_def read_head_object view_peek_def
      del: object_loop.simps)
qed

section \<open>Fuel\<close>

text \<open>A view over a whole buffer: no bytes lie behind it.\<close>

definition exact_view :: "buffer_view \<Rightarrow> bool" where
  "exact_view v \<longleftrightarrow> length (bv_data v) = bv_size v"

lemma peek_exact: "exact_view v \<Longrightarrow> exact_view (snd (view_peek v n))"
  by (auto simp: exact_view_def view_peek_def)

lemma peek_size: "bv_size (snd (view_peek v n)) \<le> bv_size v"
  by (simp add: view_peek_def)

lemma peek_none [simp]: "bv_size v = 0 \<Longrightarrow> snd (view_peek v n) = v"
  by (simp add: view_peek_def)

lemma rbind_fuel:
  "rbind m f = Inl OutOfFuel \<longleftrightarrow> m = Inl OutOfFuel \<or> (\<exists>x. m = Inr x \<and> f x = Inl OutOfFuel)"
  by (cases m) auto

named_theorems no_fuel

lemma basic_no_fuel [no_fuel]:
  "peek_at m k \<noteq> Inl OutOfFuel" "read_block m k n \<noteq> Inl OutOfFuel" "neg_i64 i \<noteq> Inl OutOfFuel"
  "set_bytes s n \<noteq> Inl OutOfFuel"
  by (auto simp: peek_at_def read_block_def neg_i64_def set_bytes_def rbind_fuel)

lemma tail_no_fuel [no_fuel]: "varint_decode_tail buf k ss acc \<noteq> Inl OutOfFuel"
  by (induction ss arbitrary: k acc)
    (auto simp: varint_decode_tail.simps rbind_fuel basic_no_fuel)

lemma payload_no_fuel [no_fuel]: "varint_decode_payload t buf \<noteq> Inl OutOfFuel"
  by (simp add: varint_decode_payload_def rbind_fuel basic_no_fuel tail_no_fuel)

lemma identify_no_fuel [no_fuel]: "varint_identify d buf lim \<noteq> Inl OutOfFuel"
proof (induction d arbitrary: buf lim)
  case (Suc d)
  show ?case
  proof (cases "peek_at buf 0")
    case (Inl e)
    then show ?thesis
      using basic_no_fuel(1) [of buf 0] by simp
  next
    case (Inr b)
    show ?thesis
    proof (cases "varint_classify_v b = VARINT_NEG_R")
      case True
      have "rbind (varint_identify d (drop 1 buf) (lim - 1)) (\<lambda>(ok, rt, _, len).
          if \<not> ok then Inr (False, VARINT_INVALID, rt, 0)
          else Inr (True, VARINT_NEG_R, rt, len + 1)) \<noteq> Inl OutOfFuel"
        using Suc by (auto simp: rbind_fuel split: prod.splits)
      with True Inr show ?thesis
        by simp
    next
      case False
      with Inr show ?thesis
        by (simp add: Let_def)
    qed
  qed
qed simp

lemma decode_no_fuel [no_fuel]: "varint_decode buf lim \<noteq> Inl OutOfFuel"
  by (auto simp: varint_decode_def rbind_fuel no_fuel split: prod.splits if_splits)

lemma take_varint_no_fuel [no_fuel]: "take_varint data v \<noteq> Inl OutOfFuel"
  by (auto simp: take_varint_def rbind_fuel no_fuel split: prod.splits option.splits if_splits)

lemma take_varint_view:
  "take_varint data v = Inr (i, v1) \<Longrightarrow> exact_view v \<Longrightarrow> exact_view v1 \<and> bv_size v1 \<le> bv_size v"
  by (auto simp: take_varint_def rbind_eq_Inr peek_exact peek_size split: option.splits if_splits)

lemma read_scalar_no_fuel [no_fuel]: "read_scalar big t cur data v \<noteq> Inl OutOfFuel"
  by (auto simp: read_scalar_def rbind_fuel no_fuel split: prod.splits if_splits)

lemma read_scalar_view:
  "read_scalar big t cur data v = Inr (v1, x) \<Longrightarrow> exact_view v \<Longrightarrow>
     exact_view v1 \<and> bv_size v1 \<le> bv_size v"
  by (auto simp: read_scalar_def rbind_eq_Inr peek_exact peek_size
      dest!: take_varint_view split: prod.splits if_splits
      intro: order.trans [OF peek_size])

lemma read_head_no_fuel [no_fuel]: "read_head d \<noteq> Inl OutOfFuel"
  by (auto simp: read_head_def rbind_fuel no_fuel split: if_splits)

lemma read_head_pos:
  "read_head (bv_data v) = Inr (tag, t, pos) \<Longrightarrow> exact_view v \<Longrightarrow> 0 < pos \<and> pos \<le> bv_size v"
  by (auto simp: read_head_def rbind_eq_Inr peek_at_def exact_view_def Suc_le_eq
      simp flip: length_greater_0_conv split: if_splits)

text \<open>A reader that does not run out of fuel on exact views of at most s bytes, and moves on them.\<close>

definition good_reader :: "value_reader \<Rightarrow> nat \<Rightarrow> bool" where
  "good_reader rd s \<longleftrightarrow> (\<forall>cur v. exact_view v \<longrightarrow> bv_size v \<le> s \<longrightarrow>
     rd cur v \<noteq> Inl OutOfFuel \<and>
     (\<forall>v1 tag x. rd cur v = Inr (v1, tag, x) \<longrightarrow> exact_view v1 \<and> bv_size v1 < bv_size v))"

lemma array_loop_good:
  assumes "good_reader rd s" "exact_view v" "bv_size v \<le> s"
  shows "array_loop rd k v xs \<noteq> Inl OutOfFuel \<and>
    (\<forall>v1 ys. array_loop rd k v xs = Inr (v1, ys) \<longrightarrow> exact_view v1 \<and> bv_size v1 \<le> bv_size v)"
  using assms(2,3)
proof (induction k arbitrary: v xs)
  case (Suc k)
  have rd: "rd VNone v \<noteq> Inl OutOfFuel"
    "\<And>v1 tag x. rd VNone v = Inr (v1, tag, x) \<Longrightarrow> exact_view v1 \<and> bv_size v1 < bv_size v"
    using assms(1) Suc.prems unfolding good_reader_def by blast+
  show ?case
  proof (cases "rd VNone v")
    case (Inl e)
    then show ?thesis using rd(1) by simp
  next
    case (Inr r)
    obtain v1 tag x where r: "r = (v1, tag, x)"
      by (cases r)
    then have "exact_view v1" "bv_size v1 < bv_size v"
      using rd(2) Inr by auto
    then show ?thesis
      using Suc.IH [of v1 "xs @ [x]"] Suc.prems Inr r by fastforce
  qed
qed simp

lemma array_good:
  assumes "good_reader rd s" "exact_view v" "bv_size v \<le> s"
  shows "array_deserialize rd v \<noteq> Inl OutOfFuel \<and>
    (\<forall>v1 ys. array_deserialize rd v = Inr (v1, ys) \<longrightarrow> exact_view v1 \<and> bv_size v1 \<le> bv_size v)"
proof -
  have loop: "array_loop rd k (snd (view_peek (snd (view_peek v p)) l)) [] \<noteq> Inl OutOfFuel \<and>
    (\<forall>v1 ys. array_loop rd k (snd (view_peek (snd (view_peek v p)) l)) [] = Inr (v1, ys) \<longrightarrow>
      exact_view v1 \<and> bv_size v1 \<le> bv_size v)" for p l k
  proof -
    let ?w = "snd (view_peek (snd (view_peek v p)) l)"
    have "exact_view ?w"
      using assms(2) peek_exact by blast
    moreover have "bv_size ?w \<le> bv_size v"
      using peek_size order.trans by blast
    ultimately show ?thesis
      using array_loop_good [OF assms(1), of ?w k "[]"] assms(3) by fastforce
  qed
  show ?thesis
  proof (cases "bv_size v = 0 \<or> (\<exists>e. read_head (bv_data v) = Inl e)")
    case True
    then show ?thesis
      using assms(2) read_head_no_fuel [of "bv_data v"] by (auto simp: array_deserialize_def)
  next
    case False
    then obtain tag t p where h: "bv_size v \<noteq> 0" "read_head (bv_data v) = Inr (tag, t, p)"
      by (metis old.sum.exhaust prod_cases3)
    show ?thesis
    proof (cases "varint_decode (bv_data (snd (view_peek v p))) 9")
      case (Inl e)
      then show ?thesis
        using h decode_no_fuel by (auto simp: array_deserialize_def)
    next
      case (Inr d)
      then show ?thesis
        using h loop by (cases d) (simp add: array_deserialize_def)
    qed
  qed
qed

lemma object_loop_good:
  assumes "good_reader rd s" "exact_view v" "bv_size v \<le> s" "bv_size v < n"
  shows "object_loop rd n v m \<noteq> Inl OutOfFuel \<and>
    (\<forall>v1 m1. object_loop rd n v m = Inr (v1, m1) \<longrightarrow> exact_view v1 \<and> bv_size v1 \<le> bv_size v)"
  using assms(2-4)
proof (induction n arbitrary: v m)
  case (Suc n)
  have rd: "rd VNone v \<noteq> Inl OutOfFuel"
    "\<And>v1 tag x. rd VNone v = Inr (v1, tag, x) \<Longrightarrow> exact_view v1 \<and> bv_size v1 < bv_size v"
    using assms(1) Suc.prems unfolding good_reader_def by blast+
  show ?case
  proof (cases "bv_size v = 0 \<or> (\<exists>e. rd VNone v = Inl e)")
    case True
    then show ?thesis using rd(1) Suc.prems(1) by auto
  next
    case False
    then obtain v1 tag x where r: "rd VNone v = Inr (v1, tag, x)"
      by (metis old.sum.exhaust prod_cases3)
    then have v1: "exact_view v1" "bv_size v1 < bv_size v"
      using rd(2) by auto
    have "object_loop rd n v1 m' \<noteq> Inl OutOfFuel \<and>
      (\<forall>w1 m1. object_loop rd n v1 m' = Inr (w1, m1) \<longrightarrow> exact_view w1 \<and> bv_size w1 \<le> bv_size v)" for m'
      using Suc.IH [of v1 m'] Suc.prems v1 by fastforce
    then show ?thesis
      using False r v1 peek_exact [OF v1(1), of 1] peek_size [of v1 1]
      by (auto simp: rbind_fuel rbind_eq_Inr no_fuel Let_def split: if_splits)
  qed
qed simp

lemma object_good:
  assumes "good_reader rd s" "exact_view v" "bv_size v \<le> s" "bv_size v < n"
  shows "object_deserialize rd n v m \<noteq> Inl OutOfFuel \<and>
    (\<forall>v1 t m1. object_deserialize rd n v m = Inr (v1, t, m1) \<longrightarrow> exact_view v1 \<and> bv_size v1 \<le> bv_size v)"
proof -
  have "object_loop rd n (snd (view_peek v p)) m \<noteq> Inl OutOfFuel \<and>
    (\<forall>v1 m1. object_loop rd n (snd (view_peek v p)) m = Inr (v1, m1) \<longrightarrow>
      exact_view v1 \<and> bv_size v1 \<le> bv_size v)" for p
    using object_loop_good [OF assms(1) peek_exact [OF assms(2), of p], of n m] peek_size [of v p] assms(3,4)
    by fastforce
  then show ?thesis
    using assms(2)
    by (auto simp: object_deserialize_def rbind_fuel rbind_eq_Inr no_fuel split: prod.splits if_splits)
qed

lemma value_good: "s < n \<Longrightarrow> good_reader (value_deserialize big n) s"
proof (induction n arbitrary: s)
  case (Suc n)
  have "value_deserialize big (Suc n) cur v \<noteq> Inl OutOfFuel \<and>
    (\<forall>v1 tag x. value_deserialize big (Suc n) cur v = Inr (v1, tag, x) \<longrightarrow>
      exact_view v1 \<and> bv_size v1 < bv_size v)" if v: "exact_view v" "bv_size v \<le> s" for cur v
  proof (cases "read_head (bv_data v)")
    case (Inl e)
    then show ?thesis
      using read_head_no_fuel [of "bv_data v"] by (simp add: value_deserialize.simps)
  next
    case (Inr r)
    obtain tag t pos where r: "r = (tag, t, pos)"
      by (cases r)
    have pos: "0 < pos" "pos \<le> bv_size v"
      using read_head_pos [of v tag t pos] Inr r v(1) by simp_all
    obtain data v1 where p: "view_peek v pos = (data, v1)"
      by (cases "view_peek v pos")
    have v1: "exact_view v1" "bv_size v1 < bv_size v"
      using peek_exact [OF v(1), of pos] p pos by (auto simp: view_peek_def split: if_splits)
    let ?rd = "value_deserialize big n"
    have rd: "good_reader ?rd (bv_size v1)"
      using Suc v(2) v1(2) by simp
    have obj: "object_deserialize ?rd n w [] \<noteq> Inl OutOfFuel \<and>
      (\<forall>w1 t m1. object_deserialize ?rd n w [] = Inr (w1, t, m1) \<longrightarrow>
        exact_view w1 \<and> bv_size w1 < bv_size v)" if "exact_view w" "bv_size w \<le> bv_size v1" for w
    proof -
      have "bv_size w < n"
        using that Suc.prems v(2) v1(2) by linarith
      then show ?thesis
        using object_good [OF rd that, of n "[]"] that(2) v1(2) by fastforce
    qed
    have arr: "array_deserialize ?rd v1 \<noteq> Inl OutOfFuel"
      "\<And>w ys. array_deserialize ?rd v1 = Inr (w, ys) \<Longrightarrow> exact_view w \<and> bv_size w \<le> bv_size v1"
      using array_good [OF rd v1(1)] by simp_all
    have sc: "exact_view w \<and> bv_size w < bv_size v" if "read_scalar big t cur data v1 = Inr (w, x)" for w x
      using read_scalar_view [OF that v1(1)] v1(2) by simp
    note step = value_deserialize.simps Inr r p
    show ?thesis
    proof (cases "t = TLV_LTYPE_ARRAY0")
      case True
      show ?thesis
      proof (cases "array_deserialize ?rd v1")
        case (Inl e)
        with True arr(1) show ?thesis
          by (simp add: step)
      next
        case (Inr wa)
        obtain w ys where w: "wa = (w, ys)"
          by (cases wa)
        with Inr True obj [of w] arr(2) [of w ys] show ?thesis
          by (cases "object_deserialize ?rd n w []") (auto simp: step)
      qed
    next
      case False
      show ?thesis
      proof (cases "t = TLV_LTYPE_OBJECT")
        case True
        with False obj [OF v1(1) order.refl] show ?thesis
          by (cases "object_deserialize ?rd n v1 []") (auto simp: step)
      next
        case F: False
        with False sc read_scalar_no_fuel [of big t cur data v1] show ?thesis
          by (cases "read_scalar big t cur data v1") (auto simp: step)
      qed
    qed
  qed
  then show ?case
    by (simp add: good_reader_def)
qed simp

section \<open>Properties\<close>

text \<open>
  C1. An object with tags 1 to 127 that holds empty values, doubles, strings and integers other
  than \<open>INT64_MIN\<close> is written without an error, and reading the bytes back gives the same tags with
  the values \<open>val_back\<close> describes: strings and integers outside 2^32 to 2^36 exactly, and 0.0, 1.0 and -1.0 as integers.
\<close>

theorem tuple_roundtrip:
  assumes "flat_object m"
  shows "\<exists>bs. tuple_serialize big m 0 [] = Inr (0, bs) \<and>
    tuple_deserialize big bs [] = Inr (map (\<lambda>(k, v). (k, val_back v)) m)"
proof (cases "m = []")
  case True
  then show ?thesis
    by (simp add: tuple_serialize_def tuple_deserialize_def)
next
  case False
  then show ?thesis
    using tuple_image [OF assms False] tuple_read [OF assms False] by blast
qed

theorem tuple_roundtrip_witness:
  "\<exists>bs. tuple_serialize False [(1, VLong 300), (2, VString [0x61]), (9, VDouble f64_one)] 0 [] = Inr (0, bs) \<and>
    tuple_deserialize False bs [] =
      Inr (map (\<lambda>(k, v). (k, val_back v)) [(1, VLong 300), (2, VString [0x61]), (9, VDouble f64_one)])"
  by (rule tuple_roundtrip) (simp add: flat_object_def)


fun val_written :: "val \<Rightarrow> bool" where
  "val_written (VULong _) = False"
| "val_written (VPtr t _) = (t = 5 \<or> t = 6)"
| "val_written _ = True"

lemma object_items_written:
  "object_items big m out = object_items big (filter (\<lambda>(k, v). val_written v) m) out"
proof (induction m arbitrary: out)
  case (Cons kv m)
  obtain k v where kv: "kv = (k, v)"
    by (cases kv)
  have *: "object_items big m = object_items big (filter (\<lambda>(k, v). val_written v) m)"
    using Cons by blast
  show ?case
    unfolding kv object_items.simps * by (cases v; hypsubst; simp del: wrie_type.simps)
qed simp

text \<open>
  What an object does not write. Unsigned values, and objects and arrays stored with
  \<open>insert(tag, TupleObject&&)\<close> and \<open>insert(tag, Array&&)\<close>, whose types 100 and 101 do not fit the six bits
  of the field, are skipped: the bytes are those of the object without them, head and end included.
\<close>

theorem tuple_serialize_drops:
  assumes "filter (\<lambda>(k, v). val_written v) m \<noteq> []"
  shows "tuple_serialize big m tag out = tuple_serialize big (filter (\<lambda>(k, v). val_written v) m) tag out \<and>
    \<not> val_written (set_ptr (PObject o1) 100) \<and> \<not> val_written (set_ptr (PArray a1) 101) \<and>
    \<not> val_written (set_uint64 u)"
proof -
  have "m \<noteq> []"
    using assms by auto
  then show ?thesis
    using assms unfolding tuple_serialize_def object_serialize.simps
    by (subst object_items_written) (simp add: set_ptr_def set_uint64_def)
qed

theorem tuple_serialize_drops_witness:
  "tuple_serialize False [(1, VLong 5), (2, VULong 7)] 0 []
     = tuple_serialize False (filter (\<lambda>(k, v). val_written v) [(1, VLong 5), (2, VULong 7)]) 0 [] \<and>
   \<not> val_written (set_ptr (PObject []) 100) \<and> \<not> val_written (set_ptr (PArray []) 101) \<and>
   \<not> val_written (set_uint64 7)"
  by (rule tuple_serialize_drops) simp

text \<open>
  Tags of 128 and more, which the format allows up to 2047, do not survive: the head of a
  value keeps the low 7 bits of the tag, and bits 8 to 10 of it are read back as part of the line type.
\<close>

theorem value_head_long_tags:
  assumes "\<not> tag < 0x08" "tag < 0x800" "wtype < 0x10"
  shows "\<exists>h. value_head tag wtype = Some h \<and> length h = 2 \<and>
    read_head (h @ xs) = Inr (tag AND 0x7f, ucast (drop_bit 8 tag) OR wtype, 2)"
  using assms read_head_two [OF assms] by (simp add: value_head_def)

theorem value_head_long_tags_witness:
  "\<exists>h. value_head 300 TLV_LTYPE_NULL = Some h \<and> length h = 2 \<and>
    read_head (h @ []) = Inr (300 AND 0x7f, ucast (drop_bit 8 300 :: u16) OR TLV_LTYPE_NULL, 2)"
  by (rule value_head_long_tags) (simp_all add: ltypes)

lemma read_scalar_type:
  "read_scalar big t cur data v = Inr (v1, x) \<Longrightarrow> x = cur \<or> val_dtype x = 1 \<or> val_dtype x = 2 \<or> val_dtype x = 3"
  by (auto simp: read_scalar_def rbind_eq_Inr set_int_def set_int64_def set_double_def set_bytes_def
      split: if_splits prod.splits)

text \<open>
  Reading never gives an array: in the case of an array the code goes on into the case of an
  object, drops the array it has read and reads an object from the bytes behind it. Every value read
  on an empty one is empty, a number, a string or an object.
\<close>

theorem value_deserialize_no_array:
  assumes "value_deserialize big n VNone v = Inr (v1, tag, x)"
  shows "val_dtype x \<in> {0, 1, 2, 3} \<or> (\<exists>m. x = VPtr 5 (PObject m))"
proof (cases n)
  case (Suc k)
  show ?thesis
  proof (cases "read_head (bv_data v)")
    case (Inr r)
    obtain t l pos data v2 where r: "r = (t, l, pos)" "view_peek v pos = (data, v2)"
      by (cases r) (metis surj_pair)
    show ?thesis
    proof (cases "l = TLV_LTYPE_ARRAY0 \<or> l = TLV_LTYPE_OBJECT")
      case True
      then show ?thesis
        using assms Inr r Suc by (auto simp: value_deserialize.simps rbind_eq_Inr)
    next
      case False
      then have "read_scalar big l VNone data v2 = Inr (v1, x)"
        using assms Inr r Suc by (auto simp: value_deserialize.simps rbind_eq_Inr)
      from read_scalar_type [OF this] show ?thesis
        by auto
    qed
  qed (use assms Suc in \<open>simp add: value_deserialize.simps\<close>)
qed (use assms in \<open>simp add: value_deserialize.simps\<close>)

theorem value_deserialize_no_array_witness:
  "val_dtype (VLong 1) \<in> {0, 1, 2, 3} \<or> (\<exists>m. VLong 1 = VPtr 5 (PObject m))"
proof (rule value_deserialize_no_array)
  show "value_deserialize False 1 VNone (view_of [0x11]) = Inr (\<lparr> bv_data = [], bv_size = 0 \<rparr>, 1, VLong 1)"
    by (simp add: value_deserialize.simps view_of_def read_head_def peek_at_def view_peek_def
      read_scalar_def ltypes set_int_def)
qed

end
