(* ===== verification/Rocks.thy ===== *)
theory Rocks
  imports Table_Key
begin

text \<open>
  The storage wrapper of \<open>db/rocks_wrapper.h\<close> and \<open>db/rocks_wrapper.cpp\<close>. RocksDB itself is not part
  of the repository: what the wrapper calls of it is the record \<open>engine\<close>, a parameter of every
  operation, over a state \<open>'s\<close> (the database directory and the open instance) and a cursor type \<open>'c\<close>.
  What its documentation promises are the predicates \<open>writes_ok\<close>, \<open>cursors_ok\<close>, \<open>lookups_ok\<close> and
  \<open>no_read_errors\<close>; they are hypotheses where they are used, and \<open>mem_engine\<close> is an engine that keeps them.

  Options objects are fixed by the code and not part of the model, except for which column family
  options a family is opened with and for \<open>prefix_same_as_start\<close>.
\<close>

section \<open>RocksDB\<close>

datatype cf_options = LogOpt | BinlogOpt | DataOpt | MetaOpt | DefaultOpt

type_synonym handle = nat
type_synonym item = "bytes \<times> bytes"
datatype batch_op = BatchPut bytes bytes | BatchDelete bytes

type_synonym batch = "(handle option \<times> batch_op) list"

text \<open>
  Status values are their codes: 0 is \<open>kOk\<close>, 1 is \<open>kNotFound\<close>. A handle argument is \<open>None\<close> where the
  code passes \<open>nullptr\<close>.
\<close>

record ('s, 'c) engine =
  e_list_cfs :: "'s \<Rightarrow> string \<Rightarrow> int \<times> string list"
  e_open_cfs :: "'s \<Rightarrow> string \<Rightarrow> (string \<times> cf_options) list \<Rightarrow> int \<times> handle list \<times> 's"
  e_open :: "'s \<Rightarrow> string \<Rightarrow> int \<times> 's"
  e_create_cf :: "'s \<Rightarrow> cf_options \<Rightarrow> string \<Rightarrow> int \<times> handle \<times> 's"
  e_drop_cf :: "'s \<Rightarrow> handle \<Rightarrow> int \<times> 's"
  e_destroy_cf :: "'s \<Rightarrow> handle \<Rightarrow> int \<times> 's"
  e_cf_name :: "'s \<Rightarrow> handle \<Rightarrow> string"
  e_cf_id :: "'s \<Rightarrow> handle \<Rightarrow> u32"
  e_put :: "'s \<Rightarrow> handle option \<Rightarrow> bytes \<Rightarrow> bytes \<Rightarrow> int \<times> 's"
  e_delete :: "'s \<Rightarrow> handle option \<Rightarrow> bytes \<Rightarrow> int \<times> 's"
  e_delete_range :: "'s \<Rightarrow> handle option \<Rightarrow> bytes \<Rightarrow> bytes \<Rightarrow> int \<times> 's"
  e_delete_files :: "'s \<Rightarrow> handle option \<Rightarrow> bytes \<Rightarrow> bytes \<Rightarrow> int \<times> 's"
  e_batch_put :: "batch \<Rightarrow> handle option \<Rightarrow> bytes \<Rightarrow> bytes \<Rightarrow> int"
  e_batch_delete :: "batch \<Rightarrow> handle option \<Rightarrow> bytes \<Rightarrow> int"
  e_write :: "'s \<Rightarrow> batch \<Rightarrow> int \<times> 's"
  e_get :: "'s \<Rightarrow> handle option \<Rightarrow> bytes \<Rightarrow> int \<times> bytes"
  e_iter :: "'s \<Rightarrow> handle option \<Rightarrow> bool \<Rightarrow> 'c"
  e_seek :: "'c \<Rightarrow> bytes \<Rightarrow> 'c"
  e_seek_prev :: "'c \<Rightarrow> bytes \<Rightarrow> 'c"
  e_first :: "'c \<Rightarrow> 'c"
  e_last :: "'c \<Rightarrow> 'c"
  e_next :: "'c \<Rightarrow> 'c"
  e_prev :: "'c \<Rightarrow> 'c"
  e_valid :: "'c \<Rightarrow> bool"
  e_key :: "'c \<Rightarrow> bytes"
  e_value :: "'c \<Rightarrow> bytes"
  e_status :: "'c \<Rightarrow> int"
  e_int_property :: "'s \<Rightarrow> string \<Rightarrow> u64 option"

section \<open>RocksWrapper\<close>

text \<open>
  \<open>rw_open\<close> is whether \<open>_txn_db\<close> points to a database; \<open>rw_cfs\<close> is \<open>_column_families\<close>. The three
  static counters of the class are fields of the state.
\<close>

record 's wrapper =
  rw_db :: 's
  rw_open :: bool
  rw_is_init :: bool
  rw_path :: string
  rw_cfs :: "string \<rightharpoonup> handle"
  rw_flush_file_number :: u64
  rw_raft_removes :: i64
  rw_data_removes :: i64
  rw_meta_removes :: i64

definition RAFT_LOG_CF :: string where "RAFT_LOG_CF = ''raft_log''"
definition BIN_LOG_CF :: string where "BIN_LOG_CF = ''bin_log''"
definition DATA_CF :: string where "DATA_CF = ''data''"
definition METAINFO_CF :: string where "METAINFO_CF = ''meta_info''"

lemmas cf_names = RAFT_LOG_CF_def BIN_LOG_CF_def DATA_CF_def METAINFO_CF_def

definition wrapper_new :: "'s \<Rightarrow> 's wrapper" where
  "wrapper_new s = \<lparr> rw_db = s, rw_open = False, rw_is_init = False, rw_path = [],
     rw_cfs = (\<lambda>_. None), rw_flush_file_number = 0,
     rw_raft_removes = 0, rw_data_removes = 0, rw_meta_removes = 0 \<rparr>"

subsection \<open>init\<close>

definition cf_option_of :: "string \<Rightarrow> cf_options" where
  "cf_option_of n =
     (if n = RAFT_LOG_CF then LogOpt
      else if n = BIN_LOG_CF then BinlogOpt
      else if n = DATA_CF then DataOpt
      else if n = METAINFO_CF then MetaOpt
      else DefaultOpt)"

text \<open>The loop over the handles of a reopened database.\<close>

definition register_handles :: "('s, 'c) engine \<Rightarrow> handle list \<Rightarrow> 's wrapper \<Rightarrow> 's wrapper" where
  "register_handles E hs w =
     fold (\<lambda>h w. w \<lparr> rw_cfs := (rw_cfs w)(e_cf_name E (rw_db w) h \<mapsto> h) \<rparr>) hs w"

text \<open>The four blocks that create a missing family; the flag is false where the code returns -1.\<close>

definition ensure_cf ::
    "('s, 'c) engine \<Rightarrow> cf_options \<Rightarrow> string \<Rightarrow> 's wrapper \<Rightarrow> bool \<times> 's wrapper" where
  "ensure_cf E opt n w =
     (if rw_cfs w n = None then
        case e_create_cf E (rw_db w) opt n of (c, h, s) \<Rightarrow>
          if c = 0 then (True, w \<lparr> rw_db := s, rw_cfs := (rw_cfs w)(n \<mapsto> h) \<rparr>)
          else (False, w \<lparr> rw_db := s \<rparr>)
      else (True, w))"

definition ensure_cfs ::
    "('s, 'c) engine \<Rightarrow> (cf_options \<times> string) list \<Rightarrow> 's wrapper \<Rightarrow> bool \<times> 's wrapper" where
  "ensure_cfs E ns w =
     fold (\<lambda>(opt, n) (ok, w). if ok then ensure_cf E opt n w else (ok, w)) ns (True, w)"

definition open_db :: "('s, 'c) engine \<Rightarrow> string \<Rightarrow> 's wrapper \<Rightarrow> bool \<times> 's wrapper" where
  "open_db E path w =
     (case e_list_cfs E (rw_db w) path of (c, names) \<Rightarrow>
        if c = 0 then
          (case e_open_cfs E (rw_db w) path (map (\<lambda>n. (n, cf_option_of n)) names) of
             (c, hs, s) \<Rightarrow>
               if c = 0 then (True, register_handles E hs (w \<lparr> rw_db := s, rw_open := True \<rparr>))
               else (False, w \<lparr> rw_db := s \<rparr>))
        else
          (case e_open E (rw_db w) path of (c, s) \<Rightarrow>
             if c = 0 then (True, w \<lparr> rw_db := s, rw_open := True \<rparr>)
             else (False, w \<lparr> rw_db := s \<rparr>)))"

definition rocks_init :: "('s, 'c) engine \<Rightarrow> string \<Rightarrow> 's wrapper \<Rightarrow> int \<times> 's wrapper" where
  "rocks_init E path w =
     (if rw_is_init w then (0, w)
      else case open_db E path (w \<lparr> rw_path := path \<rparr>) of (ok, w) \<Rightarrow>
        if \<not> ok then (-1, w)
        else case ensure_cfs E [(LogOpt, RAFT_LOG_CF), (DataOpt, DATA_CF), (MetaOpt, METAINFO_CF),
                                (BinlogOpt, BIN_LOG_CF)] w of (ok, w) \<Rightarrow>
          if \<not> ok then (-1, w) else (0, w \<lparr> rw_is_init := True \<rparr>))"

subsection \<open>Column families\<close>

definition get_handle :: "string \<Rightarrow> 's wrapper \<Rightarrow> handle option" where
  "get_handle n w = (if \<not> rw_is_init w then None else rw_cfs w n)"

definition get_raft_log_handle :: "'s wrapper \<Rightarrow> handle option" where
  "get_raft_log_handle w = get_handle RAFT_LOG_CF w"
definition get_bin_log_handle :: "'s wrapper \<Rightarrow> handle option" where
  "get_bin_log_handle w = get_handle BIN_LOG_CF w"
definition get_data_handle :: "'s wrapper \<Rightarrow> handle option" where
  "get_data_handle w = get_handle DATA_CF w"
definition get_meta_info_handle :: "'s wrapper \<Rightarrow> handle option" where
  "get_meta_info_handle w = get_handle METAINFO_CF w"

text \<open>\<open>using_db\<close> dereferences \<open>_txn_db\<close>.\<close>

definition using_db :: "'s wrapper \<Rightarrow> 'a \<Rightarrow> 'a res" where
  "using_db w x = (if rw_open w then Inr x else Inl MemFault)"

definition create_column_family ::
    "('s, 'c) engine \<Rightarrow> string \<Rightarrow> 's wrapper \<Rightarrow> (int \<times> 's wrapper) res" where
  "create_column_family E n w =
     (if rw_cfs w n \<noteq> None then Inr (-1, w)
      else using_db w
        (case e_create_cf E (rw_db w) DataOpt n of (c, h, s) \<Rightarrow>
           if c = 0 then (0, w \<lparr> rw_db := s, rw_cfs := (rw_cfs w)(n \<mapsto> h) \<rparr>)
           else (-1, w \<lparr> rw_db := s \<rparr>)))"

definition delete_column_family ::
    "('s, 'c) engine \<Rightarrow> string \<Rightarrow> 's wrapper \<Rightarrow> (int \<times> 's wrapper) res" where
  "delete_column_family E n w =
     (case rw_cfs w n of
        None \<Rightarrow> Inr (-1, w)
      | Some h \<Rightarrow> using_db w
          (case e_drop_cf E (rw_db w) h of (c, s) \<Rightarrow>
             if c \<noteq> 0 then (-1, w \<lparr> rw_db := s \<rparr>)
             else case e_destroy_cf E s h of (c, s) \<Rightarrow>
               if c \<noteq> 0 then (-1, w \<lparr> rw_db := s \<rparr>)
               else (0, w \<lparr> rw_db := s, rw_cfs := (rw_cfs w)(n := None) \<rparr>)))"

subsection \<open>Data\<close>

definition set_db :: "'s wrapper \<Rightarrow> int \<times> 's \<Rightarrow> int \<times> 's wrapper" where
  "set_db w r = (fst r, w \<lparr> rw_db := snd r \<rparr>)"

definition rocks_put ::
    "('s, 'c) engine \<Rightarrow> 's wrapper \<Rightarrow> handle option \<Rightarrow> bytes \<Rightarrow> bytes \<Rightarrow> (int \<times> 's wrapper) res" where
  "rocks_put E w h k v = using_db w (set_db w (e_put E (rw_db w) h k v))"

definition rocks_remove ::
    "('s, 'c) engine \<Rightarrow> 's wrapper \<Rightarrow> handle option \<Rightarrow> bytes \<Rightarrow> (int \<times> 's wrapper) res" where
  "rocks_remove E w h k = using_db w (set_db w (e_delete E (rw_db w) h k))"

definition rocks_write :: "('s, 'c) engine \<Rightarrow> 's wrapper \<Rightarrow> batch \<Rightarrow> (int \<times> 's wrapper) res" where
  "rocks_write E w b = using_db w (set_db w (e_write E (rw_db w) b))"

text \<open>
  The overload on two vectors reads \<open>values[i]\<close> for every key, and ignores the status of
  \<open>WriteBatch::Put\<close>.
\<close>

fun batch_pairs ::
    "('s, 'c) engine \<Rightarrow> handle option \<Rightarrow> bytes list \<Rightarrow> bytes list \<Rightarrow> batch \<Rightarrow> batch res" where
  "batch_pairs E h [] vs b = Inr b"
| "batch_pairs E h (k # ks) [] b = Inl MemFault"
| "batch_pairs E h (k # ks) (v # vs) b =
     batch_pairs E h ks vs (if e_batch_put E b h k v = 0 then b @ [(h, BatchPut k v)] else b)"

definition rocks_write_pairs ::
    "('s, 'c) engine \<Rightarrow> 's wrapper \<Rightarrow> handle option \<Rightarrow> bytes list \<Rightarrow> bytes list \<Rightarrow>
     (int \<times> 's wrapper) res" where
  "rocks_write_pairs E w h ks vs = rbind (batch_pairs E h ks vs []) (rocks_write E w)"

definition rocks_get ::
    "('s, 'c) engine \<Rightarrow> 's wrapper \<Rightarrow> handle option \<Rightarrow> bytes \<Rightarrow> (int \<times> bytes) res" where
  "rocks_get E w h k = using_db w (e_get E (rw_db w) h k)"

text \<open>Whether \<open>column_family->GetID() == cf->GetID()\<close>, after \<open>cf\<close> was seen not to be null.\<close>

definition same_cf ::
    "('s, 'c) engine \<Rightarrow> 's wrapper \<Rightarrow> handle option \<Rightarrow> handle option \<Rightarrow> bool res" where
  "same_cf E w h cf =
     (case cf of None \<Rightarrow> Inr False
      | Some r \<Rightarrow> (case h of None \<Rightarrow> Inl MemFault
                   | Some a \<Rightarrow> Inr (e_cf_id E (rw_db w) a = e_cf_id E (rw_db w) r)))"

definition count_removes :: "('s, 'c) engine \<Rightarrow> 's wrapper \<Rightarrow> handle option \<Rightarrow> 's wrapper res" where
  "count_removes E w h =
     rbind (same_cf E w h (get_raft_log_handle w)) (\<lambda>r.
       if r then Inr (w \<lparr> rw_raft_removes := rw_raft_removes w + 1 \<rparr>)
       else rbind (same_cf E w h (get_data_handle w)) (\<lambda>d.
         if d then Inr (w \<lparr> rw_data_removes := rw_data_removes w + 1 \<rparr>)
         else rbind (same_cf E w h (get_meta_info_handle w)) (\<lambda>m.
           if m then Inr (w \<lparr> rw_meta_removes := rw_meta_removes w + 1 \<rparr>)
           else Inr w)))"

definition rocks_remove_range ::
    "('s, 'c) engine \<Rightarrow> 's wrapper \<Rightarrow> handle option \<Rightarrow> bytes \<Rightarrow> bytes \<Rightarrow> bool \<Rightarrow>
     (int \<times> 's wrapper) res" where
  "rocks_remove_range E w h b e files =
     rbind (count_removes E w h) (\<lambda>w.
       using_db w
         (case (if files then e_delete_files E (rw_db w) h b e else (0, rw_db w)) of (c, s) \<Rightarrow>
            if c \<noteq> 0 then (c, w \<lparr> rw_db := s \<rparr>)
            else set_db w (e_delete_range E s h b e)))"

definition rocks_iterator ::
    "('s, 'c) engine \<Rightarrow> 's wrapper \<Rightarrow> handle option \<Rightarrow> 'c res" where
  "rocks_iterator E w h = using_db w (e_iter E (rw_db w) h False)"

definition rocks_iterator_named ::
    "('s, 'c) engine \<Rightarrow> 's wrapper \<Rightarrow> string \<Rightarrow> 'c option res" where
  "rocks_iterator_named E w cf =
     (case rw_cfs w cf of None \<Rightarrow> Inr None
      | Some h \<Rightarrow> using_db w (Some (e_iter E (rw_db w) (Some h) False)))"

definition seek_for_prev ::
    "('s, 'c) engine \<Rightarrow> 's wrapper \<Rightarrow> handle option \<Rightarrow> bytes \<Rightarrow> bool \<Rightarrow> 'c res" where
  "seek_for_prev E w h k asprefix = using_db w (e_seek_prev E (e_iter E (rw_db w) h asprefix) k)"

definition seek_for_next ::
    "('s, 'c) engine \<Rightarrow> 's wrapper \<Rightarrow> handle option \<Rightarrow> bytes \<Rightarrow> bool \<Rightarrow> 'c res" where
  "seek_for_next E w h k asprefix = using_db w (e_seek E (e_iter E (rw_db w) h asprefix) k)"

definition rocks_close :: "'s wrapper \<Rightarrow> 's wrapper" where
  "rocks_close w = w \<lparr> rw_open := False \<rparr>"

definition is_any_stall :: "('s, 'c) engine \<Rightarrow> 's wrapper \<Rightarrow> bool res" where
  "is_any_stall E w = using_db w
     (let v = (case e_int_property E (rw_db w) ''rocksdb.actual-delayed-write-rate'' of
                 None \<Rightarrow> 0 | Some v \<Rightarrow> v)
      in if v > 0 then True
         else let v = (case e_int_property E (rw_db w) ''rocksdb.is-write-stopped'' of
                         None \<Rightarrow> v | Some v \<Rightarrow> v)
              in v > 0)"

definition set_flush_file_number :: "'s wrapper \<Rightarrow> string \<Rightarrow> u64 \<Rightarrow> 's wrapper" where
  "set_flush_file_number w cf n = (if cf = DATA_CF then w \<lparr> rw_flush_file_number := n \<rparr> else w)"

section \<open>What RocksDB promises\<close>

text \<open>
  The data of a column family: its items in strictly increasing order of their keys, which are
  compared as byte strings. A cursor sees the items of the moment it was made; \<open>snd (cview c)\<close> are
  those from its position on.
\<close>

fun batch_op_items :: "batch_op \<Rightarrow> item list \<Rightarrow> item list" where
  "batch_op_items (BatchPut k v) its = put_item (k, v) its"
| "batch_op_items (BatchDelete k) its = delete_item k its"

fun batch_items :: "batch \<Rightarrow> (handle \<Rightarrow> item list) \<Rightarrow> handle \<Rightarrow> item list" where
  "batch_items [] f = f"
| "batch_items ((None, x) # b) f = batch_items b f"
| "batch_items ((Some h, x) # b) f = batch_items b (f(h := batch_op_items x (f h)))"

definition seek_prev_items :: "bytes \<Rightarrow> item list \<Rightarrow> item list" where
  "seek_prev_items k its =
     (case filter (\<lambda>y. fst y \<le> k) its of [] \<Rightarrow> []
      | ys \<Rightarrow> last ys # filter (\<lambda>y. k < fst y) its)"

text \<open>A write that reports success has the effect; nothing is assumed of one that does not.\<close>

definition writes_ok :: "('s, 'c) engine \<Rightarrow> ('s \<Rightarrow> handle \<Rightarrow> item list) \<Rightarrow> bool" where
  "writes_ok E items \<longleftrightarrow>
     (\<forall>s h. ordered_items (items s h)) \<and>
     (\<forall>s h k v s'. e_put E s (Some h) k v = (0, s') \<longrightarrow>
        items s' = (items s)(h := put_item (k, v) (items s h))) \<and>
     (\<forall>s h k s'. e_delete E s (Some h) k = (0, s') \<longrightarrow>
        items s' = (items s)(h := delete_item k (items s h))) \<and>
     (\<forall>s h b e s'. e_delete_range E s (Some h) b e = (0, s') \<longrightarrow>
        items s' = (items s)(h := delete_items b e (items s h))) \<and>
     (\<forall>s b s'. (\<forall>x \<in> set b. fst x \<noteq> None) \<longrightarrow> e_write E s b = (0, s') \<longrightarrow>
        items s' = batch_items b (items s))"

text \<open>
  \<open>Valid()\<close> is true exactly at an item, and \<open>status()\<close> is not OK only where an input or output error
  ended the iteration, in which case \<open>Valid()\<close> is false. The promises are those for iterators over the
  whole key order; nothing is assumed of one that was opened with \<open>prefix_same_as_start\<close>.
\<close>

inductive total_cursor :: "('s, 'c) engine \<Rightarrow> 'c \<Rightarrow> bool" for E where
  total_iter [intro]: "total_cursor E (e_iter E s (Some h) False)"
| total_seek [intro]: "total_cursor E c \<Longrightarrow> total_cursor E (e_seek E c k)"
| total_seek_prev [intro]: "total_cursor E c \<Longrightarrow> total_cursor E (e_seek_prev E c k)"
| total_first [intro]: "total_cursor E c \<Longrightarrow> total_cursor E (e_first E c)"
| total_last [intro]: "total_cursor E c \<Longrightarrow> total_cursor E (e_last E c)"
| total_next [intro]: "total_cursor E c \<Longrightarrow> e_valid E c \<Longrightarrow> total_cursor E (e_next E c)"

definition cursors_ok ::
    "('s, 'c) engine \<Rightarrow> ('s \<Rightarrow> handle \<Rightarrow> item list) \<Rightarrow> ('c \<Rightarrow> item list \<times> item list) \<Rightarrow> bool" where
  "cursors_ok E items cview \<longleftrightarrow>
     (\<forall>s h. fst (cview (e_iter E s (Some h) False)) = items s h) \<and>
     (\<forall>c. total_cursor E c \<longrightarrow>
        (\<forall>k. cview (e_seek E c k) = (fst (cview c), filter (\<lambda>y. k \<le> fst y) (fst (cview c)))) \<and>
        (\<forall>k. cview (e_seek_prev E c k) = (fst (cview c), seek_prev_items k (fst (cview c)))) \<and>
        cview (e_first E c) = (fst (cview c), fst (cview c)) \<and>
        cview (e_last E c) =
          (fst (cview c), if fst (cview c) = [] then [] else [last (fst (cview c))]) \<and>
        (e_valid E c \<longrightarrow> cview (e_next E c) = (fst (cview c), tl (snd (cview c)))) \<and>
        (e_valid E c \<longleftrightarrow> snd (cview c) \<noteq> [] \<and> e_status E c = 0) \<and>
        (e_valid E c \<longrightarrow> (e_key E c, e_value E c) = hd (snd (cview c))))"

text \<open>No input or output error is met by a cursor or a lookup; 1 is the code of a key that is not there.\<close>

definition no_read_errors :: "('s, 'c) engine \<Rightarrow> bool" where
  "no_read_errors E \<longleftrightarrow> (\<forall>c. e_status E c = 0) \<and> (\<forall>s h k. fst (e_get E s (Some h) k) \<in> {0, 1})"

text \<open>
  In a family with a prefix extractor an iterator that was opened without \<open>total_order_seek\<close> promises
  less: it sees a key that is there when it is sought, whatever is at a cursor is an item of the
  family, and cursors do not move backwards on \<open>Seek\<close> and \<open>Next\<close> or forwards on \<open>SeekForPrev\<close> and \<open>Prev\<close>.
\<close>

inductive cursor_on :: "('s, 'c) engine \<Rightarrow> 's \<Rightarrow> handle \<Rightarrow> 'c \<Rightarrow> bool" for E s h where
  on_iter [intro]: "cursor_on E s h (e_iter E s (Some h) p)"
| on_seek [intro]: "cursor_on E s h c \<Longrightarrow> cursor_on E s h (e_seek E c k)"
| on_seek_prev [intro]: "cursor_on E s h c \<Longrightarrow> cursor_on E s h (e_seek_prev E c k)"
| on_first [intro]: "cursor_on E s h c \<Longrightarrow> cursor_on E s h (e_first E c)"
| on_last [intro]: "cursor_on E s h c \<Longrightarrow> cursor_on E s h (e_last E c)"
| on_next [intro]: "cursor_on E s h c \<Longrightarrow> e_valid E c \<Longrightarrow> cursor_on E s h (e_next E c)"
| on_prev [intro]: "cursor_on E s h c \<Longrightarrow> e_valid E c \<Longrightarrow> cursor_on E s h (e_prev E c)"

definition gets_ok :: "('s, 'c) engine \<Rightarrow> ('s \<Rightarrow> handle \<Rightarrow> item list) \<Rightarrow> bool" where
  "gets_ok E items \<longleftrightarrow>
     (\<forall>s h k v. e_get E s (Some h) k = (0, v) \<longrightarrow> (k, v) \<in> set (items s h)) \<and>
     (\<forall>s h k. fst (e_get E s (Some h) k) = 1 \<longrightarrow> k \<notin> fst ` set (items s h))"

definition seeks_ok :: "('s, 'c) engine \<Rightarrow> ('s \<Rightarrow> handle \<Rightarrow> item list) \<Rightarrow> bool" where
  "seeks_ok E items \<longleftrightarrow>
     (\<forall>s h p k c. c = e_seek E (e_iter E s (Some h) p) k \<longrightarrow> e_status E c = 0 \<longrightarrow>
        k \<in> fst ` set (items s h) \<longrightarrow> e_valid E c \<and> e_key E c = k)"

definition moves_ok :: "('s, 'c) engine \<Rightarrow> ('s \<Rightarrow> handle \<Rightarrow> item list) \<Rightarrow> bool" where
  "moves_ok E items \<longleftrightarrow>
     (\<forall>s h c. cursor_on E s h c \<longrightarrow>
        (e_valid E c \<longrightarrow> (e_key E c, e_value E c) \<in> set (items s h)) \<and>
        (\<forall>k. e_valid E (e_seek E c k) \<longrightarrow> k \<le> e_key E (e_seek E c k)) \<and>
        (\<forall>k. e_valid E (e_seek_prev E c k) \<longrightarrow> e_key E (e_seek_prev E c k) \<le> k) \<and>
        (e_valid E c \<longrightarrow> e_valid E (e_next E c) \<longrightarrow> e_key E c < e_key E (e_next E c)) \<and>
        (e_valid E c \<longrightarrow> e_valid E (e_prev E c) \<longrightarrow> e_key E (e_prev E c) < e_key E c))"

definition lookups_ok :: "('s, 'c) engine \<Rightarrow> ('s \<Rightarrow> handle \<Rightarrow> item list) \<Rightarrow> bool" where
  "lookups_ok E items \<longleftrightarrow> gets_ok E items \<and> seeks_ok E items \<and> moves_ok E items"

subsection \<open>An engine that keeps the promises\<close>

text \<open>
  Column families in a list, the handle of one being its position; \<open>sort_items\<close> reads any list of
  items as the data of a family, so that every value of the type is a state.
\<close>

definition sort_items :: "item list \<Rightarrow> item list" where
  "sort_items its = foldr put_item its []"

type_synonym mem_db = "(string \<times> item list) list"

definition mem_items :: "mem_db \<Rightarrow> handle \<Rightarrow> item list" where
  "mem_items s h = (if h < length s then sort_items (snd (s ! h)) else [])"

definition mem_set :: "mem_db \<Rightarrow> handle option \<Rightarrow> (item list \<Rightarrow> item list) \<Rightarrow> int \<times> mem_db" where
  "mem_set s h f =
     (case h of None \<Rightarrow> (4, s)
      | Some h \<Rightarrow> if h < length s then (0, s[h := (fst (s ! h), f (mem_items s h))]) else (4, s))"

fun mem_batch :: "batch \<Rightarrow> mem_db \<Rightarrow> mem_db option" where
  "mem_batch [] s = Some s"
| "mem_batch ((h, x) # b) s =
     (case mem_set s h (batch_op_items x) of (c, s) \<Rightarrow> if c = 0 then mem_batch b s else None)"

definition mem_prev :: "item list \<Rightarrow> item list \<Rightarrow> item list" where
  "mem_prev its rest =
     (let ys = filter (\<lambda>y. rest \<noteq> [] \<and> fst y < fst (hd rest)) its in if ys = [] then [] else last ys # rest)"

definition mem_engine :: "(mem_db, item list \<times> item list) engine" where
  "mem_engine = \<lparr>
     e_list_cfs = (\<lambda>s p. if s = [] then (5, []) else (0, map fst s)),
     e_open_cfs = (\<lambda>s p ns. (0, [0..<length s], s)),
     e_open = (\<lambda>s p. (0, [(''default'', [])])),
     e_create_cf = (\<lambda>s opt n. (0, length s, s @ [(n, [])])),
     e_drop_cf = (\<lambda>s h. (0, s)),
     e_destroy_cf = (\<lambda>s h. (0, s)),
     e_cf_name = (\<lambda>s h. if h < length s then fst (s ! h) else []),
     e_cf_id = (\<lambda>s h. of_nat h),
     e_put = (\<lambda>s h k v. mem_set s h (put_item (k, v))),
     e_delete = (\<lambda>s h k. mem_set s h (delete_item k)),
     e_delete_range = (\<lambda>s h b e. mem_set s h (delete_items b e)),
     e_delete_files = (\<lambda>s h b e. (0, s)),
     e_batch_put = (\<lambda>b h k v. if h = None then 4 else 0),
     e_batch_delete = (\<lambda>b h k. if h = None then 4 else 0),
     e_write = (\<lambda>s b. case mem_batch b s of None \<Rightarrow> (4, s) | Some s \<Rightarrow> (0, s)),
     e_get = (\<lambda>s h k. case h of None \<Rightarrow> (4, [])
                       | Some h \<Rightarrow> (case map_of (mem_items s h) k of
                                     None \<Rightarrow> (1, []) | Some v \<Rightarrow> (0, v))),
     e_iter = (\<lambda>s h p. case h of None \<Rightarrow> ([], []) | Some h \<Rightarrow> (mem_items s h, [])),
     e_seek = (\<lambda>c k. (fst c, filter (\<lambda>y. k \<le> fst y) (fst c))),
     e_seek_prev = (\<lambda>c k. (fst c, seek_prev_items k (fst c))),
     e_first = (\<lambda>c. (fst c, fst c)),
     e_last = (\<lambda>c. (fst c, if fst c = [] then [] else [last (fst c)])),
     e_next = (\<lambda>c. (fst c, tl (snd c))),
     e_prev = (\<lambda>c. (fst c, mem_prev (fst c) (snd c))),
     e_valid = (\<lambda>c. snd c \<noteq> []),
     e_key = (\<lambda>c. fst (hd (snd c))),
     e_value = (\<lambda>c. snd (hd (snd c))),
     e_status = (\<lambda>c. 0),
     e_int_property = (\<lambda>s n. Some 0) \<rparr>"

lemma mem_engine_simps:
  "e_list_cfs mem_engine = (\<lambda>s p. if s = [] then (5, []) else (0, map fst s))"
  "e_open_cfs mem_engine = (\<lambda>s p ns. (0, [0..<length s], s))"
  "e_open mem_engine = (\<lambda>s p. (0, [(''default'', [])]))"
  "e_create_cf mem_engine = (\<lambda>s opt n. (0, length s, s @ [(n, [])]))"
  "e_drop_cf mem_engine = (\<lambda>s h. (0, s))"
  "e_destroy_cf mem_engine = (\<lambda>s h. (0, s))"
  "e_cf_name mem_engine = (\<lambda>s h. if h < length s then fst (s ! h) else [])"
  "e_cf_id mem_engine = (\<lambda>s h. of_nat h)"
  "e_put mem_engine = (\<lambda>s h k v. mem_set s h (put_item (k, v)))"
  "e_delete mem_engine = (\<lambda>s h k. mem_set s h (delete_item k))"
  "e_delete_range mem_engine = (\<lambda>s h b e. mem_set s h (delete_items b e))"
  "e_delete_files mem_engine = (\<lambda>s h b e. (0, s))"
  "e_batch_put mem_engine = (\<lambda>b h k v. if h = None then 4 else 0)"
  "e_batch_delete mem_engine = (\<lambda>b h k. if h = None then 4 else 0)"
  "e_write mem_engine = (\<lambda>s b. case mem_batch b s of None \<Rightarrow> (4, s) | Some s \<Rightarrow> (0, s))"
  "e_get mem_engine = (\<lambda>s h k. case h of None \<Rightarrow> (4, [])
                       | Some h \<Rightarrow> (case map_of (mem_items s h) k of
                                     None \<Rightarrow> (1, []) | Some v \<Rightarrow> (0, v)))"
  "e_iter mem_engine = (\<lambda>s h p. case h of None \<Rightarrow> ([], []) | Some h \<Rightarrow> (mem_items s h, []))"
  "e_seek mem_engine = (\<lambda>c k. (fst c, filter (\<lambda>y. k \<le> fst y) (fst c)))"
  "e_seek_prev mem_engine = (\<lambda>c k. (fst c, seek_prev_items k (fst c)))"
  "e_first mem_engine = (\<lambda>c. (fst c, fst c))"
  "e_last mem_engine = (\<lambda>c. (fst c, if fst c = [] then [] else [last (fst c)]))"
  "e_next mem_engine = (\<lambda>c. (fst c, tl (snd c)))"
  "e_prev mem_engine = (\<lambda>c. (fst c, mem_prev (fst c) (snd c)))"
  "e_valid mem_engine = (\<lambda>c. snd c \<noteq> [])"
  "e_key mem_engine = (\<lambda>c. fst (hd (snd c)))"
  "e_value mem_engine = (\<lambda>c. snd (hd (snd c)))"
  "e_status mem_engine = (\<lambda>c. 0)"
  "e_int_property mem_engine = (\<lambda>s n. Some 0)"
  by (simp_all add: mem_engine_def)

section \<open>Lemmas\<close>

lemma sort_items_ordered: "ordered_items (sort_items its)"
  unfolding sort_items_def by (induction its) (auto intro: ordered_put)

lemma sort_items_id: "ordered_items its \<Longrightarrow> sort_items its = its"
  unfolding sort_items_def by (induction its) (auto simp: put_item_first)

lemma mem_set_items:
  assumes "mem_set s (Some h) f = (0, s')" "\<And>its. ordered_items its \<Longrightarrow> ordered_items (f its)"
  shows "mem_items s' = (mem_items s)(h := f (mem_items s h))"
  using assms unfolding mem_set_def
  by (auto simp: mem_items_def sort_items_id sort_items_ordered nth_list_update fun_eq_iff split: if_splits)

lemma ordered_batch_op: "ordered_items its \<Longrightarrow> ordered_items (batch_op_items x its)"
  by (cases x) (simp_all add: ordered_put ordered_delete)

lemma mem_batch_items:
  "mem_batch b s = Some s' \<Longrightarrow> mem_items s' = batch_items b (mem_items s)"
proof (induction b arbitrary: s)
  case (Cons x b)
  obtain h y where x: "x = (h, y)" by (metis surj_pair)
  obtain c t where t: "mem_set s h (batch_op_items y) = (c, t)" by (metis surj_pair)
  with Cons.prems x have c: "c = 0" "mem_batch b t = Some s'"
    by (auto split: if_splits)
  then obtain k where h: "h = Some k"
    using t unfolding mem_set_def by (cases h) auto
  have "mem_items t = (mem_items s)(k := batch_op_items y (mem_items s k))"
    using mem_set_items [of s k "batch_op_items y" t] t c(1) h ordered_batch_op by simp
  then show ?case using Cons.IH [OF c(2)] x h by (simp add: fun_upd_def)
qed simp

lemma mem_engine_writes: "writes_ok mem_engine mem_items"
  unfolding writes_ok_def
  by (auto simp: mem_engine_def mem_items_def [of _ h for h] sort_items_ordered
      split: option.splits dest!: mem_batch_items)
    (auto simp: mem_set_items ordered_put ordered_delete mem_items_def)

lemma mem_engine_cursors: "cursors_ok mem_engine mem_items id"
  by (auto simp: cursors_ok_def mem_engine_def)

lemma mem_engine_reads: "no_read_errors mem_engine"
  by (auto simp: no_read_errors_def mem_engine_def split: option.splits)

lemma last_in_filter: "filter P xs \<noteq> [] \<Longrightarrow> P (last (filter P xs)) \<and> last (filter P xs) \<in> set xs"
  using last_in_set [of "filter P xs"] by auto

lemma mem_cursor_on:
  assumes "cursor_on mem_engine s h c"
  shows "fst c = mem_items s h \<and> ordered_items (snd c) \<and> set (snd c) \<subseteq> set (mem_items s h)"
  using assms
proof induction
  case (on_seek_prev c k)
  have "ordered_items (mem_items s h)" by (simp add: mem_items_def sort_items_ordered)
  moreover have "last ys \<in> set (mem_items s h) \<and> fst (last ys) \<le> k"
    if "filter (\<lambda>y. fst y \<le> k) (mem_items s h) = ys" "ys \<noteq> []" for ys
    using that last_in_filter [of "\<lambda>y. fst y \<le> k" "mem_items s h"] by simp
  ultimately show ?case using on_seek_prev
    by (auto simp: mem_engine_simps seek_prev_items_def ordered_filter split: list.splits)
next
  case (on_prev c)
  define ys where "ys = filter (\<lambda>y. snd c \<noteq> [] \<and> fst y < fst (hd (snd c))) (mem_items s h)"
  have "last ys \<in> set (mem_items s h) \<and> (\<forall>y \<in> set (snd c). fst (last ys) < fst y)" if "ys \<noteq> []"
  proof -
    have "last ys \<in> set ys" using that by simp
    then show ?thesis using on_prev by (cases "snd c") (auto simp: ys_def)
  qed
  moreover have "e_prev mem_engine c = (fst c, if ys = [] then [] else last ys # snd c)"
    using on_prev by (simp add: mem_engine_simps mem_prev_def ys_def Let_def)
  ultimately show ?case using on_prev by simp
next
  case (on_next c)
  then show ?case by (cases "snd c") (auto simp: mem_engine_simps)
qed (auto simp: mem_engine_simps mem_items_def sort_items_ordered ordered_filter)

lemma mem_engine_gets: "gets_ok mem_engine mem_items"
  unfolding gets_ok_def mem_engine_simps
  by (auto dest: map_of_SomeD simp: map_of_eq_None_iff [symmetric] split: option.splits)

lemma filter_from_key:
  "ordered_items its \<Longrightarrow> k \<in> fst ` set its \<Longrightarrow> filter (\<lambda>y. k \<le> fst y) its \<noteq> [] \<and> fst (hd (filter (\<lambda>y. k \<le> fst y) its)) = k"
  by (induction its) auto

lemma mem_engine_seeks: "seeks_ok mem_engine mem_items"
  using filter_from_key [of "mem_items s h" for s h]
  by (simp add: seeks_ok_def mem_engine_simps mem_items_def sort_items_ordered)

lemma mem_engine_moves: "moves_ok mem_engine mem_items"
  unfolding moves_ok_def
proof (intro allI impI conjI)
  fix s h c k
  assume c: "cursor_on mem_engine s h c"
  note inv = mem_cursor_on [OF c]
  show "(e_key mem_engine c, e_value mem_engine c) \<in> set (mem_items s h)" if "e_valid mem_engine c"
    using inv that by (cases "snd c") (auto simp: mem_engine_simps)
  show "k \<le> e_key mem_engine (e_seek mem_engine c k)" if "e_valid mem_engine (e_seek mem_engine c k)"
    using that hd_in_set [of "filter (\<lambda>y. k \<le> fst y) (fst c)"] by (simp add: mem_engine_simps)
  show "e_key mem_engine (e_seek_prev mem_engine c k) \<le> k" if "e_valid mem_engine (e_seek_prev mem_engine c k)"
    using that last_in_filter [of "\<lambda>y. fst y \<le> k" "fst c"]
    by (cases "filter (\<lambda>y. fst y \<le> k) (fst c)") (simp_all add: mem_engine_simps seek_prev_items_def del: last.simps)
  show "e_key mem_engine c < e_key mem_engine (e_next mem_engine c)"
    if "e_valid mem_engine c" "e_valid mem_engine (e_next mem_engine c)"
    using inv that by (cases "snd c"; cases "tl (snd c)") (simp_all add: mem_engine_simps)
  let ?f = "filter (\<lambda>y. snd c \<noteq> [] \<and> fst y < fst (hd (snd c))) (fst c)"
  show "e_key mem_engine (e_prev mem_engine c) < e_key mem_engine c"
    if "e_valid mem_engine c" "e_valid mem_engine (e_prev mem_engine c)"
    using that last_in_filter [of "\<lambda>y. snd c \<noteq> [] \<and> fst y < fst (hd (snd c))" "fst c"]
    by (auto simp: mem_engine_simps mem_prev_def Let_def split: if_splits)
qed

lemma mem_engine_lookups: "lookups_ok mem_engine mem_items"
  by (simp add: lookups_ok_def mem_engine_gets mem_engine_seeks mem_engine_moves)

subsection \<open>Writes and cursors of the wrapper\<close>

lemma using_db_eq [simp]: "using_db w x = Inr y \<longleftrightarrow> rw_open w \<and> x = y"
  by (simp add: using_db_def)

lemma using_db_open: "rw_open w \<Longrightarrow> using_db w x = Inr x"
  by (simp add: using_db_def)

lemma set_db_eq: "set_db w r = (c, w') \<longleftrightarrow> c = fst r \<and> w' = w \<lparr> rw_db := snd r \<rparr>"
  by (auto simp: set_db_def)

lemma writes_okD:
  assumes "writes_ok E items"
  shows "ordered_items (items s h)"
    "e_put E s (Some h) k v = (0, s') \<Longrightarrow> items s' = (items s)(h := put_item (k, v) (items s h))"
    "e_delete E s (Some h) k = (0, s') \<Longrightarrow> items s' = (items s)(h := delete_item k (items s h))"
    "e_delete_range E s (Some h) b e = (0, s') \<Longrightarrow>
       items s' = (items s)(h := delete_items b e (items s h))"
    "(\<forall>x \<in> set bt. fst x \<noteq> None) \<Longrightarrow> e_write E s bt = (0, s') \<Longrightarrow> items s' = batch_items bt (items s)"
  using assms unfolding writes_ok_def by blast+

lemma cursors_okD:
  assumes "cursors_ok E items cview"
  shows "fst (cview (e_iter E s (Some h) False)) = items s h"
    "total_cursor E c \<Longrightarrow>
       cview (e_seek E c k) = (fst (cview c), filter (\<lambda>y. k \<le> fst y) (fst (cview c)))"
    "total_cursor E c \<Longrightarrow> cview (e_seek_prev E c k) = (fst (cview c), seek_prev_items k (fst (cview c)))"
    "total_cursor E c \<Longrightarrow> cview (e_first E c) = (fst (cview c), fst (cview c))"
    "total_cursor E c \<Longrightarrow> cview (e_last E c) =
       (fst (cview c), if fst (cview c) = [] then [] else [last (fst (cview c))])"
    "total_cursor E c \<Longrightarrow> e_valid E c \<Longrightarrow> cview (e_next E c) = (fst (cview c), tl (snd (cview c)))"
    "total_cursor E c \<Longrightarrow> e_valid E c \<longleftrightarrow> snd (cview c) \<noteq> [] \<and> e_status E c = 0"
    "total_cursor E c \<Longrightarrow> e_valid E c \<Longrightarrow> e_key E c = fst (hd (snd (cview c)))"
    "total_cursor E c \<Longrightarrow> e_valid E c \<Longrightarrow> e_value E c = snd (hd (snd (cview c)))"
  using assms unfolding cursors_ok_def by (simp_all add: prod_eq_iff)

lemma gets_okD:
  assumes "lookups_ok E items"
  shows "e_get E s (Some h) k = (0, v) \<Longrightarrow> (k, v) \<in> set (items s h)"
    "fst (e_get E s (Some h) k) = 1 \<Longrightarrow> k \<notin> fst ` set (items s h)"
  using assms by (simp_all add: lookups_ok_def gets_ok_def)

lemma seeks_okD:
  assumes "lookups_ok E items" "k \<in> fst ` set (items s h)" "e_status E (e_seek E (e_iter E s (Some h) p) k) = 0"
  shows "e_valid E (e_seek E (e_iter E s (Some h) p) k)" "e_key E (e_seek E (e_iter E s (Some h) p) k) = k"
  using assms by (simp_all add: lookups_ok_def seeks_ok_def)

lemma moves_okD:
  assumes "lookups_ok E items" "cursor_on E s h c"
  shows "e_valid E c \<Longrightarrow> (e_key E c, e_value E c) \<in> set (items s h)"
    "e_valid E (e_seek E c k) \<Longrightarrow> k \<le> e_key E (e_seek E c k)"
    "e_valid E (e_seek_prev E c k) \<Longrightarrow> e_key E (e_seek_prev E c k) \<le> k"
    "e_valid E c \<Longrightarrow> e_valid E (e_next E c) \<Longrightarrow> e_key E c < e_key E (e_next E c)"
    "e_valid E c \<Longrightarrow> e_valid E (e_prev E c) \<Longrightarrow> e_key E (e_prev E c) < e_key E c"
  using assms by (simp_all add: lookups_ok_def moves_ok_def)

lemma seek_for_next_view:
  assumes "cursors_ok E items cview" "rw_open w"
  shows "\<exists>c. seek_for_next E w (Some h) k False = Inr c \<and> total_cursor E c \<and>
     snd (cview c) = filter (\<lambda>y. k \<le> fst y) (items (rw_db w) h)"
  using assms by (auto simp: seek_for_next_def using_db_open cursors_okD(1) [OF assms(1)]
      cursors_okD(2) [OF assms(1) total_iter])

subsection \<open>Registration of column families\<close>

lemma register_handles_fields:
  "rw_open (register_handles E hs w) = rw_open w \<and>
   rw_is_init (register_handles E hs w) = rw_is_init w"
  unfolding register_handles_def by (induction hs arbitrary: w) auto

lemma open_db_fields:
  assumes "open_db E path w = (ok, w')"
  shows "rw_is_init w' = rw_is_init w" "ok \<Longrightarrow> rw_open w'"
  using assms register_handles_fields [of E]
  unfolding open_db_def by (auto split: prod.splits if_splits)

lemma ensure_cf_fields:
  assumes "ensure_cf E opt n w = (ok, w')"
  shows "rw_open w' = rw_open w" "rw_is_init w' = rw_is_init w"
    "ok \<Longrightarrow> dom (rw_cfs w') = insert n (dom (rw_cfs w))"
  using assms unfolding ensure_cf_def by (auto split: if_splits prod.splits)

lemma ensure_cfs_fields:
  assumes "ensure_cfs E ns w = (ok, w')"
  shows "rw_open w' = rw_open w \<and> rw_is_init w' = rw_is_init w \<and>
    (ok \<longrightarrow> dom (rw_cfs w') = snd ` set ns \<union> dom (rw_cfs w))"
proof -
  let ?f = "\<lambda>(opt, n) (ok, w). if ok then ensure_cf E opt n w else (ok, w)"
  have stop: "fold ?f ns (False, w) = (False, w)" for ns w by (induction ns) auto
  have "rw_open w' = rw_open w \<and> rw_is_init w' = rw_is_init w \<and>
      (ok \<longrightarrow> dom (rw_cfs w') = snd ` set ns \<union> dom (rw_cfs w))"
    if "fold ?f ns (True, w) = (ok, w')" for w
    using that
  proof (induction ns arbitrary: w)
    case (Cons x ns)
    obtain b u where u: "ensure_cf E (fst x) (snd x) w = (b, u)" by fastforce
    note f = ensure_cf_fields [OF u]
    show ?case
    proof (cases b)
      case True
      then show ?thesis using Cons.IH [of u] Cons.prems u f by (auto simp: case_prod_beta)
    next
      case False
      then show ?thesis using Cons.prems u f by (simp add: case_prod_beta stop [unfolded case_prod_beta])
    qed
  qed simp
  then show ?thesis using assms unfolding ensure_cfs_def by blast
qed

section \<open>Properties\<close>

text \<open>
  \<open>init\<close> has three outcomes, whatever RocksDB answers to its calls: an instance that was
  initialised is left as it is; or init returns 0, the database is open and the four column families
  of the program have handles, created where the directory did not have them; or it returns -1 and
  no handle can be had.
\<close>

theorem rocks_init_families:
  "(rw_is_init w \<and> rocks_init E path w = (0, w)) \<or>
   (\<exists>w'. \<not> rw_is_init w \<and> rocks_init E path w = (0, w') \<and> rw_is_init w' \<and> rw_open w' \<and>
      get_raft_log_handle w' \<noteq> None \<and> get_bin_log_handle w' \<noteq> None \<and>
      get_data_handle w' \<noteq> None \<and> get_meta_info_handle w' \<noteq> None) \<or>
   (\<exists>w'. \<not> rw_is_init w \<and> rocks_init E path w = (-1, w') \<and> (\<forall>n. get_handle n w' = None))"
proof (cases "rw_is_init w")
  case False
  obtain b u where u: "open_db E path (w \<lparr> rw_path := path \<rparr>) = (b, u)" by fastforce
  let ?ns = "[(LogOpt, RAFT_LOG_CF), (DataOpt, DATA_CF), (MetaOpt, METAINFO_CF), (BinlogOpt, BIN_LOG_CF)]"
  obtain d v where v: "ensure_cfs E ?ns u = (d, v)" by fastforce
  have "\<not> rw_is_init u" using open_db_fields(1) [OF u] False by simp
  moreover have "rw_open u" if b using open_db_fields(2) [OF u] that by simp
  moreover have "rw_cfs v n \<noteq> None" if d "n \<in> snd ` set ?ns" for n
    using ensure_cfs_fields [OF v] that by blast
  ultimately show ?thesis
    using u v False ensure_cfs_fields [OF v]
    by (cases b; cases d)
      (simp_all add: rocks_init_def get_handle_def get_raft_log_handle_def get_bin_log_handle_def
        get_data_handle_def get_meta_info_handle_def)
qed (simp add: rocks_init_def)

text \<open>
  A column family that was created is found under its name with the handle RocksDB gave for it,
  a second creation is refused and changes nothing, and once deleted the name is free again and every
  other name has the handle it had; for the families of the program this is what the
  \<open>get_..._handle\<close> functions return.
\<close>

theorem family_lifecycle:
  assumes "rw_open w" "rw_cfs w n = None"
    and "e_create_cf E (rw_db w) DataOpt n = (0, h, s)"
    and "e_drop_cf E s h = (0, t)" "e_destroy_cf E t h = (0, u)"
  shows "\<exists>w' w''. create_column_family E n w = Inr (0, w') \<and> rw_cfs w' = (rw_cfs w)(n \<mapsto> h) \<and>
     create_column_family E n w' = Inr (-1, w') \<and>
     delete_column_family E n w' = Inr (0, w'') \<and> rw_cfs w'' = rw_cfs w \<and>
     delete_column_family E n w'' = Inr (-1, w'') \<and>
     get_data_handle w'' = get_data_handle w"
  using assms
  by (simp add: create_column_family_def delete_column_family_def using_db_def get_data_handle_def
      get_handle_def fun_upd_idem)

theorem family_lifecycle_witness:
  "\<exists>w' w''. create_column_family mem_engine ''t1''
       (snd (rocks_init mem_engine ''/db'' (wrapper_new []))) = Inr (0, w') \<and>
     rw_cfs w' ''t1'' = Some 5 \<and>
     delete_column_family mem_engine ''t1'' w' = Inr (0, w'') \<and> get_data_handle w'' = Some 2"
proof -
  let ?w = "snd (rocks_init mem_engine ''/db'' (wrapper_new []))"
  have w: "rw_open ?w" "rw_cfs ?w ''t1'' = None" "get_data_handle ?w = Some 2" "length (rw_db ?w) = 5"
    by (simp_all add: rocks_init_def wrapper_new_def open_db_def mem_engine_simps ensure_cfs_def
        ensure_cf_def cf_names get_data_handle_def get_handle_def)
  show ?thesis
    using family_lifecycle [of ?w "''t1''" mem_engine 5 "rw_db ?w @ [(''t1'', [])]"
        "rw_db ?w @ [(''t1'', [])]" "rw_db ?w @ [(''t1'', [])]"] w
    by (simp add: mem_engine_simps) (metis fun_upd_same)
qed

end
