(* ===== verification/Raft_Log_Store.thy ===== *)
theory Raft_Log_Store
  imports Rocks Tuple_Value
begin

text \<open>
  The log store of \<open>db/raft_log_store.h\<close> and \<open>db/raft_log_store.cpp\<close>: a map from 64-bit indices to
  byte strings in the column family \<open>raft_log\<close>. The first section is the code over the storage
  wrapper, with RocksDB and the byte order of the host as parameters; the second relates it to the
  abstract log, a partial function from indices to bytes, under the promises of RocksDB
  (\<open>writes_ok\<close>, \<open>cursors_ok\<close>).
\<close>

section \<open>The code\<close>

definition ERR_NOT_FOUND :: int where "ERR_NOT_FOUND = 101"
definition ERR_INVALID_PARAMS :: int where "ERR_INVALID_PARAMS = 104"

text \<open>The key of an index.\<close>

definition index_key :: "bool \<Rightarrow> u64 \<Rightarrow> bytes res" where
  "index_key big i = rbind (append_u64 big mut_key_new i) key_slice"

text \<open>
  Operations that answer with a status return its code, which is 0 exactly when \<open>ok()\<close> holds. The
  two \<open>put\<close>s differ in where the bytes come from: n bytes at the memory m, or those of a value.
\<close>

definition raft_put_bytes ::
    "('s, 'c) engine \<Rightarrow> bool \<Rightarrow> 's wrapper \<Rightarrow> u64 \<Rightarrow> bytes \<Rightarrow> nat \<Rightarrow> (int \<times> 's wrapper) res" where
  "raft_put_bytes E big w i m n =
     rbind (index_key big i) (\<lambda>k.
     rbind (read_block m 0 n) (\<lambda>v.
     rocks_put E w (get_raft_log_handle w) k v))"

definition raft_put_value ::
    "('s, 'c) engine \<Rightarrow> bool \<Rightarrow> 's wrapper \<Rightarrow> u64 \<Rightarrow> val \<Rightarrow> (int \<times> 's wrapper) res" where
  "raft_put_value E big w i value =
     rbind (index_key big i) (\<lambda>k.
     rbind (value_slice big value) (\<lambda>v.
     rocks_put E w (get_raft_log_handle w) k v))"

subsection \<open>RaftLogBundle\<close>

record raft_bundle =
  rb_batch :: batch
  rb_handle :: "handle option"

definition bundle_new :: "'s wrapper \<Rightarrow> raft_bundle" where
  "bundle_new w = \<lparr> rb_batch = [], rb_handle = get_raft_log_handle w \<rparr>"

definition bundle_put ::
    "('s, 'c) engine \<Rightarrow> raft_bundle \<Rightarrow> bytes \<Rightarrow> bytes \<Rightarrow> int \<times> raft_bundle" where
  "bundle_put E b k v =
     (let c = e_batch_put E (rb_batch b) (rb_handle b) k v
      in (c, if c = 0 then b \<lparr> rb_batch := rb_batch b @ [(rb_handle b, BatchPut k v)] \<rparr> else b))"

definition bundle_append_bytes ::
    "('s, 'c) engine \<Rightarrow> bool \<Rightarrow> raft_bundle \<Rightarrow> u64 \<Rightarrow> bytes \<Rightarrow> nat \<Rightarrow> (int \<times> raft_bundle) res" where
  "bundle_append_bytes E big b i m n =
     rbind (index_key big i) (\<lambda>k.
     rbind (read_block m 0 n) (\<lambda>v. Inr (bundle_put E b k v)))"

definition bundle_append_value ::
    "('s, 'c) engine \<Rightarrow> bool \<Rightarrow> raft_bundle \<Rightarrow> u64 \<Rightarrow> val \<Rightarrow> (int \<times> raft_bundle) res" where
  "bundle_append_value E big b i value =
     rbind (index_key big i) (\<lambda>k.
     rbind (value_slice big value) (\<lambda>v. Inr (bundle_put E b k v)))"

definition raft_put_bundle ::
    "('s, 'c) engine \<Rightarrow> 's wrapper \<Rightarrow> raft_bundle \<Rightarrow> (int \<times> 's wrapper) res" where
  "raft_put_bundle E w b = rocks_write E w (rb_batch b)"

subsection \<open>Reading\<close>

text \<open>The value argument is what the caller's variable holds before.\<close>

definition raft_get ::
    "('s, 'c) engine \<Rightarrow> bool \<Rightarrow> 's wrapper \<Rightarrow> u64 \<Rightarrow> val \<Rightarrow> (int \<times> val) res" where
  "raft_get E big w i value =
     rbind (index_key big i) (\<lambda>k.
     rbind (seek_for_next E w (get_raft_log_handle w) k False) (\<lambda>cur.
       if \<not> e_valid E cur then Inr (e_status E cur, value)
       else rbind (set_string (e_value E cur)) (\<lambda>v. Inr (0, v))))"

definition cursor_index :: "('s, 'c) engine \<Rightarrow> bool \<Rightarrow> 'c \<Rightarrow> u64 res" where
  "cursor_index E big cur =
     extract_u64 big (table_key_of_chars (e_key E cur) (length (e_key E cur)) False) 0"

text \<open>
  The loop of \<open>scan_range\<close>; the callback takes and returns the state of its captured variables. The
  fuel bounds the number of entries visited.
\<close>

fun scan_loop ::
    "('s, 'c) engine \<Rightarrow> bool \<Rightarrow> bytes \<Rightarrow> ('a \<Rightarrow> u64 \<Rightarrow> val \<Rightarrow> (bool \<times> 'a) res) \<Rightarrow> nat \<Rightarrow> 'c \<Rightarrow> 'a \<Rightarrow> 'a res" where
  "scan_loop E big edk fn 0 cur a = Inl OutOfFuel"
| "scan_loop E big edk fn (Suc n) cur a =
     (if \<not> e_valid E cur then Inr a
      else if e_status E cur \<noteq> 0 then Inr a
      else if edk < e_key E cur then Inr a
      else rbind (cursor_index E big cur) (\<lambda>i.
           rbind (set_string (e_value E cur)) (\<lambda>v.
           rbind (fn a i v) (\<lambda>(go, a).
             if \<not> go then Inr a else scan_loop E big edk fn n (e_next E cur) a))))"

definition scan_range ::
    "('s, 'c) engine \<Rightarrow> bool \<Rightarrow> nat \<Rightarrow> 's wrapper \<Rightarrow> u64 \<Rightarrow> u64 \<Rightarrow>
     ('a \<Rightarrow> u64 \<Rightarrow> val \<Rightarrow> (bool \<times> 'a) res) \<Rightarrow> 'a \<Rightarrow> (int \<times> 'a) res" where
  "scan_range E big fuel w start_index end_index fn a =
     rbind (index_key big start_index) (\<lambda>k.
     rbind (index_key big end_index) (\<lambda>edk.
     rbind (seek_for_next E w (get_raft_log_handle w) k False) (\<lambda>cur.
     rbind (scan_loop E big edk fn fuel cur a) (\<lambda>a. Inr (0, a)))))"

text \<open>The part \<open>get_first\<close> and \<open>get_last\<close> share, after the cursor was placed.\<close>

definition read_entry ::
    "('s, 'c) engine \<Rightarrow> bool \<Rightarrow> 'c \<Rightarrow> u64 \<Rightarrow> val \<Rightarrow> (int \<times> u64 \<times> val) res" where
  "read_entry E big cur index value =
     (if e_status E cur \<noteq> 0 then Inr (ERR_INVALID_PARAMS, index, value)
      else if \<not> e_valid E cur then Inr (ERR_NOT_FOUND, index, value)
      else rbind (cursor_index E big cur) (\<lambda>i.
           rbind (set_string (e_value E cur)) (\<lambda>v. Inr (0, i, v))))"

definition get_first ::
    "('s, 'c) engine \<Rightarrow> bool \<Rightarrow> 's wrapper \<Rightarrow> u64 \<Rightarrow> val \<Rightarrow> (int \<times> u64 \<times> val) res" where
  "get_first E big w index value =
     rbind (rocks_iterator E w (get_raft_log_handle w)) (\<lambda>cur.
       read_entry E big (e_first E cur) index value)"

definition get_last ::
    "('s, 'c) engine \<Rightarrow> bool \<Rightarrow> 's wrapper \<Rightarrow> u64 \<Rightarrow> val \<Rightarrow> (int \<times> u64 \<times> val) res" where
  "get_last E big w index value =
     rbind (rocks_iterator E w (get_raft_log_handle w)) (\<lambda>cur.
       read_entry E big (e_last E cur) index value)"

subsection \<open>Removing\<close>

definition raft_remove ::
    "('s, 'c) engine \<Rightarrow> bool \<Rightarrow> 's wrapper \<Rightarrow> u64 \<Rightarrow> (int \<times> 's wrapper) res" where
  "raft_remove E big w i =
     rbind (index_key big i) (\<lambda>k. rocks_remove E w (get_raft_log_handle w) k)"

definition raft_remove_range ::
    "('s, 'c) engine \<Rightarrow> bool \<Rightarrow> 's wrapper \<Rightarrow> u64 \<Rightarrow> u64 \<Rightarrow> (int \<times> 's wrapper) res" where
  "raft_remove_range E big w start_index end_index =
     rbind (index_key big start_index) (\<lambda>sk.
     rbind (index_key big end_index) (\<lambda>ek.
     rocks_remove_range E w (get_raft_log_handle w) sk ek False))"

section \<open>Indices and keys\<close>

lemma key_slice_view: "key_ok k \<Longrightarrow> key_slice k = Inr (key_view k)"
  by (simp add: key_slice_def key_ok_def str_ok_def key_view_def str_view_def read_block_def str_length_def)

lemma index_key [simp]: "index_key big i = Inr (be_bytes 8 i)"
  using key_append_first [of "be_bytes 8 i"]
  by (auto simp: index_key_def append_u64_def col_bytes key_slice_view)

lemma be_word_high: "bit (be_word bs :: 'a::len word) k \<Longrightarrow> k < 8 * length bs"
proof (induction bs)
  case (Cons b bs)
  then show ?case using bit_imp_le_length [of b "k - 8 * length bs"] by (auto simp: bit_simps)
qed simp

lemma be_bytes_word:
  "8 * length bs \<le> LENGTH('a) \<Longrightarrow> be_bytes (length bs) (be_word bs :: 'a::len word) = bs"
proof (induction bs)
  case (Cons b bs)
  let ?w = "push_bit (8 * length bs) (ucast b) OR be_word bs :: 'a word"
  have "ucast (drop_bit (8 * length bs) ?w) = b"
    using Cons.prems by (intro bit_word_eqI) (auto simp: bit_simps dest: be_word_high)
  moreover have "be_bytes (length bs) ?w = be_bytes (length bs) (be_word bs :: 'a word)"
    unfolding be_bytes_def
    by (intro map_cong refl bit_word_eqI) (auto simp: bit_simps)
  ultimately show ?case using Cons by (simp add: be_bytes_Suc)
qed (simp add: be_bytes_def)

lemma be_bytes_8_word: "length k = 8 \<Longrightarrow> be_bytes 8 (be_word k :: u64) = k"
  using be_bytes_word [of k, where 'a = 64] by simp

lemma be_bytes_8_order [simp]:
  "be_bytes 8 (i :: u64) < be_bytes 8 j \<longleftrightarrow> i < j"
  "be_bytes 8 (i :: u64) = be_bytes 8 j \<longleftrightarrow> i = j"
  "be_bytes 8 (i :: u64) \<le> be_bytes 8 j \<longleftrightarrow> i \<le> j"
proof -
  show lt: "be_bytes 8 i < be_bytes 8 j \<longleftrightarrow> i < j" for i j :: u64 by (rule be_bytes_order) simp
  show eq: "be_bytes 8 i = be_bytes 8 j \<longleftrightarrow> i = j" using be_bytes_inj [of 8 i j] by auto
  show "be_bytes 8 i \<le> be_bytes 8 j \<longleftrightarrow> i \<le> j" using lt eq by (auto simp: le_less)
qed

section \<open>The abstract log\<close>

definition raft_items_ok :: "item list \<Rightarrow> bool" where
  "raft_items_ok its \<longleftrightarrow> ordered_items its \<and> (\<forall>x \<in> set its. length (fst x) = 8 \<and> length (snd x) < 0xffffff)"

definition raft_log :: "item list \<Rightarrow> u64 \<Rightarrow> bytes option" where
  "raft_log its i = map_of its (be_bytes 8 i)"

text \<open>The log of a wrapper whose column family \<open>raft_log\<close> is open and holds well-formed entries.\<close>

definition raft_store :: "('s \<Rightarrow> handle \<Rightarrow> item list) \<Rightarrow> 's wrapper \<Rightarrow> (u64 \<Rightarrow> bytes option) \<Rightarrow> bool" where
  "raft_store items w L \<longleftrightarrow> rw_open w \<and>
     (\<exists>h. get_raft_log_handle w = Some h \<and> raft_items_ok (items (rw_db w) h) \<and>
        L = raft_log (items (rw_db w) h))"

text \<open>What a scan does with the entries it meets.\<close>

fun scan_list :: "('a \<Rightarrow> u64 \<Rightarrow> val \<Rightarrow> (bool \<times> 'a) res) \<Rightarrow> (u64 \<times> bytes) list \<Rightarrow> 'a \<Rightarrow> 'a res" where
  "scan_list fn [] a = Inr a"
| "scan_list fn ((i, v) # es) a =
     rbind (fn a i (VString v)) (\<lambda>(go, a). if \<not> go then Inr a else scan_list fn es a)"

text \<open>The entries of a log with indices from s to e, in order.\<close>

definition log_between :: "(u64 \<Rightarrow> bytes option) \<Rightarrow> u64 \<Rightarrow> u64 \<Rightarrow> (u64 \<times> bytes) list \<Rightarrow> bool" where
  "log_between L s e es \<longleftrightarrow> sorted_wrt (<) (map fst es) \<and>
     set es = {(i, v). s \<le> i \<and> i \<le> e \<and> L i = Some v}"

definition entries :: "item list \<Rightarrow> (u64 \<times> bytes) list" where
  "entries its = map (\<lambda>x. (be_word (fst x), snd x)) its"

lemma raft_key:
  "raft_items_ok its \<Longrightarrow> x \<in> set its \<Longrightarrow> be_bytes 8 (be_word (fst x) :: u64) = fst x"
  by (simp add: raft_items_ok_def be_bytes_8_word)

lemma be_word_8 [simp]: "be_word (be_bytes 8 (i :: u64)) = i"
  by (rule be_word_bytes) simp

lemma raft_log_mem:
  assumes "raft_items_ok its"
  shows "raft_log its i = Some v \<longleftrightarrow> (be_bytes 8 i, v) \<in> set its"
proof -
  have "distinct (map fst its)"
    using assms strict_sorted_iff by (auto simp: raft_items_ok_def ordered_items_def)
  then show ?thesis by (simp add: raft_log_def)
qed

lemma entries_set:
  assumes "raft_items_ok its"
  shows "set (entries its) = {(i, v). raft_log its i = Some v}"
proof -
  have "(i, v) \<in> set (entries its) \<longleftrightarrow> (be_bytes 8 i, v) \<in> set its" for i v
    using raft_key [OF assms] by (force simp: entries_def image_iff)
  then show ?thesis using raft_log_mem [OF assms] by auto
qed

lemma entries_sorted:
  "raft_items_ok its \<Longrightarrow> sorted_wrt (<) (map fst (entries its))"
proof (induction its)
  case (Cons x its)
  have ok: "raft_items_ok its" using Cons.prems by (simp add: raft_items_ok_def)
  have "be_word (fst x) < (be_word (fst y) :: u64)" if "y \<in> set its" for y
    using that Cons.prems raft_key [OF Cons.prems, of x] raft_key [OF Cons.prems, of y]
      be_bytes_8_order(1) [of "be_word (fst x)" "be_word (fst y)"]
    by (simp add: raft_items_ok_def)
  then show ?case using Cons.IH [OF ok] by (auto simp: entries_def)
qed (simp add: entries_def)

lemma raft_items_filter: "raft_items_ok its \<Longrightarrow> raft_items_ok (filter P its)"
  by (simp add: raft_items_ok_def ordered_filter)

lemma raft_items_put:
  "raft_items_ok its \<Longrightarrow> length v < 0xffffff \<Longrightarrow> raft_items_ok (put_item (be_bytes 8 i, v) its)"
  by (auto simp: raft_items_ok_def ordered_put put_item_set)

lemma raft_items_delete:
  "raft_items_ok its \<Longrightarrow> raft_items_ok (delete_item k its)"
  "raft_items_ok its \<Longrightarrow> raft_items_ok (delete_items b e its)"
  unfolding delete_item_def delete_items_def by (rule raft_items_filter, assumption)+

lemma raft_log_ops:
  assumes "raft_items_ok its"
  shows "raft_log (put_item (be_bytes 8 i, v) its) = (raft_log its)(i \<mapsto> v)"
    "raft_log (delete_item (be_bytes 8 i) its) = (raft_log its)(i := None)"
    "raft_log (delete_items (be_bytes 8 i) (be_bytes 8 j) its) =
       (\<lambda>k. if i \<le> k \<and> k < j then None else raft_log its k)"
  using assms
  by (auto simp: raft_log_def raft_items_ok_def map_of_put map_of_delete fun_eq_iff)

lemma entries_between:
  assumes "raft_items_ok its"
  shows "log_between (raft_log its) s e
     (entries (filter (\<lambda>x. be_bytes 8 s \<le> fst x \<and> fst x \<le> be_bytes 8 e) its))"
    (is "log_between _ _ _ (entries (filter ?P its))")
  unfolding log_between_def
proof
  show "sorted_wrt (<) (map fst (entries (filter ?P its)))"
    by (rule entries_sorted [OF raft_items_filter [OF assms]])
  show "set (entries (filter ?P its)) = {(i, v). s \<le> i \<and> i \<le> e \<and> raft_log its i = Some v}"
    unfolding entries_set [OF raft_items_filter [OF assms]] raft_log_mem [OF assms]
      raft_log_mem [OF raft_items_filter [OF assms]]
    by auto
qed

section \<open>Cursors over a log\<close>

lemma cursor_index:
  assumes "length (e_key E cur) = 8"
  shows "cursor_index E big cur = Inr (be_word (e_key E cur))"
proof -
  let ?i = "be_word (e_key E cur) :: u64"
  have k: "e_key E cur = col_u64 big ?i" using assms by (simp add: col_bytes be_bytes_8_word)
  have "key_at (table_key_of_chars (e_key E cur) (length (e_key E cur)) False) 0 8 = Inr (e_key E cur)"
    using assms by (simp add: key_at_def table_key_of_chars_def str_set_ref_n_def read_i_def read_block_def)
  then show ?thesis
    using c_u64.uncode_code [of big ?i] k by (simp add: cursor_index_def extract_u64_def)
qed

lemma takeWhile_ordered:
  "ordered_items its \<Longrightarrow> takeWhile (\<lambda>y. fst y \<le> k) its = filter (\<lambda>y. fst y \<le> k) its"
  by (induction its) (auto simp: not_le not_less intro!: filter_False [symmetric] dest: less_trans)

lemma scan_loop_list:
  assumes c: "cursors_ok E items cview" "no_read_errors E"
    and "total_cursor E cur" "raft_items_ok (snd (cview cur))" "length (snd (cview cur)) < n"
  shows "scan_loop E big edk fn n cur a =
     scan_list fn (entries (takeWhile (\<lambda>y. fst y \<le> edk) (snd (cview cur)))) a"
  using assms(3-5)
proof (induction n arbitrary: cur a)
  case (Suc n)
  note t = Suc.prems(1)
  have v: "e_valid E cur \<longleftrightarrow> snd (cview cur) \<noteq> []" "e_status E cur = 0"
    using cursors_okD(7) [OF c(1) t] c(2) by (auto simp: no_read_errors_def)
  show ?case
  proof (cases "snd (cview cur)")
    case Nil
    then show ?thesis using v by (simp add: entries_def)
  next
    case (Cons x xs)
    have k: "e_key E cur = fst x" "e_value E cur = snd x" "snd (cview (e_next E cur)) = xs"
      using cursors_okD(6,8,9) [OF c(1) t] v Cons by simp_all
    have x: "length (fst x) = 8" "length (snd x) < 0xffffff" "raft_items_ok xs"
      using Suc.prems(2) Cons by (simp_all add: raft_items_ok_def)
    have "scan_loop E big edk fn n (e_next E cur) b =
        scan_list fn (entries (takeWhile (\<lambda>y. fst y \<le> edk) xs)) b" for b
      using Suc.IH [of "e_next E cur" b] Suc.prems(3) total_next [OF t] v(1) Cons k(3) x(3) by simp
    then show ?thesis
      using v Cons x by (auto simp: k cursor_index set_string_ok entries_def not_less split: prod.splits cong: if_cong)
  qed
qed simp

section \<open>An example store\<close>

definition demo_store :: "(u64 \<times> bytes) list \<Rightarrow> mem_db wrapper" where
  "demo_store es = (wrapper_new [(RAFT_LOG_CF, map (\<lambda>e. (be_bytes 8 (fst e), snd e)) es)])
     \<lparr> rw_open := True, rw_is_init := True, rw_cfs := [RAFT_LOG_CF \<mapsto> 0] \<rparr>"

lemma demo_store:
  assumes "sorted_wrt (<) (map fst es)" "\<forall>e \<in> set es. length (snd e) < 0xffffff"
  shows "raft_store mem_items (demo_store es) (map_of es)"
proof -
  let ?its = "map (\<lambda>e. (be_bytes 8 (fst e), snd e)) es"
  have ord: "ordered_items ?its"
    using assms(1) by (simp add: ordered_items_def sorted_wrt_map)
  moreover have "raft_log ?its = map_of es"
    by (rule ext) (induction es; auto simp: raft_log_def)
  ultimately show ?thesis
    using assms(2)
    by (auto simp: raft_store_def demo_store_def wrapper_new_def get_raft_log_handle_def get_handle_def
        mem_items_def sort_items_id raft_items_ok_def)
qed

lemma demo_items: "sorted_wrt (<) (map fst es) \<Longrightarrow>
    mem_items (rw_db (demo_store es)) 0 = map (\<lambda>e. (be_bytes 8 (fst e), snd e)) es"
  by (simp add: demo_store_def wrapper_new_def mem_items_def sort_items_id ordered_items_def sorted_wrt_map)

lemmas mem_ok = mem_engine_writes mem_engine_cursors mem_engine_reads

section \<open>The operations on the items\<close>

lemma same_cf_Some [simp]: "same_cf E w (Some h) cf = Inr (case cf of None \<Rightarrow> False
    | Some r \<Rightarrow> e_cf_id E (rw_db w) h = e_cf_id E (rw_db w) r)"
  by (simp add: same_cf_def split: option.split)

lemma count_removes_Some:
  "\<exists>w'. count_removes E w (Some h) = Inr w' \<and> rw_db w' = rw_db w \<and> rw_open w' = rw_open w \<and>
     get_raft_log_handle w' = get_raft_log_handle w"
  by (auto simp: count_removes_def get_raft_log_handle_def get_handle_def)

lemma raft_store_upd:
  assumes "raft_store items w L" "get_raft_log_handle w = Some h"
    and "items s = (items (rw_db w))(h := its)" "raft_items_ok its"
    and "rw_open w' = rw_open w" "rw_db w' = s" "get_raft_log_handle w' = get_raft_log_handle w"
  shows "raft_store items w' (raft_log its)"
  using assms by (simp add: raft_store_def)

lemma handle_db_update [simp]: "get_raft_log_handle (w \<lparr> rw_db := s \<rparr>) = get_raft_log_handle w"
  by (simp add: get_raft_log_handle_def get_handle_def)

lemma raft_put_bytes_eq:
  assumes "rw_open w" "get_raft_log_handle w = Some h" "n \<le> length m"
    and "e_put E (rw_db w) (Some h) (be_bytes 8 i) (take n m) = (c, s)"
  shows "raft_put_bytes E big w i m n = Inr (c, w \<lparr> rw_db := s \<rparr>)"
  using assms by (simp add: raft_put_bytes_def read_block_def rocks_put_def set_db_def using_db_open)

lemma raft_remove_eq:
  assumes "rw_open w" "get_raft_log_handle w = Some h" "e_delete E (rw_db w) (Some h) (be_bytes 8 i) = (c, s)"
  shows "raft_remove E big w i = Inr (c, w \<lparr> rw_db := s \<rparr>)"
  using assms by (simp add: raft_remove_def rocks_remove_def set_db_def using_db_open)

lemma raft_remove_range_eq:
  assumes "rw_open w" "get_raft_log_handle w = Some h"
    and "e_delete_range E (rw_db w) (Some h) (be_bytes 8 i) (be_bytes 8 j) = (c, s)"
  shows "\<exists>w'. raft_remove_range E big w i j = Inr (c, w') \<and> rw_db w' = s \<and> rw_open w' \<and>
    get_raft_log_handle w' = Some h"
  using count_removes_Some [of E w h] assms
  by (auto simp: raft_remove_range_def rocks_remove_range_def set_db_def using_db_open)

text \<open>Reading, from a column family with the items its, without input and output errors.\<close>

lemma raft_get_eq:
  assumes "cursors_ok E items cview" "no_read_errors E" "rw_open w" "get_raft_log_handle w = Some h"
  shows "raft_get E big w i value =
    (case filter (\<lambda>y. be_bytes 8 i \<le> fst y) (items (rw_db w) h) of
       [] \<Rightarrow> Inr (0, value) | x # xs \<Rightarrow> rbind (set_string (snd x)) (\<lambda>v. Inr (0, v)))"
proof -
  obtain cur where cur: "seek_for_next E w (Some h) (be_bytes 8 i) False = Inr cur" "total_cursor E cur"
      "snd (cview cur) = filter (\<lambda>y. be_bytes 8 i \<le> fst y) (items (rw_db w) h)"
    using seek_for_next_view [OF assms(1,3)] by blast
  have "e_status E cur = 0" using assms(2) by (simp add: no_read_errors_def)
  then show ?thesis
    using cur assms(4) cursors_okD(7,9) [OF assms(1) cur(2)]
    by (auto simp: raft_get_def split: list.split)
qed

lemma read_entry_at:
  assumes "cursors_ok E items cview" "no_read_errors E"
    and "snd (cview cur) = x # xs" "length (fst x) = 8" "length (snd x) < 0xffffff" "total_cursor E cur"
  shows "read_entry E big cur index value = Inr (0, be_word (fst x), VString (snd x))"
proof -
  have "e_status E cur = 0" using assms(2) by (simp add: no_read_errors_def)
  moreover from this have "e_valid E cur" "e_key E cur = fst x" "e_value E cur = snd x"
    using cursors_okD(7,8,9) [OF assms(1,6)] assms(3) by simp_all
  ultimately show ?thesis using assms(4,5) by (simp add: read_entry_def cursor_index set_string_ok)
qed

lemma read_entry_end:
  assumes "cursors_ok E items cview" "no_read_errors E" "snd (cview cur) = []" "total_cursor E cur"
  shows "read_entry E big cur index value = Inr (ERR_NOT_FOUND, index, value)"
  using cursors_okD(7) [OF assms(1,4)] assms(2,3) by (simp add: read_entry_def no_read_errors_def)

lemma get_ends_eq:
  assumes "cursors_ok E items cview" "no_read_errors E" "rw_open w" "get_raft_log_handle w = Some h"
    and "raft_items_ok (items (rw_db w) h)"
  shows "get_first E big w index value =
      (if items (rw_db w) h = [] then Inr (ERR_NOT_FOUND, index, value)
       else Inr (0, be_word (fst (hd (items (rw_db w) h))), VString (snd (hd (items (rw_db w) h)))))"
    "get_last E big w index value =
      (if items (rw_db w) h = [] then Inr (ERR_NOT_FOUND, index, value)
       else Inr (0, be_word (fst (last (items (rw_db w) h))), VString (snd (last (items (rw_db w) h)))))"
proof -
  let ?its = "items (rw_db w) h" and ?c = "e_iter E (rw_db w) (Some h) False"
  have c: "snd (cview (e_first E ?c)) = ?its"
    "snd (cview (e_last E ?c)) = (if ?its = [] then [] else [last ?its])"
    by (simp_all add: cursors_okD(1) [OF assms(1)] cursors_okD(4,5) [OF assms(1) total_iter])
  have g: "get_first E big w index value = read_entry E big (e_first E ?c) index value"
    "get_last E big w index value = read_entry E big (e_last E ?c) index value"
    using assms(3,4) by (simp_all add: get_first_def get_last_def rocks_iterator_def using_db_open)
  have len: "length (fst x) = 8" "length (snd x) < 0xffffff" if "x \<in> set ?its" for x
    using that assms(5) by (simp_all add: raft_items_ok_def)
  show "get_first E big w index value = (if ?its = [] then Inr (ERR_NOT_FOUND, index, value)
       else Inr (0, be_word (fst (hd ?its)), VString (snd (hd ?its))))"
    using g(1) c(1) read_entry_end [OF assms(1,2), of "e_first E ?c"] len total_first [OF total_iter [of E "rw_db w" h]]
      read_entry_at [OF assms(1,2), of "e_first E ?c" "hd ?its" "tl ?its"] by simp
  show "get_last E big w index value = (if ?its = [] then Inr (ERR_NOT_FOUND, index, value)
       else Inr (0, be_word (fst (last ?its)), VString (snd (last ?its))))"
    using g(2) c(2) read_entry_end [OF assms(1,2), of "e_last E ?c"] len total_last [OF total_iter [of E "rw_db w" h]]
      read_entry_at [OF assms(1,2), of "e_last E ?c" "last ?its" "[]"] by simp
qed

lemma scan_range_eq:
  assumes "cursors_ok E items cview" "no_read_errors E" "rw_open w" "get_raft_log_handle w = Some h"
    and "raft_items_ok (items (rw_db w) h)" "length (items (rw_db w) h) < fuel"
  shows "scan_range E big fuel w i j fn a =
    rbind (scan_list fn (entries (filter (\<lambda>x. be_bytes 8 i \<le> fst x \<and> fst x \<le> be_bytes 8 j)
      (items (rw_db w) h))) a) (\<lambda>a. Inr (0, a))"
proof -
  obtain cur where cur: "seek_for_next E w (Some h) (be_bytes 8 i) False = Inr cur" "total_cursor E cur"
      "snd (cview cur) = filter (\<lambda>y. be_bytes 8 i \<le> fst y) (items (rw_db w) h)"
    using seek_for_next_view [OF assms(1,3)] by blast
  have ok: "raft_items_ok (snd (cview cur))" using cur(3) raft_items_filter [OF assms(5)] by simp
  have "length (snd (cview cur)) < fuel"
    using assms(6) cur(3) length_filter_le le_less_trans by metis
  then have "scan_loop E big (be_bytes 8 j) fn fuel cur a =
      scan_list fn (entries (takeWhile (\<lambda>y. fst y \<le> be_bytes 8 j) (snd (cview cur)))) a"
    by (rule scan_loop_list [OF assms(1,2) cur(2) ok])
  also have "takeWhile (\<lambda>y. fst y \<le> be_bytes 8 j) (snd (cview cur)) =
      filter (\<lambda>y. be_bytes 8 i \<le> fst y \<and> fst y \<le> be_bytes 8 j) (items (rw_db w) h)"
    using takeWhile_ordered [of "snd (cview cur)"] ok cur(3)
    by (simp add: raft_items_ok_def conj_commute)
  finally show ?thesis using cur(1) assms(4) by (simp add: scan_range_def)
qed

lemma raft_storeE:
  assumes "raft_store items w L"
  obtains h where "rw_open w" "get_raft_log_handle w = Some h" "raft_items_ok (items (rw_db w) h)"
    "L = raft_log (items (rw_db w) h)"
  using assms by (auto simp: raft_store_def)

section \<open>Properties\<close>

text \<open>
  C4. Writing refines the abstract log: \<open>put\<close> of n bytes adds or replaces the entry at its index,
  \<open>remove\<close> deletes it and \<open>remove_range\<close> deletes the entries from the first index up to, and not
  including, the second, each when it returns 0, and none of them fails otherwise.
\<close>

theorem raft_writes:
  assumes "writes_ok E items" "raft_store items w L" "n \<le> length m" "n < 0xffffff"
  shows "(\<exists>c w'. raft_put_bytes E big w i m n = Inr (c, w') \<and>
      (c = 0 \<longrightarrow> raft_store items w' (L(i \<mapsto> take n m)))) \<and>
    (\<exists>c w'. raft_remove E big w i = Inr (c, w') \<and>
      (c = 0 \<longrightarrow> raft_store items w' (L(i := None)))) \<and>
    (\<exists>c w'. raft_remove_range E big w i j = Inr (c, w') \<and>
      (c = 0 \<longrightarrow> raft_store items w' (\<lambda>k. if i \<le> k \<and> k < j then None else L k)))"
proof -
  obtain h where h: "rw_open w" "get_raft_log_handle w = Some h" "raft_items_ok (items (rw_db w) h)"
      "L = raft_log (items (rw_db w) h)"
    using assms(2) by (rule raft_storeE)
  note upd = raft_store_upd [OF assms(2) h(2)]
  obtain c1 s1 where r1: "e_put E (rw_db w) (Some h) (be_bytes 8 i) (take n m) = (c1, s1)" by fastforce
  obtain c2 s2 where r2: "e_delete E (rw_db w) (Some h) (be_bytes 8 i) = (c2, s2)" by fastforce
  obtain c3 s3 where r3: "e_delete_range E (rw_db w) (Some h) (be_bytes 8 i) (be_bytes 8 j) = (c3, s3)"
    by fastforce
  obtain w3 where w3: "raft_remove_range E big w i j = Inr (c3, w3)" "rw_db w3 = s3" "rw_open w3"
      "get_raft_log_handle w3 = Some h"
    using raft_remove_range_eq [OF h(1,2) r3] by blast
  have "raft_store items (w \<lparr> rw_db := s1 \<rparr>) (L(i \<mapsto> take n m))" if c: "c1 = 0"
    using upd [OF writes_okD(2) [OF assms(1) r1 [unfolded c]] raft_items_put [OF h(3)]] assms(3,4) h(3,4)
    by (simp add: raft_log_ops min_def)
  moreover have "raft_store items (w \<lparr> rw_db := s2 \<rparr>) (L(i := None))" if c: "c2 = 0"
    using upd [OF writes_okD(3) [OF assms(1) r2 [unfolded c]] raft_items_delete(1) [OF h(3)]] h(3,4)
    by (simp add: raft_log_ops)
  moreover have "raft_store items w3 (\<lambda>k. if i \<le> k \<and> k < j then None else L k)" if c: "c3 = 0"
    using upd [OF writes_okD(4) [OF assms(1) r3 [unfolded c]] raft_items_delete(2) [OF h(3)], of w3]
      h w3 by (simp add: raft_log_ops cong: if_cong)
  ultimately show ?thesis
    using raft_put_bytes_eq [OF h(1,2) assms(3) r1] raft_remove_eq [OF h(1,2) r2] w3(1) by blast
qed

theorem raft_writes_witness:
  "\<exists>c w'. raft_remove_range mem_engine False (demo_store [(3, [7]), (5, [8])]) 3 5 = Inr (c, w') \<and>
     (c = 0 \<longrightarrow> raft_store mem_items w' (\<lambda>k. if 3 \<le> k \<and> k < 5 then None else map_of [(3, [7]), (5, [8])] k))"
  using raft_writes [OF mem_ok(1) demo_store [of "[(3, [7]), (5, [8])]"], of 0 "[]" False 3 5] by simp

text \<open>A position in the log: the first entry at or behind an index.\<close>

lemma log_head:
  assumes "raft_items_ok its"
  shows "case filter (\<lambda>y. be_bytes 8 i \<le> fst y) its of
      [] \<Rightarrow> \<forall>j. i \<le> j \<longrightarrow> raft_log its j = None
    | x # xs \<Rightarrow> i \<le> be_word (fst x) \<and> raft_log its (be_word (fst x)) = Some (snd x) \<and>
        length (fst x) = 8 \<and> length (snd x) < 0xffffff \<and>
        (\<forall>k. i \<le> k \<and> k < be_word (fst x) \<longrightarrow> raft_log its k = None)"
proof (cases "filter (\<lambda>y. be_bytes 8 i \<le> fst y) its")
  case Nil
  have "raft_log its j = None" if "i \<le> j" for j
  proof (rule ccontr)
    assume "raft_log its j \<noteq> None"
    then obtain v where "(be_bytes 8 j, v) \<in> set its" using raft_log_mem [OF assms] by auto
    then have "(be_bytes 8 j, v) \<in> set (filter (\<lambda>y. be_bytes 8 i \<le> fst y) its)" using that by simp
    then show False using Nil by simp
  qed
  then show ?thesis using Nil by simp
next
  case (Cons x xs)
  let ?j = "be_word (fst x) :: u64"
  have "x \<in> set (filter (\<lambda>y. be_bytes 8 i \<le> fst y) its)" using Cons by simp
  then have x: "x \<in> set its" "be_bytes 8 i \<le> fst x" by simp_all
  have k: "be_bytes 8 ?j = fst x" by (rule raft_key [OF assms x(1)])
  have lt: "fst x < fst y" if "y \<in> set xs" for y
    using ordered_filter [of its "\<lambda>y. be_bytes 8 i \<le> fst y"] assms Cons that
    by (auto simp: raft_items_ok_def)
  have "raft_log its m = None" if "i \<le> m" "m < ?j" for m
  proof (rule ccontr)
    assume "raft_log its m \<noteq> None"
    then obtain v where "(be_bytes 8 m, v) \<in> set its" using raft_log_mem [OF assms] by auto
    then have "(be_bytes 8 m, v) \<in> set (x # xs)" using that Cons [symmetric] by simp
    moreover have "be_bytes 8 m < fst x" using be_bytes_8_order(1) [of m ?j] that(2) k by simp
    ultimately show False using lt by force
  qed
  moreover have "i \<le> ?j" using be_bytes_8_order(3) [of i ?j] x(2) k by simp
  moreover have "raft_log its ?j = Some (snd x)" using raft_log_mem [OF assms] x(1) k by simp
  ultimately show ?thesis using Cons x(1) assms by (simp add: raft_items_ok_def)
qed

text \<open>
  \<open>get\<close> answers with the entry of the least index at or behind the one asked for, which is the
  entry itself where it is there. Where no such entry is left it still returns 0 and does not set the
  value.
\<close>

theorem raft_get_ceiling:
  assumes "cursors_ok E items cview" "no_read_errors E" "raft_store items w L"
  shows "(\<exists>j v. i \<le> j \<and> L j = Some v \<and> (\<forall>k. i \<le> k \<and> k < j \<longrightarrow> L k = None) \<and>
      raft_get E big w i value = Inr (0, VString v)) \<or>
    (\<forall>j. i \<le> j \<longrightarrow> L j = None) \<and> raft_get E big w i value = Inr (0, value)"
proof -
  obtain h where h: "rw_open w" "get_raft_log_handle w = Some h" "raft_items_ok (items (rw_db w) h)"
      "L = raft_log (items (rw_db w) h)"
    using assms(3) by (rule raft_storeE)
  show ?thesis
    using log_head [OF h(3), of i] raft_get_eq [OF assms(1,2) h(1,2)] h(4)
    by (auto simp: set_string_ok split: list.splits)
qed

theorem raft_get_ceiling_witness:
  "raft_get mem_engine True (demo_store [(3, [7]), (5, [8])]) 4 VNone = Inr (0, VString [8])"
  using raft_get_ceiling [OF mem_ok(2,3) demo_store [of "[(3, [7]), (5, [8])]"], of 4 True VNone]
  by (auto split: if_splits dest: spec [of _ 5])

text \<open>
  \<open>scan_range\<close> calls its function on exactly the entries with indices from the first to the second
  argument, both included, in ascending order, and stops where the function returns false; a fuel
  above the number of entries of the column family is enough. Its own result is always 0.
\<close>

theorem raft_scan_entries:
  assumes "cursors_ok E items cview" "no_read_errors E" "raft_store items w L"
    and "get_raft_log_handle w = Some h" "length (items (rw_db w) h) < fuel"
  shows "\<exists>es. log_between L i j es \<and>
     scan_range E big fuel w i j fn a = rbind (scan_list fn es a) (\<lambda>a. Inr (0, a))"
proof -
  have h: "rw_open w" "raft_items_ok (items (rw_db w) h)" "L = raft_log (items (rw_db w) h)"
    using assms(3,4) by (auto simp: raft_store_def)
  show ?thesis
    using scan_range_eq [OF assms(1,2) h(1) assms(4) h(2) assms(5), of big i j fn a]
      entries_between [OF h(2), of i j] unfolding h(3) [symmetric] by (intro exI conjI)
qed

theorem raft_scan_entries_witness:
  "\<exists>es. log_between (map_of [(3, [7]), (5, [8])]) 3 5 es \<and>
     scan_range mem_engine False 3 (demo_store [(3, [7]), (5, [8])]) 3 5
       (\<lambda>n i v. Inr (True, n + val_size v)) 0 =
     rbind (scan_list (\<lambda>n i v. Inr (True, n + val_size v)) es 0) (\<lambda>a. Inr (0, a))"
  by (rule raft_scan_entries [OF mem_ok(2,3) demo_store, where h = 0])
    (simp_all add: demo_items, simp_all add: demo_store_def get_raft_log_handle_def get_handle_def)

lemma log_bounds:
  assumes "raft_items_ok its" "its \<noteq> []" "raft_log its k \<noteq> None"
  shows "be_word (fst (hd its)) \<le> k" "k \<le> be_word (fst (last its))"
proof -
  obtain v where "(k, v) \<in> set (entries its)" using assms(3) entries_set [OF assms(1)] by auto
  then have "k \<in> set (map fst (entries its))" by force
  then show "be_word (fst (hd its)) \<le> k" "k \<le> be_word (fst (last its))"
    using sorted_bounds [OF entries_sorted [OF assms(1)], of k] assms(2)
    by (simp_all add: entries_def hd_map last_map)
qed

text \<open>
  \<open>get_first\<close> and \<open>get_last\<close> return the entries with the least and the greatest index, and
  \<open>ERR_NOT_FOUND\<close> with their arguments unchanged exactly when the log is empty.
\<close>

theorem raft_log_ends:
  assumes "cursors_ok E items cview" "no_read_errors E" "raft_store items w L"
  shows "L = Map.empty \<and> get_first E big w index value = Inr (ERR_NOT_FOUND, index, value) \<and>
      get_last E big w index value = Inr (ERR_NOT_FOUND, index, value) \<or>
    (\<exists>i v j u. L i = Some v \<and> L j = Some u \<and> (\<forall>k. L k \<noteq> None \<longrightarrow> i \<le> k \<and> k \<le> j) \<and>
      get_first E big w index value = Inr (0, i, VString v) \<and>
      get_last E big w index value = Inr (0, j, VString u))"
proof -
  obtain h where h: "rw_open w" "get_raft_log_handle w = Some h" "raft_items_ok (items (rw_db w) h)"
      "L = raft_log (items (rw_db w) h)"
    using assms(3) by (rule raft_storeE)
  let ?its = "items (rw_db w) h"
  note ends = get_ends_eq [OF assms(1,2) h(1-3)]
  show ?thesis
  proof (cases "?its = []")
    case True
    then show ?thesis using ends h(4) by (simp add: raft_log_def fun_eq_iff)
  next
    case False
    have "L (be_word (fst x)) = Some (snd x)" if "x \<in> set ?its" for x
      using raft_log_mem [OF h(3)] raft_key [OF h(3) that] that h(4) by simp
    then show ?thesis
      using ends False log_bounds [OF h(3) False] h(4) hd_in_set [OF False] last_in_set [OF False]
      by (metis (no_types, lifting))
  qed
qed

theorem raft_log_ends_witness:
  "get_first mem_engine True (demo_store [(3, [7]), (5, [8])]) 0 VNone = Inr (0, 3, VString [7]) \<and>
   get_last mem_engine True (demo_store [(3, [7]), (5, [8])]) 0 VNone = Inr (0, 5, VString [8])"
proof -
  let ?L = "map_of [(3, [7]), (5, [8])] :: u64 \<Rightarrow> bytes option"
  have "i = 3 \<and> v = [7] \<and> j = 5 \<and> u = [8]"
    if "?L i = Some v" "?L j = Some u" "\<forall>k. ?L k \<noteq> None \<longrightarrow> i \<le> k \<and> k \<le> j" for i v j u
    using that spec [OF that(3), of 3] spec [OF that(3), of 5] by (auto split: if_splits)
  note key = this
  have "?L 3 = Some [7]" by simp
  then have "?L \<noteq> Map.empty" by fastforce
  then obtain i v j u where e: "?L i = Some v" "?L j = Some u"
      "\<forall>k. ?L k \<noteq> None \<longrightarrow> i \<le> k \<and> k \<le> j"
      "get_first mem_engine True (demo_store [(3, [7]), (5, [8])]) 0 VNone = Inr (0, i, VString v)"
      "get_last mem_engine True (demo_store [(3, [7]), (5, [8])]) 0 VNone = Inr (0, j, VString u)"
    using raft_log_ends [OF mem_ok(2,3) demo_store [of "[(3, [7]), (5, [8])]"], of True 0 VNone]
    by auto
  show ?thesis using key [OF e(1-3)] e(4,5) by simp
qed

text \<open>
  The limit of a value is checked on reading only: \<open>put\<close> stores an entry of 2^24 - 1 bytes or
  more, and from then on \<open>get\<close> of its index throws \<open>std::invalid_argument\<close>.
\<close>

theorem raft_put_large:
  assumes "writes_ok E items" "cursors_ok E items cview" "no_read_errors E" "raft_store items w L"
    and "n \<le> length m" "0xffffff \<le> n" "raft_put_bytes E big w i m n = Inr (0, w')"
  shows "raft_get E big w' i value = Inl InvalidArgument"
proof -
  obtain h where h: "rw_open w" "get_raft_log_handle w = Some h"
    using assms(4) by (rule raft_storeE)
  obtain c s where s: "e_put E (rw_db w) (Some h) (be_bytes 8 i) (take n m) = (c, s)" by fastforce
  then have w': "c = 0" "w' = w \<lparr> rw_db := s \<rparr>"
    using raft_put_bytes_eq [OF h assms(5) s, of big] assms(7) by simp_all
  then have "filter (\<lambda>y. be_bytes 8 i \<le> fst y) (items (rw_db w') h) =
      (be_bytes 8 i, take n m) # filter (\<lambda>y. be_bytes 8 i < fst y) (items (rw_db w) h)"
    using writes_okD(2) [OF assms(1)] s filter_put_from [of "(be_bytes 8 i, take n m)" "items (rw_db w) h"]
    by simp
  then show ?thesis
    using raft_get_eq [OF assms(2,3), of w' h big i "value"] w' h assms(5,6)
    by (simp add: set_string_def set_bytes_def)
qed

lemma demo_put:
  "raft_put_bytes mem_engine big (demo_store []) i m (length m) =
     Inr (0, (demo_store []) \<lparr> rw_db := [(RAFT_LOG_CF, put_item (be_bytes 8 i, m) [])] \<rparr>)"
  by (simp add: raft_put_bytes_def read_block_def rocks_put_def using_db_def demo_store_def
      set_db_def mem_engine_simps mem_set_def mem_items_def sort_items_def wrapper_new_def
      get_raft_log_handle_def get_handle_def)

theorem raft_put_large_witness:
  "\<exists>w'. raft_put_bytes mem_engine True (demo_store []) 1 (replicate 0xffffff 0) 0xffffff = Inr (0, w') \<and>
     raft_get mem_engine True w' 1 VNone = Inl InvalidArgument"
proof -
  let ?m = "replicate 0xffffff 0 :: bytes"
  note put = demo_put [of True 1 ?m, unfolded length_replicate]
  show ?thesis
    using put raft_put_large [OF mem_ok demo_store [of "[]"] _ _ put, of VNone] by simp
qed

end
