(* ===== verification/Nuraft_Buffer.thy ===== *)
theory Nuraft_Buffer
  imports Key_Encoder
begin

text \<open>
  The byte buffers of the consensus library as far as the program's log store and state machine use
  them: \<open>NuRaft/src/buffer.cxx\<close>, \<open>NuRaft/src/buffer_serializer.cxx\<close> and the log entries of
  \<open>NuRaft/include/libnuraft/log_entry.hxx\<close>.

  A buffer is its bytes and its position. The two layouts of the header, for blocks below and from
  0x8000 bytes, hold the same two numbers and are not distinguished; \<open>nbuf_ok\<close> is the invariant that
  makes both numbers fit. The memory \<open>alloc\<close> returns is not initialised: its content is the parameter
  \<open>junk\<close>. The streaming operators and the allocation statistics are left out. What an
  exception leaves of a buffer is not modelled: reading or writing bytes with their length can throw behind the length.
\<close>

section \<open>Words in bytes\<close>

text \<open>\<open>(byte)(val >> (i * 8))\<close> for i from 0, and from the last.\<close>

definition le_bytes :: "nat \<Rightarrow> 'a::len word \<Rightarrow> bytes" where
  "le_bytes n w = map (\<lambda>i. ucast (drop_bit (i * 8) w)) [0..<n]"

text \<open>The loop \<open>val += (byte_val << (i * 8))\<close>, and the shifts of the serializer.\<close>

fun add_bytes :: "nat \<Rightarrow> bytes \<Rightarrow> 'a::len word \<Rightarrow> 'a word" where
  "add_bytes i [] v = v"
| "add_bytes i (b # bs) v = add_bytes (Suc i) bs (v + push_bit (i * 8) (ucast b))"

definition shift_bytes :: "bytes \<Rightarrow> 'a::len word" where
  "shift_bytes bs = fold (\<lambda>b tmp. push_bit 8 tmp OR ucast b) bs 0"

section \<open>buffer\<close>

record nbuf =
  nb_bytes :: bytes
  nb_pos :: nat

definition nb_size :: "nbuf \<Rightarrow> nat" where "nb_size b = length (nb_bytes b)"

definition nb_alloc :: "(nat \<Rightarrow> u8) \<Rightarrow> nat \<Rightarrow> nbuf res" where
  "nb_alloc junk n =
     (if n \<ge> 0x80000000 then Inl OutOfRange
      else Inr \<lparr> nb_bytes = map junk [0..<n], nb_pos = 0 \<rparr>)"

definition nb_avail :: "nbuf \<Rightarrow> nat" where
  "nb_avail b = nat ((int (nb_size b) - int (nb_pos b)) mod 2 ^ 64)"

definition nb_move :: "nbuf \<Rightarrow> nat \<Rightarrow> nbuf" where "nb_move b n = b \<lparr> nb_pos := nb_pos b + n \<rparr>"

definition nb_set_pos :: "nbuf \<Rightarrow> nat \<Rightarrow> nbuf" where
  "nb_set_pos b p = b \<lparr> nb_pos := (if p > nb_size b then nb_size b else p) \<rparr>"

text \<open>Reading and writing n bytes at the position, behind the check of what is available.\<close>

definition nb_take :: "nbuf \<Rightarrow> nat \<Rightarrow> (bytes \<times> nbuf) res" where
  "nb_take b n =
     (if nb_avail b < n then Inl OverflowError
      else rbind (read_block (nb_bytes b) (nb_pos b) n) (\<lambda>bs. Inr (bs, nb_move b n)))"

definition nb_write :: "nbuf \<Rightarrow> bytes \<Rightarrow> nbuf res" where
  "nb_write b bs =
     (if nb_avail b < length bs then Inl OverflowError
      else rbind (write_block (nb_bytes b) (nb_pos b) bs) (\<lambda>m.
           Inr (nb_move (b \<lparr> nb_bytes := m \<rparr>) (length bs))))"

definition nb_get_int :: "nbuf \<Rightarrow> (i32 \<times> nbuf) res" where
  "nb_get_int b = rbind (nb_take b 4) (\<lambda>(bs, b). Inr (add_bytes 0 bs 0, b))"

definition nb_get_ulong :: "nbuf \<Rightarrow> (u64 \<times> nbuf) res" where
  "nb_get_ulong b = rbind (nb_take b 8) (\<lambda>(bs, b). Inr (add_bytes 0 bs 0, b))"

definition nb_get_byte :: "nbuf \<Rightarrow> (u8 \<times> nbuf) res" where
  "nb_get_byte b = rbind (nb_take b 1) (\<lambda>(bs, b). Inr (bs ! 0, b))"

text \<open>The length is an \<open>int32\<close> that is converted to \<open>size_t\<close>.\<close>

definition nb_get_bytes :: "nbuf \<Rightarrow> (bytes \<times> nbuf) res" where
  "nb_get_bytes b =
     rbind (nb_take b 4) (\<lambda>(bs, b). nb_take b (unat (scast (add_bytes 0 bs 0 :: i32) :: u64)))"

definition nb_get_raw :: "nbuf \<Rightarrow> nat \<Rightarrow> (bytes \<times> nbuf) res" where
  "nb_get_raw b len = nb_take b len"

definition nb_put_byte :: "nbuf \<Rightarrow> u8 \<Rightarrow> nbuf res" where "nb_put_byte b v = nb_write b [v]"
definition nb_put_int :: "nbuf \<Rightarrow> i32 \<Rightarrow> nbuf res" where "nb_put_int b v = nb_write b (le_bytes 4 v)"
definition nb_put_ulong :: "nbuf \<Rightarrow> u64 \<Rightarrow> nbuf res" where "nb_put_ulong b v = nb_write b (le_bytes 8 v)"

text \<open>\<open>len\<close> bytes at \<open>ba\<close>.\<close>

definition nb_put_raw :: "nbuf \<Rightarrow> bytes \<Rightarrow> nat \<Rightarrow> nbuf res" where
  "nb_put_raw b ba len =
     (if nb_avail b < len then Inl OverflowError
      else rbind (read_block ba 0 len) (nb_write b))"

definition nb_put_bytes :: "nbuf \<Rightarrow> bytes \<Rightarrow> nat \<Rightarrow> nbuf res" where
  "nb_put_bytes b ba len =
     rbind (nb_write b (le_bytes 4 (of_nat len :: u64))) (\<lambda>b. nb_put_raw b ba len)"

definition nb_put_string :: "nbuf \<Rightarrow> bytes \<Rightarrow> nbuf res" where
  "nb_put_string b s = nb_write b (s @ [0])"

text \<open>What of a buffer lies behind its position.\<close>

definition nb_rest :: "nbuf \<Rightarrow> bytes" where "nb_rest b = drop (nb_pos b) (nb_bytes b)"

definition nb_put_buffer :: "nbuf \<Rightarrow> nbuf \<Rightarrow> nbuf res" where
  "nb_put_buffer b src = nb_put_raw b (nb_rest src) (nb_avail src)"

text \<open>
  \<open>get_str\<close>: the string at the position, which must have its terminator in the buffer. An empty one moves the
  position by one, also when there is nothing left to be read.
\<close>

definition nb_get_str :: "nbuf \<Rightarrow> bytes option \<times> nbuf" where
  "nb_get_str b =
     (let s = takeWhile (\<lambda>c. c \<noteq> 0) (nb_rest b)
      in if s = [] then (None, nb_move b 1)
         else if nb_size b \<le> nb_pos b + length s then (None, b)
         else (Some s, nb_move b (length s + 1)))"

text \<open>\<open>get(ptr)\<close> fills the rest of another buffer without a check of its own.\<close>

definition nb_get :: "nbuf \<Rightarrow> nbuf \<Rightarrow> (nbuf \<times> nbuf) res" where
  "nb_get b dst =
     rbind (read_block (nb_bytes b) (nb_pos b) (nb_avail dst)) (\<lambda>bs.
     rbind (write_block (nb_bytes dst) (nb_pos dst) bs) (\<lambda>m.
       Inr (dst \<lparr> nb_bytes := m \<rparr>, nb_move b (nb_avail dst))))"

definition nb_copy :: "(nat \<Rightarrow> u8) \<Rightarrow> nbuf \<Rightarrow> nbuf res" where
  "nb_copy junk b =
     rbind (nb_alloc junk (nb_avail b)) (\<lambda>other.
     rbind (nb_put_buffer other b) (\<lambda>other. Inr (nb_set_pos other 0)))"

definition nb_clone :: "(nat \<Rightarrow> u8) \<Rightarrow> nbuf \<Rightarrow> nbuf res" where
  "nb_clone junk b =
     rbind (nb_alloc junk (nb_size b)) (\<lambda>other.
     rbind (write_block (nb_bytes other) 0 (nb_bytes b)) (\<lambda>m.
       Inr (nb_set_pos (other \<lparr> nb_bytes := m \<rparr>) 0)))"

section \<open>buffer\_serializer\<close>

record nser =
  ns_little :: bool
  ns_bytes :: bytes
  ns_pos :: nat

definition ns_new :: "bool \<Rightarrow> nbuf \<Rightarrow> nser" where
  "ns_new little b = \<lparr> ns_little = little, ns_bytes = nb_bytes b, ns_pos = 0 \<rparr>"

definition ns_set_pos :: "nser \<Rightarrow> nat \<Rightarrow> nser res" where
  "ns_set_pos s p = (if p > length (ns_bytes s) then Inl OverflowError else Inr (s \<lparr> ns_pos := p \<rparr>))"

text \<open>\<open>pos() + len\<close> is computed in 64 bits.\<close>

definition ns_valid :: "nser \<Rightarrow> nat \<Rightarrow> bool" where
  "ns_valid s len \<longleftrightarrow> (ns_pos s + len) mod 2 ^ 64 \<le> length (ns_bytes s)"

definition ns_put_raw :: "nser \<Rightarrow> bytes \<Rightarrow> nser res" where
  "ns_put_raw s bs =
     (if \<not> ns_valid s (length bs) then Inl OverflowError
      else rbind (write_block (ns_bytes s) (ns_pos s) bs) (\<lambda>m.
           ns_set_pos (s \<lparr> ns_bytes := m \<rparr>) (ns_pos s + length bs)))"

definition ns_put_word :: "nser \<Rightarrow> nat \<Rightarrow> 'a::len word \<Rightarrow> nser res" where
  "ns_put_word s n v = ns_put_raw s (if ns_little s then le_bytes n v else rev (le_bytes n v))"

definition ns_put_u8 :: "nser \<Rightarrow> u8 \<Rightarrow> nser res" where "ns_put_u8 s v = ns_put_raw s [v]"
definition ns_put_u16 :: "nser \<Rightarrow> u16 \<Rightarrow> nser res" where "ns_put_u16 s v = ns_put_word s 2 v"
definition ns_put_u32 :: "nser \<Rightarrow> u32 \<Rightarrow> nser res" where "ns_put_u32 s v = ns_put_word s 4 v"
definition ns_put_u64 :: "nser \<Rightarrow> u64 \<Rightarrow> nser res" where "ns_put_u64 s v = ns_put_word s 8 v"

definition ns_put_buffer :: "nser \<Rightarrow> nbuf \<Rightarrow> nser res" where
  "ns_put_buffer s b =
     rbind (read_block (nb_rest b) 0 (nb_avail b)) (ns_put_raw s)"

definition ns_put_bytes :: "nser \<Rightarrow> bytes \<Rightarrow> nser res" where
  "ns_put_bytes s bs =
     (if \<not> ns_valid s (length bs + 4) then Inl OverflowError
      else rbind (ns_put_u32 s (of_nat (length bs))) (\<lambda>s. ns_put_raw s bs))"

text \<open>\<open>get_raw\<close> returns a pointer: the bytes from there to the end of the buffer.\<close>

definition ns_get_raw :: "nser \<Rightarrow> nat \<Rightarrow> (bytes \<times> nser) res" where
  "ns_get_raw s len =
     rbind (ns_set_pos s ((ns_pos s + len) mod 2 ^ 64)) (\<lambda>s'. Inr (drop (ns_pos s) (ns_bytes s), s'))"

definition ns_get_word :: "nser \<Rightarrow> nat \<Rightarrow> ('a::len word \<times> nser) res" where
  "ns_get_word s n =
     (if \<not> ns_valid s n then Inl OverflowError
      else rbind (read_block (ns_bytes s) (ns_pos s) n) (\<lambda>bs.
           rbind (ns_set_pos s (ns_pos s + n)) (\<lambda>s.
             Inr (shift_bytes (if ns_little s then rev bs else bs), s))))"

definition ns_get_u8 :: "nser \<Rightarrow> (u8 \<times> nser) res" where
  "ns_get_u8 s =
     (if \<not> ns_valid s 1 then Inl OverflowError
      else rbind (read_block (ns_bytes s) (ns_pos s) 1) (\<lambda>bs.
           rbind (ns_set_pos s (ns_pos s + 1)) (\<lambda>s. Inr (bs ! 0, s))))"
definition ns_get_u16 :: "nser \<Rightarrow> (u16 \<times> nser) res" where "ns_get_u16 s = ns_get_word s 2"
definition ns_get_u32 :: "nser \<Rightarrow> (u32 \<times> nser) res" where "ns_get_u32 s = ns_get_word s 4"
definition ns_get_u64 :: "nser \<Rightarrow> (u64 \<times> nser) res" where "ns_get_u64 s = ns_get_word s 8"

definition ns_get_bytes :: "nser \<Rightarrow> (bytes \<times> nser) res" where
  "ns_get_bytes s =
     rbind (ns_get_u32 s) (\<lambda>(len, s).
       if \<not> ns_valid s (unat len) then Inl OverflowError
       else rbind (ns_get_raw s (unat len)) (\<lambda>(p, s). Inr (take (unat len) p, s)))"

section \<open>log\_entry\<close>

text \<open>
  The entry owns its buffer. Entries without one, which the library allows and the program never
  makes, are not modelled. The type is an \<open>enum\<close>, of which \<open>custom\<close> has the value 999.
\<close>

record log_entry =
  le_term :: u64
  le_buf :: nbuf
  le_type :: i32

definition app_log :: i32 where "app_log = 1"
definition custom_log :: i32 where "custom_log = 999"

text \<open>\<open>serialize\<close> moves the entry's own buffer back to its start.\<close>

definition le_serialize :: "(nat \<Rightarrow> u8) \<Rightarrow> log_entry \<Rightarrow> (nbuf \<times> log_entry) res" where
  "le_serialize junk e =
     (let e = e \<lparr> le_buf := nb_set_pos (le_buf e) 0 \<rparr> in
      rbind (nb_alloc junk (8 + 1 + nb_size (le_buf e))) (\<lambda>b.
      rbind (nb_put_ulong b (le_term e)) (\<lambda>b.
      rbind (nb_put_byte b (ucast (le_type e))) (\<lambda>b.
      rbind (nb_put_buffer b (le_buf e)) (\<lambda>b.
        Inr (nb_set_pos b 0, e))))))"

definition le_deserialize :: "(nat \<Rightarrow> u8) \<Rightarrow> nbuf \<Rightarrow> (log_entry \<times> nbuf) res" where
  "le_deserialize junk b =
     rbind (nb_get_ulong b) (\<lambda>(term, b).
     rbind (nb_get_byte b) (\<lambda>(t, b).
     rbind (nb_copy junk b) (\<lambda>data.
       Inr (\<lparr> le_term = term, le_buf = data, le_type = ucast t \<rparr>, b))))"

definition le_term_in_buffer :: "nbuf \<Rightarrow> (u64 \<times> nbuf) res" where
  "le_term_in_buffer b = rbind (nb_get_ulong b) (\<lambda>(term, b). Inr (term, nb_set_pos b 0))"

section \<open>Lemmas\<close>

lemma le_bytes_rev: "le_bytes n w = rev (be_bytes n w)"
  by (simp add: le_bytes_def be_bytes_def rev_map mult.commute)

lemma le_bytes_length [simp]: "length (le_bytes n w) = n"
  by (simp add: le_bytes_def)

lemma be_word_snoc: "be_word (bs @ [b]) = (push_bit 8 (be_word bs) OR ucast b :: 'a::len word)"
  by (induction bs) (simp_all add: push_bit_or or.assoc add.commute)

lemma shift_bytes_word: "shift_bytes bs = (be_word bs :: 'a::len word)"
  unfolding shift_bytes_def by (induction bs rule: rev_induct) (simp_all add: be_word_snoc)

lemma add_bytes_word:
  "add_bytes i bs v = v + push_bit (i * 8) (be_word (rev bs) :: 'a::len word)"
proof (induction bs arbitrary: i v)
  case (Cons b bs)
  let ?w = "be_word (rev bs) :: 'a word"
  have "push_bit 8 ?w OR ucast b = push_bit 8 ?w + ucast b"
    by (rule disjunctive_add [symmetric]) (auto simp: bit_simps dest: bit_imp_le_length)
  then have "push_bit (i * 8) (be_word (rev (b # bs)) :: 'a word) =
      push_bit (i * 8) (ucast b) + push_bit (Suc i * 8) ?w"
    by (simp add: be_word_snoc push_bit_add add.commute)
  then show ?case using Cons.IH [of "Suc i" "v + push_bit (i * 8) (ucast b)"] by (simp add: add.assoc)
qed simp

lemma add_le_bytes [simp]:
  "add_bytes 0 (le_bytes 4 v4) 0 = (v4 :: i32)"
  "add_bytes 0 (le_bytes 8 v8) 0 = (v8 :: u64)"
  by (simp_all add: add_bytes_word le_bytes_rev be_word_bytes)

subsection \<open>The invariant of a buffer\<close>

definition nbuf_ok :: "nbuf \<Rightarrow> bool" where
  "nbuf_ok b \<longleftrightarrow> nb_pos b \<le> nb_size b \<and> nb_size b < 0x80000000"

lemma nb_avail_ok [simp]: "nbuf_ok b \<Longrightarrow> nb_avail b = nb_size b - nb_pos b"
  by (simp add: nbuf_ok_def nb_avail_def)

lemma nb_alloc_ok: "nb_alloc junk n = Inr b \<Longrightarrow> nbuf_ok b \<and> nb_size b = n \<and> nb_pos b = 0"
  by (auto simp: nb_alloc_def nbuf_ok_def nb_size_def split: if_splits)

lemma nb_set_pos_ok: "nb_size b < 0x80000000 \<Longrightarrow> nbuf_ok (nb_set_pos b p)"
  by (simp add: nbuf_ok_def nb_set_pos_def nb_size_def)

lemma read_block_eq [simp]: "read_block m k n = Inr bs \<longleftrightarrow> k + n \<le> length m \<and> bs = take n (drop k m)"
  by (auto simp: read_block_def)

lemma write_block_eq [simp]:
  "write_block m k bs = Inr m' \<longleftrightarrow>
   k + length bs \<le> length m \<and> m' = take k m @ bs @ drop (k + length bs) m"
  by (auto simp: write_block_def)

lemma nb_take_eq: "nb_take b n = Inr (bs, b') \<longleftrightarrow>
    n \<le> nb_avail b \<and> nb_pos b + n \<le> nb_size b \<and> bs = take n (nb_rest b) \<and> b' = nb_move b n"
  by (auto simp: nb_take_def rbind_eq_Inr nb_size_def nb_rest_def)

lemma nb_write_eq: "nb_write b bs = Inr b' \<longleftrightarrow>
    length bs \<le> nb_avail b \<and> nb_pos b + length bs \<le> nb_size b \<and>
    b' = nb_move (b \<lparr> nb_bytes := take (nb_pos b) (nb_bytes b) @ bs @ drop (nb_pos b + length bs) (nb_bytes b) \<rparr>)
           (length bs)"
  by (auto simp: nb_write_def rbind_eq_Inr nb_size_def)

lemma nb_take_ok: "nbuf_ok b \<Longrightarrow> nb_take b n = Inr (bs, b') \<Longrightarrow> nbuf_ok b'"
  by (auto simp: nb_take_eq nbuf_ok_def nb_move_def nb_size_def)

lemma nb_write_ok: "nbuf_ok b \<Longrightarrow> nb_write b bs = Inr b' \<Longrightarrow> nbuf_ok b' \<and> nb_size b' = nb_size b"
  by (auto simp: nb_write_eq nbuf_ok_def nb_move_def nb_size_def)

lemma nb_put_raw_ok: "nbuf_ok b \<Longrightarrow> nb_put_raw b ba n = Inr b' \<Longrightarrow> nbuf_ok b' \<and> nb_size b' = nb_size b"
  by (auto simp: nb_put_raw_def rbind_eq_Inr dest: nb_write_ok split: if_splits)

lemma nb_get_ok:
  assumes "nbuf_ok b" "nbuf_ok d" "nb_get b d = Inr (d', b')"
  shows "nbuf_ok d' \<and> nbuf_ok b'"
  using assms by (auto simp: nb_get_def rbind_eq_Inr nbuf_ok_def nb_move_def nb_size_def)

text \<open>Writing and reading with room: what was written so far is the part before the position.\<close>

definition nb_done :: "nbuf \<Rightarrow> bytes" where "nb_done b = take (nb_pos b) (nb_bytes b)"

definition nb_room :: "nbuf \<Rightarrow> nat" where "nb_room b = nb_size b - nb_pos b"

lemma nb_write_step:
  assumes "nbuf_ok b" "length bs \<le> nb_room b"
  shows "\<exists>b'. nb_write b bs = Inr b' \<and> nbuf_ok b' \<and> nb_done b' = nb_done b @ bs \<and>
    nb_room b' = nb_room b - length bs"
proof -
  have "nb_pos b + length bs \<le> nb_size b" using assms unfolding nbuf_ok_def nb_room_def by linarith
  moreover obtain b' where "nb_write b bs = Inr b'"
    using assms calculation unfolding nb_write_eq by (simp add: nb_room_def)
  ultimately show ?thesis
    using assms nb_write_ok [OF assms(1)]
    by (auto simp: nb_write_eq nb_done_def nb_move_def nb_room_def nb_size_def)
qed

lemma nb_put_raw_step:
  assumes "nbuf_ok b" "n \<le> nb_room b" "n \<le> length ba"
  shows "\<exists>b'. nb_put_raw b ba n = Inr b' \<and> nbuf_ok b' \<and> nb_done b' = nb_done b @ take n ba \<and>
    nb_room b' = nb_room b - n"
proof -
  have n: "length (take n ba) = n" using assms(3) by simp
  show ?thesis
    using nb_write_step [OF assms(1), of "take n ba", unfolded n] assms
    by (simp add: nb_put_raw_def nb_room_def read_block_def)
qed

lemma nb_full: "nb_room b = 0 \<Longrightarrow> nbuf_ok b \<Longrightarrow> nb_done b = nb_bytes b"
  by (simp add: nb_room_def nbuf_ok_def nb_done_def nb_size_def)

lemma nb_alloc_step:
  "n < 0x80000000 \<Longrightarrow>
   \<exists>b. nb_alloc junk n = Inr b \<and> nbuf_ok b \<and> nb_done b = [] \<and> nb_room b = n"
  by (simp add: nb_alloc_def nbuf_ok_def nb_done_def nb_room_def nb_size_def)

lemma nb_rest_length: "nbuf_ok b \<Longrightarrow> length (nb_rest b) = nb_room b"
  by (simp add: nb_rest_def nb_room_def nb_size_def)

lemma nb_put_buffer_step:
  assumes "nbuf_ok b" "nbuf_ok d" "nb_room d \<le> nb_room b"
  shows "\<exists>b'. nb_put_buffer b d = Inr b' \<and> nbuf_ok b' \<and> nb_done b' = nb_done b @ nb_rest d \<and>
    nb_room b' = nb_room b - nb_room d"
proof -
  have "nb_avail d = nb_room d" using assms(2) by (simp add: nb_room_def)
  then show ?thesis
    using nb_put_raw_step [OF assms(1,3), of "nb_rest d"] nb_rest_length [OF assms(2)]
    by (simp add: nb_put_buffer_def)
qed

lemma nb_set_pos_0: "nb_set_pos b 0 = \<lparr> nb_bytes = nb_bytes b, nb_pos = 0 \<rparr>"
  by (simp add: nb_set_pos_def)

lemma nb_copy_eq:
  assumes "nbuf_ok b"
  shows "nb_copy junk b = Inr \<lparr> nb_bytes = nb_rest b, nb_pos = 0 \<rparr>"
proof -
  have "nb_avail b = nb_room b" "nb_room b < 0x80000000"
    using assms less_imp_diff_less [of "nb_size b"] by (simp_all add: nb_room_def nbuf_ok_def)
  moreover obtain c where c: "nb_alloc junk (nb_room b) = Inr c" "nbuf_ok c" "nb_done c = []"
      "nb_room c = nb_room b"
    using nb_alloc_step calculation(2) by blast
  moreover obtain d where "nb_put_buffer c b = Inr d" "nbuf_ok d" "nb_done d = nb_rest b" "nb_room d = 0"
    using nb_put_buffer_step [OF c(2) assms] c by auto
  ultimately show ?thesis using nb_full [of d] by (simp add: nb_copy_def nb_set_pos_0)
qed

lemma nb_clone_eq:
  assumes "nb_size b < 0x80000000"
  shows "nb_clone junk b = Inr \<lparr> nb_bytes = nb_bytes b, nb_pos = 0 \<rparr>"
  using assms
  by (simp add: nb_clone_def nb_alloc_def nb_size_def write_block_def nb_set_pos_def)

section \<open>Properties\<close>

text \<open>A guarded operation for n bytes: it throws when there is no room for them, and moves by n when there is.\<close>

definition guarded :: "nbuf \<Rightarrow> nat \<Rightarrow> nbuf res \<Rightarrow> bool" where
  "guarded b n m \<longleftrightarrow>
     (if nb_room b < n then m = Inl OverflowError
      else \<exists>x. m = Inr x \<and> nbuf_ok x \<and> nb_size x = nb_size b \<and> nb_pos x = nb_pos b + n)"

lemma nb_take_guarded:
  assumes "nbuf_ok b"
  shows "guarded b n (rbind (nb_take b n) (\<lambda>(bs, x). Inr x))"
proof (cases "nb_room b < n")
  case False
  then have n: "nb_pos b + n \<le> nb_size b" using assms unfolding nb_room_def nbuf_ok_def by linarith
  then have "nb_take b n = Inr (take n (nb_rest b), nb_move b n)"
    unfolding nb_take_eq using assms by simp
  then show ?thesis using False n assms by (simp add: guarded_def nbuf_ok_def nb_move_def nb_size_def)
qed (use assms in \<open>simp add: guarded_def nb_take_def nb_room_def\<close>)

lemma nb_write_guarded:
  assumes "nbuf_ok b"
  shows "guarded b (length bs) (nb_write b bs)"
proof (cases "nb_room b < length bs")
  case False
  then have n: "nb_pos b + length bs \<le> nb_size b" using assms unfolding nb_room_def nbuf_ok_def by linarith
  obtain x where x: "nb_write b bs = Inr x" using nb_write_step [OF assms, of bs] False by auto
  then show ?thesis
    using False nb_write_ok [OF assms x] by (auto simp: guarded_def nb_write_eq nb_move_def)
qed (use assms in \<open>simp add: guarded_def nb_write_def nb_room_def\<close>)

lemma nb_put_raw_guarded:
  assumes "nbuf_ok b" "n \<le> length ba"
  shows "guarded b n (nb_put_raw b ba n)"
  using nb_write_guarded [OF assms(1), of "take n ba"] assms
  by (simp add: nb_put_raw_def read_block_def guarded_def nb_room_def)

lemma nb_put_bytes_guarded:
  assumes "nbuf_ok b" "n \<le> length ba"
  shows "guarded b (4 + n) (nb_put_bytes b ba n)"
proof -
  have g: "guarded b 4 (nb_write b (le_bytes 4 v))" for v :: u64 using nb_write_guarded [OF assms(1), of "le_bytes 4 v"] by simp
  show ?thesis
  proof (cases "nb_room b < 4")
    case True
    then show ?thesis using g by (simp add: guarded_def nb_put_bytes_def)
  next
    case False
    then obtain x where x: "nb_write b (le_bytes 4 (of_nat n :: u64)) = Inr x" "nbuf_ok x" "nb_size x = nb_size b"
      "nb_pos x = nb_pos b + 4" using g by (auto simp: guarded_def)
    then have "nb_room b < 4 + n \<longleftrightarrow> nb_room x < n" using False by (auto simp: nb_room_def)
    then show ?thesis
      using nb_put_raw_guarded [OF x(2) assms(2)] x by (auto simp: guarded_def nb_put_bytes_def)
  qed
qed

lemma nb_get_bytes_guarded:
  assumes "nbuf_ok b"
  shows "case nb_get_bytes b of Inl e \<Rightarrow> e = OverflowError | Inr (v, x) \<Rightarrow> nbuf_ok x \<and> nb_size x = nb_size b"
proof -
  have take: "case nb_take c n of Inl e \<Rightarrow> e = OverflowError | Inr (v, x) \<Rightarrow> nbuf_ok x \<and> nb_size x = nb_size c"
    if "nbuf_ok c" for c n
    using nb_take_guarded [OF that, of n]
    by (cases "nb_take c n") (auto simp: guarded_def split: if_splits)
  show ?thesis
  proof (cases "nb_take b 4")
    case (Inl e)
    then show ?thesis using take [OF assms, of 4] by (simp add: nb_get_bytes_def)
  next
    case (Inr x)
    then obtain bs c where c: "nb_take b 4 = Inr (bs, c)" "nbuf_ok c" "nb_size c = nb_size b"
      using take [OF assms, of 4] by (cases x) auto
    then show ?thesis
      using take [OF c(2), of "unat (scast (add_bytes 0 bs 0 :: i32) :: u64)"]
      by (auto simp: nb_get_bytes_def split: sum.splits prod.splits)
  qed
qed

lemma nb_get_unguarded:
  assumes "nbuf_ok b" "nbuf_ok d"
  shows "if nb_room b < nb_room d then nb_get b d = Inl MemFault
    else \<exists>x y. nb_get b d = Inr (x, y) \<and> nbuf_ok x \<and> nbuf_ok y \<and> nb_pos x = nb_pos d \<and> nb_pos y = nb_pos b + nb_room d"
proof (cases "nb_room b < nb_room d")
  case True
  then have "\<not> nb_pos b + nb_room d \<le> length (nb_bytes b)"
    using assms(1) by (simp add: nb_room_def nbuf_ok_def nb_size_def)
  then show ?thesis using True assms(2) by (simp add: nb_get_def read_block_def nb_room_def)
next
  case False
  then have n: "nb_pos b + nb_room d \<le> nb_size b" "nb_pos d + nb_room d = nb_size d"
    using assms by (auto simp: nb_room_def nbuf_ok_def)
  define bs where "bs = take (nb_room d) (drop (nb_pos b) (nb_bytes b))"
  have bs: "length bs = nb_room d" using n(1) by (simp add: bs_def nb_size_def)
  have "nb_avail d = nb_room d" using assms(2) by (simp add: nb_room_def)
  then have "nb_get b d = Inr (d\<lparr>nb_bytes := take (nb_pos d) (nb_bytes d) @ bs @ drop (nb_pos d + length bs) (nb_bytes d)\<rparr>,
      nb_move b (nb_room d))"
    using n bs by (simp add: nb_get_def read_block_def write_block_def nb_size_def flip: bs_def)
  then show ?thesis
    using False n bs assms by (auto simp: nbuf_ok_def nb_move_def nb_size_def)
qed

lemma nb_get_str_pos:
  assumes "nbuf_ok b"
  shows "nb_pos b < nb_size b \<Longrightarrow> nbuf_ok (snd (nb_get_str b))"
    "nb_pos b = nb_size b \<Longrightarrow> nb_get_str b = (None, nb_move b 1)"
proof -
  show "nbuf_ok (snd (nb_get_str b))" if "nb_pos b < nb_size b"
    using that assms by (auto simp: nb_get_str_def Let_def nbuf_ok_def nb_move_def nb_size_def)
  show "nb_get_str b = (None, nb_move b 1)" if "nb_pos b = nb_size b"
    using that by (simp add: nb_get_str_def nb_rest_def nb_size_def)
qed



text \<open>The serialized form of an entry.\<close>

definition le_wire :: "log_entry \<Rightarrow> bytes" where
  "le_wire e = le_bytes 8 (le_term e) @ ucast (le_type e) # nb_bytes (le_buf e)"

lemma le_wire_length [simp]: "length (le_wire e) = nb_size (le_buf e) + 9"
  by (simp add: le_wire_def nb_size_def)

lemma le_serialize_eq:
  assumes "nb_size (le_buf e) + 9 < 0x80000000"
  shows "le_serialize junk e =
    Inr (\<lparr> nb_bytes = le_wire e, nb_pos = 0 \<rparr>, e \<lparr> le_buf := nb_set_pos (le_buf e) 0 \<rparr>)"
proof -
  let ?d = "nb_set_pos (le_buf e) 0"
  have d: "nbuf_ok ?d" "nb_rest ?d = nb_bytes (le_buf e)" "nb_room ?d = nb_size (le_buf e)"
    "nb_size ?d = nb_size (le_buf e)"
    using assms by (simp_all add: nbuf_ok_def nb_set_pos_0 nb_size_def nb_rest_def nb_room_def)
  obtain b0 where b0: "nb_alloc junk (9 + nb_size ?d) = Inr b0" "nbuf_ok b0" "nb_done b0 = []"
      "nb_room b0 = 9 + nb_size ?d"
    using nb_alloc_step [of "9 + nb_size ?d" junk] assms d(4) by (auto simp: add.commute)
  obtain b1 where b1: "nb_put_ulong b0 (le_term e) = Inr b1" "nbuf_ok b1"
      "nb_done b1 = le_bytes 8 (le_term e)" "nb_room b1 = 1 + nb_size ?d"
    using nb_write_step [OF b0(2), of "le_bytes 8 (le_term e)"] b0 by (auto simp: nb_put_ulong_def)
  obtain b2 where b2: "nb_put_byte b1 (ucast (le_type e)) = Inr b2" "nbuf_ok b2"
      "nb_done b2 = le_bytes 8 (le_term e) @ [ucast (le_type e)]" "nb_room b2 = nb_size ?d"
    using nb_write_step [OF b1(2), of "[ucast (le_type e)]"] b1 by (auto simp: nb_put_byte_def)
  obtain b3 where b3: "nb_put_buffer b2 ?d = Inr b3" "nbuf_ok b3" "nb_done b3 = le_wire e" "nb_room b3 = 0"
    using nb_put_buffer_step [OF b2(2) d(1)] b2 d by (auto simp: le_wire_def)
  show ?thesis
    using b0 b1 b2 b3 nb_full [of b3] by (simp add: le_serialize_def nb_set_pos_0)
qed

lemma nb_take_step:
  assumes "nbuf_ok b" "nb_rest b = bs @ r"
  shows "nb_take b (length bs) = Inr (bs, nb_move b (length bs)) \<and>
    nbuf_ok (nb_move b (length bs)) \<and> nb_rest (nb_move b (length bs)) = r"
proof -
  have "length bs + length r = nb_size b - nb_pos b" "nb_pos b \<le> nb_size b"
    using nb_rest_length [OF assms(1)] assms by (simp_all add: nb_room_def nbuf_ok_def)
  then have "length bs \<le> nb_size b - nb_pos b" "length bs + nb_pos b \<le> nb_size b" by linarith+
  then show ?thesis
    using assms nb_take_ok [OF assms(1), of "length bs"]
    by (auto simp: nb_take_eq nb_rest_def nb_move_def add.commute drop_drop [symmetric] simp del: drop_drop)
qed

lemma le_deserialize_eq:
  assumes "nb_size (le_buf e) + 9 < 0x80000000"
  shows "\<exists>b. le_deserialize junk \<lparr> nb_bytes = le_wire e, nb_pos = 0 \<rparr> =
    Inr (\<lparr> le_term = le_term e, le_buf = \<lparr> nb_bytes = nb_bytes (le_buf e), nb_pos = 0 \<rparr>,
           le_type = le_type e AND 0xff \<rparr>, b)"
proof -
  let ?b = "\<lparr> nb_bytes = le_wire e, nb_pos = 0 \<rparr>"
  have b: "nbuf_ok ?b" "nb_rest ?b = le_bytes 8 (le_term e) @ [ucast (le_type e)] @ nb_bytes (le_buf e)"
    using assms by (simp_all add: nbuf_ok_def nb_size_def nb_rest_def le_wire_def)
  note 1 = nb_take_step [OF b]
  note 2 = nb_take_step [OF 1 [THEN conjunct2, THEN conjunct1] 1 [THEN conjunct2, THEN conjunct2]]
  have "ucast (ucast (le_type e) :: u8) = le_type e AND 0xff"
    by (rule bit_word_eqI) (auto simp: bit_simps bit_lits)
  then show ?thesis
    using 1 2 by (simp add: le_deserialize_def nb_get_ulong_def nb_get_byte_def nb_copy_eq)
qed

text \<open>
  A log entry with room for its header is restored from its serialized form: term and bytes as
  they were, the position of the buffer at the start. Of the type the last byte survives, so the
  types 1 to 5 do and \<open>custom\<close> does not.
\<close>

theorem log_entry_roundtrip:
  assumes "nb_size (le_buf e) + 9 < 0x80000000"
  shows "\<exists>b b'. le_serialize junk e = Inr (b, e \<lparr> le_buf := nb_set_pos (le_buf e) 0 \<rparr>) \<and>
     le_deserialize junk' b =
       Inr (\<lparr> le_term = le_term e, le_buf = \<lparr> nb_bytes = nb_bytes (le_buf e), nb_pos = 0 \<rparr>,
              le_type = le_type e AND 0xff \<rparr>, b')"
  using le_serialize_eq [OF assms] le_deserialize_eq [OF assms] by blast

theorem log_entry_roundtrip_witness:
  "\<exists>b b'. le_serialize (\<lambda>_. 0) \<lparr> le_term = 3, le_buf = \<lparr> nb_bytes = [1, 2], nb_pos = 1 \<rparr>, le_type = custom_log \<rparr> =
       Inr (b, \<lparr> le_term = 3, le_buf = \<lparr> nb_bytes = [1, 2], nb_pos = 0 \<rparr>, le_type = custom_log \<rparr>) \<and>
     le_deserialize (\<lambda>_. 0) b =
       Inr (\<lparr> le_term = 3, le_buf = \<lparr> nb_bytes = [1, 2], nb_pos = 0 \<rparr>, le_type = 231 \<rparr>, b')"
proof -
  have "(999 :: i32) AND 0xff = 231" by code_simp
  then show ?thesis
    using log_entry_roundtrip [of "\<lparr> le_term = 3, le_buf = \<lparr> nb_bytes = [1, 2], nb_pos = 1 \<rparr>, le_type = custom_log \<rparr>"
        "\<lambda>_. 0" "\<lambda>_. 0"]
    by (simp add: nb_size_def nb_set_pos_0 custom_log_def)
qed

lemma ns_put_raw_step:
  assumes "ns_pos s + length bs \<le> length (ns_bytes s)" "length (ns_bytes s) < 2 ^ 64"
  shows "ns_put_raw s bs = Inr (s \<lparr> ns_bytes := take (ns_pos s) (ns_bytes s) @ bs @
      drop (ns_pos s + length bs) (ns_bytes s), ns_pos := ns_pos s + length bs \<rparr>)"
  using assms
  by (simp add: ns_put_raw_def ns_valid_def write_block_def ns_set_pos_def le_less_trans)

lemma shift_le_bytes:
  assumes "LENGTH('a::len) = 8 * n"
  shows "shift_bytes (rev (le_bytes n v)) = (v :: 'a word)"
  using assms by (simp add: shift_bytes_word le_bytes_rev be_word_bytes)

lemma ns_word_roundtrip:
  fixes v :: "'a::len word"
  assumes "ns_pos s + n \<le> length (ns_bytes s)" "length (ns_bytes s) < 2 ^ 64" "LENGTH('a) = 8 * n"
  shows "\<exists>t. ns_put_word s n v = Inr t \<and> ns_get_word (t \<lparr> ns_pos := ns_pos s \<rparr>) n = Inr (v, t)"
proof -
  let ?bs = "if ns_little s then le_bytes n v else rev (le_bytes n v)"
  let ?t = "s \<lparr> ns_bytes := take (ns_pos s) (ns_bytes s) @ ?bs @ drop (ns_pos s + n) (ns_bytes s),
      ns_pos := ns_pos s + n \<rparr>"
  have len: "length ?bs = n" by simp
  have "ns_put_word s n v = Inr ?t"
    using ns_put_raw_step [of s ?bs, unfolded len, OF assms(1,2)] unfolding ns_put_word_def .
  moreover have "ns_get_word (?t \<lparr> ns_pos := ns_pos s \<rparr>) n = Inr (v, ?t)"
    using assms len shift_le_bytes [OF assms(3), of v]
    by (auto simp: ns_get_word_def ns_valid_def read_block_def ns_set_pos_def le_less_trans)
  ultimately show ?thesis by blast
qed

text \<open>
  What the serializer puts at a position with room for it, it gets back from there, in either
  byte order and for every width, and both times the position moves behind it.
\<close>

theorem serializer_roundtrip:
  assumes "ns_pos s + 8 \<le> length (ns_bytes s)" "length (ns_bytes s) < 2 ^ 63"
  shows "(\<exists>t. ns_put_u8 s v1 = Inr t \<and> ns_get_u8 (t \<lparr> ns_pos := ns_pos s \<rparr>) = Inr (v1, t)) \<and>
    (\<exists>t. ns_put_u16 s v2 = Inr t \<and> ns_get_u16 (t \<lparr> ns_pos := ns_pos s \<rparr>) = Inr (v2, t)) \<and>
    (\<exists>t. ns_put_u32 s v4 = Inr t \<and> ns_get_u32 (t \<lparr> ns_pos := ns_pos s \<rparr>) = Inr (v4, t)) \<and>
    (\<exists>t. ns_put_u64 s v8 = Inr t \<and> ns_get_u64 (t \<lparr> ns_pos := ns_pos s \<rparr>) = Inr (v8, t))"
proof -
  have "length (ns_bytes s) < 2 ^ 64" using assms(2) by simp
  note w = ns_word_roundtrip [OF _ this]
  have "ns_put_u8 s v1 = Inr (s \<lparr> ns_bytes := take (ns_pos s) (ns_bytes s) @ [v1] @
      drop (ns_pos s + 1) (ns_bytes s), ns_pos := ns_pos s + 1 \<rparr>)" (is "_ = Inr ?t")
    using ns_put_raw_step [of s "[v1]"] assms by (simp add: ns_put_u8_def)
  moreover have "ns_get_u8 (?t \<lparr> ns_pos := ns_pos s \<rparr>) = Inr (v1, ?t)"
    using assms by (auto simp: ns_get_u8_def ns_valid_def read_block_def ns_set_pos_def)
  ultimately show ?thesis
    using assms(1) w [of 2 v2] w [of 4 v4] w [of 8 v8]
    unfolding ns_put_u16_def ns_get_u16_def ns_put_u32_def ns_get_u32_def ns_put_u64_def ns_get_u64_def
    by (intro conjI) (blast | simp)+
qed

theorem serializer_roundtrip_witness:
  "\<exists>t. ns_put_u32 \<lparr> ns_little = False, ns_bytes = replicate 12 0, ns_pos = 3 \<rparr> 0xdeadbeef = Inr t \<and>
     ns_get_u32 (t \<lparr> ns_pos := 3 \<rparr>) = Inr (0xdeadbeef, t)"
  using serializer_roundtrip [of "\<lparr> ns_little = False, ns_bytes = replicate 12 0, ns_pos = 3 \<rparr>" 0 0 "0xdeadbeef" 0]
  by simp

section \<open>The rest of the serializer\<close>

text \<open>The signed words are put and got as the unsigned ones of their width.\<close>

definition ns_put_i8 :: "nser \<Rightarrow> i8 \<Rightarrow> nser res" where "ns_put_i8 s v = ns_put_raw s [ucast v]"
definition ns_put_i16 :: "nser \<Rightarrow> i16 \<Rightarrow> nser res" where "ns_put_i16 s v = ns_put_word s 2 v"
definition ns_put_i32 :: "nser \<Rightarrow> i32 \<Rightarrow> nser res" where "ns_put_i32 s v = ns_put_word s 4 v"
definition ns_put_i64 :: "nser \<Rightarrow> i64 \<Rightarrow> nser res" where "ns_put_i64 s v = ns_put_word s 8 v"

definition ns_get_i8 :: "nser \<Rightarrow> (i8 \<times> nser) res" where
  "ns_get_i8 s = rbind (ns_get_u8 s) (\<lambda>(v, s). Inr (ucast v, s))"
definition ns_get_i16 :: "nser \<Rightarrow> (i16 \<times> nser) res" where "ns_get_i16 s = ns_get_word s 2"
definition ns_get_i32 :: "nser \<Rightarrow> (i32 \<times> nser) res" where "ns_get_i32 s = ns_get_word s 4"
definition ns_get_i64 :: "nser \<Rightarrow> (i64 \<times> nser) res" where "ns_get_i64 s = ns_get_word s 8"

definition ns_put_str :: "nser \<Rightarrow> bytes \<Rightarrow> nser res" where "ns_put_str s str = ns_put_bytes s str"
definition ns_get_str :: "nser \<Rightarrow> (bytes \<times> nser) res" where "ns_get_str s = ns_get_bytes s"

text \<open>
  \<open>put_cstr\<close> copies the characters at a pointer, the first list, up to and with the zero character,
  and checks the room for each of them.
\<close>

fun put_chars :: "bytes \<Rightarrow> bytes \<Rightarrow> nat \<Rightarrow> (bytes \<times> nat) res" where
  "put_chars [] m p = Inl MemFault"
| "put_chars (c # cs) m p =
     (if p \<ge> length m then Inl OverflowError
      else if c = 0 then Inr (m[p := 0], p + 1)
      else put_chars cs (m[p := c]) (p + 1))"

definition ns_put_cstr :: "nser \<Rightarrow> bytes \<Rightarrow> nser res" where
  "ns_put_cstr s str =
     rbind (put_chars str (ns_bytes s) (ns_pos s)) (\<lambda>(m, p). ns_set_pos (s \<lparr> ns_bytes := m \<rparr>) p)"

text \<open>\<open>strlen\<close> runs out of the buffer when no zero character is behind the position.\<close>

definition ns_get_cstr :: "nser \<Rightarrow> (bytes \<times> nser) res" where
  "ns_get_cstr s =
     (let str = takeWhile (\<lambda>c. c \<noteq> 0) (drop (ns_pos s) (ns_bytes s)) in
      if length (ns_bytes s) \<le> ns_pos s + length str then Inl MemFault
      else rbind (ns_set_pos s (ns_pos s + length str + 1)) (\<lambda>s. Inr (str, s)))"

text \<open>\<open>get_buffer\<close> fills the rest of a buffer and does not move its position.\<close>

definition ns_get_buffer :: "nser \<Rightarrow> nbuf \<Rightarrow> (nbuf \<times> nser) res" where
  "ns_get_buffer s dst =
     rbind (ns_get_raw s (nb_avail dst)) (\<lambda>(p, s).
     rbind (read_block p 0 (nb_avail dst)) (\<lambda>bs.
     rbind (write_block (nb_bytes dst) (nb_pos dst) bs) (\<lambda>m.
       Inr (dst \<lparr> nb_bytes := m \<rparr>, s))))"

text \<open>A serializer works on the memory of its buffer, whose own position it leaves alone.\<close>

definition ns_back :: "nbuf \<Rightarrow> nser \<Rightarrow> nbuf" where "ns_back b s = b \<lparr> nb_bytes := ns_bytes s \<rparr>"

subsection \<open>Writing and reading one item after the other\<close>

text \<open>
  A buffer, and a serializer in little order, between what is done and what is not. The equations
  let the simplifier run a whole sequence of puts or gets.
\<close>

definition nb_part :: "bytes \<Rightarrow> bytes \<Rightarrow> nbuf" where
  "nb_part d r = \<lparr> nb_bytes = d @ r, nb_pos = length d \<rparr>"

definition ns_part :: "bytes \<Rightarrow> bytes \<Rightarrow> nser" where
  "ns_part d r = \<lparr> ns_little = True, ns_bytes = d @ r, ns_pos = length d \<rparr>"

lemma nb_part_alloc: "n < 0x80000000 \<Longrightarrow> nb_alloc junk n = Inr (nb_part [] (map junk [0..<n]))"
  by (simp add: nb_alloc_def nb_part_def)

lemma nb_part_write:
  "length d + length r < 0x80000000 \<Longrightarrow> length bs \<le> length r \<Longrightarrow>
     nb_write (nb_part d r) bs = Inr (nb_part (d @ bs) (drop (length bs) r))"
  by (simp add: nb_write_def nb_part_def nb_avail_def nb_size_def nb_move_def write_block_def)

lemma nb_part_puts:
  assumes "length d + length r < 0x80000000"
  shows "4 \<le> length r \<Longrightarrow> nb_put_int (nb_part d r) i = Inr (nb_part (d @ le_bytes 4 i) (drop 4 r))"
    "8 \<le> length r \<Longrightarrow> nb_put_ulong (nb_part d r) u = Inr (nb_part (d @ le_bytes 8 u) (drop 8 r))"
    "1 \<le> length r \<Longrightarrow> nb_put_byte (nb_part d r) b = Inr (nb_part (d @ [b]) (drop 1 r))"
    "length s + 1 \<le> length r \<Longrightarrow> nb_put_string (nb_part d r) s = Inr (nb_part (d @ s @ [0]) (drop (length s + 1) r))"
    "length m \<le> length r \<Longrightarrow> nb_put_raw (nb_part d r) m (length m) = Inr (nb_part (d @ m) (drop (length m) r))"
    "4 + length m \<le> length r \<Longrightarrow> nb_put_bytes (nb_part d r) m (length m) =
       Inr (nb_part (d @ le_bytes 4 (of_nat (length m) :: u64) @ m) (drop (4 + length m) r))"
    "length m \<le> length r \<Longrightarrow> nb_put_buffer (nb_part d r) \<lparr> nb_bytes = m, nb_pos = 0 \<rparr> =
       Inr (nb_part (d @ m) (drop (length m) r))"
proof -
  have raw: "nb_put_raw (nb_part d r) m (length m) = Inr (nb_part (d @ m) (drop (length m) r))"
    if "length m \<le> length r" "length d + length r < 0x80000000" for d r m
  proof -
    have "\<not> nb_avail (nb_part d r) < length m"
      using that by (simp add: nb_part_def nb_avail_def nb_size_def)
    then show ?thesis using nb_part_write [OF that(2,1)] by (simp add: nb_put_raw_def read_block_def)
  qed
  show "4 \<le> length r \<Longrightarrow> nb_put_int (nb_part d r) i = Inr (nb_part (d @ le_bytes 4 i) (drop 4 r))"
    "8 \<le> length r \<Longrightarrow> nb_put_ulong (nb_part d r) u = Inr (nb_part (d @ le_bytes 8 u) (drop 8 r))"
    "1 \<le> length r \<Longrightarrow> nb_put_byte (nb_part d r) b = Inr (nb_part (d @ [b]) (drop 1 r))"
    "length s + 1 \<le> length r \<Longrightarrow> nb_put_string (nb_part d r) s = Inr (nb_part (d @ s @ [0]) (drop (length s + 1) r))"
    "length m \<le> length r \<Longrightarrow> nb_put_raw (nb_part d r) m (length m) = Inr (nb_part (d @ m) (drop (length m) r))"
    using assms by (simp_all add: nb_put_int_def nb_put_ulong_def nb_put_byte_def nb_put_string_def nb_part_write raw)
  show "4 + length m \<le> length r \<Longrightarrow> nb_put_bytes (nb_part d r) m (length m) =
       Inr (nb_part (d @ le_bytes 4 (of_nat (length m) :: u64) @ m) (drop (4 + length m) r))"
    using assms by (simp add: nb_put_bytes_def nb_part_write raw add.commute)
  have "nb_avail \<lparr> nb_bytes = m, nb_pos = 0 \<rparr> = length m" if "length m < 0x80000000"
    using that by (simp add: nb_avail_def nb_size_def)
  then show "length m \<le> length r \<Longrightarrow> nb_put_buffer (nb_part d r) \<lparr> nb_bytes = m, nb_pos = 0 \<rparr> =
       Inr (nb_part (d @ m) (drop (length m) r))"
    using assms by (simp add: nb_put_buffer_def nb_rest_def raw)
qed

lemma nb_part_done: "nb_set_pos (nb_part d []) 0 = \<lparr> nb_bytes = d, nb_pos = 0 \<rparr>"
  by (simp add: nb_set_pos_def nb_part_def)

lemma ns_part_new: "ns_new True \<lparr> nb_bytes = m, nb_pos = p \<rparr> = ns_part [] m"
  by (simp add: ns_new_def ns_part_def)

lemma ns_part_word:
  fixes v :: "'a::len word"
  assumes "length d + 8 + length r < 2 ^ 64" "n \<le> 8" "LENGTH('a) = 8 * n"
  shows "ns_get_word (ns_part d (le_bytes n v @ r)) n = Inr (v, ns_part (d @ le_bytes n v) r)"
proof -
  have "ns_valid (ns_part d (le_bytes n v @ r)) n" using assms by (simp add: ns_valid_def ns_part_def)
  then show ?thesis
    using shift_le_bytes [OF assms(3), of v]
    by (simp add: ns_get_word_def read_block_def ns_set_pos_def ns_part_def)
qed

lemma ns_part_gets:
  assumes "length d + 8 + length r < 2 ^ 64"
  shows "ns_get_u8 (ns_part d (b # r)) = Inr (b, ns_part (d @ [b]) r)"
    "ns_get_u32 (ns_part d (le_bytes 4 w @ r)) = Inr (w, ns_part (d @ le_bytes 4 w) r)"
    "ns_get_u64 (ns_part d (le_bytes 8 u @ r)) = Inr (u, ns_part (d @ le_bytes 8 u) r)"
    "ns_get_i32 (ns_part d (le_bytes 4 i @ r)) = Inr (i, ns_part (d @ le_bytes 4 i) r)"
  using assms
  by (simp_all add: ns_get_u32_def ns_get_u64_def ns_get_i32_def ns_part_word)
    (simp add: ns_get_u8_def ns_valid_def ns_part_def read_block_def ns_set_pos_def)

lemma ns_part_cstr:
  assumes "0 \<notin> set s"
  shows "ns_get_cstr (ns_part d (s @ 0 # r)) = Inr (s, ns_part (d @ s @ [0]) r)"
proof -
  have "takeWhile (\<lambda>c. c \<noteq> 0) (s @ 0 # r) = s" using assms by (subst takeWhile_append2) auto
  then show ?thesis by (simp add: ns_get_cstr_def ns_part_def Let_def ns_set_pos_def)
qed

lemma ns_part_bytes:
  assumes "length d + 8 + length m + length r < 2 ^ 64" "length m < 2 ^ 32"
  shows "ns_get_bytes (ns_part d (le_bytes 4 (of_nat (length m) :: u32) @ m @ r)) =
    Inr (m, ns_part (d @ le_bytes 4 (of_nat (length m) :: u32) @ m) r)"
proof -
  let ?w = "of_nat (length m) :: u32"
  have "ns_get_u32 (ns_part d (le_bytes 4 ?w @ m @ r)) = Inr (?w, ns_part (d @ le_bytes 4 ?w) (m @ r))"
    by (rule ns_part_gets(2)) (use assms in simp)
  moreover have "unat ?w = length m" using assms(2) by (simp add: unsigned_of_nat take_bit_nat_eq_self)
  ultimately show ?thesis
    using assms by (simp add: ns_get_bytes_def ns_valid_def ns_get_raw_def ns_set_pos_def ns_part_def)
qed

lemma le_bytes_4_64: "le_bytes 4 (of_nat n :: u64) = le_bytes 4 (of_nat n :: u32)"
  unfolding le_bytes_def
proof (rule map_cong [OF refl])
  fix i :: nat
  assume i: "i \<in> set [0..<4]"
  show "ucast (drop_bit (i * 8) (of_nat n :: u64)) = (ucast (drop_bit (i * 8) (of_nat n :: u32)) :: u8)"
  proof (rule bit_word_eqI)
    fix k
    assume "k < LENGTH(8)"
    then have "i * 8 + k < 32" "k < 8" using i by auto
    then show "bit (ucast (drop_bit (i * 8) (of_nat n :: u64)) :: u8) k =
        bit (ucast (drop_bit (i * 8) (of_nat n :: u32)) :: u8) k"
      by (simp add: bit_simps)
  qed
qed

end
