(* ===== verification/Log_Contract.thy ===== *)
theory Log_Contract
  imports Nuraft_Buffer
begin

text \<open>
  The contract of a log store, as the comments of \<open>NuRaft/include/libnuraft/log_store.hxx\<close> state it
  for every implementation: the log is a start index and the entries from there on. The first
  locale is about growing and reading the log, the second adds what replaces and discards entries.
  \<open>Mem_Log_Store\<close> provides both, \<open>Rocks_Log_Store\<close> the first, for a log that was never compacted.
\<close>

section \<open>What a log holds\<close>

text \<open>An entry without the position of its buffer.\<close>

type_synonym entry_view = "u64 \<times> i32 \<times> bytes"

definition entry_view :: "log_entry \<Rightarrow> entry_view" where
  "entry_view e = (le_term e, le_type e, nb_bytes (le_buf e))"

text \<open>An entry that can be serialized and read back.\<close>

definition entry_ok :: "log_entry \<Rightarrow> bool" where
  "entry_ok e \<longleftrightarrow> nb_size (le_buf e) + 9 < 0xffffff \<and> le_type e AND 0xff = le_type e"

section \<open>Growing and reading\<close>

locale log_store =
  fixes inv :: "'s \<Rightarrow> bool"
    and start :: "'s \<Rightarrow> nat"
    and ents :: "'s \<Rightarrow> entry_view list"
    and next_slot :: "'s \<Rightarrow> (u64 \<times> 's) res"
    and append :: "'s \<Rightarrow> log_entry \<Rightarrow> (u64 \<times> 's) res"
    and entry_at :: "'s \<Rightarrow> u64 \<Rightarrow> (log_entry \<times> 's) res"
    and term_at :: "'s \<Rightarrow> u64 \<Rightarrow> (u64 \<times> 's) res"
  assumes next_slot: "inv s \<Longrightarrow> \<exists>s'. next_slot s = Inr (of_nat (start s + length (ents s)), s') \<and>
        inv s' \<and> start s' = start s \<and> ents s' = ents s"
    and append: "inv s \<Longrightarrow> entry_ok e \<Longrightarrow> start s + length (ents s) + 1 < 2 ^ 64 \<Longrightarrow>
        \<exists>s'. append s e = Inr (of_nat (start s + length (ents s)), s') \<and>
          inv s' \<and> start s' = start s \<and> ents s' = ents s @ [entry_view e]"
    and entry_at: "inv s \<Longrightarrow> k < length (ents s) \<Longrightarrow>
        \<exists>e s'. entry_at s (of_nat (start s + k)) = Inr (e, s') \<and> entry_view e = ents s ! k \<and>
          inv s' \<and> start s' = start s \<and> ents s' = ents s"
    and term_at: "inv s \<Longrightarrow> k < length (ents s) \<Longrightarrow>
        \<exists>s'. term_at s (of_nat (start s + k)) = Inr (fst (ents s ! k), s') \<and>
          inv s' \<and> start s' = start s \<and> ents s' = ents s"
begin

text \<open>Appending one after the other gives consecutive indices, the first of them the next slot.\<close>

fun append_all :: "'s \<Rightarrow> log_entry list \<Rightarrow> (u64 list \<times> 's) res" where
  "append_all s [] = Inr ([], s)"
| "append_all s (e # es) =
     rbind (append s e) (\<lambda>(i, s). rbind (append_all s es) (\<lambda>(is, s). Inr (i # is, s)))"

lemma append_all:
  assumes "inv s" "\<forall>e \<in> set es. entry_ok e" "start s + length (ents s) + length es < 2 ^ 64"
  shows "\<exists>s'. append_all s es =
      Inr (map (\<lambda>k. of_nat (start s + length (ents s) + k)) [0..<length es], s') \<and>
    inv s' \<and> start s' = start s \<and> ents s' = ents s @ map entry_view es"
  using assms
proof (induction es arbitrary: s)
  case (Cons e es)
  obtain t where t: "append s e = Inr (of_nat (start s + length (ents s)), t)" "inv t"
      "start t = start s" "ents t = ents s @ [entry_view e]"
    using append [OF Cons.prems(1), of e] Cons.prems(2,3) by auto
  then obtain u where u: "append_all t es =
      Inr (map (\<lambda>k. of_nat (start s + length (ents s) + 1 + k)) [0..<length es], u)"
      "inv u" "start u = start s" "ents u = ents s @ entry_view e # map entry_view es"
    using Cons.IH [of t] Cons.prems(2,3) by auto
  have "[0..<length (e # es)] = 0 # map Suc [0..<length es]" by (simp add: map_Suc_upt upt_conv_Cons del: upt_Suc)
  then show ?case using t(1) u by (simp add: comp_def del: upt_Suc)
qed simp

text \<open>What was appended is read back at the index that \<open>append\<close> returned, and nothing before it changed.\<close>

lemma read_appended:
  assumes "inv s" "\<forall>e \<in> set es. entry_ok e" "start s + length (ents s) + length es < 2 ^ 64"
    and "append_all s es = Inr (is, s')" "k < length es"
  shows "\<exists>e t. entry_at s' (is ! k) = Inr (e, t) \<and> entry_view e = entry_view (es ! k)"
proof -
  have s': "is = map (\<lambda>k. of_nat (start s + length (ents s) + k)) [0..<length es]" "inv s'"
    "start s' = start s" "ents s' = ents s @ map entry_view es"
    using append_all [OF assms(1-3)] assms(4) by auto
  then have "length (ents s) + k < length (ents s')" "is ! k = of_nat (start s' + (length (ents s) + k))"
    using assms(5) by (simp_all add: add.assoc)
  then show ?thesis
    using entry_at [OF s'(2), of "length (ents s) + k"] s'(4) assms(5) by (auto simp: nth_append)
qed

lemma read_old:
  assumes "inv s" "entry_ok e" "start s + length (ents s) + 1 < 2 ^ 64"
    and "append s e = Inr (i, s')" "k < length (ents s)"
  shows "\<exists>e t e' t'. entry_at s (of_nat (start s + k)) = Inr (e, t) \<and>
    entry_at s' (of_nat (start s + k)) = Inr (e', t') \<and> entry_view e' = entry_view e"
proof -
  have s': "inv s'" "start s' = start s" "ents s' = ents s @ [entry_view e]"
    using append [OF assms(1-3)] assms(4) by auto
  then show ?thesis
    using entry_at [OF assms(1,5)] entry_at [OF s'(1), of k] assms(5) by (auto simp: nth_append)
qed

end

section \<open>Replacing and discarding\<close>

locale full_log_store = log_store +
  fixes write_at :: "'a \<Rightarrow> u64 \<Rightarrow> log_entry \<Rightarrow> 'a res"
    and log_entries :: "'a \<Rightarrow> u64 \<Rightarrow> u64 \<Rightarrow> log_entry list res"
    and compact :: "nat \<Rightarrow> 'a \<Rightarrow> u64 \<Rightarrow> (bool \<times> 'a) res"
  assumes write_at: "inv s \<Longrightarrow> entry_ok e \<Longrightarrow> k \<le> length (ents s) \<Longrightarrow> start s + k + 1 < 2 ^ 64 \<Longrightarrow>
        \<exists>s'. write_at s (of_nat (start s + k)) e = Inr s' \<and>
          inv s' \<and> start s' = start s \<and> ents s' = take k (ents s) @ [entry_view e]"
    and log_entries: "inv s \<Longrightarrow> j \<le> k \<Longrightarrow> k \<le> length (ents s) \<Longrightarrow>
        k - j < 2 ^ 59 \<Longrightarrow>
        \<exists>es. log_entries s (of_nat (start s + j)) (of_nat (start s + k)) = Inr es \<and>
          map entry_view es = take (k - j) (drop j (ents s))"
    and compact: "inv s \<Longrightarrow> k < length (ents s) \<Longrightarrow> k + 1 < fuel \<Longrightarrow>
        \<exists>s'. compact fuel s (of_nat (start s + k)) = Inr (True, s') \<and>
          inv s' \<and> start s' = start s + k + 1 \<and> ents s' = drop (k + 1) (ents s)"
begin

text \<open>Overwriting truncates: the next slot is the one behind the entry written.\<close>

lemma overwrite_truncates:
  assumes "inv s" "entry_ok e" "k \<le> length (ents s)" "start s + k + 1 < 2 ^ 64"
  shows "\<exists>s' t. write_at s (of_nat (start s + k)) e = Inr s' \<and>
    next_slot s' = Inr (of_nat (start s + k + 1), t) \<and>
    (\<forall>j < k. ents s' ! j = ents s ! j) \<and> ents s' ! k = entry_view e"
proof -
  obtain s' where s': "write_at s (of_nat (start s + k)) e = Inr s'" "inv s'" "start s' = start s"
      "ents s' = take k (ents s) @ [entry_view e]"
    using write_at [OF assms] by blast
  then show ?thesis
    using next_slot [OF s'(2)] assms(3) by (auto simp: nth_append min_def add.assoc)
qed

text \<open>Compaction keeps every entry that is left at its index, and the place of the next one.\<close>

lemma compact_keeps:
  assumes "inv s" "k < length (ents s)" "k + 1 < fuel" "k < j" "j < length (ents s)"
  shows "\<exists>s' e t. compact fuel s (of_nat (start s + k)) = Inr (True, s') \<and>
    start s' = start s + k + 1 \<and> start s' + length (ents s') = start s + length (ents s) \<and>
    entry_at s' (of_nat (start s + j)) = Inr (e, t) \<and> entry_view e = ents s ! j"
proof -
  obtain s' where s': "compact fuel s (of_nat (start s + k)) = Inr (True, s')" "inv s'"
      "start s' = start s + k + 1" "ents s' = drop (k + 1) (ents s)"
    using compact [OF assms(1-3)] by blast
  obtain i where i: "j = k + 1 + i" using assms(4) by (metis Suc_eq_plus1 Suc_leI le_Suc_ex)
  have l: "i < length (ents s')" "start s' + i = start s + j" using s'(3,4) assms(5) i by simp_all
  obtain e t where "entry_at s' (of_nat (start s + j)) = Inr (e, t)" "entry_view e = ents s' ! i"
    using entry_at [OF s'(2) l(1)] unfolding l(2) by blast
  moreover have "ents s' ! i = ents s ! j" using s'(4) assms(5) i by simp
  moreover have "start s' + length (ents s') = start s + length (ents s)" using s'(3,4) assms(2) by simp
  ultimately show ?thesis using s'(1,3) by metis
qed

end

end
