(* ===== verification/Mem_Log_Store.thy ===== *)
theory Mem_Log_Store
  imports Log_Contract
begin

text \<open>
  The log store in memory of \<open>kvstore/in_memory_log_store.hxx\<close> and \<open>.cxx\<close>. \<open>ml_logs\<close> is the map
  \<open>logs_\<close>, which holds a dummy entry under index 0; \<open>ml_start\<close> is \<open>start_idx_\<close>. The stored entries
  are clones that nobody else refers to, so an entry is part of the map. Every operation holds the
  lock while it works on the map; the model is the store under one thread.
\<close>

section \<open>The code\<close>

record mem_log =
  ml_logs :: "(u64 \<times> log_entry) list"
  ml_start :: u64

definition make_clone :: "(nat \<Rightarrow> u8) \<Rightarrow> log_entry \<Rightarrow> log_entry res" where
  "make_clone junk e =
     rbind (nb_clone junk (le_buf e)) (\<lambda>b.
       Inr \<lparr> le_term = le_term e, le_buf = b, le_type = le_type e \<rparr>)"

definition ml_new :: "(nat \<Rightarrow> u8) \<Rightarrow> mem_log res" where
  "ml_new junk =
     rbind (nb_alloc junk 8) (\<lambda>b.
       Inr \<lparr> ml_logs = [(0, \<lparr> le_term = 0, le_buf = b, le_type = app_log \<rparr>)], ml_start = 1 \<rparr>)"

definition ml_next_slot :: "mem_log \<Rightarrow> u64" where
  "ml_next_slot s = ml_start s + of_nat (length (ml_logs s)) - 1"

definition ml_start_index :: "mem_log \<Rightarrow> u64" where "ml_start_index s = ml_start s"

text \<open>\<open>find(index)\<close>, and \<open>find(0)\<close> where that is the end; the result is dereferenced.\<close>

definition find_or_dummy :: "(u64 \<times> log_entry) list \<Rightarrow> u64 \<Rightarrow> log_entry res" where
  "find_or_dummy logs i =
     (case map_of logs i of
        Some e \<Rightarrow> Inr e
      | None \<Rightarrow> (case map_of logs 0 of Some e \<Rightarrow> Inr e | None \<Rightarrow> Inl MemFault))"

definition ml_last_entry :: "(nat \<Rightarrow> u8) \<Rightarrow> mem_log \<Rightarrow> log_entry res" where
  "ml_last_entry junk s =
     rbind (find_or_dummy (ml_logs s) (ml_next_slot s - 1)) (make_clone junk)"

definition ml_append :: "(nat \<Rightarrow> u8) \<Rightarrow> mem_log \<Rightarrow> log_entry \<Rightarrow> (u64 \<times> mem_log) res" where
  "ml_append junk s e =
     rbind (make_clone junk e) (\<lambda>clone.
       let idx = ml_start s + of_nat (length (ml_logs s)) - 1
       in Inr (idx, s \<lparr> ml_logs := put_item (idx, clone) (ml_logs s) \<rparr>))"

text \<open>The loop erases every entry from \<open>lower_bound(index)\<close> to the end.\<close>

definition ml_write_at :: "(nat \<Rightarrow> u8) \<Rightarrow> mem_log \<Rightarrow> u64 \<Rightarrow> log_entry \<Rightarrow> mem_log res" where
  "ml_write_at junk s index e =
     rbind (make_clone junk e) (\<lambda>clone.
       Inr (s \<lparr> ml_logs := put_item (index, clone) (filter (\<lambda>x. fst x < index) (ml_logs s)) \<rparr>))"

text \<open>
  Iterations of \<open>for (ii = start; ii < end; ++ii)\<close>, and \<open>vector::resize\<close>, which throws above the
  greatest size of a vector of shared pointers.
\<close>

definition loop_count :: "u64 \<Rightarrow> u64 \<Rightarrow> nat" where
  "loop_count a b = (if a < b then unat (b - a) else 0)"

definition check_resize :: "u64 \<Rightarrow> unit res" where
  "check_resize n = (if unat n \<ge> 2 ^ 59 then Inl LengthError else Inr ())"

fun ml_collect :: "(nat \<Rightarrow> u8) \<Rightarrow> (u64 \<times> log_entry) list \<Rightarrow> nat \<Rightarrow> u64 \<Rightarrow> log_entry list res" where
  "ml_collect junk logs 0 ii = Inr []"
| "ml_collect junk logs (Suc n) ii =
     (case map_of logs ii of
        None \<Rightarrow> Inl AssertFailed
      | Some src \<Rightarrow> rbind (make_clone junk src) (\<lambda>c.
          rbind (ml_collect junk logs n (ii + 1)) (\<lambda>cs. Inr (c # cs))))"

definition ml_log_entries :: "(nat \<Rightarrow> u8) \<Rightarrow> mem_log \<Rightarrow> u64 \<Rightarrow> u64 \<Rightarrow> log_entry list res" where
  "ml_log_entries junk s start end =
     rbind (check_resize (end - start)) (\<lambda>_.
       ml_collect junk (ml_logs s) (loop_count start end) start)"

fun ml_collect_ext ::
    "(nat \<Rightarrow> u8) \<Rightarrow> (u64 \<times> log_entry) list \<Rightarrow> i64 \<Rightarrow> nat \<Rightarrow> u64 \<Rightarrow> u64 \<Rightarrow> log_entry list res" where
  "ml_collect_ext junk logs hint 0 ii accum = Inr []"
| "ml_collect_ext junk logs hint (Suc n) ii accum =
     (case map_of logs ii of
        None \<Rightarrow> Inl AssertFailed
      | Some src \<Rightarrow> rbind (make_clone junk src) (\<lambda>c.
          let accum = accum + of_nat (nb_size (le_buf src))
          in if hint \<noteq> 0 \<and> accum \<ge> hint then Inr [c]
             else rbind (ml_collect_ext junk logs hint n (ii + 1) accum) (\<lambda>cs. Inr (c # cs))))"

definition ml_log_entries_ext ::
    "(nat \<Rightarrow> u8) \<Rightarrow> mem_log \<Rightarrow> u64 \<Rightarrow> u64 \<Rightarrow> i64 \<Rightarrow> log_entry list res" where
  "ml_log_entries_ext junk s start end hint =
     (if sint hint < 0 then Inr []
      else ml_collect_ext junk (ml_logs s) hint (loop_count start end) start 0)"

definition ml_entry_at :: "(nat \<Rightarrow> u8) \<Rightarrow> mem_log \<Rightarrow> u64 \<Rightarrow> log_entry res" where
  "ml_entry_at junk s index = rbind (find_or_dummy (ml_logs s) index) (make_clone junk)"

definition ml_term_at :: "mem_log \<Rightarrow> u64 \<Rightarrow> u64 res" where
  "ml_term_at s index = rbind (find_or_dummy (ml_logs s) index) (\<lambda>e. Inr (le_term e))"

subsection \<open>Packs\<close>

text \<open>
  The first loop of \<open>pack\<close>: \<open>logs_[ii]\<close> of an index that is missing is a null pointer, which is
  dereferenced. Serializing rewinds the buffer of the stored entry.
\<close>

fun ml_serialize_all ::
    "(nat \<Rightarrow> u8) \<Rightarrow> nat \<Rightarrow> u64 \<Rightarrow> (u64 \<times> log_entry) list \<Rightarrow> (nbuf list \<times> (u64 \<times> log_entry) list) res" where
  "ml_serialize_all junk 0 ii logs = Inr ([], logs)"
| "ml_serialize_all junk (Suc n) ii logs =
     (case map_of logs ii of
        None \<Rightarrow> Inl MemFault
      | Some le \<Rightarrow> rbind (le_serialize junk le) (\<lambda>(b, le).
          rbind (ml_serialize_all junk n (ii + 1) (put_item (ii, le) logs)) (\<lambda>(bs, logs).
            Inr (b # bs, logs))))"

fun put_all :: "nbuf \<Rightarrow> nbuf list \<Rightarrow> nbuf res" where
  "put_all out [] = Inr out"
| "put_all out (b # bs) =
     rbind (nb_put_int out (of_nat (nb_size b))) (\<lambda>out.
     rbind (nb_put_buffer out b) (\<lambda>out. put_all out bs))"

text \<open>\<open>index + cnt\<close> and the size of the pack are computed in 64 bits, of a signed \<open>cnt\<close>.\<close>

definition ml_pack :: "(nat \<Rightarrow> u8) \<Rightarrow> mem_log \<Rightarrow> u64 \<Rightarrow> i32 \<Rightarrow> (nbuf \<times> mem_log) res" where
  "ml_pack junk s index cnt =
     rbind (ml_serialize_all junk (loop_count index (index + scast cnt)) index (ml_logs s)) (\<lambda>(bs, logs).
     rbind (nb_alloc junk (unat (4 + scast cnt * 4 + of_nat (sum_list (map nb_size bs)) :: u64))) (\<lambda>out.
     rbind (nb_put_int (nb_set_pos out 0) cnt) (\<lambda>out.
     rbind (put_all out bs) (\<lambda>out. Inr (out, s \<lparr> ml_logs := logs \<rparr>)))))"

fun ml_apply_all ::
    "(nat \<Rightarrow> u8) \<Rightarrow> nat \<Rightarrow> u64 \<Rightarrow> nbuf \<Rightarrow> (u64 \<times> log_entry) list \<Rightarrow> ((u64 \<times> log_entry) list \<times> nbuf) res" where
  "ml_apply_all junk 0 cur p logs = Inr (logs, p)"
| "ml_apply_all junk (Suc n) cur p logs =
     rbind (nb_get_int p) (\<lambda>(buf_size, p).
     rbind (nb_alloc junk (unat (scast buf_size :: u64))) (\<lambda>buf_local.
     rbind (nb_get p buf_local) (\<lambda>(buf_local, p).
     rbind (le_deserialize junk buf_local) (\<lambda>(le, _).
       ml_apply_all junk n (cur + 1) p (put_item (cur, le) logs)))))"

text \<open>\<open>upper_bound(0)\<close> is the first entry behind the dummy.\<close>

definition first_index :: "(u64 \<times> log_entry) list \<Rightarrow> u64" where
  "first_index logs = (case filter (\<lambda>x. 0 < fst x) logs of [] \<Rightarrow> 1 | x # _ \<Rightarrow> fst x)"

definition ml_apply_pack :: "(nat \<Rightarrow> u8) \<Rightarrow> mem_log \<Rightarrow> u64 \<Rightarrow> nbuf \<Rightarrow> (mem_log \<times> nbuf) res" where
  "ml_apply_pack junk s index p =
     rbind (nb_get_int (nb_set_pos p 0)) (\<lambda>(num_logs, p).
     rbind (ml_apply_all junk (nat (sint num_logs)) index p (ml_logs s)) (\<lambda>(logs, p).
       Inr (\<lparr> ml_logs = logs, ml_start = first_index logs \<rparr>, p)))"

subsection \<open>Compaction\<close>

text \<open>
  The loop \<open>for (ii = start_idx_; ii <= last_log_index; ++ii)\<close>. It does not end for the greatest
  index, so it takes fuel.
\<close>

fun ml_compact_loop :: "nat \<Rightarrow> u64 \<Rightarrow> u64 \<Rightarrow> (u64 \<times> log_entry) list \<Rightarrow> (u64 \<times> log_entry) list res" where
  "ml_compact_loop 0 ii lst logs = Inl OutOfFuel"
| "ml_compact_loop (Suc n) ii lst logs =
     (if ii \<le> lst then ml_compact_loop n (ii + 1) lst (delete_item ii logs) else Inr logs)"

definition ml_compact :: "nat \<Rightarrow> mem_log \<Rightarrow> u64 \<Rightarrow> (bool \<times> mem_log) res" where
  "ml_compact fuel s lst =
     rbind (ml_compact_loop fuel (ml_start s) lst (ml_logs s)) (\<lambda>logs.
       Inr (True, \<lparr> ml_logs = logs,
                    ml_start = (if ml_start s \<le> lst then lst + 1 else ml_start s) \<rparr>))"

section \<open>The invariant\<close>

text \<open>A store that holds the entries es from index i on, without a gap.\<close>

fun indexed :: "nat \<Rightarrow> log_entry list \<Rightarrow> (u64 \<times> log_entry) list" where
  "indexed i [] = []"
| "indexed i (e # es) = (of_nat i, e) # indexed (Suc i) es"

definition stored_ok :: "log_entry \<Rightarrow> bool" where
  "stored_ok e \<longleftrightarrow> entry_ok e \<and> nb_pos (le_buf e) = 0"

definition mem_log_ok :: "mem_log \<Rightarrow> bool" where
  "mem_log_ok s \<longleftrightarrow> (\<exists>d es. ml_logs s = (0, d) # indexed (unat (ml_start s)) es \<and>
     0 < ml_start s \<and> unat (ml_start s) + length es < 2 ^ 64 \<and> stored_ok d \<and> (\<forall>e \<in> set es. stored_ok e))"

definition mem_entries :: "mem_log \<Rightarrow> log_entry list" where
  "mem_entries s = map snd (tl (ml_logs s))"

lemma unat_u64: "n < 2 ^ 64 \<Longrightarrow> unat (of_nat n :: u64) = n"
  by (simp add: unsigned_of_nat take_bit_nat_eq_self)

lemma indexed_simps [simp]:
  "length (indexed i es) = length es"
  "map snd (indexed i es) = es"
  "indexed i (es @ fs) = indexed i es @ indexed (i + length es) fs"
  by (induction es arbitrary: i) auto

lemma indexed_keys:
  "i + length es < 2 ^ 64 \<Longrightarrow> x \<in> set (indexed i es) \<Longrightarrow> i \<le> unat (fst x) \<and> unat (fst x) < i + length es"
proof (induction es arbitrary: i)
  case (Cons e es)
  then show ?case using Cons.IH [of "Suc i"] by (force simp: unat_u64)
qed simp

lemma indexed_map_of:
  "i + length es < 2 ^ 64 \<Longrightarrow> k < length es \<Longrightarrow> map_of (indexed i es) (of_nat (i + k)) = Some (es ! k)"
proof (induction es arbitrary: i k)
  case (Cons e es)
  show ?case
  proof (cases k)
    case (Suc m)
    have "of_nat (i + k) \<noteq> (of_nat i :: u64)"
    proof
      assume "of_nat (i + k) = (of_nat i :: u64)"
      then have "i + k = i"
        using unat_u64 [of "i + k"] unat_u64 [of i] Cons.prems by (simp del: of_nat_add)
      then show False using Suc by simp
    qed
    then show ?thesis using Cons.IH [of "Suc i" m] Cons.prems Suc by simp
  qed simp
qed simp

lemma indexed_take:
  assumes "i + length es < 2 ^ 64" "k \<le> length es"
  shows "filter (\<lambda>x. fst x < of_nat (i + k)) (indexed i es) = indexed i (take k es)"
proof -
  have u: "unat (of_nat (i + k) :: u64) = i + k" by (rule unat_u64) (use assms in simp)
  have "filter (\<lambda>x. fst x < of_nat (i + k)) (indexed i (take k es)) = indexed i (take k es)"
    using indexed_keys [of i "take k es"] assms u by (auto simp: filter_id_conv word_less_nat_alt)
  moreover have "filter (\<lambda>x. fst x < of_nat (i + k)) (indexed (i + k) (drop k es)) = []"
    using indexed_keys [of "i + k" "drop k es"] assms u by (fastforce simp: filter_empty_conv word_less_nat_alt)
  ultimately show ?thesis
    using indexed_simps(3) [of i "take k es" "drop k es"] assms(2) by (simp add: min_def)
qed

lemma indexed_drop:
  assumes "i + length es < 2 ^ 64" "k \<le> length es"
  shows "filter (\<lambda>x. \<not> fst x < of_nat (i + k)) (indexed i es) = indexed (i + k) (drop k es)"
proof -
  have u: "unat (of_nat (i + k) :: u64) = i + k" by (rule unat_u64) (use assms in simp)
  have "filter (\<lambda>x. \<not> fst x < of_nat (i + k)) (indexed i (take k es)) = []"
    using indexed_keys [of i "take k es"] assms u by (fastforce simp: filter_empty_conv word_less_nat_alt)
  moreover have "filter (\<lambda>x. \<not> fst x < of_nat (i + k)) (indexed (i + k) (drop k es)) = indexed (i + k) (drop k es)"
    using indexed_keys [of "i + k" "drop k es"] assms u
    by (auto simp: filter_id_conv word_less_nat_alt not_less)
  ultimately show ?thesis
    using indexed_simps(3) [of i "take k es" "drop k es"] assms(2) by (simp add: min_def)
qed

section \<open>The store keeps the contract\<close>

lemma make_clone_eq:
  assumes "entry_ok e"
  shows "make_clone junk e = Inr (e \<lparr> le_buf := \<lparr> nb_bytes = nb_bytes (le_buf e), nb_pos = 0 \<rparr> \<rparr>)"
  using assms by (simp add: make_clone_def entry_ok_def nb_clone_eq)

lemma make_clone_stored: "stored_ok e \<Longrightarrow> make_clone junk e = Inr e"
  by (simp add: stored_ok_def make_clone_eq)

lemma mem_log_okE:
  assumes "mem_log_ok s"
  obtains d where "ml_logs s = (0, d) # indexed (unat (ml_start s)) (mem_entries s)" "0 < unat (ml_start s)"
    "unat (ml_start s) + length (mem_entries s) < 2 ^ 64" "stored_ok d" "\<forall>e \<in> set (mem_entries s). stored_ok e"
proof -
  obtain d es where d: "ml_logs s = (0, d) # indexed (unat (ml_start s)) es" "0 < ml_start s"
    "unat (ml_start s) + length es < 2 ^ 64" "stored_ok d" "\<forall>e \<in> set es. stored_ok e"
    using assms unfolding mem_log_ok_def by blast
  moreover have "mem_entries s = es" using d(1) by (simp add: mem_entries_def)
  ultimately show ?thesis using that by (simp add: word_less_nat_alt)
qed

lemma mem_log_okI:
  assumes "ml_logs s = (0, d) # indexed i es" "ml_start s = of_nat i" "0 < i" "i + length es < 2 ^ 64"
    "stored_ok d" "\<forall>e \<in> set es. stored_ok e"
  shows "mem_log_ok s \<and> unat (ml_start s) = i \<and> mem_entries s = es"
proof -
  have "unat (ml_start s) = i" using assms(2,4) by (simp add: unat_u64)
  then show ?thesis
    using assms by (auto simp: mem_log_ok_def mem_entries_def word_less_nat_alt)
qed

lemma mem_find:
  assumes "mem_log_ok s" "k < length (mem_entries s)"
  shows "map_of (ml_logs s) (of_nat (unat (ml_start s) + k)) = Some (mem_entries s ! k)"
proof -
  obtain d where d: "ml_logs s = (0, d) # indexed (unat (ml_start s)) (mem_entries s)" "0 < unat (ml_start s)"
    "unat (ml_start s) + length (mem_entries s) < 2 ^ 64" using assms(1) by (rule mem_log_okE)
  then have "unat (of_nat (unat (ml_start s) + k) :: u64) \<noteq> unat (0 :: u64)"
    using unat_u64 [of "unat (ml_start s) + k"] assms(2) by (simp del: of_nat_add)
  then have "of_nat (unat (ml_start s) + k) \<noteq> (0 :: u64)" by metis
  then show ?thesis
    using indexed_map_of [OF d(3) assms(2)] d(1) by (simp del: of_nat_add)
qed

lemma mem_stored: "mem_log_ok s \<Longrightarrow> k < length (mem_entries s) \<Longrightarrow> stored_ok (mem_entries s ! k)"
  by (erule mem_log_okE) (simp add: nth_mem)

lemma mem_next_slot:
  assumes "mem_log_ok s"
  shows "ml_next_slot s = of_nat (unat (ml_start s) + length (mem_entries s))"
  using assms by (rule mem_log_okE) (simp add: ml_next_slot_def)

text \<open>Writing at a place from the start of the entries to behind the last, over what is there.\<close>

lemma mem_write_at:
  assumes "mem_log_ok s" "entry_ok e" "k \<le> length (mem_entries s)" "unat (ml_start s) + k + 1 < 2 ^ 64"
  shows "\<exists>s'. ml_write_at junk s (of_nat (unat (ml_start s) + k)) e = Inr s' \<and>
    mem_log_ok s' \<and> ml_start s' = ml_start s \<and>
    map entry_view (mem_entries s') = take k (map entry_view (mem_entries s)) @ [entry_view e]"
proof -
  let ?i = "unat (ml_start s)" and ?c = "e \<lparr> le_buf := \<lparr> nb_bytes = nb_bytes (le_buf e), nb_pos = 0 \<rparr> \<rparr>"
  obtain d where d: "ml_logs s = (0, d) # indexed ?i (mem_entries s)" "0 < ?i"
    "?i + length (mem_entries s) < 2 ^ 64" "stored_ok d" "\<forall>e \<in> set (mem_entries s). stored_ok e"
    using assms(1) by (rule mem_log_okE)
  have u: "unat (of_nat (?i + k) :: u64) = ?i + k" by (rule unat_u64) (use assms(4) in simp)
  then have pos: "0 < (of_nat (?i + k) :: u64)" using d(2) unfolding word_less_nat_alt by simp
  have low: "fst y < of_nat (?i + k)" if "y \<in> set (indexed ?i (take k (mem_entries s)))" for y
    using indexed_keys [OF _ that] u d(3) assms(3) unfolding word_less_nat_alt by simp
  have "put_item (of_nat (?i + k), ?c) ((0, d) # indexed ?i (take k (mem_entries s))) =
      (0, d) # indexed ?i (take k (mem_entries s)) @ [(of_nat (?i + k), ?c)]"
    using low pos unfolding put_item_def by (auto simp: filter_id_conv filter_empty_conv dest: less_asym)
  then have "ml_write_at junk s (of_nat (?i + k)) e =
      Inr (s \<lparr> ml_logs := (0, d) # indexed ?i (take k (mem_entries s) @ [?c]) \<rparr>)" (is "_ = Inr ?s'")
    using d(1) pos indexed_take [OF d(3) assms(3)] assms(2,3)
    by (simp add: ml_write_at_def make_clone_eq min_def del: of_nat_add)
  moreover have "mem_log_ok ?s' \<and> unat (ml_start ?s') = ?i \<and> mem_entries ?s' = take k (mem_entries s) @ [?c]"
    by (rule mem_log_okI [of _ d])
      (use d assms in \<open>auto simp: stored_ok_def entry_ok_def nb_size_def dest: in_set_takeD\<close>)
  moreover have "entry_view ?c = entry_view e" by (simp add: entry_view_def)
  ultimately show ?thesis by (auto simp: take_map)
qed

text \<open>Appending writes behind the last entry.\<close>

lemma mem_append_write:
  assumes "mem_log_ok s"
  shows "ml_append junk s e =
    rbind (ml_write_at junk s (of_nat (unat (ml_start s) + length (mem_entries s))) e) (\<lambda>s'.
      Inr (of_nat (unat (ml_start s) + length (mem_entries s)), s'))"
proof -
  let ?i = "unat (ml_start s)" and ?n = "length (mem_entries s)"
  obtain d where d: "ml_logs s = (0, d) # indexed ?i (mem_entries s)" "0 < ?i" "?i + ?n < 2 ^ 64"
    using assms by (rule mem_log_okE)
  have "0 < (of_nat (?i + ?n) :: u64)"
    using unat_u64 [OF d(3)] d(2) unfolding word_less_nat_alt by simp
  then have "filter (\<lambda>x. fst x < of_nat (?i + ?n)) (ml_logs s) = ml_logs s"
    using indexed_take [OF d(3) order_refl] d(1) by (simp del: of_nat_add)
  moreover have "ml_start s + of_nat (length (ml_logs s)) - 1 = of_nat (?i + ?n)"
    using d(1) by simp
  ultimately show ?thesis
    by (cases "make_clone junk e") (simp_all add: ml_append_def ml_write_at_def Let_def del: of_nat_add)
qed

lemma ml_collect_eq:
  assumes "mem_log_ok s" "j + n \<le> length (mem_entries s)"
  shows "ml_collect junk (ml_logs s) n (of_nat (unat (ml_start s) + j)) =
    Inr (take n (drop j (mem_entries s)))"
  using assms(2)
proof (induction n arbitrary: j)
  case (Suc n)
  have "of_nat (unat (ml_start s) + j) + 1 = (of_nat (unat (ml_start s) + Suc j) :: u64)" by simp
  then show ?case
    using Suc.IH [of "Suc j"] Suc.prems mem_find [OF assms(1), of j]
      make_clone_stored [OF mem_stored [OF assms(1), of j]]
    by (simp add: Cons_nth_drop_Suc [symmetric] add.commute [of _ 1] del: of_nat_add)
qed simp

lemma ml_compact_loop_eq:
  assumes "unat lst + 1 < 2 ^ 64" "unat lst + 1 - unat ii < fuel"
  shows "ml_compact_loop fuel ii lst logs = Inr (filter (\<lambda>x. \<not> (ii \<le> fst x \<and> fst x \<le> lst)) logs)"
  using assms(2)
proof (induction fuel arbitrary: ii logs)
  case (Suc fuel)
  show ?case
  proof (cases "ii \<le> lst")
    case True
    then have i: "unat (ii + 1) = unat ii + 1"
      using assms(1) unat_u64 [of "unat ii + 1"] by (simp add: word_le_nat_alt add.commute)
    then have "ml_compact_loop fuel (ii + 1) lst (delete_item ii logs) =
        Inr (filter (\<lambda>x. \<not> (ii + 1 \<le> fst x \<and> fst x \<le> lst)) (delete_item ii logs))"
      using Suc.prems True by (intro Suc.IH) (simp add: word_le_nat_alt)
    also have "filter (\<lambda>x. \<not> (ii + 1 \<le> fst x \<and> fst x \<le> lst)) (delete_item ii logs) =
        filter (\<lambda>x. \<not> (ii \<le> fst x \<and> fst x \<le> lst)) logs"
      unfolding delete_item_def filter_filter
      by (rule filter_cong) (use i True in \<open>auto simp: word_le_nat_alt le_less word_unat_eq_iff\<close>)
    finally show ?thesis using True by simp
  next
    case False
    then have "filter (\<lambda>x. \<not> (ii \<le> fst x \<and> fst x \<le> lst)) logs = logs" by (auto simp: filter_id_conv)
    then show ?thesis using False by simp
  qed
qed simp

lemma mem_compact:
  assumes "mem_log_ok s" "k < length (mem_entries s)" "k + 1 < fuel"
  shows "\<exists>s'. ml_compact fuel s (of_nat (unat (ml_start s) + k)) = Inr (True, s') \<and> mem_log_ok s' \<and>
    unat (ml_start s') = unat (ml_start s) + k + 1 \<and> mem_entries s' = drop (k + 1) (mem_entries s)"
proof -
  let ?i = "unat (ml_start s)" and ?es = "mem_entries s"
  let ?l = "of_nat (?i + k) :: u64"
  obtain d where d: "ml_logs s = (0, d) # indexed ?i ?es" "0 < ?i" "?i + length ?es < 2 ^ 64"
    "stored_ok d" "\<forall>e \<in> set ?es. stored_ok e"
    using assms(1) by (rule mem_log_okE)
  have l: "unat ?l = ?i + k" by (rule unat_u64) (use d(3) assms(2) in simp)
  have l1: "unat (of_nat (?i + (k + 1)) :: u64) = ?i + k + 1"
    using unat_u64 [of "?i + (k + 1)"] d(3) assms(2) by (simp del: of_nat_add)
  have loop: "ml_compact_loop fuel (ml_start s) ?l (ml_logs s) =
      Inr (filter (\<lambda>x. \<not> (ml_start s \<le> fst x \<and> fst x \<le> ?l)) (ml_logs s))"
    by (rule ml_compact_loop_eq) (use l d(3) assms(2,3) in \<open>simp_all del: of_nat_add\<close>)
  have "filter (\<lambda>x. \<not> (ml_start s \<le> fst x \<and> fst x \<le> ?l)) (indexed ?i ?es) =
      filter (\<lambda>x. \<not> fst x < of_nat (?i + (k + 1))) (indexed ?i ?es)"
    by (rule filter_cong)
      (use indexed_keys [OF d(3)] l l1 in \<open>auto simp: word_le_nat_alt word_less_nat_alt simp del: of_nat_add\<close>)
  also have "\<dots> = indexed (?i + (k + 1)) (drop (k + 1) ?es)"
    by (rule indexed_drop) (use d(3) assms(2) in simp_all)
  finally have logs: "filter (\<lambda>x. \<not> (ml_start s \<le> fst x \<and> fst x \<le> ?l)) (ml_logs s) =
      (0, d) # indexed (?i + (k + 1)) (drop (k + 1) ?es)"
    using d(1,2) by (simp add: word_le_nat_alt del: of_nat_add)
  have "ml_start s \<le> ?l" using l by (simp add: word_le_nat_alt del: of_nat_add)
  then have c: "ml_compact fuel s ?l =
      Inr (True, \<lparr> ml_logs = (0, d) # indexed (?i + (k + 1)) (drop (k + 1) ?es), ml_start = ?l + 1 \<rparr>)"
    using loop logs by (simp add: ml_compact_def del: of_nat_add)
  have "mem_log_ok \<lparr> ml_logs = (0, d) # indexed (?i + (k + 1)) (drop (k + 1) ?es), ml_start = ?l + 1 \<rparr> \<and>
     unat (?l + 1) = ?i + (k + 1) \<and> mem_entries \<lparr> ml_logs = (0, d) # indexed (?i + (k + 1)) (drop (k + 1) ?es),
       ml_start = ?l + 1 \<rparr> = drop (k + 1) ?es"
    using mem_log_okI [of "\<lparr> ml_logs = (0, d) # indexed (?i + (k + 1)) (drop (k + 1) ?es), ml_start = ?l + 1 \<rparr>"
        d "?i + (k + 1)" "drop (k + 1) ?es"] d assms(2)
    by (auto simp: add.commute dest: in_set_dropD)
  then show ?thesis using c by auto
qed

interpretation ml: full_log_store mem_log_ok "\<lambda>s. unat (ml_start s)" "\<lambda>s. map entry_view (mem_entries s)"
  "\<lambda>s. Inr (ml_next_slot s, s)" "ml_append junk"
  "\<lambda>s i. rbind (ml_entry_at junk s i) (\<lambda>e. Inr (e, s))"
  "\<lambda>s i. rbind (ml_term_at s i) (\<lambda>t. Inr (t, s))"
  "ml_write_at junk" "ml_log_entries junk" ml_compact
proof
  fix s
  assume s: "mem_log_ok s"
  show "\<exists>s'. Inr (ml_next_slot s, s) =
      Inr (of_nat (unat (ml_start s) + length (map entry_view (mem_entries s))), s') \<and> mem_log_ok s' \<and>
      unat (ml_start s') = unat (ml_start s) \<and>
      map entry_view (mem_entries s') = map entry_view (mem_entries s)"
    using s mem_next_slot by auto
  fix k
  assume k: "k < length (map entry_view (mem_entries s))"
  show "\<exists>e s'. rbind (ml_entry_at junk s (of_nat (unat (ml_start s) + k))) (\<lambda>e. Inr (e, s)) = Inr (e, s') \<and>
      entry_view e = map entry_view (mem_entries s) ! k \<and> mem_log_ok s' \<and>
      unat (ml_start s') = unat (ml_start s) \<and> map entry_view (mem_entries s') = map entry_view (mem_entries s)"
    using s k mem_find [OF s, of k] make_clone_stored [OF mem_stored [OF s, of k]]
    by (simp add: ml_entry_at_def find_or_dummy_def del: of_nat_add)
  show "\<exists>s'. rbind (ml_term_at s (of_nat (unat (ml_start s) + k))) (\<lambda>t. Inr (t, s)) =
      Inr (fst (map entry_view (mem_entries s) ! k), s') \<and> mem_log_ok s' \<and>
      unat (ml_start s') = unat (ml_start s) \<and> map entry_view (mem_entries s') = map entry_view (mem_entries s)"
    using s k mem_find [OF s, of k]
    by (simp add: ml_term_at_def find_or_dummy_def entry_view_def del: of_nat_add)
next
  fix s e
  assume s: "mem_log_ok s" "entry_ok e"
    "unat (ml_start s) + length (map entry_view (mem_entries s)) + 1 < 2 ^ 64"
  show "\<exists>s'. ml_append junk s e =
      Inr (of_nat (unat (ml_start s) + length (map entry_view (mem_entries s))), s') \<and> mem_log_ok s' \<and>
      unat (ml_start s') = unat (ml_start s) \<and>
      map entry_view (mem_entries s') = map entry_view (mem_entries s) @ [entry_view e]"
    using mem_write_at [OF s(1,2), of "length (mem_entries s)" junk] s mem_append_write [OF s(1), of junk e]
    by auto
next
  fix s e k
  assume s: "mem_log_ok s" "entry_ok e" "k \<le> length (map entry_view (mem_entries s))"
    "unat (ml_start s) + k + 1 < 2 ^ 64"
  show "\<exists>s'. ml_write_at junk s (of_nat (unat (ml_start s) + k)) e = Inr s' \<and> mem_log_ok s' \<and>
      unat (ml_start s') = unat (ml_start s) \<and>
      map entry_view (mem_entries s') = take k (map entry_view (mem_entries s)) @ [entry_view e]"
    using mem_write_at [OF s(1,2) _ s(4), of junk] s(3) by auto
next
  fix s j k
  assume s: "mem_log_ok s" and jk: "j \<le> k" "k \<le> length (map entry_view (mem_entries s))"
    and small: "k - j < (2 :: nat) ^ 59"
  let ?i = "unat (ml_start s)"
  have lt: "?i + k < 2 ^ 64" using s jk by (auto elim: mem_log_okE)
  then have u: "unat (of_nat (?i + k) - of_nat (?i + j) :: u64) = k - j"
    using jk(1) unat_u64 [of "k - j"] by (simp add: of_nat_diff)
  then have "loop_count (of_nat (?i + j)) (of_nat (?i + k)) = k - j"
    using jk(1) lt unat_u64 [of "?i + j"] unat_u64 [of "?i + k"]
    by (auto simp: loop_count_def word_less_nat_alt simp del: of_nat_add)
  then show "\<exists>es. ml_log_entries junk s (of_nat (?i + j)) (of_nat (?i + k)) = Inr es \<and>
      map entry_view es = take (k - j) (drop j (map entry_view (mem_entries s)))"
    using ml_collect_eq [OF s, of j "k - j" junk] jk u small
    by (simp add: ml_log_entries_def check_resize_def take_map drop_map del: of_nat_add)
next
  fix s k fuel
  assume s: "mem_log_ok s" "k < length (map entry_view (mem_entries s))" "k + 1 < fuel"
  then show "\<exists>s'. ml_compact fuel s (of_nat (unat (ml_start s) + k)) = Inr (True, s') \<and> mem_log_ok s' \<and>
      unat (ml_start s') = unat (ml_start s) + k + 1 \<and>
      map entry_view (mem_entries s') = drop (k + 1) (map entry_view (mem_entries s))"
    using mem_compact [OF s(1) _ s(3)] by (auto simp: drop_map)
qed

section \<open>Runs of the store\<close>

text \<open>
  The states a store reaches from its constructor, each with the log it should hold: the index of
  the first entry and the entries. A server appends entries it can serialize, overwrites from the
  start index up to the next slot, and compacts up to an entry that is there.
\<close>

inductive mem_run :: "(nat \<Rightarrow> u8) \<Rightarrow> mem_log \<Rightarrow> nat \<Rightarrow> entry_view list \<Rightarrow> bool" for junk where
  run_new: "ml_new junk = Inr s \<Longrightarrow> mem_run junk s 1 []"
| run_append: "mem_run junk s b L \<Longrightarrow> entry_ok e \<Longrightarrow> b + length L + 1 < 2 ^ 64 \<Longrightarrow>
    ml_append junk s e = Inr (i, s') \<Longrightarrow> mem_run junk s' b (L @ [entry_view e])"
| run_write_at: "mem_run junk s b L \<Longrightarrow> entry_ok e \<Longrightarrow> k \<le> length L \<Longrightarrow> b + k + 1 < 2 ^ 64 \<Longrightarrow>
    ml_write_at junk s (of_nat (b + k)) e = Inr s' \<Longrightarrow> mem_run junk s' b (take k L @ [entry_view e])"
| run_compact: "mem_run junk s b L \<Longrightarrow> k < length L \<Longrightarrow> k + 1 < fuel \<Longrightarrow>
    ml_compact fuel s (of_nat (b + k)) = Inr (r, s') \<Longrightarrow> mem_run junk s' (b + k + 1) (drop (k + 1) L)"

lemma ml_new_ok:
  assumes "ml_new junk = Inr s"
  shows "mem_log_ok s \<and> unat (ml_start s) = 1 \<and> mem_entries s = []"
proof -
  let ?d = "\<lparr> le_term = 0, le_buf = \<lparr> nb_bytes = map junk [0..<8], nb_pos = 0 \<rparr>, le_type = app_log \<rparr>"
  have "s = \<lparr> ml_logs = [(0, ?d)], ml_start = 1 \<rparr>"
    using assms by (simp add: ml_new_def nb_alloc_def)
  moreover have "(1 :: i32) AND 0xff = 1" by code_simp
  ultimately show ?thesis
    by (intro mem_log_okI [of s ?d 1 "[]", unfolded list.size])
      (simp_all add: stored_ok_def entry_ok_def nb_size_def app_log_def)
qed

lemma mem_run_ok:
  assumes "mem_run junk s b L"
  shows "mem_log_ok s \<and> unat (ml_start s) = b \<and> map entry_view (mem_entries s) = L"
  using assms
proof induction
  case (run_append s b L e i s')
  then show ?case using ml.append [of s e junk] by auto
next
  case (run_write_at s b L e k s')
  then have "mem_log_ok s" "k \<le> length (map entry_view (mem_entries s))" "unat (ml_start s) + k + 1 < 2 ^ 64"
    by auto
  then show ?case using ml.write_at [of s e k junk] run_write_at by auto
next
  case (run_compact s b L k fuel r s')
  then have "mem_log_ok s" "k < length (map entry_view (mem_entries s))" by auto
  then show ?case using ml.compact [of s k fuel] run_compact by auto
qed (simp add: ml_new_ok)

section \<open>Properties\<close>

text \<open>
  C2. In every state the store reaches by appending, overwriting and compacting it holds the log
  that these operations describe: \<open>start_index\<close> and \<open>next_slot\<close> enclose it, \<open>entry_at\<close> and \<open>term_at\<close>
  of every index in between return the entry last written there, \<open>last_entry\<close> the last one, and
  \<open>log_entries\<close> of the whole range all of them in order.
\<close>

theorem mem_log_refines:
  assumes "mem_run junk s b L"
  shows "ml_start_index s = of_nat b \<and> ml_next_slot s = of_nat (b + length L) \<and>
    (\<forall>k < length L. \<exists>e. ml_entry_at junk s (of_nat (b + k)) = Inr e \<and> entry_view e = L ! k \<and>
       ml_term_at s (of_nat (b + k)) = Inr (fst (L ! k))) \<and>
    (L \<noteq> [] \<longrightarrow> (\<exists>e. ml_last_entry junk s = Inr e \<and> entry_view e = last L)) \<and>
    (length L < 2 ^ 59 \<longrightarrow>
       (\<exists>es. ml_log_entries junk s (ml_start_index s) (ml_next_slot s) = Inr es \<and> map entry_view es = L))"
proof -
  have r: "mem_log_ok s" "unat (ml_start s) = b" "map entry_view (mem_entries s) = L"
    using mem_run_ok [OF assms] by auto
  have start: "ml_start s = of_nat b" using r(2) by auto
  have next_slot: "ml_next_slot s = of_nat (b + length L)" using ml.next_slot [OF r(1)] r by simp
  have entry: "\<exists>e. ml_entry_at junk s (of_nat (b + k)) = Inr e \<and> entry_view e = L ! k" if "k < length L" for k
    using ml.entry_at [OF r(1), of k junk] that unfolding r(2,3) by (auto simp: rbind_eq_Inr)
  have "ml_term_at s (of_nat (b + k)) = Inr (fst (L ! k))" if "k < length L" for k
    using ml.term_at [OF r(1), of k] that unfolding r(2,3) by (auto simp: rbind_eq_Inr)
  moreover have "\<exists>e. ml_last_entry junk s = Inr e \<and> entry_view e = last L" if "L \<noteq> []"
  proof -
    have "ml_next_slot s - 1 = of_nat (b + (length L - 1))"
      using that next_slot by (cases L) auto
    then show ?thesis
      using entry [of "length L - 1"] that by (simp add: ml_last_entry_def ml_entry_at_def last_conv_nth)
  qed
  moreover have "\<exists>es. ml_log_entries junk s (ml_start_index s) (ml_next_slot s) = Inr es \<and> map entry_view es = L"
    if "length L < 2 ^ 59"
    using ml.log_entries [OF r(1), of 0 "length L" junk] that unfolding r(2,3)
    by (simp add: ml_start_index_def start next_slot)
  ultimately show ?thesis
    using entry next_slot start by (simp add: ml_start_index_def)
qed

theorem mem_log_refines_witness:
  "\<exists>s. mem_run (\<lambda>_. 0) s 2 [(4, app_log, [8])] \<and>
     ml_start_index s = 2 \<and> ml_next_slot s = 3 \<and> ml_term_at s 2 = Inr 4"
proof -
  let ?j = "\<lambda>_ :: nat. 0 :: u8"
  define e f where "e = \<lparr> le_term = 3, le_buf = \<lparr> nb_bytes = [7], nb_pos = 0 \<rparr>, le_type = app_log \<rparr>"
    and "f = \<lparr> le_term = 4, le_buf = \<lparr> nb_bytes = [8], nb_pos = 0 \<rparr>, le_type = app_log \<rparr>"
  have "(1 :: i32) AND 0xff = 1" by code_simp
  then have ok: "entry_ok e" "entry_ok f" by (simp_all add: e_def f_def entry_ok_def nb_size_def app_log_def)
  obtain s0 where "ml_new ?j = Inr s0" by (simp add: ml_new_def nb_alloc_def)
  note r0 = run_new [OF this]
  obtain s1 where s1: "ml_append ?j s0 e = Inr (1, s1)"
    using ml.append [of s0 e ?j] mem_run_ok [OF r0] ok by auto
  note r1 = run_append [OF r0 ok(1) _ s1]
  then have r1: "mem_run ?j s1 1 [entry_view e]" by simp
  obtain s2 where s2: "ml_append ?j s1 f = Inr (2, s2)"
    using ml.append [of s1 f ?j] mem_run_ok [OF r1] ok by auto
  have r2: "mem_run ?j s2 1 [entry_view e, entry_view f]" using run_append [OF r1 ok(2) _ s2] by simp
  obtain s3 where s3: "ml_compact 2 s2 1 = Inr (True, s3)"
    using ml.compact [of s2 0 2] mem_run_ok [OF r2] by auto
  then have r3: "mem_run ?j s3 2 [entry_view f]" using run_compact [OF r2, of 0 2 True s3] by (simp add: numeral_2_eq_2)
  have "entry_view f = (4, app_log, [8])" by (simp add: f_def entry_view_def)
  then show ?thesis using r3 mem_log_refines [OF r3] by (intro exI [of _ s3]) auto
qed

text \<open>
  \<open>compact\<close> returns for every index but the greatest, after as many iterations as there are
  indices to discard, and leaves exactly the entries outside of them. For the index 2^64 - 1 the loop
  counter wraps around and no number of iterations is enough.
\<close>

theorem mem_compact_terminates:
  "(\<forall>lst logs. unat lst + 1 < 2 ^ 64 \<and> unat lst + 1 - unat start < fuel \<longrightarrow>
      ml_compact fuel \<lparr> ml_logs = logs, ml_start = start \<rparr> lst =
        Inr (True, \<lparr> ml_logs = filter (\<lambda>x. \<not> (start \<le> fst x \<and> fst x \<le> lst)) logs,
                     ml_start = (if start \<le> lst then lst + 1 else start) \<rparr>)) \<and>
    ml_compact fuel s (- 1) = Inl OutOfFuel"
proof -
  have "ml_compact_loop n ii (- 1) logs = Inl OutOfFuel" for n ii logs
    by (induction n arbitrary: ii logs) simp_all
  then show ?thesis by (auto simp: ml_compact_def ml_compact_loop_eq)
qed

theorem mem_compact_terminates_witness:
  "\<forall>d e f. ml_compact 3 \<lparr> ml_logs = [(0, d), (1, e), (2, f)], ml_start = 1 \<rparr> 1 =
     Inr (True, \<lparr> ml_logs = [(0, d), (2, f)], ml_start = 2 \<rparr>)"
  using mem_compact_terminates [of 1 3] by simp

section \<open>Packs\<close>

definition pack_record :: "nbuf \<Rightarrow> bytes" where
  "pack_record b = le_bytes 4 (of_nat (nb_size b) :: i32) @ nb_bytes b"

lemma pack_record_length [simp]: "length (pack_record b) = 4 + nb_size b"
  by (simp add: pack_record_def nb_size_def)

lemma put_all_step:
  assumes "nbuf_ok out" "\<forall>b \<in> set bs. nbuf_ok b \<and> nb_pos b = 0"
    and "sum_list (map (\<lambda>b. 4 + nb_size b) bs) \<le> nb_room out"
  shows "\<exists>out'. put_all out bs = Inr out' \<and> nbuf_ok out' \<and>
    nb_done out' = nb_done out @ concat (map pack_record bs) \<and>
    nb_room out' = nb_room out - sum_list (map (\<lambda>b. 4 + nb_size b) bs)"
  using assms
proof (induction bs arbitrary: out)
  case (Cons b bs)
  obtain o1 where o1: "nb_put_int out (of_nat (nb_size b)) = Inr o1" "nbuf_ok o1"
      "nb_done o1 = nb_done out @ le_bytes 4 (of_nat (nb_size b) :: i32)" "nb_room o1 = nb_room out - 4"
    using nb_write_step [OF Cons.prems(1), of "le_bytes 4 (of_nat (nb_size b) :: i32)"] Cons.prems(3)
    by (auto simp: nb_put_int_def)
  have b: "nbuf_ok b" "nb_rest b = nb_bytes b" "nb_room b = nb_size b"
    using Cons.prems(2) by (simp_all add: nb_rest_def nb_room_def)
  have "4 + nb_size b \<le> nb_room out" using Cons.prems(3) by simp
  then have room: "nb_room b \<le> nb_room o1" using b(3) o1(4) by linarith
  obtain o2 where o2: "nb_put_buffer o1 b = Inr o2" "nbuf_ok o2"
      "nb_done o2 = nb_done out @ pack_record b" "nb_room o2 = nb_room out - (4 + nb_size b)"
    using nb_put_buffer_step [OF o1(2) b(1) room] o1 b by (auto simp: pack_record_def)
  then show ?case
    using Cons.IH [OF o2(2)] Cons.prems(2,3) o1(1) by auto
qed simp

lemma put_item_same:
  assumes "ordered_items its" "map_of its k = Some v"
  shows "put_item (k, v) its = its"
  using assms
proof (induction its)
  case (Cons x its)
  show ?case
  proof (cases "fst x = k")
    case True
    then have "x = (k, v)" "put_item (k, v) its = (k, v) # its"
      using Cons.prems put_item_first [of its "(k, v)"] by auto
    moreover have "filter (\<lambda>y. fst y < k) its = []"
      using Cons.prems(1) True by (auto simp: filter_empty_conv)
    ultimately show ?thesis by (simp add: put_item_def)
  next
    case False
    then have v: "map_of its k = Some v" using Cons.prems(2) by (cases x) auto
    then have "fst x < k" using Cons.prems(1) map_of_SomeD [OF v] by auto
    then show ?thesis using Cons.IH [OF _ v] Cons.prems(1) by (simp add: put_item_def)
  qed
qed simp

lemma indexed_ordered: "i + length es < 2 ^ 64 \<Longrightarrow> ordered_items (indexed i es)"
proof (induction es arbitrary: i)
  case (Cons e es)
  have "(of_nat i :: u64) < fst y" if "y \<in> set (indexed (Suc i) es)" for y
    using indexed_keys [OF _ that] Cons.prems by (simp add: word_less_nat_alt unat_u64)
  then show ?case using Cons.IH [of "Suc i"] Cons.prems by auto
qed simp

lemma mem_ordered: "mem_log_ok s \<Longrightarrow> ordered_items (ml_logs s)"
proof (erule mem_log_okE)
  fix d
  assume d: "ml_logs s = (0, d) # indexed (unat (ml_start s)) (mem_entries s)" "0 < unat (ml_start s)"
    "unat (ml_start s) + length (mem_entries s) < 2 ^ 64"
  then show "ordered_items (ml_logs s)"
    using indexed_ordered [OF d(3)] indexed_keys [OF d(3)] by (fastforce simp: word_less_nat_alt)
qed

lemma stored_serialize:
  assumes "stored_ok e"
  shows "le_serialize junk e = Inr (\<lparr> nb_bytes = le_wire e, nb_pos = 0 \<rparr>, e)"
    "\<exists>b. le_deserialize junk \<lparr> nb_bytes = le_wire e, nb_pos = 0 \<rparr> = Inr (e, b)"
proof -
  have e: "nb_size (le_buf e) + 9 < 0x80000000" "nb_pos (le_buf e) = 0" "le_type e AND 0xff = le_type e"
    using assms by (simp_all add: stored_ok_def entry_ok_def)
  then have "nb_set_pos (le_buf e) 0 = le_buf e" by (simp add: nb_set_pos_0)
  then show "le_serialize junk e = Inr (\<lparr> nb_bytes = le_wire e, nb_pos = 0 \<rparr>, e)"
    using le_serialize_eq [OF e(1)] by simp
  have "\<lparr> le_term = le_term e, le_buf = \<lparr> nb_bytes = nb_bytes (le_buf e), nb_pos = 0 \<rparr>, le_type = le_type e \<rparr> = e"
    using e(2) by simp
  then show "\<exists>b. le_deserialize junk \<lparr> nb_bytes = le_wire e, nb_pos = 0 \<rparr> = Inr (e, b)"
    using le_deserialize_eq [OF e(1), of junk] e(3) by simp
qed

definition wire_buf :: "log_entry \<Rightarrow> nbuf" where "wire_buf e = \<lparr> nb_bytes = le_wire e, nb_pos = 0 \<rparr>"

lemma ml_serialize_all_eq:
  assumes "mem_log_ok s" "j + n \<le> length (mem_entries s)"
  shows "ml_serialize_all junk n (of_nat (unat (ml_start s) + j)) (ml_logs s) =
    Inr (map wire_buf (take n (drop j (mem_entries s))), ml_logs s)"
  using assms(2)
proof (induction n arbitrary: j)
  case (Suc n)
  have find: "map_of (ml_logs s) (of_nat (unat (ml_start s) + j)) = Some (mem_entries s ! j)"
    using mem_find [OF assms(1)] Suc.prems by simp
  moreover have "of_nat (unat (ml_start s) + j) + 1 = (of_nat (unat (ml_start s) + Suc j) :: u64)" by simp
  ultimately show ?case
    using Suc.IH [of "Suc j"] Suc.prems stored_serialize(1) [OF mem_stored [OF assms(1), of j]]
      put_item_same [OF mem_ordered [OF assms(1)] find]
    by (simp add: Cons_nth_drop_Suc [symmetric] wire_buf_def add.commute [of _ 1] del: of_nat_add)
qed simp

lemma nb_get_step:
  assumes "nbuf_ok p" "nb_rest p = bs @ r" "nb_alloc junk (length bs) = Inr d"
  shows "nb_get p d = Inr (\<lparr> nb_bytes = bs, nb_pos = 0 \<rparr>, nb_move p (length bs)) \<and>
    nbuf_ok (nb_move p (length bs)) \<and> nb_rest (nb_move p (length bs)) = r"
proof -
  have d: "nb_size d = length bs" "nb_pos d = 0" "nb_avail d = length bs"
    using nb_alloc_ok [OF assms(3)] nb_avail_ok [of d] by auto
  have t: "nb_take p (length bs) = Inr (bs, nb_move p (length bs))" "nbuf_ok (nb_move p (length bs))"
    "nb_rest (nb_move p (length bs)) = r"
    using nb_take_step [OF assms(1,2)] by simp_all
  then have r: "read_block (nb_bytes p) (nb_pos p) (length bs) = Inr bs"
    by (auto simp: nb_take_eq nb_size_def nb_rest_def)
  show ?thesis
    unfolding nb_get_def d(3) r rbind_simps using d(1,2) t(2,3)
    by (cases d) (simp add: write_block_def nb_size_def)
qed

fun put_from :: "u64 \<Rightarrow> log_entry list \<Rightarrow> (u64 \<times> log_entry) list \<Rightarrow> (u64 \<times> log_entry) list" where
  "put_from cur [] logs = logs"
| "put_from cur (e # es) logs = put_from (cur + 1) es (put_item (cur, e) logs)"

lemma of_nat_i32:
  assumes "n < 2 ^ 31"
  shows "unat (scast (of_nat n :: i32) :: u64) = n" "sint (of_nat n :: i32) = int n"
    "(scast (of_nat n :: i32) :: u64) = of_nat n"
proof -
  have "sint (of_nat n :: i32) = signed_take_bit 31 (int n)" by (simp add: signed_of_nat)
  also have "\<dots> = int n" by (rule signed_take_bit_int_eq_self) (use assms in simp_all)
  finally show s: "sint (of_nat n :: i32) = int n" .
  show "(scast (of_nat n :: i32) :: u64) = of_nat n" by (simp add: scast_eq s)
  then show "unat (scast (of_nat n :: i32) :: u64) = n" using assms by (simp add: unat_u64)
qed

lemma ml_apply_all_eq:
  assumes "nbuf_ok p" "nb_rest p = concat (map (\<lambda>e. pack_record (wire_buf e)) es) @ r" "\<forall>e \<in> set es. stored_ok e"
  shows "\<exists>p'. ml_apply_all junk (length es) cur p logs = Inr (put_from cur es logs, p')"
  using assms
proof (induction es arbitrary: p cur logs)
  case (Cons e es)
  let ?n = "length (le_wire e)" and ?r = "concat (map (\<lambda>e. pack_record (wire_buf e)) es) @ r"
  have n: "?n < 2 ^ 31" using Cons.prems(3) by (simp add: stored_ok_def entry_ok_def)
  have w: "nb_size (wire_buf e) = ?n" "nb_bytes (wire_buf e) = le_wire e"
    by (simp_all add: wire_buf_def nb_size_def)
  have rest: "nb_rest p = le_bytes 4 (of_nat ?n :: i32) @ le_wire e @ ?r"
    using Cons.prems(2) by (simp add: pack_record_def [of "wire_buf e"] w comp_def del: le_wire_length)
  note t = nb_take_step [OF Cons.prems(1) rest]
  obtain d where d: "nb_alloc junk ?n = Inr d" using nb_alloc_step [of ?n junk] n by auto
  note g = nb_get_step [OF t [THEN conjunct2, THEN conjunct1] t [THEN conjunct2, THEN conjunct2] d]
  obtain b where b: "le_deserialize junk \<lparr> nb_bytes = le_wire e, nb_pos = 0 \<rparr> = Inr (e, b)"
    using stored_serialize(2) [of e junk] Cons.prems(3) by auto
  have "nb_get_int p = Inr (of_nat ?n, nb_move p 4)"
    using t by (simp add: nb_get_int_def del: le_wire_length)
  moreover obtain p' where "ml_apply_all junk (length es) (cur + 1) (nb_move (nb_move p 4) ?n)
      (put_item (cur, e) logs) = Inr (put_from (cur + 1) es (put_item (cur, e) logs), p')"
    using Cons.IH [of "nb_move (nb_move p 4) ?n" "cur + 1" "put_item (cur, e) logs"] g Cons.prems(3)
    by auto
  ultimately show ?case
    using d g b of_nat_i32(1) [OF n] by (simp del: le_wire_length)
qed simp

lemma put_from_indexed:
  assumes "0 < i" "i + length xs + length es < 2 ^ 64"
  shows "put_from (of_nat (i + length xs)) es ((0, d) # indexed i xs) = (0, d) # indexed i (xs @ es)"
  using assms(2)
proof (induction es arbitrary: xs)
  case (Cons e es)
  let ?k = "of_nat (i + length xs) :: u64"
  have u: "unat ?k = i + length xs" by (rule unat_u64) (use Cons.prems in simp)
  then have "0 < ?k" using assms(1) unfolding word_less_nat_alt by simp
  moreover have "fst y < ?k" if "y \<in> set (indexed i xs)" for y
    using indexed_keys [OF _ that] u Cons.prems unfolding word_less_nat_alt by simp
  ultimately have "put_item (?k, e) ((0, d) # indexed i xs) = (0, d) # indexed i (xs @ [e])"
    unfolding put_item_def by (auto simp: filter_id_conv filter_empty_conv dest: less_asym)
  moreover have "?k + 1 = of_nat (i + length (xs @ [e]))" by simp
  ultimately show ?case using Cons.IH [of "xs @ [e]"] Cons.prems
    by (simp add: add.commute [of _ 1] del: of_nat_add)
qed simp

text \<open>
  A pack carries entries from one store to another: applied to a new store at the index it was
  made from, it yields a store that holds exactly the packed entries under their old indices, and
  packing changes nothing of the store it reads.
\<close>

theorem mem_pack_roundtrip:
  assumes "mem_log_ok s" "0 < n" "j + n \<le> length (mem_entries s)"
    and "4 + sum_list (map (\<lambda>e. 13 + nb_size (le_buf e)) (take n (drop j (mem_entries s)))) < 0x80000000"
    and "ml_new junk' = Inr t"
  shows "\<exists>p t' p'. ml_pack junk s (of_nat (unat (ml_start s) + j)) (of_nat n) = Inr (p, s) \<and>
    ml_apply_pack junk' t (of_nat (unat (ml_start s) + j)) p = Inr (t', p') \<and> mem_log_ok t' \<and>
    unat (ml_start t') = unat (ml_start s) + j \<and> mem_entries t' = take n (drop j (mem_entries s))"
proof -
  let ?i = "unat (ml_start s) + j" and ?es = "take n (drop j (mem_entries s))"
  let ?bs = "map wire_buf ?es"
  obtain d where d: "0 < unat (ml_start s)" "unat (ml_start s) + length (mem_entries s) < 2 ^ 64"
      "\<forall>e \<in> set (mem_entries s). stored_ok e"
    using assms(1) by (rule mem_log_okE)
  have len: "length ?es = n" using assms(3) by simp
  have es: "\<forall>e \<in> set ?es. stored_ok e" using d(3) by (meson in_set_dropD in_set_takeD)
  have size: "nb_size (wire_buf e) = 9 + nb_size (le_buf e)" for e
    unfolding wire_buf_def by (simp add: nb_size_def)
  have sum: "sum_list (map (\<lambda>b. 4 + nb_size b) ?bs) = sum_list (map (\<lambda>e. 13 + nb_size (le_buf e)) ?es)"
    by (simp add: comp_def size)
  have sum': "sum_list (map (\<lambda>b. 4 + nb_size b) ?bs) = n * 4 + sum_list (map nb_size ?bs)"
    using len by (simp add: sum_list_addf sum_list_triv mult.commute comp_def)
  let ?total = "4 + (n * 4 + sum_list (map nb_size ?bs))"
  have total: "?total < 0x80000000" using assms(4) sum sum' by linarith
  then have n: "n < 2 ^ 31" by simp
  have ci: "(scast (of_nat n :: i32) :: u64) = of_nat n"
    by (rule of_nat_i32(3) [OF n])
  have "unat (of_nat ?total :: u64) = ?total" by (rule unat_u64) (use total in simp)
  then have tot: "unat (4 + of_nat n * 4 + of_nat (sum_list (map nb_size ?bs)) :: u64) = ?total"
    by (simp add: add.assoc)
  have u: "unat (of_nat ?i :: u64) = ?i" "unat (of_nat (?i + n) :: u64) = ?i + n"
    using unat_u64 [of ?i] unat_u64 [of "?i + n"] d(2) assms(3) by (simp_all del: of_nat_add)
  have "of_nat ?i + of_nat n = (of_nat (?i + n) :: u64)" by simp
  moreover have "unat (of_nat (?i + n) - of_nat ?i :: u64) = n" using unat_u64 [of n] n by simp
  ultimately have count: "loop_count (of_nat ?i) (of_nat ?i + scast (of_nat n :: i32)) = n"
    using u assms(2) ci by (simp add: loop_count_def word_less_nat_alt del: of_nat_add)
  obtain o0 where o0: "nb_alloc junk ?total = Inr o0" "nbuf_ok o0" "nb_done o0 = []" "nb_room o0 = ?total"
    using nb_alloc_step [OF total] by blast
  have pos: "nb_set_pos o0 0 = o0" using nb_alloc_ok [OF o0(1)] by (simp add: nb_set_pos_0)
  obtain o1 where o1: "nb_put_int o0 (of_nat n) = Inr o1" "nbuf_ok o1" "nb_done o1 = le_bytes 4 (of_nat n :: i32)"
      "nb_room o1 = ?total - 4"
    using nb_write_step [OF o0(2), of "le_bytes 4 (of_nat n :: i32)"] o0 by (auto simp: nb_put_int_def)
  have ok: "\<forall>b \<in> set ?bs. nbuf_ok b \<and> nb_pos b = 0"
    using es by (auto simp: wire_buf_def nbuf_ok_def nb_size_def stored_ok_def entry_ok_def)
  obtain o2 where o2: "put_all o1 ?bs = Inr o2" "nbuf_ok o2" "nb_room o2 = 0"
      "nb_done o2 = le_bytes 4 (of_nat n :: i32) @ concat (map pack_record ?bs)"
    using put_all_step [OF o1(2) ok] o1(3,4) sum' by auto
  have pack: "ml_pack junk s (of_nat ?i) (of_nat n) = Inr (o2, s)"
    using ml_serialize_all_eq [OF assms(1,3), of junk] count tot o0(1) pos o1(1) o2(1) ci
    by (simp add: ml_pack_def del: of_nat_add)
  let ?p = "nb_set_pos o2 0"
  have p: "nbuf_ok ?p" "nb_rest ?p = le_bytes 4 (of_nat n :: i32) @ concat (map (\<lambda>e. pack_record (wire_buf e)) ?es) @ []"
    using o2 nb_full [OF o2(3,2)] nb_set_pos_ok by (auto simp: nbuf_ok_def nb_set_pos_0 nb_rest_def nb_size_def comp_def)
  note g = nb_take_step [OF p]
  have int: "nb_get_int ?p = Inr (of_nat n, nb_move ?p 4)" using g by (simp add: nb_get_int_def)
  obtain p' where app: "ml_apply_all junk' n (of_nat ?i) (nb_move ?p 4) (ml_logs t) =
      Inr (put_from (of_nat ?i) ?es (ml_logs t), p')"
    using ml_apply_all_eq [of "nb_move ?p 4" ?es "[]" junk' "of_nat ?i" "ml_logs t"] g es len by auto
  obtain d' where d': "ml_logs t = [(0, d')]" "stored_ok d'"
    using ml_new_ok [OF assms(5)] by (auto elim: mem_log_okE)
  have logs: "put_from (of_nat ?i) ?es (ml_logs t) = (0, d') # indexed ?i ?es"
    using put_from_indexed [of ?i "[]" ?es d'] d(1,2) d'(1) assms(3) by simp
  have first: "first_index ((0, d') # indexed ?i ?es) = of_nat ?i"
  proof -
    obtain x xs where "?es = x # xs" using len assms(2) by (cases ?es) auto
    moreover have "0 < (of_nat ?i :: u64)" using u(1) d(1) unfolding word_less_nat_alt by simp
    ultimately show ?thesis by (simp add: first_index_def del: of_nat_add)
  qed
  let ?t = "\<lparr> ml_logs = (0, d') # indexed ?i ?es, ml_start = of_nat ?i \<rparr>"
  have "ml_apply_pack junk' t (of_nat ?i) o2 = Inr (?t, p')"
    using int app logs first of_nat_i32(2) [OF n] by (simp add: ml_apply_pack_def del: of_nat_add)
  moreover have "mem_log_ok ?t \<and> unat (ml_start ?t) = ?i \<and> mem_entries ?t = ?es"
    by (rule mem_log_okI) (use d(1,2) d'(2) es assms(3) in auto)
  ultimately show ?thesis using pack by blast
qed

theorem mem_pack_roundtrip_witness:
  "\<exists>e p t p' u. ml_pack (\<lambda>_. 0) \<lparr> ml_logs = [(0, e), (5, e), (6, e)], ml_start = 5 \<rparr> 6 1 =
       Inr (p, \<lparr> ml_logs = [(0, e), (5, e), (6, e)], ml_start = 5 \<rparr>) \<and>
     ml_new (\<lambda>_. 0) = Inr t \<and> ml_apply_pack (\<lambda>_. 0) t 6 p = Inr (u, p') \<and>
     unat (ml_start u) = 6 \<and> mem_entries u = [e]"
proof -
  define e where "e = \<lparr> le_term = 3, le_buf = \<lparr> nb_bytes = [7], nb_pos = 0 \<rparr>, le_type = app_log \<rparr>"
  let ?s = "\<lparr> ml_logs = [(0, e), (5, e), (6, e)], ml_start = 5 \<rparr>"
  have "(1 :: i32) AND 0xff = 1" by code_simp
  then have e: "stored_ok e" "nb_size (le_buf e) = 1"
    by (simp_all add: e_def stored_ok_def entry_ok_def nb_size_def app_log_def)
  have s: "mem_log_ok ?s \<and> unat (ml_start ?s) = 5 \<and> mem_entries ?s = [e, e]"
    by (rule mem_log_okI [of _ e]) (use e in simp_all)
  obtain t where t: "ml_new (\<lambda>_. 0) = Inr t" by (simp add: ml_new_def nb_alloc_def)
  have "1 + 1 \<le> length (mem_entries ?s)" "(0 :: nat) < 1"
    "4 + sum_list (map (\<lambda>e. 13 + nb_size (le_buf e)) (take 1 (drop 1 (mem_entries ?s)))) < 0x80000000"
    using s e by simp_all
  note r = mem_pack_roundtrip [OF s [THEN conjunct1] this(2,1,3) t, of "\<lambda>_. 0"]
  have "of_nat (unat (ml_start ?s) + 1) = (6 :: u64)" "unat (ml_start ?s) + 1 = 6" "(of_nat 1 :: i32) = 1"
    "take 1 (drop 1 (mem_entries ?s)) = [e]"
    using s by simp_all
  then show ?thesis using r t by metis
qed

end
