(* ===== verification/Rocks_Log_Store.thy ===== *)
theory Rocks_Log_Store
  imports Raft_Log_Store Mem_Log_Store
begin

text \<open>
  The log store on RocksDB of \<open>kvstore/log_store.h\<close> and \<open>kvstore/log_store.cpp\<close>, which the program
  gives to the consensus library. It keeps no entries itself: every operation goes through the raft
  log store. Its own state is \<open>start_idx_\<close> and \<open>local_idx_\<close>; the map \<open>logs_\<close> and the dummy entry
  are never used. Operations hold the lock, the model is the store under one thread. The arguments of
  log messages are not evaluated.
\<close>

section \<open>The code\<close>

record 's rocks_log =
  rl_w :: "'s wrapper"
  rl_start :: u64
  rl_local :: u64

text \<open>\<open>index\<close> as \<open>get_local_last_idx\<close> returns it: 0 where there is no entry, or an error.\<close>

definition rl_local_last :: "('s, 'c) engine \<Rightarrow> bool \<Rightarrow> 's rocks_log \<Rightarrow> u64 res" where
  "rl_local_last E big s = rbind (get_last E big (rl_w s) 0 VNone) (\<lambda>(rc, index, value). Inr index)"

definition rl_new :: "('s, 'c) engine \<Rightarrow> bool \<Rightarrow> 's wrapper \<Rightarrow> 's rocks_log res" where
  "rl_new E big w =
     rbind (get_last E big w 0 VNone) (\<lambda>(rc, index, value).
       let local = (if rc \<noteq> 0 then 0 else index) in
       rbind (get_first E big w 1 VNone) (\<lambda>(rc, index, value).
         Inr \<lparr> rl_w = w, rl_start = (if rc \<noteq> 0 then 1 else if index = 0 then 1 else index),
               rl_local = local \<rparr>))"

definition rl_next_slot :: "('s, 'c) engine \<Rightarrow> bool \<Rightarrow> 's rocks_log \<Rightarrow> (u64 \<times> 's rocks_log) res" where
  "rl_next_slot E big s =
     rbind (rl_local_last E big s) (\<lambda>l. Inr (1 + l, s \<lparr> rl_local := l \<rparr>))"

definition rl_start_index :: "'s rocks_log \<Rightarrow> u64" where "rl_start_index s = rl_start s"

text \<open>A new entry with term 0, and the entry in a value, read through a buffer of \<open>extra\<close> more bytes.\<close>

definition rl_dummy :: "(nat \<Rightarrow> u8) \<Rightarrow> log_entry res" where
  "rl_dummy junk =
     rbind (nb_alloc junk 8) (\<lambda>b. Inr \<lparr> le_term = 0, le_buf = b, le_type = app_log \<rparr>)"

definition rl_entry_of :: "bool \<Rightarrow> (nat \<Rightarrow> u8) \<Rightarrow> nat \<Rightarrow> val \<Rightarrow> log_entry res" where
  "rl_entry_of big junk extra v =
     rbind (nb_alloc junk (extra + val_size v)) (\<lambda>b.
     rbind (value_slice big v) (\<lambda>m.
     rbind (nb_put_raw b m (val_size v)) (\<lambda>b.
     rbind (le_deserialize junk (nb_set_pos b 0)) (\<lambda>(e, _). Inr e))))"

definition rl_last_entry ::
    "('s, 'c) engine \<Rightarrow> bool \<Rightarrow> (nat \<Rightarrow> u8) \<Rightarrow> 's rocks_log \<Rightarrow> log_entry res" where
  "rl_last_entry E big junk s =
     rbind (get_last E big (rl_w s) 0 VNone) (\<lambda>(rc, index, value).
       if rc \<noteq> 0 then rl_dummy junk else rl_entry_of big junk 8 value)"

definition rl_append ::
    "('s, 'c) engine \<Rightarrow> bool \<Rightarrow> (nat \<Rightarrow> u8) \<Rightarrow> 's rocks_log \<Rightarrow> log_entry \<Rightarrow> (u64 \<times> 's rocks_log) res" where
  "rl_append E big junk s e =
     rbind (make_clone junk e) (\<lambda>clone.
     rbind (le_serialize junk clone) (\<lambda>(buf, _).
     rbind (rl_local_last E big s) (\<lambda>l.
       let idx = rl_start s + l in
       rbind (raft_put_bytes E big (rl_w s) idx (nb_bytes buf) (nb_size buf)) (\<lambda>(rc, w).
         Inr (idx, s \<lparr> rl_w := w \<rparr>)))))"

definition rl_write_at ::
    "('s, 'c) engine \<Rightarrow> bool \<Rightarrow> (nat \<Rightarrow> u8) \<Rightarrow> 's rocks_log \<Rightarrow> u64 \<Rightarrow> log_entry \<Rightarrow> 's rocks_log res" where
  "rl_write_at E big junk s index e =
     rbind (make_clone junk e) (\<lambda>clone.
     rbind (le_serialize junk clone) (\<lambda>(buf, _).
     rbind (get_last E big (rl_w s) 0xffffffff VNone) (\<lambda>(rc, last_index, value).
     rbind (if last_index > index
            then rbind (raft_remove_range E big (rl_w s) index last_index) (\<lambda>(rc, w). Inr w)
            else Inr (rl_w s)) (\<lambda>w.
     rbind (raft_put_bytes E big w index (nb_bytes buf) (nb_size buf)) (\<lambda>(rc, w).
       Inr (s \<lparr> rl_w := w, rl_local := index \<rparr>))))))"

text \<open>
  The result vector of \<open>log_entries\<close> is made of null pointers, \<open>None\<close>, which the callback replaces
  one after the other; behind the end of the vector it writes out of bounds.
\<close>

definition rl_collect ::
    "bool \<Rightarrow> (nat \<Rightarrow> u8) \<Rightarrow> log_entry option list \<times> nat \<Rightarrow> u64 \<Rightarrow> val \<Rightarrow>
     (bool \<times> log_entry option list \<times> nat) res" where
  "rl_collect big junk a idx v =
     rbind (rl_entry_of big junk 0 v) (\<lambda>e.
       if snd a < length (fst a) then Inr (True, (fst a)[snd a := Some e], snd a + 1)
       else Inl MemFault)"

definition rl_log_entries ::
    "('s, 'c) engine \<Rightarrow> bool \<Rightarrow> (nat \<Rightarrow> u8) \<Rightarrow> nat \<Rightarrow> 's rocks_log \<Rightarrow> u64 \<Rightarrow> u64 \<Rightarrow> log_entry option list res" where
  "rl_log_entries E big junk fuel s start end =
     rbind (check_resize (end - start)) (\<lambda>_.
     rbind (scan_range E big fuel (rl_w s) start end (rl_collect big junk)
              (replicate (unat (end - start)) None, 0)) (\<lambda>(rc, ret, cc). Inr ret))"

definition rl_collect_ext ::
    "bool \<Rightarrow> (nat \<Rightarrow> u8) \<Rightarrow> i64 \<Rightarrow> log_entry list \<times> u64 \<Rightarrow> u64 \<Rightarrow> val \<Rightarrow> (bool \<times> log_entry list \<times> u64) res" where
  "rl_collect_ext big junk hint a idx v =
     rbind (rl_entry_of big junk 0 v) (\<lambda>e.
       let accum = snd a + of_nat (nb_size (le_buf e))
       in Inr (\<not> (hint \<noteq> 0 \<and> accum \<ge> hint), fst a @ [e], accum))"

definition rl_log_entries_ext ::
    "('s, 'c) engine \<Rightarrow> bool \<Rightarrow> (nat \<Rightarrow> u8) \<Rightarrow> nat \<Rightarrow> 's rocks_log \<Rightarrow> u64 \<Rightarrow> u64 \<Rightarrow> i64 \<Rightarrow> log_entry list res" where
  "rl_log_entries_ext E big junk fuel s start end hint =
     (if sint hint < 0 then Inr []
      else rbind (scan_range E big fuel (rl_w s) start end (rl_collect_ext big junk hint) ([], 0))
             (\<lambda>(rc, ret, accum). Inr ret))"

definition rl_entry_at ::
    "('s, 'c) engine \<Rightarrow> bool \<Rightarrow> (nat \<Rightarrow> u8) \<Rightarrow> 's rocks_log \<Rightarrow> u64 \<Rightarrow> log_entry res" where
  "rl_entry_at E big junk s index =
     rbind (raft_get E big (rl_w s) index VNone) (\<lambda>(rc, value).
       if rc \<noteq> 0 then rl_dummy junk else rl_entry_of big junk 0 value)"

definition rl_term_at ::
    "('s, 'c) engine \<Rightarrow> bool \<Rightarrow> (nat \<Rightarrow> u8) \<Rightarrow> 's rocks_log \<Rightarrow> u64 \<Rightarrow> u64 res" where
  "rl_term_at E big junk s index =
     rbind (raft_get E big (rl_w s) index VNone) (\<lambda>(rc, value).
       if rc \<noteq> 0 then Inr 0
       else rbind (rl_entry_of big junk 0 value) (\<lambda>e. Inr (le_term e)))"

subsection \<open>Packs and compaction\<close>

definition rl_pack_collect :: "val list \<times> u64 \<Rightarrow> u64 \<Rightarrow> val \<Rightarrow> (bool \<times> val list \<times> u64) res" where
  "rl_pack_collect a idx v = Inr (True, fst a @ [v], snd a + of_nat (val_size v))"

text \<open>\<open>put(v.data(), v.size())\<close> writes the length once more.\<close>

fun rl_put_all :: "bool \<Rightarrow> nbuf \<Rightarrow> val list \<Rightarrow> nbuf res" where
  "rl_put_all big out [] = Inr out"
| "rl_put_all big out (v # vs) =
     rbind (nb_put_int out (of_nat (val_size v))) (\<lambda>out.
     rbind (value_slice big v) (\<lambda>m.
     rbind (nb_put_bytes out m (val_size v)) (\<lambda>out. rl_put_all big out vs)))"

text \<open>\<open>scan_range\<close> never reports an error, so the branch that returns \<open>nullptr\<close> is not taken.\<close>

definition rl_pack ::
    "('s, 'c) engine \<Rightarrow> bool \<Rightarrow> (nat \<Rightarrow> u8) \<Rightarrow> nat \<Rightarrow> 's rocks_log \<Rightarrow> u64 \<Rightarrow> i32 \<Rightarrow> nbuf option res" where
  "rl_pack E big junk fuel s index cnt =
     rbind (scan_range E big fuel (rl_w s) index (index + scast cnt) rl_pack_collect ([], 0))
       (\<lambda>(rc, values, size_total).
       if rc \<noteq> 0 then Inr None
       else rbind (nb_alloc junk (unat (4 + scast cnt * 4 + size_total))) (\<lambda>out.
            rbind (nb_put_int (nb_set_pos out 0) cnt) (\<lambda>out.
            rbind (rl_put_all big out values) (\<lambda>out. Inr (Some out)))))"

fun rl_apply_all ::
    "('s, 'c) engine \<Rightarrow> bool \<Rightarrow> (nat \<Rightarrow> u8) \<Rightarrow> nat \<Rightarrow> u64 \<Rightarrow> nbuf \<Rightarrow> raft_bundle \<Rightarrow> (raft_bundle \<times> nbuf) res" where
  "rl_apply_all E big junk 0 cur p b = Inr (b, p)"
| "rl_apply_all E big junk (Suc n) cur p b =
     rbind (nb_get_int p) (\<lambda>(buf_size, p).
     rbind (nb_alloc junk (unat (scast buf_size :: u64))) (\<lambda>buf_local.
     rbind (nb_get p buf_local) (\<lambda>(buf_local, p).
     rbind (bundle_append_bytes E big b cur (nb_bytes buf_local) (nb_size buf_local)) (\<lambda>(rc, b).
       rl_apply_all E big junk n (cur + 1) p b))))"

definition rl_apply_pack ::
    "('s, 'c) engine \<Rightarrow> bool \<Rightarrow> (nat \<Rightarrow> u8) \<Rightarrow> 's rocks_log \<Rightarrow> u64 \<Rightarrow> nbuf \<Rightarrow> ('s rocks_log \<times> nbuf) res" where
  "rl_apply_pack E big junk s index p =
     rbind (nb_get_int (nb_set_pos p 0)) (\<lambda>(num_logs, p).
     rbind (rl_apply_all E big junk (nat (sint num_logs)) index p (bundle_new (rl_w s))) (\<lambda>(b, p).
     rbind (raft_put_bundle E (rl_w s) b) (\<lambda>(rc, w).
       let s = s \<lparr> rl_w := w \<rparr> in
       if rc \<noteq> 0 then Inr (s, p)
       else rbind (get_first E big w 1 VNone) (\<lambda>(rc, index, value).
            let s = (if rc \<noteq> 0 then s else s \<lparr> rl_start := (if index = 0 then 1 else index) \<rparr>) in
            rbind (get_last E big w 1 VNone) (\<lambda>(rc, index, value).
              Inr (if rc \<noteq> 0 then s else s \<lparr> rl_local := (if index = 0 then 1 else index) \<rparr>, p))))))"

definition rl_compact ::
    "('s, 'c) engine \<Rightarrow> bool \<Rightarrow> 's rocks_log \<Rightarrow> u64 \<Rightarrow> (bool \<times> 's rocks_log) res" where
  "rl_compact E big s last_log_index =
     rbind (raft_remove_range E big (rl_w s) (rl_start s) last_log_index) (\<lambda>(rc, w).
       if rc \<noteq> 0 then Inr (False, s \<lparr> rl_w := w \<rparr>)
       else Inr (True, s \<lparr> rl_w := w,
                            rl_start := (if rl_start s \<le> last_log_index then last_log_index + 1
                                         else rl_start s) \<rparr>))"

section \<open>Lemmas\<close>

text \<open>
  Writes to a column family that is \<open>live\<close> do not fail either. What is live is RocksDB's business; it
  stays so under writes.
\<close>

definition writes_succeed :: "('s, 'c) engine \<Rightarrow> ('s \<Rightarrow> handle \<Rightarrow> bool) \<Rightarrow> bool" where
  "writes_succeed E live \<longleftrightarrow> (\<forall>s h. live s h \<longrightarrow>
     (\<forall>k v. fst (e_put E s (Some h) k v) = 0 \<and> live (snd (e_put E s (Some h) k v)) h) \<and>
     (\<forall>b e. fst (e_delete_range E s (Some h) b e) = 0 \<and> live (snd (e_delete_range E s (Some h) b e)) h))"

lemma writes_succeedD:
  assumes "writes_succeed E live" "live s h"
  shows "\<exists>s'. e_put E s (Some h) k v = (0, s') \<and> live s' h"
    "\<exists>s'. e_delete_range E s (Some h) b e = (0, s') \<and> live s' h"
  using assms unfolding writes_succeed_def by (metis prod.collapse)+

lemma mem_engine_succeeds: "writes_succeed mem_engine (\<lambda>s h. h < length s)"
  by (simp add: writes_succeed_def mem_engine_simps mem_set_def)

subsection \<open>A log without gaps on disk\<close>

definition wired :: "nat \<Rightarrow> log_entry list \<Rightarrow> item list" where
  "wired i es = map (\<lambda>x. (be_bytes 8 (fst x), le_wire (snd x))) (indexed i es)"

lemma wired_simps [simp]:
  "wired i [] = []"
  "wired i (e # es) = (be_bytes 8 (of_nat i :: u64), le_wire e) # wired (Suc i) es"
  "wired i (es @ fs) = wired i es @ wired (i + length es) fs"
  "length (wired i es) = length es"
  by (simp_all add: wired_def)

lemma wired_entries: "entries (wired i es) = map (\<lambda>x. (fst x, le_wire (snd x))) (indexed i es)"
  by (simp add: wired_def entries_def comp_def)

lemma entry_ok_wire: "entry_ok e \<Longrightarrow> length (le_wire e) < 0xffffff"
  by (simp add: entry_ok_def)

lemma wired_ok:
  assumes "i + length es < 2 ^ 64" "\<forall>e \<in> set es. entry_ok e"
  shows "raft_items_ok (wired i es)"
proof -
  have "set (map snd (indexed i es)) = set es" by simp
  then have "\<forall>x \<in> set (indexed i es). entry_ok (snd x)" using assms(2) by (metis image_eqI list.set_map)
  moreover have "ordered_items (wired i es)"
    using indexed_ordered [OF assms(1)] by (simp add: wired_def ordered_items_def sorted_wrt_map)
  ultimately show ?thesis
    using entry_ok_wire by (auto simp: raft_items_ok_def wired_def simp del: le_wire_length)
qed

lemma wired_from:
  assumes "i + length es < 2 ^ 64" "k \<le> length es"
  shows "filter (\<lambda>y. be_bytes 8 (of_nat (i + k) :: u64) \<le> fst y) (wired i es) = wired (i + k) (drop k es)"
  unfolding wired_def using indexed_drop [OF assms] by (simp add: filter_map comp_def not_less del: of_nat_add)

lemma wired_put_end:
  assumes "i + length es < 2 ^ 64"
  shows "put_item (be_bytes 8 (of_nat (i + length es) :: u64), le_wire e) (wired i es) = wired i (es @ [e])"
proof -
  let ?k = "of_nat (i + length es) :: u64"
  have lt: "fst y < be_bytes 8 ?k" if y: "y \<in> set (wired i es)" for y
  proof -
    obtain x where x: "x \<in> set (indexed i es)" "fst y = be_bytes 8 (fst x)" using y by (auto simp: wired_def)
    have "unat ?k = i + length es" by (rule unat_u64 [OF assms])
    then have "fst x < ?k" using indexed_keys [OF assms x(1)] by (simp add: word_less_nat_alt del: of_nat_add)
    then show ?thesis using x(2) by simp
  qed
  then have "filter (\<lambda>y. fst y < be_bytes 8 ?k) (wired i es) = wired i es"
    "filter (\<lambda>y. be_bytes 8 ?k < fst y) (wired i es) = []"
    by (auto simp: filter_id_conv filter_empty_conv dest: less_asym)
  then show ?thesis by (simp add: put_item_def del: of_nat_add)
qed

lemma wired_last:
  assumes "es \<noteq> []"
  shows "fst (last (wired i es)) = be_bytes 8 (of_nat (i + length es - 1) :: u64)"
    "snd (last (wired i es)) = le_wire (last es)"
  using assms by (cases es rule: rev_cases; simp)+

subsection \<open>Entries and values\<close>

lemma value_slice_string [simp]: "value_slice big (VString s) = Inr s"
  by (simp add: value_slice_def read_block_def)

lemma wire_clone: "le_wire (e \<lparr> le_buf := \<lparr> nb_bytes = nb_bytes (le_buf e), nb_pos = 0 \<rparr> \<rparr>) = le_wire e"
  by (simp add: le_wire_def)

lemma clone_serialize:
  assumes "entry_ok e"
  shows "\<exists>c c'. make_clone junk e = Inr c \<and> le_serialize junk c = Inr (\<lparr> nb_bytes = le_wire e, nb_pos = 0 \<rparr>, c')"
  using assms make_clone_eq [OF assms, of junk] wire_clone [of e]
    le_serialize_eq [of "e \<lparr> le_buf := \<lparr> nb_bytes = nb_bytes (le_buf e), nb_pos = 0 \<rparr> \<rparr>" junk]
  by (simp add: entry_ok_def nb_size_def)

lemma rl_entry_of_wire:
  assumes "entry_ok e"
  shows "rl_entry_of big junk 0 (VString (le_wire e)) =
    Inr (e \<lparr> le_buf := \<lparr> nb_bytes = nb_bytes (le_buf e), nb_pos = 0 \<rparr> \<rparr>)"
proof -
  let ?n = "length (le_wire e)"
  have n: "?n < 0x80000000" "nb_size (le_buf e) + 9 < 0x80000000" "le_type e AND 0xff = le_type e"
    using assms by (simp_all add: entry_ok_def)
  obtain b where b: "nb_alloc junk ?n = Inr b" "nbuf_ok b" "nb_done b = []" "nb_room b = ?n"
    using nb_alloc_step [OF n(1)] by blast
  obtain d where d: "nb_put_raw b (le_wire e) ?n = Inr d" "nbuf_ok d" "nb_done d = le_wire e" "nb_room d = 0"
    using nb_put_raw_step [OF b(2), of ?n "le_wire e"] b(3,4) by auto
  then have p: "nb_set_pos d 0 = \<lparr> nb_bytes = le_wire e, nb_pos = 0 \<rparr>"
    using nb_full [OF d(4,2)] by (simp add: nb_set_pos_0)
  obtain r where "le_deserialize junk \<lparr> nb_bytes = le_wire e, nb_pos = 0 \<rparr> =
      Inr (\<lparr> le_term = le_term e, le_buf = \<lparr> nb_bytes = nb_bytes (le_buf e), nb_pos = 0 \<rparr>,
             le_type = le_type e AND 0xff \<rparr>, r)"
    using le_deserialize_eq [OF n(2)] by blast
  then show ?thesis
    using b(1) d(1) p n(3) by (simp add: rl_entry_of_def del: le_wire_length)
qed

definition wire_view :: "bytes \<Rightarrow> entry_view" where
  "wire_view bs = (shift_bytes (rev (take 8 bs)), ucast (bs ! 8), drop 9 bs)"

lemma wire_view:
  assumes "entry_ok e"
  shows "wire_view (le_wire e) = entry_view e"
proof -
  have "shift_bytes (rev (le_bytes 8 (le_term e))) = le_term e" by (rule shift_le_bytes) simp
  moreover have "ucast (ucast (le_type e) :: u8) = le_type e AND 0xff"
    by (rule bit_word_eqI) (auto simp: bit_simps bit_lits)
  moreover have "le_wire e ! 8 = ucast (le_type e)" "drop 9 (le_wire e) = nb_bytes (le_buf e)"
    using nth_append_length [of "le_bytes 8 (le_term e)"]
    by (simp_all add: le_wire_def drop_Cons')
  ultimately show ?thesis
    using assms by (simp add: wire_view_def entry_view_def le_wire_def entry_ok_def)
qed

subsection \<open>The store over a log without gaps\<close>

text \<open>The RocksDB store holds the entries es from index b on; nothing is said of \<open>start_idx_\<close>.\<close>

definition rl_holds ::
    "('s, 'c) engine \<Rightarrow> ('s \<Rightarrow> handle \<Rightarrow> item list) \<Rightarrow> ('c \<Rightarrow> item list \<times> item list) \<Rightarrow>
     ('s \<Rightarrow> handle \<Rightarrow> bool) \<Rightarrow> 's wrapper \<Rightarrow> nat \<Rightarrow> log_entry list \<Rightarrow> bool" where
  "rl_holds E items cview live w b es \<longleftrightarrow>
     writes_ok E items \<and> cursors_ok E items cview \<and> no_read_errors E \<and> writes_succeed E live \<and>
     rw_open w \<and> 0 < b \<and> b + length es < 2 ^ 64 \<and> (\<forall>e \<in> set es. entry_ok e) \<and>
     (\<exists>h. get_raft_log_handle w = Some h \<and> live (rw_db w) h \<and> items (rw_db w) h = wired b es)"

lemma rl_holdsE:
  assumes "rl_holds E items cview live w b es"
  obtains h where "writes_ok E items" "cursors_ok E items cview" "no_read_errors E" "writes_succeed E live"
    "rw_open w" "0 < b" "b + length es < 2 ^ 64" "\<forall>e \<in> set es. entry_ok e"
    "get_raft_log_handle w = Some h" "live (rw_db w) h" "items (rw_db w) h = wired b es"
    "raft_items_ok (wired b es)"
  using assms wired_ok by (auto simp: rl_holds_def)

lemma rl_last:
  assumes "rl_holds E items cview live w b es"
  shows "get_last E big w index v =
    (if es = [] then Inr (ERR_NOT_FOUND, index, v)
     else Inr (0, of_nat (b + length es - 1), VString (le_wire (last es))))"
proof -
  obtain h where h: "cursors_ok E items cview" "no_read_errors E" "rw_open w" "get_raft_log_handle w = Some h"
      "items (rw_db w) h = wired b es" "raft_items_ok (wired b es)"
    using assms by (rule rl_holdsE)
  show ?thesis
    using get_ends_eq(2) [OF h(1-4), of big index v] h(5,6) wired_last [of es b]
    by (cases es) simp_all
qed

lemma rl_local_last_eq:
  assumes "rl_holds E items cview live (rl_w s) b es"
  shows "rl_local_last E big s = Inr (if es = [] then 0 else of_nat (b + length es - 1))"
  using rl_last [OF assms] by (simp add: rl_local_last_def)

text \<open>Writing an entry at an index of the column family.\<close>

lemma rl_put:
  assumes "rl_holds E items cview live w b es" "get_raft_log_handle w = Some h" "entry_ok e"
  shows "\<exists>s. raft_put_bytes E big w i (le_wire e) (length (le_wire e)) = Inr (0, w \<lparr> rw_db := s \<rparr>) \<and>
    items s = (items (rw_db w))(h := put_item (be_bytes 8 i, le_wire e) (items (rw_db w) h)) \<and> live s h"
proof -
  have w: "rw_open w" "writes_ok E items" "writes_succeed E live" "live (rw_db w) h"
    using assms(1,2) by (simp_all add: rl_holds_def)
  obtain s where s: "e_put E (rw_db w) (Some h) (be_bytes 8 i) (take (length (le_wire e)) (le_wire e)) = (0, s)"
      "live s h"
    using writes_succeedD(1) [OF w(3,4)] by blast
  then show ?thesis
    using raft_put_bytes_eq [OF w(1) assms(2) order_refl s(1)] writes_okD(2) [OF w(2) s(1)] by auto
qed

lemma rl_append_at:
  assumes "rl_holds E items cview live (rl_w s) b es" "get_raft_log_handle (rl_w s) = Some h" "entry_ok e"
  defines "i \<equiv> rl_start s + (if es = [] then 0 else of_nat (b + length es - 1))"
  shows "\<exists>t. rl_append E big junk s e = Inr (i, s \<lparr> rl_w := (rl_w s) \<lparr> rw_db := t \<rparr> \<rparr>) \<and>
    items t = (items (rw_db (rl_w s)))(h := put_item (be_bytes 8 i, le_wire e) (wired b es)) \<and> live t h"
proof -
  obtain c c' where c: "make_clone junk e = Inr c" "le_serialize junk c = Inr (\<lparr> nb_bytes = le_wire e, nb_pos = 0 \<rparr>, c')"
    using clone_serialize [OF assms(3)] by blast
  obtain t where "raft_put_bytes E big (rl_w s) i (le_wire e) (length (le_wire e)) = Inr (0, (rl_w s) \<lparr> rw_db := t \<rparr>)"
      "items t = (items (rw_db (rl_w s)))(h := put_item (be_bytes 8 i, le_wire e) (items (rw_db (rl_w s)) h))" "live t h"
    using rl_put [OF assms(1-3)] by blast
  moreover have "items (rw_db (rl_w s)) h = wired b es"
    using assms(1,2) by (simp add: rl_holds_def)
  ultimately show ?thesis
    using c rl_local_last_eq [OF assms(1)] unfolding i_def
    by (intro exI [of _ t]) (simp add: rl_append_def Let_def nb_size_def del: le_wire_length)
qed

lemma rl_entry_at_eq:
  assumes "rl_holds E items cview live (rl_w s) b es" "k < length es"
  shows "raft_get E big (rl_w s) (of_nat (b + k)) v = Inr (0, VString (le_wire (es ! k)))"
    "rl_entry_at E big junk s (of_nat (b + k)) =
       Inr ((es ! k) \<lparr> le_buf := \<lparr> nb_bytes = nb_bytes (le_buf (es ! k)), nb_pos = 0 \<rparr> \<rparr>)"
    "rl_term_at E big junk s (of_nat (b + k)) = Inr (le_term (es ! k))"
proof -
  obtain h where h: "cursors_ok E items cview" "no_read_errors E" "rw_open (rl_w s)"
      "get_raft_log_handle (rl_w s) = Some h" "items (rw_db (rl_w s)) h = wired b es"
      "b + length es < 2 ^ 64" "\<forall>e \<in> set es. entry_ok e"
    using assms(1) by (rule rl_holdsE)
  have e: "entry_ok (es ! k)" using h(7) assms(2) by simp
  have "drop k es = es ! k # drop (Suc k) es" using assms(2) by (rule Cons_nth_drop_Suc [symmetric])
  then have "wired (b + k) (drop k es) = (be_bytes 8 (of_nat (b + k) :: u64), le_wire (es ! k)) # wired (Suc (b + k)) (drop (Suc k) es)"
    by simp
  then show g: "raft_get E big (rl_w s) (of_nat (b + k)) v = Inr (0, VString (le_wire (es ! k)))" for v
    using raft_get_eq [OF h(1-4), of big "of_nat (b + k)" v] wired_from [OF h(6), of k] h(5) assms(2)
      set_string_ok [OF entry_ok_wire [OF e]]
    by (simp del: of_nat_add le_wire_length)
  show "rl_entry_at E big junk s (of_nat (b + k)) =
       Inr ((es ! k) \<lparr> le_buf := \<lparr> nb_bytes = nb_bytes (le_buf (es ! k)), nb_pos = 0 \<rparr> \<rparr>)"
    "rl_term_at E big junk s (of_nat (b + k)) = Inr (le_term (es ! k))"
    using g [of VNone] rl_entry_of_wire [OF e] by (simp_all add: rl_entry_at_def rl_term_at_def del: of_nat_add)
qed

section \<open>The contract, for a log that was never compacted\<close>

definition rl_items :: "('s \<Rightarrow> handle \<Rightarrow> item list) \<Rightarrow> 's rocks_log \<Rightarrow> item list" where
  "rl_items items s = items (rw_db (rl_w s)) (the (get_raft_log_handle (rl_w s)))"

definition rl_ents :: "('s \<Rightarrow> handle \<Rightarrow> item list) \<Rightarrow> 's rocks_log \<Rightarrow> entry_view list" where
  "rl_ents items s = map (wire_view \<circ> snd) (entries (rl_items items s))"

definition rl_ok ::
    "('s, 'c) engine \<Rightarrow> ('s \<Rightarrow> handle \<Rightarrow> item list) \<Rightarrow> ('c \<Rightarrow> item list \<times> item list) \<Rightarrow>
     ('s \<Rightarrow> handle \<Rightarrow> bool) \<Rightarrow> 's rocks_log \<Rightarrow> bool" where
  "rl_ok E items cview live s \<longleftrightarrow> rl_start s = 1 \<and> (\<exists>es. rl_holds E items cview live (rl_w s) 1 es)"

lemma rl_ents_holds:
  assumes "rl_holds E items cview live (rl_w s) b es"
  shows "rl_ents items s = map entry_view es"
proof -
  have "\<forall>e \<in> set es. entry_ok e" "rl_items items s = wired b es"
    using assms by (auto simp: rl_holds_def rl_items_def)
  then have "map (wire_view \<circ> snd) (entries (rl_items items s)) = map (wire_view \<circ> le_wire) (map snd (indexed b es))"
    by (simp add: wired_entries comp_def del: indexed_simps)
  then show ?thesis
    using \<open>\<forall>e \<in> set es. entry_ok e\<close> wire_view by (simp add: rl_ents_def)
qed

lemma rl_holds_append:
  assumes "rl_holds E items cview live w b es" "get_raft_log_handle w = Some h" "entry_ok e"
    and "b + length es + 1 < 2 ^ 64"
    and "items t = (items (rw_db w))(h := put_item (be_bytes 8 (of_nat (b + length es) :: u64), le_wire e) (wired b es))"
    and "live t h"
  shows "rl_holds E items cview live (w \<lparr> rw_db := t \<rparr>) b (es @ [e])"
  using assms wired_put_end [of b es e] by (simp add: rl_holds_def del: of_nat_add wired_simps)

interpretation rl: log_store "rl_ok E items cview live" "\<lambda>s. unat (rl_start s)" "rl_ents items"
  "rl_next_slot E big" "rl_append E big junk"
  "\<lambda>s i. rbind (rl_entry_at E big junk s i) (\<lambda>e. Inr (e, s))"
  "\<lambda>s i. rbind (rl_term_at E big junk s i) (\<lambda>t. Inr (t, s))"
proof
  fix s
  assume "rl_ok E items cview live s"
  then obtain es where es: "rl_start s = 1" "rl_holds E items cview live (rl_w s) 1 es"
    by (auto simp: rl_ok_def)
  note ents = rl_ents_holds [OF es(2)]
  have same: "rl_ok E items cview live (s \<lparr> rl_local := l \<rparr>) \<and> rl_ents items (s \<lparr> rl_local := l \<rparr>) = rl_ents items s" for l
    using es by (auto simp: rl_ok_def rl_ents_def rl_items_def)
  show "\<exists>s'. rl_next_slot E big s = Inr (of_nat (unat (rl_start s) + length (rl_ents items s)), s') \<and>
      rl_ok E items cview live s' \<and> unat (rl_start s') = unat (rl_start s) \<and> rl_ents items s' = rl_ents items s"
    using rl_local_last_eq [OF es(2), of big] es(1) ents same by (cases es) (simp_all add: rl_next_slot_def)
  have ok: "rl_ok E items cview live s" using es by (auto simp: rl_ok_def)
  {
    fix e
    assume e: "entry_ok e" and lt: "unat (rl_start s) + length (rl_ents items s) + 1 < 2 ^ 64"
    obtain h where h: "get_raft_log_handle (rl_w s) = Some h" using es(2) by (rule rl_holdsE)
    have i: "rl_start s + (if es = [] then 0 else of_nat (1 + length es - 1)) = of_nat (1 + length es)"
      using es(1) by simp
    obtain t where t: "rl_append E big junk s e =
        Inr (of_nat (1 + length es), s \<lparr> rl_w := (rl_w s) \<lparr> rw_db := t \<rparr> \<rparr>)"
      "items t = (items (rw_db (rl_w s)))(h := put_item (be_bytes 8 (of_nat (1 + length es) :: u64), le_wire e) (wired 1 es))"
      "live t h"
      using rl_append_at [OF es(2) h e, of big junk] unfolding i by blast
    let ?s = "s \<lparr> rl_w := (rl_w s) \<lparr> rw_db := t \<rparr> \<rparr>"
    have holds: "rl_holds E items cview live (rl_w ?s) 1 (es @ [e])"
      using rl_holds_append [OF es(2) h e _ t(2,3)] lt es(1) ents by simp
    then have "rl_ok E items cview live ?s" using es(1) unfolding rl_ok_def by (intro conjI exI) simp_all
    then show "\<exists>s'. rl_append E big junk s e = Inr (of_nat (unat (rl_start s) + length (rl_ents items s)), s') \<and>
        rl_ok E items cview live s' \<and> unat (rl_start s') = unat (rl_start s) \<and>
        rl_ents items s' = rl_ents items s @ [entry_view e]"
      using t(1) es(1) ents rl_ents_holds [OF holds] by (intro exI [of _ ?s]) simp
  next
    fix k
    assume "k < length (rl_ents items s)"
    then have k: "k < length es" using ents by simp
    have "entry_view ((es ! k) \<lparr> le_buf := \<lparr> nb_bytes = nb_bytes (le_buf (es ! k)), nb_pos = 0 \<rparr> \<rparr>) = entry_view (es ! k)"
      by (simp add: entry_view_def)
    then show "\<exists>e s'. rbind (rl_entry_at E big junk s (of_nat (unat (rl_start s) + k))) (\<lambda>e. Inr (e, s)) = Inr (e, s') \<and>
        entry_view e = rl_ents items s ! k \<and> rl_ok E items cview live s' \<and>
        unat (rl_start s') = unat (rl_start s) \<and> rl_ents items s' = rl_ents items s"
      using rl_entry_at_eq(2) [OF es(2) k, of big junk] es(1) ents k ok by simp
    show "\<exists>s'. rbind (rl_term_at E big junk s (of_nat (unat (rl_start s) + k))) (\<lambda>t. Inr (t, s)) =
        Inr (fst (rl_ents items s ! k), s') \<and> rl_ok E items cview live s' \<and>
        unat (rl_start s') = unat (rl_start s) \<and> rl_ents items s' = rl_ents items s"
      using rl_entry_at_eq(3) [OF es(2) k, of big junk] es(1) ents k ok by (simp add: entry_view_def)
  }
qed

section \<open>Runs of the store\<close>

inductive rl_run ::
    "('s, 'c) engine \<Rightarrow> bool \<Rightarrow> (nat \<Rightarrow> u8) \<Rightarrow> 's rocks_log \<Rightarrow> log_entry list \<Rightarrow> 's rocks_log \<Rightarrow> bool"
  for E big junk s where
  rl_run_start: "rl_run E big junk s [] s"
| rl_run_append: "rl_run E big junk s es t \<Longrightarrow> rl_append E big junk t e = Inr (i, u) \<Longrightarrow>
    rl_run E big junk s (es @ [e]) u"
| rl_run_next_slot: "rl_run E big junk s es t \<Longrightarrow> rl_next_slot E big t = Inr (i, u) \<Longrightarrow> rl_run E big junk s es u"

lemma rl_run_ok:
  assumes "rl_run E big junk s es t" "rl_ok E items cview live s" "\<forall>e \<in> set es. entry_ok e"
    and "length (rl_ents items s) + length es + 2 < 2 ^ 64"
  shows "rl_ok E items cview live t \<and> rl_ents items t = rl_ents items s @ map entry_view es"
  using assms(1,3,4)
proof induction
  case (rl_run_append es t e i u)
  then have t: "rl_ok E items cview live t" "rl_ents items t = rl_ents items s @ map entry_view es" by auto
  have "unat (rl_start t) = 1" using t(1) by (simp add: rl_ok_def)
  then show ?case using rl.append [OF t(1), of e big junk] t(2) rl_run_append by auto
next
  case (rl_run_next_slot es t i u)
  then show ?case using rl.next_slot [of E items cview live t big] by auto
qed (use assms(2) in simp)

section \<open>Parts of a log\<close>

lemma wired_key:
  assumes "y \<in> set (wired i es)"
  shows "\<exists>n. i \<le> n \<and> n < i + length es \<and> fst y = be_bytes 8 (of_nat n :: u64)"
  using assms
proof (induction es arbitrary: i)
  case (Cons e es)
  show ?case
  proof (cases "y \<in> set (wired (Suc i) es)")
    case True
    then obtain n where "Suc i \<le> n" "n < Suc i + length es" "fst y = be_bytes 8 (of_nat n :: u64)"
      using Cons.IH by blast
    then show ?thesis by (intro exI [of _ n]) simp
  next
    case False
    then show ?thesis using Cons.prems by (intro exI [of _ i]) simp
  qed
qed simp

lemma u64_order:
  assumes "n < 2 ^ 64" "m < 2 ^ 64"
  shows "be_bytes 8 (of_nat n :: u64) < be_bytes 8 (of_nat m :: u64) \<longleftrightarrow> n < m"
    "be_bytes 8 (of_nat n :: u64) \<le> be_bytes 8 (of_nat m :: u64) \<longleftrightarrow> n \<le> m"
  using assms by (simp_all add: word_less_nat_alt word_le_nat_alt unat_u64)

lemma wired_filter:
  assumes "i + length es < 2 ^ 64" "\<And>n. i \<le> n \<Longrightarrow> n < i + length es \<Longrightarrow> P (be_bytes 8 (of_nat n :: u64)) = b"
  shows "filter (\<lambda>y. P (fst y)) (wired i es) = (if b then wired i es else [])"
proof -
  have "P (fst y) = b" if "y \<in> set (wired i es)" for y
    using wired_key [OF that] assms(2) by metis
  then show ?thesis by (auto simp: filter_id_conv filter_empty_conv)
qed

lemma wired_range:
  assumes "i + length es < 2 ^ 64" "j + n \<le> length es" "0 < n"
  shows "filter (\<lambda>y. be_bytes 8 (of_nat (i + j) :: u64) \<le> fst y \<and> fst y \<le> be_bytes 8 (of_nat (i + j + n) :: u64))
      (wired i es) = wired (i + j) (take (n + 1) (drop j es))"
proof -
  let ?P = "\<lambda>k. be_bytes 8 (of_nat (i + j) :: u64) \<le> k \<and> k \<le> be_bytes 8 (of_nat (i + j + n) :: u64)"
  let ?a = "take j es" and ?m = "take (n + 1) (drop j es)" and ?z = "drop (n + 1) (drop j es)"
  have es: "es = ?a @ ?m @ ?z" by (metis append_take_drop_id)
  have la: "length ?a = j" and lm: "length ?m \<le> n + 1" and lz: "length ?z = length es - (j + n + 1)"
    and mz: "?z \<noteq> [] \<Longrightarrow> length ?m = n + 1"
    using assms(2) by auto
  have "filter (\<lambda>y. ?P (fst y)) (wired i ?a) = []"
    using wired_filter [of i ?a ?P False] assms u64_order(2) [of "i + j"] la by auto
  moreover have "filter (\<lambda>y. ?P (fst y)) (wired (i + j) ?m) = wired (i + j) ?m"
  proof -
    have bound: "i + j + length ?m \<le> i + length es" using assms(2) by simp
    have "?P (be_bytes 8 (of_nat x :: u64))" if "i + j \<le> x" "x < i + j + length ?m" for x
      using that bound lm assms(1,2) u64_order(2) [of "i + j" x] u64_order(2) [of x "i + j + n"]
      by (simp del: of_nat_add length_take)
    then show ?thesis using wired_filter [of "i + j" ?m ?P True] bound assms(1) by simp
  qed
  moreover have "filter (\<lambda>y. ?P (fst y)) (wired (i + j + length ?m) ?z) = []"
  proof (cases "?z = []")
    case False
    then have lm: "length ?m = n + 1" by (rule mz)
    have bound: "i + j + length ?m + length ?z \<le> i + length es" using assms(2) lm by simp
    have "\<not> ?P (be_bytes 8 (of_nat x :: u64))" if "i + j + length ?m \<le> x" "x < i + j + length ?m + length ?z" for x
      using that bound lm assms(1,2) u64_order(2) [of x "i + j + n"]
      by (simp del: of_nat_add length_take length_drop)
    then show ?thesis using wired_filter [of "i + j + length ?m" ?z ?P False] bound assms(1) by simp
  qed simp
  moreover have "wired i es = wired i ?a @ wired (i + j) ?m @ wired (i + j + length ?m) ?z"
    using arg_cong [OF es, of "wired i"] la unfolding wired_simps(3) by (simp only:)
  ultimately show ?thesis by simp
qed

section \<open>Properties\<close>


text \<open>
  After a compaction the index \<open>append\<close> takes is not the next slot: on a log that starts at b > 1
  and ends at n, \<open>next_slot\<close> is n + 1 and \<open>append\<close> writes at b + n. The log then has a gap, and
  \<open>entry_at\<close> of the next slot returns the entry from behind it.
\<close>

theorem rl_append_gap:
  assumes "rl_holds E items cview live (rl_w s) b es" "es \<noteq> []" "1 < b" "rl_start s = of_nat b" "entry_ok e"
    and "b + (b + length es) < 2 ^ 64"
  shows "\<exists>t u. rl_next_slot E big s = Inr (of_nat (b + length es), u) \<and>
    rl_append E big junk s e = Inr (of_nat (b + (b + length es - 1)), t) \<and>
    (of_nat (b + length es) :: u64) \<noteq> of_nat (b + (b + length es - 1)) \<and>
    raft_get E big (rl_w t) (of_nat (b + length es)) VNone = Inr (0, VString (le_wire e))"
proof -
  let ?n = "b + length es" and ?i = "b + (b + length es - 1)"
  obtain h where h: "cursors_ok E items cview" "no_read_errors E" "rw_open (rl_w s)"
      "get_raft_log_handle (rl_w s) = Some h"
    using assms(1) by (rule rl_holdsE)
  have i: "rl_start s + (if es = [] then 0 else of_nat (?n - 1)) = of_nat ?i" using assms(2,4) by simp
  obtain t where t: "rl_append E big junk s e = Inr (of_nat ?i, s \<lparr> rl_w := (rl_w s) \<lparr> rw_db := t \<rparr> \<rparr>)"
      "items t = (items (rw_db (rl_w s)))(h := put_item (be_bytes 8 (of_nat ?i :: u64), le_wire e) (wired b es))"
    using rl_append_at [OF assms(1) h(4) assms(5), of big junk] unfolding i by blast
  let ?t = "s \<lparr> rl_w := (rl_w s) \<lparr> rw_db := t \<rparr> \<rparr>"
  have lt: "?n < ?i" "?i < 2 ^ 64" "b + length es < 2 ^ 64" using assms(2,3,6) by (cases es; simp)+
  have ne: "(of_nat ?n :: u64) \<noteq> of_nat ?i"
    using unat_u64 [of ?n] unat_u64 [OF lt(2)] lt by (metis less_irrefl)
  let ?x = "(be_bytes 8 (of_nat ?i :: u64), le_wire e)"
  have "filter (\<lambda>y. be_bytes 8 (of_nat ?n :: u64) \<le> fst y) (put_item ?x (wired b es)) = [?x]"
  proof -
    have "filter (\<lambda>y. be_bytes 8 (of_nat ?n :: u64) \<le> fst y \<and> fst y < fst ?x) (wired b es) = []"
      "filter (\<lambda>y. be_bytes 8 (of_nat ?n :: u64) \<le> fst y \<and> fst ?x < fst y) (wired b es) = []"
      using wired_filter [OF lt(3), of "\<lambda>k. be_bytes 8 (of_nat ?n :: u64) \<le> k \<and> k < fst ?x" False]
        wired_filter [OF lt(3), of "\<lambda>k. be_bytes 8 (of_nat ?n :: u64) \<le> k \<and> fst ?x < k" False]
        u64_order(2) [of ?n] lt(3) by auto
    moreover have "be_bytes 8 (of_nat ?n :: u64) \<le> fst ?x" using u64_order(2) [of ?n ?i] lt by simp
    ultimately show ?thesis by (simp add: put_item_def conj_commute del: of_nat_add)
  qed
  then have "raft_get E big (rl_w ?t) (of_nat ?n) VNone = Inr (0, VString (le_wire e))"
    using raft_get_eq [OF h(1,2), of "rl_w ?t" h big "of_nat ?n" VNone] h(3,4) t(2)
      set_string_ok [OF entry_ok_wire [OF assms(5)]] by (simp del: of_nat_add)
  moreover have "rl_next_slot E big s = Inr (of_nat ?n, s \<lparr> rl_local := of_nat (?n - 1) \<rparr>)"
    using rl_local_last_eq [OF assms(1), of big] assms(2,3) by (simp add: rl_next_slot_def of_nat_diff)
  ultimately show ?thesis using t(1) ne by blast
qed

subsection \<open>An example log\<close>

definition demo_entry :: "u64 \<Rightarrow> log_entry" where
  "demo_entry t = \<lparr> le_term = t, le_buf = \<lparr> nb_bytes = [7], nb_pos = 0 \<rparr>, le_type = app_log \<rparr>"

lemma demo_entry: "entry_ok (demo_entry t)" "le_term (demo_entry t) = t"
proof -
  have "(1 :: i32) AND 0xff = 1" by code_simp
  then show "entry_ok (demo_entry t)" "le_term (demo_entry t) = t"
    by (simp_all add: demo_entry_def entry_ok_def nb_size_def app_log_def)
qed

definition demo_log :: "nat \<Rightarrow> log_entry list \<Rightarrow> mem_db rocks_log" where
  "demo_log b es = \<lparr> rl_w = demo_store (map (\<lambda>x. (fst x, le_wire (snd x))) (indexed b es)),
                     rl_start = of_nat b, rl_local = 0 \<rparr>"

lemma demo_holds:
  assumes "0 < b" "b + length es < 2 ^ 64" "\<forall>e \<in> set es. entry_ok e"
  shows "rl_holds mem_engine mem_items id (\<lambda>s h. h < length s) (rl_w (demo_log b es)) b es"
proof -
  let ?xs = "map (\<lambda>x. (fst x, le_wire (snd x))) (indexed b es)"
  have "sorted_wrt (<) (map fst ?xs)"
    using indexed_ordered [OF assms(2)] by (simp add: ordered_items_def sorted_wrt_map comp_def)
  then have "mem_items (rw_db (demo_store ?xs)) 0 = wired b es"
    by (simp add: demo_items wired_def comp_def)
  moreover have "get_raft_log_handle (demo_store ?xs) = Some 0" "rw_open (demo_store ?xs)"
    "0 < length (rw_db (demo_store ?xs))"
    by (simp_all add: demo_store_def get_raft_log_handle_def get_handle_def wrapper_new_def)
  ultimately show ?thesis
    using assms mem_ok mem_engine_succeeds by (simp add: rl_holds_def demo_log_def)
qed


theorem rl_append_gap_witness:
  "\<exists>t u. rl_next_slot mem_engine True (demo_log 3 [demo_entry 1]) = Inr (4, u) \<and>
     rl_append mem_engine True (\<lambda>_. 0) (demo_log 3 [demo_entry 1]) (demo_entry 2) = Inr (6, t) \<and>
     raft_get mem_engine True (rl_w t) 4 VNone = Inr (0, VString (le_wire (demo_entry 2)))"
  using rl_append_gap [OF demo_holds [of 3 "[demo_entry 1]"], OF _ _ _ _ _ _ demo_entry(1) [of 2],
      of True "\<lambda>_. 0"] demo_entry(1)
  by (auto simp: demo_log_def)

section \<open>Truncating\<close>

text \<open>What \<open>write_at\<close> leaves when two or more entries are behind its index: the last of them stays.\<close>

lemma filter_wired_le:
  assumes "b + length es < 2 ^ 64" "j < 2 ^ 64"
  shows "filter (\<lambda>y. be_bytes 8 (of_nat j :: u64) \<le> fst y) (wired b es) =
    wired (max b j) (drop (j - b) es)"
proof (cases "j \<le> b + length es")
  case True
  have "\<And>n. b \<le> n \<Longrightarrow> n < b + length es \<Longrightarrow> j \<le> b \<Longrightarrow> be_bytes 8 (of_nat j :: u64) \<le> be_bytes 8 (of_nat n :: u64)"
    using u64_order(2) assms by simp
  then show ?thesis
    using wired_from [OF assms(1), of "j - b"] True wired_filter [OF assms(1), of "\<lambda>k. be_bytes 8 (of_nat j :: u64) \<le> k" True]
    by (cases "j \<le> b") (simp_all add: max_def)
next
  case False
  then show ?thesis
    using wired_filter [OF assms(1), of "\<lambda>k. be_bytes 8 (of_nat j :: u64) \<le> k" False] u64_order(2) assms
    by simp
qed

lemma rl_write_at_items:
  assumes "rl_holds E items cview live (rl_w s) b es" "get_raft_log_handle (rl_w s) = Some h" "entry_ok e"
    and "k \<le> length es"
  defines "i \<equiv> of_nat (b + k) :: u64"
  shows "\<exists>t. rl_write_at E big junk s i e = Inr t \<and> rl_start t = rl_start s \<and> rw_open (rl_w t) \<and>
    get_raft_log_handle (rl_w t) = Some h \<and> live (rw_db (rl_w t)) h \<and>
    items (rw_db (rl_w t)) = (items (rw_db (rl_w s)))(h := put_item (be_bytes 8 i, le_wire e)
      (if k + 1 < length es then delete_items (be_bytes 8 i) (be_bytes 8 (of_nat (b + length es - 1) :: u64)) (wired b es)
       else wired b es))"
proof -
  let ?w = "rl_w s" and ?l = "of_nat (b + length es - 1) :: u64"
  have h: "writes_ok E items" "writes_succeed E live" "rw_open ?w" "live (rw_db ?w) h"
      "items (rw_db ?w) h = wired b es" "b + length es < 2 ^ 64" "0 < b"
    using assms(1,2) by (auto simp: rl_holds_def)
  obtain c c' where c: "make_clone junk e = Inr c" "le_serialize junk c = Inr (\<lparr> nb_bytes = le_wire e, nb_pos = 0 \<rparr>, c')"
    using clone_serialize [OF assms(3)] by blast
  have del: "\<exists>w. raft_remove_range E big ?w i l = Inr (0, w) \<and> rw_open w \<and> get_raft_log_handle w = Some h \<and>
      live (rw_db w) h \<and> items (rw_db w) = (items (rw_db ?w))(h := delete_items (be_bytes 8 i) (be_bytes 8 l) (wired b es))" for l
  proof -
    obtain t where t: "e_delete_range E (rw_db ?w) (Some h) (be_bytes 8 i) (be_bytes 8 l) = (0, t)" "live t h"
      using writes_succeedD(2) [OF h(2,4)] by blast
    then show ?thesis
      using raft_remove_range_eq [OF h(3) assms(2) t(1), of big] writes_okD(4) [OF h(1) t(1)] h(5) by auto
  qed
  have less: "?l > i \<longleftrightarrow> k + 1 < length es" if "es \<noteq> []"
    using that h(6) assms(4) unat_u64 [of "b + length es - 1"] unat_u64 [of "b + k"]
    by (cases es) (auto simp: i_def word_less_nat_alt simp del: of_nat_add)
  have noop: "delete_items x y [] = []" for x y :: bytes by (simp add: delete_items_def)
  obtain w rc v lst where w: "get_last E big ?w 0xffffffff VNone = Inr (rc, lst, v)"
      "(if lst > i then rbind (raft_remove_range E big ?w i lst) (\<lambda>(rc, w). Inr w) else Inr ?w) = Inr w"
      "rw_open w" "get_raft_log_handle w = Some h" "live (rw_db w) h"
      "items (rw_db w) = (items (rw_db ?w))(h := (if k + 1 < length es
         then delete_items (be_bytes 8 i) (be_bytes 8 ?l) (wired b es) else wired b es))"
  proof (cases "es = []")
    case True
    show ?thesis
    proof (cases "0xffffffff > i")
      case True
      then show ?thesis using that [of _ "0xffffffff"] del [of "0xffffffff"] rl_last [OF assms(1), of big "0xffffffff" VNone] \<open>es = []\<close>
        by (auto simp: noop)
    next
      case False
      then show ?thesis
        using that [of _ "0xffffffff", of _ _ ?w] rl_last [OF assms(1), of big "0xffffffff" VNone] \<open>es = []\<close> h assms(2) by (simp add: fun_upd_idem)
    qed
  next
    case False
    note ends = rl_last [OF assms(1), of big "0xffffffff" VNone]
    show ?thesis
    proof (cases "k + 1 < length es")
      case True
      then show ?thesis
        using that [of 0 ?l "VString (le_wire (last es))"] ends False less [OF False] del [of ?l] by auto
    next
      case nk: False
      then show ?thesis
        using that [of 0 ?l "VString (le_wire (last es))" ?w] ends False less [OF False] h assms(2)
        by (simp add: fun_upd_idem)
    qed
  qed
  obtain t where t: "e_put E (rw_db w) (Some h) (be_bytes 8 i) (take (length (le_wire e)) (le_wire e)) = (0, t)" "live t h"
    using writes_succeedD(1) [OF h(2) w(5)] by blast
  have "raft_put_bytes E big w i (le_wire e) (length (le_wire e)) = Inr (0, w \<lparr> rw_db := t \<rparr>)"
    by (rule raft_put_bytes_eq [OF w(3,4) order_refl t(1)])
  moreover have "items t = (items (rw_db w))(h := put_item (be_bytes 8 i, le_wire e) (items (rw_db w) h))"
    using writes_okD(2) [OF h(1) t(1)] by simp
  ultimately show ?thesis
    using c w t(2) by (simp add: rl_write_at_def nb_size_def del: le_wire_length)
qed


lemma wired_truncated:
  assumes "b + length es < 2 ^ 64" "k + 1 < length es"
  defines "i \<equiv> of_nat (b + k) :: u64" and "l \<equiv> of_nat (b + length es - 1) :: u64"
  shows "put_item (be_bytes 8 i, le_wire e) (delete_items (be_bytes 8 i) (be_bytes 8 l) (wired b es)) =
    wired b (take k es @ [e]) @ [(be_bytes 8 l, le_wire (last es))]"
proof -
  define m where "m = drop k (butlast es)"
  have ne: "es \<noteq> []" using assms(2) by auto
  have "take k es @ m = butlast es"
    using append_take_drop_id [of k "butlast es"] assms(2) by (simp add: m_def take_butlast)
  then have es: "es = take k es @ m @ [last es]" "length m = length es - k - 1"
    using append_butlast_last_id [OF ne] by (metis append_assoc) (simp add: m_def)
  have parts: "wired b es = wired b (take k es) @ wired (b + k) m @ [(be_bytes 8 l, le_wire (last es))]"
    using arg_cong [OF es(1), of "wired b"] es(2) assms(2) by (simp add: l_def min_def)
  have low: "filter (\<lambda>y. P (fst y)) (wired b (take k es)) = wired b (take k es)"
    if "\<And>n. n < b + k \<Longrightarrow> P (be_bytes 8 (of_nat n :: u64))" for P
    using wired_filter [of b "take k es" P True] that assms(1,2) by simp
  have mid: "filter (\<lambda>y. P (fst y)) (wired (b + k) m) = []"
    if "\<And>n. b + k \<le> n \<Longrightarrow> n < b + length es - 1 \<Longrightarrow> \<not> P (be_bytes 8 (of_nat n :: u64))" for P
    using wired_filter [of "b + k" m P False] that es(2) assms(1,2) by simp
  have il: "be_bytes 8 i < be_bytes 8 l"
    unfolding i_def l_def by (subst u64_order(1)) (use assms(1,2) in simp_all)
  have ord: "be_bytes 8 (of_nat n :: u64) < be_bytes 8 i \<longleftrightarrow> n < b + k"
    "be_bytes 8 (of_nat n :: u64) < be_bytes 8 l \<longleftrightarrow> n < b + length es - 1" if "n < b + length es" for n
    unfolding i_def l_def by (subst u64_order(1); use that assms(1,2) in simp)+
  let ?P = "\<lambda>x. \<not> (be_bytes 8 i \<le> x \<and> x < be_bytes 8 l)"
  have "?P (be_bytes 8 (of_nat n :: u64))" if "n < b + k" for n
    using ord(1) [of n] that assms(2) by (simp add: not_le)
  then have 1: "filter (\<lambda>y. ?P (fst y)) (wired b (take k es)) = wired b (take k es)"
    using low [of ?P] by blast
  have "\<not> ?P (be_bytes 8 (of_nat n :: u64))" if "b + k \<le> n" "n < b + length es - 1" for n
    using ord [of n] that assms(2) by (simp add: not_less)
  then have 2: "filter (\<lambda>y. ?P (fst y)) (wired (b + k) m) = []"
    using mid [of ?P] by blast
  have "delete_items (be_bytes 8 i) (be_bytes 8 l) (wired b es) =
      wired b (take k es) @ [(be_bytes 8 l, le_wire (last es))]"
    using 1 2 il by (simp add: delete_items_def parts)
  moreover have "filter (\<lambda>y. fst y < be_bytes 8 i) (wired b (take k es)) = wired b (take k es)"
    using low [of "\<lambda>x. x < be_bytes 8 i"] ord(1) assms(2) by simp
  moreover have "filter (\<lambda>y. be_bytes 8 i < fst y) (wired b (take k es)) = []"
  proof -
    have "\<not> be_bytes 8 i < be_bytes 8 (of_nat n :: u64)" if "n < b + k" for n
      using ord(1) [of n] that assms(2) by (simp add: less_imp_le not_less)
    then show ?thesis
      using wired_filter [of b "take k es" "\<lambda>x. be_bytes 8 i < x" False] assms(1,2) by simp
  qed
  ultimately show ?thesis using il assms(2) by (simp add: put_item_def i_def min_def less_not_sym)
qed

lemma wired_put:
  assumes "b + length es < 2 ^ 64" "k \<le> length es" "length es \<le> k + 1"
  shows "put_item (be_bytes 8 (of_nat (b + k) :: u64), le_wire e) (wired b es) = wired b (take k es @ [e])"
proof (cases "k = length es")
  case True
  then show ?thesis using wired_put_end [OF assms(1), of e] by simp
next
  case False
  then have k: "length es = k + 1" using assms(2,3) by simp
  then have es: "es = take k es @ [last es]" "length (take k es) = k"
    using append_butlast_last_id [of es, symmetric] by (cases es; simp add: butlast_conv_take)+
  have parts: "wired b es = wired b (take k es) @ [(be_bytes 8 (of_nat (b + k) :: u64), le_wire (last es))]"
    using arg_cong [OF es(1), of "wired b"] unfolding wired_simps es(2) .
  have "put_item (be_bytes 8 (of_nat (b + k) :: u64), le_wire e) (wired b (take k es)) = wired b (take k es @ [e])"
    using wired_put_end [of b "take k es" e] assms(1) k by simp
  then show ?thesis unfolding parts by (simp add: put_item_def)
qed



section \<open>Compaction\<close>

lemma rl_compact_holds:
  assumes "rl_holds E items cview live (rl_w s) b es" "rl_start s = of_nat b" "k < length es"
  shows "\<exists>w. rl_compact E big s (of_nat (b + k)) = Inr (True, s \<lparr> rl_w := w, rl_start := of_nat (b + k + 1) \<rparr>) \<and>
    rl_holds E items cview live w (b + k) (drop k es)"
proof -
  let ?w = "rl_w s" and ?k = "of_nat (b + k) :: u64"
  obtain h where h: "writes_ok E items" "writes_succeed E live" "rw_open ?w" "get_raft_log_handle ?w = Some h"
      "live (rw_db ?w) h" "items (rw_db ?w) h = wired b es" "b + length es < 2 ^ 64"
    using assms(1) by (rule rl_holdsE)
  obtain t where t: "e_delete_range E (rw_db ?w) (Some h) (be_bytes 8 (of_nat b :: u64)) (be_bytes 8 ?k) = (0, t)" "live t h"
    using writes_succeedD(2) [OF h(2,5)] by blast
  obtain w where w: "raft_remove_range E big ?w (of_nat b) ?k = Inr (0, w)" "rw_db w = t" "rw_open w"
      "get_raft_log_handle w = Some h"
    using raft_remove_range_eq [OF h(3,4) t(1)] by blast
  have sel: "\<not> (be_bytes 8 (of_nat b :: u64) \<le> fst y \<and> fst y < be_bytes 8 ?k) \<longleftrightarrow> be_bytes 8 ?k \<le> fst y"
    if y: "y \<in> set (wired b es)" for y
  proof -
    obtain n where n: "b \<le> n" "n < b + length es" "fst y = be_bytes 8 (of_nat n :: u64)" using wired_key [OF y] by blast
    then show ?thesis
      using u64_order(2) [of b n] h(7) by (auto simp: not_less)
  qed
  have "delete_items (be_bytes 8 (of_nat b :: u64)) (be_bytes 8 ?k) (wired b es) = wired (b + k) (drop k es)"
    unfolding delete_items_def wired_from [OF h(7) less_imp_le [OF assms(3)], symmetric]
    by (rule filter_cong [OF refl sel])
  then have "items t h = wired (b + k) (drop k es)"
    using writes_okD(4) [OF h(1) t(1)] h(6) by simp
  then have "rl_holds E items cview live w (b + k) (drop k es)"
    using assms(1,3) w t(2) by (auto simp: rl_holds_def dest: in_set_dropD)
  moreover have "(of_nat b :: u64) \<le> ?k" using h(7) assms(3) by (simp add: word_le_nat_alt unat_u64 del: of_nat_add)
  ultimately show ?thesis
    using w(1) assms(2) by (intro exI [of _ w]) (simp add: rl_compact_def add.commute)
qed

lemma rl_new_holds:
  assumes "rl_holds E items cview live w b es" "es \<noteq> []"
  shows "rl_new E big w = Inr \<lparr> rl_w = w, rl_start = of_nat b, rl_local = of_nat (b + length es - 1) \<rparr>"
proof -
  obtain h where h: "cursors_ok E items cview" "no_read_errors E" "rw_open w" "get_raft_log_handle w = Some h"
      "items (rw_db w) h = wired b es" "raft_items_ok (wired b es)" "0 < b" "b + length es < 2 ^ 64"
    using assms(1) by (rule rl_holdsE)
  have "(of_nat b :: u64) \<noteq> 0" using h(7,8) unat_u64 [of b] by (metis add_lessD1 less_irrefl unat_0)
  moreover have "get_first E big w 1 VNone = Inr (0, of_nat b, VString (le_wire (hd es)))"
    using get_ends_eq(1) [OF h(1-4), of big 1 VNone] h(5,6) assms(2) by (cases es) simp_all
  ultimately show ?thesis using rl_last [OF assms(1), of big 0 VNone] assms(2) by (simp add: rl_new_def)
qed

text \<open>
  Compacting up to an index keeps the entries behind it and moves the start index behind it, but
  the entry at the index itself stays on disk: a store opened on the database again starts there.
\<close>

theorem rl_compact_keeps_last:
  assumes "rl_holds E items cview live (rl_w s) b es" "rl_start s = of_nat b" "k < length es"
  shows "\<exists>t u. rl_compact E big s (of_nat (b + k)) = Inr (True, t) \<and>
    rl_start_index t = of_nat (b + k + 1) \<and>
    rl_next_slot E big t = Inr (of_nat (b + length es), u) \<and>
    rl_ents items t = map entry_view (drop k es) \<and>
    rl_new E big (rl_w t) = Inr \<lparr> rl_w = rl_w t, rl_start = of_nat (b + k), rl_local = of_nat (b + length es - 1) \<rparr>"
proof -
  obtain w where w: "rl_compact E big s (of_nat (b + k)) = Inr (True, s \<lparr> rl_w := w, rl_start := of_nat (b + k + 1) \<rparr>)"
      "rl_holds E items cview live w (b + k) (drop k es)"
    using rl_compact_holds [OF assms] by blast
  let ?t = "s \<lparr> rl_w := w, rl_start := of_nat (b + k + 1) \<rparr>"
  have t: "rl_holds E items cview live (rl_w ?t) (b + k) (drop k es)" "drop k es \<noteq> []" using w(2) assms(3) by simp_all
  have "0 < b" using assms(1) by (simp add: rl_holds_def)
  then have "rl_next_slot E big ?t = Inr (of_nat (b + length es), ?t \<lparr> rl_local := of_nat (b + length es - 1) \<rparr>)"
    using rl_local_last_eq [OF t(1), of big] t(2) assms(3) by (simp add: rl_next_slot_def of_nat_diff)
  moreover have "b + k + length (drop k es) - 1 = b + length es - 1" using assms(3) by simp
  ultimately show ?thesis
    using w(1) rl_ents_holds [OF t(1)] rl_new_holds [OF t(1,2), of big]
    by (intro exI [of _ ?t] exI [of _ "?t \<lparr> rl_local := of_nat (b + length es - 1) \<rparr>"])
      (simp add: rl_start_index_def del: of_nat_add of_nat_diff)
qed

theorem rl_compact_keeps_last_witness:
  "\<exists>t. rl_compact mem_engine True (demo_log 1 [demo_entry 1, demo_entry 2]) 1 = Inr (True, t) \<and>
     rl_start_index t = 2 \<and> rl_new mem_engine True (rl_w t) = Inr \<lparr> rl_w = rl_w t, rl_start = 1, rl_local = 2 \<rparr>"
  using rl_compact_keeps_last [OF demo_holds [of 1 "[demo_entry 1, demo_entry 2]"], of 0 True] demo_entry(1)
  by (auto simp: demo_log_def)

section \<open>Packs\<close>

lemma nb_write_short: "nbuf_ok b \<Longrightarrow> nb_room b < length bs \<Longrightarrow> nb_write b bs = Inl OverflowError"
  by (simp add: nb_write_def nb_room_def)

lemma rl_put_all_short:
  assumes "nbuf_ok out" "nb_room out < sum_list (map (\<lambda>v. 8 + length v) vs)"
  shows "rl_put_all big out (map VString vs) = Inl OverflowError"
  using assms
proof (induction vs arbitrary: out)
  case (Cons v vs)
  let ?n = "le_bytes 4 (of_nat (length v) :: i32)" and ?m = "le_bytes 4 (of_nat (length v) :: u64)"
  have len: "length ?n = 4" "length ?m = 4" by simp_all
  consider "nb_room out < 4" | "4 \<le> nb_room out" "nb_room out < 8" |
      "8 \<le> nb_room out" "nb_room out < 8 + length v" | "8 + length v \<le> nb_room out" by linarith
  then show ?case
  proof cases
    case 1
    then show ?thesis using nb_write_short [OF Cons.prems(1), of ?n] len by (simp add: nb_put_int_def)
  next
    case 2
    obtain o1 where o1: "nb_write out ?n = Inr o1" "nbuf_ok o1" "nb_room o1 = nb_room out - 4"
      using nb_write_step [OF Cons.prems(1), of ?n] 2 len by auto
    then show ?thesis
      using nb_write_short [OF o1(2), of ?m] 2 len by (simp add: nb_put_int_def nb_put_bytes_def)
  next
    case 3
    obtain o1 where o1: "nb_write out ?n = Inr o1" "nbuf_ok o1" "nb_room o1 = nb_room out - 4"
      using nb_write_step [OF Cons.prems(1), of ?n] 3 len by auto
    obtain o2 where o2: "nb_write o1 ?m = Inr o2" "nbuf_ok o2" "nb_room o2 = nb_room out - 8"
      using nb_write_step [OF o1(2), of ?m] o1(3) 3 len by (auto simp: le_diff_conv2)
    have "nb_avail o2 < length v" using o2(2,3) 3 unfolding nb_room_def by simp
    then show ?thesis using o1(1) o2(1) by (simp add: nb_put_int_def nb_put_bytes_def nb_put_raw_def)
  next
    case 4
    obtain o1 where o1: "nb_write out ?n = Inr o1" "nbuf_ok o1" "nb_room o1 = nb_room out - 4"
      using nb_write_step [OF Cons.prems(1), of ?n] 4 len by auto
    obtain o2 where o2: "nb_write o1 ?m = Inr o2" "nbuf_ok o2" "nb_room o2 = nb_room out - 8"
      using nb_write_step [OF o1(2), of ?m] o1(3) 4 len by (auto simp: le_diff_conv2)
    obtain o3 where o3: "nb_put_raw o2 v (length v) = Inr o3" "nbuf_ok o3" "nb_room o3 = nb_room out - 8 - length v"
      using nb_put_raw_step [OF o2(2), of "length v" v] o2(3) le_diff_conv2 [of 8 "nb_room out" "length v"] 4 by (auto simp: add.commute)
    have "rl_put_all big o3 (map VString vs) = Inl OverflowError"
      using Cons.IH [OF o3(2)] o3(3) Cons.prems(2) 4 by simp
    then show ?thesis using o1(1) o2(1) o3(1) by (simp add: nb_put_int_def nb_put_bytes_def)
  qed
qed simp

lemma rl_pack_scan:
  "scan_list rl_pack_collect es (vs, n) =
     Inr (vs @ map (VString \<circ> snd) es, n + of_nat (sum_list (map (length \<circ> snd) es)))"
  by (induction es arbitrary: vs n) (auto simp: rl_pack_collect_def add.assoc)

lemma rl_scan_window:
  assumes "rl_holds E items cview live w b es" "j + n \<le> length es" "0 < n" "n < 2 ^ 31" "length es < fuel"
  shows "scan_range E big fuel w (of_nat (b + j)) (of_nat (b + j) + scast (of_nat n :: i32)) fn a =
    rbind (scan_list fn (entries (wired (b + j) (take (n + 1) (drop j es)))) a) (\<lambda>a. Inr (0, a))"
proof -
  obtain h where h: "cursors_ok E items cview" "no_read_errors E" "rw_open w" "get_raft_log_handle w = Some h"
      "items (rw_db w) h = wired b es" "raft_items_ok (wired b es)" "b + length es < 2 ^ 64"
    using assms(1) by (rule rl_holdsE)
  have e: "of_nat (b + j) + scast (of_nat n :: i32) = (of_nat (b + j + n) :: u64)" using of_nat_i32(3) [OF assms(4)] by simp
  show ?thesis
    using scan_range_eq [OF h(1-4), of fuel big "of_nat (b + j)" "of_nat (b + j + n)" fn a] h(5,6) assms(5)
      wired_range [OF h(7) assms(2,3)] unfolding e by (simp del: of_nat_add)
qed

text \<open>
  \<open>pack\<close> never packs: it reads one entry more than it was asked for and writes the length of
  each twice, into a buffer with room for one length per entry, so for every range of one entry or more
  inside the log it throws \<open>std::overflow_error\<close>.
\<close>

theorem rl_pack_throws:
  assumes "rl_holds E items cview live (rl_w s) b es" "j + n \<le> length es" "0 < n" "length es < fuel"
    and "4 + 4 * n + sum_list (map (length \<circ> le_wire) (take (n + 1) (drop j es))) < 0x80000000"
  shows "rl_pack E big junk fuel s (of_nat (b + j)) (of_nat n) = Inl OverflowError"
proof -
  let ?es = "take (n + 1) (drop j es)" and ?cnt = "of_nat n :: i32"
  let ?vs = "map le_wire ?es" and ?sum = "sum_list (map (length \<circ> le_wire) ?es)"
  let ?size = "4 + 4 * n + ?sum"
  have n: "n < 2 ^ 31" using assms(5) by simp
  have v: "map (VString \<circ> snd) (entries (wired i xs)) = map VString (map le_wire xs)"
    "map (length \<circ> snd) (entries (wired i xs)) = map (length \<circ> le_wire) xs" for i and xs :: "log_entry list"
    using indexed_simps(2) [of i xs] unfolding wired_entries
    by (simp_all add: comp_def flip: map_map [of _ snd, unfolded comp_def])
  have scan: "scan_range E big fuel (rl_w s) (of_nat (b + j)) (of_nat (b + j) + scast ?cnt) rl_pack_collect ([], 0) =
      Inr (0, map VString ?vs, of_nat ?sum)"
    using rl_scan_window [OF assms(1-3) n assms(4), of big rl_pack_collect "([], 0)"]
    by (simp add: rl_pack_scan v del: of_nat_add)
  have size: "unat (4 + scast ?cnt * 4 + of_nat ?sum :: u64) = ?size"
  proof -
    have "4 + scast ?cnt * 4 + of_nat ?sum = (of_nat ?size :: u64)" using of_nat_i32(3) [OF n] by (simp add: mult.commute)
    then show ?thesis using unat_u64 [of ?size] assms(5) by (simp del: of_nat_add)
  qed
  obtain o0 where o0: "nb_alloc junk ?size = Inr o0" "nbuf_ok o0" "nb_room o0 = ?size" "nb_set_pos o0 0 = o0"
    using nb_alloc_step [OF assms(5), of junk] nb_alloc_ok by (auto simp: nb_set_pos_0)
  obtain o1 where o1: "nb_put_int o0 ?cnt = Inr o1" "nbuf_ok o1" "nb_room o1 = 4 * n + ?sum"
    using nb_write_step [OF o0(2), of "le_bytes 4 ?cnt"] o0(3) by (auto simp: nb_put_int_def)
  have "n \<le> length ?es" using assms(2) by simp
  then have "nb_room o1 < sum_list (map (\<lambda>v. 8 + length v) ?vs)"
    using o1(3) assms(3) by (simp add: sum_list_addf comp_def sum_list_triv min_def)
  then have "rl_put_all big o1 (map VString ?vs) = Inl OverflowError"
    by (rule rl_put_all_short [OF o1(2)])
  then show ?thesis using scan size o0(1,4) o1(1) by (simp add: rl_pack_def del: of_nat_add map_map)
qed

theorem rl_pack_throws_witness:
  "rl_pack mem_engine True (\<lambda>_. 0) 4 (demo_log 1 [demo_entry 1, demo_entry 2]) 1 1 = Inl OverflowError"
  using rl_pack_throws [OF demo_holds [of 1 "[demo_entry 1, demo_entry 2]"], of 0 1 4 True "\<lambda>_. 0"] demo_entry(1)
  by (simp add: demo_entry_def nb_size_def)

text \<open>
  Reading at or behind the next slot is not the dummy entry with term 0 that the code prepares
  for it: the raft log store reports success without a value, and taking an entry from no bytes throws
  \<open>std::overflow_error\<close>.
\<close>

theorem rl_read_behind:
  assumes "rl_holds E items cview live (rl_w s) b es" "of_nat (b + length es) \<le> i"
  shows "rl_entry_at E big junk s i = Inl OverflowError \<and> rl_term_at E big junk s i = Inl OverflowError"
proof -
  obtain h where h: "cursors_ok E items cview" "no_read_errors E" "rw_open (rl_w s)" "get_raft_log_handle (rl_w s) = Some h"
      "items (rw_db (rl_w s)) h = wired b es" "b + length es < 2 ^ 64"
    using assms(1) by (rule rl_holdsE)
  have "filter (\<lambda>y. be_bytes 8 i \<le> fst y) (wired b es) = []"
  proof -
    have "b + length es \<le> unat i" using assms(2) h(6) by (simp add: word_le_nat_alt unat_u64 del: of_nat_add)
    then show ?thesis
      using filter_wired_le [OF h(6), of "unat i"] unsigned_less [of i, where ?'a = nat] by simp
  qed
  then have "raft_get E big (rl_w s) i VNone = Inr (0, VNone)"
    using raft_get_eq [OF h(1-4), of big i VNone] h(5) by simp
  moreover have "rl_entry_of big junk 0 VNone = Inl OverflowError"
    by (simp add: rl_entry_of_def value_slice_def read_block_def nb_alloc_def nb_put_raw_def nb_write_def
        write_block_def nb_set_pos_def le_deserialize_def nb_get_ulong_def nb_take_def nb_avail_def nb_size_def
        nb_move_def)
  ultimately show ?thesis by (simp add: rl_entry_at_def rl_term_at_def)
qed

theorem rl_read_behind_witness:
  "rl_term_at mem_engine True (\<lambda>_. 0) (demo_log 1 [demo_entry 1]) 2 = Inl OverflowError"
  using rl_read_behind [OF demo_holds [of 1 "[demo_entry 1]"], of 2 True "\<lambda>_. 0"] demo_entry(1) by simp

end
