(* ===== verification/Nuraft_Config.thy ===== *)
theory Nuraft_Config
  imports Nuraft_Buffer
begin

text \<open>
  What the consensus library stores of a cluster: \<open>srv_config\<close>, \<open>cluster_config\<close>, \<open>snapshot\<close> and
  \<open>srv_state\<close> of \<open>NuRaft/include/libnuraft\<close>, with their serialized forms. Objects that the library
  shares by pointer are values here: nothing of the program changes one that another part holds.
\<close>

section \<open>srv\_config\<close>

text \<open>Strings are their bytes.\<close>

record srv_config =
  sc_id :: i32
  sc_dc_id :: i32
  sc_endpoint :: bytes
  sc_aux :: bytes
  sc_learner :: bool
  sc_priority :: i32

definition srv_config_new :: "i32 \<Rightarrow> bytes \<Rightarrow> srv_config" where
  "srv_config_new srv_id endpoint =
     \<lparr> sc_id = srv_id, sc_dc_id = 0, sc_endpoint = endpoint, sc_aux = [], sc_learner = False, sc_priority = 1 \<rparr>"

definition sc_serialize :: "(nat \<Rightarrow> u8) \<Rightarrow> srv_config \<Rightarrow> nbuf res" where
  "sc_serialize junk c =
     rbind (nb_alloc junk (4 + 4 + (length (sc_endpoint c) + 1) + (length (sc_aux c) + 1) + 1 + 4)) (\<lambda>b.
     rbind (nb_put_int b (sc_id c)) (\<lambda>b.
     rbind (nb_put_int b (sc_dc_id c)) (\<lambda>b.
     rbind (nb_put_string b (sc_endpoint c)) (\<lambda>b.
     rbind (nb_put_string b (sc_aux c)) (\<lambda>b.
     rbind (nb_put_byte b (if sc_learner c then 1 else 0)) (\<lambda>b.
     rbind (nb_put_int b (sc_priority c)) (\<lambda>b. Inr (nb_set_pos b 0))))))))"

definition sc_deserialize :: "nser \<Rightarrow> (srv_config \<times> nser) res" where
  "sc_deserialize s =
     rbind (ns_get_i32 s) (\<lambda>(id, s).
     rbind (ns_get_i32 s) (\<lambda>(dc_id, s).
     rbind (ns_get_cstr s) (\<lambda>(endpoint, s).
     rbind (ns_get_cstr s) (\<lambda>(aux, s).
     rbind (ns_get_u8 s) (\<lambda>(is_learner, s).
     rbind (ns_get_i32 s) (\<lambda>(priority, s).
       Inr (\<lparr> sc_id = id, sc_dc_id = dc_id, sc_endpoint = endpoint, sc_aux = aux,
              sc_learner = (is_learner \<noteq> 0), sc_priority = priority \<rparr>, s)))))))"

section \<open>cluster\_config\<close>

record cluster_config =
  cc_log_idx :: u64
  cc_prev_log_idx :: u64
  cc_async :: bool
  cc_user_ctx :: bytes
  cc_servers :: "srv_config list"

definition cluster_config_new :: "u64 \<Rightarrow> u64 \<Rightarrow> bool \<Rightarrow> cluster_config" where
  "cluster_config_new log_idx prev_log_idx ec =
     \<lparr> cc_log_idx = log_idx, cc_prev_log_idx = prev_log_idx, cc_async = ec, cc_user_ctx = [], cc_servers = [] \<rparr>"

definition cc_set_log_idx :: "cluster_config \<Rightarrow> u64 \<Rightarrow> cluster_config" where
  "cc_set_log_idx c i = c \<lparr> cc_prev_log_idx := cc_log_idx c, cc_log_idx := i \<rparr>"

definition cc_get_server :: "cluster_config \<Rightarrow> i32 \<Rightarrow> srv_config option" where
  "cc_get_server c i = find (\<lambda>srv. sc_id srv = i) (cc_servers c)"

fun serialize_servers :: "(nat \<Rightarrow> u8) \<Rightarrow> srv_config list \<Rightarrow> nbuf list res" where
  "serialize_servers junk [] = Inr []"
| "serialize_servers junk (c # cs) =
     rbind (sc_serialize junk c) (\<lambda>b. rbind (serialize_servers junk cs) (\<lambda>bs. Inr (b # bs)))"

fun put_buffers :: "nbuf \<Rightarrow> nbuf list \<Rightarrow> nbuf res" where
  "put_buffers out [] = Inr out"
| "put_buffers out (b # bs) = rbind (nb_put_buffer out b) (\<lambda>out. put_buffers out bs)"

definition cc_serialize :: "(nat \<Rightarrow> u8) \<Rightarrow> cluster_config \<Rightarrow> nbuf res" where
  "cc_serialize junk c =
     rbind (serialize_servers junk (cc_servers c)) (\<lambda>bufs.
     rbind (nb_alloc junk (2 * 8 + 4 + 1 + sum_list (map nb_size bufs) + 4 + length (cc_user_ctx c))) (\<lambda>b.
     rbind (nb_put_ulong b (cc_log_idx c)) (\<lambda>b.
     rbind (nb_put_ulong b (cc_prev_log_idx c)) (\<lambda>b.
     rbind (nb_put_byte b (if cc_async c then 1 else 0)) (\<lambda>b.
     rbind (nb_put_bytes b (cc_user_ctx c) (length (cc_user_ctx c))) (\<lambda>b.
     rbind (nb_put_int b (of_nat (length (cc_servers c)))) (\<lambda>b.
     rbind (put_buffers b bufs) (\<lambda>b. Inr (nb_set_pos b 0)))))))))"

text \<open>
  The loop \<open>while (cnt -- > 0)\<close> runs cnt times. For the least value of cnt it does not run, and the
  decrement overflows.
\<close>

fun deserialize_servers :: "nat \<Rightarrow> nser \<Rightarrow> (srv_config list \<times> nser) res" where
  "deserialize_servers 0 s = Inr ([], s)"
| "deserialize_servers (Suc n) s =
     rbind (sc_deserialize s) (\<lambda>(c, s).
     rbind (deserialize_servers n s) (\<lambda>(cs, s). Inr (c # cs, s)))"

definition cc_deserialize :: "nser \<Rightarrow> (cluster_config \<times> nser) res" where
  "cc_deserialize s =
     rbind (ns_get_u64 s) (\<lambda>(log_idx, s).
     rbind (ns_get_u64 s) (\<lambda>(prev_log_idx, s).
     rbind (ns_get_u8 s) (\<lambda>(ec_byte, s).
     rbind (ns_get_bytes s) (\<lambda>(user_ctx, s).
     rbind (ns_get_i32 s) (\<lambda>(cnt, s).
       if sint cnt = - (2 ^ 31) then Inl SignedOverflow
       else rbind (deserialize_servers (nat (sint cnt)) s) (\<lambda>(servers, s).
            Inr ((cluster_config_new log_idx prev_log_idx (ec_byte \<noteq> 0))
                   \<lparr> cc_servers := servers, cc_user_ctx := user_ctx \<rparr>, s)))))))"

section \<open>snapshot\<close>

record snapshot =
  sn_last_log_idx :: u64
  sn_last_log_term :: u64
  sn_size :: u64
  sn_last_config :: cluster_config
  sn_type :: u8

definition logical_object :: u8 where "logical_object = 2"

definition sn_serialize :: "(nat \<Rightarrow> u8) \<Rightarrow> snapshot \<Rightarrow> nbuf res" where
  "sn_serialize junk s =
     rbind (cc_serialize junk (sn_last_config s)) (\<lambda>conf.
     rbind (nb_alloc junk (nb_size conf + 8 * 3 + 1)) (\<lambda>b.
     rbind (nb_put_byte b (sn_type s)) (\<lambda>b.
     rbind (nb_put_ulong b (sn_last_log_idx s)) (\<lambda>b.
     rbind (nb_put_ulong b (sn_last_log_term s)) (\<lambda>b.
     rbind (nb_put_ulong b (sn_size s)) (\<lambda>b.
     rbind (nb_put_buffer b conf) (\<lambda>b. Inr (nb_set_pos b 0))))))))"

definition sn_deserialize :: "nser \<Rightarrow> (snapshot \<times> nser) res" where
  "sn_deserialize s =
     rbind (ns_get_u8 s) (\<lambda>(type, s).
     rbind (ns_get_u64 s) (\<lambda>(idx, s).
     rbind (ns_get_u64 s) (\<lambda>(term, s).
     rbind (ns_get_u64 s) (\<lambda>(size, s).
     rbind (cc_deserialize s) (\<lambda>(conf, s).
       Inr (\<lparr> sn_last_log_idx = idx, sn_last_log_term = term, sn_size = size, sn_last_config = conf,
              sn_type = type \<rparr>, s))))))"

section \<open>srv\_state\<close>

text \<open>The callback that chooses a term is a parameter, \<open>None\<close> where none was set.\<close>

record srv_state =
  ss_term :: u64
  ss_voted_for :: i32
  ss_timer_allowed :: bool

definition srv_state_new :: srv_state where
  "srv_state_new = \<lparr> ss_term = 0, ss_voted_for = - 1, ss_timer_allowed = True \<rparr>"

definition ss_inc_term :: "(u64 \<Rightarrow> u64) option \<Rightarrow> srv_state \<Rightarrow> srv_state res" where
  "ss_inc_term cb s =
     (case cb of None \<Rightarrow> Inr (s \<lparr> ss_term := ss_term s + 1 \<rparr>)
      | Some f \<Rightarrow> if f (ss_term s) > ss_term s then Inr (s \<lparr> ss_term := f (ss_term s) \<rparr>)
                  else Inl AssertFailed)"

definition ss_serialize_v0 :: "(nat \<Rightarrow> u8) \<Rightarrow> srv_state \<Rightarrow> nbuf res" where
  "ss_serialize_v0 junk s =
     rbind (nb_alloc junk (8 + 4)) (\<lambda>b.
     rbind (nb_put_ulong b (ss_term s)) (\<lambda>b.
     rbind (nb_put_int b (ss_voted_for s)) (\<lambda>b. Inr (nb_set_pos b 0))))"

definition ss_serialize_v1p :: "(nat \<Rightarrow> u8) \<Rightarrow> srv_state \<Rightarrow> u64 \<Rightarrow> nbuf res" where
  "ss_serialize_v1p junk st version =
     rbind (nb_alloc junk (1 + 8 + 4 + 1)) (\<lambda>buf.
     let s = ns_new True buf in
     rbind (ns_put_u8 s (ucast version)) (\<lambda>s.
     rbind (ns_put_u64 s (ss_term st)) (\<lambda>s.
     rbind (ns_put_i32 s (ss_voted_for st)) (\<lambda>s.
     rbind (ns_put_u8 s (if ss_timer_allowed st then 1 else 0)) (\<lambda>s. Inr (ns_back buf s))))))"

definition ss_serialize :: "(nat \<Rightarrow> u8) \<Rightarrow> srv_state \<Rightarrow> nbuf res" where
  "ss_serialize junk s = ss_serialize_v1p junk s 1"

definition ss_deserialize_v0 :: "nbuf \<Rightarrow> srv_state res" where
  "ss_deserialize_v0 b =
     rbind (nb_get_ulong b) (\<lambda>(term, b).
     rbind (nb_get_int b) (\<lambda>(voted_for, b).
       Inr \<lparr> ss_term = term, ss_voted_for = voted_for, ss_timer_allowed = True \<rparr>))"

definition ss_deserialize_v1p :: "nbuf \<Rightarrow> srv_state res" where
  "ss_deserialize_v1p b =
     rbind (ns_get_u8 (ns_new True b)) (\<lambda>(ver, s).
     rbind (ns_get_u64 s) (\<lambda>(term, s).
     rbind (ns_get_i32 s) (\<lambda>(voted_for, s).
     rbind (ns_get_u8 s) (\<lambda>(allowed, s).
       Inr \<lparr> ss_term = term, ss_voted_for = voted_for, ss_timer_allowed = (allowed = 1) \<rparr>))))"

definition ss_deserialize :: "nbuf \<Rightarrow> srv_state res" where
  "ss_deserialize b = (if nb_size b > 8 + 4 then ss_deserialize_v1p b else ss_deserialize_v0 b)"

section \<open>What is written\<close>

definition sc_wire :: "srv_config \<Rightarrow> bytes" where
  "sc_wire c = le_bytes 4 (sc_id c) @ le_bytes 4 (sc_dc_id c) @ sc_endpoint c @ 0 # sc_aux c @ 0 #
     (if sc_learner c then 1 else 0) # le_bytes 4 (sc_priority c)"

definition cc_wire :: "cluster_config \<Rightarrow> bytes" where
  "cc_wire c = le_bytes 8 (cc_log_idx c) @ le_bytes 8 (cc_prev_log_idx c) @ (if cc_async c then 1 else 0) #
     le_bytes 4 (of_nat (length (cc_user_ctx c)) :: u32) @ cc_user_ctx c @
     le_bytes 4 (of_nat (length (cc_servers c)) :: i32) @ concat (map sc_wire (cc_servers c))"

definition sn_wire :: "snapshot \<Rightarrow> bytes" where
  "sn_wire s = sn_type s # le_bytes 8 (sn_last_log_idx s) @ le_bytes 8 (sn_last_log_term s) @
     le_bytes 8 (sn_size s) @ cc_wire (sn_last_config s)"

lemma sc_wire_length: "length (sc_wire c) = 15 + length (sc_endpoint c) + length (sc_aux c)"
  by (simp add: sc_wire_def)

lemma cc_wire_length: "length (cc_wire c) = 25 + length (cc_user_ctx c) + sum_list (map (length \<circ> sc_wire) (cc_servers c))"
  by (simp add: cc_wire_def length_concat comp_def)

lemma sc_serialize_eq:
  assumes "length (sc_wire c) < 0x80000000"
  shows "sc_serialize junk c = Inr \<lparr> nb_bytes = sc_wire c, nb_pos = 0 \<rparr>"
  using assms unfolding sc_wire_length
  by (simp add: sc_serialize_def nb_part_alloc nb_part_puts nb_part_done sc_wire_def del: upt_Suc)


text \<open>Strings that are written as C strings hold no zero character.\<close>

definition sc_ok :: "srv_config \<Rightarrow> bool" where
  "sc_ok c \<longleftrightarrow> 0 \<notin> set (sc_endpoint c) \<and> 0 \<notin> set (sc_aux c)"

definition cc_ok :: "cluster_config \<Rightarrow> bool" where
  "cc_ok c \<longleftrightarrow> (\<forall>srv \<in> set (cc_servers c). sc_ok srv) \<and> length (cc_wire c) < 0x7fffff00"

lemma sc_deserialize_eq:
  assumes "sc_ok c" "length d + length (sc_wire c) + length r + 8 < 2 ^ 64"
  shows "sc_deserialize (ns_part d (sc_wire c @ r)) = Inr (c, ns_part (d @ sc_wire c) r)"
  using assms unfolding sc_wire_length
  by (simp add: sc_deserialize_def sc_wire_def sc_ok_def ns_part_gets ns_part_cstr)

lemma serialize_servers_eq:
  assumes "\<forall>c \<in> set cs. length (sc_wire c) < 0x80000000"
  shows "serialize_servers junk cs = Inr (map (\<lambda>c. \<lparr> nb_bytes = sc_wire c, nb_pos = 0 \<rparr>) cs)"
  using assms by (induction cs) (simp_all add: sc_serialize_eq)

lemma put_buffers_eq:
  assumes "length d + length r < 0x80000000" "sum_list (map (length \<circ> f) cs) \<le> length r"
  shows "put_buffers (nb_part d r) (map (\<lambda>c. \<lparr> nb_bytes = f c, nb_pos = 0 \<rparr>) cs) =
    Inr (nb_part (d @ concat (map f cs)) (drop (sum_list (map (length \<circ> f) cs)) r))"
  using assms by (induction cs arbitrary: d r) (simp_all add: nb_part_puts add.commute)

lemma deserialize_servers_eq:
  assumes "\<forall>c \<in> set cs. sc_ok c" "length d + length (concat (map sc_wire cs)) + length r + 8 < 2 ^ 64"
  shows "deserialize_servers (length cs) (ns_part d (concat (map sc_wire cs) @ r)) =
    Inr (cs, ns_part (d @ concat (map sc_wire cs)) r)"
  using assms by (induction cs arbitrary: d) (simp_all add: sc_deserialize_eq)

lemma cc_serialize_eq:
  assumes "cc_ok c"
  shows "cc_serialize junk c = Inr \<lparr> nb_bytes = cc_wire c, nb_pos = 0 \<rparr>"
proof -
  let ?cs = "cc_servers c"
  have len: "25 + length (cc_user_ctx c) + sum_list (map (length \<circ> sc_wire) ?cs) < 0x7fffff00"
    using assms cc_wire_length [of c] by (simp add: cc_ok_def)
  have "length (sc_wire srv) \<le> sum_list (map (length \<circ> sc_wire) ?cs)" if "srv \<in> set ?cs" for srv
    using that member_le_sum_list [of "length (sc_wire srv)" "map (length \<circ> sc_wire) ?cs"] by simp
  then have "\<forall>srv \<in> set ?cs. length (sc_wire srv) < 0x80000000" using len by fastforce
  note servers = serialize_servers_eq [OF this, of junk]
  have sum: "sum_list (map nb_size (map (\<lambda>c. \<lparr> nb_bytes = sc_wire c, nb_pos = 0 \<rparr>) ?cs)) =
      sum_list (map (length \<circ> sc_wire) ?cs)"
    by (simp add: nb_size_def comp_def)
  show ?thesis
    using len unfolding cc_serialize_def servers sum rbind_simps
    by (simp add: nb_part_alloc nb_part_puts put_buffers_eq nb_part_done cc_wire_def le_bytes_4_64
        del: upt_Suc)
qed


lemma cc_deserialize_eq:
  assumes "cc_ok c" "length d + length (cc_wire c) + length r + 8 < 2 ^ 64"
  shows "cc_deserialize (ns_part d (cc_wire c @ r)) = Inr (c, ns_part (d @ cc_wire c) r)"
proof -
  let ?n = "length (cc_servers c)" and ?m = "length (cc_user_ctx c)"
  have len: "?m < 2 ^ 32" "?n < 2 ^ 31"
  proof -
    have "?n \<le> sum_list (map (length \<circ> sc_wire) (cc_servers c))"
      using sum_list_mono [of "cc_servers c" "\<lambda>_. 1" "length \<circ> sc_wire"] by (simp add: sum_list_triv sc_wire_length comp_def)
    then show "?m < 2 ^ 32" "?n < 2 ^ 31" using assms(1) cc_wire_length [of c] by (simp_all add: cc_ok_def)
  qed
  have cnt: "sint (of_nat ?n :: i32) = int ?n"
  proof -
    have "signed_take_bit 31 (int ?n) = int ?n" by (rule signed_take_bit_int_eq_self) (use len(2) in simp_all)
    then show ?thesis by (simp add: signed_of_nat)
  qed
  have servers: "\<forall>srv \<in> set (cc_servers c). sc_ok srv" using assms(1) by (simp add: cc_ok_def)
  note total = assms(2) [unfolded cc_wire_def, simplified]
  show ?thesis
    using total len(1) unfolding cc_deserialize_def cc_wire_def
    by (simp add: ns_part_gets ns_part_bytes cnt deserialize_servers_eq [OF servers] cluster_config_new_def)
qed

lemma sn_wire_length: "length (sn_wire s) = 25 + length (cc_wire (sn_last_config s))"
  by (simp add: sn_wire_def)

lemma sn_serialize_eq:
  assumes "cc_ok (sn_last_config s)"
  shows "sn_serialize junk s = Inr \<lparr> nb_bytes = sn_wire s, nb_pos = 0 \<rparr>"
  using assms cc_serialize_eq [OF assms, of junk] unfolding cc_ok_def sn_serialize_def sn_wire_def
  by (simp add: nb_part_alloc nb_part_puts nb_part_done nb_size_def del: upt_Suc)

lemma sn_deserialize_eq:
  assumes "cc_ok (sn_last_config s)"
  shows "sn_deserialize (ns_part [] (sn_wire s)) = Inr (s, ns_part (sn_wire s) [])"
  using assms cc_deserialize_eq [OF assms, of _ "[]"] unfolding cc_ok_def sn_deserialize_def sn_wire_def
  by (simp add: ns_part_gets)

text \<open>
  A snapshot of the consensus library, with the cluster configuration and the server
  configurations in it, is restored from its serialized form as it was, and the whole buffer is read,
  when the strings of the servers hold no zero character and the form is shorter than 2^31 - 256 bytes.
\<close>

theorem snapshot_roundtrip:
  assumes "cc_ok (sn_last_config s)"
  shows "\<exists>buf t. sn_serialize junk s = Inr buf \<and> nb_pos buf = 0 \<and>
    sn_deserialize (ns_new True buf) = Inr (s, t) \<and> ns_pos t = nb_size buf"
  using sn_serialize_eq [OF assms, of junk] sn_deserialize_eq [OF assms]
  by (simp add: ns_part_new nb_size_def) (simp add: ns_part_def)

theorem snapshot_roundtrip_witness:
  "\<exists>buf t. sn_serialize (\<lambda>_. 9) \<lparr> sn_last_log_idx = 7, sn_last_log_term = 2, sn_size = 0, sn_last_config =
       (cluster_config_new 5 4 True) \<lparr> cc_servers := [srv_config_new 1 [104, 49], srv_config_new 2 []] \<rparr>,
       sn_type = logical_object \<rparr> = Inr buf \<and> nb_pos buf = 0 \<and>
     sn_deserialize (ns_new True buf) = Inr (\<lparr> sn_last_log_idx = 7, sn_last_log_term = 2, sn_size = 0, sn_last_config =
       (cluster_config_new 5 4 True) \<lparr> cc_servers := [srv_config_new 1 [104, 49], srv_config_new 2 []] \<rparr>,
       sn_type = logical_object \<rparr>, t) \<and> ns_pos t = nb_size buf"
  by (rule snapshot_roundtrip)
    (simp add: cc_ok_def sc_ok_def cluster_config_new_def srv_config_new_def cc_wire_length sc_wire_length)

lemma ns_part_put_raw:
  "length d + length r < 2 ^ 64 \<Longrightarrow> length bs \<le> length r \<Longrightarrow>
     ns_put_raw (ns_part d r) bs = Inr (ns_part (d @ bs) (drop (length bs) r))"
  by (simp add: ns_put_raw_def ns_valid_def ns_part_def write_block_def ns_set_pos_def)

lemma ns_part_puts:
  assumes "length d + length r < 2 ^ 64"
  shows "1 \<le> length r \<Longrightarrow> ns_put_u8 (ns_part d r) b = Inr (ns_part (d @ [b]) (drop 1 r))"
    "8 \<le> length r \<Longrightarrow> ns_put_u64 (ns_part d r) u = Inr (ns_part (d @ le_bytes 8 u) (drop 8 r))"
    "4 \<le> length r \<Longrightarrow> ns_put_i32 (ns_part d r) i = Inr (ns_part (d @ le_bytes 4 i) (drop 4 r))"
proof -
  have little: "ns_little (ns_part d r)" by (simp add: ns_part_def)
  show "1 \<le> length r \<Longrightarrow> ns_put_u8 (ns_part d r) b = Inr (ns_part (d @ [b]) (drop 1 r))"
    "8 \<le> length r \<Longrightarrow> ns_put_u64 (ns_part d r) u = Inr (ns_part (d @ le_bytes 8 u) (drop 8 r))"
    "4 \<le> length r \<Longrightarrow> ns_put_i32 (ns_part d r) i = Inr (ns_part (d @ le_bytes 4 i) (drop 4 r))"
    using assms little
    by (simp_all add: ns_put_u8_def ns_put_u64_def ns_put_i32_def ns_put_word_def ns_part_put_raw)
qed

lemma ns_part_buffer: "ns_new True (nb_part [] r) = ns_part [] r" "ns_back (nb_part [] r) (ns_part d []) = \<lparr> nb_bytes = d, nb_pos = 0 \<rparr>"
  by (simp_all add: ns_new_def nb_part_def ns_part_def ns_back_def)

definition ss_wire :: "srv_state \<Rightarrow> bytes" where
  "ss_wire s = 1 # le_bytes 8 (ss_term s) @ le_bytes 4 (ss_voted_for s) @ [if ss_timer_allowed s then 1 else 0]"

lemma ss_serialize_eq: "ss_serialize junk s = Inr \<lparr> nb_bytes = ss_wire s, nb_pos = 0 \<rparr>"
  by (simp add: ss_serialize_def ss_serialize_v1p_def nb_part_alloc ns_part_buffer ns_part_puts ss_wire_def
      Let_def del: upt_Suc)

lemma ss_deserialize_eq: "ss_deserialize \<lparr> nb_bytes = ss_wire s, nb_pos = 0 \<rparr> = Inr s"
  by (simp add: ss_deserialize_def ss_deserialize_v1p_def nb_size_def ns_part_new ss_wire_def ns_part_gets)

lemma ss_serialize_v0_eq:
  "ss_serialize_v0 junk s = Inr \<lparr> nb_bytes = le_bytes 8 (ss_term s) @ le_bytes 4 (ss_voted_for s), nb_pos = 0 \<rparr>"
  by (simp add: ss_serialize_v0_def nb_part_alloc nb_part_puts nb_part_done del: upt_Suc)

lemma ss_deserialize_v0_eq:
  "ss_deserialize \<lparr> nb_bytes = le_bytes 8 t @ le_bytes 4 v, nb_pos = 0 \<rparr> =
     Inr \<lparr> ss_term = t, ss_voted_for = v, ss_timer_allowed = True \<rparr>"
proof -
  let ?b = "\<lparr> nb_bytes = le_bytes 8 t @ le_bytes 4 v, nb_pos = 0 \<rparr>"
  have b: "nbuf_ok ?b" "nb_rest ?b = le_bytes 8 t @ le_bytes 4 v @ []"
    by (simp_all add: nbuf_ok_def nb_size_def nb_rest_def)
  note 1 = nb_take_step [OF b]
  note 2 = nb_take_step [OF 1 [THEN conjunct2, THEN conjunct1] 1 [THEN conjunct2, THEN conjunct2]]
  show ?thesis
    using 1 2 by (simp add: ss_deserialize_def ss_deserialize_v0_def nb_get_ulong_def nb_get_int_def nb_size_def)
qed

text \<open>
  The state of a server is restored from what \<open>serialize\<close> writes; the old format, which
  \<open>deserialize\<close> tells by its length, loses only that the election timer was switched off.
\<close>

theorem srv_state_roundtrip:
  "(\<exists>buf. ss_serialize junk s = Inr buf \<and> ss_deserialize buf = Inr s) \<and>
   (\<exists>buf. ss_serialize_v0 junk s = Inr buf \<and> ss_deserialize buf = Inr (s \<lparr> ss_timer_allowed := True \<rparr>))"
  by (simp add: ss_serialize_eq ss_deserialize_eq ss_serialize_v0_eq ss_deserialize_v0_eq)

end
