(* ===== verification/State_Machine.thy ===== *)
theory State_Machine
  imports Nuraft_Config "HOL-Library.Signed_Division"
begin

text \<open>
  The replicated state machine of \<open>kvstore/state_machine.h\<close>: one 64-bit value that committed log entries
  change, and the last three snapshots of it. Operations that take the snapshot lock run one at a
  time. A snapshot context is a pair of the snapshot and the value; nothing outside of the map holds
  one. \<open>big\<close> tells the byte order of the host, in which \<open>memcpy\<close> copies an \<open>op_payload\<close>; \<open>junk\<close> is
  the content of fresh memory.
\<close>

section \<open>The code\<close>

definition op_ADD :: i32 where "op_ADD = 0"
definition op_SUB :: i32 where "op_SUB = 1"
definition op_MUL :: i32 where "op_MUL = 2"
definition op_DIV :: i32 where "op_DIV = 3"
definition op_SET :: i32 where "op_SET = 4"

record op_payload =
  op_type :: i32
  op_oprnd :: i32

record state_machine =
  sm_value :: i64
  sm_committed :: u64
  sm_snapshots :: "(u64 \<times> snapshot \<times> i64) list"

definition sm_new :: state_machine where
  "sm_new = \<lparr> sm_value = 0, sm_committed = 0, sm_snapshots = [] \<rparr>"

definition enc_log :: "bool \<Rightarrow> (nat \<Rightarrow> u8) \<Rightarrow> op_payload \<Rightarrow> nbuf res" where
  "enc_log big junk p =
     rbind (nb_alloc junk 8) (\<lambda>ret.
     rbind (ns_put_raw (ns_new True ret) (host_bytes big 4 (op_type p) @ host_bytes big 4 (op_oprnd p))) (\<lambda>s.
       Inr (ns_back ret s)))"

definition dec_log :: "bool \<Rightarrow> nbuf \<Rightarrow> op_payload res" where
  "dec_log big log =
     (if nb_size log \<noteq> 8 then Inl AssertFailed
      else rbind (ns_get_raw (ns_new True log) (nb_size log)) (\<lambda>(p, s).
           rbind (read_block p 0 8) (\<lambda>bs.
             Inr \<lparr> op_type = host_word big (take 4 bs), op_oprnd = host_word big (drop 4 bs) \<rparr>)))"

text \<open>Division truncates.\<close>

definition sm_operate :: "op_payload \<Rightarrow> i64 \<Rightarrow> i64 res" where
  "sm_operate p v =
     (if op_type p = op_ADD then to_i64 (sint v + sint (op_oprnd p))
      else if op_type p = op_SUB then to_i64 (sint v - sint (op_oprnd p))
      else if op_type p = op_MUL then to_i64 (sint v * sint (op_oprnd p))
      else if op_type p = op_DIV then
        (if op_oprnd p = 0 then Inl DivideByZero else to_i64 (sint v sdiv sint (op_oprnd p)))
      else Inr (scast (op_oprnd p)))"

definition sm_commit ::
    "bool \<Rightarrow> (nat \<Rightarrow> u8) \<Rightarrow> state_machine \<Rightarrow> u64 \<Rightarrow> nbuf \<Rightarrow> (nbuf \<times> state_machine) res" where
  "sm_commit big junk s log_idx data =
     rbind (dec_log big data) (\<lambda>p.
     rbind (sm_operate p (sm_value s)) (\<lambda>v.
       let s = s \<lparr> sm_value := v, sm_committed := log_idx \<rparr> in
       rbind (nb_alloc junk 8) (\<lambda>ret.
       rbind (ns_put_u64 (ns_new True ret) log_idx) (\<lambda>bs. Inr (ns_back ret bs, s)))))"

text \<open>Nothing is done before a commit or to take one back; \<open>pre_commit\<close> answers with a null pointer.\<close>

definition sm_pre_commit :: "state_machine \<Rightarrow> u64 \<Rightarrow> nbuf \<Rightarrow> nbuf option \<times> state_machine" where
  "sm_pre_commit s log_idx data = (None, s)"

definition sm_rollback :: "state_machine \<Rightarrow> u64 \<Rightarrow> nbuf \<Rightarrow> state_machine" where
  "sm_rollback s log_idx data = s"

definition sm_commit_config :: "state_machine \<Rightarrow> u64 \<Rightarrow> cluster_config \<Rightarrow> state_machine" where
  "sm_commit_config s log_idx conf = s \<lparr> sm_committed := log_idx \<rparr>"

definition sm_create_internal :: "(nat \<Rightarrow> u8) \<Rightarrow> state_machine \<Rightarrow> snapshot \<Rightarrow> state_machine res" where
  "sm_create_internal junk s snap =
     rbind (sn_serialize junk snap) (\<lambda>snp_buf.
     rbind (sn_deserialize (ns_new True snp_buf)) (\<lambda>(ss, _).
       let m = put_item (sn_last_log_idx snap, ss, sm_value s) (sm_snapshots s)
       in Inr (s \<lparr> sm_snapshots := drop (length m - 3) m \<rparr>)))"

text \<open>The result is what \<open>when_done\<close> is called with.\<close>

definition sm_create_snapshot :: "(nat \<Rightarrow> u8) \<Rightarrow> state_machine \<Rightarrow> snapshot \<Rightarrow> (bool \<times> state_machine) res" where
  "sm_create_snapshot junk s snap = rbind (sm_create_internal junk s snap) (\<lambda>s. Inr (True, s))"

text \<open>\<open>data_out\<close> and \<open>is_last_obj\<close>; the return value is 0 on every path.\<close>

definition sm_read_obj ::
    "(nat \<Rightarrow> u8) \<Rightarrow> state_machine \<Rightarrow> snapshot \<Rightarrow> u64 \<Rightarrow> (nbuf option \<times> bool) res" where
  "sm_read_obj junk s snap obj_id =
     (case map_of (sm_snapshots s) (sn_last_log_idx snap) of
        None \<Rightarrow> Inr (None, True)
      | Some ctx \<Rightarrow>
          if obj_id = 0
          then rbind (nb_alloc junk 4) (\<lambda>out.
               rbind (ns_put_i32 (ns_new True out) 0) (\<lambda>bs. Inr (Some (ns_back out bs), False)))
          else rbind (nb_alloc junk 8) (\<lambda>out.
               rbind (ns_put_u64 (ns_new True out) (snd ctx)) (\<lambda>bs. Inr (Some (ns_back out bs), True))))"

definition set_snapshot_value ::
    "u64 \<Rightarrow> i64 \<Rightarrow> (u64 \<times> snapshot \<times> i64) list \<Rightarrow> (u64 \<times> snapshot \<times> i64) list" where
  "set_snapshot_value i v = map (\<lambda>x. if fst x = i then (i, fst (snd x), v) else x)"

definition sm_save_obj ::
    "(nat \<Rightarrow> u8) \<Rightarrow> state_machine \<Rightarrow> snapshot \<Rightarrow> u64 \<Rightarrow> nbuf \<Rightarrow> (u64 \<times> state_machine) res" where
  "sm_save_obj junk s snap obj_id data =
     (if obj_id = 0
      then rbind (sm_create_internal junk s snap) (\<lambda>s. Inr (obj_id + 1, s))
      else rbind (ns_get_u64 (ns_new True data)) (\<lambda>(v, _).
           if map_of (sm_snapshots s) (sn_last_log_idx snap) = None then Inl AssertFailed
           else Inr (obj_id + 1, s \<lparr> sm_snapshots :=
                  set_snapshot_value (sn_last_log_idx snap) v (sm_snapshots s) \<rparr>)))"

definition sm_apply_snapshot :: "state_machine \<Rightarrow> snapshot \<Rightarrow> bool \<times> state_machine" where
  "sm_apply_snapshot s snap =
     (case map_of (sm_snapshots s) (sn_last_log_idx snap) of
        None \<Rightarrow> (False, s)
      | Some ctx \<Rightarrow> (True, s \<lparr> sm_value := snd ctx \<rparr>))"

definition sm_last_snapshot :: "state_machine \<Rightarrow> snapshot option" where
  "sm_last_snapshot s =
     (if sm_snapshots s = [] then None else Some (fst (snd (last (sm_snapshots s)))))"

definition sm_last_commit_index :: "state_machine \<Rightarrow> u64" where
  "sm_last_commit_index s = sm_committed s"

definition sm_current_value :: "state_machine \<Rightarrow> i64" where "sm_current_value s = sm_value s"

section \<open>Commits\<close>

text \<open>The operation on mathematical integers, as long as the results fit into 64 bits.\<close>

definition op_eval :: "op_payload \<Rightarrow> int \<Rightarrow> int res" where
  "op_eval p v =
     (let d = sint (op_oprnd p);
          r = (if op_type p = 0 then Inr (v + d) else if op_type p = 1 then Inr (v - d)
               else if op_type p = 2 then Inr (v * d)
               else if op_type p = 3 then (if d = 0 then Inl DivideByZero else Inr (v sdiv d))
               else Inr d)
      in rbind r (\<lambda>r. if - (2 ^ 63) \<le> r \<and> r < 2 ^ 63 then Inr r else Inl SignedOverflow))"

fun ops_eval :: "op_payload list \<Rightarrow> int \<Rightarrow> int res" where
  "ops_eval [] v = Inr v"
| "ops_eval (p # ps) v = rbind (op_eval p v) (ops_eval ps)"

text \<open>A log of operations committed one after the other, from an index on.\<close>

fun commit_log ::
    "bool \<Rightarrow> (nat \<Rightarrow> u8) \<Rightarrow> u64 \<Rightarrow> op_payload list \<Rightarrow> state_machine \<Rightarrow> state_machine res" where
  "commit_log big junk i [] s = Inr s"
| "commit_log big junk i (p # ps) s =
     rbind (enc_log big junk p) (\<lambda>log.
     rbind (sm_commit big junk s i log) (\<lambda>(_, s). commit_log big junk (i + 1) ps s))"

lemma sint_i32:
  fixes x :: i32
  shows "- (2 ^ 63) \<le> sint x" "sint x < 2 ^ 63" "sint (scast x :: i64) = sint x" "sint x = 0 \<longleftrightarrow> x = 0"
proof -
  have x: "- (2 ^ 31) \<le> sint x" "sint x < 2 ^ 31" using sint_ge [of x] sint_lt [of x] by simp_all
  then show r: "- (2 ^ 63) \<le> sint x" "sint x < 2 ^ 63" by simp_all
  then show "sint (scast x :: i64) = sint x"
    using signed_take_bit_int_eq_self [of 63 "sint x"] by (simp add: signed_scast_eq)
  show "sint x = 0 \<longleftrightarrow> x = 0" by (metis signed_0 signed_word_eqI)
qed

lemma sm_operate_sint: "rbind (sm_operate p v) (\<lambda>w. Inr (sint w)) = op_eval p (sint v)"
  using to_i64_sint sint_i32 [of "op_oprnd p"]
  by (simp add: sm_operate_def op_eval_def op_ADD_def op_SUB_def op_MUL_def op_DIV_def Let_def)

lemma sm_operate_eval: "sm_operate p v = rbind (op_eval p (sint v)) (\<lambda>r. Inr (word_of_int r))"
  unfolding sm_operate_sint [symmetric] by (cases "sm_operate p v") simp_all

lemma enc_log_eq:
  "enc_log big junk p = Inr \<lparr> nb_bytes = host_bytes big 4 (op_type p) @ host_bytes big 4 (op_oprnd p), nb_pos = 0 \<rparr>"
  by (simp add: enc_log_def nb_part_alloc ns_part_buffer ns_part_put_raw del: upt_Suc)

lemma dec_enc_log:
  "dec_log big \<lparr> nb_bytes = host_bytes big 4 (op_type p) @ host_bytes big 4 (op_oprnd p), nb_pos = 0 \<rparr> = Inr p"
  by (simp add: dec_log_def nb_size_def ns_part_new ns_get_raw_def ns_set_pos_def ns_part_def read_block_def host_word_bytes)

lemma commit_step:
  "rbind (enc_log big junk p) (sm_commit big junk s i) =
     rbind (op_eval p (sint (sm_value s))) (\<lambda>r. Inr (\<lparr> nb_bytes = le_bytes 8 i, nb_pos = 0 \<rparr>,
       s \<lparr> sm_value := word_of_int r, sm_committed := i \<rparr>))"
  by (cases "op_eval p (sint (sm_value s))")
    (simp_all add: enc_log_eq sm_commit_def dec_enc_log sm_operate_eval nb_part_alloc ns_part_buffer
      ns_part_puts del: upt_Suc)

lemma op_eval_range: "op_eval p v = Inr r \<Longrightarrow> sint (word_of_int r :: i64) = r"
  using signed_take_bit_int_eq_self [of 63 r]
  by (auto simp: op_eval_def Let_def rbind_eq_Inr signed_of_int split: if_splits)

text \<open>
  C9. Committing a log of encoded operations computes what the operations compute on mathematical
  integers, as long as every result fits into 64 bits and no division is by zero, and ends with the
  index of its last entry as the committed one; otherwise the first operation that overflows or
  divides by zero is undefined. Replicas that commit the same log therefore hold the same value.
\<close>

theorem commit_log_eval:
  "commit_log big junk i ps s =
     rbind (ops_eval ps (sint (sm_value s))) (\<lambda>r. Inr (s \<lparr> sm_value := word_of_int r,
       sm_committed := (if ps = [] then sm_committed s else i + of_nat (length ps) - 1) \<rparr>))"
proof (induction ps arbitrary: i s)
  case (Cons p ps)
  show ?case
  proof (cases "op_eval p (sint (sm_value s))")
    case (Inl f)
    have "rbind (enc_log big junk p) (\<lambda>log. rbind (sm_commit big junk s i log) g) =
        rbind (rbind (enc_log big junk p) (sm_commit big junk s i)) g" for g :: "nbuf \<times> state_machine \<Rightarrow> state_machine res"
      by (simp add: enc_log_eq)
    then show ?thesis using commit_step [of big junk p s i] Inl by simp
  next
    case (Inr r)
    have "rbind (enc_log big junk p) (\<lambda>log. rbind (sm_commit big junk s i log) g) =
        rbind (rbind (enc_log big junk p) (sm_commit big junk s i)) g" for g :: "nbuf \<times> state_machine \<Rightarrow> state_machine res"
      by (simp add: enc_log_eq)
    then show ?thesis
      using commit_step [of big junk p s i] Inr op_eval_range [OF Inr] by (simp add: Cons.IH algebra_simps)
  qed
qed simp

section \<open>Snapshots\<close>

definition snap_keys :: "state_machine \<Rightarrow> u64 set" where
  "snap_keys s = fst ` set (sm_snapshots s)"

definition sm_ok :: "state_machine \<Rightarrow> bool" where
  "sm_ok s \<longleftrightarrow> ordered_items (sm_snapshots s) \<and> length (sm_snapshots s) \<le> 3 \<and>
     (\<forall>x \<in> set (sm_snapshots s). fst x = sn_last_log_idx (fst (snd x)))"

lemma snap_keys_dom: "snap_keys s = dom (map_of (sm_snapshots s))"
  by (simp add: snap_keys_def dom_map_of_conv_image_fst)

lemma sm_create_internal_eq:
  assumes "cc_ok (sn_last_config snap)"
  shows "sm_create_internal junk s snap = Inr (s \<lparr> sm_snapshots :=
    (let m = put_item (sn_last_log_idx snap, snap, sm_value s) (sm_snapshots s) in drop (length m - 3) m) \<rparr>)"
  using sn_serialize_eq [OF assms, of junk] sn_deserialize_eq [OF assms]
  by (simp add: sm_create_internal_def ns_part_new Let_def)

lemma ordered_drop: "ordered_items m \<Longrightarrow> ordered_items (drop n m)"
  by (simp add: ordered_items_def sorted_wrt_drop flip: drop_map)

lemma sm_ok_create:
  assumes "sm_ok s" "cc_ok (sn_last_config snap)" "sm_create_internal junk s snap = Inr t"
  shows "sm_ok t"
proof -
  let ?m = "put_item (sn_last_log_idx snap, snap, sm_value s) (sm_snapshots s)"
  have t: "sm_snapshots t = drop (length ?m - 3) ?m"
    using assms(3) sm_create_internal_eq [OF assms(2), of junk s] by (auto simp: Let_def)
  have "ordered_items ?m" using assms(1) by (simp add: sm_ok_def ordered_put)
  moreover have "\<forall>x \<in> set ?m. fst x = sn_last_log_idx (fst (snd x))"
    using assms(1) by (auto simp: sm_ok_def put_item_def)
  ultimately show ?thesis unfolding sm_ok_def t by (auto intro: ordered_drop dest: in_set_dropD)
qed

lemma set_snapshot_value_keys [simp]:
  "map fst (set_snapshot_value i v m) = map fst m" "length (set_snapshot_value i v m) = length m"
  by (simp_all add: set_snapshot_value_def)

lemma sm_ok_set: "sm_ok s \<Longrightarrow> sm_ok (s \<lparr> sm_snapshots := set_snapshot_value i v (sm_snapshots s) \<rparr>)"
proof -
  assume s: "sm_ok s"
  have "ordered_items (set_snapshot_value i v (sm_snapshots s))"
    using s set_snapshot_value_keys(1) [of i v "sm_snapshots s"]
    by (metis ordered_items_def sm_ok_def sorted_wrt_map)
  then show ?thesis using s by (auto simp: sm_ok_def set_snapshot_value_def)
qed

text \<open>Runs of the machine, on snapshots that can be serialized.\<close>

inductive sm_reach :: "bool \<Rightarrow> (nat \<Rightarrow> u8) \<Rightarrow> state_machine \<Rightarrow> bool" for big junk where
  reach_new: "sm_reach big junk sm_new"
| reach_commit: "sm_reach big junk s \<Longrightarrow> sm_commit big junk s i data = Inr (ret, t) \<Longrightarrow> sm_reach big junk t"
| reach_config: "sm_reach big junk s \<Longrightarrow> sm_reach big junk (sm_commit_config s i conf)"
| reach_create: "sm_reach big junk s \<Longrightarrow> cc_ok (sn_last_config snap) \<Longrightarrow>
    sm_create_snapshot junk s snap = Inr (b, t) \<Longrightarrow> sm_reach big junk t"
| reach_save: "sm_reach big junk s \<Longrightarrow> cc_ok (sn_last_config snap) \<Longrightarrow>
    sm_save_obj junk s snap i data = Inr (j, t) \<Longrightarrow> sm_reach big junk t"
| reach_apply: "sm_reach big junk s \<Longrightarrow> sm_apply_snapshot s snap = (b, t) \<Longrightarrow> sm_reach big junk t"

lemma sm_ok_cong: "sm_snapshots t = sm_snapshots s \<Longrightarrow> sm_ok s \<Longrightarrow> sm_ok t"
  by (simp add: sm_ok_def)

lemma sm_commit_snapshots: "sm_commit big junk s i data = Inr (ret, t) \<Longrightarrow> sm_snapshots t = sm_snapshots s"
  by (auto simp: sm_commit_def rbind_eq_Inr Let_def)

lemma sm_apply_snapshots: "sm_apply_snapshot s snap = (b, t) \<Longrightarrow> sm_snapshots t = sm_snapshots s"
  by (auto simp: sm_apply_snapshot_def split: option.splits)

lemma sm_reach_ok: "sm_reach big junk s \<Longrightarrow> sm_ok s"
proof (induction rule: sm_reach.induct)
  case (reach_create s snap b t)
  have "sm_create_internal junk s snap = Inr t"
    using reach_create.hyps(3) by (cases "sm_create_internal junk s snap") (simp_all add: sm_create_snapshot_def)
  then show ?case by (rule sm_ok_create [OF reach_create.IH reach_create.hyps(2)])
next
  case (reach_save s snap i data j t)
  show ?case
  proof (cases "i = 0")
    case True
    then have "sm_create_internal junk s snap = Inr t"
      using reach_save.hyps(3) by (cases "sm_create_internal junk s snap") (simp_all add: sm_save_obj_def)
    then show ?thesis by (rule sm_ok_create [OF reach_save.IH reach_save.hyps(2)])
  next
    case False
    then show ?thesis
      using reach_save.hyps(3) sm_ok_set [OF reach_save.IH]
      by (cases "ns_get_u64 (ns_new True data)") (auto simp: sm_save_obj_def split: if_splits)
  qed
next
  case (reach_commit s i data ret t)
  then show ?case using sm_ok_cong sm_commit_snapshots by blast
next
  case (reach_apply s snap b t)
  then show ?case using sm_ok_cong sm_apply_snapshots by blast
qed (simp_all add: sm_new_def sm_ok_def sm_commit_config_def)

lemma last_items:
  assumes "sorted_wrt (<) ks" "(i :: 'a :: linorder) \<in> set ks"
  shows "i \<in> set (drop (length ks - n) ks) \<longleftrightarrow> card {k \<in> set ks. i < k} < n"
proof -
  obtain j where j: "j < length ks" "ks ! j = i" using assms(2) by (auto simp: in_set_conv_nth)
  have less: "ks ! a < ks ! b \<longleftrightarrow> a < b" if "a < length ks" "b < length ks" for a b
    using sorted_wrt_nth_less [OF assms(1), of a b] sorted_wrt_nth_less [OF assms(1), of b a] that
    by (cases a b rule: linorder_cases) auto
  have dist: "distinct ks" using assms(1) by (simp add: strict_sorted_iff)
  have "{k \<in> set ks. i < k} = set (drop (Suc j) ks)"
  proof (intro equalityI subsetI)
    fix k
    assume "k \<in> {k \<in> set ks. i < k}"
    then obtain a where "a < length ks" "ks ! a = k" "i < k" by (auto simp: in_set_conv_nth)
    then show "k \<in> set (drop (Suc j) ks)"
      using less [of j a] j by (auto simp: in_set_conv_nth intro!: exI [of _ "a - Suc j"])
  next
    fix k
    assume "k \<in> set (drop (Suc j) ks)"
    then obtain a where "a < length ks - Suc j" "ks ! (Suc j + a) = k" by (auto simp: in_set_conv_nth)
    then show "k \<in> {k \<in> set ks. i < k}" using less [of j "Suc j + a"] j by auto
  qed
  then have "card {k \<in> set ks. i < k} = length ks - Suc j" using dist by (simp add: distinct_card)
  moreover have "i \<in> set (drop (length ks - n) ks) \<longleftrightarrow> length ks - n \<le> j"
  proof
    assume "i \<in> set (drop (length ks - n) ks)"
    then obtain a where "length ks - n + a < length ks" "ks ! (length ks - n + a) = i"
      by (auto simp: in_set_conv_nth less_diff_conv add.commute)
    then show "length ks - n \<le> j" using less [of j "length ks - n + a"] less [of "length ks - n + a" j] j
      by (cases j "length ks - n + a" rule: linorder_cases) auto
  next
    assume "length ks - n \<le> j"
    then show "i \<in> set (drop (length ks - n) ks)"
      using j by (auto simp: in_set_conv_nth intro!: exI [of _ "j - (length ks - n)"])
  qed
  ultimately show ?thesis using j(1) by linarith
qed

lemma create_keys:
  assumes "sm_ok s" "cc_ok (sn_last_config snap)" "sm_create_internal junk s snap = Inr t"
  shows "snap_keys t = (let K = insert (sn_last_log_idx snap) (snap_keys s) in {k \<in> K. card {l \<in> K. k < l} < 3})"
proof -
  let ?m = "put_item (sn_last_log_idx snap, snap, sm_value s) (sm_snapshots s)"
  let ?ks = "map fst ?m"
  have ord: "ordered_items (sm_snapshots s)" using assms(1) by (simp add: sm_ok_def)
  have sorted: "sorted_wrt (<) ?ks" using ordered_put [OF ord] by (simp add: ordered_items_def)
  have K: "set ?ks = insert (sn_last_log_idx snap) (snap_keys s)"
    using put_item_set [OF ord, of "(sn_last_log_idx snap, snap, sm_value s)"] by (auto simp: snap_keys_def)
  have "sm_snapshots t = drop (length ?m - 3) ?m"
    using assms(3) sm_create_internal_eq [OF assms(2), of junk s] by (auto simp: Let_def)
  then have "snap_keys t = set (drop (length ?ks - 3) ?ks)" by (simp add: snap_keys_def drop_map)
  moreover have "set (drop (length ?ks - 3) ?ks) \<subseteq> set ?ks" by (rule set_drop_subset)
  ultimately show ?thesis using last_items [OF sorted, of _ 3] unfolding K Let_def by blast
qed

lemma last_snapshot_max:
  assumes "sm_ok s"
  shows "map_option sn_last_log_idx (sm_last_snapshot s) = (if snap_keys s = {} then None else Some (Max (snap_keys s)))"
proof (cases "sm_snapshots s = []")
  case False
  let ?m = "sm_snapshots s"
  have x: "last ?m \<in> set ?m" "fst (last ?m) = sn_last_log_idx (fst (snd (last ?m)))"
    using False assms by (simp_all add: sm_ok_def)
  have "k \<le> fst (last ?m)" if "k \<in> snap_keys s" for k
    using sorted_bounds(2) [of "map fst ?m" k] that assms False
    by (simp add: sm_ok_def ordered_items_def snap_keys_def last_map)
  then have "Max (snap_keys s) = fst (last ?m)" using x(1) by (intro Max_eqI) (auto simp: snap_keys_def)
  then show ?thesis using x(2) False by (simp add: sm_last_snapshot_def snap_keys_def)
qed (simp add: sm_last_snapshot_def snap_keys_def)

text \<open>
  C23. In every state the machine reaches, the snapshots are ordered by index, at most three, each
  under its own index, and \<open>last_snapshot\<close> is the one with the greatest index. Creating one keeps, of
  the old ones and the new one, those that fewer than three others are behind.
\<close>

theorem snapshots_last_three:
  assumes "sm_reach big junk s" "cc_ok (sn_last_config snap)"
  shows "ordered_items (sm_snapshots s) \<and> length (sm_snapshots s) \<le> 3 \<and>
    (\<forall>x \<in> set (sm_snapshots s). fst x = sn_last_log_idx (fst (snd x))) \<and>
    map_option sn_last_log_idx (sm_last_snapshot s) =
      (if snap_keys s = {} then None else Some (Max (snap_keys s))) \<and>
    (\<exists>t. sm_create_snapshot junk s snap = Inr (True, t) \<and>
       snap_keys t = (let K = insert (sn_last_log_idx snap) (snap_keys s) in {k \<in> K. card {l \<in> K. k < l} < 3}))"
proof -
  have ok: "sm_ok s" by (rule sm_reach_ok [OF assms(1)])
  obtain t where t: "sm_create_internal junk s snap = Inr t" using sm_create_internal_eq [OF assms(2)] by blast
  then have "sm_create_snapshot junk s snap = Inr (True, t)" by (simp add: sm_create_snapshot_def)
  then show ?thesis
    using ok last_snapshot_max [OF ok] create_keys [OF ok assms(2) t] unfolding sm_ok_def by blast
qed

definition demo_snap :: "u64 \<Rightarrow> snapshot" where
  "demo_snap i = \<lparr> sn_last_log_idx = i, sn_last_log_term = 1, sn_size = 0,
                   sn_last_config = cluster_config_new 0 0 False, sn_type = logical_object \<rparr>"

lemma demo_snap: "cc_ok (sn_last_config (demo_snap i))" "sn_last_log_idx (demo_snap i) = i"
  by (simp_all add: demo_snap_def cc_ok_def cluster_config_new_def cc_wire_length)

theorem snapshots_last_three_witness:
  "\<exists>t. sm_create_snapshot (\<lambda>_. 0) (sm_new \<lparr> sm_committed := 5 \<rparr>) (demo_snap 5) = Inr (True, t) \<and> snap_keys t = {5}"
proof -
  have "sm_reach False (\<lambda>_. 0) (sm_commit_config sm_new 5 (cluster_config_new 0 0 False))"
    by (rule reach_config [OF reach_new])
  note snapshots_last_three [OF this demo_snap(1) [of 5]]
  moreover have "sm_commit_config sm_new 5 (cluster_config_new 0 0 False) = sm_new \<lparr> sm_committed := 5 \<rparr>"
    by (simp add: sm_commit_config_def)
  ultimately obtain t where t: "sm_create_snapshot (\<lambda>_. 0) (sm_new \<lparr> sm_committed := 5 \<rparr>) (demo_snap 5) = Inr (True, t)"
      "snap_keys t = {k. k = 5 \<and> card {l. l = 5 \<and> k < l} < 3}"
    by (auto simp: demo_snap(2) Let_def sm_new_def snap_keys_def)
  have none: "{l :: u64. l = 5 \<and> 5 < l} = {}" by auto
  have "snap_keys t = {5}" unfolding t(2) by (auto simp: none)
  then show ?thesis using t(1) by blast
qed

lemma create_lookup:
  assumes "sm_ok s" "cc_ok (sn_last_config snap)" "sm_create_internal junk s snap = Inr t"
  shows "map_of (sm_snapshots t) (sn_last_log_idx snap) =
    (if sn_last_log_idx snap \<in> snap_keys t then Some (snap, sm_value s) else None)"
proof -
  let ?i = "sn_last_log_idx snap"
  let ?m = "put_item (?i, snap, sm_value s) (sm_snapshots s)"
  have "set (sm_snapshots t) \<subseteq> set ?m"
    using assms(3) sm_create_internal_eq [OF assms(2), of junk s] by (auto simp: Let_def dest: in_set_dropD)
  moreover have "c = (snap, sm_value s)" if "(?i, c) \<in> set ?m" for c
    using that by (auto simp: put_item_def)
  ultimately have "c = (snap, sm_value s)" if "map_of (sm_snapshots t) ?i = Some c" for c
    using map_of_SomeD [OF that] by blast
  then show ?thesis by (cases "map_of (sm_snapshots t) ?i") (auto simp: snap_keys_dom domIff)
qed

lemma map_of_set_value:
  "map_of (set_snapshot_value i v m) i = map_option (\<lambda>c. (fst c, v)) (map_of m i)"
  by (induction m) (auto simp: set_snapshot_value_def)

lemma sm_read_obj_eq:
  assumes "map_of (sm_snapshots s) (sn_last_log_idx snap) = Some ctx"
  shows "sm_read_obj junk s snap 0 = Inr (Some \<lparr> nb_bytes = le_bytes 4 (0 :: i32), nb_pos = 0 \<rparr>, False)"
    "sm_read_obj junk s snap 1 = Inr (Some \<lparr> nb_bytes = le_bytes 8 (snd ctx), nb_pos = 0 \<rparr>, True)"
  using assms by (simp_all add: sm_read_obj_def nb_part_alloc ns_part_buffer ns_part_puts del: upt_Suc)

lemma sm_save_value:
  "sm_save_obj junk s snap 1 \<lparr> nb_bytes = le_bytes 8 v, nb_pos = 0 \<rparr> =
     (if sn_last_log_idx snap \<in> snap_keys s
      then Inr (2, s \<lparr> sm_snapshots := set_snapshot_value (sn_last_log_idx snap) v (sm_snapshots s) \<rparr>)
      else Inl AssertFailed)"
  using ns_part_gets(3) [of "[]" "[]" v]
  by (simp add: sm_save_obj_def ns_part_new snap_keys_dom domIff)

text \<open>
  Sending a snapshot. A machine that saves the two objects another one reads for its snapshot,
  and applies it, holds the value the other one had when it made the snapshot, whatever was committed
  there since; its last committed index stays. It fails when the receiver keeps three snapshots with
  greater indices: the one it just made is dropped, and saving the value fails an assertion.
\<close>

theorem snapshot_transfer:
  assumes "sm_reach big junk s" "sm_create_snapshot junk s snap = Inr (True, s')" "sn_last_log_idx snap \<in> snap_keys s'"
    and "sm_snapshots t = sm_snapshots s'" "sm_reach big' junk' d" "cc_ok (sn_last_config snap)"
  shows "\<exists>o1 o2 d1. sm_read_obj junk t snap 0 = Inr (Some o1, False) \<and> sm_read_obj junk t snap 1 = Inr (Some o2, True) \<and>
    sm_save_obj junk' d snap 0 o1 = Inr (1, d1) \<and>
    (if card {k \<in> snap_keys d. sn_last_log_idx snap < k} < 3
     then \<exists>d2 d3. sm_save_obj junk' d1 snap 1 o2 = Inr (2, d2) \<and> sm_apply_snapshot d2 snap = (True, d3) \<and>
       sm_value d3 = sm_value s \<and> sm_committed d3 = sm_committed d
     else sm_save_obj junk' d1 snap 1 o2 = Inl AssertFailed)"
proof -
  let ?i = "sn_last_log_idx snap"
  let ?o1 = "\<lparr> nb_bytes = le_bytes 4 (0 :: i32), nb_pos = 0 \<rparr>" and ?o2 = "\<lparr> nb_bytes = le_bytes 8 (sm_value s), nb_pos = 0 \<rparr>"
  have ok: "sm_ok s" "sm_ok d" using sm_reach_ok assms(1,5) by blast+
  have "sm_create_internal junk s snap = Inr s'"
    using assms(2) by (cases "sm_create_internal junk s snap") (simp_all add: sm_create_snapshot_def)
  then have "map_of (sm_snapshots t) ?i = Some (snap, sm_value s)"
    using create_lookup [OF ok(1) assms(6)] assms(3,4) by simp
  note read = sm_read_obj_eq [OF this, of junk, unfolded snd_conv]
  obtain d1 where d1: "sm_create_internal junk' d snap = Inr d1" using sm_create_internal_eq [OF assms(6)] by blast
  have committed: "sm_committed d1 = sm_committed d"
    using d1 sm_create_internal_eq [OF assms(6), of junk' d] by auto
  have "{l \<in> insert ?i (snap_keys d). ?i < l} = {l \<in> snap_keys d. ?i < l}" by auto
  then have kept: "?i \<in> snap_keys d1 \<longleftrightarrow> card {k \<in> snap_keys d. ?i < k} < 3"
    using create_keys [OF ok(2) assms(6) d1] by (simp add: Let_def)
  have save: "sm_save_obj junk' d snap 0 ?o1 = Inr (1, d1)" using d1 by (simp add: sm_save_obj_def)
  show ?thesis
  proof (cases "?i \<in> snap_keys d1")
    case True
    let ?d2 = "d1 \<lparr> sm_snapshots := set_snapshot_value ?i (sm_value s) (sm_snapshots d1) \<rparr>"
    have "map_of (sm_snapshots ?d2) ?i = Some (snap, sm_value s)"
      using create_lookup [OF ok(2) assms(6) d1] True by (simp add: map_of_set_value)
    then have "sm_apply_snapshot ?d2 snap = (True, ?d2 \<lparr> sm_value := sm_value s \<rparr>)"
      by (simp add: sm_apply_snapshot_def)
    moreover have "sm_save_obj junk' d1 snap 1 ?o2 = Inr (2, ?d2)" using True by (simp add: sm_save_value)
    ultimately show ?thesis
      using read save True committed unfolding kept by (intro exI [of _ ?o1] exI [of _ ?o2] exI [of _ d1]) auto
  next
    case False
    then have "\<not> card {k \<in> snap_keys d. ?i < k} < 3" by (simp add: kept)
    moreover have "sm_save_obj junk' d1 snap 1 ?o2 = Inl AssertFailed" using False by (simp add: sm_save_value)
    ultimately show ?thesis using read save by (intro exI [of _ ?o1] exI [of _ ?o2] exI [of _ d1]) simp
  qed
qed

theorem snapshot_transfer_witness:
  "\<exists>t o1 o2 d1 d2 d3. sm_create_snapshot (\<lambda>_. 0) sm_new (demo_snap 5) = Inr (True, t) \<and>
     sm_read_obj (\<lambda>_. 0) t (demo_snap 5) 0 = Inr (Some o1, False) \<and>
     sm_read_obj (\<lambda>_. 0) t (demo_snap 5) 1 = Inr (Some o2, True) \<and>
     sm_save_obj (\<lambda>_. 0) sm_new (demo_snap 5) 0 o1 = Inr (1, d1) \<and>
     sm_save_obj (\<lambda>_. 0) d1 (demo_snap 5) 1 o2 = Inr (2, d2) \<and>
     sm_apply_snapshot d2 (demo_snap 5) = (True, d3) \<and> sm_value d3 = 0"
proof -
  have new: "sm_reach False (\<lambda>_. 0) sm_new" by (rule reach_new)
  then have ok: "sm_ok sm_new" by (rule sm_reach_ok)
  obtain t where t: "sm_create_internal (\<lambda>_. 0) sm_new (demo_snap 5) = Inr t"
    using sm_create_internal_eq [OF demo_snap(1)] by blast
  have none: "{l :: u64. l = 5 \<and> 5 < l} = {}" by auto
  have "5 \<in> snap_keys t"
    using create_keys [OF ok demo_snap(1) t] by (simp add: demo_snap(2) sm_new_def snap_keys_def Let_def none)
  moreover have "sm_create_snapshot (\<lambda>_. 0) sm_new (demo_snap 5) = Inr (True, t)" using t by (simp add: sm_create_snapshot_def)
  ultimately show ?thesis
    using snapshot_transfer [OF new, of "demo_snap 5" t t False "\<lambda>_. 0" sm_new] new demo_snap
    by (auto simp: sm_new_def snap_keys_def)
qed

end
