(* ===== verification/State_Manager.thy ===== *)
theory State_Manager
  imports Nuraft_Config Rocks_Log_Store
begin

text \<open>
  The state manager of \<open>kvstore/state_mgr.h\<close>, which keeps the cluster configuration and the state of the
  server for the consensus library, in memory. \<open>files\<close> is the content of the files on disk, \<open>None\<close> where
  there is none; opening and reading an existing file does not fail. The buffer's own position, which
  \<open>load_config\<close> sets, does not matter to a serializer.
\<close>

section \<open>The code\<close>

record 's state_mgr =
  mg_my_id :: i32
  mg_my_endpoint :: bytes
  mg_log_store :: "'s rocks_log"
  mg_my_srv_config :: srv_config
  mg_saved_config :: cluster_config
  mg_saved_state :: "srv_state option"

definition mg_new ::
    "('s, 'c) engine \<Rightarrow> bool \<Rightarrow> 's wrapper \<Rightarrow> i32 \<Rightarrow> bytes \<Rightarrow> 's state_mgr res" where
  "mg_new E big w srv_id endpoint =
     rbind (rl_new E big w) (\<lambda>log.
       Inr \<lparr> mg_my_id = srv_id, mg_my_endpoint = endpoint, mg_log_store = log,
             mg_my_srv_config = srv_config_new srv_id endpoint,
             mg_saved_config = (cluster_config_new 0 0 False) \<lparr> cc_servers := [srv_config_new srv_id endpoint] \<rparr>,
             mg_saved_state = None \<rparr>)"

text \<open>\<open>-cluster.config\<close>\<close>

definition config_filename :: "'s state_mgr \<Rightarrow> bytes" where
  "config_filename m = decimal_text (sint (mg_my_id m)) @
     [0x2d, 0x63, 0x6c, 0x75, 0x73, 0x74, 0x65, 0x72, 0x2e, 0x63, 0x6f, 0x6e, 0x66, 0x69, 0x67]"

definition file_size :: "(bytes \<rightharpoonup> bytes) \<Rightarrow> bytes \<Rightarrow> nat" where
  "file_size files name = (case files name of None \<Rightarrow> 0 | Some bs \<Rightarrow> length bs)"

definition mg_load_config ::
    "(nat \<Rightarrow> u8) \<Rightarrow> (bytes \<rightharpoonup> bytes) \<Rightarrow> 's state_mgr \<Rightarrow> (cluster_config \<times> 's state_mgr) res" where
  "mg_load_config junk files m =
     (if file_size files (config_filename m) \<noteq> 0
      then rbind (nb_alloc junk (file_size files (config_filename m))) (\<lambda>buf.
           rbind (write_block (nb_bytes buf) 0 (the (files (config_filename m)))) (\<lambda>bs.
           let buf = nb_set_pos (buf \<lparr> nb_bytes := bs \<rparr>) (file_size files (config_filename m)) in
           rbind (cc_deserialize (ns_new True buf)) (\<lambda>(c, _).
             Inr (c, m \<lparr> mg_saved_config := c \<rparr>))))
      else Inr (mg_saved_config m, m))"

definition mg_save_config :: "(nat \<Rightarrow> u8) \<Rightarrow> 's state_mgr \<Rightarrow> cluster_config \<Rightarrow> 's state_mgr res" where
  "mg_save_config junk m config =
     rbind (cc_serialize junk config) (\<lambda>buf.
     rbind (cc_deserialize (ns_new True buf)) (\<lambda>(c, _). Inr (m \<lparr> mg_saved_config := c \<rparr>)))"

definition mg_save_state :: "(nat \<Rightarrow> u8) \<Rightarrow> 's state_mgr \<Rightarrow> srv_state \<Rightarrow> 's state_mgr res" where
  "mg_save_state junk m state =
     rbind (ss_serialize junk state) (\<lambda>buf.
     rbind (ss_deserialize buf) (\<lambda>s. Inr (m \<lparr> mg_saved_state := Some s \<rparr>)))"

definition mg_read_state :: "'s state_mgr \<Rightarrow> srv_state option" where "mg_read_state m = mg_saved_state m"
definition mg_load_log_store :: "'s state_mgr \<Rightarrow> 's rocks_log" where "mg_load_log_store m = mg_log_store m"
definition mg_server_id :: "'s state_mgr \<Rightarrow> i32" where "mg_server_id m = mg_my_id m"
definition mg_get_srv_config :: "'s state_mgr \<Rightarrow> srv_config" where "mg_get_srv_config m = mg_my_srv_config m"

section \<open>Properties\<close>

lemma mg_load_file:
  assumes "files (config_filename m) = Some bs" "bs \<noteq> []" "length bs < 0x80000000"
  shows "mg_load_config junk files m =
    rbind (cc_deserialize (ns_part [] bs)) (\<lambda>(c, _). Inr (c, m \<lparr> mg_saved_config := c \<rparr>))"
  using assms
  by (simp add: mg_load_config_def file_size_def nb_alloc_def write_block_def nb_set_pos_def nb_size_def
      ns_new_def ns_part_def Let_def)

text \<open>
  The state manager gives back the state and the configuration that were saved, but the
  configuration only while there is no configuration file: what it saves is never written to the file,
  and a file that is there wins over what was saved after it.
\<close>

theorem manager_saves:
  assumes "cc_ok c" "cc_ok c'"
  shows "\<exists>m1 m2. mg_save_config junk m c = Inr m1 \<and> mg_save_state junk m1 st = Inr m2 \<and>
    mg_read_state m2 = Some st \<and>
    (files (config_filename m) \<in> {None, Some []} \<longrightarrow> mg_load_config junk files m2 = Inr (c, m2)) \<and>
    (files (config_filename m) = Some (cc_wire c') \<longrightarrow>
       mg_load_config junk files m2 = Inr (c', m2 \<lparr> mg_saved_config := c' \<rparr>))"
proof -
  have de: "cc_deserialize (ns_part [] (cc_wire x)) = Inr (x, ns_part (cc_wire x) [])" if "cc_ok x" for x
    using cc_deserialize_eq [OF that, of "[]" "[]"] that by (simp add: cc_ok_def)
  let ?m1 = "m \<lparr> mg_saved_config := c \<rparr>"
  let ?m2 = "?m1 \<lparr> mg_saved_state := Some st \<rparr>"
  have "mg_save_config junk m c = Inr ?m1"
    using de [OF assms(1)] by (simp add: mg_save_config_def cc_serialize_eq [OF assms(1)] ns_part_new)
  moreover have "mg_save_state junk ?m1 st = Inr ?m2"
    by (simp add: mg_save_state_def ss_serialize_eq ss_deserialize_eq)
  moreover have name: "config_filename ?m2 = config_filename m" by (simp add: config_filename_def)
  moreover have "mg_load_config junk files ?m2 = Inr (c, ?m2)" if "files (config_filename m) \<in> {None, Some []}"
    using that name by (auto simp: mg_load_config_def file_size_def)
  moreover have "mg_load_config junk files ?m2 = Inr (c', ?m2 \<lparr> mg_saved_config := c' \<rparr>)"
    if "files (config_filename m) = Some (cc_wire c')"
  proof -
    have "cc_wire c' \<noteq> []" "length (cc_wire c') < 0x80000000" using assms(2) by (auto simp: cc_ok_def cc_wire_def)
    then show ?thesis using mg_load_file [of files ?m2] that name de [OF assms(2)] by simp
  qed
  ultimately show ?thesis by (intro exI [of _ ?m1] exI [of _ ?m2]) (simp add: mg_read_state_def)
qed

theorem manager_saves_witness:
  "\<forall>m :: mem_db state_mgr. \<exists>m1 m2. mg_save_config (\<lambda>_. 0) m (cluster_config_new 8 7 True) = Inr m1 \<and>
     mg_save_state (\<lambda>_. 0) m1 srv_state_new = Inr m2 \<and> mg_read_state m2 = Some srv_state_new \<and>
     mg_load_config (\<lambda>_. 0) (\<lambda>_. None) m2 = Inr (cluster_config_new 8 7 True, m2)"
proof
  fix m :: "mem_db state_mgr"
  have ok: "cc_ok (cluster_config_new 8 7 True)" by (simp add: cc_ok_def cluster_config_new_def cc_wire_length)
  have "(\<lambda>_. None) (config_filename m) \<in> {None, Some []}" by simp
  then show "\<exists>m1 m2. mg_save_config (\<lambda>_. 0) m (cluster_config_new 8 7 True) = Inr m1 \<and>
     mg_save_state (\<lambda>_. 0) m1 srv_state_new = Inr m2 \<and> mg_read_state m2 = Some srv_state_new \<and>
     mg_load_config (\<lambda>_. 0) (\<lambda>_. None) m2 = Inr (cluster_config_new 8 7 True, m2)"
    using manager_saves [OF ok ok, of "\<lambda>_. 0" m srv_state_new "\<lambda>_. None"] by blast
qed

end
