(* ===== verification/Snowflake.thy ===== *)
theory Snowflake
  imports Aqua_Prelude
begin

text \<open>
  The generator of order numbers of \<open>cerebro/snowflake.h\<close>. The clock is the list of the milliseconds
  that \<open>steady_clock\<close> shows since the generator was made, one element for each time it is read; a list
  that ends too soon is \<open>OutOfFuel\<close>. Shifting a negative number to the left, or one so large that the
  result leaves 64 bits, is undefined.
  The lock makes calls run one at a time.
\<close>

section \<open>The code\<close>

definition MAX_WORKER_ID :: int where "MAX_WORKER_ID = 31"
definition MAX_DATACENTER_ID :: int where "MAX_DATACENTER_ID = 31"
definition WORKER_ID_SHIFT :: nat where "WORKER_ID_SHIFT = 12"
definition DATACENTER_ID_SHIFT :: nat where "DATACENTER_ID_SHIFT = 12 + 5"
definition TIMESTAMP_LEFT_SHIFT :: nat where "TIMESTAMP_LEFT_SHIFT = 12 + 5 + 5"
definition SEQUENCE_MASK :: i64 where "SEQUENCE_MASK = 0xfff"

record snowflake =
  sf_start :: i64
  sf_last :: i64
  sf_worker :: i64
  sf_datacenter :: i64
  sf_sequence :: i64

definition sf_new :: "i64 \<Rightarrow> snowflake" where
  "sf_new start = \<lparr> sf_start = start, sf_last = - 1, sf_worker = 0, sf_datacenter = 0, sf_sequence = 0 \<rparr>"

definition sf_init :: "i64 \<Rightarrow> i64 \<Rightarrow> snowflake \<Rightarrow> snowflake res" where
  "sf_init workerid datacenterid s =
     (if sint workerid > MAX_WORKER_ID \<or> sint workerid < 0 then Inl RuntimeError
      else if sint datacenterid > MAX_DATACENTER_ID \<or> sint datacenterid < 0 then Inl RuntimeError
      else Inr (s \<lparr> sf_worker := workerid, sf_datacenter := datacenterid \<rparr>))"

fun sf_millsecond :: "i64 \<Rightarrow> i64 list \<Rightarrow> (i64 \<times> i64 list) res" where
  "sf_millsecond start [] = Inl OutOfFuel"
| "sf_millsecond start (diff # clock) =
     rbind (to_i64 (sint start + sint diff)) (\<lambda>t. Inr (t, clock))"

fun sf_wait :: "i64 \<Rightarrow> i64 \<Rightarrow> i64 list \<Rightarrow> (i64 \<times> i64 list) res" where
  "sf_wait start lst [] = Inl OutOfFuel"
| "sf_wait start lst (diff # clock) =
     rbind (to_i64 (sint start + sint diff)) (\<lambda>t.
       if sint t \<le> sint lst then sf_wait start lst clock else Inr (t, clock))"

definition shift_left :: "nat \<Rightarrow> i64 \<Rightarrow> i64 res" where
  "shift_left n x =
     (if 0 \<le> sint x \<and> sint x * 2 ^ n < 2 ^ 64 then Inr (push_bit n x) else Inl SignedOverflow)"

definition sf_nextid :: "i64 \<Rightarrow> snowflake \<Rightarrow> i64 list \<Rightarrow> (i64 \<times> snowflake \<times> i64 list) res" where
  "sf_nextid TWEPOCH s clock =
     rbind (sf_millsecond (sf_start s) clock) (\<lambda>(timestamp, clock).
     rbind (if sf_last s = timestamp
            then let sequence = (sf_sequence s + 1) AND SEQUENCE_MASK in
                 if sequence = 0
                 then rbind (sf_wait (sf_start s) (sf_last s) clock) (\<lambda>(timestamp, clock).
                      Inr (timestamp, sequence, clock))
                 else Inr (timestamp, sequence, clock)
            else Inr (timestamp, 0, clock)) (\<lambda>(timestamp, sequence, clock).
     rbind (to_i64 (sint timestamp - sint TWEPOCH)) (\<lambda>since.
     rbind (shift_left TIMESTAMP_LEFT_SHIFT since) (\<lambda>time.
     rbind (shift_left DATACENTER_ID_SHIFT (sf_datacenter s)) (\<lambda>datacenter.
     rbind (shift_left WORKER_ID_SHIFT (sf_worker s)) (\<lambda>worker.
       Inr (time OR datacenter OR worker OR sequence,
            s \<lparr> sf_last := timestamp, sf_sequence := sequence \<rparr>, clock)))))))"

fun sf_ids :: "i64 \<Rightarrow> nat \<Rightarrow> snowflake \<Rightarrow> i64 list \<Rightarrow> (i64 list \<times> snowflake \<times> i64 list) res" where
  "sf_ids epoch 0 s clock = Inr ([], s, clock)"
| "sf_ids epoch (Suc n) s clock =
     rbind (sf_nextid epoch s clock) (\<lambda>(i, s, clock).
     rbind (sf_ids epoch n s clock) (\<lambda>(ids, s, clock). Inr (i # ids, s, clock)))"

section \<open>The parts of an id\<close>

lemma low_or:
  fixes x y :: int
  assumes "0 \<le> y" "y < 2 ^ n"
  shows "push_bit n x OR y = x * 2 ^ n + y"
proof -
  have y: "y = take_bit n y" using assms by (simp add: take_bit_int_eq_self)
  have "push_bit n x + y = push_bit n x OR y"
    by (subst y, subst y, rule disjunctive_add) (auto simp: bit_simps)
  then show ?thesis by (simp add: push_bit_eq_mult)
qed

lemma id_parts:
  fixes t d w q :: i64
  assumes "0 \<le> sint t" "sint t < 2 ^ 41" "0 \<le> sint d" "sint d < 32" "0 \<le> sint w" "sint w < 32"
    and "0 \<le> sint q" "sint q < 4096"
  shows "sint (push_bit 22 t OR push_bit 17 d OR push_bit 12 w OR q) =
    sint t * 2 ^ 22 + sint d * 2 ^ 17 + sint w * 2 ^ 12 + sint q"
proof -
  let ?w = "sint w * 2 ^ 12 + sint q" and ?d = "sint d * 2 ^ 17 + (sint w * 2 ^ 12 + sint q)"
  let ?v = "sint t * 2 ^ 22 + (sint d * 2 ^ 17 + (sint w * 2 ^ 12 + sint q))"
  have u: "uint t = sint t" "uint d = sint d" "uint w = sint w" "uint q = sint q"
    using assms uint_sint_nonneg by blast+
  have "uint (push_bit 22 t OR push_bit 17 d OR push_bit 12 w OR q) =
      take_bit 64 (push_bit 22 (sint t) OR push_bit 17 (sint d) OR push_bit 12 (sint w) OR uint q)"
    using bintr_uint [of 64 q]
    by (simp add: unsigned_or_eq unsigned_push_bit_eq take_bit_or u)
  also have "push_bit 22 (sint t) OR push_bit 17 (sint d) OR push_bit 12 (sint w) OR uint q = ?v"
    using assms u low_or [of "sint q" 12 "sint w"] low_or [of ?w 17 "sint d"] low_or [of ?d 22 "sint t"] by simp
  also have "take_bit 64 ?v = ?v" using assms by (intro take_bit_int_eq_self) simp_all
  finally have "uint (push_bit 22 t OR push_bit 17 d OR push_bit 12 w OR q) = ?v" .
  moreover have "signed_take_bit 63 ?v = ?v" using assms by (intro signed_take_bit_int_eq_self) simp_all
  ultimately show ?thesis by (simp add: sint_uint)
qed

lemma sequence_next:
  fixes q :: i64
  assumes "0 \<le> sint q" "sint q < 4096"
  shows "sint ((q + 1) AND SEQUENCE_MASK) = (sint q + 1) mod 4096"
proof -
  have m: "SEQUENCE_MASK = mask 12" by (simp add: SEQUENCE_MASK_def mask_eq_exp_minus_1)
  have "uint (q + 1) = sint q + 1"
    using uint_sint_nonneg [OF assms(1)] assms by (simp add: uint_word_ariths mod_pos_pos_trivial)
  then have u: "uint ((q + 1) AND SEQUENCE_MASK) = (sint q + 1) mod 4096"
    unfolding m take_bit_eq_mask [symmetric] unsigned_take_bit_eq by (simp add: take_bit_eq_mod)
  have "signed_take_bit 63 ((sint q + 1) mod 4096) = (sint q + 1) mod 4096"
    using pos_mod_bound [of 4096 "sint q + 1"] pos_mod_sign [of 4096 "sint q + 1"]
    by (intro signed_take_bit_int_eq_self) simp_all
  then show ?thesis using u by (simp add: sint_uint)
qed

section \<open>Runs of the generator\<close>

definition sf_ok :: "snowflake \<Rightarrow> bool" where
  "sf_ok s \<longleftrightarrow> 0 \<le> sint (sf_worker s) \<and> sint (sf_worker s) < 32 \<and>
     0 \<le> sint (sf_datacenter s) \<and> sint (sf_datacenter s) < 32 \<and>
     0 \<le> sint (sf_sequence s) \<and> sint (sf_sequence s) < 4096"

definition sf_id :: "i64 \<Rightarrow> snowflake \<Rightarrow> int" where
  "sf_id epoch s = (sint (sf_last s) - sint epoch) * 2 ^ 22 + sint (sf_datacenter s) * 2 ^ 17 +
     sint (sf_worker s) * 2 ^ 12 + sint (sf_sequence s)"

text \<open>The milliseconds the generator sees: ascending, from the epoch on and less than 2^41 behind it.\<close>

definition times :: "i64 \<Rightarrow> i64 list \<Rightarrow> int list" where
  "times start clock = map (\<lambda>d. sint start + sint d) clock"

definition times_ok :: "i64 \<Rightarrow> int \<Rightarrow> int list \<Rightarrow> bool" where
  "times_ok epoch lst ts \<longleftrightarrow> 0 \<le> sint epoch \<and> sorted (lst # ts) \<and>
     (\<forall>t \<in> set ts. sint epoch \<le> t \<and> t < sint epoch + 2 ^ 41 \<and> t < 2 ^ 63)"

lemma times_ok_Cons:
  "times_ok epoch l (t # ts) \<Longrightarrow> l \<le> t \<and> times_ok epoch t ts \<and> (\<forall>x \<in> set ts. t \<le> x) \<and>
     sint epoch \<le> t \<and> t < sint epoch + 2 ^ 41 \<and> t < 2 ^ 63 \<and> 0 \<le> sint epoch"
  by (auto simp: times_ok_def)

lemma to_i64_ok: "- (2 ^ 63) \<le> x \<Longrightarrow> x < 2 ^ 63 \<Longrightarrow> \<exists>w. to_i64 x = Inr w \<and> sint w = x"
  using to_i64_sint [of x] by (cases "to_i64 x") auto

text \<open>The number of times that are still to come.\<close>

definition ahead :: "int \<Rightarrow> int list \<Rightarrow> nat" where
  "ahead lst ts = card {t \<in> set ts. lst < t}"

lemma ahead_later: "lst < t \<Longrightarrow> \<forall>x \<in> set ts. t \<le> x \<Longrightarrow> ahead lst (t # ts) \<le> Suc (ahead t ts)"
proof -
  assume a: "lst < t" "\<forall>x \<in> set ts. t \<le> x"
  then have "{x \<in> set (t # ts). lst < x} \<subseteq> insert t {x \<in> set ts. t < x}" by force
  then have "card {x \<in> set (t # ts). lst < x} \<le> card (insert t {x \<in> set ts. t < x})" by (intro card_mono) simp_all
  also have "\<dots> \<le> Suc (card {x \<in> set ts. t < x})" by (rule card_insert_le_m1 [of "Suc _", simplified]) simp
  finally show ?thesis by (simp add: ahead_def)
qed

lemma ahead_same: "t \<le> lst \<Longrightarrow> ahead lst (t # ts) = ahead lst ts"
proof -
  assume "t \<le> lst"
  then have "{x \<in> set (t # ts). lst < x} = {x \<in> set ts. lst < x}" by auto
  then show ?thesis by (simp add: ahead_def)
qed

lemma sf_wait_ok:
  assumes "times_ok epoch l (times start clock)" "0 < ahead (sint lst) (times start clock)"
  shows "\<exists>t rest. sf_wait start lst clock = Inr (t, rest) \<and> sint lst < sint t \<and>
    sint epoch \<le> sint t \<and> sint t < sint epoch + 2 ^ 41 \<and> times_ok epoch (sint t) (times start rest) \<and>
    ahead (sint lst) (times start clock) \<le> Suc (ahead (sint t) (times start rest))"
  using assms
proof (induction clock arbitrary: l)
  case Nil
  then show ?case by (simp add: ahead_def times_def)
next
  case (Cons d clock)
  let ?t = "sint start + sint d"
  have ts: "times start (d # clock) = ?t # times start clock" by (simp add: times_def)
  note t = times_ok_Cons [OF Cons.prems(1) [unfolded ts]]
  obtain w where w: "to_i64 ?t = Inr w" "sint w = ?t" using to_i64_ok [of ?t] t by auto
  show ?case
  proof (cases "?t \<le> sint lst")
    case True
    then have "0 < ahead (sint lst) (times start clock)" using Cons.prems(2) ahead_same [OF True] ts by simp
    then show ?thesis using Cons.IH [of ?t] t True w ahead_same [OF True] unfolding ts by auto
  next
    case False
    then show ?thesis using w t ahead_later [of "sint lst" ?t "times start clock"] unfolding ts by auto
  qed
qed

lemma shift_left_ok: "0 \<le> sint x \<Longrightarrow> sint x * 2 ^ n < 2 ^ 64 \<Longrightarrow> shift_left n x = Inr (push_bit n x)"
  by (simp add: shift_left_def)

lemmas shift_defs = TIMESTAMP_LEFT_SHIFT_def DATACENTER_ID_SHIFT_def WORKER_ID_SHIFT_def

text \<open>The end of \<open>nextid\<close>, once the time and the sequence number are known.\<close>

lemma sf_compose:
  assumes "sf_ok s" "0 \<le> sint q" "sint q < 4096" "sint epoch \<le> sint t" "sint t < sint epoch + 2 ^ 41" "0 \<le> sint epoch"
  shows "\<exists>i. rbind (to_i64 (sint t - sint epoch)) (\<lambda>since.
     rbind (shift_left TIMESTAMP_LEFT_SHIFT since) (\<lambda>time.
     rbind (shift_left DATACENTER_ID_SHIFT (sf_datacenter s)) (\<lambda>datacenter.
     rbind (shift_left WORKER_ID_SHIFT (sf_worker s)) (\<lambda>worker.
       Inr (time OR datacenter OR worker OR q, s \<lparr> sf_last := t, sf_sequence := q \<rparr>, clock))))) =
     Inr (i, s \<lparr> sf_last := t, sf_sequence := q \<rparr>, clock) \<and> sint i = sf_id epoch (s \<lparr> sf_last := t, sf_sequence := q \<rparr>)"
proof -
  obtain d where d: "to_i64 (sint t - sint epoch) = Inr d" "sint d = sint t - sint epoch"
    using to_i64_ok [of "sint t - sint epoch"] assms by auto
  have s: "0 \<le> sint (sf_worker s)" "sint (sf_worker s) < 32" "0 \<le> sint (sf_datacenter s)" "sint (sf_datacenter s) < 32"
    using assms(1) by (simp_all add: sf_ok_def)
  then show ?thesis
    using assms(2-5) d id_parts [of d "sf_datacenter s" "sf_worker s" q]
    by (simp add: shift_left_ok shift_defs sf_id_def)
qed

text \<open>One id. The pair of time and sequence number grows, and with it the id.\<close>

lemma sf_step:
  assumes "sf_ok s" "times_ok epoch (sint (sf_last s)) (times (sf_start s) clock)"
    and "0 < ahead (sint (sf_last s)) (times (sf_start s) clock)"
  shows "\<exists>i s' rest. sf_nextid epoch s clock = Inr (i, s', rest) \<and> sf_ok s' \<and> sint i = sf_id epoch s' \<and>
    sf_id epoch s < sf_id epoch s' \<and> sf_start s' = sf_start s \<and> sf_worker s' = sf_worker s \<and>
    sf_datacenter s' = sf_datacenter s \<and> times_ok epoch (sint (sf_last s')) (times (sf_start s) rest) \<and>
    ahead (sint (sf_last s)) (times (sf_start s) clock) \<le> Suc (ahead (sint (sf_last s')) (times (sf_start s) rest))"
proof (cases clock)
  case Nil
  then show ?thesis using assms(3) by (simp add: ahead_def times_def)
next
  case (Cons d ds)
  let ?l = "sint (sf_last s)" and ?t = "sint (sf_start s) + sint d"
  have ts: "times (sf_start s) clock = ?t # times (sf_start s) ds" by (simp add: Cons times_def)
  note t = times_ok_Cons [OF assms(2) [unfolded ts]]
  obtain w where w: "to_i64 ?t = Inr w" "sint w = ?t" using to_i64_ok [of ?t] t by auto
  have q: "0 \<le> sint (sf_sequence s)" "sint (sf_sequence s) < 4096" using assms(1) by (simp_all add: sf_ok_def)
  let ?q = "(sf_sequence s + 1) AND SEQUENCE_MASK"
  have grow: "sf_id epoch s < sf_id epoch (s \<lparr> sf_last := w', sf_sequence := q' \<rparr>)"
    if "?l < sint w' \<or> ?l = sint w' \<and> sint (sf_sequence s) < sint q'" "0 \<le> sint q'" for w' q'
    using that q by (auto simp: sf_id_def)
  have epoch: "0 \<le> sint epoch" "sint epoch \<le> sint w" "sint w < sint epoch + 2 ^ 41" using t w by simp_all
  show ?thesis
  proof (cases "sf_last s = w")
    case False
    then have lt: "?l < sint w" using t w(2) by (metis order_le_less signed_word_eqI)
    let ?s = "s \<lparr> sf_last := w, sf_sequence := 0 \<rparr>"
    obtain i where "sf_nextid epoch s clock = Inr (i, ?s, ds)" "sint i = sf_id epoch ?s"
      using sf_compose [OF assms(1), of 0 epoch w ds] epoch False w(1) by (auto simp: sf_nextid_def Cons)
    moreover have "sf_ok ?s" using assms(1) by (simp add: sf_ok_def)
    ultimately show ?thesis
      using grow [of w 0] lt t w(2) ahead_later [of ?l ?t "times (sf_start s) ds"] unfolding ts
      by (intro exI [of _ i] exI [of _ ?s] exI [of _ ds]) simp
  next
    case True
    then have l: "?l = ?t" using w(2) by simp
    have same: "ahead ?l (times (sf_start s) clock) = ahead ?l (times (sf_start s) ds)"
      unfolding ts using ahead_same [of ?t ?l] l by simp
    show ?thesis
    proof (cases "?q = 0")
      case False
      then have q': "sint ?q = sint (sf_sequence s) + 1"
        using sequence_next [OF q] q by (cases "sint (sf_sequence s) = 4095") (auto simp: mod_pos_pos_trivial signed_eq_0_iff)
      let ?s = "s \<lparr> sf_last := w, sf_sequence := ?q \<rparr>"
      have q2: "0 \<le> sint ?q" "sint ?q < 4096" using sequence_next [OF q] by simp_all
      obtain i where "sf_nextid epoch s clock = Inr (i, ?s, ds)" "sint i = sf_id epoch ?s"
        using sf_compose [OF assms(1) q2, of epoch w ds] epoch True False w(1) by (auto simp: sf_nextid_def Cons Let_def)
      moreover have "sf_ok ?s" using assms(1) q2 by (simp add: sf_ok_def)
      ultimately show ?thesis
        using grow [of w ?q] q' q2 t l w(2) same
        by (intro exI [of _ i] exI [of _ ?s] exI [of _ ds]) simp
    next
      case q0: True
      have "0 < ahead ?l (times (sf_start s) ds)" using assms(3) same by simp
      then obtain v rest where v: "sf_wait (sf_start s) (sf_last s) ds = Inr (v, rest)" "?l < sint v"
          "sint epoch \<le> sint v" "sint v < sint epoch + 2 ^ 41" "times_ok epoch (sint v) (times (sf_start s) rest)"
          "ahead ?l (times (sf_start s) ds) \<le> Suc (ahead (sint v) (times (sf_start s) rest))"
        using sf_wait_ok [of epoch ?t "sf_start s" ds "sf_last s"] t by auto
      let ?s = "s \<lparr> sf_last := v, sf_sequence := 0 \<rparr>"
      obtain i where "sf_nextid epoch s clock = Inr (i, ?s, rest)" "sint i = sf_id epoch ?s"
        using sf_compose [OF assms(1), of 0 epoch v rest] v(1,3,4) epoch(1) True q0 w(1)
        by (auto simp: sf_nextid_def Cons Let_def)
      moreover have "sf_ok ?s" using assms(1) by (simp add: sf_ok_def)
      ultimately show ?thesis
        using grow [of v 0] v same by (intro exI [of _ i] exI [of _ ?s] exI [of _ rest]) simp
    qed
  qed
qed

lemma sf_ids_ok:
  assumes "sf_ok s" "times_ok epoch (sint (sf_last s)) (times (sf_start s) clock)"
    and "n \<le> ahead (sint (sf_last s)) (times (sf_start s) clock)"
  shows "\<exists>ids s' rest. sf_ids epoch n s clock = Inr (ids, s', rest) \<and> length ids = n \<and>
    sorted_wrt (<) (sf_id epoch s # map sint ids) \<and>
    (\<forall>i \<in> set ids. sint i div 2 ^ 12 mod 2 ^ 10 = sint (sf_datacenter s) * 2 ^ 5 + sint (sf_worker s))"
  using assms
proof (induction n arbitrary: s clock)
  case (Suc n)
  obtain i s' rest where i: "sf_nextid epoch s clock = Inr (i, s', rest)" "sf_ok s'" "sint i = sf_id epoch s'"
      "sf_id epoch s < sf_id epoch s'" "sf_start s' = sf_start s" "sf_worker s' = sf_worker s"
      "sf_datacenter s' = sf_datacenter s" "times_ok epoch (sint (sf_last s')) (times (sf_start s) rest)"
      "n \<le> ahead (sint (sf_last s')) (times (sf_start s) rest)"
    using sf_step [OF Suc.prems(1,2)] Suc.prems(3) by fastforce
  obtain ids s2 r2 where ids: "sf_ids epoch n s' rest = Inr (ids, s2, r2)" "length ids = n"
      "sorted_wrt (<) (sf_id epoch s' # map sint ids)"
      "\<forall>i \<in> set ids. sint i div 2 ^ 12 mod 2 ^ 10 = sint (sf_datacenter s) * 2 ^ 5 + sint (sf_worker s)"
    using Suc.IH [OF i(2), of rest] i(5-9) by auto
  have "sint i div 2 ^ 12 mod 2 ^ 10 = sint (sf_datacenter s) * 2 ^ 5 + sint (sf_worker s)"
  proof -
    let ?t = "sint (sf_last s') - sint epoch" and ?d = "sint (sf_datacenter s)" and ?w = "sint (sf_worker s)"
    have r: "0 \<le> ?d" "?d < 32" "0 \<le> ?w" "?w < 32" "0 \<le> sint (sf_sequence s')" "sint (sf_sequence s') < 4096"
      using i(2,6,7) by (simp_all add: sf_ok_def)
    have "sint i = (?t * 2 ^ 10 + (?d * 2 ^ 5 + ?w)) * 2 ^ 12 + sint (sf_sequence s')"
      unfolding i(3) sf_id_def i(6,7) by (simp add: algebra_simps)
    then have "sint i div 2 ^ 12 = ?t * 2 ^ 10 + (?d * 2 ^ 5 + ?w)" using r by simp
    also have "\<dots> mod 2 ^ 10 = (?d * 2 ^ 5 + ?w) mod 2 ^ 10" by (rule mod_mult_self3)
    also have "\<dots> = ?d * 2 ^ 5 + ?w" using r by (intro mod_pos_pos_trivial) simp_all
    finally show ?thesis .
  qed
  then show ?case using i(1,3,4) ids by auto
qed simp

text \<open>
  C21. A generator made for a worker and a data centre returns as many ids as asked for, as long as
  the clock goes through as many milliseconds: it waits for the next one when the 4096 numbers of one
  are used up. The ids are strictly increasing, and each holds the numbers of its worker and its data
  centre, so no two generators that differ in them ever return the same id. The clock must not run
  backwards and must show times from the epoch on, less than 2^41 milliseconds behind it.
\<close>

theorem snowflake_ids:
  assumes "sf_init worker datacenter (sf_new start) = Inr s" "0 \<le> sint epoch" "sorted (map sint clock)"
    and "\<forall>d \<in> set clock. sint epoch \<le> sint start + sint d \<and> sint start + sint d < sint epoch + 2 ^ 41 \<and>
      sint start + sint d < 2 ^ 63"
    and "n \<le> card (set clock)"
  shows "\<exists>ids s' rest. sf_ids epoch n s clock = Inr (ids, s', rest) \<and> length ids = n \<and>
    sorted_wrt (<) (map sint ids) \<and>
    (\<forall>i \<in> set ids. sint i div 2 ^ 12 mod 2 ^ 10 = sint datacenter * 2 ^ 5 + sint worker)"
proof -
  have s: "s = (sf_new start) \<lparr> sf_worker := worker, sf_datacenter := datacenter \<rparr>" "sf_ok s"
    using assms(1)
    by (auto simp: sf_init_def sf_ok_def sf_new_def MAX_WORKER_ID_def MAX_DATACENTER_ID_def split: if_splits)
  have l: "sint (sf_last s) = - 1" "sf_start s = start" by (simp_all add: s(1) sf_new_def)
  have "sorted (times start clock)" using assms(3) by (simp add: times_def sorted_map)
  then have ok: "times_ok epoch (- 1) (times start clock)"
    using assms(2,4) by (auto simp: times_ok_def times_def)
  have "{t \<in> set (times start clock). - 1 < t} = (\<lambda>d. sint start + sint d) ` set clock"
    using assms(2,4) by (fastforce simp: times_def)
  moreover have "inj_on (\<lambda>d :: i64. sint start + sint d) (set clock)"
    by (auto simp: inj_on_def intro: signed_word_eqI)
  ultimately have "ahead (- 1) (times start clock) = card (set clock)" by (simp add: ahead_def card_image)
  then show ?thesis
    using sf_ids_ok [OF s(2), of epoch clock n] ok l assms(5) by (auto simp: s(1))
qed

theorem snowflake_ids_witness:
  "\<exists>ids s' rest. sf_ids 1000 2 ((sf_new 1500) \<lparr> sf_worker := 3, sf_datacenter := 1 \<rparr>) [7, 7, 8] = Inr (ids, s', rest) \<and>
     length ids = 2 \<and> sorted_wrt (<) (map sint ids) \<and> (\<forall>i \<in> set ids. sint i div 2 ^ 12 mod 2 ^ 10 = 35)"
proof -
  have "sf_init 3 1 (sf_new 1500) = Inr ((sf_new 1500) \<lparr> sf_worker := 3, sf_datacenter := 1 \<rparr>)"
    by (simp add: sf_init_def MAX_WORKER_ID_def MAX_DATACENTER_ID_def)
  from snowflake_ids [OF this, of 1000 "[7, 7, 8]" 2] show ?thesis by simp
qed

end
