(* ===== verification/Descriptor.thy ===== *)
theory Descriptor
  imports Tuple_Record Table_Key
begin

text \<open>
  The descriptors of \<open>db/descriptor.h\<close> and \<open>db/descriptor.cpp\<close>: fields, indexes, tables and databases, their
  serialized form over the tuple format, and what is appended to a key for a field.

  A \<open>std::string\<close> is its bytes. A \<open>std::map\<close> is the list of its items in the order of the keys. Descriptors
  behind shared pointers are values: nothing changes a table descriptor once the database has it.
  The printing operators are left out. \<open>fmt\<close> and \<open>atof\<close> are the libc conversions of \<open>Tuple_Value\<close>.
\<close>

section \<open>Fields\<close>

definition kMetaDatabaseId :: u32 where "kMetaDatabaseId = 1001"
definition kMetaTableId :: u32 where "kMetaTableId = 1002"

text \<open>
  \<open>FieldType\<close> has the underlying type \<open>uint16_t\<close>, and \<open>deserialize\<close> casts any number to it, so a type is a
  16-bit word; these are the enumerators.
\<close>

definition FT_None :: u16 where "FT_None = 0"
definition FT_Float64 :: u16 where "FT_Float64 = 1"
definition FT_Float32 :: u16 where "FT_Float32 = 2"
definition FT_Int64 :: u16 where "FT_Int64 = 3"
definition FT_Int32 :: u16 where "FT_Int32 = 4"
definition FT_Int16 :: u16 where "FT_Int16 = 5"
definition FT_Int8 :: u16 where "FT_Int8 = 6"
definition FT_FixedString :: u16 where "FT_FixedString = 7"
definition FT_String :: u16 where "FT_String = 8"
definition FT_DateTime :: u16 where "FT_DateTime = 9"
definition FT_UInt64 :: u16 where "FT_UInt64 = 11"
definition FT_UInt32 :: u16 where "FT_UInt32 = 12"
definition FT_UInt16 :: u16 where "FT_UInt16 = 13"
definition FT_UInt8 :: u16 where "FT_UInt8 = 14"

lemmas field_types = FT_None_def FT_Float64_def FT_Float32_def FT_Int64_def FT_Int32_def FT_Int16_def
  FT_Int8_def FT_FixedString_def FT_String_def FT_DateTime_def FT_UInt64_def FT_UInt32_def FT_UInt16_def
  FT_UInt8_def

definition FLAG_PrimaryKey :: u16 where "FLAG_PrimaryKey = 0x01"

record field_descriptor =
  fd_name :: bytes
  fd_id :: u16
  fd_type :: u16
  fd_flags :: u16
  fd_len :: u32
  fd_comment :: bytes
  fd_extra :: bytes

definition fd_new :: field_descriptor where
  "fd_new = \<lparr> fd_name = [], fd_id = 0, fd_type = FT_None, fd_flags = 0, fd_len = 0, fd_comment = [], fd_extra = [] \<rparr>"

definition fd_is_unsigned :: "field_descriptor \<Rightarrow> bool" where
  "fd_is_unsigned fd \<longleftrightarrow> fd_flags fd AND 0x04 \<noteq> 0"

text \<open>\<open>Value(std::string)\<close> throws on 2^24 - 1 bytes or more.\<close>

definition fd_serialize :: "field_descriptor \<Rightarrow> tuple_object \<Rightarrow> tuple_object res" where
  "fd_serialize fd out =
     rbind (set_string (fd_name fd)) (\<lambda>n.
       let out = tuple_insert out 1 n;
           out = tuple_insert out 2 (set_int (ucast (fd_id fd)));
           out = tuple_insert out 3 (set_int (ucast (fd_type fd)));
           out = tuple_insert out 4 (set_int (ucast (fd_flags fd)));
           out = tuple_insert out 5 (set_uint32 (fd_len fd)) in
       rbind (set_string (fd_comment fd)) (\<lambda>c.
         let out = tuple_insert out 6 c in
         rbind (set_string (fd_extra fd)) (\<lambda>x. Inr (tuple_insert out 7 x))))"

text \<open>\<open>if (in.has(t))\<close> with a body that uses \<open>in.get(t)\<close>.\<close>

definition on_tag :: "tuple_object \<Rightarrow> int \<Rightarrow> (val \<Rightarrow> 'a \<Rightarrow> 'a res) \<Rightarrow> 'a \<Rightarrow> 'a res" where
  "on_tag m t f d = (case tuple_get m t of None \<Rightarrow> Inr d | Some v \<Rightarrow> f v d)"

definition fd_deserialize :: "(u64 \<Rightarrow> bytes) \<Rightarrow> tuple_object \<Rightarrow> field_descriptor \<Rightarrow> field_descriptor res" where
  "fd_deserialize fmt m d =
     rbind (on_tag m 1 (\<lambda>v d. Inr (d\<lparr> fd_name := val_to_string fmt v \<rparr>)) d) (\<lambda>d.
     rbind (on_tag m 2 (\<lambda>v d. rbind (to_i32 v) (\<lambda>i. Inr (d\<lparr> fd_id := ucast i \<rparr>))) d) (\<lambda>d.
     rbind (on_tag m 3 (\<lambda>v d. rbind (to_i32 v) (\<lambda>i. Inr (d\<lparr> fd_type := ucast i \<rparr>))) d) (\<lambda>d.
     rbind (on_tag m 4 (\<lambda>v d. rbind (to_i32 v) (\<lambda>i. Inr (d\<lparr> fd_flags := ucast i \<rparr>))) d) (\<lambda>d.
     rbind (on_tag m 5 (\<lambda>v d. rbind (to_i32 v) (\<lambda>i. Inr (d\<lparr> fd_len := i \<rparr>))) d) (\<lambda>d.
     rbind (on_tag m 6 (\<lambda>v d. Inr (d\<lparr> fd_comment := val_to_string fmt v \<rparr>)) d) (\<lambda>d.
     on_tag m 7 (\<lambda>v d. Inr (d\<lparr> fd_extra := val_to_string fmt v \<rparr>)) d))))))"

text \<open>The number of bytes of a field in a key: 0 for strings, -1 for types that are not supported.\<close>

definition field_fixed_size :: "field_descriptor \<Rightarrow> int" where
  "field_fixed_size fd =
     (let t = fd_type fd in
      if t = FT_Int8 \<or> t = FT_UInt8 then 1
      else if t = FT_Int16 \<or> t = FT_UInt16 then 2
      else if t = FT_Int32 \<or> t = FT_UInt32 then 4
      else if t = FT_Int64 \<or> t = FT_UInt64 then 8
      else if t = FT_Float32 then 4
      else if t = FT_Float64 then 8
      else if t = FT_FixedString then sint (fd_len fd)
      else if t = FT_String then 0
      else -1)"

section \<open>Values of fields\<close>

text \<open>
  \<open>static_cast<float>\<close> of a \<open>double\<close>: the nearest \<open>float\<close>, ties to the even one, infinity beyond the greatest,
  as IEEE 754 has it.
\<close>

definition round_div :: "nat \<Rightarrow> nat \<Rightarrow> nat" where
  "round_div m k =
     (let q = m div 2 ^ k; r = m mod 2 ^ k
      in if 2 * r > 2 ^ k \<or> 2 * r = 2 ^ k \<and> odd q then q + 1 else q)"

definition f32_of_f64 :: "u64 \<Rightarrow> u32" where
  "f32_of_f64 w =
     (let s = (if bit w 63 then 0x80000000 else 0);
          e = nat (uint (drop_bit 52 w AND 0x7ff));
          f = nat (uint (w AND 0xfffffffffffff)) in
      if e = 0x7ff then
        (if f = 0 then s OR 0x7f800000 else s OR 0x7fc00000 OR word_of_nat (f div 2 ^ 29))
      else if e = 0 then s
      else if e \<ge> 897 then s OR word_of_nat (min 0x7f800000 ((e - 897) * 2 ^ 23 + round_div (f + 2 ^ 52) 29))
      else s OR word_of_nat (round_div (f + 2 ^ 52) (29 + (897 - e))))"

text \<open>\<open>field_append_value\<close> always returns 0; types it has no case for append nothing.\<close>

definition field_append_value ::
    "(bytes \<Rightarrow> u64) \<Rightarrow> bool \<Rightarrow> field_descriptor \<Rightarrow> val \<Rightarrow> mut_key \<Rightarrow> mut_key res" where
  "field_append_value atof big fd v key =
     (let t = fd_type fd in
      if t = FT_Int8 then rbind (to_i32 v) (\<lambda>i. append_i8 key (ucast i))
      else if t = FT_Int16 then rbind (to_long v) (\<lambda>i. append_i16 big key (ucast i))
      else if t = FT_Int32 then rbind (to_long v) (\<lambda>i. append_i32 big key (ucast i))
      else if t = FT_Int64 then rbind (to_long v) (append_i64 big key)
      else if t = FT_UInt64 then rbind (to_ulong v) (append_u64 big key)
      else if t = FT_Float32 then append_float big key (f32_of_f64 (to_double atof v))
      else if t = FT_Float64 then append_double big key (to_double atof v)
      else if t = FT_FixedString then
        rbind (value_slice big v) (\<lambda>s. append_fixed_char key s (unat (fd_len fd)))
      else if t = FT_String then rbind (value_slice big v) (append_string key)
      else Inr key)"

text \<open>The default of a column that a row does not have; \<open>v\<close> is the value before, \<open>set_value("")\<close> a string.\<close>

definition field_default_value :: "field_descriptor \<Rightarrow> val \<Rightarrow> val" where
  "field_default_value fd v =
     (let t = fd_type fd in
      if t = FT_Int8 \<or> t = FT_Int16 \<or> t = FT_Int32 \<or> t = FT_Int64 then set_int 0
      else if t = FT_Float32 \<or> t = FT_Float64 then set_double 0
      else if t = FT_FixedString \<or> t = FT_String then VString []
      else v)"

section \<open>Tuples and indexes\<close>

record tuple_descriptor =
  tp_id :: u16
  tp_type :: u16
  tp_name :: bytes

definition tp_serialize :: "bool \<Rightarrow> tuple_descriptor \<Rightarrow> bytes \<Rightarrow> (int \<times> bytes) res" where
  "tp_serialize big d out =
     rbind (set_string (tp_name d)) (\<lambda>n.
       let obj = tuple_insert tuple_new 1 (set_int (ucast (tp_id d)));
           obj = tuple_insert obj 2 (set_int (ucast (tp_type d)));
           obj = tuple_insert obj 3 n
       in tuple_serialize big obj 0 out)"

definition tp_deserialize :: "(u64 \<Rightarrow> bytes) \<Rightarrow> bool \<Rightarrow> bytes \<Rightarrow> tuple_descriptor \<Rightarrow> tuple_descriptor res" where
  "tp_deserialize fmt big bs d =
     rbind (tuple_deserialize big bs tuple_new) (\<lambda>obj.
     rbind (on_tag obj 1 (\<lambda>v d. rbind (to_i32 v) (\<lambda>i. Inr (d\<lparr> tp_id := ucast i \<rparr>))) d) (\<lambda>d.
     rbind (on_tag obj 2 (\<lambda>v d. rbind (to_i32 v) (\<lambda>i. Inr (d\<lparr> tp_type := ucast i \<rparr>))) d) (\<lambda>d.
     on_tag obj 3 (\<lambda>v d. Inr (d\<lparr> tp_name := val_to_string fmt v \<rparr>)) d)))"

record index_descriptor =
  ix_id :: u16
  ix_type :: u16
  ix_fields :: "u16 list"
  ix_name :: bytes

definition ix_new :: index_descriptor where
  "ix_new = \<lparr> ix_id = 0, ix_type = 0, ix_fields = [], ix_name = [] \<rparr>"

definition ix_is_primary_key :: "index_descriptor \<Rightarrow> bool" where
  "ix_is_primary_key d \<longleftrightarrow> 0x01 = ix_type d"

definition ids_memory :: "bool \<Rightarrow> u16 list \<Rightarrow> bytes" where
  "ids_memory big ids = concat (map (host_bytes big 2) ids)"

text \<open>Of the ids of the fields, \<open>serialize\<close> writes as many bytes as there are ids.\<close>

definition ix_serialize :: "bool \<Rightarrow> index_descriptor \<Rightarrow> bytes \<Rightarrow> (int \<times> bytes) res" where
  "ix_serialize big d out =
     rbind (set_string (ix_name d)) (\<lambda>n.
     rbind (set_bytes (ids_memory big (ix_fields d)) (length (ix_fields d))) (\<lambda>fs.
       let obj = tuple_insert tuple_new 1 (set_int (ucast (ix_id d)));
           obj = tuple_insert obj 2 (set_int (ucast (ix_type d)));
           obj = tuple_insert obj 3 n;
           obj = tuple_insert obj 4 fs
       in tuple_serialize big obj 0 out))"

definition ix_deserialize :: "(u64 \<Rightarrow> bytes) \<Rightarrow> bool \<Rightarrow> bytes \<Rightarrow> index_descriptor \<Rightarrow> index_descriptor res" where
  "ix_deserialize fmt big bs d =
     rbind (tuple_deserialize big bs tuple_new) (\<lambda>obj.
     rbind (on_tag obj 1 (\<lambda>v d. rbind (to_i32 v) (\<lambda>i. Inr (d\<lparr> ix_id := ucast i \<rparr>))) d) (\<lambda>d.
     rbind (on_tag obj 2 (\<lambda>v d. rbind (to_i32 v) (\<lambda>i. Inr (d\<lparr> ix_type := ucast i \<rparr>))) d) (\<lambda>d.
     rbind (on_tag obj 3 (\<lambda>v d. Inr (d\<lparr> ix_name := val_to_string fmt v \<rparr>)) d) (\<lambda>d.
     on_tag obj 4 (\<lambda>v d. rbind (value_slice big v) (\<lambda>bs.
       Inr (d\<lparr> ix_fields := ix_fields d @ map ucast bs \<rparr>))) d))))"

text \<open>\<open>fs\<close> is the map of the fields of the table.\<close>

fun sum_sizes :: "u16 list \<Rightarrow> (int \<times> field_descriptor) list \<Rightarrow> int \<Rightarrow> int res" where
  "sum_sizes [] fs ksz = Inr ksz"
| "sum_sizes (i # ids) fs ksz =
     (case map_of fs (uint i) of
        None \<Rightarrow> Inr (-1)
      | Some fd \<Rightarrow> rbind (int32 (ksz + field_fixed_size fd)) (sum_sizes ids fs))"

definition ix_key_size :: "index_descriptor \<Rightarrow> (int \<times> field_descriptor) list \<Rightarrow> int res" where
  "ix_key_size d fs = sum_sizes (ix_fields d) fs 0"

section \<open>Tables\<close>

record table_descriptor =
  td_id :: u32
  td_version :: u32
  td_name :: bytes
  td_comment :: bytes
  td_fields :: "(int \<times> field_descriptor) list"
  td_last_fid :: u16
  td_status :: i32
  td_indexs :: "index_descriptor list"
  td_primarykey :: "index_descriptor option"

text \<open>\<open>std::make_shared<TableDescriptor>()\<close>, which also sets the numbers without an initializer to zero.\<close>

definition td_new :: table_descriptor where
  "td_new = \<lparr> td_id = 0, td_version = 0, td_name = [], td_comment = [], td_fields = [], td_last_fid = 0,
     td_status = 0, td_indexs = [], td_primarykey = None \<rparr>"

definition td_set_primary_key :: "u16 list \<Rightarrow> table_descriptor \<Rightarrow> table_descriptor" where
  "td_set_primary_key ids d = d\<lparr> td_primarykey := Some (ix_new\<lparr> ix_fields := ids, ix_type := 1 \<rparr>) \<rparr>"

definition td_add_field :: "field_descriptor \<Rightarrow> table_descriptor \<Rightarrow> table_descriptor" where
  "td_add_field p d = d\<lparr> td_fields := map_assign (uint (fd_id p)) p (td_fields d) \<rparr>"

definition td_next_id :: "table_descriptor \<Rightarrow> u16 \<times> table_descriptor" where
  "td_next_id d = (td_last_fid d + 1, d\<lparr> td_last_fid := td_last_fid d + 1 \<rparr>)"

definition td_get_index_by_name :: "table_descriptor \<Rightarrow> bytes \<Rightarrow> index_descriptor option" where
  "td_get_index_by_name d n = find (\<lambda>ix. ix_name ix = n) (td_indexs d)"

definition td_get_index_by_id :: "table_descriptor \<Rightarrow> int \<Rightarrow> index_descriptor option" where
  "td_get_index_by_id d i = find (\<lambda>ix. uint (ix_id ix) = i) (td_indexs d)"

definition get_field_by_name :: "(int \<times> field_descriptor) list \<Rightarrow> bytes \<Rightarrow> field_descriptor option" where
  "get_field_by_name fs n = map_option snd (find (\<lambda>x. fd_name (snd x) = n) fs)"

definition get_field_by_id :: "(int \<times> field_descriptor) list \<Rightarrow> int \<Rightarrow> field_descriptor option" where
  "get_field_by_id fs i = map_of fs i"

definition td_get_field_id :: "table_descriptor \<Rightarrow> bytes \<Rightarrow> int" where
  "td_get_field_id d n =
     (case find (\<lambda>x. fd_name (snd x) = n) (td_fields d) of None \<Rightarrow> -1 | Some x \<Rightarrow> uint (fd_id (snd x)))"

definition td_get_fields_name :: "table_descriptor \<Rightarrow> bytes list" where
  "td_get_fields_name d = map (\<lambda>x. fd_name (snd x)) (td_fields d)"

text \<open>
  \<open>get_index_key_info\<close> takes its result vector by value: what it collects is lost, and only the exception
  of \<open>fields.at\<close> is seen outside. \<open>index_key_loop\<close> is the loop over the caller's vector.
\<close>

fun get_index_key_info :: "(int \<times> field_descriptor) list \<Rightarrow> u16 list \<Rightarrow> field_descriptor list \<Rightarrow> int res" where
  "get_index_key_info fs [] infos = Inr 0"
| "get_index_key_info fs (i # ids) infos =
     (case map_of fs (uint i) of
        None \<Rightarrow> Inl OutOfRange
      | Some fd \<Rightarrow> get_index_key_info fs ids (infos @ [fd]))"

definition get_primary_key_info :: "table_descriptor \<Rightarrow> field_descriptor list \<Rightarrow> int res" where
  "get_primary_key_info d infos =
     (case td_primarykey d of
        None \<Rightarrow> Inl MemFault
      | Some pk \<Rightarrow> get_index_key_info (td_fields d) (ix_fields pk) infos)"

fun index_key_loop ::
    "(bytes \<Rightarrow> u64) \<Rightarrow> bool \<Rightarrow> field_descriptor list \<Rightarrow> tuple_object \<Rightarrow> mut_key \<Rightarrow> (int \<times> mut_key) res" where
  "index_key_loop atof big [] obj key = Inr (0, key)"
| "index_key_loop atof big (fd # infos) obj key =
     (case tuple_get obj (uint (fd_id fd)) of
        None \<Rightarrow> Inr (-1, key)
      | Some v \<Rightarrow> rbind (field_append_value atof big fd v key) (index_key_loop atof big infos obj))"

definition td_get_index_key ::
    "(bytes \<Rightarrow> u64) \<Rightarrow> bool \<Rightarrow> table_descriptor \<Rightarrow> u16 list \<Rightarrow> tuple_object \<Rightarrow> mut_key \<Rightarrow> (int \<times> mut_key) res" where
  "td_get_index_key atof big d ids obj key =
     (let infos = [] in
      rbind (get_index_key_info (td_fields d) ids infos) (\<lambda>rc.
        if rc \<noteq> 0 then Inr (rc, key) else index_key_loop atof big infos obj key))"

definition td_get_primary_key ::
    "(bytes \<Rightarrow> u64) \<Rightarrow> bool \<Rightarrow> table_descriptor \<Rightarrow> tuple_object \<Rightarrow> mut_key \<Rightarrow> (int \<times> mut_key) res" where
  "td_get_primary_key atof big d obj key =
     (let infos = [] in
      rbind (get_primary_key_info d infos) (\<lambda>rc.
        if rc \<noteq> 0 then Inr (rc, key) else index_key_loop atof big infos obj key))"

text \<open>
  \<open>serialize\<close> moves the object for the fields into the tuple before it fills it: the loop fills a local
  object that is dropped at the end, and only its exceptions are seen.
\<close>

fun fields_object :: "(int \<times> field_descriptor) list \<Rightarrow> tuple_object \<Rightarrow> tuple_object res" where
  "fields_object [] sub = Inr sub"
| "fields_object ((k, fd) # fs) sub =
     rbind (fd_serialize fd tuple_new) (\<lambda>item. fields_object fs (tuple_insert_object sub k item))"

definition td_object :: "bool \<Rightarrow> table_descriptor \<Rightarrow> tuple_object res" where
  "td_object big d =
     (let obj = tuple_insert tuple_new 1 (set_uint32 (td_id d));
          obj = tuple_insert obj 2 (set_uint32 (td_version d)) in
      rbind (set_string (td_name d)) (\<lambda>n.
      let obj = tuple_insert obj 3 n in
      rbind (set_string (td_comment d)) (\<lambda>c.
      let obj = tuple_insert obj 4 c in
      case td_primarykey d of
        None \<Rightarrow> Inl MemFault
      | Some pk \<Rightarrow>
          rbind (set_bytes (ids_memory big (ix_fields pk)) (length (ix_fields pk) * 2)) (\<lambda>ids.
          let obj = tuple_insert obj 5 ids;
              subobj = tuple_new;
              obj = tuple_insert_object obj 6 subobj in
          rbind (fields_object (td_fields d) tuple_new) (\<lambda>_.
            Inr (tuple_insert obj 7 (set_int (ucast (td_last_fid d)))))))))"

definition td_serialize :: "bool \<Rightarrow> table_descriptor \<Rightarrow> bytes \<Rightarrow> (int \<times> bytes) res" where
  "td_serialize big d out = rbind (td_object big d) (\<lambda>obj. tuple_serialize big obj 0 out)"

definition td_get_val :: "bool \<Rightarrow> table_descriptor \<Rightarrow> bytes res" where
  "td_get_val big d = rbind (td_serialize big d []) (\<lambda>(_, out). Inr out)"

text \<open>The block of both descriptors that reads one field descriptor from the object under tag 6.\<close>

definition read_one_field ::
    "(u64 \<Rightarrow> bytes) \<Rightarrow> val \<Rightarrow> (int \<times> field_descriptor) list \<Rightarrow> (int \<times> field_descriptor) list res" where
  "read_one_field fmt v fs =
     rbind (as_object v) (\<lambda>p.
       case p of
         PArray _ \<Rightarrow> Inl MemFault
       | PObject sub \<Rightarrow> rbind (fd_deserialize fmt sub fd_new) (\<lambda>field.
           Inr (map_emplace (uint (fd_id field)) field fs)))"

text \<open>The ids of the key are read as \<open>char\<close>s, one for each two bytes; \<open>last_fid\<close> is read from tag 1.\<close>

definition td_deserialize :: "(u64 \<Rightarrow> bytes) \<Rightarrow> bool \<Rightarrow> bytes \<Rightarrow> table_descriptor \<Rightarrow> table_descriptor res" where
  "td_deserialize fmt big bs d =
     rbind (tuple_deserialize big bs tuple_new) (\<lambda>obj.
     rbind (on_tag obj 1 (\<lambda>v d. rbind (to_i32 v) (\<lambda>i. Inr (d\<lparr> td_id := i \<rparr>))) d) (\<lambda>d.
     rbind (on_tag obj 2 (\<lambda>v d. rbind (to_i32 v) (\<lambda>i. Inr (d\<lparr> td_version := i \<rparr>))) d) (\<lambda>d.
     rbind (on_tag obj 3 (\<lambda>v d. Inr (d\<lparr> td_name := val_to_string fmt v \<rparr>)) d) (\<lambda>d.
     rbind (on_tag obj 4 (\<lambda>v d. Inr (d\<lparr> td_comment := val_to_string fmt v \<rparr>)) d) (\<lambda>d.
     rbind (on_tag obj 5 (\<lambda>v d. rbind (value_slice big v) (\<lambda>bs.
       Inr (d\<lparr> td_primarykey := Some (ix_new\<lparr> ix_fields := map scast (take (val_size v div 2) bs) \<rparr>) \<rparr>))) d) (\<lambda>d.
     rbind (on_tag obj 6 (\<lambda>v d. rbind (read_one_field fmt v (td_fields d)) (\<lambda>fs.
       Inr (d\<lparr> td_fields := fs \<rparr>))) d) (\<lambda>d.
     on_tag obj 7 (\<lambda>_ d.
       case tuple_get obj 1 of
         None \<Rightarrow> Inl MemFault
       | Some v \<Rightarrow> rbind (to_i32 v) (\<lambda>i. Inr (d\<lparr> td_last_fid := ucast i \<rparr>))) d)))))))"

definition td_get_key :: "bool \<Rightarrow> table_descriptor \<Rightarrow> u32 \<Rightarrow> u32 \<Rightarrow> mut_key res" where
  "td_get_key big d metaId dbid =
     rbind (append_u32 big mut_key_new metaId) (\<lambda>k.
     rbind (append_u32 big k dbid) (\<lambda>k. append_u32 big k (td_id d)))"

section \<open>Databases\<close>

record database_descriptor =
  dd_id :: u32
  dd_version :: u32
  dd_name :: bytes
  dd_comment :: bytes
  dd_status :: u32
  dd_fields :: "(int \<times> field_descriptor) list"
  dd_last_tid :: u32
  dd_name2table :: "(bytes \<times> table_descriptor) list"

definition dd_new :: database_descriptor where
  "dd_new = \<lparr> dd_id = 0, dd_version = 0, dd_name = [], dd_comment = [], dd_status = 0, dd_fields = [],
     dd_last_tid = 0, dd_name2table = [] \<rparr>"

definition dd_object :: "database_descriptor \<Rightarrow> tuple_object res" where
  "dd_object d =
     (let obj = tuple_insert tuple_new 1 (set_uint32 (dd_id d));
          obj = tuple_insert obj 2 (set_uint32 (dd_version d)) in
      rbind (set_string (dd_name d)) (\<lambda>n.
      let obj = tuple_insert obj 3 n in
      rbind (set_string (dd_comment d)) (\<lambda>c.
      let obj = tuple_insert obj 4 c;
          obj = tuple_insert obj 5 (set_uint32 (dd_status d));
          subobj = tuple_new;
          obj = tuple_insert_object obj 6 subobj in
      rbind (fields_object (dd_fields d) tuple_new) (\<lambda>_.
        Inr (tuple_insert obj 7 (set_uint32 (dd_last_tid d)))))))"

definition dd_serialize :: "bool \<Rightarrow> database_descriptor \<Rightarrow> bytes \<Rightarrow> (int \<times> bytes) res" where
  "dd_serialize big d out = rbind (dd_object d) (\<lambda>obj. tuple_serialize big obj 0 out)"

definition dd_get_val :: "bool \<Rightarrow> database_descriptor \<Rightarrow> bytes res" where
  "dd_get_val big d = rbind (dd_serialize big d []) (\<lambda>(_, out). Inr out)"

definition dd_deserialize :: "(u64 \<Rightarrow> bytes) \<Rightarrow> bool \<Rightarrow> bytes \<Rightarrow> database_descriptor \<Rightarrow> database_descriptor res" where
  "dd_deserialize fmt big bs d =
     rbind (tuple_deserialize big bs tuple_new) (\<lambda>obj.
     rbind (on_tag obj 1 (\<lambda>v d. rbind (to_i32 v) (\<lambda>i. Inr (d\<lparr> dd_id := i \<rparr>))) d) (\<lambda>d.
     rbind (on_tag obj 2 (\<lambda>v d. rbind (to_i32 v) (\<lambda>i. Inr (d\<lparr> dd_version := i \<rparr>))) d) (\<lambda>d.
     rbind (on_tag obj 3 (\<lambda>v d. Inr (d\<lparr> dd_name := val_to_string fmt v \<rparr>)) d) (\<lambda>d.
     rbind (on_tag obj 4 (\<lambda>v d. Inr (d\<lparr> dd_comment := val_to_string fmt v \<rparr>)) d) (\<lambda>d.
     rbind (on_tag obj 5 (\<lambda>v d. rbind (to_u32 v) (\<lambda>i. Inr (d\<lparr> dd_status := i \<rparr>))) d) (\<lambda>d.
     rbind (on_tag obj 6 (\<lambda>v d. rbind (read_one_field fmt v (dd_fields d)) (\<lambda>fs.
       Inr (d\<lparr> dd_fields := fs \<rparr>))) d) (\<lambda>d.
     on_tag obj 7 (\<lambda>v d. rbind (to_u32 v) (\<lambda>i. Inr (d\<lparr> dd_last_tid := i \<rparr>))) d)))))))"

definition dd_get_key :: "bool \<Rightarrow> database_descriptor \<Rightarrow> u32 \<Rightarrow> mut_key res" where
  "dd_get_key big d metaId =
     rbind (append_u32 big mut_key_new metaId) (\<lambda>k. append_u32 big k (dd_id d))"

definition dd_exists :: "database_descriptor \<Rightarrow> bytes \<Rightarrow> bool" where
  "dd_exists d n \<longleftrightarrow> map_of (dd_name2table d) n \<noteq> None"

definition dd_get_table :: "database_descriptor \<Rightarrow> bytes \<Rightarrow> table_descriptor option" where
  "dd_get_table d n = map_of (dd_name2table d) n"

definition dd_add_table :: "bytes \<Rightarrow> table_descriptor \<Rightarrow> database_descriptor \<Rightarrow> database_descriptor" where
  "dd_add_table n t d = d\<lparr> dd_name2table := map_assign n t (dd_name2table d) \<rparr>"

definition dd_remove_table :: "bytes \<Rightarrow> database_descriptor \<Rightarrow> database_descriptor" where
  "dd_remove_table n d = d\<lparr> dd_name2table := filter (\<lambda>x. fst x \<noteq> n) (dd_name2table d) \<rparr>"

definition dd_next_id :: "database_descriptor \<Rightarrow> u32 \<times> database_descriptor" where
  "dd_next_id d = (dd_last_tid d + 1, d\<lparr> dd_last_tid := dd_last_tid d + 1 \<rparr>)"

definition dd_table_nums :: "database_descriptor \<Rightarrow> nat" where
  "dd_table_nums d = length (dd_name2table d)"

section \<open>What the bytes of a descriptor hold\<close>

lemma set_bytes_ok: "n < 0xffffff \<Longrightarrow> n \<le> length v \<Longrightarrow> set_bytes v n = Inr (VString (take n v))"
  by (simp add: set_bytes_def read_block_def)

lemma ids_memory_length [simp]: "length (ids_memory big ids) = 2 * length ids"
  unfolding ids_memory_def by (induction ids) auto

text \<open>The values the descriptors write come back, and the object under tag 6 is not written.\<close>

lemma written_object:
  assumes "filter (\<lambda>(k, v). val_written v) m = m'" "flat_object m'" "m' \<noteq> []"
  shows "\<exists>bs. tuple_serialize big m 0 [] = Inr (0, bs) \<and>
    tuple_deserialize big bs [] = Inr (map (\<lambda>(k, v). (k, val_back v)) m')"
proof -
  have "m \<noteq> []" using assms(1,3) by auto
  then have "tuple_serialize big m 0 [] = tuple_serialize big m' 0 []"
    using assms(3) object_items_written [of big m] by (simp add: tuple_serialize_def assms(1) split: option.split)
  then show ?thesis using tuple_image [OF assms(2,3)] tuple_read [OF assms(2,3)] by simp
qed

lemma back_unsigned:
  "LENGTH('a) \<le> 32 \<Longrightarrow> val_back (VLong (ucast (i :: 'a::len word))) = VLong (ucast i)"
  "LENGTH('a) \<le> 32 \<Longrightarrow> flat_val (VLong (ucast (i :: 'a::len word)))"
proof -
  assume l: "LENGTH('a) \<le> 32"
  have "uint i < 2 ^ LENGTH('a)" by (rule uint_lt2p)
  also have "\<dots> \<le> 2 ^ 32" using l by (intro power_increasing) auto
  finally have i: "uint i < 2 ^ 32" .
  then have u: "uint (ucast i :: i64) = uint i"
    by (simp add: unsigned_ucast_eq take_bit_int_eq_self_iff)
  moreover have "uint i < 2 ^ 63" "- (2 ^ 63) \<le> uint i"
    using i by (simp, metis uint_ge_0 neg_le_0_iff_le order_trans zero_le_numeral zero_le_power)
  ultimately have s: "sint (ucast i :: i64) = uint i"
    using signed_take_bit_int_eq_self [of 63 "uint i"] by (simp add: sint_uint)
  have n: "\<not> uint i < -1"
    using uint_ge_0 [of i] by linarith
  show "val_back (VLong (ucast i)) = VLong (ucast i)"
    using i n by (simp add: s varint_stored_def u)
  have "uint (ucast i :: i64) \<noteq> uint (0x8000000000000000 :: i64)"
    using i u by simp
  then have "ucast i \<noteq> (0x8000000000000000 :: i64)" by metis
  then show "flat_val (VLong (ucast i))" by simp
qed

lemma back_unsigned_int:
  "val_back (VLong (scast (ucast (i :: u16) :: i32))) = VLong (ucast i)"
  "flat_val (VLong (scast (ucast (i :: u16) :: i32)))"
proof -
  have "scast (ucast i :: i32) = (ucast i :: i64)"
    by (rule bit_word_eqI) (auto simp: bit_simps min_def dest: bit_imp_le_length split: if_splits)
  then show "val_back (VLong (scast (ucast (i :: u16) :: i32))) = VLong (ucast i)"
    "flat_val (VLong (scast (ucast (i :: u16) :: i32)))"
    using back_unsigned [of i] by simp_all
qed

definition field_fits :: "field_descriptor \<Rightarrow> bool" where
  "field_fits fd \<longleftrightarrow> length (fd_name fd) < 0xffffff \<and> length (fd_comment fd) < 0xffffff \<and> length (fd_extra fd) < 0xffffff"

lemma fields_object_ok: "\<forall>x \<in> set fs. field_fits (snd x) \<Longrightarrow> \<exists>sub'. fields_object fs sub = Inr sub'"
  by (induction fs sub rule: fields_object.induct)
    (auto simp: fd_serialize_def field_fits_def set_string_ok Let_def)

text \<open>A name is read up to its first zero byte.\<close>

lemma c_string_id: "0 \<notin> set n \<Longrightarrow> c_string n = n"
  unfolding c_string_def by (subst takeWhile_eq_all_conv) metis

lemma back_u32: "to_i32 (VLong (ucast (i :: u32))) = Inr i" "to_u32 (VLong (ucast (i :: u32))) = Inr i"
  by (simp_all) (rule bit_word_eqI; auto simp: bit_simps dest: bit_imp_le_length)+


section \<open>Properties\<close>

text \<open>What a table descriptor is written as, and what is read back from that.\<close>

lemma table_object:
  assumes "td_primarykey d = Some pk" "2 * length (ix_fields pk) < 0xffffff"
    and "length (td_name d) < 0xffffff" "length (td_comment d) < 0xffffff" "\<forall>x \<in> set (td_fields d). field_fits (snd x)"
  shows "\<exists>bs. td_get_val big d = Inr bs \<and> tuple_deserialize big bs [] =
    Inr [(1, VLong (ucast (td_id d))), (2, VLong (ucast (td_version d))), (3, VString (td_name d)),
      (4, VString (td_comment d)), (5, VString (ids_memory big (ix_fields pk))), (7, VLong (ucast (td_last_fid d)))]"
proof -
  let ?ids = "ids_memory big (ix_fields pk)"
  let ?m = "[(1, VLong (ucast (td_id d))), (2, VLong (ucast (td_version d))), (3, VString (td_name d)),
    (4, VString (td_comment d)), (5, VString ?ids), (7, VLong (scast (ucast (td_last_fid d) :: i32)))]"
  obtain sub where sub: "fields_object (td_fields d) tuple_new = Inr sub"
    using fields_object_ok [OF assms(5)] by blast
  obtain obj where obj: "td_object big d = Inr obj" "filter (\<lambda>(k, v). val_written v) obj = ?m"
    using assms(1-4) sub
    by (simp add: td_object_def tuple_new_def tuple_insert_def tuple_insert_object_def set_uint32_def
        set_int_def set_string_ok set_bytes_ok set_ptr_def Let_def)
  have "flat_object ?m"
    using assms(2-4) back_unsigned_int(2) [of "td_last_fid d"] back_unsigned(2) [of "td_id d"]
      back_unsigned(2) [of "td_version d"]
    by (simp add: flat_object_def)
  then obtain bs where bs: "tuple_serialize big obj 0 [] = Inr (0, bs)"
      "tuple_deserialize big bs [] = Inr (map (\<lambda>(k, v). (k, val_back v)) ?m)"
    using written_object [OF obj(2)] by blast
  have "td_get_val big d = Inr bs"
    using obj(1) bs(1) by (simp add: td_get_val_def td_serialize_def)
  moreover have "map (\<lambda>(k, v). (k, val_back v)) ?m = [(1, VLong (ucast (td_id d))),
      (2, VLong (ucast (td_version d))), (3, VString (td_name d)), (4, VString (td_comment d)),
      (5, VString ?ids), (7, VLong (ucast (td_last_fid d)))]"
    using back_unsigned(1) [of "td_id d"] back_unsigned(1) [of "td_version d"] back_unsigned_int(1)
    by (simp del: val_back.simps(2))
  ultimately show ?thesis using bs(2) by simp
qed

text \<open>
  C24. What is left of a table descriptor that was written and read again: its id, version, name and
  comment. Its fields are lost; of the ids of its primary key every one takes the place of two
  bytes of the old memory; the last field id becomes the id of the table.
\<close>

theorem table_restored:
  assumes "td_primarykey d = Some pk" "2 * length (ix_fields pk) < 0xffffff"
    and "length (td_name d) < 0xffffff" "length (td_comment d) < 0xffffff"
    and "0 \<notin> set (td_name d)" "0 \<notin> set (td_comment d)" "\<forall>x \<in> set (td_fields d). field_fits (snd x)"
  shows "\<exists>bs. td_get_val big d = Inr bs \<and>
    td_deserialize fmt big bs td_new = Inr (td_new\<lparr> td_id := td_id d, td_version := td_version d,
      td_name := td_name d, td_comment := td_comment d, td_fields := [], td_last_fid := ucast (td_id d),
      td_primarykey := Some (ix_new\<lparr> ix_fields :=
        map scast (take (length (ix_fields pk)) (ids_memory big (ix_fields pk))) \<rparr>) \<rparr>)"
  using table_object [OF assms(1-4,7), of big] assms(2) c_string_id [OF assms(5)] c_string_id [OF assms(6)]
  by (auto simp: td_deserialize_def tuple_new_def on_tag_def tuple_get_def value_slice_def read_block_def
      ix_new_def td_new_def back_u32 simp del: to_i32.simps)

definition demo_table :: table_descriptor where
  "demo_table = td_set_primary_key [1] (td_add_field (fd_new\<lparr> fd_name := [0x6b], fd_id := 1, fd_type := FT_Int64 \<rparr>)
     (td_new\<lparr> td_id := 7, td_name := [0x74], td_last_fid := 1 \<rparr>))"

lemma table_restored_witness:
  "\<exists>bs. td_get_val False demo_table = Inr bs \<and>
    td_deserialize (\<lambda>_. []) False bs td_new = Inr (td_new\<lparr> td_id := 7, td_version := 0,
      td_name := [0x74], td_comment := [], td_fields := [], td_last_fid := 7,
      td_primarykey := Some (ix_new\<lparr> ix_fields := [1] \<rparr>) \<rparr>)"
  using table_restored [of demo_table "ix_new\<lparr> ix_fields := [1], ix_type := 1 \<rparr>" False "\<lambda>_. []"]
  by (simp add: demo_table_def td_set_primary_key_def td_add_field_def td_new_def ix_new_def fd_new_def
      field_fits_def ids_memory_def host_bytes_def be_bytes_def upt_conv_Cons)

text \<open>What a database descriptor is written as, and what is read back from that.\<close>

lemma database_object:
  assumes "length (dd_name d) < 0xffffff" "length (dd_comment d) < 0xffffff"
    and "\<forall>x \<in> set (dd_fields d). field_fits (snd x)"
  shows "\<exists>bs. dd_get_val big d = Inr bs \<and> tuple_deserialize big bs [] =
    Inr [(1, VLong (ucast (dd_id d))), (2, VLong (ucast (dd_version d))), (3, VString (dd_name d)),
      (4, VString (dd_comment d)), (5, VLong (ucast (dd_status d))), (7, VLong (ucast (dd_last_tid d)))]"
proof -
  let ?m = "[(1, VLong (ucast (dd_id d))), (2, VLong (ucast (dd_version d))), (3, VString (dd_name d)),
    (4, VString (dd_comment d)), (5, VLong (ucast (dd_status d))), (7, VLong (ucast (dd_last_tid d)))]"
  obtain sub where sub: "fields_object (dd_fields d) tuple_new = Inr sub"
    using fields_object_ok [OF assms(3)] by blast
  obtain obj where obj: "dd_object d = Inr obj" "filter (\<lambda>(k, v). val_written v) obj = ?m"
    using assms(1,2) sub
    by (simp add: dd_object_def tuple_new_def tuple_insert_def tuple_insert_object_def set_uint32_def
        set_string_ok set_ptr_def Let_def)
  note bk = back_unsigned [of "dd_id d"] back_unsigned [of "dd_version d"] back_unsigned [of "dd_status d"]
    back_unsigned [of "dd_last_tid d"]
  have "flat_object ?m"
    using assms(1,2) bk(2,4,6,8) by (simp add: flat_object_def)
  then obtain bs where bs: "tuple_serialize big obj 0 [] = Inr (0, bs)"
      "tuple_deserialize big bs [] = Inr (map (\<lambda>(k, v). (k, val_back v)) ?m)"
    using written_object [OF obj(2)] by blast
  have "dd_get_val big d = Inr bs"
    using obj(1) bs(1) by (simp add: dd_get_val_def dd_serialize_def)
  moreover have "map (\<lambda>(k, v). (k, val_back v)) ?m = ?m"
    using bk(1,3,5,7) by (simp del: val_back.simps(2))
  ultimately show ?thesis using bs(2) by simp
qed

text \<open>
  A database descriptor comes back with its numbers, its name and its comment, and without its
  fields; the tables it had in memory are not part of what is written.
\<close>

theorem database_restored:
  assumes "length (dd_name d) < 0xffffff" "length (dd_comment d) < 0xffffff"
    and "0 \<notin> set (dd_name d)" "0 \<notin> set (dd_comment d)" "\<forall>x \<in> set (dd_fields d). field_fits (snd x)"
  shows "\<exists>bs. dd_get_val big d = Inr bs \<and>
    dd_deserialize fmt big bs dd_new = Inr (d\<lparr> dd_fields := [], dd_name2table := [] \<rparr>)"
  using database_object [OF assms(1,2,5), of big] c_string_id [OF assms(3)] c_string_id [OF assms(4)]
  by (auto simp: dd_deserialize_def tuple_new_def on_tag_def tuple_get_def dd_new_def back_u32
      simp del: to_i32.simps to_u32.simps)

lemma database_restored_witness:
  "\<exists>bs. dd_get_val True (dd_new\<lparr> dd_id := 1, dd_name := [0x64], dd_last_tid := 4 \<rparr>) = Inr bs \<and>
    dd_deserialize (\<lambda>_. []) True bs dd_new = Inr (dd_new\<lparr> dd_id := 1, dd_name := [0x64], dd_last_tid := 4 \<rparr>)"
  using database_restored [of "dd_new\<lparr> dd_id := 1, dd_name := [0x64], dd_last_tid := 4 \<rparr>" True "\<lambda>_. []"]
  by (simp add: dd_new_def)

end
