(* ===== verification/Table_Store.thy ===== *)
theory Table_Store
  imports Raft_Log_Store Descriptor
begin

text \<open>
  The table layer of \<open>db/table.h\<close> and \<open>db/table.cpp\<close>: \<open>TableOperator\<close>, which writes and reads rows of a
  table in the column family \<open>data\<close>, and \<open>TableReader\<close>, which moves an iterator over them. RocksDB, the
  byte order of the host and libc's \<open>atof\<close> are parameters.

  Error texts (\<open>_errmsg\<close>) are left out. \<open>BufferArray::operator=\<close> has no return statement; its effect is
  taken to be that of the assignment in its body.
\<close>

section \<open>Rows\<close>

definition ERR_EOF :: int where "ERR_EOF = 106"
definition ERR_WRITE_ABNORMALITY :: int where "ERR_WRITE_ABNORMALITY = 108"

record table_row =
  tr_names :: "bytes list"
  tr_values :: "val list"

definition row_new :: table_row where "row_new = \<lparr> tr_names = [], tr_values = [] \<rparr>"

definition row_append :: "table_row \<Rightarrow> bytes \<Rightarrow> val \<Rightarrow> table_row" where
  "row_append r n v = \<lparr> tr_names = tr_names r @ [n], tr_values = tr_values r @ [v] \<rparr>"

text \<open>\<open>at\<close> of a vector, and the position \<open>std::find\<close> gives, which is the length when there is none.\<close>

definition vec_at :: "'a list \<Rightarrow> nat \<Rightarrow> 'a res" where
  "vec_at xs i = (if i < length xs then Inr (xs ! i) else Inl OutOfRange)"

fun find_pos :: "'a list \<Rightarrow> 'a \<Rightarrow> nat" where
  "find_pos [] y = 0"
| "find_pos (x # xs) y = (if x = y then 0 else Suc (find_pos xs y))"

definition row_value :: "table_row \<Rightarrow> bytes \<Rightarrow> val res" where
  "row_value r n =
     (let p = find_pos (tr_names r) n in
      if p = length (tr_names r) then Inl LogicError else vec_at (tr_values r) p)"

definition row_clear :: "table_row \<Rightarrow> table_row" where "row_clear r = row_new"

record row_set =
  rs_names :: "bytes list"
  rs_values :: "val list list"

definition row_set_new :: "bytes list \<Rightarrow> row_set" where
  "row_set_new names = \<lparr> rs_names = names, rs_values = [] \<rparr>"

text \<open>\<open>values_[pos]\<close> is not checked.\<close>

fun row_set_push :: "(bytes \<times> val) list \<Rightarrow> row_set \<Rightarrow> row_set res" where
  "row_set_push [] rs = Inr rs"
| "row_set_push ((n, v) # xs) rs =
     (let p = find_pos (rs_names rs) n in
      if p < length (rs_values rs)
      then row_set_push xs (rs\<lparr> rs_values := (rs_values rs)[p := rs_values rs ! p @ [v]] \<rparr>)
      else Inl MemFault)"

definition row_set_append :: "row_set \<Rightarrow> table_row \<Rightarrow> row_set res" where
  "row_set_append rs r = row_set_push (zip (tr_names r) (tr_values r)) rs"

definition column_num :: "row_set \<Rightarrow> nat" where "column_num rs = length (rs_values rs)"

definition rows_num :: "row_set \<Rightarrow> nat" where
  "rows_num rs = (case rs_values rs of [] \<Rightarrow> 0 | xs # _ \<Rightarrow> length xs)"

definition row_set_at :: "row_set \<Rightarrow> nat \<Rightarrow> nat \<Rightarrow> val res" where
  "row_set_at rs rowid offset = rbind (vec_at (rs_values rs) rowid) (\<lambda>xs. vec_at xs offset)"

definition row_set_value :: "row_set \<Rightarrow> nat \<Rightarrow> bytes \<Rightarrow> val res" where
  "row_set_value rs rowid n =
     (let p = find_pos (rs_names rs) n in
      if p = length (rs_names rs) then Inl LogicError else row_set_at rs rowid p)"

section \<open>TableOperator\<close>

text \<open>\<open>_db\<close> and \<open>_tbl\<close>; the wrapper is an argument of the operations.\<close>

record table =
  tb_db :: database_descriptor
  tb_tbl :: table_descriptor

subsection \<open>Keys\<close>

definition table_prefix :: "bool \<Rightarrow> table \<Rightarrow> mut_key res" where
  "table_prefix big t =
     rbind (append_u32 big mut_key_new (dd_id (tb_db t))) (\<lambda>k. append_u32 big k (td_id (tb_tbl t)))"

text \<open>\<open>pk->fields\<close>, and \<open>_tbl->fields.at(i)\<close>.\<close>

definition pk_ids :: "table \<Rightarrow> u16 list res" where
  "pk_ids t = (case td_primarykey (tb_tbl t) of None \<Rightarrow> Inl MemFault | Some pk \<Rightarrow> Inr (ix_fields pk))"

definition field_at :: "table \<Rightarrow> u16 \<Rightarrow> field_descriptor res" where
  "field_at t i =
     (case map_of (td_fields (tb_tbl t)) (uint i) of None \<Rightarrow> Inl OutOfRange | Some fd \<Rightarrow> Inr fd)"

text \<open>\<open>get_field_descriptor\<close> with its result dereferenced.\<close>

definition field_ptr :: "table \<Rightarrow> u16 \<Rightarrow> field_descriptor res" where
  "field_ptr t i =
     (case get_field_by_id (td_fields (tb_tbl t)) (uint i) of None \<Rightarrow> Inl MemFault | Some fd \<Rightarrow> Inr fd)"

definition key_of_value :: "(bytes \<Rightarrow> u64) \<Rightarrow> bool \<Rightarrow> table \<Rightarrow> val \<Rightarrow> mut_key res" where
  "key_of_value atof big t v =
     rbind (table_prefix big t) (\<lambda>k.
     rbind (pk_ids t) (\<lambda>ids.
     rbind (vec_at ids 0) (\<lambda>i.
     rbind (field_at t i) (\<lambda>fd. field_append_value atof big fd v k))))"

text \<open>\<open>build_table_key_raw\<close> reads as many bytes of the value as the key has so far.\<close>

definition key_of_raw :: "bool \<Rightarrow> table \<Rightarrow> val \<Rightarrow> mut_key res" where
  "key_of_raw big t v =
     rbind (table_prefix big t) (\<lambda>k.
     rbind (val_c_str big v) (\<lambda>m.
     rbind (read_block m 0 (str_length (mk_data k))) (append_string k)))"

text \<open>The loops over the fields of the primary key; \<open>f\<close> gives the value for a position and a field.\<close>

fun append_key_fields ::
    "(bytes \<Rightarrow> u64) \<Rightarrow> bool \<Rightarrow> table \<Rightarrow> (nat \<Rightarrow> field_descriptor \<Rightarrow> val res) \<Rightarrow> u16 list \<Rightarrow> nat \<Rightarrow> mut_key \<Rightarrow> mut_key res" where
  "append_key_fields atof big t f [] n k = Inr k"
| "append_key_fields atof big t f (i # ids) n k =
     rbind (field_at t i) (\<lambda>fd.
     rbind (f n fd) (\<lambda>v.
     rbind (field_append_value atof big fd v k) (append_key_fields atof big t f ids (Suc n))))"

definition key_of_fields ::
    "(bytes \<Rightarrow> u64) \<Rightarrow> bool \<Rightarrow> table \<Rightarrow> (nat \<Rightarrow> field_descriptor \<Rightarrow> val res) \<Rightarrow> mut_key res" where
  "key_of_fields atof big t f =
     rbind (table_prefix big t) (\<lambda>k. rbind (pk_ids t) (\<lambda>ids. append_key_fields atof big t f ids 0 k))"

definition key_of_values :: "(bytes \<Rightarrow> u64) \<Rightarrow> bool \<Rightarrow> table \<Rightarrow> val list \<Rightarrow> mut_key res" where
  "key_of_values atof big t vs = key_of_fields atof big t (\<lambda>n fd. vec_at vs n)"

definition key_of_row :: "(bytes \<Rightarrow> u64) \<Rightarrow> bool \<Rightarrow> table \<Rightarrow> table_row \<Rightarrow> mut_key res" where
  "key_of_row atof big t r = key_of_fields atof big t (\<lambda>n fd. row_value r (fd_name fd))"

definition key_of_row_set :: "(bytes \<Rightarrow> u64) \<Rightarrow> bool \<Rightarrow> table \<Rightarrow> row_set \<Rightarrow> nat \<Rightarrow> mut_key res" where
  "key_of_row_set atof big t rs rowid = key_of_fields atof big t (\<lambda>n fd. row_set_value rs rowid (fd_name fd))"

subsection \<open>Values\<close>

text \<open>The codes of \<open>TupleBuffer::append\<close> are ignored; a column the table does not have is a null pointer.\<close>

fun append_columns ::
    "bool \<Rightarrow> table \<Rightarrow> (nat \<Rightarrow> bytes res) \<Rightarrow> (nat \<Rightarrow> val res) \<Rightarrow> nat \<Rightarrow> nat \<Rightarrow> bytes \<Rightarrow> bytes res" where
  "append_columns big t name vl 0 i buf = Inr buf"
| "append_columns big t name vl (Suc n) i buf =
     rbind (name i) (\<lambda>nm.
       case get_field_by_name (td_fields (tb_tbl t)) nm of
         None \<Rightarrow> Inl MemFault
       | Some fd \<Rightarrow>
           rbind (vl i) (\<lambda>v.
           rbind (buffer_append big buf (uint (fd_id fd)) v) (\<lambda>(_, buf).
             append_columns big t name vl n (Suc i) buf)))"

definition value_of_row :: "bool \<Rightarrow> table \<Rightarrow> table_row \<Rightarrow> bytes res" where
  "value_of_row big t r =
     append_columns big t (vec_at (tr_names r)) (vec_at (tr_values r)) (length (tr_values r)) 0 []"

text \<open>The number of columns of a row is taken to be that of the rows.\<close>

definition value_of_row_set :: "bool \<Rightarrow> table \<Rightarrow> row_set \<Rightarrow> nat \<Rightarrow> bytes res" where
  "value_of_row_set big t rs rowid =
     append_columns big t (vec_at (rs_names rs)) (row_set_at rs rowid) (rows_num rs) 0 []"

subsection \<open>Writing\<close>

definition write_code :: "int \<times> 's wrapper \<Rightarrow> int \<times> 's wrapper" where
  "write_code r = (if fst r = 0 then 0 else ERR_WRITE_ABNORMALITY, snd r)"

definition table_put ::
    "('s, 'c) engine \<Rightarrow> (bytes \<Rightarrow> u64) \<Rightarrow> bool \<Rightarrow> 's wrapper \<Rightarrow> table \<Rightarrow> val \<Rightarrow> val \<Rightarrow> (int \<times> 's wrapper) res" where
  "table_put E atof big w t key v =
     rbind (rbind (key_of_value atof big t key) key_slice) (\<lambda>k.
     let trecord = tuple_insert (tuple_insert tuple_new 1 key) 2 v in
     rbind (tuple_serialize big trecord 0 []) (\<lambda>(_, ba).
     rbind (rocks_put E w (get_data_handle w) k ba) (\<lambda>r. Inr (write_code r))))"

definition table_insert ::
    "('s, 'c) engine \<Rightarrow> (bytes \<Rightarrow> u64) \<Rightarrow> bool \<Rightarrow> 's wrapper \<Rightarrow> table \<Rightarrow> table_row \<Rightarrow> (int \<times> 's wrapper) res" where
  "table_insert E atof big w t r =
     rbind (rbind (key_of_row atof big t r) key_slice) (\<lambda>k.
     rbind (value_of_row big t r) (\<lambda>v.
     rbind (rocks_put E w (get_data_handle w) k v) (\<lambda>x. Inr (write_code x))))"

text \<open>The rows of a set go into one batch; the status of \<open>WriteBatch::Put\<close> is ignored.\<close>

fun insert_batch ::
    "('s, 'c) engine \<Rightarrow> (bytes \<Rightarrow> u64) \<Rightarrow> bool \<Rightarrow> table \<Rightarrow> handle option \<Rightarrow> row_set \<Rightarrow> nat list \<Rightarrow> batch \<Rightarrow> batch res" where
  "insert_batch E atof big t h rs [] b = Inr b"
| "insert_batch E atof big t h rs (i # is) b =
     rbind (rbind (key_of_row_set atof big t rs i) key_slice) (\<lambda>k.
     rbind (value_of_row_set big t rs i) (\<lambda>v.
       insert_batch E atof big t h rs is (if e_batch_put E b h k v = 0 then b @ [(h, BatchPut k v)] else b)))"

definition table_insert_set ::
    "('s, 'c) engine \<Rightarrow> (bytes \<Rightarrow> u64) \<Rightarrow> bool \<Rightarrow> 's wrapper \<Rightarrow> table \<Rightarrow> row_set \<Rightarrow> (int \<times> 's wrapper) res" where
  "table_insert_set E atof big w t rs =
     rbind (insert_batch E atof big t (get_data_handle w) rs [0..<rows_num rs] []) (\<lambda>b.
     rbind (rocks_write E w b) (\<lambda>x. Inr (write_code x)))"

definition table_remove ::
    "('s, 'c) engine \<Rightarrow> (bytes \<Rightarrow> u64) \<Rightarrow> bool \<Rightarrow> 's wrapper \<Rightarrow> table \<Rightarrow> val \<Rightarrow> (int \<times> 's wrapper) res" where
  "table_remove E atof big w t key =
     rbind (rbind (key_of_value atof big t key) key_slice) (\<lambda>k.
     rbind (rocks_remove E w (get_data_handle w) k) (\<lambda>r. Inr (write_code r)))"

text \<open>\<open>remove_range\<close> appends the ids and the value to a key that has them already.\<close>

definition range_key :: "(bytes \<Rightarrow> u64) \<Rightarrow> bool \<Rightarrow> table \<Rightarrow> val \<Rightarrow> bytes res" where
  "range_key atof big t v =
     rbind (key_of_value atof big t v) (\<lambda>k.
     rbind (append_u32 big k (dd_id (tb_db t))) (\<lambda>k.
     rbind (append_u32 big k (td_id (tb_tbl t))) (\<lambda>k.
     rbind (pk_ids t) (\<lambda>ids.
     rbind (vec_at ids 0) (\<lambda>i.
     rbind (field_at t i) (\<lambda>fd.
     rbind (field_append_value atof big fd v k) key_slice))))))"

definition table_remove_range ::
    "('s, 'c) engine \<Rightarrow> (bytes \<Rightarrow> u64) \<Rightarrow> bool \<Rightarrow> 's wrapper \<Rightarrow> table \<Rightarrow> val \<Rightarrow> val \<Rightarrow> (int \<times> 's wrapper) res" where
  "table_remove_range E atof big w t s e =
     rbind (pk_ids t) (\<lambda>_.
     rbind (range_key atof big t s) (\<lambda>sk.
     rbind (range_key atof big t e) (\<lambda>ek.
     rbind (rocks_remove_range E w (get_data_handle w) sk ek False) (\<lambda>r. Inr (write_code r)))))"

text \<open>
  \<open>remove\<close> of several keys collects them in a vector. \<open>MutTableKey\<close> has a move constructor that may
  throw and a copy constructor, so a vector that grows copies what it holds; the capacity doubles.
  \<open>junk\<close> is what fresh memory holds.
\<close>

fun copy_keys :: "u8 \<Rightarrow> mut_key list \<Rightarrow> mut_key list res" where
  "copy_keys junk [] = Inr []"
| "copy_keys junk (k # ks) =
     rbind (mut_key_copy junk k) (\<lambda>k. rbind (copy_keys junk ks) (\<lambda>ks. Inr (k # ks)))"

definition emplace_key :: "u8 \<Rightarrow> nat \<times> mut_key list \<Rightarrow> mut_key \<Rightarrow> (nat \<times> mut_key list) res" where
  "emplace_key junk v k =
     (if length (snd v) < fst v then Inr (fst v, snd v @ [k])
      else rbind (copy_keys junk (snd v)) (\<lambda>ks. Inr (max 1 (2 * length (snd v)), ks @ [k])))"

fun collect_keys ::
    "(bytes \<Rightarrow> u64) \<Rightarrow> bool \<Rightarrow> u8 \<Rightarrow> table \<Rightarrow> val list \<Rightarrow> nat \<times> mut_key list \<Rightarrow> (nat \<times> mut_key list) res" where
  "collect_keys atof big junk t [] ks = Inr ks"
| "collect_keys atof big junk t (v # vs) ks =
     rbind (key_of_value atof big t v) (\<lambda>k.
     rbind (emplace_key junk ks k) (collect_keys atof big junk t vs))"

fun delete_batch :: "('s, 'c) engine \<Rightarrow> handle option \<Rightarrow> mut_key list \<Rightarrow> batch \<Rightarrow> batch res" where
  "delete_batch E h [] b = Inr b"
| "delete_batch E h (k # ks) b =
     rbind (key_slice k) (\<lambda>s.
       delete_batch E h ks (if e_batch_delete E b h s = 0 then b @ [(h, BatchDelete s)] else b))"

definition table_remove_keys ::
    "('s, 'c) engine \<Rightarrow> (bytes \<Rightarrow> u64) \<Rightarrow> bool \<Rightarrow> u8 \<Rightarrow> 's wrapper \<Rightarrow> table \<Rightarrow> val list \<Rightarrow> (int \<times> 's wrapper) res" where
  "table_remove_keys E atof big junk w t vs =
     rbind (collect_keys atof big junk t vs (0, [])) (\<lambda>(_, ks).
     rbind (delete_batch E (get_data_handle w) ks []) (\<lambda>b.
     rbind (rocks_write E w b) (\<lambda>r. Inr (write_code r))))"

subsection \<open>Reading\<close>

text \<open>The value argument is what the caller's variable holds before.\<close>

definition table_get ::
    "('s, 'c) engine \<Rightarrow> (bytes \<Rightarrow> u64) \<Rightarrow> bool \<Rightarrow> 's wrapper \<Rightarrow> table \<Rightarrow> val \<Rightarrow> val \<Rightarrow> (int \<times> val) res" where
  "table_get E atof big w t key v =
     rbind (pk_ids t) (\<lambda>ids.
     rbind (table_prefix big t) (\<lambda>k.
     rbind (vec_at ids 0) (\<lambda>i.
     rbind (field_ptr t i) (\<lambda>fd.
     rbind (rbind (field_append_value atof big fd key k) key_slice) (\<lambda>k.
     rbind (seek_for_next E w (get_data_handle w) k False) (\<lambda>cur.
       if \<not> e_valid E cur then Inr (ERR_INVALID_PARAMS, v)
       else rbind (tuple_deserialize big (e_value E cur) tuple_new) (\<lambda>trecord.
         if tuple_has trecord 2 then rbind (tuple_at trecord 2) (\<lambda>x. Inr (0, x))
         else Inr (ERR_NOT_FOUND, v))))))))"

text \<open>
  The callbacks get the row, which both scans leave empty, and return whether to go on; they carry
  the state \<open>'a\<close> of what they capture. Where the cursor is not valid the loops go round without doing
  anything: the fuel bounds the rounds.
\<close>

fun scan_range_loop ::
    "('s, 'c) engine \<Rightarrow> bytes \<Rightarrow> ('a \<Rightarrow> table_row \<Rightarrow> (bool \<times> 'a) res) \<Rightarrow> nat \<Rightarrow> 'c \<Rightarrow> table_row \<Rightarrow> 'a \<Rightarrow> 'a res" where
  "scan_range_loop E edk fn 0 cur row a = Inl OutOfFuel"
| "scan_range_loop E edk fn (Suc n) cur row a =
     (if \<not> e_valid E cur then scan_range_loop E edk fn n cur row a
      else if edk < e_key E cur then Inr a
      else let row = row_clear row in
        rbind (set_bytes (e_value E cur) (length (e_value E cur))) (\<lambda>val.
        rbind (set_bytes (e_key E cur) (length (e_key E cur))) (\<lambda>key.
        rbind (fn a row) (\<lambda>(go, a).
          if \<not> go then Inr a else scan_range_loop E edk fn n (e_next E cur) row a))))"

definition table_scan_range ::
    "('s, 'c) engine \<Rightarrow> (bytes \<Rightarrow> u64) \<Rightarrow> bool \<Rightarrow> nat \<Rightarrow> 's wrapper \<Rightarrow> table \<Rightarrow> val \<Rightarrow> val \<Rightarrow>
     ('a \<Rightarrow> table_row \<Rightarrow> (bool \<times> 'a) res) \<Rightarrow> 'a \<Rightarrow> (int \<times> 'a) res" where
  "table_scan_range E atof big fuel w t s e fn a =
     rbind (pk_ids t) (\<lambda>_.
     rbind (rbind (key_of_value atof big t s) key_slice) (\<lambda>k.
     rbind (rbind (key_of_value atof big t e) key_slice) (\<lambda>edk.
     rbind (seek_for_next E w (get_data_handle w) k False) (\<lambda>cur.
     rbind (scan_range_loop E edk fn fuel cur row_new a) (\<lambda>a. Inr (0, a))))))"

fun scan_prefix_loop ::
    "('s, 'c) engine \<Rightarrow> ('a \<Rightarrow> table_row \<Rightarrow> (bool \<times> 'a) res) \<Rightarrow> nat \<Rightarrow> 'c \<Rightarrow> table_row \<Rightarrow> 'a \<Rightarrow> 'a res" where
  "scan_prefix_loop E fn 0 cur row a = Inl OutOfFuel"
| "scan_prefix_loop E fn (Suc n) cur row a =
     (if \<not> e_valid E cur then scan_prefix_loop E fn n cur row a
      else let row = row_clear row in
        rbind (fn a row) (\<lambda>(go, a).
          if \<not> go then Inr a else scan_prefix_loop E fn n (e_next E cur) row a))"

definition table_scan_prefix ::
    "('s, 'c) engine \<Rightarrow> (bytes \<Rightarrow> u64) \<Rightarrow> bool \<Rightarrow> nat \<Rightarrow> 's wrapper \<Rightarrow> table \<Rightarrow> val \<Rightarrow>
     ('a \<Rightarrow> table_row \<Rightarrow> (bool \<times> 'a) res) \<Rightarrow> 'a \<Rightarrow> (int \<times> 'a) res" where
  "table_scan_prefix E atof big fuel w t p fn a =
     rbind (pk_ids t) (\<lambda>_.
     rbind (rbind (key_of_value atof big t p) key_slice) (\<lambda>k.
     rbind (seek_for_next E w (get_data_handle w) k True) (\<lambda>cur.
     rbind (scan_prefix_loop E fn fuel cur row_new a) (\<lambda>a. Inr (0, a)))))"

text \<open>What \<open>get_first\<close> and \<open>get_last\<close> do with their cursor.\<close>

definition read_kv_row :: "('s, 'c) engine \<Rightarrow> bool \<Rightarrow> 'c \<Rightarrow> table_row \<Rightarrow> (int \<times> table_row) res" where
  "read_kv_row E big cur row =
     (if \<not> e_valid E cur then Inr (ERR_INVALID_PARAMS, row)
      else rbind (tuple_deserialize big (e_value E cur) tuple_new) (\<lambda>trecord.
        rbind (if tuple_has trecord 1 then rbind (tuple_at trecord 1) (\<lambda>x. Inr (row_append row [0x6b] x))
               else Inr row) (\<lambda>row.
        rbind (if tuple_has trecord 2 then rbind (tuple_at trecord 2) (\<lambda>x. Inr (row_append row [0x76] x))
               else Inr row) (\<lambda>row. Inr (0, row)))))"

definition table_get_first ::
    "('s, 'c) engine \<Rightarrow> bool \<Rightarrow> 's wrapper \<Rightarrow> table \<Rightarrow> table_row \<Rightarrow> (int \<times> table_row) res" where
  "table_get_first E big w t row =
     rbind (rbind (table_prefix big t) key_slice) (\<lambda>k.
     rbind (seek_for_next E w (get_data_handle w) k False) (\<lambda>cur. read_kv_row E big cur row))"

definition table_get_last ::
    "('s, 'c) engine \<Rightarrow> bool \<Rightarrow> 's wrapper \<Rightarrow> table \<Rightarrow> table_row \<Rightarrow> (int \<times> table_row) res" where
  "table_get_last E big w t row =
     rbind (rbind (table_prefix big t) key_slice) (\<lambda>k.
     rbind (seek_for_prev E w (get_data_handle w) k False) (\<lambda>cur. read_kv_row E big cur row))"

section \<open>TableReader\<close>

record 'c reader =
  rd_table :: table
  rd_iter :: "'c option"
  rd_mutkey :: mut_key
  rd_names :: "bytes list"
  rd_values :: "val list"
  rd_record :: tuple_object

definition reader_new :: "table \<Rightarrow> 'c reader" where
  "reader_new t = \<lparr> rd_table = t, rd_iter = None, rd_mutkey = mut_key_new, rd_names = [], rd_values = [],
     rd_record = tuple_new \<rparr>"

text \<open>The loop that appends the values of a key by the fields of an index.\<close>

fun append_index_values ::
    "(bytes \<Rightarrow> u64) \<Rightarrow> bool \<Rightarrow> table \<Rightarrow> u16 list \<Rightarrow> val list \<Rightarrow> mut_key \<Rightarrow> mut_key res" where
  "append_index_values atof big t ids [] k = Inr k"
| "append_index_values atof big t [] (v # vs) k = Inl OutOfRange"
| "append_index_values atof big t (i # ids) (v # vs) k =
     rbind (field_ptr t i) (\<lambda>fd.
     rbind (field_append_value atof big fd v k) (append_index_values atof big t ids vs))"

definition mut_key_assign :: "mut_key \<Rightarrow> mut_key \<Rightarrow> mut_key res" where
  "mut_key_assign k cv =
     rbind (str_set_move (mk_data k) (mk_data cv)) (\<lambda>(s, _). Inr \<lparr> mk_full = mk_full cv, mk_data = s \<rparr>)"

text \<open>
  The three \<open>seek\<close> functions differ in how the cursor is placed. The index is a pointer, null for a
  table without a primary key.
\<close>

definition reader_seek_by ::
    "('s wrapper \<Rightarrow> handle option \<Rightarrow> bytes \<Rightarrow> 'c res) \<Rightarrow> (bytes \<Rightarrow> u64) \<Rightarrow> bool \<Rightarrow> 's wrapper \<Rightarrow> 'c reader \<Rightarrow>
     index_descriptor option \<Rightarrow> val list \<Rightarrow> (int \<times> 'c reader) res" where
  "reader_seek_by seek atof big w r index key =
     (case index of
        None \<Rightarrow> Inl MemFault
      | Some ix \<Rightarrow>
        if length key > length (ix_fields ix) then Inr (ERR_INVALID_PARAMS, r)
        else rbind (table_prefix big (rd_table r)) (\<lambda>mk.
          rbind (append_index_values atof big (rd_table r) (ix_fields ix) key mk) (\<lambda>mk.
          rbind (key_slice mk) (\<lambda>k.
          rbind (seek w (get_data_handle w) k) (\<lambda>cur.
          rbind (mut_key_assign (rd_mutkey r) mk) (\<lambda>mk.
            Inr (0, r\<lparr> rd_iter := Some cur, rd_mutkey := mk, rd_names := [], rd_values := [] \<rparr>)))))))"

definition reader_seek_to_first ::
    "('s, 'c) engine \<Rightarrow> (bytes \<Rightarrow> u64) \<Rightarrow> bool \<Rightarrow> 's wrapper \<Rightarrow> 'c reader \<Rightarrow> index_descriptor option \<Rightarrow> val list \<Rightarrow>
     (int \<times> 'c reader) res" where
  "reader_seek_to_first E = reader_seek_by (\<lambda>w h k. seek_for_next E w h k True)"

definition reader_seek_to_last ::
    "('s, 'c) engine \<Rightarrow> (bytes \<Rightarrow> u64) \<Rightarrow> bool \<Rightarrow> 's wrapper \<Rightarrow> 'c reader \<Rightarrow> index_descriptor option \<Rightarrow> val list \<Rightarrow>
     (int \<times> 'c reader) res" where
  "reader_seek_to_last E = reader_seek_by (\<lambda>w h k. seek_for_prev E w h k True)"

definition reader_seek_to ::
    "('s, 'c) engine \<Rightarrow> (bytes \<Rightarrow> u64) \<Rightarrow> bool \<Rightarrow> 's wrapper \<Rightarrow> 'c reader \<Rightarrow> index_descriptor option \<Rightarrow> val list \<Rightarrow>
     bool \<Rightarrow> (int \<times> 'c reader) res" where
  "reader_seek_to E atof big w r index key prefix =
     reader_seek_by (\<lambda>w h k. seek_for_next E w h k prefix) atof big w r index key"

text \<open>The overloads without an index; that of \<open>seek_to_last\<close> calls \<open>seek_to_first\<close> as well.\<close>

definition reader_first ::
    "('s, 'c) engine \<Rightarrow> (bytes \<Rightarrow> u64) \<Rightarrow> bool \<Rightarrow> 's wrapper \<Rightarrow> 'c reader \<Rightarrow> (int \<times> 'c reader) res" where
  "reader_first E atof big w r = reader_seek_to_first E atof big w r (td_primarykey (tb_tbl (rd_table r))) []"

definition reader_last ::
    "('s, 'c) engine \<Rightarrow> (bytes \<Rightarrow> u64) \<Rightarrow> bool \<Rightarrow> 's wrapper \<Rightarrow> 'c reader \<Rightarrow> (int \<times> 'c reader) res" where
  "reader_last E atof big w r = reader_seek_to_first E atof big w r (td_primarykey (tb_tbl (rd_table r))) []"

text \<open>The columns of a row: those the record has, and the default of the others.\<close>

definition column_of :: "tuple_object \<Rightarrow> int \<times> field_descriptor \<Rightarrow> val" where
  "column_of trecord x =
     (case tuple_get trecord (fst x) of Some v \<Rightarrow> v | None \<Rightarrow> field_default_value (snd x) VNone)"

definition starts_with :: "bytes \<Rightarrow> bytes \<Rightarrow> bool" where
  "starts_with k p \<longleftrightarrow> take (length p) k = p"

text \<open>\<open>key()\<close> of a cursor requires that it is valid.\<close>

definition cursor_key :: "('s, 'c) engine \<Rightarrow> 'c \<Rightarrow> bytes res" where
  "cursor_key E cur = (if e_valid E cur then Inr (e_key E cur) else Inl MemFault)"

definition show_row :: "tuple_object \<Rightarrow> 'c reader \<Rightarrow> 'c reader" where
  "show_row trecord r =
     (let fs = td_fields (tb_tbl (rd_table r)) in
      r\<lparr> rd_names := (if rd_names r = [] then map (\<lambda>x. fd_name (snd x)) fs else rd_names r),
         rd_values := map (column_of trecord) fs \<rparr>)"

definition reader_next :: "('s, 'c) engine \<Rightarrow> bool \<Rightarrow> 'c reader \<Rightarrow> (int \<times> 'c reader) res" where
  "reader_next E big r =
     (case rd_iter r of
        None \<Rightarrow> Inr (ERR_INVALID_PARAMS, r)
      | Some it \<Rightarrow>
        rbind (key_slice (rd_mutkey r)) (\<lambda>prefix.
          if \<not> e_valid E it then Inr (ERR_INVALID_PARAMS, r)
          else let it = e_next E it; r = r\<lparr> rd_iter := Some it \<rparr> in
            rbind (cursor_key E it) (\<lambda>k.
              if \<not> starts_with k prefix then Inr (ERR_EOF, r)
              else rbind (tuple_deserialize big (e_value E it) tuple_new) (\<lambda>trecord.
                Inr (0, show_row trecord r)))))"

text \<open>\<open>prev\<close> moves the columns out of the member \<open>_record\<close>.\<close>

definition reader_prev :: "('s, 'c) engine \<Rightarrow> bool \<Rightarrow> 'c reader \<Rightarrow> (int \<times> 'c reader) res" where
  "reader_prev E big r =
     (case rd_iter r of
        None \<Rightarrow> Inr (ERR_INVALID_PARAMS, r)
      | Some it \<Rightarrow>
        rbind (key_slice (rd_mutkey r)) (\<lambda>prefix.
          if \<not> e_valid E it then Inr (ERR_INVALID_PARAMS, r)
          else let it = e_prev E it; r = r\<lparr> rd_iter := Some it \<rparr> in
            rbind (cursor_key E it) (\<lambda>k.
              if \<not> starts_with k prefix then Inr (ERR_EOF, r)
              else rbind (tuple_deserialize big (e_value E it) tuple_new) (\<lambda>trecord.
                Inr (0, (show_row trecord r)\<lparr> rd_record :=
                  map (\<lambda>(k, v). (k, if map_of (td_fields (tb_tbl (rd_table r))) k \<noteq> None then VNone else v)) trecord \<rparr>)))))"

definition reader_get_record ::
    "('s, 'c) engine \<Rightarrow> (bytes \<Rightarrow> u64) \<Rightarrow> bool \<Rightarrow> 's wrapper \<Rightarrow> 'c reader \<Rightarrow> val list \<Rightarrow> tuple_object \<Rightarrow> (int \<times> tuple_object) res" where
  "reader_get_record E atof big w r pk record =
     rbind (pk_ids (rd_table r)) (\<lambda>ids.
       if length pk \<noteq> length ids then Inr (ERR_INVALID_PARAMS, record)
       else rbind (table_prefix big (rd_table r)) (\<lambda>mk.
         rbind (rbind (append_index_values atof big (rd_table r) ids pk mk) key_slice) (\<lambda>k.
         rbind (rocks_get E w (get_data_handle w) k) (\<lambda>(c, v).
           if c \<noteq> 0 then Inr (ERR_NOT_FOUND, record)
           else rbind (tuple_deserialize big v record) (\<lambda>record. Inr (0, record))))))"

definition reader_get_row ::
    "('s, 'c) engine \<Rightarrow> (bytes \<Rightarrow> u64) \<Rightarrow> bool \<Rightarrow> 's wrapper \<Rightarrow> 'c reader \<Rightarrow> val list \<Rightarrow> val list \<Rightarrow> (int \<times> val list) res" where
  "reader_get_row E atof big w r pk row =
     rbind (reader_get_record E atof big w r pk tuple_new) (\<lambda>(rc, record).
       if rc \<noteq> 0 then Inr (rc, row)
       else Inr (rc, row @ map (column_of record) (td_fields (tb_tbl (rd_table r)))))"

fun first_column :: "tuple_object \<Rightarrow> (int \<times> field_descriptor) list \<Rightarrow> val option" where
  "first_column trecord [] = None"
| "first_column trecord ((i, fd) # fs) =
     (if fd_flags fd AND FLAG_PrimaryKey \<noteq> 0 then first_column trecord fs
      else case tuple_get trecord i of Some v \<Rightarrow> Some v | None \<Rightarrow> first_column trecord fs)"

definition reader_get_value ::
    "('s, 'c) engine \<Rightarrow> (bytes \<Rightarrow> u64) \<Rightarrow> bool \<Rightarrow> 's wrapper \<Rightarrow> 'c reader \<Rightarrow> val \<Rightarrow> val \<Rightarrow> (int \<times> val \<times> 'c reader) res" where
  "reader_get_value E atof big w r key v =
     rbind (reader_seek_to E atof big w r (td_primarykey (tb_tbl (rd_table r))) [key] False) (\<lambda>(rc, r).
       if rc \<noteq> 0 then Inr (rc, v, r)
       else case rd_iter r of
         None \<Rightarrow> Inl MemFault
       | Some it \<Rightarrow>
         if \<not> e_valid E it then Inr (ERR_INVALID_PARAMS, v, r)
         else rbind (tuple_deserialize big (e_value E it) tuple_new) (\<lambda>trecord.
           case first_column trecord (td_fields (tb_tbl (rd_table r))) of
             Some x \<Rightarrow> Inr (0, x, r)
           | None \<Rightarrow> Inr (-1, v, r)))"

section \<open>The keys of rows\<close>

text \<open>A key whose buffer has no room to spare, which it is after every append.\<close>

definition tight_key :: "mut_key \<Rightarrow> bool" where
  "tight_key k \<longleftrightarrow> key_ok k \<and> Capacity (mk_data k) = Length (mk_data k) + 1"

lemma tight_length: "tight_key k \<Longrightarrow> Length (mk_data k) = int (length (key_view k))"
  by (auto simp: tight_key_def key_ok_def key_view_def str_view_def str_ok_def)

lemma tight_append:
  assumes "tight_key k" "length (key_view k) + length bs + 1 < 2 ^ 25"
  shows "\<exists>k'. key_append k bs = Inr k' \<and> tight_key k' \<and>
    key_view k' = (if bs = [] then key_view k else nul_tail (key_view k)) @ bs"
  using key_append_view [of k bs] assms tight_length [OF assms(1)]
  by (auto simp: tight_key_def)

lemma tight_first:
  "length bs < 2 ^ 24 \<Longrightarrow> \<exists>k. key_append mut_key_new bs = Inr k \<and> tight_key k \<and> key_view k = bs"
  using key_append_first [of bs] by (auto simp: tight_key_def)

lemma write_one: "write_block m k [b] = poke_at m k b"
  by (simp add: write_block_def poke_at_def upd_conv_take_nth_drop)

lemma append_one_char: "key_append_char k c = key_append k [c]"
  by (simp add: key_append_char_def key_append_def str_append_char_def str_append_def
      str_append_from_char_def str_append_from_def write_i_def poke_i_def write_one case_prod_beta cong: if_cong)

lemma zero_key_append:
  assumes "tight_key k" "key_view k = replicate n 0" "n + length bs + 1 < 2 ^ 25"
  shows "\<exists>k'. key_append k bs = Inr k' \<and> tight_key k' \<and> key_view k' = replicate n 0 @ bs"
proof -
  have "nul_tail (replicate n (0 :: u8)) = replicate n 0"
    using nul_tail_hd [of "replicate n (0 :: u8)"] by (cases n) simp_all
  then show ?thesis using tight_append [OF assms(1), of bs] assms(2,3) by (simp split: if_splits)
qed

text \<open>A later append zeroes a key that starts with a zero byte.\<close>

lemma zeroed_append:
  assumes "tight_key k" "key_view k \<noteq> []" "hd (key_view k) = 0" "bs \<noteq> []" "length (key_view k) + length bs + 1 < 2 ^ 25"
  shows "\<exists>k'. key_append k bs = Inr k' \<and> tight_key k' \<and> key_view k' = replicate (length (key_view k)) 0 @ bs"
  using tight_append [OF assms(1,5)] assms(2-4) nul_tail_hd by auto

lemma be_bytes_nonempty: "0 < n \<Longrightarrow> be_bytes n w \<noteq> []"
  by (metis be_bytes_length length_greater_0_conv)

text \<open>The prefix of a table in a database with an id below 2^24, and what is left of it once more is appended.\<close>

lemma table_prefix_zero:
  assumes "uint (dd_id (tb_db t)) < 2 ^ 24"
  shows "\<exists>k. table_prefix big t = Inr k \<and> tight_key k \<and> length (key_view k) = 8 \<and> hd (key_view k) = 0"
proof -
  obtain k where k: "key_append mut_key_new (be_bytes 4 (dd_id (tb_db t))) = Inr k" "tight_key k"
      "key_view k = be_bytes 4 (dd_id (tb_db t))"
    using tight_first [of "be_bytes 4 (dd_id (tb_db t))"] by auto
  have "\<exists>k'. key_append k (be_bytes 4 (td_id (tb_tbl t))) = Inr k' \<and> tight_key k' \<and>
      key_view k' = replicate 4 0 @ be_bytes 4 (td_id (tb_tbl t))"
    using zeroed_append [OF k(2), of "be_bytes 4 (td_id (tb_tbl t))"] k(3) be_bytes_nonempty [of 4] be_bytes_4_hd [OF assms]
    by auto
  then show ?thesis using k by (auto simp: table_prefix_def append_u32_def col_bytes)
qed

lemma key_slice_tight: "tight_key k \<Longrightarrow> key_slice k = Inr (key_view k)"
  by (simp add: tight_key_def key_slice_view)

text \<open>The field of a primary key of one column, and the key of a row in the column family.\<close>

definition key_field :: "table \<Rightarrow> field_descriptor option" where
  "key_field t =
     (case td_primarykey (tb_tbl t) of
        None \<Rightarrow> None
      | Some pk \<Rightarrow> (case ix_fields pk of [i] \<Rightarrow> map_of (td_fields (tb_tbl t)) (uint i) | _ \<Rightarrow> None))"

lemma key_fieldE:
  assumes "key_field t = Some fd"
  obtains i where "pk_ids t = Inr [i]" "field_at t i = Inr fd" "field_ptr t i = Inr fd"
  using assms
  by (auto simp: key_field_def pk_ids_def field_at_def field_ptr_def get_field_by_id_def
      split: option.splits list.splits)

definition row_key :: "(bytes \<Rightarrow> u64) \<Rightarrow> bool \<Rightarrow> table \<Rightarrow> val \<Rightarrow> bytes res" where
  "row_key atof big t v = rbind (key_of_value atof big t v) key_slice"

definition int_key :: "i64 \<Rightarrow> bytes" where "int_key i = replicate 8 0 @ be_bytes 8 (encode_i64 i)"

lemma int_row_key:
  assumes "key_field t = Some fd" "fd_type fd = FT_Int64" "uint (dd_id (tb_db t)) < 2 ^ 24" "to_long v = Inr i"
  shows "row_key atof big t v = Inr (int_key i)"
proof -
  obtain k where k: "table_prefix big t = Inr k" "tight_key k" "length (key_view k) = 8" "hd (key_view k) = 0"
    using table_prefix_zero [OF assms(3)] by blast
  have "key_view k \<noteq> []" using k(3) by auto
  then obtain k' where k': "key_append k (be_bytes 8 (encode_i64 i)) = Inr k'" "tight_key k'"
      "key_view k' = replicate 8 0 @ be_bytes 8 (encode_i64 i)"
    using zeroed_append [OF k(2) _ k(4), of "be_bytes 8 (encode_i64 i)"] k(3)
      be_bytes_nonempty [of 8 "encode_i64 i"] by auto
  obtain j where "pk_ids t = Inr [j]" "field_at t j = Inr fd"
    using key_fieldE [OF assms(1)] by blast
  then show ?thesis
    using k(1) k' assms(2,4)
    by (simp add: row_key_def key_of_value_def vec_at_def field_append_value_def field_types append_i64_def
        col_bytes key_slice_tight int_key_def)
qed

lemma int_key_inj [simp]: "int_key i = int_key j \<longleftrightarrow> i = j"
  by (simp add: int_key_def) (metis decode_encode(4))

text \<open>A string is a key of zeros: the zero byte behind it makes the buffer grow once more.\<close>

lemma string_row_key:
  assumes "key_field t = Some fd" "fd_type fd = FT_String" "uint (dd_id (tb_db t)) < 2 ^ 24" "length s < 0xffffff"
  shows "row_key atof big t (VString s) = Inr (replicate (9 + length s) 0)"
proof -
  obtain k where k: "table_prefix big t = Inr k" "tight_key k" "length (key_view k) = 8" "hd (key_view k) = 0"
    using table_prefix_zero [OF assms(3)] by blast
  obtain k' where k': "key_append k s = Inr k'" "tight_key k'" "length (key_view k') = 8 + length s"
      "hd (key_view k') = 0"
    using tight_append [OF k(2), of s] k(3,4) nul_tail_hd [of "key_view k"] assms(4)
    by (cases "s = []"; cases "key_view k") fastforce+
  have "key_view k' \<noteq> []" using k'(3) by auto
  then obtain k'' where k'': "key_append k' [0] = Inr k''" "tight_key k''"
      "key_view k'' = replicate (8 + length s) 0 @ [0]"
    using zeroed_append [OF k'(2) _ k'(4), of "[0]"] k'(3) assms(4) by auto
  have "value_slice big (VString s) = Inr s" by (simp add: value_slice_def read_block_def)
  moreover have "replicate (8 + length s) (0 :: u8) @ [0] = replicate (9 + length s) 0"
  proof -
    have e: "9 + length s = Suc (8 + length s)" by simp
    show ?thesis unfolding e replicate_Suc by (rule replicate_append_same)
  qed
  moreover obtain j where "pk_ids t = Inr [j]" "field_at t j = Inr fd"
    using key_fieldE [OF assms(1)] by blast
  ultimately show ?thesis
    using k(1) k'(1) k'' assms(2)
    by (simp add: row_key_def key_of_value_def vec_at_def field_append_value_def field_types append_string_def
        append_one_char key_slice_tight)
qed

section \<open>Rows in the column family\<close>

definition data_store :: "'s wrapper \<Rightarrow> handle \<Rightarrow> bool" where
  "data_store w h \<longleftrightarrow> rw_open w \<and> get_data_handle w = Some h"

lemma data_store_db [simp]: "data_store (w\<lparr> rw_db := s \<rparr>) h = data_store w h"
  by (simp add: data_store_def get_data_handle_def get_handle_def)

definition row_bytes :: "bool \<Rightarrow> val \<Rightarrow> val \<Rightarrow> bytes" where
  "row_bytes big k v = 0x0f # object_image big [(1, k), (2, v)] @ [0]"

lemma row_write: "flat_val k \<Longrightarrow> flat_val v \<Longrightarrow> tuple_serialize big [(1, k), (2, v)] 0 [] = Inr (0, row_bytes big k v)"
  using tuple_image [of "[(1, k), (2, v)]" big] by (simp add: flat_object_def row_bytes_def)

lemma row_read: "flat_val k \<Longrightarrow> flat_val v \<Longrightarrow>
    tuple_deserialize big (row_bytes big k v) [] = Inr [(1, val_back k), (2, val_back v)]"
  using tuple_read [of "[(1, k), (2, v)]" big] by (simp add: flat_object_def row_bytes_def)

lemma table_put_eq:
  assumes "data_store w h" "row_key atof big t key = Inr k" "flat_val key" "flat_val v"
    and "e_put E (rw_db w) (Some h) k (row_bytes big key v) = (c, s)"
  shows "table_put E atof big w t key v = Inr (if c = 0 then 0 else ERR_WRITE_ABNORMALITY, w\<lparr> rw_db := s \<rparr>)"
  using assms row_write [OF assms(3,4), of big]
  by (simp add: table_put_def row_key_def data_store_def tuple_insert_def tuple_new_def rocks_put_def
      using_db_open set_db_def write_code_def)

lemma write_code_zero: "(if c = 0 then 0 else ERR_WRITE_ABNORMALITY) = 0 \<longleftrightarrow> c = (0 :: int)"
  by (simp add: ERR_WRITE_ABNORMALITY_def)

text \<open>A write that succeeds puts the row under its key.\<close>

lemma table_put_items:
  assumes "writes_ok E items" "data_store w h" "row_key atof big t key = Inr k" "flat_val key" "flat_val v"
  shows "\<exists>c w'. table_put E atof big w t key v = Inr (c, w') \<and>
    (c = 0 \<longrightarrow> data_store w' h \<and>
       items (rw_db w') = (items (rw_db w))(h := put_item (k, row_bytes big key v) (items (rw_db w) h)))"
proof -
  obtain c s where c: "e_put E (rw_db w) (Some h) k (row_bytes big key v) = (c, s)" by fastforce
  show ?thesis
    using table_put_eq [OF assms(2-5) c] assms(2) writes_okD(2) [OF assms(1), of "rw_db w" h k _ s] c
    by (auto simp: write_code_zero)
qed

lemma table_putE:
  assumes "table_put E atof big w t key v = Inr (0, w')"
    and "writes_ok E items" "data_store w h" "row_key atof big t key = Inr k" "flat_val key" "flat_val v"
  shows "data_store w' h"
    "items (rw_db w') = (items (rw_db w))(h := put_item (k, row_bytes big key v) (items (rw_db w) h))"
  using table_put_items [OF assms(2-6)] assms(1) by auto

lemma ordered_unique: "ordered_items its \<Longrightarrow> (k, v) \<in> set its \<Longrightarrow> (k, v') \<in> set its \<Longrightarrow> v = v'"
  by (induction its) auto

lemma table_get_at:
  assumes "writes_ok E items" "lookups_ok E items" "no_read_errors E" "data_store w h"
    and "key_field t = Some fd" "row_key atof big t key = Inr k"
    and "(k, row_bytes big k1 v1) \<in> set (items (rw_db w) h)" "flat_val k1" "flat_val v1"
  shows "table_get E atof big w t key v = Inr (0, val_back v1)"
proof -
  let ?cur = "e_seek E (e_iter E (rw_db w) (Some h) False) k"
  obtain i where i: "pk_ids t = Inr [i]" "field_at t i = Inr fd" "field_ptr t i = Inr fd"
    using key_fieldE [OF assms(5)] by blast
  obtain p where p: "table_prefix big t = Inr p" "rbind (field_append_value atof big fd key p) key_slice = Inr k"
    using assms(6) i by (auto simp: row_key_def key_of_value_def rbind_eq_Inr vec_at_def)
  have cur: "e_valid E ?cur" "e_key E ?cur = k"
    using seeks_okD [OF assms(2), of k "rw_db w" h False] assms(3,7)
    by (force simp: no_read_errors_def)+
  have "cursor_on E (rw_db w) h ?cur" by blast
  from moves_okD(1) [OF assms(2) this cur(1)] have "e_value E ?cur = row_bytes big k1 v1"
    using ordered_unique [OF writes_okD(1) [OF assms(1)]] assms(7) cur(2) by metis
  then show ?thesis
    using i p cur(1) assms(4) row_read [OF assms(8,9), of big]
    by (simp add: table_get_def vec_at_def seek_for_next_def using_db_open data_store_def tuple_new_def
        tuple_has_def tuple_at_def)
qed

section \<open>An example\<close>

text \<open>A table as \<open>create_kv_table\<close> makes it, and a wrapper whose only column family is \<open>data\<close>.\<close>

definition demo_kv :: "u32 \<Rightarrow> u32 \<Rightarrow> u16 \<Rightarrow> table" where
  "demo_kv db tbl ty = \<lparr> tb_db = dd_new\<lparr> dd_id := db \<rparr>,
     tb_tbl = td_new\<lparr> td_id := tbl,
       td_fields := [(1, fd_new\<lparr> fd_name := [0x6b], fd_id := 1, fd_type := ty, fd_flags := FLAG_PrimaryKey \<rparr>),
                     (2, fd_new\<lparr> fd_name := [0x76], fd_id := 2, fd_type := FT_String \<rparr>)],
       td_primarykey := Some (ix_new\<lparr> ix_fields := [1], ix_type := 1 \<rparr>) \<rparr> \<rparr>"

definition demo_data :: "item list \<Rightarrow> mem_db wrapper" where
  "demo_data its = (wrapper_new [(DATA_CF, its)])\<lparr> rw_open := True, rw_is_init := True, rw_cfs := [DATA_CF \<mapsto> 0] \<rparr>"

lemma demo_data: "data_store (demo_data its) 0" "rw_db (demo_data its) = [(DATA_CF, its)]"
  "ordered_items its \<Longrightarrow> mem_items (rw_db (demo_data its)) 0 = its"
  by (simp_all add: demo_data_def wrapper_new_def data_store_def get_data_handle_def get_handle_def mem_items_def sort_items_id)

lemma demo_kv: "key_field (demo_kv db tbl ty) =
    Some (fd_new\<lparr> fd_name := [0x6b], fd_id := 1, fd_type := ty, fd_flags := FLAG_PrimaryKey \<rparr>)"
  "dd_id (tb_db (demo_kv db tbl ty)) = db" "td_id (tb_tbl (demo_kv db tbl ty)) = tbl"
  by (simp_all add: key_field_def demo_kv_def ix_new_def dd_new_def td_new_def)

lemma demo_int_key: "uint db < 2 ^ 24 \<Longrightarrow> row_key atof big (demo_kv db tbl FT_Int64) (VLong i) = Inr (int_key i)"
  by (rule int_row_key [OF demo_kv(1)]) (simp_all add: demo_kv)

lemmas mem_laws = mem_engine_writes mem_engine_lookups mem_engine_reads

lemma kv_demo_put:
  assumes "data_store w 0" "0 < length (rw_db w)" "row_key atof big t key = Inr k" "flat_val key" "flat_val v"
  shows "\<exists>w'. table_put mem_engine atof big w t key v = Inr (0, w') \<and> data_store w' 0 \<and> length (rw_db w') = length (rw_db w)"
  using table_put_eq [OF assms(1,3-5), of mem_engine 0] assms(1,2) by (auto simp: mem_engine_simps mem_set_def)

lemma demo_put_first:
  assumes "row_key atof big t key = Inr k" "flat_val key" "flat_val v"
  obtains w' where "table_put mem_engine atof big (demo_data its) t key v = Inr (0, w')" "data_store w' 0"
    "length (rw_db w') = 1"
  using kv_demo_put [OF demo_data(1) _ assms, of its] by (auto simp: demo_data(2))

text \<open>A row is read back by its key.\<close>

lemma put_get:
  assumes "writes_ok E items" "lookups_ok E items" "no_read_errors E" "data_store w h"
    and "key_field t = Some fd" "row_key atof big t key = Inr k" "flat_val key" "flat_val v"
    and "table_put E atof big w t key v = Inr (0, w')"
  shows "table_get E atof big w' t key x = Inr (0, val_back v)"
proof -
  note p = table_putE [OF assms(9,1,4,6,7,8)]
  have "(k, row_bytes big key v) \<in> set (items (rw_db w') h)"
    by (simp add: p(2) put_item_def)
  then show ?thesis by (rule table_get_at [OF assms(1-3) p(1) assms(5,6) _ assms(7,8)])
qed

section \<open>Properties\<close>

text \<open>
  C7. A value that \<open>put\<close> stored, whatever the type of the key column is, is what \<open>get\<close> with the same key
  returns, up to what the format does to numbers.
\<close>

theorem table_put_get:
  assumes "writes_ok E items" "lookups_ok E items" "no_read_errors E" "data_store w h"
    and "key_field t = Some fd" "row_key atof big t key = Inr k" "flat_val key" "flat_val v"
    and "table_put E atof big w t key v = Inr (0, w')"
  shows "table_get E atof big w' t key x = Inr (0, val_back v)"
  using assms by (rule put_get)

lemma table_put_get_witness:
  "\<exists>w'. table_put mem_engine (\<lambda>_. 0) False (demo_data []) (demo_kv 1 1 FT_Int64) (VLong 5) (VString [7]) = Inr (0, w') \<and>
     table_get mem_engine (\<lambda>_. 0) False w' (demo_kv 1 1 FT_Int64) (VLong 5) VNone = Inr (0, val_back (VString [7]))"
proof -
  let ?t = "demo_kv 1 1 FT_Int64"
  have k: "row_key (\<lambda>_. 0) False ?t (VLong 5) = Inr (int_key 5)" by (rule demo_int_key) simp
  obtain w' where w': "table_put mem_engine (\<lambda>_. 0) False (demo_data []) ?t (VLong 5) (VString [7]) = Inr (0, w')"
    using demo_put_first [OF k, of "VString [7]" "[]"] by auto
  then show ?thesis
    using table_put_get [OF mem_laws demo_data(1) demo_kv(1) k _ _ w', of VNone] by simp
qed

text \<open>
  C19. Tables are not kept apart. In databases with ids below 2^24 a row that was put into one table
  with an integer key is returned by \<open>get\<close> on every other such table, of any database.
\<close>

theorem table_rows_shared:
  assumes "writes_ok E items" "lookups_ok E items" "no_read_errors E" "data_store w h"
    and "key_field t = Some fd" "fd_type fd = FT_Int64" "uint (dd_id (tb_db t)) < 2 ^ 24"
    and "key_field t2 = Some fd2" "fd_type fd2 = FT_Int64" "uint (dd_id (tb_db t2)) < 2 ^ 24"
    and "flat_val (VLong i)" "flat_val v" "table_put E atof big w t (VLong i) v = Inr (0, w')"
  shows "table_get E atof big w' t2 (VLong i) x = Inr (0, val_back v)"
proof -
  have k: "row_key atof big t (VLong i) = Inr (int_key i)" "row_key atof big t2 (VLong i) = Inr (int_key i)"
    using int_row_key assms(5-10) by simp_all
  note p = table_putE [OF assms(13,1,4) k(1) assms(11,12)]
  have "(int_key i, row_bytes big (VLong i) v) \<in> set (items (rw_db w') h)"
    by (simp add: p(2) put_item_def)
  then show ?thesis by (rule table_get_at [OF assms(1-3) p(1) assms(8) k(2) _ assms(11,12)])
qed

lemma table_rows_shared_witness:
  "\<exists>w'. table_put mem_engine (\<lambda>_. 0) True (demo_data []) (demo_kv 1 1 FT_Int64) (VLong 5) (VString [7]) = Inr (0, w') \<and>
     table_get mem_engine (\<lambda>_. 0) True w' (demo_kv 2 9 FT_Int64) (VLong 5) VNone = Inr (0, val_back (VString [7]))"
proof -
  have k: "row_key (\<lambda>_. 0) True (demo_kv 1 1 FT_Int64) (VLong 5) = Inr (int_key 5)" by (rule demo_int_key) simp
  obtain w' where w': "table_put mem_engine (\<lambda>_. 0) True (demo_data []) (demo_kv 1 1 FT_Int64) (VLong 5) (VString [7]) = Inr (0, w')"
    using demo_put_first [OF k, of "VString [7]" "[]"] by auto
  then show ?thesis
    using table_rows_shared [OF mem_laws demo_data(1) demo_kv(1) _ _ demo_kv(1) [of 2 9 FT_Int64] _ _ _ _ w']
    by (simp add: demo_kv)
qed

text \<open>
  In a table with a string key all keys of one length are one key, so a row replaces every other
  row whose key is as long: after two puts, \<open>get\<close> of the first key returns the second value.
\<close>

theorem string_keys_collide:
  assumes "writes_ok E items" "lookups_ok E items" "no_read_errors E" "data_store w h"
    and "key_field t = Some fd" "fd_type fd = FT_String" "uint (dd_id (tb_db t)) < 2 ^ 24"
    and "length a = length b" "length b < 0xffffff" "flat_val v" "flat_val u"
    and "table_put E atof big w t (VString a) v = Inr (0, w1)" "table_put E atof big w1 t (VString b) u = Inr (0, w2)"
  shows "table_get E atof big w2 t (VString a) x = Inr (0, val_back u)"
proof -
  have k: "row_key atof big t (VString s) = Inr (replicate (9 + length b) 0)" if "length s = length b" for s
    using string_row_key [OF assms(5-7), of s] that assms(9) by simp
  have fl: "flat_val (VString a)" "flat_val (VString b)" using assms(8,9) by simp_all
  note p1 = table_putE [OF assms(12,1,4) k [OF assms(8)] fl(1) assms(10)]
  note p2 = table_putE [OF assms(13,1) p1(1) k [OF refl] fl(2) assms(11)]
  have "(replicate (9 + length b) 0, row_bytes big (VString b) u) \<in> set (items (rw_db w2) h)"
    by (simp add: p2(2) put_item_def)
  then show ?thesis by (rule table_get_at [OF assms(1-3) p2(1) assms(5) k [OF assms(8)] _ fl(2) assms(11)])
qed

lemma string_keys_collide_witness:
  "\<exists>w1 w2. table_put mem_engine (\<lambda>_. 0) True (demo_data []) (demo_kv 1 1 FT_String) (VString [1]) (VLong 3) = Inr (0, w1) \<and>
     table_put mem_engine (\<lambda>_. 0) True w1 (demo_kv 1 1 FT_String) (VString [2]) (VLong 4) = Inr (0, w2) \<and>
     table_get mem_engine (\<lambda>_. 0) True w2 (demo_kv 1 1 FT_String) (VString [1]) VNone = Inr (0, val_back (VLong 4))"
proof -
  let ?t = "demo_kv 1 1 FT_String"
  have k: "row_key (\<lambda>_. 0) True ?t (VString s) = Inr (replicate (9 + length s) 0)" if "length s < 0xffffff" for s
    by (rule string_row_key [OF demo_kv(1)]) (simp_all add: demo_kv that)
  have k1: "row_key (\<lambda>_. 0) True ?t (VString [1]) = Inr (replicate 10 0)"
    "row_key (\<lambda>_. 0) True ?t (VString [2]) = Inr (replicate 10 0)"
    using k [of "[1]"] k [of "[2]"] by simp_all
  obtain w1 where w1: "table_put mem_engine (\<lambda>_. 0) True (demo_data []) ?t (VString [1]) (VLong 3) = Inr (0, w1)"
      "data_store w1 0" "length (rw_db w1) = 1"
    using demo_put_first [OF k1(1), of "VLong 3" "[]"] by auto
  obtain w2 where w2: "table_put mem_engine (\<lambda>_. 0) True w1 ?t (VString [2]) (VLong 4) = Inr (0, w2)"
    using kv_demo_put [OF w1(2) _ k1(2), of "VLong 4"] w1(3) by auto
  have "table_get mem_engine (\<lambda>_. 0) True w2 ?t (VString [1]) VNone = Inr (0, val_back (VLong 4))"
    by (rule string_keys_collide [OF mem_laws demo_data(1) demo_kv(1) _ _ _ _ _ _ w1(1) w2])
      (simp_all add: demo_kv)
  then show ?thesis using w1(1) w2 by blast
qed

section \<open>Integer keys among each other\<close>

lemma int_key_length [simp]: "length (int_key i) = 16"
  by (simp add: int_key_def)

lemma range_key_int:
  assumes "key_field t = Some fd" "fd_type fd = FT_Int64" "uint (dd_id (tb_db t)) < 2 ^ 24" "to_long v = Inr i"
  shows "range_key atof big t v = Inr (replicate 24 0 @ be_bytes 8 (encode_i64 i))"
proof -
  obtain j where j: "pk_ids t = Inr [j]" "field_at t j = Inr fd"
    using key_fieldE [OF assms(1)] by blast
  obtain k where k: "table_prefix big t = Inr k" "tight_key k" "length (key_view k) = 8" "hd (key_view k) = 0"
    using table_prefix_zero [OF assms(3)] by blast
  let ?c = "be_bytes 8 (encode_i64 i)" and ?d = "be_bytes 4 (dd_id (tb_db t))" and ?e = "be_bytes 4 (td_id (tb_tbl t))"
  have step: "\<exists>k'. key_append k bs = Inr k' \<and> tight_key k' \<and> key_view k' = replicate (length (key_view k)) 0 @ bs"
    if "tight_key k" "key_view k \<noteq> []" "hd (key_view k) = 0" "bs \<noteq> []" "length (key_view k) + length bs < 100" for k bs
    using zeroed_append [OF that(1-4)] that(5) by simp
  have hd: "hd (replicate n (0 :: u8) @ bs) = 0" if "0 < n" for n bs using that by (cases n) auto
  have ne: "key_view k \<noteq> []" using k(3) by auto
  obtain k1 where k1: "key_append k ?c = Inr k1" "tight_key k1" "key_view k1 = replicate 8 0 @ ?c"
    using step [OF k(2) ne k(4), of ?c] k(3) be_bytes_nonempty [of 8] by auto
  obtain k2 where k2: "key_append k1 ?d = Inr k2" "tight_key k2" "key_view k2 = replicate 16 0 @ ?d"
    using step [OF k1(2), of ?d] k1(3) be_bytes_nonempty [of 4] hd [of 8] by auto
  obtain k3 where k3: "key_append k2 ?e = Inr k3" "tight_key k3" "key_view k3 = replicate 20 0 @ ?e"
    using step [OF k2(2), of ?e] k2(3) be_bytes_nonempty [of 4] hd [of 16] by auto
  obtain k4 where k4: "key_append k3 ?c = Inr k4" "tight_key k4" "key_view k4 = replicate 24 0 @ ?c"
    using step [OF k3(2), of ?c] k3(3) be_bytes_nonempty [of 8] hd [of 20] by auto
  show ?thesis
    using j k(1) k1(1) k2(1) k3(1) k4 assms(2,4)
    by (simp add: range_key_def key_of_value_def vec_at_def field_append_value_def field_types append_i64_def
        append_u32_def col_bytes key_slice_tight)
qed

lemma be_bytes_prefix_less:
  "p @ be_bytes 8 (a :: u64) @ r < p @ be_bytes 8 b @ s \<longleftrightarrow> a < b \<or> a = b \<and> r < s"
  using c_u64.code_prefix [of p True a r b s] by (simp add: col_bytes)

lemma be_bytes_zero: "be_bytes n (0 :: u64) = replicate n 0"
  by (simp add: be_bytes_def map_replicate_const)

text \<open>No row key lies at or behind the key of a range and before another one.\<close>

lemma int_key_outside:
  "\<not> (replicate 24 0 @ be_bytes 8 (a :: u64) \<le> int_key r \<and> int_key r < replicate 24 0 @ be_bytes 8 (b :: u64))"
proof -
  have split: "replicate 24 0 @ be_bytes 8 c = replicate 8 0 @ be_bytes 8 (0 :: u64) @ replicate 8 0 @ be_bytes 8 c"
    for c :: u64
    by (simp add: be_bytes_zero replicate_add [symmetric] flip: append_assoc)
  have k: "int_key r = replicate 8 0 @ be_bytes 8 (encode_i64 r) @ []" by (simp add: int_key_def)
  have ne: "replicate 8 (0 :: u8) @ be_bytes 8 c \<noteq> []" for c :: u64 by simp
  show ?thesis
  proof (cases "encode_i64 r = 0")
    case True
    then have "int_key r < replicate 24 0 @ be_bytes 8 a"
      using be_bytes_prefix_less [of "replicate 8 0" 0 "[]" 0 "replicate 8 0 @ be_bytes 8 a"] ne [of a]
      unfolding split k by (cases "replicate 8 (0 :: u8) @ be_bytes 8 a") auto
    then show ?thesis by (simp add: not_le)
  next
    case False
    then have "replicate 24 0 @ be_bytes 8 b < int_key r"
      using be_bytes_prefix_less [of "replicate 8 0" 0 "replicate 8 0 @ be_bytes 8 b" "encode_i64 r" "[]"]
      unfolding split k by (simp add: word_greater_zero_iff)
    then show ?thesis by (simp add: not_less less_imp_le)
  qed
qed

text \<open>A family that holds rows with integer keys only.\<close>

definition int_rows_only :: "item list \<Rightarrow> bool" where
  "int_rows_only its \<longleftrightarrow> (\<forall>x \<in> set its. \<exists>i. fst x = int_key i)"

lemma int_key_before_prefix:
  assumes "td_id (tb_tbl t) \<noteq> 0" "uint (dd_id (tb_db t)) < 2 ^ 24" "table_prefix big t = Inr k"
  shows "int_key i < key_view k" "tight_key k"
proof -
  obtain k1 where k1: "key_append mut_key_new (be_bytes 4 (dd_id (tb_db t))) = Inr k1" "tight_key k1"
      "key_view k1 = be_bytes 4 (dd_id (tb_db t))"
    using tight_first [of "be_bytes 4 (dd_id (tb_db t))"] by auto
  obtain k2 where k2: "key_append k1 (be_bytes 4 (td_id (tb_tbl t))) = Inr k2" "tight_key k2"
      "key_view k2 = replicate 4 0 @ be_bytes 4 (td_id (tb_tbl t))"
    using zeroed_append [OF k1(2), of "be_bytes 4 (td_id (tb_tbl t))"] k1(3) be_bytes_nonempty [of 4]
      be_bytes_4_hd [OF assms(2)] by auto
  have k: "k = k2" using assms(3) k1(1) k2(1) by (simp add: table_prefix_def append_u32_def col_bytes)
  then show "tight_key k" using k2(2) by simp
  have z: "replicate 8 (0 :: u8) = replicate 4 0 @ be_bytes 4 (0 :: u32)"
    by (simp add: be_bytes_def map_replicate_const replicate_add [symmetric])
  have "0 < td_id (tb_tbl t)" using assms(1) by (simp add: word_greater_zero_iff)
  then have "replicate 4 0 @ be_bytes 4 (0 :: u32) @ be_bytes 8 (encode_i64 i) < replicate 4 0 @ be_bytes 4 (td_id (tb_tbl t)) @ []"
    using c_u32.code_prefix [of "replicate 4 0" True 0 "be_bytes 8 (encode_i64 i)" "td_id (tb_tbl t)" "[]"]
    by (simp add: col_bytes)
  then show "int_key i < key_view k" by (simp add: int_key_def z k k2(3))
qed

lemma mut_key_assign_tight:
  assumes "tight_key k"
  shows "mut_key_assign k0 k = Inr k"
proof -
  have "Owned (mk_data k)" using assms by (auto simp: tight_key_def key_ok_def str_ok_def split: if_splits)
  then show ?thesis by (cases k; cases "mk_data k") (simp add: mut_key_assign_def str_set_move_def)
qed

lemma kv_demo_items: "ordered_items its \<Longrightarrow> mem_items [(DATA_CF, its)] 0 = its"
  using demo_data(3) [of its] by (simp add: demo_data(2))

section \<open>Further properties\<close>

lemma count_removes_data:
  "\<exists>u. count_removes E w (Some h) = Inr u \<and> rw_db u = rw_db w \<and> rw_open u = rw_open w \<and>
     get_data_handle u = get_data_handle w"
  by (auto simp: count_removes_def get_data_handle_def get_handle_def)

lemma remove_range_items:
  assumes "writes_ok E items" "data_store w h"
    and "key_field t = Some fd" "fd_type fd = FT_Int64" "uint (dd_id (tb_db t)) < 2 ^ 24"
    and "int_rows_only (items (rw_db w) h)"
  shows "\<exists>c w'. table_remove_range E atof big w t (VLong i) (VLong j) = Inr (c, w') \<and>
    (c = 0 \<longrightarrow> data_store w' h \<and> items (rw_db w') = items (rw_db w))"
proof -
  let ?a = "replicate 24 0 @ be_bytes 8 (encode_i64 i)" and ?b = "replicate 24 0 @ be_bytes 8 (encode_i64 j)"
  have rk: "range_key atof big t (VLong n) = Inr (replicate 24 0 @ be_bytes 8 (encode_i64 n))" for n
    by (rule range_key_int [OF assms(3-5)]) simp
  obtain u where u: "count_removes E w (Some h) = Inr u" "rw_db u = rw_db w" "rw_open u = rw_open w"
      "get_data_handle u = get_data_handle w"
    using count_removes_data [of E w h] by blast
  obtain c s where c: "e_delete_range E (rw_db w) (Some h) ?a ?b = (c, s)" by fastforce
  obtain p where "pk_ids t = Inr p" using key_fieldE [OF assms(3)] by blast
  then have r: "table_remove_range E atof big w t (VLong i) (VLong j) =
      Inr (if c = 0 then 0 else ERR_WRITE_ABNORMALITY, u\<lparr> rw_db := s \<rparr>)"
    using assms(2) rk u c
    by (simp add: table_remove_range_def rocks_remove_range_def data_store_def using_db_open set_db_def write_code_def)
  have "delete_items ?a ?b (items (rw_db w) h) = items (rw_db w) h"
    unfolding delete_items_def using assms(6) int_key_outside
    by (intro filter_True) (auto simp: int_rows_only_def)
  then show ?thesis
    using writes_okD(4) [OF assms(1), of "rw_db w" h ?a ?b s] r c u assms(2) data_store_db [where w = u and s = s and h = h]
    by (auto simp: write_code_zero data_store_def fun_upd_idem simp del: data_store_db)
qed

text \<open>
  \<open>remove_range\<close> removes nothing. Its bounds have the ids and the value twice and all but the last
  value zeroed, and no row with an integer key lies between two of them.
\<close>

theorem remove_range_keeps:
  assumes "writes_ok E items" "data_store w h"
    and "key_field t = Some fd" "fd_type fd = FT_Int64" "uint (dd_id (tb_db t)) < 2 ^ 24"
    and "int_rows_only (items (rw_db w) h)"
    and "table_remove_range E atof big w t (VLong i) (VLong j) = Inr (0, w')"
  shows "items (rw_db w') = items (rw_db w)"
  using remove_range_items [OF assms(1-6), of atof big i j] assms(7) by auto

lemma remove_range_keeps_witness:
  "\<exists>w'. table_remove_range mem_engine (\<lambda>_. 0) True (demo_data [(int_key 3, [7])]) (demo_kv 1 1 FT_Int64) (VLong 1) (VLong 9) = Inr (0, w') \<and>
     mem_items (rw_db w') = mem_items (rw_db (demo_data [(int_key 3, [7])]))"
proof -
  let ?w = "demo_data [(int_key 3, [7])]" and ?t = "demo_kv 1 1 FT_Int64"
  have rk: "range_key (\<lambda>_. 0) True ?t (VLong n) = Inr (replicate 24 0 @ be_bytes 8 (encode_i64 n))" for n
    by (rule range_key_int [OF demo_kv(1)]) (simp_all add: demo_kv)
  obtain u where u: "count_removes mem_engine ?w (Some 0) = Inr u" "rw_db u = rw_db ?w" "rw_open u = rw_open ?w"
    using count_removes_Some [of mem_engine ?w 0] by blast
  obtain ids where ids: "pk_ids ?t = Inr ids" using key_fieldE [OF demo_kv(1) [of 1 1 FT_Int64]] by blast
  have "\<exists>w'. table_remove_range mem_engine (\<lambda>_. 0) True ?w ?t (VLong 1) (VLong 9) = Inr (0, w')"
    using ids rk u demo_data(1) [of "[(int_key 3, [7])]"]
    by (auto simp: table_remove_range_def rocks_remove_range_def data_store_def using_db_open set_db_def
        write_code_def mem_engine_simps mem_set_def demo_data(2))
  then obtain w' where w': "table_remove_range mem_engine (\<lambda>_. 0) True ?w ?t (VLong 1) (VLong 9) = Inr (0, w')" by blast
  then show ?thesis
    using remove_range_keeps [OF mem_engine_writes demo_data(1) demo_kv(1) _ _ _ w']
    by (auto simp: demo_kv demo_data(2) kv_demo_items int_rows_only_def)
qed



text \<open>
  A table with an id other than 0 cannot be read from its start: with integer keys in the family
  every row is before the prefix of the table, so \<open>get_first\<close> reports invalid parameters, and so does
  the first \<open>next\<close> of a reader on the whole table.
\<close>

theorem table_first_invalid:
  assumes "lookups_ok E items" "data_store w h" "td_id (tb_tbl t) \<noteq> 0" "uint (dd_id (tb_db t)) < 2 ^ 24"
    and "td_primarykey (tb_tbl t) = Some pk" "int_rows_only (items (rw_db w) h)"
  shows "table_get_first E big w t row = Inr (ERR_INVALID_PARAMS, row) \<and>
    (\<exists>r. reader_first E atof big w (reader_new t) = Inr (0, r) \<and> reader_next E big r = Inr (ERR_INVALID_PARAMS, r))"
proof -
  obtain k where k: "table_prefix big t = Inr k" using table_prefix_zero [OF assms(4)] by blast
  note p = int_key_before_prefix [OF assms(3,4) k]
  have inv: "\<not> e_valid E (e_seek E (e_iter E (rw_db w) (Some h) b) (key_view k))" for b
  proof
    assume v: "e_valid E (e_seek E (e_iter E (rw_db w) (Some h) b) (key_view k))"
    have "cursor_on E (rw_db w) h (e_seek E (e_iter E (rw_db w) (Some h) b) (key_view k))" by blast
    from moves_okD(1) [OF assms(1) this v] obtain i where
      "e_key E (e_seek E (e_iter E (rw_db w) (Some h) b) (key_view k)) = int_key i"
      using assms(6) by (force simp: int_rows_only_def)
    then show False
      using moves_okD(2) [OF assms(1) on_iter v] p(1) [of i] by (simp add: not_less)
  qed
  show ?thesis
    using assms(2,5) inv k key_slice_tight [OF p(2)] mut_key_assign_tight [OF p(2)]
    by (simp add: table_get_first_def seek_for_next_def using_db_open data_store_def read_kv_row_def
        reader_first_def reader_seek_to_first_def reader_seek_by_def reader_new_def reader_next_def)
qed

lemma table_first_invalid_witness:
  "table_get_first mem_engine False (demo_data [(int_key 3, [7])]) (demo_kv 1 1 FT_Int64) row_new = Inr (ERR_INVALID_PARAMS, row_new) \<and>
    (\<exists>r. reader_first mem_engine (\<lambda>_. 0) False (demo_data [(int_key 3, [7])]) (reader_new (demo_kv 1 1 FT_Int64)) = Inr (0, r) \<and>
       reader_next mem_engine False r = Inr (ERR_INVALID_PARAMS, r))"
  by (rule table_first_invalid [OF mem_engine_lookups demo_data(1), where pk = "ix_new\<lparr> ix_fields := [1], ix_type := 1 \<rparr>"])
    (auto simp: demo_kv demo_data(2) kv_demo_items int_rows_only_def, simp add: demo_kv_def)

text \<open>A copy of a key that starts with a zero byte is empty.\<close>

lemma mut_key_copy_empty:
  assumes "tight_key k" "key_view k \<noteq> []" "hd (key_view k) = 0"
  shows "\<exists>k'. mut_key_copy junk k = Inr k' \<and> key_slice k' = Inr []"
proof -
  have "str_ok (mk_data k)" using assms(1) by (simp add: tight_key_def key_ok_def)
  then have "nul_pos (mem (mk_data k)) = 0" "mem (mk_data k) \<noteq> []"
    using assms(2,3) by (cases "mem (mk_data k)"; simp add: key_view_def str_view_def str_ok_def nul_pos_def take_Cons' split: if_splits)+
  moreover obtain b m where "mem (mk_data k) = b # m" using calculation(2) by (cases "mem (mk_data k)") auto
  moreover from this calculation(1) have "b = 0" by (auto simp: nul_pos_def split: if_splits)
  ultimately have "str_set_copy junk str_new (mk_data k) = str_store junk str_new ([] @ [0])"
    by (simp add: str_set_copy_def strlen_def)
  then obtain s where "str_set_copy junk str_new (mk_data k) = Inr s" "str_ok s" "str_view s = []"
    using store_view [of str_new "[]" junk] by auto
  then show ?thesis by (simp add: mut_key_copy_def key_slice_view key_ok_def key_view_def)
qed

lemma int_mut_key:
  assumes "key_field t = Some fd" "fd_type fd = FT_Int64" "uint (dd_id (tb_db t)) < 2 ^ 24"
  obtains k where "key_of_value atof big t (VLong i) = Inr k" "tight_key k" "key_view k = int_key i"
proof -
  obtain p where p: "table_prefix big t = Inr p" "tight_key p" "length (key_view p) = 8" "hd (key_view p) = 0"
    using table_prefix_zero [OF assms(3)] by blast
  have "key_view p \<noteq> []" using p(3) by auto
  then obtain k where k: "key_append p (be_bytes 8 (encode_i64 i)) = Inr k" "tight_key k"
      "key_view k = replicate 8 0 @ be_bytes 8 (encode_i64 i)"
    using zeroed_append [OF p(2) _ p(4), of "be_bytes 8 (encode_i64 i)"] p(3)
      be_bytes_nonempty [of 8 "encode_i64 i"] by auto
  obtain j where "pk_ids t = Inr [j]" "field_at t j = Inr fd"
    using key_fieldE [OF assms(1)] by blast
  then have "key_of_value atof big t (VLong i) = Inr k"
    using p(1) k(1) assms(2)
    by (simp add: key_of_value_def vec_at_def field_append_value_def field_types append_i64_def col_bytes)
  then show ?thesis using that k(2,3) by (simp add: int_key_def)
qed

lemma remove_two_keys:
  assumes "data_store w h" "\<forall>b k. e_batch_delete E b (Some h) k = 0"
    and "key_field t = Some fd" "fd_type fd = FT_Int64" "uint (dd_id (tb_db t)) < 2 ^ 24"
  shows "table_remove_keys E atof big junk w t [VLong i, VLong j] =
    Inr (write_code (set_db w (e_write E (rw_db w) [(Some h, BatchDelete []), (Some h, BatchDelete (int_key j))])))"
proof -
  obtain k1 where k1: "key_of_value atof big t (VLong i) = Inr k1" "tight_key k1" "key_view k1 = int_key i"
    by (rule int_mut_key [OF assms(3-5)])
  obtain k2 where k2: "key_of_value atof big t (VLong j) = Inr k2" "tight_key k2" "key_view k2 = int_key j"
    by (rule int_mut_key [OF assms(3-5)])
  have hd: "int_key i \<noteq> []" "hd (int_key i) = 0" by (simp_all add: int_key_def numeral_eq_Suc)
  obtain k1' where k1': "mut_key_copy junk k1 = Inr k1'" "key_slice k1' = Inr []"
    using mut_key_copy_empty [OF k1(2), of junk] k1(3) hd by auto
  have keys: "collect_keys atof big junk t [VLong i, VLong j] (0, []) = Inr (2, [k1', k2])"
    using k1(1) k2(1) k1'(1) by (simp add: emplace_key_def)
  have "delete_batch E (Some h) [k1', k2] [] = Inr [(Some h, BatchDelete []), (Some h, BatchDelete (int_key j))]"
    using k1'(2) key_slice_tight [OF k2(2)] k2(3) assms(2) by simp
  then show ?thesis
    unfolding table_remove_keys_def using keys assms(1)
    by (simp add: data_store_def rocks_write_def using_db_open del: collect_keys.simps delete_batch.simps)
qed

text \<open>
  \<open>remove\<close> of two keys removes the second row only: when the vector of the keys grows, the copy of the
  first key ends at its first zero byte, and what is deleted is the empty key.
\<close>

theorem remove_keys_loses_first:
  assumes "writes_ok E items" "data_store w h" "\<forall>b k. e_batch_delete E b (Some h) k = 0"
    and "key_field t = Some fd" "fd_type fd = FT_Int64" "uint (dd_id (tb_db t)) < 2 ^ 24"
    and "table_remove_keys E atof big junk w t [VLong i, VLong j] = Inr (0, w')"
  shows "items (rw_db w') h = delete_item (int_key j) (delete_item [] (items (rw_db w) h))"
proof -
  let ?b = "[(Some h, BatchDelete []), (Some h, BatchDelete (int_key j))]"
  obtain c s where c: "e_write E (rw_db w) ?b = (c, s)" by fastforce
  have "c = 0" "rw_db w' = s"
    using assms(7) remove_two_keys [OF assms(2-6), of atof big junk i j] c
    by (auto simp: set_db_def write_code_def ERR_WRITE_ABNORMALITY_def split: if_splits)
  then show ?thesis using writes_okD(5) [OF assms(1), of ?b "rw_db w" s] c by simp
qed

lemma remove_keys_loses_first_witness:
  "\<exists>w'. table_remove_keys mem_engine (\<lambda>_. 0) True 1 (demo_data [(int_key 3, [7]), (int_key 9, [8])]) (demo_kv 1 1 FT_Int64)
      [VLong 3, VLong 9] = Inr (0, w') \<and>
     mem_items (rw_db w') 0 = delete_item (int_key 9) (delete_item [] (mem_items (rw_db (demo_data [(int_key 3, [7]), (int_key 9, [8])])) 0))"
proof -
  let ?w = "demo_data [(int_key 3, [7]), (int_key 9, [8])]" and ?t = "demo_kv 1 1 FT_Int64"
  have del: "\<forall>b k. e_batch_delete mem_engine b (Some 0) k = 0" by (simp add: mem_engine_simps)
  note e = remove_two_keys [OF demo_data(1) del demo_kv(1), where atof = "\<lambda>_. 0" and big = True and junk = 1 and i = 3 and j = 9]
  obtain w' where w': "table_remove_keys mem_engine (\<lambda>_. 0) True 1 ?w ?t [VLong 3, VLong 9] = Inr (0, w')"
    using e by (simp add: demo_kv mem_engine_simps write_code_def set_db_def demo_data(2) mem_set_def)
  then show ?thesis
    using remove_keys_loses_first [OF mem_engine_writes demo_data(1) del demo_kv(1) _ _ w'] by (simp add: demo_kv)
qed

end
