(* ===== verification/Table_Map.thy ===== *)
theory Table_Map
  imports Table_Store
begin

text \<open>
  A table with one integer key column as a finite map: what \<open>TableOperator\<close> writes and \<open>TableReader::get\<close>
  returns, for any sequence of calls. The contract of such a store is a locale, which the operations of
  the table provide.
\<close>

section \<open>The contract of a keyed store\<close>

text \<open>
  A store holds a map of keys to what is read back for them. A call that reports an error leaves nothing to
  rely on; \<open>clear\<close> stands for the calls that remove nothing.
\<close>

datatype ('k, 'v) store_op = Put 'k 'v | Remove 'k | Clear 'k 'k

fun spec_op :: "('v \<Rightarrow> 'v) \<Rightarrow> ('k, 'v) store_op \<Rightarrow> ('k \<Rightarrow> 'v option) \<Rightarrow> 'k \<Rightarrow> 'v option" where
  "spec_op stored (Put k v) m = m(k \<mapsto> stored v)"
| "spec_op stored (Remove k) m = m(k := None)"
| "spec_op stored (Clear a b) m = m"

locale keyed_store =
  fixes holds :: "'s \<Rightarrow> ('k \<Rightarrow> 'v option) \<Rightarrow> bool"
    and key_ok :: "'k \<Rightarrow> bool" and val_ok :: "'v \<Rightarrow> bool" and stored :: "'v \<Rightarrow> 'v"
    and put :: "'s \<Rightarrow> 'k \<Rightarrow> 'v \<Rightarrow> (int \<times> 's) res"
    and remove :: "'s \<Rightarrow> 'k \<Rightarrow> (int \<times> 's) res"
    and clear :: "'s \<Rightarrow> 'k \<Rightarrow> 'k \<Rightarrow> (int \<times> 's) res"
    and lookup :: "'s \<Rightarrow> 'k \<Rightarrow> 'v option res"
  assumes put: "holds s m \<Longrightarrow> key_ok k \<Longrightarrow> val_ok v \<Longrightarrow>
        \<exists>c s'. put s k v = Inr (c, s') \<and> (c = 0 \<longrightarrow> holds s' (m(k \<mapsto> stored v)))"
    and remove: "holds s m \<Longrightarrow> key_ok k \<Longrightarrow> \<exists>c s'. remove s k = Inr (c, s') \<and> (c = 0 \<longrightarrow> holds s' (m(k := None)))"
    and clear: "holds s m \<Longrightarrow> key_ok a \<Longrightarrow> key_ok b \<Longrightarrow> \<exists>c s'. clear s a b = Inr (c, s') \<and> (c = 0 \<longrightarrow> holds s' m)"
    and lookup: "holds s m \<Longrightarrow> key_ok k \<Longrightarrow> lookup s k = Inr (m k)"
begin

fun op_ok :: "('k, 'v) store_op \<Rightarrow> bool" where
  "op_ok (Put k v) = (key_ok k \<and> val_ok v)"
| "op_ok (Remove k) = key_ok k"
| "op_ok (Clear a b) = (key_ok a \<and> key_ok b)"

fun do_op :: "('k, 'v) store_op \<Rightarrow> 's \<Rightarrow> (int \<times> 's) res" where
  "do_op (Put k v) s = put s k v"
| "do_op (Remove k) s = remove s k"
| "do_op (Clear a b) s = clear s a b"

lemma do_op:
  assumes "holds s m" "op_ok x"
  shows "\<exists>c s'. do_op x s = Inr (c, s') \<and> (c = 0 \<longrightarrow> holds s' (spec_op stored x m))"
  using assms put remove clear by (cases x) auto

text \<open>Calls one after the other, up to the first that fails.\<close>

fun do_ops :: "('k, 'v) store_op list \<Rightarrow> 's \<Rightarrow> (int \<times> 's) res" where
  "do_ops [] s = Inr (0, s)"
| "do_ops (x # xs) s = rbind (do_op x s) (\<lambda>(c, s). if c \<noteq> 0 then Inr (c, s) else do_ops xs s)"

lemma do_ops:
  assumes "holds s m" "\<forall>x \<in> set xs. op_ok x"
  shows "\<exists>c s'. do_ops xs s = Inr (c, s') \<and> (c = 0 \<longrightarrow> holds s' (fold (spec_op stored) xs m))"
  using assms
proof (induction xs arbitrary: s m)
  case (Cons x xs)
  obtain c s' where c: "do_op x s = Inr (c, s')" "c = 0 \<longrightarrow> holds s' (spec_op stored x m)"
    using do_op [OF Cons.prems(1), of x] Cons.prems(2) by auto
  then show ?case using Cons.IH [of s' "spec_op stored x m"] Cons.prems(2) by auto
qed simp

lemma read_back:
  assumes "holds s m" "\<forall>x \<in> set xs. op_ok x" "do_ops xs s = Inr (0, s')" "key_ok k"
  shows "lookup s' k = Inr (fold (spec_op stored) xs m k)"
  using do_ops [OF assms(1,2)] assms(3,4) lookup by auto

end

section \<open>A table as a keyed store\<close>

text \<open>The rows of the family are those of the map. \<open>val_back\<close> is what the format does to a value.\<close>

definition table_holds ::
    "('s, 'c) engine \<Rightarrow> ('s \<Rightarrow> handle \<Rightarrow> item list) \<Rightarrow> bool \<Rightarrow> table \<Rightarrow> handle \<Rightarrow> 's wrapper \<Rightarrow> (i64 \<Rightarrow> val option) \<Rightarrow> bool" where
  "table_holds E items big t h w m \<longleftrightarrow>
     writes_ok E items \<and> lookups_ok E items \<and> no_read_errors E \<and> data_store w h \<and>
     (\<exists>fd. key_field t = Some fd \<and> fd_type fd = FT_Int64) \<and> uint (dd_id (tb_db t)) < 2 ^ 24 \<and>
     (\<forall>x \<in> set (items (rw_db w) h). \<exists>i v. x = (int_key i, row_bytes big (VLong i) v) \<and>
        flat_val (VLong i) \<and> flat_val v \<and> m i = Some (val_back v)) \<and>
     (\<forall>i. m i \<noteq> None \<longrightarrow> int_key i \<in> fst ` set (items (rw_db w) h))"

text \<open>\<open>TableReader::get\<close> of one key, and the value of the record.\<close>

definition table_lookup ::
    "('s, 'c) engine \<Rightarrow> (bytes \<Rightarrow> u64) \<Rightarrow> bool \<Rightarrow> table \<Rightarrow> 's wrapper \<Rightarrow> i64 \<Rightarrow> val option res" where
  "table_lookup E atof big t w i =
     rbind (reader_get_record E atof big w (reader_new t :: 'c reader) [VLong i] tuple_new) (\<lambda>(c, r).
       Inr (if c = 0 then tuple_get r 2 else None))"

definition long_ok :: "i64 \<Rightarrow> bool" where "long_ok i \<longleftrightarrow> flat_val (VLong i)"

lemma table_holdsE:
  assumes "table_holds E items big t h w m"
  obtains fd where "writes_ok E items" "lookups_ok E items" "no_read_errors E" "data_store w h" "key_field t = Some fd"
    "fd_type fd = FT_Int64" "uint (dd_id (tb_db t)) < 2 ^ 24"
  using assms unfolding table_holds_def by blast

lemma table_holdsI:
  assumes "table_holds E items big t h w m" "data_store w' h"
    and "\<And>x. x \<in> set (items (rw_db w') h) \<Longrightarrow> \<exists>i v. x = (int_key i, row_bytes big (VLong i) v) \<and>
        flat_val (VLong i) \<and> flat_val v \<and> m' i = Some (val_back v)"
    and "\<And>i. m' i \<noteq> None \<Longrightarrow> int_key i \<in> fst ` set (items (rw_db w') h)"
  shows "table_holds E items big t h w' m'"
  using assms unfolding table_holds_def by blast

lemma holds_row:
  "table_holds E items big t h w m \<Longrightarrow> x \<in> set (items (rw_db w) h) \<Longrightarrow>
    \<exists>i v. x = (int_key i, row_bytes big (VLong i) v) \<and> flat_val (VLong i) \<and> flat_val v \<and> m i = Some (val_back v)"
  "table_holds E items big t h w m \<Longrightarrow> m i \<noteq> None \<Longrightarrow> int_key i \<in> fst ` set (items (rw_db w) h)"
  unfolding table_holds_def by blast+

lemma holds_put:
  assumes "table_holds E items big t h w m" "long_ok i" "flat_val v"
  shows "\<exists>c w'. table_put E atof big w t (VLong i) v = Inr (c, w') \<and>
    (c = 0 \<longrightarrow> table_holds E items big t h w' (m(i \<mapsto> val_back v)))"
proof -
  obtain fd where o: "writes_ok E items" "data_store w h" "key_field t = Some fd" "fd_type fd = FT_Int64"
      "uint (dd_id (tb_db t)) < 2 ^ 24" using assms(1) by (rule table_holdsE)
  have k: "row_key atof big t (VLong i) = Inr (int_key i)" by (rule int_row_key [OF o(3-5)]) simp
  have fl: "flat_val (VLong i)" using assms(2) by (simp only: long_ok_def)
  obtain c w' where c: "table_put E atof big w t (VLong i) v = Inr (c, w')"
      "c = 0 \<longrightarrow> data_store w' h \<and>
         items (rw_db w') = (items (rw_db w))(h := put_item (int_key i, row_bytes big (VLong i) v) (items (rw_db w) h))"
    using table_put_items [OF o(1,2) k fl assms(3)] by blast
  have "table_holds E items big t h w' (m(i \<mapsto> val_back v))" if z: "c = 0"
  proof (rule table_holdsI [OF assms(1)])
    have its: "set (items (rw_db w') h) = insert (int_key i, row_bytes big (VLong i) v)
        {y \<in> set (items (rw_db w) h). fst y \<noteq> int_key i}"
      using c(2) z put_item_set [OF writes_okD(1) [OF o(1)]] by simp
    show "data_store w' h" using c(2) z by simp
    show "\<exists>j u. x = (int_key j, row_bytes big (VLong j) u) \<and> flat_val (VLong j) \<and> flat_val u \<and>
        (m(i \<mapsto> val_back v)) j = Some (val_back u)" if "x \<in> set (items (rw_db w') h)" for x
      using that holds_row(1) [OF assms(1)] fl assms(3) unfolding its by fastforce
    show "int_key j \<in> fst ` set (items (rw_db w') h)" if "(m(i \<mapsto> val_back v)) j \<noteq> None" for j
      using that holds_row(2) [OF assms(1), of j] unfolding its by (cases "j = i") force+
  qed
  then show ?thesis using c(1) by blast
qed

lemma holds_remove:
  assumes "table_holds E items big t h w m"
  shows "\<exists>c w'. table_remove E atof big w t (VLong i) = Inr (c, w') \<and>
    (c = 0 \<longrightarrow> table_holds E items big t h w' (m(i := None)))"
proof -
  obtain fd where o: "writes_ok E items" "data_store w h" "key_field t = Some fd" "fd_type fd = FT_Int64"
      "uint (dd_id (tb_db t)) < 2 ^ 24" using assms by (rule table_holdsE)
  have k: "row_key atof big t (VLong i) = Inr (int_key i)" by (rule int_row_key [OF o(3-5)]) simp
  obtain c s where c: "e_delete E (rw_db w) (Some h) (int_key i) = (c, s)" by fastforce
  have r: "table_remove E atof big w t (VLong i) = Inr (if c = 0 then 0 else ERR_WRITE_ABNORMALITY, w\<lparr> rw_db := s \<rparr>)"
    using k o(2) c by (simp add: table_remove_def row_key_def data_store_def rocks_remove_def using_db_open set_db_def
        write_code_def)
  have "table_holds E items big t h (w\<lparr> rw_db := s \<rparr>) (m(i := None))" if z: "c = 0"
  proof (rule table_holdsI [OF assms])
    have its: "set (items s h) = {y \<in> set (items (rw_db w) h). fst y \<noteq> int_key i}"
      using writes_okD(3) [OF o(1) c [unfolded z]] by (auto simp: delete_item_def)
    show "data_store (w\<lparr> rw_db := s \<rparr>) h" using o(2) by simp
    show "\<exists>j u. x = (int_key j, row_bytes big (VLong j) u) \<and> flat_val (VLong j) \<and> flat_val u \<and>
        (m(i := None)) j = Some (val_back u)" if "x \<in> set (items (rw_db (w\<lparr> rw_db := s \<rparr>)) h)" for x
      using that holds_row(1) [OF assms, of x] its by fastforce
    show "int_key j \<in> fst ` set (items (rw_db (w\<lparr> rw_db := s \<rparr>)) h)" if "(m(i := None)) j \<noteq> None" for j
      using that holds_row(2) [OF assms, of j] its by (cases "j = i") force+
  qed
  then show ?thesis using r by (simp add: write_code_zero)
qed

lemma holds_range:
  assumes "table_holds E items big t h w m"
  shows "\<exists>c w'. table_remove_range E atof big w t (VLong i) (VLong j) = Inr (c, w') \<and>
    (c = 0 \<longrightarrow> table_holds E items big t h w' m)"
proof -
  obtain fd where o: "writes_ok E items" "data_store w h" "key_field t = Some fd" "fd_type fd = FT_Int64"
      "uint (dd_id (tb_db t)) < 2 ^ 24" using assms by (rule table_holdsE)
  have "int_rows_only (items (rw_db w) h)"
    using holds_row(1) [OF assms] by (force simp: int_rows_only_def)
  then obtain c w' where "table_remove_range E atof big w t (VLong i) (VLong j) = Inr (c, w')"
      "c = 0 \<longrightarrow> data_store w' h \<and> items (rw_db w') = items (rw_db w)"
    using remove_range_items [OF o] by blast
  then show ?thesis using table_holdsI [OF assms, of w' m] holds_row [OF assms] by metis
qed

lemma holds_lookup:
  assumes "table_holds E items big t h w m"
  shows "table_lookup E atof big t w i = Inr (m i)"
proof -
  obtain fd where o: "lookups_ok E items" "no_read_errors E" "data_store w h" "key_field t = Some fd"
      "fd_type fd = FT_Int64" "uint (dd_id (tb_db t)) < 2 ^ 24" using assms by (rule table_holdsE)
  have "row_key atof big t (VLong i) = Inr (int_key i)" by (rule int_row_key [OF o(4-6)]) simp
  moreover obtain j where j: "pk_ids t = Inr [j]" "field_at t j = Inr fd" "field_ptr t j = Inr fd"
    using key_fieldE [OF o(4)] by blast
  ultimately obtain p where p: "table_prefix big t = Inr p"
      "rbind (field_append_value atof big fd (VLong i) p) key_slice = Inr (int_key i)"
    by (auto simp: row_key_def key_of_value_def rbind_eq_Inr vec_at_def)
  then obtain q where q: "field_append_value atof big fd (VLong i) p = Inr q" "key_slice q = Inr (int_key i)"
    by (auto simp: rbind_eq_Inr)
  obtain c bs where c: "e_get E (rw_db w) (Some h) (int_key i) = (c, bs)" by fastforce
  have "c \<in> {0, 1}" using o(2) c unfolding no_read_errors_def by (metis fst_conv)
  then consider "c = 0" | "c = 1" by blast
  then show ?thesis
  proof cases
    case 1
    obtain v where v: "bs = row_bytes big (VLong i) v" "flat_val (VLong i)" "flat_val v" "m i = Some (val_back v)"
      using holds_row(1) [OF assms gets_okD(1) [OF o(1) c [unfolded 1]]] by auto
    show ?thesis
      using p(1) q j o(3) c 1 v(4) row_read [OF v(2,3), of big]
      by (simp add: table_lookup_def reader_get_record_def reader_new_def rocks_get_def using_db_open data_store_def
          tuple_new_def tuple_get_def v(1))
  next
    case 2
    have "m i = None" using holds_row(2) [OF assms, of i] gets_okD(2) [OF o(1), of "rw_db w" h "int_key i"] c 2 by auto
    then show ?thesis
      using p(1) q j o(3) c 2
      by (simp add: table_lookup_def reader_get_record_def reader_new_def rocks_get_def using_db_open data_store_def
          ERR_NOT_FOUND_def)
  qed
qed

interpretation table: keyed_store "table_holds E items big t h" long_ok flat_val val_back
  "\<lambda>w i v. table_put E atof big w t (VLong i) v" "\<lambda>w i. table_remove E atof big w t (VLong i)"
  "\<lambda>w i j. table_remove_range E atof big w t (VLong i) (VLong j)" "table_lookup E atof big t"
  for E items big t h atof
  by unfold_locales (simp_all add: holds_put holds_remove holds_range holds_lookup)

text \<open>The calls on a table, up to the first that fails.\<close>

fun table_op ::
    "('s, 'c) engine \<Rightarrow> (bytes \<Rightarrow> u64) \<Rightarrow> bool \<Rightarrow> table \<Rightarrow> (i64, val) store_op \<Rightarrow> 's wrapper \<Rightarrow> (int \<times> 's wrapper) res" where
  "table_op E atof big t (Put i v) w = table_put E atof big w t (VLong i) v"
| "table_op E atof big t (Remove i) w = table_remove E atof big w t (VLong i)"
| "table_op E atof big t (Clear i j) w = table_remove_range E atof big w t (VLong i) (VLong j)"

fun table_ops ::
    "('s, 'c) engine \<Rightarrow> (bytes \<Rightarrow> u64) \<Rightarrow> bool \<Rightarrow> table \<Rightarrow> (i64, val) store_op list \<Rightarrow> 's wrapper \<Rightarrow> (int \<times> 's wrapper) res" where
  "table_ops E atof big t [] w = Inr (0, w)"
| "table_ops E atof big t (x # xs) w =
     rbind (table_op E atof big t x w) (\<lambda>(c, w). if c \<noteq> 0 then Inr (c, w) else table_ops E atof big t xs w)"

fun table_op_ok :: "(i64, val) store_op \<Rightarrow> bool" where
  "table_op_ok (Put i v) = (flat_val (VLong i) \<and> flat_val v)"
| "table_op_ok (Remove i) = flat_val (VLong i)"
| "table_op_ok (Clear i j) = (flat_val (VLong i) \<and> flat_val (VLong j))"

lemma table_do_ops:
  "keyed_store.do_ops (\<lambda>w i v. table_put E atof big w t (VLong i) v) (\<lambda>w i. table_remove E atof big w t (VLong i))
     (\<lambda>w i j. table_remove_range E atof big w t (VLong i) (VLong j)) xs w = table_ops E atof big t xs w"
proof (induction xs arbitrary: w)
  case (Cons x xs)
  show ?case
    unfolding table.do_ops.simps table_ops.simps Cons.IH by (cases x) (simp_all only: table.do_op.simps table_op.simps)
qed (simp only: table.do_ops.simps table_ops.simps)

lemma table_op_ok: "table.op_ok x = table_op_ok x"
  by (cases x) (simp_all add: long_ok_def)

text \<open>
  C8. A table with one integer key column is a finite map. Any sequence of puts, removals and range removals on
  an empty family returns, and unless RocksDB reported a failure, \<open>TableReader::get\<close> of any key returns what
  the same sequence leaves under that key in the map, in which a range removal changes nothing.
\<close>

theorem table_refines_map:
  assumes "writes_ok E items" "lookups_ok E items" "no_read_errors E" "data_store w h" "items (rw_db w) h = []"
    and "key_field t = Some fd" "fd_type fd = FT_Int64" "uint (dd_id (tb_db t)) < 2 ^ 24" "\<forall>x \<in> set xs. table_op_ok x"
  shows "\<exists>c w'. table_ops E atof big t xs w = Inr (c, w') \<and>
    (c = 0 \<longrightarrow> (\<forall>i. table_lookup E atof big t w' i = Inr (fold (spec_op val_back) xs (\<lambda>_. None) i)))"
proof -
  have "table_holds E items big t h w (\<lambda>_. None)"
    using assms(1-8) by (simp add: table_holds_def)
  from table.do_ops [OF this, of xs atof, unfolded table_do_ops table_op_ok] obtain c w' where
    "table_ops E atof big t xs w = Inr (c, w')"
    "c = 0 \<longrightarrow> table_holds E items big t h w' (fold (spec_op val_back) xs (\<lambda>_. None))"
    using assms(9) by blast
  then show ?thesis using holds_lookup by blast
qed

lemma table_refines_map_witness:
  "\<exists>c w'. table_ops mem_engine (\<lambda>_. 0) True (demo_kv 1 1 FT_Int64) [Put 3 (VString [7]), Put 9 (VString [8]), Remove 3, Clear 0 20]
      (demo_data []) = Inr (c, w') \<and>
    (c = 0 \<longrightarrow> (\<forall>i. table_lookup mem_engine (\<lambda>_. 0) True (demo_kv 1 1 FT_Int64) w' i =
       Inr (if i = 9 then Some (VString [8]) else None)))"
proof -
  let ?xs = "[Put 3 (VString [7]), Put 9 (VString [8]), Remove 3, Clear 0 20] :: (i64, val) store_op list"
  have f: "fold (spec_op val_back) ?xs (\<lambda>_. None) = (\<lambda>i. if i = 9 then Some (VString [8]) else None)" by auto
  have "\<exists>c w'. table_ops mem_engine (\<lambda>_. 0) True (demo_kv 1 1 FT_Int64) ?xs (demo_data []) = Inr (c, w') \<and>
      (c = 0 \<longrightarrow> (\<forall>i. table_lookup mem_engine (\<lambda>_. 0) True (demo_kv 1 1 FT_Int64) w' i =
         Inr (fold (spec_op val_back) ?xs (\<lambda>_. None) i)))"
    by (rule table_refines_map [OF mem_laws demo_data(1) _ demo_kv(1)])
      (simp_all add: demo_kv demo_data mem_items_def sort_items_def)
  then show ?thesis unfolding f .
qed

end
