(* ===== verification/Db_Manager.thy ===== *)
theory Db_Manager
  imports Table_Store
begin

text \<open>
  The database manager of \<open>db/db.h\<close> and \<open>db/db.cpp\<close>: the databases and tables it has in memory, their records
  in the column family \<open>meta_info\<close>, and the tables, readers and operators it hands out.

  Descriptors behind shared pointers are values of the manager. A descriptor that is given to \<open>create_table\<close>
  belongs to the manager from then on: the caller's view of it is the one returned.
\<close>

section \<open>The manager\<close>

definition ERR_DB_NOT_FOUND :: int where "ERR_DB_NOT_FOUND = 102"
definition ERR_ALREADY_EXISTS :: int where "ERR_ALREADY_EXISTS = 105"

record 's db_manager =
  dm_basepath :: string
  dm_wrapper :: "'s wrapper"
  dm_dbs :: "(bytes \<times> database_descriptor) list"
  dm_last_dbid :: u32

text \<open>\<open>DBManager()\<close>, over the state of the storage.\<close>

definition dm_new :: "'s \<Rightarrow> 's db_manager" where
  "dm_new s = \<lparr> dm_basepath = [], dm_wrapper = wrapper_new s, dm_dbs = [], dm_last_dbid = 0 \<rparr>"

definition dm_get_db :: "'s db_manager \<Rightarrow> bytes \<Rightarrow> database_descriptor option" where
  "dm_get_db m n = map_of (dm_dbs m) n"

definition dm_exists :: "'s db_manager \<Rightarrow> bytes \<Rightarrow> bool" where
  "dm_exists m n \<longleftrightarrow> map_of (dm_dbs m) n \<noteq> None"

definition dm_set_db :: "bytes \<Rightarrow> database_descriptor \<Rightarrow> 's db_manager \<Rightarrow> 's db_manager" where
  "dm_set_db n d m = m\<lparr> dm_dbs := map_assign n d (dm_dbs m) \<rparr>"

subsection \<open>Starting\<close>

text \<open>The loop over the records of databases; the fuel bounds the records visited.\<close>

fun load_dbs ::
    "('s, 'c) engine \<Rightarrow> (u64 \<Rightarrow> bytes) \<Rightarrow> bool \<Rightarrow> bytes \<Rightarrow> nat \<Rightarrow> 'c \<Rightarrow>
     (bytes \<times> database_descriptor) list \<Rightarrow> (bytes \<times> database_descriptor) list res" where
  "load_dbs E fmt big k 0 cur dbs = Inl OutOfFuel"
| "load_dbs E fmt big k (Suc n) cur dbs =
     (if \<not> e_valid E cur then Inr dbs
      else if \<not> starts_with (e_key E cur) k then Inr dbs
      else rbind (dd_deserialize fmt big (e_value E cur) dd_new) (\<lambda>d.
        load_dbs E fmt big k n (e_next E cur) (map_assign (dd_name d) d dbs)))"

definition dm_init ::
    "('s, 'c) engine \<Rightarrow> (u64 \<Rightarrow> bytes) \<Rightarrow> bool \<Rightarrow> nat \<Rightarrow> string \<Rightarrow> 's db_manager \<Rightarrow> (int \<times> 's db_manager) res" where
  "dm_init E fmt big fuel basepath m =
     (case rocks_init E basepath (dm_wrapper m) of (rc, w) \<Rightarrow>
        let m = m\<lparr> dm_basepath := basepath, dm_wrapper := w \<rparr> in
        if rc \<noteq> 0 then Inr (rc, m)
        else
          rbind (rbind (append_u32 big mut_key_new kMetaDatabaseId) key_slice) (\<lambda>k.
          rbind (seek_for_next E w (get_meta_info_handle w) k True) (\<lambda>cur.
          rbind (load_dbs E fmt big k fuel cur (dm_dbs m)) (\<lambda>dbs.
            Inr (rc, m\<lparr> dm_dbs := dbs \<rparr>)))))"

subsection \<open>Databases\<close>

definition dm_create :: "('s, 'c) engine \<Rightarrow> bool \<Rightarrow> bytes \<Rightarrow> 's db_manager \<Rightarrow> (int \<times> 's db_manager) res" where
  "dm_create E big dbname m =
     (if map_of (dm_dbs m) dbname \<noteq> None then Inr (0, m)
      else
        let dbid = dm_last_dbid m + 1;
            m = m\<lparr> dm_last_dbid := dbid \<rparr>;
            db = dd_new\<lparr> dd_name := dbname, dd_id := dbid \<rparr>;
            w = dm_wrapper m in
        rbind (rbind (dd_get_key big db kMetaDatabaseId) key_slice) (\<lambda>k.
        rbind (dd_get_val big db) (\<lambda>v.
        rbind (rocks_put E w (get_meta_info_handle w) k v) (\<lambda>(c, w).
          let m = m\<lparr> dm_wrapper := w \<rparr> in
          Inr (c, if c \<noteq> 0 then m else dm_set_db dbname db m)))))"

fun load_tables ::
    "('s, 'c) engine \<Rightarrow> (u64 \<Rightarrow> bytes) \<Rightarrow> bool \<Rightarrow> bytes \<Rightarrow> nat \<Rightarrow> 'c \<Rightarrow> database_descriptor \<Rightarrow> database_descriptor res" where
  "load_tables E fmt big k 0 cur db = Inl OutOfFuel"
| "load_tables E fmt big k (Suc n) cur db =
     (if \<not> e_valid E cur then Inr db
      else if \<not> starts_with (e_key E cur) k then Inr db
      else rbind (td_deserialize fmt big (e_value E cur) td_new) (\<lambda>t.
        load_tables E fmt big k n (e_next E cur) (dd_add_table (td_name t) t db)))"

definition open_tables ::
    "('s, 'c) engine \<Rightarrow> (u64 \<Rightarrow> bytes) \<Rightarrow> bool \<Rightarrow> nat \<Rightarrow> bytes \<Rightarrow> database_descriptor \<Rightarrow> 's db_manager \<Rightarrow>
     (int \<times> 's db_manager) res" where
  "open_tables E fmt big fuel dbname db m =
     (if dd_last_tid db \<noteq> 0 \<and> dd_table_nums db \<noteq> 0 then Inr (0, m)
      else
        let w = dm_wrapper m in
        rbind (rbind (append_u32 big mut_key_new kMetaTableId) (\<lambda>k. append_u32 big k (dd_id db))) (\<lambda>k.
        rbind (key_slice k) (\<lambda>k.
        rbind (seek_for_next E w (get_meta_info_handle w) k True) (\<lambda>cur.
        rbind (load_tables E fmt big k fuel cur db) (\<lambda>db. Inr (0, dm_set_db dbname db m))))))"

definition dm_open ::
    "('s, 'c) engine \<Rightarrow> (u64 \<Rightarrow> bytes) \<Rightarrow> bool \<Rightarrow> nat \<Rightarrow> bytes \<Rightarrow> bool \<Rightarrow> 's db_manager \<Rightarrow> (int \<times> 's db_manager) res" where
  "dm_open E fmt big fuel dbname auto_create m =
     (case dm_get_db m dbname of
        Some db \<Rightarrow> open_tables E fmt big fuel dbname db m
      | None \<Rightarrow>
          if \<not> auto_create then Inr (ERR_DB_NOT_FOUND, m)
          else rbind (dm_create E big dbname m) (\<lambda>(rc, m).
            if rc \<noteq> 0 then Inr (rc, m)
            else case dm_get_db m dbname of
              None \<Rightarrow> Inr (ERR_DB_NOT_FOUND, m)
            | Some db \<Rightarrow> open_tables E fmt big fuel dbname db m))"

definition dm_close :: "bytes \<Rightarrow> 's db_manager \<Rightarrow> int \<times> 's db_manager" where
  "dm_close dbname m = (-1, m)"

definition dm_close_all :: "'s db_manager \<Rightarrow> int \<times> 's db_manager" where
  "dm_close_all m = (-1, m)"

subsection \<open>Tables\<close>

text \<open>What both functions that create a table do with its descriptor.\<close>

definition store_table ::
    "('s, 'c) engine \<Rightarrow> bool \<Rightarrow> bytes \<Rightarrow> database_descriptor \<Rightarrow> table_descriptor \<Rightarrow> 's db_manager \<Rightarrow>
     (int \<times> 's db_manager) res" where
  "store_table E big dbname db tbl m =
     (let m = dm_set_db dbname db m; w = dm_wrapper m in
      rbind (rbind (td_get_key big tbl kMetaTableId (dd_id db)) key_slice) (\<lambda>k.
      rbind (td_get_val big tbl) (\<lambda>v.
      rbind (rocks_put E w (get_meta_info_handle w) k v) (\<lambda>(c, w).
        let m = m\<lparr> dm_wrapper := w \<rparr> in
        if c \<noteq> 0 then Inr (c, m)
        else Inr (0, dm_set_db dbname (dd_add_table (td_name tbl) tbl db) m)))))"

definition kv_table :: "bytes \<Rightarrow> u32 \<Rightarrow> u16 \<Rightarrow> table_descriptor" where
  "kv_table tblname tid key_type =
     (let tbl = td_new\<lparr> td_name := tblname, td_id := tid \<rparr>;
          (kid, tbl) = td_next_id tbl;
          kfield = fd_new\<lparr> fd_name := [0x6b], fd_id := kid, fd_flags := FLAG_PrimaryKey, fd_type := key_type,
                     fd_len := (if key_type = FT_FixedString then 120 else 0) \<rparr>;
          (vid, tbl) = td_next_id tbl;
          vfield = fd_new\<lparr> fd_name := [0x76], fd_id := vid, fd_type := FT_String \<rparr>
      in td_set_primary_key [fd_id kfield] (td_add_field vfield (td_add_field kfield tbl)))"

definition dm_create_kv_table ::
    "('s, 'c) engine \<Rightarrow> bool \<Rightarrow> bytes \<Rightarrow> bytes \<Rightarrow> u16 \<Rightarrow> bool \<Rightarrow> 's db_manager \<Rightarrow> (int \<times> 's db_manager) res" where
  "dm_create_kv_table E big dbname tblname key_type if_not_exists m =
     (case dm_get_db m dbname of
        None \<Rightarrow> Inr (ERR_DB_NOT_FOUND, m)
      | Some db \<Rightarrow>
          if dd_exists db tblname then Inr (if if_not_exists then 0 else ERR_ALREADY_EXISTS, m)
          else case dd_next_id db of (tid, db) \<Rightarrow> store_table E big dbname db (kv_table tblname tid key_type) m)"

definition dm_create_table ::
    "('s, 'c) engine \<Rightarrow> bool \<Rightarrow> bytes \<Rightarrow> table_descriptor \<Rightarrow> bool \<Rightarrow> 's db_manager \<Rightarrow>
     (int \<times> table_descriptor \<times> 's db_manager) res" where
  "dm_create_table E big dbname tbl if_not_exists m =
     (case dm_get_db m dbname of
        None \<Rightarrow> Inr (ERR_DB_NOT_FOUND, tbl, m)
      | Some db \<Rightarrow>
          if dd_exists db (td_name tbl) then Inr (if if_not_exists then 0 else ERR_ALREADY_EXISTS, tbl, m)
          else case dd_next_id db of (tid, db) \<Rightarrow>
            let tbl = tbl\<lparr> td_id := tid \<rparr> in
            rbind (store_table E big dbname db tbl m) (\<lambda>(rc, m). Inr (rc, tbl, m)))"

definition dm_get_table_writer :: "'s db_manager \<Rightarrow> bytes \<Rightarrow> bytes \<Rightarrow> table option" where
  "dm_get_table_writer m dbname tblname =
     (case dm_get_db m dbname of
        None \<Rightarrow> None
      | Some db \<Rightarrow> (case dd_get_table db tblname of
          None \<Rightarrow> None
        | Some tbl \<Rightarrow> Some \<lparr> tb_db = db, tb_tbl = tbl \<rparr>))"

definition dm_get_table_reader :: "'s db_manager \<Rightarrow> bytes \<Rightarrow> bytes \<Rightarrow> 'c reader option" where
  "dm_get_table_reader m dbname tblname =
     (case dm_get_db m dbname of
        None \<Rightarrow> None
      | Some db \<Rightarrow> (case dd_get_table db tblname of
          None \<Rightarrow> None
        | Some tbl \<Rightarrow> Some (reader_new \<lparr> tb_db = db, tb_tbl = tbl \<rparr>)))"

definition dm_get_table_descriptor :: "'s db_manager \<Rightarrow> bytes \<Rightarrow> bytes \<Rightarrow> table_descriptor option" where
  "dm_get_table_descriptor m dbname tblname =
     (case dm_get_db m dbname of
        None \<Rightarrow> None
      | Some db \<Rightarrow> dd_get_table db tblname)"

section \<open>The keys of records\<close>

lemma zeros_first: "0 < n \<Longrightarrow> hd (replicate n (0 :: u8) @ bs) = 0"
  by (cases n) auto

text \<open>Appending to a key whose first byte is zero zeroes what it holds.\<close>

lemma meta_first:
  assumes "uint w < 2 ^ 24"
  obtains k where "append_u32 big mut_key_new w = Inr k" "tight_key k" "key_view k = be_bytes 4 w" "hd (key_view k) = 0"
    "length (key_view k) = 4"
  using tight_first [of "be_bytes 4 w"] be_bytes_4_hd [OF assms] by (auto simp: append_u32_def col_bytes)

lemma meta_next:
  assumes "tight_key k" "hd (key_view k) = 0" "length (key_view k) = n" "0 < n" "n < 100"
  obtains k' where "append_u32 big k w = Inr k'" "tight_key k'" "key_view k' = replicate n 0 @ be_bytes 4 w"
    "hd (key_view k') = 0" "length (key_view k') = n + 4"
proof -
  have "key_view k \<noteq> []" using assms(3,4) by auto
  then show ?thesis
    using zeroed_append [OF assms(1) _ assms(2), of "be_bytes 4 w"] assms(3-5) be_bytes_nonempty [of 4 w]
      zeros_first [OF assms(4)] that by (auto simp: append_u32_def col_bytes)
qed

lemma meta_ids: "uint kMetaDatabaseId < 2 ^ 24" "uint kMetaTableId < 2 ^ 24"
  by (simp_all add: kMetaDatabaseId_def kMetaTableId_def)

lemma init_key: "rbind (append_u32 big mut_key_new kMetaDatabaseId) key_slice = Inr (be_bytes 4 kMetaDatabaseId)"
  using meta_first [OF meta_ids(1), of big] key_slice_tight by (metis rbind_simps(2))

definition db_key :: "u32 \<Rightarrow> bytes" where "db_key i = replicate 4 0 @ be_bytes 4 i"
definition tbl_key :: "u32 \<Rightarrow> bytes" where "tbl_key i = replicate 8 0 @ be_bytes 4 i"

lemma dd_key: "rbind (dd_get_key big d kMetaDatabaseId) key_slice = Inr (db_key (dd_id d))"
proof -
  obtain k where k: "append_u32 big mut_key_new kMetaDatabaseId = Inr k" "tight_key k" "hd (key_view k) = 0"
      "length (key_view k) = 4" by (rule meta_first [OF meta_ids(1)])
  obtain k' where "append_u32 big k (dd_id d) = Inr k'" "tight_key k'" "key_view k' = replicate 4 0 @ be_bytes 4 (dd_id d)"
    by (rule meta_next [OF k(2-4)]) auto
  then show ?thesis using k(1) by (simp add: dd_get_key_def key_slice_tight db_key_def)
qed

lemma open_key: "rbind (append_u32 big mut_key_new kMetaTableId) (\<lambda>k. append_u32 big k i) = Inr k \<Longrightarrow>
    key_slice k = Inr (db_key i)"
  "\<exists>k. rbind (append_u32 big mut_key_new kMetaTableId) (\<lambda>k. append_u32 big k i) = Inr k"
proof -
  obtain k0 where k: "append_u32 big mut_key_new kMetaTableId = Inr k0" "tight_key k0" "hd (key_view k0) = 0"
      "length (key_view k0) = 4" by (rule meta_first [OF meta_ids(2)])
  obtain k' where k': "append_u32 big k0 i = Inr k'" "tight_key k'" "key_view k' = replicate 4 0 @ be_bytes 4 i"
    by (rule meta_next [OF k(2-4)]) auto
  then show "\<exists>k. rbind (append_u32 big mut_key_new kMetaTableId) (\<lambda>k. append_u32 big k i) = Inr k"
    "rbind (append_u32 big mut_key_new kMetaTableId) (\<lambda>k. append_u32 big k i) = Inr k \<Longrightarrow> key_slice k = Inr (db_key i)"
    using k(1) by (auto simp: key_slice_tight db_key_def)
qed

lemma td_key: "rbind (td_get_key big t kMetaTableId dbid) key_slice = Inr (tbl_key (td_id t))"
proof -
  obtain k where k: "append_u32 big mut_key_new kMetaTableId = Inr k" "tight_key k" "hd (key_view k) = 0"
      "length (key_view k) = 4" by (rule meta_first [OF meta_ids(2)])
  obtain k' where k': "append_u32 big k dbid = Inr k'" "tight_key k'" "hd (key_view k') = 0" "length (key_view k') = 8"
    by (rule meta_next [OF k(2-4)]) auto
  obtain k'' where "append_u32 big k' (td_id t) = Inr k''" "tight_key k''" "key_view k'' = replicate 8 0 @ be_bytes 4 (td_id t)"
    by (rule meta_next [OF k'(2-4)]) auto
  then show ?thesis using k(1) k'(1) by (simp add: td_get_key_def key_slice_tight tbl_key_def)
qed

lemma meta_key_zero: "take 4 (db_key i) = replicate 4 0" "take 4 (tbl_key i) = replicate 4 0"
  by (simp_all add: db_key_def tbl_key_def)

section \<open>Maps in the order of their keys\<close>

lemma map_assign_set: "set (map_assign k v m) \<subseteq> insert (k, v) (set m)"
  by (induction k v m rule: map_assign.induct) auto

lemma map_assign_keys: "fst ` set (map_assign k v m) = insert k (fst ` set m)"
  by (induction k v m rule: map_assign.induct) auto

lemma map_assign_ordered: "ordered_items m \<Longrightarrow> ordered_items (map_assign k v m)"
proof (induction k v m rule: map_assign.induct)
  case (2 k v l w m)
  have "l < fst y" if "y \<in> set (map_assign k v m)" "\<not> k \<le> l" for y
    using map_assign_set [of k v m] that "2.prems" by auto
  then show ?case using 2 by (auto intro: less_trans)
qed simp

lemma map_of_assign: "ordered_items m \<Longrightarrow> map_of (map_assign k v m) = (map_of m)(k \<mapsto> v)"
proof (induction k v m rule: map_assign.induct)
  case (2 k v l w m)
  have "map_of m k = None" if "k < l"
    using "2.prems" that by (force simp: map_of_eq_None_iff)
  then show ?case using 2 by (auto simp: fun_eq_iff)
qed simp

section \<open>What the operations write\<close>

definition meta_store :: "'s db_manager \<Rightarrow> handle \<Rightarrow> bool" where
  "meta_store m h \<longleftrightarrow> rw_open (dm_wrapper m) \<and> get_meta_info_handle (dm_wrapper m) = Some h"

abbreviation meta_items :: "('s \<Rightarrow> handle \<Rightarrow> item list) \<Rightarrow> 's db_manager \<Rightarrow> handle \<Rightarrow> item list" where
  "meta_items items m h \<equiv> items (rw_db (dm_wrapper m)) h"

lemma handle_db [simp]: "get_meta_info_handle (w\<lparr> rw_db := s \<rparr>) = get_meta_info_handle w"
  by (simp add: get_meta_info_handle_def get_handle_def)

lemma dm_set_db_simps [simp]:
  "dm_wrapper (dm_set_db n d m) = dm_wrapper m" "dm_last_dbid (dm_set_db n d m) = dm_last_dbid m"
  "dm_dbs (dm_set_db n d m) = map_assign n d (dm_dbs m)" "dm_basepath (dm_set_db n d m) = dm_basepath m"
  by (simp_all add: dm_set_db_def)

lemma meta_put:
  "meta_store m h \<Longrightarrow> rocks_put E (dm_wrapper m) (Some h) k v =
     Inr (fst (e_put E (rw_db (dm_wrapper m)) (Some h) k v),
       (dm_wrapper m)\<lparr> rw_db := snd (e_put E (rw_db (dm_wrapper m)) (Some h) k v) \<rparr>)"
  by (simp add: meta_store_def rocks_put_def using_db_open set_db_def split: prod.splits)

text \<open>The record \<open>create\<close> writes for a new database.\<close>

lemma dm_create_eq:
  assumes "meta_store m h" "map_of (dm_dbs m) n = None" "length n < 0xffffff" "i = dm_last_dbid m + 1"
  shows "\<exists>bs. tuple_deserialize big bs [] = Inr [(1, VLong (ucast i)), (2, VLong 0), (3, VString n),
      (4, VString []), (5, VLong 0), (7, VLong 0)] \<and>
    dm_create E big n m =
      (let r = e_put E (rw_db (dm_wrapper m)) (Some h) (db_key i) bs;
           m = m\<lparr> dm_last_dbid := i, dm_wrapper := (dm_wrapper m)\<lparr> rw_db := snd r \<rparr> \<rparr> in
       Inr (fst r, if fst r \<noteq> 0 then m else dm_set_db n (dd_new\<lparr> dd_name := n, dd_id := i \<rparr>) m))"
proof -
  let ?d = "dd_new\<lparr> dd_name := n, dd_id := i \<rparr>"
  obtain bs where "dd_get_val big ?d = Inr bs" "tuple_deserialize big bs [] =
      Inr [(1, VLong (ucast i)), (2, VLong 0), (3, VString n), (4, VString []), (5, VLong 0), (7, VLong 0)]"
    using database_object [of ?d big] assms(3) by (auto simp: dd_new_def)
  then show ?thesis
    using assms(1,2,4) dd_key [of big ?d] meta_put [OF assms(1), of E "db_key i" bs]
    by (auto simp: dm_create_def meta_store_def dd_new_def Let_def)
qed

text \<open>Every record of the family has a key that starts with four zeros.\<close>

definition meta_ok :: "('s \<Rightarrow> handle \<Rightarrow> item list) \<Rightarrow> handle \<Rightarrow> 's db_manager \<Rightarrow> bool" where
  "meta_ok items h m \<longleftrightarrow> meta_store m h \<and>
     (\<forall>x \<in> set (meta_items items m h). \<exists>i. fst x = db_key i \<or> fst x = tbl_key i)"

lemma meta_ok_cong: "dm_wrapper m' = dm_wrapper m \<Longrightarrow> meta_ok items h m' = meta_ok items h m"
  by (simp add: meta_ok_def meta_store_def)

lemma meta_ok_put:
  assumes "writes_ok E items" "meta_ok items h m" "rocks_put E (dm_wrapper m) (Some h) k v = Inr (0, w)"
    and "dm_wrapper m' = w" "k = db_key i \<or> k = tbl_key i"
  shows "meta_ok items h m'"
proof -
  have m: "meta_store m h" using assms(2) by (simp add: meta_ok_def)
  obtain s where s: "e_put E (rw_db (dm_wrapper m)) (Some h) k v = (0, s)" "w = (dm_wrapper m)\<lparr> rw_db := s \<rparr>"
    using assms(3) meta_put [OF m, of E k v] by (cases "e_put E (rw_db (dm_wrapper m)) (Some h) k v") auto
  then show ?thesis
    using writes_okD(2) [OF assms(1) s(1)] assms(2,4,5) put_item_set [OF writes_okD(1) [OF assms(1)]]
    by (auto simp: meta_ok_def meta_store_def)
qed

lemma meta_handle: "meta_ok items h m \<Longrightarrow> get_meta_info_handle (dm_wrapper m) = Some h"
  by (simp add: meta_ok_def meta_store_def)

lemma dm_create_ok:
  assumes "writes_ok E items" "meta_ok items h m" "dm_create E big n m = Inr (0, m')"
  shows "meta_ok items h m'"
proof (cases "map_of (dm_dbs m) n = None")
  case True
  then obtain v w where "rocks_put E (dm_wrapper m) (Some h) (db_key (dm_last_dbid m + 1)) v = Inr (0, w)"
      "dm_wrapper m' = w"
    using assms(3) dd_key [of big "dd_new\<lparr> dd_name := n, dd_id := dm_last_dbid m + 1 \<rparr>"] meta_handle [OF assms(2)]
    by (auto simp: dm_create_def rbind_eq_Inr dd_new_def Let_def split: if_splits)
  then show ?thesis using meta_ok_put [OF assms(1,2)] by blast
next
  case False
  then show ?thesis using assms(2,3) by (simp add: dm_create_def)
qed

lemma store_table_ok:
  assumes "writes_ok E items" "meta_ok items h m" "store_table E big n db t m = Inr (0, m')"
  shows "meta_ok items h m'"
proof -
  obtain v w where "rocks_put E (dm_wrapper m) (Some h) (tbl_key (td_id t)) v = Inr (0, w)" "dm_wrapper m' = w"
    using assms(3) td_key [of big t "dd_id db"] meta_handle [OF assms(2)]
    by (auto simp: store_table_def rbind_eq_Inr Let_def split: if_splits)
  then show ?thesis using meta_ok_put [OF assms(1,2)] by blast
qed

lemma open_tables_wrapper: "open_tables E fmt big fuel n db m = Inr (c, m') \<Longrightarrow> dm_wrapper m' = dm_wrapper m"
  by (auto simp: open_tables_def rbind_eq_Inr Let_def split: if_splits)

text \<open>The calls that succeed.\<close>

inductive dm_step ::
    "('s, 'c) engine \<Rightarrow> (u64 \<Rightarrow> bytes) \<Rightarrow> bool \<Rightarrow> 's db_manager \<Rightarrow> 's db_manager \<Rightarrow> bool" for E fmt big where
  step_create: "dm_create E big n m = Inr (0, m') \<Longrightarrow> dm_step E fmt big m m'"
| step_open: "dm_open E fmt big fuel n auto m = Inr (0, m') \<Longrightarrow> dm_step E fmt big m m'"
| step_kv: "dm_create_kv_table E big n t ty ine m = Inr (0, m') \<Longrightarrow> dm_step E fmt big m m'"
| step_table: "dm_create_table E big n t ine m = Inr (0, t', m') \<Longrightarrow> dm_step E fmt big m m'"

lemma dm_step_ok:
  assumes "dm_step E fmt big m m'" "writes_ok E items" "meta_ok items h m"
  shows "meta_ok items h m'"
  using assms(1)
proof cases
  case (step_create n)
  then show ?thesis using dm_create_ok [OF assms(2,3)] by blast
next
  case (step_open fuel n auto)
  show ?thesis
  proof (cases "dm_get_db m n")
    case None
    then obtain c m1 where c: "dm_create E big n m = Inr (c, m1)"
      using step_open by (auto simp: dm_open_def rbind_eq_Inr ERR_DB_NOT_FOUND_def split: if_splits)
    then obtain db where "dm_create E big n m = Inr (0, m1)" "open_tables E fmt big fuel n db m1 = Inr (0, m')"
      using step_open None by (auto simp: dm_open_def ERR_DB_NOT_FOUND_def split: if_splits option.splits)
    then show ?thesis using dm_create_ok [OF assms(2,3)] open_tables_wrapper meta_ok_cong by metis
  next
    case (Some db)
    then have "open_tables E fmt big fuel n db m = Inr (0, m')" using step_open by (simp add: dm_open_def)
    then show ?thesis using assms(3) open_tables_wrapper meta_ok_cong by metis
  qed
next
  case (step_kv n t ty ine)
  then show ?thesis
    using assms(3) store_table_ok [OF assms(2,3), of big]
    by (auto simp: dm_create_kv_table_def ERR_DB_NOT_FOUND_def split: option.splits if_splits prod.splits)
next
  case (step_table n t ine t')
  then show ?thesis
    using assms(3) store_table_ok [OF assms(2,3), of big]
    by (auto simp: dm_create_table_def ERR_DB_NOT_FOUND_def rbind_eq_Inr Let_def split: option.splits if_splits prod.splits)
qed

lemma dm_steps_ok:
  "(dm_step E fmt big)\<^sup>*\<^sup>* m m' \<Longrightarrow> writes_ok E items \<Longrightarrow> meta_ok items h m \<Longrightarrow> meta_ok items h m'"
  by (induction rule: rtranclp_induct) (blast intro: dm_step_ok)+

section \<open>Loading\<close>

text \<open>No record of the family starts with the id the loop of \<open>init\<close> looks for, and all are before it.\<close>

lemma init_bytes: "be_bytes 4 kMetaDatabaseId = [0, 0, 3, 0xe9]"
  by (simp add: kMetaDatabaseId_def be_bytes_def upt_conv_Cons)

lemma zeros_4: "replicate 4 (0 :: u8) = [0, 0, 0, 0]"
  by (simp add: numeral_eq_Suc)

lemma record_before_init: "x = db_key i \<or> x = tbl_key i \<Longrightarrow> x < be_bytes 4 kMetaDatabaseId"
  using replicate_add [of 4 4 "0 :: u8"] by (auto simp: db_key_def tbl_key_def init_bytes zeros_4)

lemma load_no_dbs:
  assumes "lookups_ok E items" "meta_ok items h m" "0 < fuel"
  shows "load_dbs E fmt big (be_bytes 4 kMetaDatabaseId) fuel
    (e_seek E (e_iter E (rw_db (dm_wrapper m)) (Some h) p) (be_bytes 4 kMetaDatabaseId)) dbs = Inr dbs"
proof -
  let ?c = "e_seek E (e_iter E (rw_db (dm_wrapper m)) (Some h) p) (be_bytes 4 kMetaDatabaseId)"
  have "\<not> e_valid E ?c"
  proof
    assume v: "e_valid E ?c"
    have "cursor_on E (rw_db (dm_wrapper m)) h ?c" by blast
    from moves_okD(1) [OF assms(1) this v] obtain i where "e_key E ?c = db_key i \<or> e_key E ?c = tbl_key i"
      using assms(2) by (force simp: meta_ok_def)
    then show False
      using record_before_init moves_okD(2) [OF assms(1) on_iter v] by fastforce
  qed
  then show ?thesis using assms(3) by (cases fuel) auto
qed

text \<open>A table key does not start with the key of a database with an id other than 0.\<close>

lemma starts_db_key:
  "starts_with (db_key j) (db_key i) \<longleftrightarrow> j = i" "i \<noteq> 0 \<Longrightarrow> \<not> starts_with (tbl_key j) (db_key i)"
proof -
  have inj: "be_bytes 4 j = be_bytes 4 i \<longleftrightarrow> j = i" for i j :: u32
    using be_bytes_inj [of 4 j i] by auto
  then show "starts_with (db_key j) (db_key i) \<longleftrightarrow> j = i"
    by (simp add: starts_with_def db_key_def)
  have "be_bytes 4 (0 :: u32) = replicate 4 0"
    by (simp add: be_bytes_def map_replicate_const)
  moreover have "take 8 (tbl_key j) = replicate 4 0 @ replicate 4 0"
    unfolding tbl_key_def by (simp add: replicate_add [symmetric])
  ultimately show "i \<noteq> 0 \<Longrightarrow> \<not> starts_with (tbl_key j) (db_key i)"
    using inj [of 0 i] by (simp add: starts_with_def db_key_def)
qed

section \<open>Properties\<close>

text \<open>
  C11. A restart loses every database. Whatever databases and tables were created and opened on a store whose
  \<open>meta_info\<close> family had no other records, a new manager on what they left finds no database and numbers
  databases from 1 again, and opening one fails: \<open>init\<close> looks for records under the id of databases, and the
  keys they are stored under start with four zeros.
\<close>

theorem databases_lost:
  assumes "writes_ok E items" "lookups_ok E items" "meta_ok items h m0" "(dm_step E fmt big)\<^sup>*\<^sup>* m0 m"
    and "rocks_init E path (wrapper_new s) = (0, w)" "get_meta_info_handle w = Some h'"
    and "items (rw_db w) h' = meta_items items m h" "0 < fuel"
  shows "\<exists>m'. dm_init E fmt big fuel path (dm_new s) = Inr (0, m') \<and> dm_dbs m' = [] \<and> dm_last_dbid m' = 0 \<and>
    (\<forall>n. dm_open E fmt big fuel n False m' = Inr (ERR_DB_NOT_FOUND, m'))"
proof -
  let ?m = "(dm_new s)\<lparr> dm_basepath := path, dm_wrapper := w \<rparr>"
  have "rw_open w"
    using rocks_init_families [of "wrapper_new s" E path] assms(5) by (auto simp: wrapper_new_def)
  then have "meta_ok items h' ?m"
    using dm_steps_ok [OF assms(4,1,3)] assms(6,7) by (simp add: meta_ok_def meta_store_def)
  then have "dm_init E fmt big fuel path (dm_new s) = Inr (0, ?m)"
    using load_no_dbs [OF assms(2) _ assms(8), of h' ?m fmt big True "[]"] assms(5,6) init_key \<open>rw_open w\<close>
    by (simp add: dm_init_def dm_new_def seek_for_next_def using_db_open)
  then show ?thesis by (auto simp: dm_new_def dm_open_def dm_get_db_def)
qed

lemma cf_distinct: "distinct [''default'', RAFT_LOG_CF, DATA_CF, METAINFO_CF, BIN_LOG_CF]"
  by (simp add: cf_names)

lemma ensure_cfs_all: "\<forall>x \<in> set ns. rw_cfs w (snd x) \<noteq> None \<Longrightarrow> ensure_cfs E ns w = (True, w)"
  unfolding ensure_cfs_def by (induction ns) (auto simp: ensure_cf_def)

text \<open>Opening a store that has the four families of the program.\<close>

lemma mem_reopen:
  assumes "s = [(''default'', a), (RAFT_LOG_CF, b), (DATA_CF, c), (METAINFO_CF, d), (BIN_LOG_CF, e)]"
  shows "\<exists>w. rocks_init mem_engine path (wrapper_new s) = (0, w) \<and> rw_db w = s \<and> rw_open w \<and>
    get_meta_info_handle w = Some 3 \<and> get_data_handle w = Some 2"
proof -
  have u: "[0..<5::nat] = [0, 1, 2, 3, 4]" by (simp add: upt_conv_Cons)
  let ?w = "(wrapper_new s)\<lparr> rw_path := path, rw_open := True \<rparr>"
  let ?f = "[''default'' \<mapsto> 0, RAFT_LOG_CF \<mapsto> 1, DATA_CF \<mapsto> 2, METAINFO_CF \<mapsto> 3, BIN_LOG_CF \<mapsto> 4]"
  have "register_handles mem_engine [0..<length s] ?w = ?w\<lparr> rw_cfs := ?f \<rparr>"
    using assms u by (simp add: register_handles_def mem_engine_simps wrapper_new_def numeral_eq_Suc)
  then have o: "open_db mem_engine path ((wrapper_new s)\<lparr> rw_path := path \<rparr>) = (True, ?w\<lparr> rw_cfs := ?f \<rparr>)"
    using assms by (simp add: open_db_def mem_engine_simps wrapper_new_def del: upt_Suc)
  have "ensure_cfs mem_engine [(LogOpt, RAFT_LOG_CF), (DataOpt, DATA_CF), (MetaOpt, METAINFO_CF),
      (BinlogOpt, BIN_LOG_CF)] (?w\<lparr> rw_cfs := ?f \<rparr>) = (True, ?w\<lparr> rw_cfs := ?f \<rparr>)"
    by (rule ensure_cfs_all) auto
  then have "rocks_init mem_engine path (wrapper_new s) = (0, ?w\<lparr> rw_cfs := ?f, rw_is_init := True \<rparr>)"
    using o by (simp add: rocks_init_def) (simp add: wrapper_new_def)
  then show ?thesis
    using cf_distinct by (auto simp: get_meta_info_handle_def get_data_handle_def get_handle_def wrapper_new_def)
qed
definition demo_manager :: "mem_db db_manager" where
  "demo_manager = (dm_new [])\<lparr> dm_basepath := ''/db'', dm_wrapper := snd (rocks_init mem_engine ''/db'' (wrapper_new [])) \<rparr>"

lemmas rocks_init_eval = rocks_init_def wrapper_new_def open_db_def mem_engine_simps ensure_cfs_def ensure_cf_def
  cf_names get_handle_def

lemma demo_manager: "meta_store demo_manager 3" "length (rw_db (dm_wrapper demo_manager)) = 5"
  "mem_items (rw_db (dm_wrapper demo_manager)) 3 = []" "dm_dbs demo_manager = []" "dm_last_dbid demo_manager = 0"
  "rw_db (dm_wrapper demo_manager) = [(''default'', []), (RAFT_LOG_CF, []), (DATA_CF, []), (METAINFO_CF, []), (BIN_LOG_CF, [])]"
  "data_store (dm_wrapper demo_manager) 2"
  by (simp_all add: demo_manager_def dm_new_def meta_store_def get_meta_info_handle_def rocks_init_eval mem_items_def
      sort_items_def data_store_def get_data_handle_def)

lemma databases_lost_witness:
  "\<exists>m m'. dm_create mem_engine False [0x64] demo_manager = Inr (0, m) \<and> dm_exists m [0x64] \<and>
     dm_init mem_engine (\<lambda>_. []) False 1 ''/db'' (dm_new (rw_db (dm_wrapper m))) = Inr (0, m') \<and> dm_dbs m' = [] \<and>
     dm_open mem_engine (\<lambda>_. []) False 1 [0x64] False m' = Inr (ERR_DB_NOT_FOUND, m')"
proof -
  obtain bs where bs: "dm_create mem_engine False [0x64] demo_manager =
      (let r = e_put mem_engine (rw_db (dm_wrapper demo_manager)) (Some 3) (db_key 1) bs;
           m = demo_manager\<lparr> dm_last_dbid := 1, dm_wrapper := (dm_wrapper demo_manager)\<lparr> rw_db := snd r \<rparr> \<rparr> in
       Inr (fst r, if fst r \<noteq> 0 then m else dm_set_db [0x64] (dd_new\<lparr> dd_name := [0x64], dd_id := 1 \<rparr>) m))"
    using dm_create_eq [OF demo_manager(1), of "[0x64]" 1 False mem_engine] by (auto simp: demo_manager)
  obtain m where m: "dm_create mem_engine False [0x64] demo_manager = Inr (0, m)" "dm_exists m [0x64]"
      "rw_db (dm_wrapper m) = (rw_db (dm_wrapper demo_manager))[3 := (METAINFO_CF, [(db_key 1, bs)])]"
    using bs demo_manager
    by (auto simp: mem_engine_simps mem_set_def dm_exists_def Let_def put_item_def)
  have ok: "meta_ok mem_items 3 demo_manager" using demo_manager(1,3) by (simp add: meta_ok_def)
  obtain w where w: "rocks_init mem_engine ''/db'' (wrapper_new (rw_db (dm_wrapper m))) = (0, w)"
      "get_meta_info_handle w = Some 3" "rw_db w = rw_db (dm_wrapper m)"
    using mem_reopen [of "rw_db (dm_wrapper m)" "[]" "[]" "[]" "[(db_key 1, bs)]" "[]" "''/db''"] m(3) demo_manager(6)
    by auto
  show ?thesis
    using databases_lost [OF mem_engine_writes mem_engine_lookups ok r_into_rtranclp [of "dm_step mem_engine (\<lambda>_. []) False"]
        w(1,2), OF step_create [OF m(1)]] w(3) m(1,2) by fastforce
qed

text \<open>Reading the record of a database as a table.\<close>

lemma db_record_as_table:
  assumes "tuple_deserialize big bs [] = Inr [(1, VLong (ucast i)), (2, VLong 0), (3, VString n), (4, VString []),
      (5, VLong 0), (7, VLong 0)]" "0 \<notin> set n"
  shows "td_deserialize fmt big bs td_new = Inr (td_new\<lparr> td_id := i, td_name := n, td_last_fid := ucast i,
    td_primarykey := Some (ix_new\<lparr> ix_fields := [0, 0, 0, 0] \<rparr>) \<rparr>)"
proof -
  have "host_bytes big 8 (0 :: u64) = replicate 8 0"
    by (simp add: host_bytes_def be_bytes_zero)
  then have v: "value_slice big (VLong 0) = Inr (replicate 8 0)"
    by (simp add: value_slice_def read_block_def)
  have z: "to_i32 (VLong 0) = Inr 0" by simp
  have "replicate 4 (0 :: u16) = [0, 0, 0, 0]" by (simp add: numeral_eq_Suc)
  then show ?thesis
    using assms(1) v z c_string_id [OF assms(2)] c_string_id [of "[]"]
    by (simp add: td_deserialize_def tuple_new_def on_tag_def tuple_get_def ix_new_def td_new_def back_u32(1) map_replicate
        del: to_i32.simps)
qed

text \<open>The table that the record of a database is read as.\<close>

definition own_table :: "bytes \<Rightarrow> u32 \<Rightarrow> table_descriptor" where
  "own_table n i = td_new\<lparr> td_id := i, td_name := n, td_last_fid := ucast i,
     td_primarykey := Some (ix_new\<lparr> ix_fields := [0, 0, 0, 0] \<rparr>) \<rparr>"

text \<open>What the loop of \<open>open\<close> finds in a family with the record of the database.\<close>

lemma load_own_record:
  assumes "writes_ok E items" "lookups_ok E items" "no_read_errors E"
    and "\<forall>x \<in> set (items s h). \<exists>i. fst x = db_key i \<or> fst x = tbl_key i"
    and "(db_key i, bs) \<in> set (items s h)" "i \<noteq> 0" "td_deserialize fmt big bs td_new = Inr (own_table n i)" "2 \<le> fuel"
  shows "load_tables E fmt big (db_key i) fuel (e_seek E (e_iter E s (Some h) True) (db_key i)) db =
    Inr (dd_add_table n (own_table n i) db)"
proof -
  let ?c = "e_seek E (e_iter E s (Some h) True) (db_key i)"
  have on: "cursor_on E s h ?c" by blast
  have at: "e_valid E ?c" "e_key E ?c = db_key i"
    using seeks_okD [OF assms(2), of "db_key i" s h True] assms(3,5) by (force simp: no_read_errors_def)+
  have val: "e_value E ?c = bs"
    using moves_okD(1) [OF assms(2) on at(1)] at(2) assms(5) ordered_unique [OF writes_okD(1) [OF assms(1)]] by metis
  have stop: "\<not> starts_with (e_key E (e_next E ?c)) (db_key i)" if v: "e_valid E (e_next E ?c)"
  proof -
    have "cursor_on E s h (e_next E ?c)" using on at(1) by blast
    from moves_okD(1) [OF assms(2) this v] obtain j where
      "e_key E (e_next E ?c) = db_key j \<or> e_key E (e_next E ?c) = tbl_key j"
      using assms(4) by force
    then show ?thesis
      using moves_okD(4) [OF assms(2) on at(1) v] at(2) starts_db_key assms(6) by fastforce
  qed
  obtain f where "fuel = Suc (Suc f)" using assms(8) by (metis add_2_eq_Suc le_Suc_ex)
  then show ?thesis using at val stop assms(7) starts_db_key(1) by (simp add: own_table_def td_new_def)
qed

text \<open>The manager behind a successful \<open>create\<close> of a new database.\<close>

lemma dm_created:
  assumes "writes_ok E items" "meta_ok items h m" "map_of (dm_dbs m) n = None" "ordered_items (dm_dbs m)"
    and "length n < 0xffffff" "0 \<notin> set n" "dm_create E big n m = Inr (0, m1)" "i = dm_last_dbid m + 1"
  obtains bs where "td_deserialize fmt big bs td_new = Inr (own_table n i)"
    "(db_key i, bs) \<in> set (meta_items items m1 h)" "ordered_items (dm_dbs m1)"
    "dm_get_db m1 n = Some (dd_new\<lparr> dd_name := n, dd_id := i \<rparr>)"
proof -
  have ms: "meta_store m h" using assms(2) by (simp add: meta_ok_def)
  let ?db = "dd_new\<lparr> dd_name := n, dd_id := i \<rparr>"
  obtain bs where bs: "tuple_deserialize big bs [] = Inr [(1, VLong (ucast i)), (2, VLong 0), (3, VString n),
        (4, VString []), (5, VLong 0), (7, VLong 0)]"
      "dm_create E big n m =
        (let r = e_put E (rw_db (dm_wrapper m)) (Some h) (db_key i) bs;
           m = m\<lparr> dm_last_dbid := i, dm_wrapper := (dm_wrapper m)\<lparr> rw_db := snd r \<rparr> \<rparr> in
         Inr (fst r, if fst r \<noteq> 0 then m else dm_set_db n ?db m))"
    using dm_create_eq [OF ms assms(3,5,8), of big E] by blast
  obtain s where s: "e_put E (rw_db (dm_wrapper m)) (Some h) (db_key i) bs = (0, s)"
      "m1 = dm_set_db n ?db (m\<lparr> dm_last_dbid := i, dm_wrapper := (dm_wrapper m)\<lparr> rw_db := s \<rparr> \<rparr>)"
    using bs(2) assms(7) by (cases "e_put E (rw_db (dm_wrapper m)) (Some h) (db_key i) bs") (auto simp: Let_def)
  have "(db_key i, bs) \<in> set (meta_items items m1 h)"
    using writes_okD(2) [OF assms(1) s(1)] s(2) by (simp add: put_item_def)
  then show ?thesis
    using that [of bs] db_record_as_table [OF bs(1) assms(6), of fmt] s(2) map_of_assign [OF assms(4), of n ?db]
      map_assign_ordered [OF assms(4), of n ?db] by (simp add: own_table_def dm_get_db_def)
qed

text \<open>
  Opening a database that was just created gives it a table with its own name: the keys under which
  \<open>open\<close> looks for tables start like the key of the database's own record, which is then read as a
  table. Creating a table of that name afterwards does nothing.
\<close>

theorem open_adds_itself:
  assumes "writes_ok E items" "lookups_ok E items" "no_read_errors E" "meta_ok items h m"
    and "map_of (dm_dbs m) n = None" "ordered_items (dm_dbs m)" "length n < 0xffffff" "0 \<notin> set n" "dm_last_dbid m + 1 \<noteq> 0"
    and "dm_create E big n m = Inr (0, m1)" "2 \<le> fuel"
  shows "\<exists>m2. dm_open E fmt big fuel n auto m1 = Inr (0, m2) \<and>
    dm_get_table_descriptor m2 n n = Some (td_new\<lparr> td_id := dm_last_dbid m + 1, td_name := n,
      td_last_fid := ucast (dm_last_dbid m + 1), td_primarykey := Some (ix_new\<lparr> ix_fields := [0, 0, 0, 0] \<rparr>) \<rparr>) \<and>
    dm_create_kv_table E big n n ty True m2 = Inr (0, m2)"
proof -
  let ?i = "dm_last_dbid m + 1" and ?db = "dd_new\<lparr> dd_name := n, dd_id := dm_last_dbid m + 1 \<rparr>"
  obtain bs where bs: "td_deserialize fmt big bs td_new = Inr (own_table n ?i)"
      "(db_key ?i, bs) \<in> set (meta_items items m1 h)" "ordered_items (dm_dbs m1)" "dm_get_db m1 n = Some ?db"
    by (rule dm_created [OF assms(1,4-8,10) refl])
  have ok: "meta_ok items h m1" by (rule dm_create_ok [OF assms(1,4,10)])
  then have load: "load_tables E fmt big (db_key ?i) fuel
      (e_seek E (e_iter E (rw_db (dm_wrapper m1)) (Some h) True) (db_key ?i)) ?db = Inr (dd_add_table n (own_table n ?i) ?db)"
    unfolding meta_ok_def by (intro load_own_record [OF assms(1-3) _ bs(2) assms(9) bs(1) assms(11)]) blast
  obtain k where k: "rbind (append_u32 big mut_key_new kMetaTableId) (\<lambda>k. append_u32 big k ?i) = Inr k"
      "key_slice k = Inr (db_key ?i)"
    using open_key [of big ?i] by blast
  let ?m2 = "dm_set_db n (dd_add_table n (own_table n ?i) ?db) m1"
  have "dm_open E fmt big fuel n auto m1 = Inr (0, ?m2)"
    using bs(4) k load ok
    by (simp add: dm_open_def open_tables_def dd_new_def seek_for_next_def using_db_open meta_ok_def meta_store_def)
  moreover have "dm_get_db ?m2 n = Some (dd_add_table n (own_table n ?i) ?db)"
    using map_of_assign [OF bs(3)] by (simp add: dm_get_db_def)
  ultimately show ?thesis
    by (simp add: dm_get_table_descriptor_def dm_create_kv_table_def dd_exists_def dd_get_table_def dd_add_table_def
        dd_new_def own_table_def)
qed

lemma open_adds_itself_witness:
  "\<exists>m1 m2. dm_create mem_engine True [0x64] demo_manager = Inr (0, m1) \<and>
     dm_open mem_engine (\<lambda>_. []) True 2 [0x64] False m1 = Inr (0, m2) \<and>
     dm_get_table_descriptor m2 [0x64] [0x64] = Some (td_new\<lparr> td_id := 1, td_name := [0x64], td_last_fid := 1,
       td_primarykey := Some (ix_new\<lparr> ix_fields := [0, 0, 0, 0] \<rparr>) \<rparr>)"
proof -
  obtain m1 where m1: "dm_create mem_engine True [0x64] demo_manager = Inr (0, m1)"
    using dm_create_eq [OF demo_manager(1), of "[0x64]" 1 True mem_engine] demo_manager(2,4,5)
    by (auto simp: mem_engine_simps mem_set_def Let_def)
  have ok: "meta_ok mem_items 3 demo_manager" using demo_manager(1,3) by (simp add: meta_ok_def)
  show ?thesis
    using open_adds_itself [OF mem_laws ok _ _ _ _ _ m1, of 2 "\<lambda>_. []" False 0] m1 demo_manager(4,5) by auto
qed

text \<open>What a table of the two columns \<open>k\<close> and \<open>v\<close> is stored as.\<close>

lemma kv_table_simps [simp]: "td_name (kv_table tn i ty) = tn" "td_id (kv_table tn i ty) = i"
  by (simp_all add: kv_table_def td_next_id_def td_set_primary_key_def td_add_field_def)

lemma store_table_eq:
  assumes "meta_store m h" "td_get_val big t = Inr v"
  shows "store_table E big n db t m =
    (let r = e_put E (rw_db (dm_wrapper m)) (Some h) (tbl_key (td_id t)) v;
         m = (dm_set_db n db m)\<lparr> dm_wrapper := (dm_wrapper m)\<lparr> rw_db := snd r \<rparr> \<rparr> in
     if fst r \<noteq> 0 then Inr (fst r, m) else Inr (0, dm_set_db n (dd_add_table (td_name t) t db) m))"
  using assms td_key [of big t "dd_id db"] meta_put [OF assms(1), of E]
  by (simp add: store_table_def meta_store_def Let_def)

lemma create_kv_eq:
  assumes "meta_store m h" "dm_get_db m n = Some db" "\<not> dd_exists db tn" "length tn < 0xffffff"
  shows "\<exists>v. dm_create_kv_table E big n tn ty ine m =
    (let t = kv_table tn (dd_last_tid db + 1) ty; db = db\<lparr> dd_last_tid := dd_last_tid db + 1 \<rparr>;
         r = e_put E (rw_db (dm_wrapper m)) (Some h) (tbl_key (td_id t)) v;
         m = (dm_set_db n db m)\<lparr> dm_wrapper := (dm_wrapper m)\<lparr> rw_db := snd r \<rparr> \<rparr> in
     if fst r \<noteq> 0 then Inr (fst r, m) else Inr (0, dm_set_db n (dd_add_table tn t db) m))"
proof -
  let ?t = "kv_table tn (dd_last_tid db + 1) ty"
  obtain v where v: "td_get_val big ?t = Inr v"
    using table_object [of ?t "ix_new\<lparr> ix_fields := [1], ix_type := 1 \<rparr>" big] assms(4)
    by (auto simp: kv_table_def td_next_id_def td_set_primary_key_def td_add_field_def td_new_def ix_new_def
        field_fits_def fd_new_def)
  have "dm_create_kv_table E big n tn ty ine m = store_table E big n (db\<lparr> dd_last_tid := dd_last_tid db + 1 \<rparr>) ?t m"
    using assms(2,3) by (simp add: dm_create_kv_table_def dd_next_id_def)
  then show ?thesis
    by (intro exI [of _ v]) (simp add: store_table_eq [OF assms(1) v] Let_def)
qed

text \<open>
  C13. A table made by \<open>create_kv_table\<close> is usable: the operator the manager hands out for it stores a row
  under an integer key, and reads its value back.
\<close>

theorem kv_table_usable:
  assumes "writes_ok E items" "lookups_ok E items" "no_read_errors E" "meta_store m h" "data_store (dm_wrapper m) dh"
    and "ordered_items (dm_dbs m)" "dm_get_db m n = Some db" "uint (dd_id db) < 2 ^ 24"
    and "\<not> dd_exists db tn" "ordered_items (dd_name2table db)" "length tn < 0xffffff"
    and "dm_create_kv_table E big n tn FT_Int64 ine m = Inr (0, m')" "flat_val (VLong i)" "flat_val v"
  shows "\<exists>t c w. dm_get_table_writer m' n tn = Some t \<and>
    table_put E atof big (dm_wrapper m') t (VLong i) v = Inr (c, w) \<and>
    (c = 0 \<longrightarrow> table_get E atof big w t (VLong i) x = Inr (0, val_back v))"
proof -
  let ?db = "db\<lparr> dd_last_tid := dd_last_tid db + 1 \<rparr>" and ?tbl = "kv_table tn (dd_last_tid db + 1) FT_Int64"
  let ?t = "\<lparr> tb_db = dd_add_table tn ?tbl ?db, tb_tbl = ?tbl \<rparr>"
  obtain s where "m' = dm_set_db n (dd_add_table tn ?tbl ?db) ((dm_set_db n ?db m)\<lparr> dm_wrapper := (dm_wrapper m)\<lparr> rw_db := s \<rparr> \<rparr>)"
    using create_kv_eq [OF assms(4,7,9,11), of E big FT_Int64 ine] assms(12)
    by (simp add: Let_def split: if_splits) metis
  then have s: "dm_wrapper m' = (dm_wrapper m)\<lparr> rw_db := s \<rparr>"
      "dm_dbs m' = map_assign n (dd_add_table tn ?tbl ?db) (map_assign n ?db (dm_dbs m))" by simp_all
  have w: "dm_get_table_writer m' n tn = Some ?t"
    using s(2) map_of_assign [OF map_assign_ordered [OF assms(6)]] map_of_assign [OF assms(10)]
    by (simp add: dm_get_table_writer_def dm_get_db_def dd_get_table_def dd_add_table_def)
  have kf: "key_field ?t = Some (fd_new\<lparr> fd_name := [0x6b], fd_id := 1, fd_flags := FLAG_PrimaryKey, fd_type := FT_Int64 \<rparr>)"
    by (simp add: key_field_def kv_table_def td_next_id_def td_set_primary_key_def td_add_field_def td_new_def ix_new_def
        fd_new_def field_types)
  have k: "row_key atof big ?t (VLong i) = Inr (int_key i)"
    by (rule int_row_key [OF kf]) (simp_all add: assms(8)[simplified] dd_add_table_def)
  have ds: "data_store (dm_wrapper m') dh" using assms(5) s(1) by simp
  obtain c w' where "table_put E atof big (dm_wrapper m') ?t (VLong i) v = Inr (c, w')"
    using table_put_items [OF assms(1) ds k assms(13,14)] by blast
  then show ?thesis using put_get [OF assms(1-3) ds kf k assms(13,14)] w by blast
qed

lemma demo_created:
  obtains m1 m2 d where "dm_create mem_engine True [0x64] demo_manager = Inr (0, m1)" "dm_dbs m1 = [([0x64], d)]"
    "dm_get_db m1 [0x64] = Some d" "\<not> dd_exists d [0x74]" "dd_id d = 1" "dd_name2table d = []"
    "data_store (dm_wrapper m1) 2" "meta_store m1 3"
    "dm_create_kv_table mem_engine True [0x64] [0x74] FT_Int64 True m1 = Inr (0, m2)"
proof -
  let ?d = "dd_new\<lparr> dd_name := [0x64], dd_id := 1 \<rparr>"
  obtain m1 where m1: "dm_create mem_engine True [0x64] demo_manager = Inr (0, m1)" "dm_dbs m1 = [([0x64], ?d)]"
      "length (rw_db (dm_wrapper m1)) = 5" "data_store (dm_wrapper m1) 2" "meta_store m1 3"
    using dm_create_eq [OF demo_manager(1), of "[0x64]" 1 True mem_engine] demo_manager(1,2,4,5,7)
    by (auto simp: mem_engine_simps mem_set_def Let_def meta_store_def)
  have db: "dm_get_db m1 [0x64] = Some ?d" "\<not> dd_exists ?d [0x74]"
    using m1(2) by (simp_all add: dm_get_db_def dd_exists_def dd_new_def)
  obtain m2 where m2: "dm_create_kv_table mem_engine True [0x64] [0x74] FT_Int64 True m1 = Inr (0, m2)"
    using create_kv_eq [OF m1(5) db, of mem_engine True FT_Int64 True] m1(3) by (auto simp: mem_engine_simps mem_set_def Let_def)
  show ?thesis
    by (rule that [OF m1(1,2) db _ _ m1(4,5) m2]) (simp_all add: dd_new_def)
qed

lemma kv_table_usable_witness:
  "\<exists>m1 m2 t c w. dm_create mem_engine True [0x64] demo_manager = Inr (0, m1) \<and>
     dm_create_kv_table mem_engine True [0x64] [0x74] FT_Int64 True m1 = Inr (0, m2) \<and>
     dm_get_table_writer m2 [0x64] [0x74] = Some t \<and>
     table_put mem_engine (\<lambda>_. 0) True (dm_wrapper m2) t (VLong 5) (VString [7]) = Inr (c, w) \<and>
     (c = 0 \<longrightarrow> table_get mem_engine (\<lambda>_. 0) True w t (VLong 5) VNone = Inr (0, val_back (VString [7])))"
proof -
  obtain m1 m2 d where d: "dm_create mem_engine True [0x64] demo_manager = Inr (0, m1)" "dm_dbs m1 = [([0x64], d)]"
      "dm_get_db m1 [0x64] = Some d" "\<not> dd_exists d [0x74]" "dd_id d = 1" "dd_name2table d = []"
      "data_store (dm_wrapper m1) 2" "meta_store m1 3"
      "dm_create_kv_table mem_engine True [0x64] [0x74] FT_Int64 True m1 = Inr (0, m2)"
    by (rule demo_created)
  show ?thesis
    using kv_table_usable [OF mem_laws d(8,7) _ d(3) _ d(4) _ _ d(9), of 5 "VString [7]" "\<lambda>_. 0" VNone] d by auto
qed

section \<open>Names\<close>

text \<open>Databases and tables are kept in the order of their names, each under its own.\<close>

definition db_named :: "bytes \<Rightarrow> database_descriptor \<Rightarrow> bool" where
  "db_named n d \<longleftrightarrow> dd_name d = n \<and> ordered_items (dd_name2table d) \<and>
     (\<forall>x \<in> set (dd_name2table d). td_name (snd x) = fst x)"

definition dbs_named :: "(bytes \<times> database_descriptor) list \<Rightarrow> bool" where
  "dbs_named dbs \<longleftrightarrow> ordered_items dbs \<and> (\<forall>x \<in> set dbs. db_named (fst x) (snd x))"

definition dm_named :: "'s db_manager \<Rightarrow> bool" where
  "dm_named m \<longleftrightarrow> dbs_named (dm_dbs m)"

lemma dm_named_cong: "dm_dbs m' = dm_dbs m \<Longrightarrow> dm_named m' = dm_named m"
  by (simp add: dm_named_def)

lemma named_assign:
  assumes "ordered_items its" "\<forall>x \<in> set its. P (fst x) (snd x)" "P k v"
  shows "ordered_items (map_assign k v its) \<and> (\<forall>x \<in> set (map_assign k v its). P (fst x) (snd x))"
  using assms map_assign_ordered map_assign_set [of k v its] by fastforce

lemma dm_named_set: "dm_named m \<Longrightarrow> db_named n d \<Longrightarrow> dm_named (dm_set_db n d m)"
  using named_assign [of "dm_dbs m" db_named n d] by (simp add: dm_named_def dbs_named_def)

lemma db_named_add: "db_named n d \<Longrightarrow> db_named n (dd_add_table (td_name t) t d)"
  using named_assign [of "dd_name2table d" "\<lambda>k t. td_name t = k" "td_name t" t]
  by (simp add: db_named_def dd_add_table_def)

lemma db_named_new: "db_named n (dd_new\<lparr> dd_name := n, dd_id := i \<rparr>)"
  by (simp add: db_named_def dd_new_def)

lemma dm_named_get: "dm_named m \<Longrightarrow> dm_get_db m n = Some d \<Longrightarrow> db_named n d"
  unfolding dm_named_def dbs_named_def dm_get_db_def using map_of_SomeD by fastforce

text \<open>Reading a record sets no tables.\<close>

lemma on_tag_keeps:
  assumes "on_tag m t f d = Inr d'" "\<And>v d d'. f v d = Inr d' \<Longrightarrow> g d' = g d"
  shows "g d' = g d"
  using assms by (auto simp: on_tag_def split: option.splits)

lemma dd_deserialize_tables:
  assumes "dd_deserialize fmt big bs d = Inr d'"
  shows "dd_name2table d' = dd_name2table d"
proof -
  note keep = on_tag_keeps [where g = dd_name2table]
  obtain m a b c e f g where h: "on_tag m 1 (\<lambda>v d. rbind (to_i32 v) (\<lambda>i. Inr (d\<lparr> dd_id := i \<rparr>))) d = Inr a"
      "on_tag m 2 (\<lambda>v d. rbind (to_i32 v) (\<lambda>i. Inr (d\<lparr> dd_version := i \<rparr>))) a = Inr b"
      "on_tag m 3 (\<lambda>v d. Inr (d\<lparr> dd_name := val_to_string fmt v \<rparr>)) b = Inr c"
      "on_tag m 4 (\<lambda>v d. Inr (d\<lparr> dd_comment := val_to_string fmt v \<rparr>)) c = Inr e"
      "on_tag m 5 (\<lambda>v d. rbind (to_u32 v) (\<lambda>i. Inr (d\<lparr> dd_status := i \<rparr>))) e = Inr f"
      "on_tag m 6 (\<lambda>v d. rbind (read_one_field fmt v (dd_fields d)) (\<lambda>fs. Inr (d\<lparr> dd_fields := fs \<rparr>))) f = Inr g"
      "on_tag m 7 (\<lambda>v d. rbind (to_u32 v) (\<lambda>i. Inr (d\<lparr> dd_last_tid := i \<rparr>))) g = Inr d'"
    using assms unfolding dd_deserialize_def rbind_eq_Inr by blast
  have "dd_name2table a = dd_name2table d" by (rule keep [OF h(1)]) (auto simp: rbind_eq_Inr)
  moreover have "dd_name2table b = dd_name2table a" by (rule keep [OF h(2)]) (auto simp: rbind_eq_Inr)
  moreover have "dd_name2table c = dd_name2table b" by (rule keep [OF h(3)]) auto
  moreover have "dd_name2table e = dd_name2table c" by (rule keep [OF h(4)]) auto
  moreover have "dd_name2table f = dd_name2table e" by (rule keep [OF h(5)]) (auto simp: rbind_eq_Inr)
  moreover have "dd_name2table g = dd_name2table f" by (rule keep [OF h(6)]) (auto simp: rbind_eq_Inr)
  moreover have "dd_name2table d' = dd_name2table g" by (rule keep [OF h(7)]) (auto simp: rbind_eq_Inr)
  ultimately show ?thesis by simp
qed

lemma load_dbs_named:
  "load_dbs E fmt big k n cur dbs = Inr dbs' \<Longrightarrow> dbs_named dbs \<Longrightarrow> dbs_named dbs'"
proof (induction n arbitrary: cur dbs)
  case (Suc n)
  show ?case
  proof (cases "e_valid E cur \<and> starts_with (e_key E cur) k")
    case True
    then obtain d where d: "dd_deserialize fmt big (e_value E cur) dd_new = Inr d"
        "load_dbs E fmt big k n (e_next E cur) (map_assign (dd_name d) d dbs) = Inr dbs'"
      using Suc.prems(1) by (auto simp: rbind_eq_Inr)
    have "db_named (dd_name d) d"
      using dd_deserialize_tables [OF d(1)] by (simp add: db_named_def dd_new_def)
    then show ?thesis
      using Suc.IH [OF d(2)] named_assign [of dbs db_named "dd_name d" d] Suc.prems(2) unfolding dbs_named_def by blast
  next
    case False
    then have "dbs' = dbs" using Suc.prems(1) by (auto split: if_splits)
    then show ?thesis using Suc.prems(2) by simp
  qed
qed simp

lemma load_tables_named:
  "load_tables E fmt big k n cur db = Inr db' \<Longrightarrow> db_named d db \<Longrightarrow> db_named d db'"
  by (induction n arbitrary: cur db) (auto simp: rbind_eq_Inr db_named_add split: if_splits)

lemma open_tables_named:
  "open_tables E fmt big fuel n db m = Inr (c, m') \<Longrightarrow> dm_named m \<Longrightarrow> db_named n db \<Longrightarrow> dm_named m'"
  by (auto simp: open_tables_def rbind_eq_Inr Let_def dm_named_set load_tables_named split: if_splits)

lemma dm_create_named:
  assumes "dm_create E big n m = Inr (c, m')" "dm_named m"
  shows "dm_named m'"
proof (cases "map_of (dm_dbs m) n")
  case None
  have "dm_named (m\<lparr> dm_last_dbid := i, dm_wrapper := w \<rparr>)" for i w
    using assms(2) dm_named_cong [of "m\<lparr> dm_last_dbid := i, dm_wrapper := w \<rparr>" m] by simp
  then show ?thesis
    using assms(1) None dm_named_set [OF _ db_named_new [of n]]
    by (auto simp: dm_create_def rbind_eq_Inr Let_def split: if_splits)
qed (use assms in \<open>simp add: dm_create_def\<close>)

lemma store_table_named:
  assumes "store_table E big n db t m = Inr (c, m')" "dm_named m" "db_named n db"
  shows "dm_named m'"
proof -
  have "dm_named ((dm_set_db n db m)\<lparr> dm_wrapper := w \<rparr>)" for w
    using dm_named_set [OF assms(2,3)] dm_named_cong [of "(dm_set_db n db m)\<lparr> dm_wrapper := w \<rparr>" "dm_set_db n db m"]
    by simp
  then show ?thesis
    using assms(1) dm_named_set [OF _ db_named_add [OF assms(3)]]
    by (auto simp: store_table_def rbind_eq_Inr Let_def split: if_splits)
qed

lemma dd_next_id_named: "db_named n db \<Longrightarrow> dd_next_id db = (i, db') \<Longrightarrow> db_named n db'"
  by (auto simp: dd_next_id_def db_named_def)

text \<open>The managers that calls lead to, whatever they return.\<close>

inductive dm_reach ::
    "('s, 'c) engine \<Rightarrow> (u64 \<Rightarrow> bytes) \<Rightarrow> bool \<Rightarrow> 's db_manager \<Rightarrow> bool" for E fmt big where
  reach_new: "dm_reach E fmt big (dm_new s)"
| reach_init: "dm_reach E fmt big m \<Longrightarrow> dm_init E fmt big fuel p m = Inr (c, m') \<Longrightarrow> dm_reach E fmt big m'"
| reach_create: "dm_reach E fmt big m \<Longrightarrow> dm_create E big n m = Inr (c, m') \<Longrightarrow> dm_reach E fmt big m'"
| reach_open: "dm_reach E fmt big m \<Longrightarrow> dm_open E fmt big fuel n auto m = Inr (c, m') \<Longrightarrow> dm_reach E fmt big m'"
| reach_kv: "dm_reach E fmt big m \<Longrightarrow> dm_create_kv_table E big n t ty ine m = Inr (c, m') \<Longrightarrow> dm_reach E fmt big m'"
| reach_table: "dm_reach E fmt big m \<Longrightarrow> dm_create_table E big n t ine m = Inr (c, t', m') \<Longrightarrow> dm_reach E fmt big m'"

lemma dm_open_named:
  assumes "dm_open E fmt big fuel n auto m = Inr (c, m')" "dm_named m"
  shows "dm_named m'"
proof (cases "dm_get_db m n")
  case None
  show ?thesis
  proof (cases auto)
    case True
    then obtain rc m1 where m1: "dm_create E big n m = Inr (rc, m1)"
        "(if rc \<noteq> 0 then Inr (rc, m1) else case dm_get_db m1 n of None \<Rightarrow> Inr (ERR_DB_NOT_FOUND, m1)
          | Some db \<Rightarrow> open_tables E fmt big fuel n db m1) = Inr (c, m')"
      using assms(1) None by (auto simp: dm_open_def rbind_eq_Inr)
    have "dm_named m1" by (rule dm_create_named [OF m1(1) assms(2)])
    then show ?thesis
      using m1(2) open_tables_named dm_named_get by (fastforce split: if_splits option.splits)
  next
    case False
    then show ?thesis using assms None by (simp add: dm_open_def)
  qed
next
  case (Some db)
  then show ?thesis
    using assms open_tables_named [OF _ assms(2) dm_named_get [OF assms(2) Some]] by (simp add: dm_open_def)
qed

lemma dm_reach_named: "dm_reach E fmt big m \<Longrightarrow> dm_named m"
proof (induction rule: dm_reach.induct)
  case (reach_new s)
  show ?case by (simp add: dm_named_def dbs_named_def dm_new_def)
next
  case (reach_init m fuel p c m')
  then show ?case
    using load_dbs_named [of E fmt big _ fuel _ "dm_dbs m"]
    by (auto simp: dm_init_def dm_named_def rbind_eq_Inr Let_def split: if_splits prod.splits)
next
  case (reach_create m n c m')
  then show ?case using dm_create_named by blast
next
  case (reach_open m fuel n auto c m')
  then show ?case using dm_open_named by blast
next
  case (reach_kv m n t ty ine c m')
  then show ?case
    using store_table_named dd_next_id_named dm_named_get
    by (fastforce simp: dm_create_kv_table_def split: option.splits if_splits prod.splits)
next
  case (reach_table m n t ine c t' m')
  then show ?case
    using store_table_named dd_next_id_named dm_named_get
    by (fastforce simp: dm_create_table_def rbind_eq_Inr Let_def split: option.splits if_splits prod.splits)
qed

text \<open>
  C29. Whatever RocksDB answers and whatever the calls return, a manager keeps its databases and tables in the
  order of their names, each once and under its own name: the operators and descriptors it hands out are
  those of the database and the table that were asked for.
\<close>

theorem manager_names:
  assumes "dm_reach E fmt big m"
  shows "dm_named m \<and>
    (\<forall>n t w. dm_get_table_writer m n t = Some w \<longrightarrow> dd_name (tb_db w) = n \<and> td_name (tb_tbl w) = t)"
proof -
  note named = dm_reach_named [OF assms]
  have "dd_name (tb_db w) = n \<and> td_name (tb_tbl w) = t" if w: "dm_get_table_writer m n t = Some w" for n t w
  proof -
    obtain d tbl where d: "dm_get_db m n = Some d" "map_of (dd_name2table d) t = Some tbl" "w = \<lparr> tb_db = d, tb_tbl = tbl \<rparr>"
      using w by (auto simp: dm_get_table_writer_def dd_get_table_def split: option.splits)
    then show ?thesis
      using dm_named_get [OF named d(1)] map_of_SomeD [OF d(2)] by (fastforce simp: db_named_def)
  qed
  then show ?thesis using named by blast
qed

lemma demo_reach: "dm_reach mem_engine fmt big demo_manager"
proof -
  have ok: "meta_ok mem_items 3 demo_manager" using demo_manager(1,3) by (simp add: meta_ok_def)
  have rc: "fst (rocks_init mem_engine ''/db'' (wrapper_new [])) = 0" by (simp add: rocks_init_eval)
  then obtain w where w: "rocks_init mem_engine ''/db'' (wrapper_new []) = (0, w)"
    by (metis prod.collapse)
  then have dw: "dm_wrapper demo_manager = w" by (simp add: demo_manager_def)
  then have "dm_init mem_engine fmt big 1 ''/db'' (dm_new []) = Inr (0, demo_manager)"
    using load_no_dbs [OF mem_engine_lookups ok, of 1 fmt big True "[]"] demo_manager(1) init_key [of big] w
    by (simp add: dm_init_def dm_new_def seek_for_next_def using_db_open meta_store_def del: load_dbs.simps)
      (simp add: demo_manager_def dm_new_def)
  then show ?thesis by (rule dm_reach.reach_init [OF dm_reach.reach_new])
qed

lemma manager_names_witness:
  "\<exists>m1 m2. dm_create mem_engine True [0x64] demo_manager = Inr (0, m1) \<and>
     dm_create_kv_table mem_engine True [0x64] [0x74] FT_Int64 True m1 = Inr (0, m2) \<and> dm_named m2 \<and>
     (\<forall>n t w. dm_get_table_writer m2 n t = Some w \<longrightarrow> dd_name (tb_db w) = n \<and> td_name (tb_tbl w) = t)"
proof -
  obtain m1 m2 where d: "dm_create mem_engine True [0x64] demo_manager = Inr (0, m1)"
      "dm_create_kv_table mem_engine True [0x64] [0x74] FT_Int64 True m1 = Inr (0, m2)"
    using demo_created by metis
  have "dm_reach mem_engine (\<lambda>_. []) True m2"
    by (rule dm_reach.reach_kv [OF dm_reach.reach_create [OF demo_reach d(1)] d(2)])
  then show ?thesis using manager_names d by blast
qed

end
