(* ===== verification/Float64.thy ===== *)
theory Float64
  imports Aqua_Prelude Complex_Main
begin

text \<open>
  The \<open>double\<close> of C++, IEEE 754 binary64, as the trading engine computes with it. The cells of tuples and the
  key encoder move doubles as bit patterns; here they are added, multiplied and compared, so a finite one is its
  sign, significand (never negative) and exponent. Every operation computes its result exactly, on integers, and
  rounds it to the nearest double, ties to the even one. The lemmas show that this is the rounding of the real
  result, and that arithmetic on whole numbers below two to the 53 is exact.
\<close>

section \<open>Values\<close>

text \<open>\<open>DFin s m e\<close> is m times 2 to the e, negative when s. All NaN are one.\<close>

datatype double = DNan | DInf bool | DFin bool int int

abbreviation "DZero s \<equiv> DFin s 0 (-1074)"

fun d_isnan :: "double \<Rightarrow> bool" where
  "d_isnan DNan = True"
| "d_isnan _ = False"

text \<open>Two to a power, with 1 for the negative ones.\<close>

fun pow2 :: "int \<Rightarrow> int" where
  "pow2 k = (if k \<le> 0 then 1 else 2 * pow2 (k - 1))"

declare pow2.simps [simp del]

text \<open>The quotient of n by d, rounded to an integer.\<close>

definition nearest_even :: "int \<Rightarrow> int \<Rightarrow> int" where
  "nearest_even n d =
     (let q = n div d; r = n mod d in if 2 * r > d \<or> 2 * r = d \<and> odd q then q + 1 else q)"

text \<open>A rounded significand of at most 53 bits, or the power of two above it, with its exponent.\<close>

definition d_pack :: "bool \<Rightarrow> int \<Rightarrow> int \<Rightarrow> double" where
  "d_pack s q e =
     (if q = 0 then DZero s
      else if q = 2 ^ 53 then if e + 1 > 971 then DInf s else DFin s (2 ^ 52) (e + 1)
      else if e > 971 then DInf s
      else DFin s q e)"

text \<open>The binary logarithm of a positive number, rounded down.\<close>

fun int_log :: "int \<Rightarrow> int" where
  "int_log n = (if n \<le> 1 then 0 else int_log (n div 2) + 1)"

declare int_log.simps [simp del]

text \<open>The binary logarithm of the fraction n / d, rounded down.\<close>

definition frac_log :: "int \<Rightarrow> int \<Rightarrow> int" where
  "frac_log n d =
     (let t = int_log n - int_log d
      in if d * pow2 t \<le> n * pow2 (- t) then t else t - 1)"

text \<open>The double nearest to n / d times 2 to the e. Its last bit has weight 2 to the k + e.\<close>

definition d_round :: "bool \<Rightarrow> int \<Rightarrow> int \<Rightarrow> int \<Rightarrow> double" where
  "d_round s n d e =
     (if n = 0 then DZero s
      else let k = max (frac_log n d - 52) (- 1074 - e)
           in d_pack s (nearest_even (n * pow2 (- k)) (d * pow2 k)) (k + e))"

definition d_of_int :: "int \<Rightarrow> double" where
  "d_of_int i = d_round (i < 0) \<bar>i\<bar> 1 0"

text \<open>A decimal literal of the source, n / d.\<close>

definition d_lit :: "int \<Rightarrow> int \<Rightarrow> double" where
  "d_lit n d = d_round False n d 0"

section \<open>Arithmetic\<close>

definition signed_by :: "bool \<Rightarrow> int \<Rightarrow> int" where
  "signed_by s m = (if s then - m else m)"

fun d_neg :: "double \<Rightarrow> double" where
  "d_neg DNan = DNan"
| "d_neg (DInf s) = DInf (\<not> s)"
| "d_neg (DFin s m e) = DFin (\<not> s) m e"

fun d_abs :: "double \<Rightarrow> double" where
  "d_abs DNan = DNan"
| "d_abs (DInf s) = DInf False"
| "d_abs (DFin s m e) = DFin False m e"

text \<open>The sum of two finite numbers; equal numbers of different signs give the positive zero.\<close>

definition fin_add :: "bool \<Rightarrow> int \<Rightarrow> int \<Rightarrow> bool \<Rightarrow> int \<Rightarrow> int \<Rightarrow> double" where
  "fin_add s m e s' m' e' =
     (if m = 0 \<and> m' = 0 then DZero (s \<and> s')
      else if m = 0 then DFin s' m' e'
      else if m' = 0 then DFin s m e
      else
        let b = min e e';
            v = signed_by s m * pow2 (e - b) + signed_by s' m' * pow2 (e' - b)
        in d_round (v < 0) \<bar>v\<bar> 1 b)"

fun d_add :: "double \<Rightarrow> double \<Rightarrow> double" where
  "d_add (DFin s m e) (DFin s' m' e') = fin_add s m e s' m' e'"
| "d_add (DInf s) (DInf s') = (if s = s' then DInf s else DNan)"
| "d_add (DInf s) (DFin _ _ _) = DInf s"
| "d_add (DFin _ _ _) (DInf s) = DInf s"
| "d_add _ _ = DNan"

definition d_sub :: "double \<Rightarrow> double \<Rightarrow> double" where
  "d_sub x y = d_add x (d_neg y)"

fun d_mul :: "double \<Rightarrow> double \<Rightarrow> double" where
  "d_mul (DFin s m e) (DFin s' m' e') = d_round (s \<noteq> s') (m * m') 1 (e + e')"
| "d_mul (DInf s) (DInf s') = DInf (s \<noteq> s')"
| "d_mul (DInf s) (DFin s' m e) = (if m = 0 then DNan else DInf (s \<noteq> s'))"
| "d_mul (DFin s m e) (DInf s') = (if m = 0 then DNan else DInf (s \<noteq> s'))"
| "d_mul _ _ = DNan"

fun d_div :: "double \<Rightarrow> double \<Rightarrow> double" where
  "d_div (DFin s m e) (DFin s' m' e') =
     (if m' = 0 then if m = 0 then DNan else DInf (s \<noteq> s')
      else d_round (s \<noteq> s') m m' (e - e'))"
| "d_div (DInf s) (DFin s' m e) = DInf (s \<noteq> s')"
| "d_div (DFin s m e) (DInf s') = DZero (s \<noteq> s')"
| "d_div _ _ = DNan"

section \<open>Comparisons and conversions\<close>

text \<open>The signed significands over a common exponent; the exponent of a zero is left out.\<close>

definition fin_align :: "bool \<Rightarrow> int \<Rightarrow> int \<Rightarrow> bool \<Rightarrow> int \<Rightarrow> int \<Rightarrow> int \<times> int" where
  "fin_align s m e s' m' e' =
     (if m = 0 \<or> m' = 0 then (signed_by s m, signed_by s' m')
      else let b = min e e' in (signed_by s m * pow2 (e - b), signed_by s' m' * pow2 (e' - b)))"

fun d_lt :: "double \<Rightarrow> double \<Rightarrow> bool" where
  "d_lt (DFin s m e) (DFin s' m' e') = (case fin_align s m e s' m' e' of (a, b) \<Rightarrow> a < b)"
| "d_lt (DInf s) (DInf s') = (s \<and> \<not> s')"
| "d_lt (DInf s) (DFin _ _ _) = s"
| "d_lt (DFin _ _ _) (DInf s) = (\<not> s)"
| "d_lt _ _ = False"

fun d_eq :: "double \<Rightarrow> double \<Rightarrow> bool" where
  "d_eq (DFin s m e) (DFin s' m' e') = (case fin_align s m e s' m' e' of (a, b) \<Rightarrow> a = b)"
| "d_eq (DInf s) (DInf s') = (s = s')"
| "d_eq _ _ = False"

definition d_le :: "double \<Rightarrow> double \<Rightarrow> bool" where "d_le x y \<longleftrightarrow> d_lt x y \<or> d_eq x y"

text \<open>\<open>std::min\<close>: the first one unless the second is less.\<close>

definition d_min :: "double \<Rightarrow> double \<Rightarrow> double" where "d_min x y = (if d_lt y x then y else x)"

text \<open>The integer part, for a \<open>static_cast\<close> to an integer; the cast of a NaN or an infinity is undefined.\<close>

fun d_trunc :: "double \<Rightarrow> int option" where
  "d_trunc (DFin s m e) = Some (signed_by s (if e \<ge> 0 then m * pow2 e else m div pow2 (- e)))"
| "d_trunc _ = None"

section \<open>Rounding of reals\<close>

lemma pow2_power: "pow2 k = 2 ^ nat k"
proof (induction k rule: pow2.induct)
  case (1 k)
  show ?case
  proof (cases "k \<le> 0")
    case False
    then have "nat k = Suc (nat (k - 1))" by simp
    then show ?thesis using 1 False by (subst pow2.simps) simp
  qed (simp add: pow2.simps)
qed

lemma pow2_pos [simp]: "0 < pow2 k" by (simp add: pow2_power)

text \<open>The number to the nearest integer, and to the nearest double: the specification of every operation.\<close>

definition rne :: "real \<Rightarrow> int" where
  "rne x = (let q = \<lfloor>x\<rfloor>; r = x - of_int q in if r > 1 / 2 \<or> r = 1 / 2 \<and> odd q then q + 1 else q)"

definition rnd :: "bool \<Rightarrow> real \<Rightarrow> double" where
  "rnd s x =
     (if x = 0 then DZero s
      else let k = max (\<lfloor>log 2 x\<rfloor> - 52) (- 1074) in d_pack s (rne (x * 2 powi (- k))) k)"

fun d_val :: "double \<Rightarrow> real" where
  "d_val (DFin s m e) = of_int (signed_by s m) * 2 powi e"
| "d_val _ = 0"

lemma nearest_even_rne:
  assumes "0 < d"
  shows "nearest_even n d = rne (of_int n / of_int d)"
proof -
  have q: "\<lfloor>of_int n / (of_int d :: real)\<rfloor> = n div d"
    by (rule floor_divide_of_int_eq)
  have r: "of_int n / of_int d - of_int (n div d) = (of_int (n mod d) :: real) / of_int d"
  proof -
    have "real_of_int n = of_int (d * (n div d) + n mod d)" by simp
    also have "\<dots> = of_int d * of_int (n div d) + of_int (n mod d)" by (simp only: of_int_add of_int_mult)
    finally show ?thesis using assms by (simp add: field_simps)
  qed
  have "(1 / 2 < real_of_int m / of_int d) = (real_of_int d < of_int (2 * m))"
    "(real_of_int m / of_int d = 1 / 2) = (real_of_int (2 * m) = of_int d)" for m
    using assms by (auto simp: field_simps)
  then have "(1 / 2 < real_of_int (n mod d) / of_int d) = (d < 2 * (n mod d))"
    "(real_of_int (n mod d) / of_int d = 1 / 2) = (2 * (n mod d) = d)"
    by (simp_all only: of_int_less_iff of_int_eq_iff)
  then show ?thesis
    unfolding nearest_even_def rne_def Let_def q r by simp
qed

lemma int_log_bounds:
  assumes "1 \<le> n"
  shows "0 \<le> int_log n" "2 ^ nat (int_log n) \<le> n" "n < 2 * 2 ^ nat (int_log n)"
proof -
  have "0 \<le> int_log n \<and> 2 ^ nat (int_log n) \<le> n \<and> n < 2 * 2 ^ nat (int_log n)"
    using assms
  proof (induction n rule: int_log.induct)
    case (1 n)
    show ?case
    proof (cases "n \<le> 1")
      case False
      have ih: "0 \<le> int_log (n div 2)" "2 ^ nat (int_log (n div 2)) \<le> n div 2"
        "n div 2 < 2 * 2 ^ nat (int_log (n div 2))"
        using 1 False by auto
      have "nat (int_log n) = Suc (nat (int_log (n div 2)))"
        using ih(1) False by (simp add: int_log.simps [of n] nat_add_distrib)
      moreover have "0 \<le> int_log n" using ih(1) False by (simp add: int_log.simps [of n])
      moreover have "2 * p \<le> n \<and> n < 2 * (2 * p)" if "p \<le> n div 2" "n div 2 < 2 * p" for p
        using that by linarith
      ultimately show ?thesis using ih(2, 3) by simp
    qed (use 1 in \<open>simp add: int_log.simps\<close>)
  qed
  then show "0 \<le> int_log n" "2 ^ nat (int_log n) \<le> n" "n < 2 * 2 ^ nat (int_log n)" by auto
qed

lemma powi_nat: "0 \<le> k \<Longrightarrow> (2 :: real) powi k = 2 ^ nat k"
  by (simp add: power_int_def)

lemma floor_log_powi:
  assumes "2 powi l \<le> x" "x < 2 powi (l + 1)"
  shows "\<lfloor>log 2 x\<rfloor> = l"
proof -
  have x: "0 < x" using assms(1) zero_less_power_int [of "2 :: real" l] by linarith
  have "2 powr of_int l \<le> x" "x < 2 powr of_int (l + 1)"
    using assms by (simp_all add: powr_real_of_int' flip: of_int_add)
  then show ?thesis
    using x by (intro floor_unique) (auto simp: le_log_iff log_less_iff)
qed

lemma powi_pow2: "2 powi t = (of_int (pow2 t) :: real) / of_int (pow2 (- t))"
  by (cases "0 \<le> t") (simp_all add: pow2_power power_int_def field_simps)

lemma frac_log_floor:
  assumes "0 < n" "0 < d"
  shows "frac_log n d = \<lfloor>log 2 (of_int n / of_int d)\<rfloor>"
proof -
  let ?t = "int_log n - int_log d" and ?x = "of_int n / of_int d :: real"
  note bn = int_log_bounds [of n] and bd = int_log_bounds [of d]
  have B: "2 powi (int_log n) \<le> real_of_int n" "real_of_int n < 2 * 2 powi (int_log n)"
    "2 powi (int_log d) \<le> real_of_int d" "real_of_int d < 2 * 2 powi (int_log d)"
    using bn(1) bd(1) assms
      bn(2) [THEN of_int_le_iff [where ?'a = real, THEN iffD2]] bn(3) [THEN of_int_less_iff [where ?'a = real, THEN iffD2]]
      bd(2) [THEN of_int_le_iff [where ?'a = real, THEN iffD2]] bd(3) [THEN of_int_less_iff [where ?'a = real, THEN iffD2]]
    by (simp_all add: powi_nat)
  have pos: "0 < (2 :: real) powi int_log d" by simp
  have P: "2 powi ?t = (2 :: real) powi int_log n / 2 powi int_log d"
    by (simp add: power_int_diff)
  have up: "?x < 2 powi (?t + 1)"
  proof -
    have "2 powi (?t + 1) = 2 * 2 powi int_log n / (2 :: real) powi int_log d"
      unfolding P [symmetric] times_divide_eq_right [symmetric] by (simp add: power_int_add)
    then show ?thesis using frac_less [OF _ B(2) pos B(3)] assms(1) by simp
  qed
  have lo: "2 powi (?t - 1) \<le> ?x"
  proof -
    have "2 powi (?t - 1) = 2 powi int_log n / (2 * (2 :: real) powi int_log d)"
      by (simp add: power_int_diff)
    then show ?thesis using frac_le [OF _ B(1) _ less_imp_le [OF B(4)]] assms by simp
  qed
  have c: "(d * pow2 ?t \<le> n * pow2 (- ?t)) = (2 powi ?t \<le> ?x)"
    using assms(2) unfolding powi_pow2
    by (simp add: pos_le_divide_eq pos_divide_le_eq mult.commute flip: of_int_le_iff [where ?'a = real])
  show ?thesis
  proof (cases "2 powi ?t \<le> ?x")
    case True
    then show ?thesis using c floor_log_powi [OF True up] by (simp add: frac_log_def)
  next
    case False
    then show ?thesis using c floor_log_powi [OF lo] by (simp add: frac_log_def)
  qed
qed

lemma d_round_rnd:
  assumes "0 \<le> n" "0 < d"
  shows "d_round s n d e = rnd s (of_int n / of_int d * 2 powi e)"
proof (cases "n = 0")
  case False
  let ?x = "of_int n / of_int d :: real"
  have x: "0 < ?x" using assms False by simp
  have "(2 :: real) powi e = 2 powr of_int e" by (simp add: powr_real_of_int')
  then have "log 2 (?x * 2 powi e) = log 2 ?x + of_int e"
    using log_mult_pos [OF x, of "2 powr of_int e" 2] by (simp only: log_powr_cancel) simp
  then have l: "\<lfloor>log 2 (?x * 2 powi e)\<rfloor> = frac_log n d + e"
    using frac_log_floor [of n d] assms False by simp
  define k where "k = max (frac_log n d - 52) (- 1074 - e)"
  have k: "max (frac_log n d + e - 52) (- 1074) = k + e" by (simp add: k_def)
  have "nearest_even (n * pow2 (- k)) (d * pow2 k) = rne (?x * 2 powi e * 2 powi - (k + e))"
  proof (subst nearest_even_rne)
    have "of_int (n * pow2 (- k)) / of_int (d * pow2 k) = ?x * 2 powi (- k)"
      unfolding powi_pow2 by simp
    also have "2 powi (- k) = (2 :: real) powi e * 2 powi - (k + e)"
      by (simp flip: power_int_add)
    finally show "rne (of_int (n * pow2 (- k)) / of_int (d * pow2 k)) = rne (?x * 2 powi e * 2 powi - (k + e))"
      by (simp add: mult.assoc)
  qed (use assms(2) in simp)
  then show ?thesis
    using False x l k assms(2) by (simp add: d_round_def rnd_def Let_def k_def)
qed (simp add: d_round_def rnd_def)

section \<open>Exact results\<close>

lemma powi_not_neg [simp]: "\<not> (2 :: real) powi y < 0"
  using zero_less_power_int [of "2 :: real" y] by linarith

text \<open>The values of finite numbers, as products of an integer and a power of two.\<close>

lemma fin_val_align:
  assumes "b \<le> e"
  shows "of_int (signed_by s m * pow2 (e - b)) * 2 powi b = d_val (DFin s m e)"
  using assms by (simp add: pow2_power powi_nat power_int_add [symmetric] mult.assoc flip: powi_nat)

lemma signed_by_simps [simp]:
  "signed_by s 0 = 0"
  "signed_by False m = m"
  "signed_by True m = - m"
  "\<bar>signed_by s m\<bar> = \<bar>m\<bar>"
  "signed_by s m = 0 \<longleftrightarrow> m = 0"
  "\<bar>real_of_int (signed_by s m)\<bar> = \<bar>of_int m\<bar>"
  by (auto simp: signed_by_def)

lemma d_val_zero [simp]: "d_val (DFin s m e) = 0 \<longleftrightarrow> m = 0"
  by simp

lemma fin_align_val:
  assumes "fin_align s m e s' m' e' = (a, b)"
  shows "a < b \<longleftrightarrow> d_val (DFin s m e) < d_val (DFin s' m' e')"
    "a = b \<longleftrightarrow> d_val (DFin s m e) = d_val (DFin s' m' e')"
proof -
  have pos: "0 < (2 :: real) powi x" for x by simp
  have "(a < b \<longleftrightarrow> d_val (DFin s m e) < d_val (DFin s' m' e')) \<and>
    (a = b \<longleftrightarrow> d_val (DFin s m e) = d_val (DFin s' m' e'))"
  proof (cases "m = 0 \<or> m' = 0")
    case True
    then have "a = signed_by s m" "b = signed_by s' m'" using assms by (auto simp: fin_align_def)
    moreover have "0 < of_int x * (2 :: real) powi y \<longleftrightarrow> 0 < x" "of_int x * (2 :: real) powi y < 0 \<longleftrightarrow> x < 0" for x y
      using pos [of y] by (simp_all add: zero_less_mult_iff mult_less_0_iff)
    ultimately show ?thesis using True by auto
  next
    case False
    define k where "k = min e e'"
    have "a = signed_by s m * pow2 (e - k)" "b = signed_by s' m' * pow2 (e' - k)"
      using assms False by (auto simp: fin_align_def k_def Let_def)
    then have v: "d_val (DFin s m e) = of_int a * 2 powi k" "d_val (DFin s' m' e') = of_int b * 2 powi k"
      using fin_val_align [of k e s m] fin_val_align [of k e' s' m'] by (simp_all only: k_def min.cobounded1 min.cobounded2)
    show ?thesis unfolding v using pos [of k] by simp
  qed
  then show "a < b \<longleftrightarrow> d_val (DFin s m e) < d_val (DFin s' m' e')"
    "a = b \<longleftrightarrow> d_val (DFin s m e) = d_val (DFin s' m' e')" by auto
qed

lemma d_lt_val: "d_lt (DFin s m e) (DFin s' m' e') \<longleftrightarrow> d_val (DFin s m e) < d_val (DFin s' m' e')"
  using fin_align_val(1) [of s m e s' m' e'] by (auto split: prod.splits simp del: d_val.simps)

lemma d_eq_val: "d_eq (DFin s m e) (DFin s' m' e') \<longleftrightarrow> d_val (DFin s m e) = d_val (DFin s' m' e')"
  using fin_align_val(2) [of s m e s' m' e'] by (auto split: prod.splits simp del: d_val.simps)

text \<open>Sums and products of finite numbers are the rounded sums and products of their values.\<close>

lemma fin_add_rnd:
  assumes "m \<noteq> 0" "m' \<noteq> 0" "v = d_val (DFin s m e) + d_val (DFin s' m' e')"
  shows "d_add (DFin s m e) (DFin s' m' e') = rnd (v < 0) \<bar>v\<bar>"
proof -
  define b where "b = min e e'"
  define w where "w = signed_by s m * pow2 (e - b) + signed_by s' m' * pow2 (e' - b)"
  have v: "v = of_int w * 2 powi b"
    unfolding w_def assms(3) of_int_add ring_distribs
    by (subst (1 2) fin_val_align) (auto simp: b_def)
  have pos: "0 < (2 :: real) powi b" by simp
  have "d_add (DFin s m e) (DFin s' m' e') = d_round (w < 0) \<bar>w\<bar> 1 b"
    using assms by (simp add: fin_add_def Let_def w_def b_def)
  also have "\<dots> = rnd (w < 0) \<bar>v\<bar>"
    unfolding v abs_mult using d_round_rnd [of "\<bar>w\<bar>" 1 "w < 0" b] pos by simp
  also have "(w < 0) = (v < 0)"
    unfolding v using pos by (simp add: mult_less_0_iff)
  finally show ?thesis .
qed

lemma fin_mul_rnd:
  assumes "0 \<le> m" "0 \<le> m'"
  shows "d_mul (DFin s m e) (DFin s' m' e') = rnd (s \<noteq> s') \<bar>d_val (DFin s m e) * d_val (DFin s' m' e')\<bar>"
  using assms d_round_rnd [of "m * m'" 1 "s \<noteq> s'" "e + e'"]
  by (simp add: abs_mult power_int_add mult_ac)

lemma fin_div_rnd:
  assumes "0 \<le> m" "0 < m'"
  shows "d_div (DFin s m e) (DFin s' m' e') = rnd (s \<noteq> s') \<bar>d_val (DFin s m e) / d_val (DFin s' m' e')\<bar>"
  using assms d_round_rnd [of m m' "s \<noteq> s'" "e - e'"]
  by (simp add: abs_mult power_int_diff)

text \<open>A whole number below two to the 53 is a double.\<close>

lemma d_of_int_rnd: "d_of_int i = rnd (i < 0) \<bar>of_int i\<bar>"
  using d_round_rnd [of "\<bar>i\<bar>" 1 "i < 0" 0] by (simp add: d_of_int_def)

abbreviation "whole i \<equiv> \<bar>i\<bar> < (2 ^ 53 :: int)"

lemma d_of_int_fin:
  assumes "whole i"
  obtains m e where "d_of_int i = DFin (i < 0) m e" "0 \<le> m" "d_val (DFin (i < 0) m e) = of_int i"
    "i = 0 \<longleftrightarrow> m = 0" "i = 0 \<Longrightarrow> e = -1074"
proof (cases "i = 0")
  case True
  then show ?thesis using that [of 0 "-1074"] by (simp add: d_of_int_def d_round_def)
next
  case False
  define n where "n = \<bar>i\<bar>"
  have n: "1 \<le> n" "n < 2 ^ 53" using assms False by (auto simp: n_def)
  note b = int_log_bounds [OF n(1)]
  have l: "int_log n \<le> 52"
  proof (rule ccontr)
    assume "\<not> int_log n \<le> 52"
    then have "(2 :: int) ^ 53 \<le> 2 ^ nat (int_log n)" by (intro power_increasing) auto
    then show False using b(2) n(2) by linarith
  qed
  define j where "j = 52 - int_log n"
  have j: "0 \<le> j" "j \<le> 52" using l b(1) by (auto simp: j_def)
  have "int_log 1 = 0" by (simp add: int_log.simps)
  then have f: "frac_log n 1 = int_log n"
    using b n(1) by (simp add: frac_log_def Let_def pow2_power)
  have "nat j + nat (int_log n) = 52" using l b(1) by (simp add: j_def flip: nat_add_distrib)
  then have q: "(2 :: int) ^ nat j * 2 ^ nat (int_log n) = 2 ^ 52" by (simp flip: power_add)
  have "n * pow2 j < 2 * 2 ^ nat (int_log n) * 2 ^ nat j"
    using b(3) by (simp add: pow2_power)
  then have r: "n * pow2 j < 2 ^ 53" using q by (simp add: mult.commute)
  have ne: "nearest_even x 1 = x" for x by (simp add: nearest_even_def)
  have "d_of_int i = d_pack (i < 0) (n * pow2 j) (- j)"
    using n j f by (simp add: d_of_int_def d_round_def Let_def ne j_def pow2_power flip: n_def)
  also have "\<dots> = DFin (i < 0) (n * pow2 j) (- j)"
    using n(1) j r pow2_pos [of j] by (auto simp: d_pack_def simp del: pow2_pos)
  finally have eq: "d_of_int i = DFin (i < 0) (n * pow2 j) (- j)" .
  have "signed_by (i < 0) n = i" by (simp add: signed_by_def n_def)
  then have "of_int (signed_by (i < 0) (n * pow2 j)) = (of_int i :: real) * of_int (pow2 j)"
    by (auto simp: signed_by_def)
  then have "d_val (DFin (i < 0) (n * pow2 j) (- j)) = of_int i"
    using j(1) by (simp add: pow2_power power_int_minus powi_nat [symmetric])
  then show ?thesis
    using that [OF eq] n(1) pow2_pos [of j] False by (simp add: less_imp_le)
qed


text \<open>Arithmetic on whole numbers.\<close>

lemma d_neg_pack: "d_neg (d_pack s q e) = d_pack (\<not> s) q e"
  by (simp add: d_pack_def)

lemma d_neg_round: "d_neg (d_round s n d e) = d_round (\<not> s) n d e"
  by (simp add: d_round_def d_neg_pack Let_def)

lemma d_neg_of_int: "i \<noteq> 0 \<Longrightarrow> d_neg (d_of_int i) = d_of_int (- i)"
  by (cases "i < 0") (simp_all add: d_of_int_def d_neg_round)

lemma d_add_of_int:
  assumes "whole a" "whole b"
  shows "d_add (d_of_int a) (d_of_int b) = d_of_int (a + b)"
proof -
  obtain m e where A: "d_of_int a = DFin (a < 0) m e" "d_val (DFin (a < 0) m e) = of_int a"
    "a = 0 \<longleftrightarrow> m = 0" "a = 0 \<Longrightarrow> e = -1074" using d_of_int_fin [OF assms(1)] by metis
  obtain m' e' where B: "d_of_int b = DFin (b < 0) m' e'" "d_val (DFin (b < 0) m' e') = of_int b"
    "b = 0 \<longleftrightarrow> m' = 0" "b = 0 \<Longrightarrow> e' = -1074" using d_of_int_fin [OF assms(2)] by metis
  show ?thesis
  proof (cases "a = 0 \<or> b = 0")
    case True
    then show ?thesis using A B by (auto simp: fin_add_def)
  next
    case False
    have "d_add (d_of_int a) (d_of_int b) = rnd (of_int a + of_int b < (0 :: real)) \<bar>of_int a + of_int b\<bar>"
      using fin_add_rnd [OF _ _ refl, of m m' "a < 0" e "b < 0" e'] A B False by (simp del: d_val.simps)
    then show ?thesis by (simp add: d_of_int_rnd flip: of_int_add)
  qed
qed

lemma d_sub_of_int:
  assumes "whole a" "whole b"
  shows "d_sub (d_of_int a) (d_of_int b) = d_of_int (a - b)"
proof (cases "b = 0")
  case True
  have "d_of_int 0 = DZero False" by (simp add: d_of_int_def d_round_def)
  with True show ?thesis
    by (cases rule: d_of_int_fin [OF assms(1)]) (auto simp: d_sub_def fin_add_def)
next
  case False
  then show ?thesis
    using d_add_of_int [OF assms(1), of "- b"] d_neg_of_int [OF False] assms(2) by (simp add: d_sub_def)
qed

lemma d_mul_of_int:
  assumes "whole a" "whole b" "0 \<le> a" "0 \<le> b"
  shows "d_mul (d_of_int a) (d_of_int b) = d_of_int (a * b)"
proof -
  obtain m e where A: "d_of_int a = DFin (a < 0) m e" "d_val (DFin (a < 0) m e) = of_int a" "0 \<le> m"
    using d_of_int_fin [OF assms(1)] by metis
  obtain m' e' where B: "d_of_int b = DFin (b < 0) m' e'" "d_val (DFin (b < 0) m' e') = of_int b" "0 \<le> m'"
    using d_of_int_fin [OF assms(2)] by metis
  show ?thesis
    unfolding A B fin_mul_rnd [OF A(3) B(3)] d_of_int_rnd [of "a * b"]
    using assms(3, 4) by (simp add: mult_less_0_iff abs_mult not_less)
qed

text \<open>The quotient of whole numbers is the rounded fraction.\<close>

lemma d_div_of_int:
  assumes "whole a" "whole b" "0 \<le> a" "0 < b"
  shows "d_div (d_of_int a) (d_of_int b) = d_round False a b 0"
proof -
  obtain m e where A: "d_of_int a = DFin (a < 0) m e" "d_val (DFin (a < 0) m e) = of_int a" "0 \<le> m"
    using d_of_int_fin [OF assms(1)] by metis
  obtain m' e' where B: "d_of_int b = DFin (b < 0) m' e'" "d_val (DFin (b < 0) m' e') = of_int b" "0 \<le> m'"
    "b = 0 \<longleftrightarrow> m' = 0" using d_of_int_fin [OF assms(2)] by metis
  have "0 < m'" using B(3, 4) assms(4) by linarith
  show ?thesis
    unfolding A B fin_div_rnd [OF A(3) \<open>0 < m'\<close>] d_round_rnd [OF assms(3, 4)]
    using assms(3, 4) by simp
qed

lemma d_div_of_int_exact:
  assumes "whole (q * b)" "whole b" "0 \<le> q" "0 < b"
  shows "d_div (d_of_int (q * b)) (d_of_int b) = d_of_int q"
  using d_div_of_int [of "q * b" b] d_round_rnd [of "q * b" b False 0] assms
  by (simp add: d_of_int_rnd)

lemma d_lt_of_int: "whole a \<Longrightarrow> whole b \<Longrightarrow> d_lt (d_of_int a) (d_of_int b) \<longleftrightarrow> a < b"
  by (elim d_of_int_fin) (simp only: d_lt_val of_int_less_iff)

lemma d_eq_of_int: "whole a \<Longrightarrow> whole b \<Longrightarrow> d_eq (d_of_int a) (d_of_int b) \<longleftrightarrow> a = b"
  by (elim d_of_int_fin) (simp only: d_eq_val of_int_eq_iff)

lemma d_abs_of_int:
  assumes "whole i"
  shows "d_abs (d_of_int i) = d_of_int \<bar>i\<bar>"
proof (cases "i < 0")
  case True
  then have "d_of_int \<bar>i\<bar> = d_neg (d_of_int i)" using d_neg_of_int [of i] by simp
  then show ?thesis by (cases rule: d_of_int_fin [OF assms]) (use True in simp)
next
  case False
  then show ?thesis by (cases rule: d_of_int_fin [OF assms]) simp
qed

lemma d_isnan_of_int: "whole i \<Longrightarrow> \<not> d_isnan (d_of_int i)"
  by (elim d_of_int_fin) simp

lemmas whole_arith = d_add_of_int d_sub_of_int d_mul_of_int d_lt_of_int d_eq_of_int d_abs_of_int

end
