(* ===== verification/Cerebro_Types.thy ===== *)
theory Cerebro_Types
  imports Float64
begin

text \<open>
  The data of the trading engine (\<open>cerebro/cerebro_struct.h\<close>): orders, positions, the account, quotes and the
  configuration of a back test, with the comparisons of \<open>util/common.h\<close> that allow for rounding errors. A
  symbol is its bytes, such as "600000.SH". The records are turned into JSON by a library; that is left out.
\<close>

type_synonym Symbol = bytes

text \<open>A map that the code keeps in a \<open>std::map\<close>: the items in order of their keys.\<close>

type_synonym ('k, 'v) items = "('k \<times> 'v) list"

section \<open>Comparisons up to an epsilon\<close>

definition d0 :: double where "d0 = d_of_int 0"
definition epsilon :: double where "epsilon = d_lit 1 1000000"

definition almost_zero :: "double \<Rightarrow> double \<Rightarrow> bool" where
  "almost_zero x eps \<longleftrightarrow> d_le (d_abs (d_sub x d0)) (d_mul eps (d_lit 5 10))"

definition almost_eq :: "double \<Rightarrow> double \<Rightarrow> double \<Rightarrow> bool" where
  "almost_eq x y eps \<longleftrightarrow> d_le (d_abs (d_sub x y)) (d_mul eps (d_lit 5 10))"

definition almost_ne :: "double \<Rightarrow> double \<Rightarrow> double \<Rightarrow> bool" where
  "almost_ne x y eps \<longleftrightarrow> \<not> almost_eq x y eps"

definition almost_lt :: "double \<Rightarrow> double \<Rightarrow> double \<Rightarrow> bool" where
  "almost_lt x y eps \<longleftrightarrow> d_lt x y \<and> almost_ne x y eps"

definition almost_le :: "double \<Rightarrow> double \<Rightarrow> double \<Rightarrow> bool" where
  "almost_le x y eps \<longleftrightarrow> d_le x y \<or> almost_eq x y eps"

definition almost_gt :: "double \<Rightarrow> double \<Rightarrow> double \<Rightarrow> bool" where
  "almost_gt x y eps \<longleftrightarrow> d_lt y x \<and> almost_ne x y eps"

definition almost_ge :: "double \<Rightarrow> double \<Rightarrow> double \<Rightarrow> bool" where
  "almost_ge x y eps \<longleftrightarrow> d_le y x \<or> almost_eq x y eps"

section \<open>Enumerations\<close>

datatype POSITION_DIRECTION = PD_NONE | PD_LONG | PD_SHORT

datatype ORDER_ACTION =
    OA_NONE | OA_BUY | OA_SELL | OA_BUY_TO_COVER | OA_SELL_SHORT
  | OA_CANCEL | OA_AMEND | OA_DIVIDEND | OA_DEPOSIT | OA_WITHDRAW

datatype ORDER_TYPE = OT_NONE | OT_MARKET | OT_LIMIT

datatype ORDER_STATUS =
  OS_NONE | OS_PENDING_NEW | OS_ACTIVE | OS_FILLED | OS_CANCELLED | OS_REJECTED

datatype QUOTES_TYPE = QT_TICK | QT_MIN1 | QT_MIN5 | QT_MIN15 | QT_DAY

section \<open>Records\<close>

record CerebroAccount =
  ca_margin :: double
  ca_buy_margin :: double
  ca_sell_margin :: double
  ca_cash :: double
  ca_daily_pnl :: double
  ca_equity :: double
  ca_frozen_cash :: double
  ca_market_value :: double
  ca_position_pnl :: double
  ca_trading_pnl :: double
  ca_transaction_cost :: double
  ca_units :: double
  ca_unit_value :: double

definition account_zero :: CerebroAccount where
  "account_zero =
     \<lparr>ca_margin = d0, ca_buy_margin = d0, ca_sell_margin = d0, ca_cash = d0, ca_daily_pnl = d0, ca_equity = d0,
      ca_frozen_cash = d0, ca_market_value = d0, ca_position_pnl = d0, ca_trading_pnl = d0,
      ca_transaction_cost = d0, ca_units = d0, ca_unit_value = d0\<rparr>"

definition ca_total_cash :: "CerebroAccount \<Rightarrow> double" where
  "ca_total_cash a = d_add (ca_cash a) (ca_frozen_cash a)"

definition ca_total_value :: "CerebroAccount \<Rightarrow> double" where
  "ca_total_value a = d_add (ca_total_cash a) (ca_market_value a)"

definition ca_current_market_value :: "CerebroAccount \<Rightarrow> double" where
  "ca_current_market_value a = d_add (ca_market_value a) (ca_daily_pnl a)"

record CerebroOrder =
  co_order_id :: i64
  co_filled_price :: double
  co_ctime :: i64
  co_mtime :: i64
  co_filled_quantity :: double
  co_unfilled_quantity :: double
  co_frozen_price :: double
  co_price :: double
  co_quantity :: double
  co_extra :: "(bytes, bytes) items"
  co_action :: ORDER_ACTION
  co_status :: ORDER_STATUS
  co_type :: ORDER_TYPE
  co_trading_date :: i32
  co_transaction_cost :: double
  co_last_position_price :: double
  co_msg :: bytes
  co_reason :: bytes
  co_symbol :: Symbol

definition order_zero :: CerebroOrder where
  "order_zero =
     \<lparr>co_order_id = 0, co_filled_price = d0, co_ctime = 0, co_mtime = 0, co_filled_quantity = d0,
      co_unfilled_quantity = d0, co_frozen_price = d0, co_price = d0, co_quantity = d0, co_extra = [],
      co_action = OA_NONE, co_status = OS_NONE, co_type = OT_NONE, co_trading_date = 0,
      co_transaction_cost = d0, co_last_position_price = d0, co_msg = [], co_reason = [], co_symbol = []\<rparr>"

record CerebroPosition =
  cp_closable :: double
  cp_direction :: POSITION_DIRECTION
  cp_margin :: double
  cp_symbol :: Symbol
  cp_pnl :: double
  cp_position_pnl :: double
  cp_quantity :: double
  cp_today_closable :: double
  cp_trading_pnl :: double
  cp_avg_price :: double
  cp_commissions :: double
  cp_total_commited :: double
  cp_open_dt :: i32
  cp_close_dt :: i32

definition position_zero :: CerebroPosition where
  "position_zero =
     \<lparr>cp_closable = d0, cp_direction = PD_NONE, cp_margin = d0, cp_symbol = [], cp_pnl = d0,
      cp_position_pnl = d0, cp_quantity = d0, cp_today_closable = d0, cp_trading_pnl = d0, cp_avg_price = d0,
      cp_commissions = d0, cp_total_commited = d0, cp_open_dt = 0, cp_close_dt = 0\<rparr>"

definition cp_market_value :: "CerebroPosition \<Rightarrow> double" where
  "cp_market_value p = d_mul (cp_avg_price p) (cp_quantity p)"

record CerebroTickRecord =
  ct_symbol :: Symbol
  ct_ts :: i64
  ct_dt :: i32
  ct_ask_vols :: "double list"
  ct_asks :: "double list"
  ct_bid_vols :: "double list"
  ct_bids :: "double list"
  ct_high :: double
  ct_last :: double
  ct_low :: double
  ct_open :: double
  ct_preclose :: double
  ct_turnover :: double
  ct_volume :: double
  ct_open_interest :: double
  ct_preopen_interest :: double
  ct_settlement :: double
  ct_prev_settlement :: double
  ct_limit_down :: double
  ct_limit_up :: double

definition tick_zero :: CerebroTickRecord where
  "tick_zero =
     \<lparr>ct_symbol = [], ct_ts = 0, ct_dt = 0, ct_ask_vols = [], ct_asks = [], ct_bid_vols = [], ct_bids = [],
      ct_high = d0, ct_last = d0, ct_low = d0, ct_open = d0, ct_preclose = d0, ct_turnover = d0, ct_volume = d0,
      ct_open_interest = d0, ct_preopen_interest = d0, ct_settlement = d0, ct_prev_settlement = d0,
      ct_limit_down = d0, ct_limit_up = d0\<rparr>"

record CerebroKlineRecord =
  ck_symbol :: Symbol
  ck_ts :: i64
  ck_dt :: i32
  ck_high :: double
  ck_close :: double
  ck_low :: double
  ck_open :: double
  ck_preclose :: double
  ck_turnover :: double
  ck_volume :: double
  ck_open_interest :: double
  ck_preopen_interest :: double
  ck_prev_settlement :: double
  ck_settlement :: double

definition kline_zero :: CerebroKlineRecord where
  "kline_zero =
     \<lparr>ck_symbol = [], ck_ts = 0, ck_dt = 0, ck_high = d0, ck_close = d0, ck_low = d0, ck_open = d0,
      ck_preclose = d0, ck_turnover = d0, ck_volume = d0, ck_open_interest = d0, ck_preopen_interest = d0,
      ck_prev_settlement = d0, ck_settlement = d0\<rparr>"

record CerebroDividend =
  cd_symbol :: Symbol
  cd_pub_date :: i32
  cd_closure_date :: i32
  cd_dividend_date :: i32
  cd_payable_date :: i32
  cd_round_lot :: i32
  cd_dividend_cash :: double
  cd_dividend_share :: double

text \<open>Of the configuration, what the engine reads.\<close>

record CerebroConfig =
  cc_name :: bytes
  cc_aid :: i64
  cc_cash :: double
  cc_comm_rate :: double
  cc_slippage :: i32
  cc_start_date :: i32
  cc_end_date :: i32
  cc_qtype :: QUOTES_TYPE

section \<open>Comparisons of whole numbers\<close>

lemma half_epsilon: "d_mul epsilon (d_lit 5 10) = DFin False 4722366482869645 (- 73)"
  by code_simp

lemma d0_whole: "whole 0" by simp

lemma almost_eq_whole:
  assumes "whole a" "whole b" "\<bar>a - b\<bar> < 2 ^ 53"
  shows "almost_eq (d_of_int a) (d_of_int b) epsilon \<longleftrightarrow> a = b"
proof -
  have w: "whole \<bar>a - b\<bar>" using assms by simp
  obtain m e where D: "d_of_int \<bar>a - b\<bar> = DFin (\<bar>a - b\<bar> < 0) m e"
    "d_val (DFin (\<bar>a - b\<bar> < 0) m e) = of_int \<bar>a - b\<bar>"
    using d_of_int_fin [OF w] by metis
  have h: "0 < d_val (DFin False 4722366482869645 (- 73))" "d_val (DFin False 4722366482869645 (- 73)) < 1"
    by (simp_all add: power_int_def power_divide)
  have "almost_eq (d_of_int a) (d_of_int b) epsilon \<longleftrightarrow>
      of_int \<bar>a - b\<bar> \<le> d_val (DFin False 4722366482869645 (- 73))"
    unfolding almost_eq_def half_epsilon d_sub_of_int [OF assms(1, 2)] d_le_def
    using assms(3) by (simp only: d_abs_of_int D(1) d_lt_val d_eq_val D(2)) auto
  also have "\<dots> \<longleftrightarrow> a = b"
  proof
    assume "of_int \<bar>a - b\<bar> \<le> d_val (DFin False 4722366482869645 (- 73))"
    then have "real_of_int \<bar>a - b\<bar> < 1" using h(2) by linarith
    then show "a = b" by linarith
  qed (use h(1) in simp)
  finally show ?thesis .
qed

lemma almost_zero_eq: "almost_zero x e = almost_eq x d0 e"
  by (simp add: almost_zero_def almost_eq_def)

lemma almost_whole:
  assumes "whole a" "whole b" "\<bar>a - b\<bar> < 2 ^ 53"
  shows "almost_ne (d_of_int a) (d_of_int b) epsilon \<longleftrightarrow> a \<noteq> b"
    "almost_lt (d_of_int a) (d_of_int b) epsilon \<longleftrightarrow> a < b"
    "almost_gt (d_of_int a) (d_of_int b) epsilon \<longleftrightarrow> b < a"
  using assms by (auto simp: almost_ne_def almost_lt_def almost_gt_def almost_eq_whole d_lt_of_int)

lemma almost_zero_whole: "whole a \<Longrightarrow> almost_zero (d_of_int a) epsilon \<longleftrightarrow> a = 0"
  "whole a \<Longrightarrow> almost_eq (d_of_int a) d0 epsilon \<longleftrightarrow> a = 0"
  "whole a \<Longrightarrow> almost_ne (d_of_int a) d0 epsilon \<longleftrightarrow> a \<noteq> 0"
  using almost_eq_whole [of a 0] by (simp_all add: almost_zero_eq almost_ne_def d0_def)

lemma d_min_whole: "whole a \<Longrightarrow> whole b \<Longrightarrow> d_min (d_of_int a) (d_of_int b) = d_of_int (min a b)"
  by (simp add: d_min_def d_lt_of_int min_def not_less)

end
