(* ===== verification/Cerebro_Account.thy ===== *)
theory Cerebro_Account
  imports Cerebro_Types
begin

text \<open>
  The account of a trader and the positions in its symbols: \<open>CerebroAccountWrap\<close> and
  \<open>CerebroPositionTracker\<close> of \<open>cerebro/cerebro_broker.h\<close> and \<open>.cpp\<close>. A negative result code is a refusal, as
  in the code.
\<close>

section \<open>The account\<close>

text \<open>The slippage is stored as a double, but only ever set from an \<open>int\<close> and read as one.\<close>

record CerebroAccountWrap =
  aw_aid :: i64
  aw_name :: bytes
  aw_slippage :: i32
  aw_commission_rate :: double
  aw_account :: CerebroAccount

definition aw_new :: "i64 \<Rightarrow> bytes \<Rightarrow> CerebroAccountWrap" where
  "aw_new aid nm =
     \<lparr>aw_aid = aid, aw_name = nm, aw_slippage = 0, aw_commission_rate = d_lit 3 10000,
      aw_account = account_zero\<rparr>"

definition aw_set_cash :: "double \<Rightarrow> CerebroAccountWrap \<Rightarrow> CerebroAccountWrap" where
  "aw_set_cash cash w = w\<lparr>aw_account := (aw_account w)\<lparr>ca_cash := cash\<rparr>\<rparr>"

definition aw_get_cash :: "CerebroAccountWrap \<Rightarrow> double" where "aw_get_cash w = ca_cash (aw_account w)"

definition aw_set_slippage :: "i32 \<Rightarrow> CerebroAccountWrap \<Rightarrow> CerebroAccountWrap" where
  "aw_set_slippage s w = w\<lparr>aw_slippage := s\<rparr>"

definition aw_set_commission_rate :: "double \<Rightarrow> CerebroAccountWrap \<Rightarrow> CerebroAccountWrap" where
  "aw_set_commission_rate r w = w\<lparr>aw_commission_rate := r\<rparr>"

definition aw_calc_commission :: "CerebroAccountWrap \<Rightarrow> CerebroOrder \<Rightarrow> double" where
  "aw_calc_commission w o' =
     d_mul (d_mul (co_filled_price o') (co_filled_quantity o')) (aw_commission_rate w)"

definition aw_unfreeze_cash :: "double \<Rightarrow> CerebroAccountWrap \<Rightarrow> double \<times> CerebroAccountWrap" where
  "aw_unfreeze_cash cash w =
     (let a = aw_account w
      in if d_lt (ca_frozen_cash a) cash then (d0, w\<lparr>aw_account := a\<lparr>ca_frozen_cash := d0\<rparr>\<rparr>)
         else let f = d_sub (ca_frozen_cash a) cash in (f, w\<lparr>aw_account := a\<lparr>ca_frozen_cash := f\<rparr>\<rparr>))"

definition aw_add_frozen_cash :: "double \<Rightarrow> CerebroAccountWrap \<Rightarrow> CerebroAccountWrap" where
  "aw_add_frozen_cash cash w =
     (let a = aw_account w
      in w\<lparr>aw_account := a\<lparr>ca_frozen_cash := d_add (ca_frozen_cash a) cash, ca_cash := d_sub (ca_cash a) cash\<rparr>\<rparr>)"

definition aw_add_cash :: "double \<Rightarrow> double \<Rightarrow> CerebroAccountWrap \<Rightarrow> CerebroAccountWrap" where
  "aw_add_cash cash fee w =
     (let a = aw_account w
      in w\<lparr>aw_account := a\<lparr>ca_cash := d_sub (d_add (ca_cash a) cash) fee,
           ca_transaction_cost := d_add (ca_transaction_cost a) fee\<rparr>\<rparr>)"

text \<open>
  Paying, from the frozen cash first. The function ends without a \<open>return\<close> when it has paid, which is undefined;
  \<^const>\<open>None\<close> is that result.
\<close>

definition aw_cost_cash :: "double \<Rightarrow> double \<Rightarrow> CerebroAccountWrap \<Rightarrow> int option \<times> CerebroAccountWrap" where
  "aw_cost_cash cash fee w =
     (let a = aw_account w
      in if d_lt (d_add (ca_frozen_cash a) (ca_cash a)) (d_add cash fee) then (Some (-1), w)
         else
           let a1 = a\<lparr>ca_frozen_cash := d_sub (d_sub (ca_frozen_cash a) cash) fee\<rparr>;
               a2 = (if d_lt (ca_frozen_cash a1) d0
                     then a1\<lparr>ca_cash := d_add (ca_cash a1) (ca_frozen_cash a1), ca_frozen_cash := d0\<rparr> else a1)
           in (None, w\<lparr>aw_account := a2\<lparr>ca_transaction_cost := d_add (ca_transaction_cost a2) fee\<rparr>\<rparr>))"

definition aw_deposit_cash :: "double \<Rightarrow> double \<Rightarrow> CerebroAccountWrap \<Rightarrow> int \<times> CerebroAccountWrap" where
  "aw_deposit_cash cash fee w =
     (let a = aw_account w;
          a1 = a\<lparr>ca_cash := d_sub (d_add (ca_cash a) cash) fee,
                 ca_transaction_cost := d_add (ca_transaction_cost a) fee\<rparr>
      in (0, w\<lparr>aw_account :=
           (if almost_eq (ca_unit_value a1) d0 epsilon \<and> almost_eq (ca_units a1) d0 epsilon
            then a1\<lparr>ca_unit_value := d_of_int 1, ca_units := ca_cash a1\<rparr>
            else a1\<lparr>ca_units := d_div (d_add (d_mul (ca_unit_value a1) (ca_units a1)) cash) (ca_units a1)\<rparr>)\<rparr>))"

definition aw_withdraw_cash :: "double \<Rightarrow> CerebroAccountWrap \<Rightarrow> int \<times> CerebroAccountWrap" where
  "aw_withdraw_cash cash w =
     (let a = aw_account w
      in if almost_lt (ca_cash a) cash epsilon then (-1, w)
         else
           let a1 = a\<lparr>ca_cash := d_sub (ca_cash a) cash\<rparr>
           in (0, w\<lparr>aw_account := a1\<lparr>ca_units :=
                d_div (d_sub (d_mul (ca_unit_value a1) (ca_units a1)) cash) (ca_units a1)\<rparr>\<rparr>))"

definition aw_update_daily_pnl :: "double \<Rightarrow> CerebroAccountWrap \<Rightarrow> CerebroAccountWrap" where
  "aw_update_daily_pnl pnl w = w\<lparr>aw_account := (aw_account w)\<lparr>ca_daily_pnl := pnl\<rparr>\<rparr>"

text \<open>The value of a unit: what the account holds, over the number of units.\<close>

definition revalue :: "CerebroAccount \<Rightarrow> CerebroAccount" where
  "revalue a = a\<lparr>ca_unit_value := d_div (d_add (ca_total_cash a) (ca_market_value a)) (ca_units a)\<rparr>"

definition aw_update_market_value :: "double \<Rightarrow> CerebroAccountWrap \<Rightarrow> CerebroAccountWrap" where
  "aw_update_market_value v w = w\<lparr>aw_account := revalue ((aw_account w)\<lparr>ca_market_value := v\<rparr>)\<rparr>"

text \<open>The name promises the trading profit; the code sets the daily one.\<close>

definition aw_update_trading_pnl :: "double \<Rightarrow> CerebroAccountWrap \<Rightarrow> CerebroAccountWrap" where
  "aw_update_trading_pnl pnl w = w\<lparr>aw_account := (aw_account w)\<lparr>ca_daily_pnl := pnl\<rparr>\<rparr>"

definition aw_transform_market_value_to_cash ::
    "double \<Rightarrow> double \<Rightarrow> CerebroAccountWrap \<Rightarrow> CerebroAccountWrap" where
  "aw_transform_market_value_to_cash v fee w =
     (let a = aw_account w
      in w\<lparr>aw_account := revalue (a\<lparr>
           ca_cash := d_sub (d_add (ca_cash a) v) fee,
           ca_transaction_cost := d_add (ca_transaction_cost a) fee,
           ca_market_value := d_sub (ca_market_value a) v\<rparr>)\<rparr>)"

definition aw_transform_cash_to_market_value ::
    "double \<Rightarrow> double \<Rightarrow> CerebroAccountWrap \<Rightarrow> CerebroAccountWrap" where
  "aw_transform_cash_to_market_value cash fee w =
     (let a = aw_account w
      in w\<lparr>aw_account := revalue (a\<lparr>
           ca_cash := d_sub (d_sub (ca_cash a) cash) fee,
           ca_transaction_cost := d_add (ca_transaction_cost a) fee,
           ca_market_value := d_add (ca_market_value a) cash\<rparr>)\<rparr>)"

definition aw_is_initial :: "CerebroAccountWrap \<Rightarrow> bool" where
  "aw_is_initial w \<longleftrightarrow>
     almost_eq (ca_market_value (aw_account w)) d0 epsilon \<and>
     almost_eq (ca_transaction_cost (aw_account w)) d0 epsilon"

section \<open>Positions\<close>

record CerebroPositionTracker =
  pt_position :: CerebroPosition
  pt_tplus :: i32

definition tracker_new :: "Symbol \<Rightarrow> POSITION_DIRECTION \<Rightarrow> i32 \<Rightarrow> CerebroPositionTracker" where
  "tracker_new s dir tplus =
     \<lparr>pt_position = position_zero\<lparr>cp_symbol := s, cp_direction := dir\<rparr>, pt_tplus = tplus\<rparr>"

text \<open>
  Adding to a position: \<open>buy\<close>, and \<open>buy_to_cover\<close> and \<open>sell_short\<close>, which have the same body but for the test of
  the quantity.
\<close>

definition enlarge :: "double \<Rightarrow> double \<Rightarrow> double \<Rightarrow> CerebroPositionTracker \<Rightarrow> CerebroPositionTracker" where
  "enlarge q price commission t =
     (let p = pt_position t;
          p1 = (if almost_eq (cp_quantity p) d0 epsilon
                then p\<lparr>cp_avg_price := price, cp_quantity := q, cp_commissions := commission\<rparr>
                else p\<lparr>cp_avg_price :=
                         d_div (d_add (d_mul (cp_avg_price p) (cp_quantity p)) (d_mul q price))
                               (d_add (cp_quantity p) q),
                       cp_quantity := d_add (cp_quantity p) q,
                       cp_commissions := d_add (cp_commissions p) commission\<rparr>)
      in t\<lparr>pt_position := (if pt_tplus t = 0 then p1\<lparr>cp_closable := d_add (cp_closable p1) q\<rparr> else p1)\<rparr>)"

definition tracker_buy :: "double \<Rightarrow> double \<Rightarrow> double \<Rightarrow> CerebroPositionTracker \<Rightarrow> CerebroPositionTracker" where
  "tracker_buy q price commission t = (if almost_zero q epsilon then t else enlarge q price commission t)"

definition tracker_sell ::
    "double \<Rightarrow> double \<Rightarrow> double \<Rightarrow> CerebroPositionTracker \<Rightarrow> CerebroPositionTracker res" where
  "tracker_sell q price commission t =
     (let p = pt_position t
      in if almost_zero q epsilon then Inr t
         else if almost_eq (cp_quantity p) d0 epsilon then Inl LogicError
         else
           let mv = d_mul (cp_avg_price p) q;
               p1 = p\<lparr>cp_avg_price :=
                        d_div (d_sub (d_mul (cp_avg_price p) (cp_quantity p)) (d_mul q price))
                              (d_sub (cp_quantity p) q),
                      cp_quantity := d_sub (cp_quantity p) q,
                      cp_commissions := d_add (cp_commissions p) commission,
                      cp_closable := d_sub (cp_closable p) q,
                      cp_trading_pnl :=
                        (if almost_zero mv epsilon then d_sub (cp_trading_pnl p) commission
                         else d_add (cp_trading_pnl p) (d_sub (d_sub (d_mul q price) mv) commission))\<rparr>
           in Inr (t\<lparr>pt_position :=
                (if almost_zero (cp_quantity p1) epsilon then p1\<lparr>cp_position_pnl := d0\<rparr> else p1)\<rparr>))"

definition tracker_buy_to_cover ::
    "double \<Rightarrow> double \<Rightarrow> double \<Rightarrow> CerebroPositionTracker \<Rightarrow> CerebroPositionTracker" where
  "tracker_buy_to_cover = enlarge"

definition tracker_sell_short ::
    "double \<Rightarrow> double \<Rightarrow> double \<Rightarrow> CerebroPositionTracker \<Rightarrow> CerebroPositionTracker" where
  "tracker_sell_short = enlarge"

text \<open>The profit at a price: of the last trade of a tick, or the close of a candle.\<close>

definition update_pnl :: "double \<Rightarrow> CerebroPositionTracker \<Rightarrow> CerebroPositionTracker" where
  "update_pnl price t =
     (let p = pt_position t
      in if almost_zero (cp_quantity p) epsilon then t
         else
           let avg_cost = d_div (cp_commissions p) (cp_quantity p);
               diff_price = d_sub price (cp_avg_price p)
           in t\<lparr>pt_position := p\<lparr>cp_position_pnl := d_mul (d_sub diff_price avg_cost) (cp_quantity p)\<rparr>\<rparr>)"

definition tracker_update_tick :: "CerebroTickRecord \<Rightarrow> CerebroPositionTracker \<Rightarrow> CerebroPositionTracker" where
  "tracker_update_tick r = update_pnl (ct_last r)"

definition tracker_update_kline :: "CerebroKlineRecord \<Rightarrow> CerebroPositionTracker \<Rightarrow> CerebroPositionTracker" where
  "tracker_update_kline r = update_pnl (ck_close r)"

definition tracker_settle :: "CerebroKlineRecord \<Rightarrow> CerebroPositionTracker \<Rightarrow> CerebroPositionTracker" where
  "tracker_settle r t =
     (let t1 = tracker_update_kline r t;
          p = pt_position t1;
          p1 = p\<lparr>cp_closable := cp_quantity p\<rparr>;
          p2 = (if cp_open_dt p1 = 0 then p1\<lparr>cp_open_dt := ck_dt r\<rparr> else p1)
      in t1\<lparr>pt_position :=
           (if almost_zero (cp_quantity p2) epsilon then p2\<lparr>cp_close_dt := ck_dt r\<rparr> else p2)\<rparr>)"

definition tracker_empty :: "CerebroPositionTracker \<Rightarrow> bool" where
  "tracker_empty t \<longleftrightarrow> almost_zero (cp_quantity (pt_position t)) epsilon"

definition tracker_market_value :: "CerebroPositionTracker \<Rightarrow> double" where
  "tracker_market_value t = cp_market_value (pt_position t)"

definition tracker_current_market_value :: "CerebroPositionTracker \<Rightarrow> double" where
  "tracker_current_market_value t = d_add (cp_market_value (pt_position t)) (cp_position_pnl (pt_position t))"

end
