(* ===== verification/Cerebro_Broker.thy ===== *)
theory Cerebro_Broker
  imports Cerebro_Account
begin

text \<open>
  The broker of the trading engine (\<open>cerebro/cerebro_broker.h\<close> and \<open>.cpp\<close>): it takes orders, queues them by symbol,
  matches a queue against every tick of its symbol, and keeps the positions and the account. A call of the system
  clock or of the generator of order numbers takes the next value of a stream in the state; the callback for
  updated orders is the list of the orders it has been given. Messages to the log are left out, but for
  what their arguments dereference. Three fields that nothing reads (a cash, a commission rate and
  a slippage next to those of the account) are left out.
\<close>

section \<open>State\<close>

datatype matcher = SSEMatcher | SZSEMatcher

record CerebroBroker =
  cb_current_dt :: i32
  cb_account :: "CerebroAccountWrap option"
  cb_unfill_orders :: "(Symbol, CerebroOrder list) items"
  cb_filled_orders :: "CerebroOrder list"
  cb_lpositions :: "(Symbol, CerebroPositionTracker) items"
  cb_spositions :: "(Symbol, CerebroPositionTracker) items"
  cb_matchers :: "(bytes, matcher) items"
  cb_order_id_gen :: "(nat \<Rightarrow> i64) option"
  cb_ids :: nat
  cb_order_update_callback :: bool
  cb_updates :: "CerebroOrder list"
  cb_clock :: "nat \<Rightarrow> i64"
  cb_clock_calls :: nat

definition broker_new :: "(nat \<Rightarrow> i64) \<Rightarrow> CerebroBroker" where
  "broker_new clk =
     \<lparr>cb_current_dt = -1, cb_account = None, cb_unfill_orders = [], cb_filled_orders = [], cb_lpositions = [],
      cb_spositions = [], cb_matchers = [], cb_order_id_gen = None, cb_ids = 0, cb_order_update_callback = False,
      cb_updates = [], cb_clock = clk, cb_clock_calls = 0\<rparr>"

definition order_longshort :: "CerebroOrder \<Rightarrow> POSITION_DIRECTION" where
  "order_longshort ord =
     (if co_action ord = OA_BUY \<or> co_action ord = OA_SELL then PD_LONG
      else if co_action ord = OA_SELL_SHORT \<or> co_action ord = OA_BUY_TO_COVER then PD_SHORT
      else PD_NONE)"

definition is_special_order :: "CerebroOrder \<Rightarrow> bool" where
  "is_special_order ord \<longleftrightarrow> co_action ord \<in> {OA_CANCEL, OA_AMEND, OA_DIVIDEND, OA_DEPOSIT, OA_WITHDRAW}"

definition now_ms :: "CerebroBroker \<Rightarrow> i64 \<times> CerebroBroker" where
  "now_ms b = (cb_clock b (cb_clock_calls b), b\<lparr>cb_clock_calls := Suc (cb_clock_calls b)\<rparr>)"

text \<open>Calling an empty \<open>std::function\<close> throws \<open>std::bad_function_call\<close>.\<close>

definition next_order_id :: "CerebroBroker \<Rightarrow> (i64 \<times> CerebroBroker) res" where
  "next_order_id b =
     (case cb_order_id_gen b of None \<Rightarrow> Inl BadFunctionCall
      | Some g \<Rightarrow> Inr (g (cb_ids b), b\<lparr>cb_ids := Suc (cb_ids b)\<rparr>))"

definition set_order_id_generator :: "(nat \<Rightarrow> i64) \<Rightarrow> CerebroBroker \<Rightarrow> CerebroBroker" where
  "set_order_id_generator g b = b\<lparr>cb_order_id_gen := Some g, cb_ids := 0\<rparr>"

definition set_order_update_callback :: "CerebroBroker \<Rightarrow> CerebroBroker" where
  "set_order_update_callback b = b\<lparr>cb_order_update_callback := True, cb_updates := []\<rparr>"

definition set_date :: "i32 \<Rightarrow> CerebroBroker \<Rightarrow> CerebroBroker" where
  "set_date dt b = b\<lparr>cb_current_dt := dt\<rparr>"

definition set_matcher :: "bytes \<Rightarrow> matcher \<Rightarrow> CerebroBroker \<Rightarrow> CerebroBroker" where
  "set_matcher exchg m b = b\<lparr>cb_matchers := put_item (exchg, m) (cb_matchers b)\<rparr>"

text \<open>The account is reached through a pointer that is null before \<open>init\<close>.\<close>

definition the_account :: "CerebroBroker \<Rightarrow> CerebroAccountWrap res" where
  "the_account b = (case cb_account b of None \<Rightarrow> Inl MemFault | Some w \<Rightarrow> Inr w)"

definition on_account :: "(CerebroAccountWrap \<Rightarrow> CerebroAccountWrap) \<Rightarrow> CerebroBroker \<Rightarrow> CerebroBroker res" where
  "on_account f b = rbind (the_account b) (\<lambda>w. Inr (b\<lparr>cb_account := Some (f w)\<rparr>))"

definition broker_init_conf :: "CerebroConfig \<Rightarrow> CerebroBroker \<Rightarrow> CerebroBroker" where
  "broker_init_conf conf b =
     b\<lparr>cb_account := Some (aw_set_slippage (cc_slippage conf) (aw_set_commission_rate (cc_comm_rate conf)
         (aw_set_cash (cc_cash conf) (aw_new (cc_aid conf) (cc_name conf)))))\<rparr>"

definition broker_init :: "CerebroAccountWrap \<Rightarrow> CerebroBroker \<Rightarrow> CerebroBroker" where
  "broker_init w b = b\<lparr>cb_account := Some w\<rparr>"

section \<open>Positions by symbol\<close>

text \<open>A long tracker settles at t+1, a short one at t+0.\<close>

definition get_long_tracker :: "Symbol \<Rightarrow> bool \<Rightarrow> CerebroBroker \<Rightarrow> CerebroPositionTracker option \<times> CerebroBroker" where
  "get_long_tracker s auto_create b =
     (case map_of (cb_lpositions b) s of
        Some t \<Rightarrow> (Some t, b)
      | None \<Rightarrow>
          if \<not> auto_create then (None, b)
          else let t = tracker_new s PD_LONG 1
               in (Some t, b\<lparr>cb_lpositions := put_item (s, t) (cb_lpositions b)\<rparr>))"

definition get_short_tracker :: "Symbol \<Rightarrow> bool \<Rightarrow> CerebroBroker \<Rightarrow> CerebroPositionTracker option \<times> CerebroBroker" where
  "get_short_tracker s auto_create b =
     (case map_of (cb_spositions b) s of
        Some t \<Rightarrow> (Some t, b)
      | None \<Rightarrow>
          if \<not> auto_create then (None, b)
          else let t = tracker_new s PD_SHORT 0
               in (Some t, b\<lparr>cb_spositions := put_item (s, t) (cb_spositions b)\<rparr>))"

text \<open>The long tracker of a symbol, made when there is none, as a value and as the place to write it back.\<close>

definition long_tracker :: "Symbol \<Rightarrow> CerebroBroker \<Rightarrow> CerebroPositionTracker" where
  "long_tracker s b = (case map_of (cb_lpositions b) s of Some t \<Rightarrow> t | None \<Rightarrow> tracker_new s PD_LONG 1)"

definition put_long :: "Symbol \<Rightarrow> CerebroPositionTracker \<Rightarrow> CerebroBroker \<Rightarrow> CerebroBroker" where
  "put_long s t b = b\<lparr>cb_lpositions := put_item (s, t) (cb_lpositions b)\<rparr>"

definition get_all_tracker :: "CerebroBroker \<Rightarrow> CerebroPositionTracker list" where
  "get_all_tracker b = map snd (cb_lpositions b) @ map snd (cb_spositions b)"

text \<open>The test is the wrong way round: what is found is kept, and \<open>erase(end())\<close> is undefined.\<close>

definition remove_tracker :: "Symbol \<Rightarrow> POSITION_DIRECTION \<Rightarrow> CerebroBroker \<Rightarrow> CerebroBroker res" where
  "remove_tracker s dir b =
     (if dir = PD_LONG then if map_of (cb_lpositions b) s \<noteq> None then Inr b else Inl MemFault
      else if dir = PD_SHORT then if map_of (cb_spositions b) s \<noteq> None then Inr b else Inl MemFault
      else Inr b)"

definition has_position :: "Symbol \<Rightarrow> CerebroBroker \<Rightarrow> bool" where
  "has_position s b =
     (case map_of (cb_lpositions b) s of
        Some t \<Rightarrow> \<not> tracker_empty t
      | None \<Rightarrow> (case map_of (cb_spositions b) s of Some t \<Rightarrow> \<not> tracker_empty t | None \<Rightarrow> False))"

definition positions_market_value :: "CerebroBroker \<Rightarrow> double" where
  "positions_market_value b =
     foldl (\<lambda>v t. if tracker_empty t then v else d_add v (tracker_market_value t)) d0 (get_all_tracker b)"

definition current_positions_pnl :: "CerebroBroker \<Rightarrow> double" where
  "current_positions_pnl b = foldl (\<lambda>v t. d_add v (cp_position_pnl (pt_position t))) d0 (get_all_tracker b)"

definition current_positions :: "CerebroBroker \<Rightarrow> CerebroPosition list \<Rightarrow> CerebroPosition list" where
  "current_positions b ps = ps @ map pt_position (get_all_tracker b)"

definition current_orders :: "CerebroBroker \<Rightarrow> CerebroOrder list" where
  "current_orders b = cb_filled_orders b @ concat (map snd (cb_unfill_orders b))"

section \<open>Matching\<close>

text \<open>Both matchers quote in hundredths.\<close>

definition price_unit :: "Symbol \<Rightarrow> double" where "price_unit s = d_lit 1 100"

definition is_over_limit_up :: "CerebroOrder \<Rightarrow> CerebroTickRecord \<Rightarrow> bool" where
  "is_over_limit_up ord tick =
     (let u = price_unit (ct_symbol tick)
      in if almost_zero (ct_limit_up tick) epsilon \<or> d_isnan (ct_limit_up tick) then False
         else if almost_ge (ct_last tick) (ct_limit_up tick) u then True
         else if almost_zero (co_price ord) u then False
         else almost_gt (co_price ord) (ct_limit_up tick) u)"

definition is_over_limit_down :: "CerebroOrder \<Rightarrow> CerebroTickRecord \<Rightarrow> bool" where
  "is_over_limit_down ord tick =
     (let u = price_unit (ct_symbol tick)
      in if almost_zero (ct_limit_down tick) epsilon \<or> d_isnan (ct_limit_down tick) then False
         else if almost_le (ct_last tick) (ct_limit_down tick) u then True
         else if almost_zero (co_price ord) u then False
         else almost_lt (co_price ord) (ct_limit_down tick) u)"

definition at0 :: "'a list \<Rightarrow> 'a res" where
  "at0 xs = (case xs of [] \<Rightarrow> Inl OutOfRange | x # _ \<Rightarrow> Inr x)"

text \<open>A price moved by the slippage, in price units.\<close>

definition slip :: "CerebroAccountWrap \<Rightarrow> CerebroOrder \<Rightarrow> double \<Rightarrow> double" where
  "slip w ord price =
     d_add price (d_mul (d_of_int (sint (aw_slippage w))) (price_unit (co_symbol ord)))"

definition reject :: "string \<Rightarrow> CerebroOrder \<Rightarrow> CerebroOrder" where
  "reject why ord = ord\<lparr>co_status := OS_REJECTED, co_reason := map (\<lambda>c. of_char c) why\<rparr>"

text \<open>
  The block that the four branches share: the order is filled at a price, up to the volume on offer. A commission
  the order brings along (a partly filled order passes one on) is kept; of a partly filled order the rest is noted
  and the commission scaled down.
\<close>

definition fill_order ::
    "CerebroAccountWrap \<Rightarrow> CerebroTickRecord \<Rightarrow> double \<Rightarrow> double \<Rightarrow> CerebroOrder \<Rightarrow> CerebroOrder" where
  "fill_order w tick price vol ord =
     (let o1 = ord\<lparr>co_filled_price := price, co_filled_quantity := d_min vol (co_quantity ord),
                   co_mtime := ct_ts tick, co_trading_date := ct_dt tick\<rparr>;
          o2 = (if almost_eq (co_transaction_cost o1) d0 epsilon
                then o1\<lparr>co_transaction_cost := aw_calc_commission w o1\<rparr> else o1);
          o3 = o2\<lparr>co_status := OS_FILLED\<rparr>
      in if almost_ne (co_quantity o3) (co_filled_quantity o3) epsilon
         then o3\<lparr>co_unfilled_quantity := d_sub (co_quantity o3) (co_filled_quantity o3),
                 co_transaction_cost :=
                   d_mul (co_transaction_cost o3) (d_div (co_filled_quantity o3) (co_quantity o3))\<rparr>
         else o3)"

definition traded_value :: "CerebroOrder \<Rightarrow> double" where
  "traded_value ord = d_mul (co_filled_price ord) (co_filled_quantity ord)"

text \<open>
  A matcher gives a result code with the order and the broker as it leaves them. \<open>wanted\<close> is the price that
  a buyer must be able to pay: the order's own, or the last one. A tick without volumes throws from \<open>at\<close>, and leaves
  an order that has a price by then.
\<close>

type_synonym matched = "(CerebroOrder \<times> CerebroBroker, int \<times> CerebroOrder \<times> CerebroBroker) run"

definition buy_at :: "CerebroTickRecord \<Rightarrow> double \<Rightarrow> bool \<Rightarrow> CerebroOrder \<Rightarrow> CerebroBroker \<Rightarrow> matched" where
  "buy_at tick wanted matches ord b =
     rbind (left_at (ord, b) (the_account b)) (\<lambda>w.
       let total_price = d_add (d_mul (slip w ord wanted) (co_quantity ord)) (aw_calc_commission w ord)
       in if almost_gt total_price (aw_get_cash w) epsilon
          then Inr (0, reject '' Insufficient available funds'' ord, b)
          else if \<not> matches then Inr (0, ord, b)
          else
            let price = slip w ord (ct_last tick)
            in rbind (left_at (ord\<lparr>co_filled_price := price\<rparr>, b) (at0 (ct_ask_vols tick))) (\<lambda>vol.
              let o1 = fill_order w tick price vol ord
              in rbind (left_at (o1, b)
                    (on_account (aw_transform_cash_to_market_value (traded_value o1) (co_transaction_cost o1)) b))
                   (\<lambda>b1. Inr (0, o1, b1))))"

definition sell_at :: "CerebroTickRecord \<Rightarrow> double res \<Rightarrow> bool \<Rightarrow> CerebroOrder \<Rightarrow> CerebroBroker \<Rightarrow> matched" where
  "sell_at tick price matches ord b =
     (let t = long_tracker (co_symbol ord) b; b1 = snd (get_long_tracker (co_symbol ord) True b)
      in if almost_gt (co_quantity ord) (cp_closable (pt_position t)) epsilon
         then Inr (0, reject ''Can close the position insufficient'' ord, b1)
         else if \<not> matches then Inr (0, ord, b1)
         else
           rbind (left_at (ord, b1) price) (\<lambda>p. rbind (left_at (ord, b1) (the_account b1)) (\<lambda>w.
             rbind (left_at (ord\<lparr>co_filled_price := slip w ord p\<rparr>, b1) (at0 (ct_bid_vols tick))) (\<lambda>vol.
               let o1 = (fill_order w tick (slip w ord p) vol ord)
                          \<lparr>co_last_position_price := cp_avg_price (pt_position t)\<rparr>
               in rbind (left_at (o1, b1)
                     (on_account (aw_transform_market_value_to_cash (traded_value o1) (co_transaction_cost o1)) b1))
                    (\<lambda>b2. Inr (0, o1, b2))))))"

definition process_limit_order :: "CerebroTickRecord \<Rightarrow> CerebroOrder \<Rightarrow> CerebroBroker \<Rightarrow> matched" where
  "process_limit_order tick ord b =
     (if co_action ord = OA_BUY then
        if is_over_limit_up ord tick then Inr (0, reject ''over limit up'' ord, b)
        else buy_at tick (co_price ord) (\<not> almost_lt (co_price ord) (ct_last tick) epsilon) ord b
      else if co_action ord = OA_SELL then
        if is_over_limit_down ord tick then Inr (0, reject ''over limit down'' ord, b)
        else sell_at tick (at0 (ct_bids tick)) (\<not> almost_gt (co_price ord) (ct_last tick) epsilon) ord b
      else Inr (0, reject ''unknown order action'' ord, b))"

definition process_market_order :: "CerebroTickRecord \<Rightarrow> CerebroOrder \<Rightarrow> CerebroBroker \<Rightarrow> matched" where
  "process_market_order tick ord b =
     (if co_action ord = OA_BUY then
        if is_over_limit_up ord tick then Inr (0, reject ''over limit up'' ord, b)
        else buy_at tick (ct_last tick) True ord b
      else if co_action ord = OA_SELL then
        if is_over_limit_down ord tick then Inr (0, reject ''over limit down'' ord, b)
        else sell_at tick (Inr (ct_last tick)) True ord b
      else Inr (0, reject ''unknown order action'' ord, b))"

text \<open>The two matchers have the same body.\<close>

definition matcher_match :: "matcher \<Rightarrow> CerebroTickRecord \<Rightarrow> CerebroOrder \<Rightarrow> CerebroBroker \<Rightarrow> matched" where
  "matcher_match m tick ord b =
     (case co_type ord of
        OT_MARKET \<Rightarrow> process_market_order tick ord b
      | OT_LIMIT \<Rightarrow> process_limit_order tick ord b
      | OT_NONE \<Rightarrow> Inr (-1, ord, b))"

section \<open>Updates of the positions\<close>

text \<open>
  An order of the short side reaches the long tracker of its symbol, and is compared with actions it cannot
  have, so that nothing happens to it. Selling without a position throws, and leaves the tracker made before.
\<close>

definition on_order_update :: "CerebroOrder \<Rightarrow> CerebroBroker \<Rightarrow> (CerebroBroker, CerebroBroker) run" where
  "on_order_update ord b =
     (let s = co_symbol ord; q = co_filled_quantity ord; p = co_filled_price ord; c = co_transaction_cost ord
      in if is_special_order ord then Inr b
         else if co_status ord \<noteq> OS_FILLED then Inr b
         else if order_longshort ord = PD_LONG then
           let t = long_tracker s b; b1 = snd (get_long_tracker s True b)
           in if co_action ord = OA_BUY then Inr (put_long s (tracker_buy q p c t) b1)
              else if co_action ord = OA_SELL then
                rbind (left_at b1 (tracker_sell q p c t)) (\<lambda>t1. Inr (put_long s t1 b1))
              else Inr b1
         else if order_longshort ord = PD_SHORT then
           let t = long_tracker s b; b1 = snd (get_long_tracker s True b)
           in if co_action ord = OA_BUY then Inr (put_long s (tracker_buy_to_cover q p c t) b1)
              else if co_action ord = OA_SELL then Inr (put_long s (tracker_sell_short q p c t) b1)
              else Inr b1
         else Inr b)"

section \<open>Orders coming in\<close>

definition process_special_order :: "CerebroOrder \<Rightarrow> CerebroBroker \<Rightarrow> (int \<times> CerebroBroker) res" where
  "process_special_order ord b =
     (case co_action ord of
        OA_DIVIDEND \<Rightarrow>
          let s = co_symbol ord; t = long_tracker s b; b1 = snd (get_long_tracker s True b);
              nz = (\<not> almost_zero (co_quantity ord) epsilon);
              b2 = (if nz then put_long s (tracker_buy (co_quantity ord) d0 (co_transaction_cost ord) t) b1 else b1)
          in if nz
             then rbind (on_account (aw_add_cash (co_price ord) (co_transaction_cost ord)) b2) (\<lambda>b3. Inr (0, b3))
             else Inr (0, b2)
      | OA_DEPOSIT \<Rightarrow>
          rbind (the_account b) (\<lambda>w.
            let (rc, w1) = aw_deposit_cash (d_mul (co_price ord) (co_quantity ord)) d0 w
            in Inr (rc, b\<lparr>cb_account := Some w1\<rparr>))
      | OA_WITHDRAW \<Rightarrow>
          rbind (the_account b) (\<lambda>w.
            let (rc, w1) = aw_withdraw_cash (d_mul (co_price ord) (co_quantity ord)) w
            in Inr (rc, b\<lparr>cb_account := Some w1\<rparr>))
      | _ \<Rightarrow> Inr (0, b))"

definition unfilled_of :: "Symbol \<Rightarrow> CerebroBroker \<Rightarrow> CerebroOrder list" where
  "unfilled_of s b = (case map_of (cb_unfill_orders b) s of Some os \<Rightarrow> os | None \<Rightarrow> [])"

definition put_unfilled :: "Symbol \<Rightarrow> CerebroOrder list \<Rightarrow> CerebroBroker \<Rightarrow> CerebroBroker" where
  "put_unfilled s os b = b\<lparr>cb_unfill_orders := put_item (s, os) (cb_unfill_orders b)\<rparr>"

definition add_filled :: "CerebroOrder \<Rightarrow> CerebroBroker \<Rightarrow> CerebroBroker" where
  "add_filled ord b = b\<lparr>cb_filled_orders := cb_filled_orders b @ [ord]\<rparr>"

definition commit_order :: "CerebroOrder \<Rightarrow> CerebroBroker \<Rightarrow> CerebroBroker res" where
  "commit_order ord b =
     (if co_status ord = OS_PENDING_NEW then
        if \<not> is_special_order ord
        then Inr (put_unfilled (co_symbol ord) (unfilled_of (co_symbol ord) b @ [ord]) b)
        else
          rbind (process_special_order ord b) (\<lambda>(rc, b1).
            let (now, b2) = now_ms b1
            in Inr (add_filled
                 (ord\<lparr>co_ctime := now, co_status := (if rc \<noteq> 0 then OS_REJECTED else OS_FILLED),
                      co_trading_date := cb_current_dt b2\<rparr>) b2))
      else Inr (add_filled ord b))"

text \<open>The orders of the interface: numbered and stamped, then committed. The number is the result.\<close>

definition submit ::
    "Symbol \<Rightarrow> double \<Rightarrow> double \<Rightarrow> ORDER_STATUS \<Rightarrow> ORDER_TYPE \<Rightarrow> ORDER_ACTION \<Rightarrow> CerebroBroker \<Rightarrow>
     (i64 \<times> CerebroBroker) res" where
  "submit s quantity price status type action b =
     rbind (next_order_id b) (\<lambda>(oid, b1).
       let (c, b2) = now_ms b1; (m, b3) = now_ms b2;
           ord = order_zero\<lparr>co_order_id := oid, co_symbol := s, co_ctime := c, co_mtime := m, co_price := price,
                   co_quantity := quantity, co_status := status, co_type := type, co_action := action\<rparr>
       in rbind (commit_order ord b3) (\<lambda>b4. Inr (oid, b4)))"

definition price_type :: "double \<Rightarrow> ORDER_TYPE" where
  "price_type price = (if d_eq price d0 then OT_MARKET else OT_LIMIT)"

definition broker_buy :: "Symbol \<Rightarrow> double \<Rightarrow> double \<Rightarrow> CerebroBroker \<Rightarrow> (i64 \<times> CerebroBroker) res" where
  "broker_buy s quantity price b =
     (if almost_zero quantity epsilon then Inr (-1, b)
      else submit s quantity price OS_PENDING_NEW (price_type price) OA_BUY b)"

definition broker_sell :: "Symbol \<Rightarrow> double \<Rightarrow> double \<Rightarrow> CerebroBroker \<Rightarrow> (i64 \<times> CerebroBroker) res" where
  "broker_sell s quantity price b =
     (if almost_zero quantity epsilon then Inr (-1, b)
      else submit s quantity price OS_PENDING_NEW (price_type price) OA_SELL b)"

definition broker_buy_to_cover :: "Symbol \<Rightarrow> double \<Rightarrow> double \<Rightarrow> CerebroBroker \<Rightarrow> (i64 \<times> CerebroBroker) res" where
  "broker_buy_to_cover s quantity price b = Inr (0, b)"

definition broker_sell_short :: "Symbol \<Rightarrow> double \<Rightarrow> double \<Rightarrow> CerebroBroker \<Rightarrow> (i64 \<times> CerebroBroker) res" where
  "broker_sell_short s quantity price b = Inr (0, b)"

definition dividend_order :: "Symbol \<Rightarrow> double \<Rightarrow> double \<Rightarrow> CerebroBroker \<Rightarrow> (i64 \<times> CerebroBroker) res" where
  "dividend_order s quantity price b = submit s quantity price OS_PENDING_NEW (price_type price) OA_DIVIDEND b"

definition cancel_order :: "i64 \<Rightarrow> CerebroBroker \<Rightarrow> (i64 \<times> CerebroBroker) res" where
  "cancel_order oid b = Inr (0, b)"

definition text_bytes :: "string \<Rightarrow> bytes" where "text_bytes s = map (\<lambda>c. of_char c) s"

definition deposit_cash :: "double \<Rightarrow> bool \<Rightarrow> CerebroBroker \<Rightarrow> (i64 \<times> CerebroBroker) res" where
  "deposit_cash cash isfinish b =
     submit (text_bytes ''Deposit Funds'') (d_of_int 1) cash (if isfinish then OS_FILLED else OS_PENDING_NEW)
       OT_MARKET OA_DEPOSIT b"

definition withdraw_cash :: "double \<Rightarrow> CerebroBroker \<Rightarrow> (i64 \<times> CerebroBroker) res" where
  "withdraw_cash cash b =
     submit (text_bytes ''Withdraw Funds'') (d_of_int 1) cash OS_PENDING_NEW OT_MARKET OA_WITHDRAW b"

section \<open>Matching a queue against a tick\<close>

definition done_status :: "CerebroOrder \<Rightarrow> bool" where
  "done_status ord \<longleftrightarrow> co_status ord \<in> {OS_REJECTED, OS_CANCELLED, OS_FILLED}"

text \<open>What follows the first full stop of a symbol; the whole symbol when it has none.\<close>

definition exchange_of :: "Symbol \<Rightarrow> bytes" where
  "exchange_of s = (if 0x2e \<in> set s then tl (dropWhile (\<lambda>c. c \<noteq> 0x2e) s) else s)"

text \<open>A number in decimal, as \<open>std::to_string\<close> gives it.\<close>

fun dec_digits :: "int \<Rightarrow> bytes" where
  "dec_digits n =
     (if n < 10 then [word_of_int (48 + n)] else dec_digits (n div 10) @ [word_of_int (48 + n mod 10)])"

declare dec_digits.simps [simp del]

definition decimal :: "int \<Rightarrow> bytes" where
  "decimal n = (if n < 0 then 0x2d # dec_digits (- n) else dec_digits n)"

definition notify :: "CerebroOrder \<Rightarrow> CerebroBroker \<Rightarrow> CerebroBroker" where
  "notify ord b = (if cb_order_update_callback b then b\<lparr>cb_updates := cb_updates b @ [ord]\<rparr> else b)"

text \<open>The order for the rest of a partly filled one.\<close>

definition suborder :: "CerebroOrder \<Rightarrow> CerebroBroker \<Rightarrow> (CerebroOrder \<times> CerebroBroker) res" where
  "suborder ord b =
     rbind (next_order_id b) (\<lambda>(oid, b1).
       let share = d_div (co_filled_quantity ord) (co_quantity ord);
           (c, b2) = now_ms b1; (m, b3) = now_ms b2
       in Inr (order_zero\<lparr>co_symbol := co_symbol ord, co_action := co_action ord, co_order_id := oid,
                 co_type := co_type ord, co_status := OS_PENDING_NEW, co_price := co_price ord,
                 co_quantity := co_unfilled_quantity ord, co_unfilled_quantity := d0,
                 co_last_position_price := d0,
                 co_transaction_cost :=
                   d_mul (d_div (co_transaction_cost ord) share) (d_sub (d_of_int 1) share),
                 co_trading_date := 0, co_ctime := c, co_mtime := m,
                 co_extra := [(text_bytes ''primary_order_id'', decimal (sint (co_order_id ord)))]\<rparr>, b3))"

text \<open>
  What follows a match: the positions and the callback learn of it, a finished order goes to the finished ones, and
  a partly filled one leaves an order for its rest.
\<close>

type_synonym order_run = "(CerebroOrder \<times> CerebroBroker, CerebroOrder \<times> CerebroOrder list \<times> CerebroBroker) run"

definition after_match :: "CerebroOrder \<Rightarrow> CerebroBroker \<Rightarrow> order_run" where
  "after_match ord b =
     rbind (left_in (\<lambda>b1. (ord, b1)) (on_order_update ord b)) (\<lambda>b1.
       let b2 = (if co_status ord \<noteq> OS_PENDING_NEW then notify ord b1 else b1);
           b3 = (if done_status ord then add_filled ord b2 else b2)
       in if almost_ne (co_unfilled_quantity ord) d0 epsilon
          then rbind (left_at (ord, b3) (suborder ord b3)) (\<lambda>(so, b4). Inr (ord, [so], b4))
          else Inr (ord, [], b3))"

text \<open>One order of the queue: what it becomes, and the order for its rest.\<close>

definition match_one :: "CerebroTickRecord \<Rightarrow> CerebroOrder \<Rightarrow> CerebroBroker \<Rightarrow> order_run" where
  "match_one tick ord b =
     (if done_status ord then Inr (ord, [], add_filled ord b)
      else case map_of (cb_matchers b) (exchange_of (co_symbol ord)) of
        None \<Rightarrow> Inr (ord, [], b)
      | Some mt \<Rightarrow>
          rbind (matcher_match mt tick ord b) (\<lambda>(rc, o1, b1).
            if rc \<noteq> 0 then Inr (o1, [], b1)
            else let (now, b2) = now_ms b1 in after_match (o1\<lparr>co_mtime := now\<rparr>) b2))"

text \<open>
  The orders of the queue are changed where they stand. An exception leaves the orders before the failing one as their
  matches made them, finished ones too, the failing one as far as it came, and the others untouched; the orders for
  the rests are lost.
\<close>

fun match_queue ::
    "CerebroTickRecord \<Rightarrow> CerebroOrder list \<Rightarrow> CerebroBroker \<Rightarrow>
     (CerebroOrder list \<times> CerebroBroker, CerebroOrder list \<times> CerebroOrder list \<times> CerebroBroker) run"
where
  "match_queue tick [] b = Inr ([], [], b)"
| "match_queue tick (ord # os) b =
     rbind (left_in (\<lambda>(o1, b1). (o1 # os, b1)) (match_one tick ord b)) (\<lambda>(o1, so, b1).
       rbind (left_in (\<lambda>(os1, b2). (o1 # os1, b2)) (match_queue tick os b1)) (\<lambda>(os1, sos, b2). Inr (o1 # os1, so @ sos, b2)))"

text \<open>Finished orders are taken from the queue after the loop, so not when the loop ends in an exception.\<close>

definition process_normal_order :: "CerebroTickRecord \<Rightarrow> CerebroBroker \<Rightarrow> (CerebroBroker, CerebroBroker) run" where
  "process_normal_order tick b =
     (case map_of (cb_unfill_orders b) (ct_symbol tick) of
        None \<Rightarrow> Inr b
      | Some os \<Rightarrow>
          rbind (left_in (\<lambda>(os1, b1). put_unfilled (ct_symbol tick) os1 b1) (match_queue tick os b)) (\<lambda>(os1, sos, b1).
            Inr (put_unfilled (ct_symbol tick) (filter (\<lambda>ord. \<not> done_status ord) os1 @ sos)
                  (foldl (\<lambda>x ord. notify ord x) b1 sos))))"

section \<open>Ticks and settlement\<close>

definition do_position_update :: "CerebroTickRecord \<Rightarrow> CerebroBroker \<Rightarrow> CerebroBroker" where
  "do_position_update tick b =
     (let s = ct_symbol tick;
          up = (\<lambda>its. case map_of its s of Some t \<Rightarrow> put_item (s, tracker_update_tick tick t) its | None \<Rightarrow> its)
      in b\<lparr>cb_lpositions := up (cb_lpositions b), cb_spositions := up (cb_spositions b)\<rparr>)"

text \<open>The profit and the market value of the positions, entered into the account.\<close>

definition update_account :: "CerebroBroker \<Rightarrow> CerebroBroker res" where
  "update_account b =
     on_account (\<lambda>w. aw_update_market_value (positions_market_value b)
                       (aw_update_daily_pnl (current_positions_pnl b) w)) b"

definition on_tick :: "CerebroTickRecord \<Rightarrow> CerebroBroker \<Rightarrow> (CerebroBroker, CerebroBroker) run" where
  "on_tick tick b =
     (let b1 = (if has_position (ct_symbol tick) b then do_position_update tick b else b)
      in rbind (process_normal_order tick b1) (\<lambda>b2.
           let b3 = do_position_update tick b2 in left_at b3 (update_account b3)))"

text \<open>
  A candle settles the long and the short tracker of its symbol. The message for the short one reads the long one,
  which is null when there is none.
\<close>

definition settle_one :: "CerebroKlineRecord \<Rightarrow> CerebroBroker \<Rightarrow> CerebroBroker res" where
  "settle_one r b =
     (let s = ck_symbol r; l = map_of (cb_lpositions b) s; sh = map_of (cb_spositions b) s;
          b1 = (case l of Some t \<Rightarrow> put_long s (tracker_settle r t) b | None \<Rightarrow> b)
      in case sh of
           None \<Rightarrow> Inr b1
         | Some t \<Rightarrow>
             if l = None then Inl MemFault
             else Inr (b1\<lparr>cb_spositions := put_item (s, tracker_settle r t) (cb_spositions b1)\<rparr>))"

fun settle_all :: "CerebroKlineRecord list \<Rightarrow> CerebroBroker \<Rightarrow> CerebroBroker res" where
  "settle_all [] b = Inr b"
| "settle_all (r # rs) b = rbind (settle_one r b) (settle_all rs)"

fun remove_trackers :: "CerebroPositionTracker list \<Rightarrow> CerebroBroker \<Rightarrow> CerebroBroker res" where
  "remove_trackers [] b = Inr b"
| "remove_trackers (t # ts) b =
     rbind (remove_tracker (cp_symbol (pt_position t)) (cp_direction (pt_position t)) b) (remove_trackers ts)"

definition settle :: "CerebroKlineRecord list \<Rightarrow> CerebroBroker \<Rightarrow> CerebroBroker res" where
  "settle records b =
     rbind (settle_all records b) (\<lambda>b1.
       rbind (update_account b1) (\<lambda>b2. remove_trackers (get_all_tracker b2) b2))"

end
