(* ===== verification/Broker_Book.thy ===== *)
theory Broker_Book
  imports Cerebro_Broker
begin

text \<open>
  What the broker makes of an order, and the order book over its life: a queued order waits, is rejected or is
  filled, each change of the queue and of the list of finished orders is one of these, and the operations of the
  broker keep the invariant of the book.
\<close>

section \<open>Trackers of a symbol\<close>

abbreviation open_long :: "Symbol \<Rightarrow> CerebroBroker \<Rightarrow> CerebroBroker" where
  "open_long s b \<equiv> snd (get_long_tracker s True b)"

lemma open_long_eq:
  "open_long s b =
     (if map_of (cb_lpositions b) s = None
      then b\<lparr>cb_lpositions := put_item (s, tracker_new s PD_LONG 1) (cb_lpositions b)\<rparr> else b)"
  by (auto simp: get_long_tracker_def Let_def split: option.splits)

text \<open>What a step leaves alone, apart from the account, the long positions and the finished orders.\<close>

definition same_frame :: "CerebroBroker \<Rightarrow> CerebroBroker \<Rightarrow> bool" where
  "same_frame b c \<longleftrightarrow>
     cb_current_dt c = cb_current_dt b \<and> cb_unfill_orders c = cb_unfill_orders b \<and>
     cb_spositions c = cb_spositions b \<and> cb_matchers c = cb_matchers b \<and>
     cb_order_id_gen c = cb_order_id_gen b \<and> cb_order_update_callback c = cb_order_update_callback b \<and>
     (cb_account c = None \<longleftrightarrow> cb_account b = None)"

lemma same_frame_refl [simp]: "same_frame b b" by (simp add: same_frame_def)

lemma same_frame_trans: "same_frame a b \<Longrightarrow> same_frame b c \<Longrightarrow> same_frame a c"
  by (simp add: same_frame_def)

lemma open_long_frame [simp]:
  "same_frame b (open_long s b)"
  "cb_account (open_long s b) = cb_account b"
  "cb_filled_orders (open_long s b) = cb_filled_orders b"
  "cb_order_id_gen (open_long s b) = cb_order_id_gen b"
  by (simp_all add: open_long_eq same_frame_def)

lemma map_of_put_same [simp]: "map_of (put_item (k, v) its) k = Some v"
proof -
  have "map_of (filter (\<lambda>y. fst y < k) its) k = None"
    by (auto simp: map_of_eq_None_iff)
  then show ?thesis by (simp add: put_item_def map_add_def)
qed

lemma long_tracker_open [simp]: "long_tracker s (open_long s b) = long_tracker s b"
  by (simp add: open_long_eq long_tracker_def)

lemma open_long_idem [simp]: "open_long s (open_long s b) = open_long s b"
  by (simp add: open_long_eq)

section \<open>The outcome of a match\<close>

lemma the_account_Inr: "the_account b = Inr w \<longleftrightarrow> cb_account b = Some w"
  by (auto simp: the_account_def split: option.splits)

lemma on_account_Inr:
  "on_account f b = Inr c \<longleftrightarrow> (\<exists>w. cb_account b = Some w \<and> c = b\<lparr>cb_account := Some (f w)\<rparr>)"
  by (auto simp: on_account_def rbind_eq_Inr the_account_Inr)

lemma reject_simps [simp]:
  "co_status (reject y ord) = OS_REJECTED"
  "co_symbol (reject y ord) = co_symbol ord"
  "co_action (reject y ord) = co_action ord"
  "co_quantity (reject y ord) = co_quantity ord"
  "co_unfilled_quantity (reject y ord) = co_unfilled_quantity ord"
  by (simp_all add: reject_def)

lemma fill_order_simps [simp]:
  "co_status (fill_order w tick p vol ord) = OS_FILLED"
  "co_symbol (fill_order w tick p vol ord) = co_symbol ord"
  "co_action (fill_order w tick p vol ord) = co_action ord"
  "co_quantity (fill_order w tick p vol ord) = co_quantity ord"
  "co_type (fill_order w tick p vol ord) = co_type ord"
  "co_price (fill_order w tick p vol ord) = co_price ord"
  "co_filled_price (fill_order w tick p vol ord) = p"
  "co_filled_quantity (fill_order w tick p vol ord) = d_min vol (co_quantity ord)"
  by (simp_all add: fill_order_def Let_def)

lemma fill_order_unfilled:
  "co_unfilled_quantity (fill_order w tick p vol ord) =
     (if almost_ne (co_quantity ord) (d_min vol (co_quantity ord)) epsilon
      then d_sub (co_quantity ord) (d_min vol (co_quantity ord)) else co_unfilled_quantity ord)"
  by (simp add: fill_order_def Let_def)

lemma matcher_cases:
  assumes "matcher_match mt tick ord b = Inr (rc, o1, b1)"
  obtains (kept) "o1 = ord" "b1 = b \<or> b1 = open_long (co_symbol ord) b"
  | (rejected) y where "rc = 0" "o1 = reject y ord" "b1 = b \<or> b1 = open_long (co_symbol ord) b"
  | (bought) w p vol where "rc = 0" "co_action ord = OA_BUY" "cb_account b = Some w"
      "at0 (ct_ask_vols tick) = Inr vol" "o1 = fill_order w tick p vol ord"
      "b1 = b\<lparr>cb_account := Some (aw_transform_cash_to_market_value (traded_value o1) (co_transaction_cost o1) w)\<rparr>"
  | (sold) w p vol where "rc = 0" "co_action ord = OA_SELL" "cb_account b = Some w"
      "at0 (ct_bid_vols tick) = Inr vol"
      "\<not> almost_gt (co_quantity ord) (cp_closable (pt_position (long_tracker (co_symbol ord) b))) epsilon"
      "o1 = (fill_order w tick p vol ord)
         \<lparr>co_last_position_price := cp_avg_price (pt_position (long_tracker (co_symbol ord) b))\<rparr>"
      "b1 = (open_long (co_symbol ord) b)
         \<lparr>cb_account := Some (aw_transform_market_value_to_cash (traded_value o1) (co_transaction_cost o1) w)\<rparr>"
proof -
  have buy: thesis if "buy_at tick wanted ok ord b = Inr (rc, o1, b1)" "co_action ord = OA_BUY" for wanted ok
    using that kept rejected bought
    by (auto simp: buy_at_def rbind_eq_Inr the_account_Inr on_account_Inr Let_def split: if_splits)
  have sell: thesis if "sell_at tick price ok ord b = Inr (rc, o1, b1)" "co_action ord = OA_SELL" for price ok
    using that kept rejected sold
    by (auto simp: sell_at_def rbind_eq_Inr the_account_Inr on_account_Inr Let_def split: if_splits)
  show thesis
    using assms kept rejected buy sell
    by (auto simp: matcher_match_def process_market_order_def process_limit_order_def
        split: if_splits ORDER_TYPE.splits)
qed


definition only_opens :: "Symbol \<Rightarrow> CerebroBroker \<Rightarrow> CerebroBroker \<Rightarrow> bool" where
  "only_opens s b c \<longleftrightarrow> same_frame b c \<and> cb_filled_orders c = cb_filled_orders b \<and>
     (cb_lpositions c = cb_lpositions b \<or> cb_lpositions c = cb_lpositions (open_long s b))"

lemma matcher_only_opens:
  assumes "matcher_match mt tick ord b = Inr (rc, o1, c)"
  shows "only_opens (co_symbol ord) b c"
  using assms
  by (cases rule: matcher_cases) (auto simp: only_opens_def same_frame_def open_long_eq)

text \<open>The commission that the order for the rest of a filled one is given.\<close>

definition rest_cost :: "CerebroOrder \<Rightarrow> double" where
  "rest_cost ord =
     (let share = d_div (co_filled_quantity ord) (co_quantity ord)
      in d_mul (d_div (co_transaction_cost ord) share) (d_sub (d_of_int 1) share))"

lemma suborder_fields:
  assumes "suborder ord b = Inr (so, c)"
  shows "co_symbol so = co_symbol ord" "co_action so = co_action ord" "co_type so = co_type ord"
    "co_price so = co_price ord" "co_quantity so = co_unfilled_quantity ord" "co_status so = OS_PENDING_NEW"
    "co_unfilled_quantity so = d0" "same_frame b c" "cb_lpositions c = cb_lpositions b"
    "cb_filled_orders c = cb_filled_orders b" "cb_account c = cb_account b" "cb_order_id_gen b \<noteq> None"
    "co_transaction_cost so = rest_cost ord"
  using assms
  by (auto simp: suborder_def rest_cost_def rbind_eq_Inr next_order_id_def now_ms_def Let_def same_frame_def order_zero_def
      split: option.splits)

lemma now_ms_frame:
  assumes "now_ms b = (t, c)"
  shows "same_frame b c" "cb_lpositions c = cb_lpositions b" "cb_filled_orders c = cb_filled_orders b"
    "cb_account c = cb_account b"
  using assms by (auto simp: now_ms_def same_frame_def)

lemma notify_frame [simp]:
  "same_frame b (notify ord b)" "cb_lpositions (notify ord b) = cb_lpositions b"
  "cb_filled_orders (notify ord b) = cb_filled_orders b" "cb_account (notify ord b) = cb_account b"
  by (simp_all add: notify_def same_frame_def)

lemma tracker_of_lpositions: "cb_lpositions b = cb_lpositions c \<Longrightarrow> long_tracker s b = long_tracker s c"
  by (simp add: long_tracker_def)

lemma open_of_lpositions: "cb_lpositions b = cb_lpositions c \<Longrightarrow>
    cb_lpositions (open_long s b) = cb_lpositions (open_long s c)"
  by (simp add: open_long_eq)

text \<open>
  The updates of the long tracker that a filled order makes.
\<close>

definition traded :: "CerebroOrder \<Rightarrow> CerebroPositionTracker \<Rightarrow> CerebroPositionTracker \<Rightarrow> bool" where
  "traded ord t t1 \<longleftrightarrow>
     (let q = co_filled_quantity ord; p = co_filled_price ord; c = co_transaction_cost ord
      in co_action ord = OA_BUY \<and> t1 = tracker_buy q p c t \<or>
         co_action ord = OA_SELL \<and> tracker_sell q p c t = Inr t1)"

lemma on_order_update_waits:
  "co_status ord \<noteq> OS_FILLED \<Longrightarrow> on_order_update ord b = Inr c \<Longrightarrow> c = b"
  by (auto simp: on_order_update_def Let_def split: if_splits)

lemma on_order_update_fills:
  assumes "on_order_update ord b = Inr c" "co_status ord = OS_FILLED" "co_action ord \<in> {OA_BUY, OA_SELL}"
  obtains t1 where "traded ord (long_tracker (co_symbol ord) b) t1"
    "c = put_long (co_symbol ord) t1 (open_long (co_symbol ord) b)"
proof -
  let ?s = "co_symbol ord" and ?q = "co_filled_quantity ord" and ?p = "co_filled_price ord"
    and ?c = "co_transaction_cost ord"
  consider "co_action ord = OA_BUY" | "co_action ord = OA_SELL" using assms(3) by auto
  then show ?thesis
  proof cases
    case 1
    then have "c = put_long ?s (tracker_buy ?q ?p ?c (long_tracker ?s b)) (open_long ?s b)"
      using assms(1, 2) by (simp add: on_order_update_def order_longshort_def is_special_order_def Let_def)
    with 1 show ?thesis using that by (simp add: traded_def)
  next
    case 2
    then have "rbind (left_at (open_long ?s b) (tracker_sell ?q ?p ?c (long_tracker ?s b))) (\<lambda>t1. Inr (put_long ?s t1 (open_long ?s b))) = Inr c"
      using assms(1, 2) by (simp add: on_order_update_def order_longshort_def is_special_order_def Let_def)
    with 2 show ?thesis using that by (auto simp: traded_def rbind_eq_Inr)
  qed
qed

lemma put_long_frame [simp]:
  "same_frame b (put_long s t b)" "cb_filled_orders (put_long s t b) = cb_filled_orders b"
  "cb_account (put_long s t b) = cb_account b"
  by (simp_all add: put_long_def same_frame_def)

text \<open>A queued order, in the words of the invariant: new, with nothing noted as unfilled.\<close>

definition fresh :: "Symbol \<Rightarrow> CerebroOrder \<Rightarrow> bool" where
  "fresh s ord \<longleftrightarrow> co_status ord = OS_PENDING_NEW \<and> co_symbol ord = s \<and> \<not> is_special_order ord \<and>
     co_unfilled_quantity ord = d0"

lemma d0_not_ne [simp]: "\<not> almost_ne d0 d0 epsilon"
  using almost_whole(1) [of 0 0] by (simp add: d0_def)

text \<open>The order for the rest of a filled order.\<close>

definition rest_of :: "CerebroOrder \<Rightarrow> CerebroOrder list \<Rightarrow> bool" where
  "rest_of ord sos \<longleftrightarrow>
     (if almost_ne (co_unfilled_quantity ord) d0 epsilon
      then \<exists>so. sos = [so] \<and> fresh (co_symbol ord) so \<and> co_action so = co_action ord \<and>
             co_type so = co_type ord \<and> co_price so = co_price ord \<and>
             co_quantity so = co_unfilled_quantity ord \<and> co_transaction_cost so = rest_cost ord
      else sos = [])"

lemma after_match_waits:
  assumes "co_status ord = OS_PENDING_NEW" "co_unfilled_quantity ord = d0" "after_match ord b = Inr r"
  shows "r = (ord, [], b)"
  using assms
  by (auto simp: after_match_def done_status_def rbind_eq_Inr Let_def dest: on_order_update_waits [rotated])

lemma after_match_rejects:
  assumes "co_status ord = OS_REJECTED" "co_unfilled_quantity ord = d0" "after_match ord b = Inr r"
  shows "r = (ord, [], add_filled ord (notify ord b))"
  using assms
  by (auto simp: after_match_def done_status_def rbind_eq_Inr Let_def dest: on_order_update_waits [rotated])

lemma add_filled_frame [simp]:
  "same_frame b (add_filled ord b)" "cb_lpositions (add_filled ord b) = cb_lpositions b"
  "cb_filled_orders (add_filled ord b) = cb_filled_orders b @ [ord]" "cb_account (add_filled ord b) = cb_account b"
  by (simp_all add: add_filled_def same_frame_def)

lemma after_match_fills:
  assumes "co_status ord = OS_FILLED" "co_action ord \<in> {OA_BUY, OA_SELL}" "after_match ord b = Inr (o1, sos, b1)"
  obtains t1 where "o1 = ord" "rest_of ord sos" "same_frame b b1" "cb_filled_orders b1 = cb_filled_orders b @ [ord]"
    "traded ord (long_tracker (co_symbol ord) b) t1" "cb_account b1 = cb_account b"
    "cb_lpositions b1 = put_item (co_symbol ord, t1) (cb_lpositions (open_long (co_symbol ord) b))"
proof -
  obtain c where U: "on_order_update ord b = Inr c" using assms(3) by (auto simp: after_match_def rbind_eq_Inr)
  obtain t1 where T: "traded ord (long_tracker (co_symbol ord) b) t1"
    "c = put_long (co_symbol ord) t1 (open_long (co_symbol ord) b)"
    by (rule on_order_update_fills [OF U assms(1, 2)])
  define d where "d = add_filled ord (notify ord c)"
  have frame: "same_frame b d"
    unfolding d_def T(2)
    by (meson add_filled_frame(1) notify_frame(1) open_long_frame(1) put_long_frame(1) same_frame_trans)
  have D: "cb_filled_orders d = cb_filled_orders b @ [ord]" "cb_account d = cb_account b"
    "cb_lpositions d = put_item (co_symbol ord, t1) (cb_lpositions (open_long (co_symbol ord) b))"
    by (simp_all add: d_def T(2)) (simp add: put_long_def)
  have E: "(if almost_ne (co_unfilled_quantity ord) d0 epsilon
      then rbind (left_at (ord, d) (suborder ord d)) (\<lambda>(so, b4). Inr (ord, [so], b4)) else Inr (ord, [], d)) = Inr (o1, sos, b1)"
    using assms U by (auto simp: after_match_def Let_def done_status_def d_def split: if_splits)
  show thesis
  proof (cases "almost_ne (co_unfilled_quantity ord) d0 epsilon")
    case True
    then obtain so where so: "suborder ord d = Inr (so, b1)" "o1 = ord" "sos = [so]"
      using E by (auto simp: rbind_eq_Inr)
    note f = suborder_fields [OF so(1)]
    have "rest_of ord sos"
      using True f so(3) assms(2) by (auto simp: rest_of_def fresh_def is_special_order_def)
    then show ?thesis
      using that so(2) f D T(1) same_frame_trans [OF frame] by simp
  next
    case False
    then show ?thesis using that E D T(1) frame by (simp add: rest_of_def)
  qed
qed

lemma after_match_trades:
  assumes "after_match ord c = Inr (o1, sos, b1)" "co_status ord = OS_FILLED" "co_action ord \<in> {OA_BUY, OA_SELL}"
    "co_symbol ord = s" "only_opens s b c"
  obtains t1 where "o1 = ord" "rest_of ord sos" "same_frame b b1" "cb_filled_orders b1 = cb_filled_orders b @ [ord]"
    "traded ord (long_tracker s b) t1" "cb_lpositions b1 = put_item (s, t1) (cb_lpositions (open_long s b))"
proof -
  obtain t1 where F: "o1 = ord" "rest_of ord sos" "same_frame c b1" "cb_filled_orders b1 = cb_filled_orders c @ [ord]"
    "traded ord (long_tracker s c) t1" "cb_lpositions b1 = put_item (s, t1) (cb_lpositions (open_long s c))"
    using after_match_fills [OF assms(2, 3, 1)] assms(4) by metis
  have "long_tracker s c = long_tracker s b" "cb_lpositions (open_long s c) = cb_lpositions (open_long s b)"
    using assms(5) tracker_of_lpositions [of c b s] tracker_of_lpositions [of c "open_long s b" s]
      open_of_lpositions [of c b s] open_of_lpositions [of c "open_long s b" s]
    by (auto simp: only_opens_def)
  then show thesis
    using that F assms(5) same_frame_trans by (auto simp: only_opens_def)
qed

lemma match_one_cases:
  assumes "match_one tick ord b = Inr (o1, sos, b1)" "fresh s ord"
  obtains (waits) "fresh s o1" "co_quantity o1 = co_quantity ord" "co_action o1 = co_action ord" "sos = []"
      "same_frame b b1" "cb_filled_orders b1 = cb_filled_orders b"
      "cb_lpositions b1 = cb_lpositions b \<or> cb_lpositions b1 = cb_lpositions (open_long s b)"
  | (rejects) "co_status o1 = OS_REJECTED" "co_symbol o1 = s" "sos = []"
      "same_frame b b1" "cb_filled_orders b1 = cb_filled_orders b @ [o1]"
      "cb_lpositions b1 = cb_lpositions b \<or> cb_lpositions b1 = cb_lpositions (open_long s b)"
  | (fills) t1 where "co_status o1 = OS_FILLED" "co_symbol o1 = s" "co_quantity o1 = co_quantity ord"
      "co_action o1 = co_action ord"
      "co_action ord = OA_BUY \<and> (\<exists>vol. at0 (ct_ask_vols tick) = Inr vol \<and>
           co_filled_quantity o1 = d_min vol (co_quantity ord)) \<or>
       co_action ord = OA_SELL \<and> (\<exists>vol. at0 (ct_bid_vols tick) = Inr vol \<and>
           co_filled_quantity o1 = d_min vol (co_quantity ord)) \<and>
         \<not> almost_gt (co_quantity ord) (cp_closable (pt_position (long_tracker s b))) epsilon"
      "co_unfilled_quantity o1 =
         (if almost_ne (co_quantity ord) (co_filled_quantity o1) epsilon
          then d_sub (co_quantity ord) (co_filled_quantity o1) else d0)"
      "rest_of o1 sos" "same_frame b b1" "cb_filled_orders b1 = cb_filled_orders b @ [o1]"
      "traded o1 (long_tracker s b) t1"
      "cb_lpositions b1 = put_item (s, t1) (cb_lpositions (open_long s b))"
proof -
  have ord: "co_status ord = OS_PENDING_NEW" "co_symbol ord = s" "\<not> is_special_order ord"
    "co_unfilled_quantity ord = d0" using assms(2) by (auto simp: fresh_def)
  have nd: "\<not> done_status ord" by (simp add: done_status_def ord)
  show thesis
  proof (cases "map_of (cb_matchers b) (exchange_of (co_symbol ord))")
    case None
    then have "o1 = ord \<and> sos = [] \<and> b1 = b" using assms(1) nd by (simp add: match_one_def)
    then show thesis using waits assms(2) by simp
  next
    case (Some mt)
    obtain rc m1 c where M: "matcher_match mt tick ord b = Inr (rc, m1, c)"
      and R: "(if rc \<noteq> 0 then Inr (m1, [], c)
            else let (now, b2) = now_ms c in after_match (m1\<lparr>co_mtime := now\<rparr>) b2) = Inr (o1, sos, b1)"
      using assms(1) nd Some by (auto simp: match_one_def rbind_eq_Inr)
    show thesis
    proof (cases "rc = 0")
      case False
      then have "m1 = ord" "c = b \<or> c = open_long s b" "o1 = m1 \<and> sos = [] \<and> b1 = c"
        using M R ord by (auto elim: matcher_cases)
      then show thesis using waits assms(2) by auto
    next
      case True
      obtain now b2 where N: "now_ms c = (now, b2)" by fastforce
      note nf = now_ms_frame [OF N]
      define o2 where "o2 = m1\<lparr>co_mtime := now\<rparr>"
      have A: "after_match o2 b2 = Inr (o1, sos, b1)" using R True N by (simp add: o2_def)
      have quiet: "only_opens s b b2"
        using matcher_only_opens [OF M] nf ord(2) same_frame_trans [OF _ nf(1)] by (auto simp: only_opens_def)
      show thesis using M
      proof (cases rule: matcher_cases)
        case kept
        then have "o1 = o2" "sos = []" "b1 = b2"
          using after_match_waits [OF _ _ A] ord by (auto simp: o2_def)
        then show ?thesis
          using waits quiet ord kept(1) by (simp add: o2_def fresh_def is_special_order_def only_opens_def)
      next
        case (rejected y)
        then have "o1 = o2" "sos = []" "b1 = add_filled o2 (notify o2 b2)"
          using after_match_rejects [OF _ _ A] ord by (auto simp: o2_def)
        moreover have "same_frame b (add_filled o2 (notify o2 b2))"
          using quiet same_frame_trans add_filled_frame(1) notify_frame(1) unfolding only_opens_def by metis
        ultimately show ?thesis
          using rejects quiet ord rejected(2) by (simp add: o2_def only_opens_def)
      next
        case (bought w p vol)
        have o2: "co_status o2 = OS_FILLED" "co_action o2 = OA_BUY" "co_symbol o2 = s"
          using bought(2, 5) ord(2) by (simp_all add: o2_def)
        obtain t1 where F: "o1 = o2" "rest_of o2 sos" "same_frame b b1"
          "cb_filled_orders b1 = cb_filled_orders b @ [o2]" "traded o2 (long_tracker s b) t1"
          "cb_lpositions b1 = put_item (s, t1) (cb_lpositions (open_long s b))"
          by (rule after_match_trades [OF A o2(1) _ o2(3) quiet]) (simp add: o2)
        show ?thesis
          by (rule fills [of t1])
            (use F bought(2, 4, 5) ord(2, 4) in \<open>auto simp: fill_order_unfilled o2_def\<close>)
      next
        case (sold w p vol)
        have o2: "co_status o2 = OS_FILLED" "co_action o2 = OA_SELL" "co_symbol o2 = s"
          using sold(2, 6) ord(2) by (simp_all add: o2_def)
        obtain t1 where F: "o1 = o2" "rest_of o2 sos" "same_frame b b1"
          "cb_filled_orders b1 = cb_filled_orders b @ [o2]" "traded o2 (long_tracker s b) t1"
          "cb_lpositions b1 = put_item (s, t1) (cb_lpositions (open_long s b))"
          by (rule after_match_trades [OF A o2(1) _ o2(3) quiet]) (simp add: o2)
        show ?thesis
          by (rule fills [of t1])
            (use F sold(2, 4, 5, 6) ord(2, 4) in \<open>auto simp: fill_order_unfilled o2_def\<close>)
      qed
    qed
  qed
qed

section \<open>The invariant of the book\<close>

text \<open>A tracker stands under its own symbol and never changes its direction and its delay.\<close>

definition tracker_for :: "POSITION_DIRECTION \<Rightarrow> Symbol \<Rightarrow> CerebroPositionTracker \<Rightarrow> bool" where
  "tracker_for dir s t \<longleftrightarrow>
     cp_symbol (pt_position t) = s \<and> cp_direction (pt_position t) = dir \<and>
     pt_tplus t = (if dir = PD_LONG then 1 else 0)"

lemma tracker_for_new [simp]: "tracker_for PD_LONG s (tracker_new s PD_LONG 1)"
  by (simp add: tracker_for_def tracker_new_def)

lemma tracker_for_buy: "tracker_for dir s t \<Longrightarrow> tracker_for dir s (tracker_buy q p c t)"
  by (simp add: tracker_for_def tracker_buy_def enlarge_def Let_def)

lemma tracker_for_sell: "tracker_sell q p c t = Inr t1 \<Longrightarrow> tracker_for dir s t \<Longrightarrow> tracker_for dir s t1"
  by (auto simp: tracker_for_def tracker_sell_def Let_def split: if_splits)

lemma tracker_for_pnl: "tracker_for dir s t \<Longrightarrow> tracker_for dir s (update_pnl p t)"
  by (simp add: tracker_for_def update_pnl_def Let_def)

lemma tracker_for_settle: "tracker_for dir s t \<Longrightarrow> tracker_for dir s (tracker_settle r t)"
  using tracker_for_pnl [of dir s t "ck_close r"]
  by (simp add: tracker_for_def tracker_settle_def tracker_update_kline_def Let_def)

lemma tracker_for_traded: "traded ord t t1 \<Longrightarrow> tracker_for dir s t \<Longrightarrow> tracker_for dir s t1"
  by (auto simp: traded_def Let_def intro: tracker_for_buy dest: tracker_for_sell)

text \<open>Items in order of their keys, each of which fits its key.\<close>

definition items_ok :: "('k :: linorder \<Rightarrow> 'v \<Rightarrow> bool) \<Rightarrow> ('k, 'v) items \<Rightarrow> bool" where
  "items_ok P its \<longleftrightarrow> ordered_items its \<and> (\<forall>(k, v) \<in> set its. P k v)"

lemma items_ok_put: "items_ok P its \<Longrightarrow> P k v \<Longrightarrow> items_ok P (put_item (k, v) its)"
  by (auto simp: items_ok_def ordered_put put_item_set)

lemma items_ok_get: "items_ok P its \<Longrightarrow> map_of its k = Some v \<Longrightarrow> P k v"
  by (auto simp: items_ok_def dest: map_of_SomeD)

text \<open>
  The invariant of the book, for what is said of a queued order. As long as operations return, queued orders are new
  ones; an exception leaves finished orders among them.
\<close>

definition book_of :: "(Symbol \<Rightarrow> CerebroOrder \<Rightarrow> bool) \<Rightarrow> CerebroBroker \<Rightarrow> bool" where
  "book_of Q b \<longleftrightarrow>
     items_ok (\<lambda>s os. \<forall>ord \<in> set os. Q s ord) (cb_unfill_orders b) \<and>
     items_ok (tracker_for PD_LONG) (cb_lpositions b) \<and>
     items_ok (tracker_for PD_SHORT) (cb_spositions b) \<and>
     (\<forall>ord \<in> set (cb_filled_orders b). done_status ord)"

definition queued :: "Symbol \<Rightarrow> CerebroOrder \<Rightarrow> bool" where
  "queued s ord \<longleftrightarrow> fresh s ord \<or> done_status ord \<and> co_symbol ord = s"

abbreviation book_ok :: "CerebroBroker \<Rightarrow> bool" where "book_ok \<equiv> book_of fresh"

lemmas book_ok_def = book_of_def [of fresh]

definition order_kind :: "(Symbol \<Rightarrow> CerebroOrder \<Rightarrow> bool) \<Rightarrow> bool" where
  "order_kind Q \<longleftrightarrow> (\<forall>s ord. (fresh s ord \<longrightarrow> Q s ord) \<and> (Q s ord \<longrightarrow> queued s ord))"

lemma order_kinds [simp]: "order_kind fresh" "order_kind queued"
  by (simp_all add: order_kind_def queued_def)

lemma book_of_queued: "book_of Q b \<Longrightarrow> order_kind Q \<Longrightarrow> book_of queued b"
  by (fastforce simp: book_of_def items_ok_def order_kind_def)

lemma fresh_not_done: "fresh s ord \<Longrightarrow> \<not> done_status ord"
  by (simp add: fresh_def done_status_def)

lemma long_tracker_ok: "items_ok (tracker_for PD_LONG) (cb_lpositions b) \<Longrightarrow> tracker_for PD_LONG s (long_tracker s b)"
  by (auto simp: long_tracker_def split: option.splits dest: items_ok_get)

lemma open_long_ok: "items_ok (tracker_for PD_LONG) (cb_lpositions b) \<Longrightarrow>
    items_ok (tracker_for PD_LONG) (cb_lpositions (open_long s b))"
  by (simp add: open_long_eq items_ok_put)

text \<open>One order of a queue, and the queue, when nothing is thrown.\<close>

lemma match_one_book:
  assumes "match_one tick ord b = Inr (o1, so, b1)" "queued s ord" "items_ok (tracker_for PD_LONG) (cb_lpositions b)"
  shows "same_frame b b1 \<and> items_ok (tracker_for PD_LONG) (cb_lpositions b1) \<and>
      cb_filled_orders b1 = cb_filled_orders b @ filter done_status [o1] \<and>
      queued s o1 \<and> (\<forall>ord \<in> set so. fresh s ord)"
proof (cases "fresh s ord")
  case True
  note nd = fresh_def done_status_def queued_def
  show ?thesis
    using assms(1) True
  proof (cases rule: match_one_cases)
    case waits
    then show ?thesis using assms(3) open_long_ok by (auto simp: nd)
  next
    case rejects
    then show ?thesis using assms(3) open_long_ok by (auto simp: nd)
  next
    case (fills t1)
    have "tracker_for PD_LONG s t1"
      using tracker_for_traded [OF fills(10)] long_tracker_ok [OF assms(3)] by simp
    then have "items_ok (tracker_for PD_LONG) (cb_lpositions b1)"
      using items_ok_put [OF open_long_ok [OF assms(3)]] by (simp add: fills(11))
    moreover have "\<forall>ord \<in> set so. fresh s ord"
      using fills(2, 7) by (auto simp: rest_of_def split: if_splits)
    ultimately show ?thesis using fills by (simp add: done_status_def queued_def)
  qed
next
  case False
  then have "done_status ord" "co_symbol ord = s" using assms(2) by (auto simp: queued_def)
  then show ?thesis using assms(1, 3) by (auto simp: match_one_def queued_def)
qed

lemma match_queue_queued:
  assumes "match_queue tick os b = Inr (os1, sos, c)" "\<forall>ord \<in> set os. queued s ord"
    "items_ok (tracker_for PD_LONG) (cb_lpositions b)"
  shows "same_frame b c \<and> items_ok (tracker_for PD_LONG) (cb_lpositions c) \<and>
    cb_filled_orders c = cb_filled_orders b @ filter done_status os1 \<and>
    (\<forall>ord \<in> set os1. queued s ord) \<and> (\<forall>ord \<in> set sos. fresh s ord)"
  using assms
proof (induction os arbitrary: b os1 sos)
  case (Cons ord os)
  obtain o1 so b1 os2 sos2 where M: "match_one tick ord b = Inr (o1, so, b1)"
    "match_queue tick os b1 = Inr (os2, sos2, c)" "os1 = o1 # os2" "sos = so @ sos2"
    using Cons.prems(1) by (auto simp: rbind_eq_Inr)
  have fr: "queued s ord" and frs: "\<forall>ord \<in> set os. queued s ord" using Cons.prems(2) by auto
  note one = match_one_book [OF M(1) fr Cons.prems(3)]
  have "same_frame b1 c \<and> items_ok (tracker_for PD_LONG) (cb_lpositions c) \<and>
      cb_filled_orders c = cb_filled_orders b1 @ filter done_status os2 \<and>
      (\<forall>ord \<in> set os2. queued s ord) \<and> (\<forall>ord \<in> set sos2. fresh s ord)"
    using Cons.IH [OF M(2) frs] one by blast
  then show ?case using one M(3, 4) same_frame_trans [of b b1 c] by auto
qed simp

lemma match_queue_book:
  assumes "match_queue tick os b = Inr (os1, sos, c)" "\<forall>ord \<in> set os. fresh s ord"
    "items_ok (tracker_for PD_LONG) (cb_lpositions b)"
  shows "same_frame b c \<and> items_ok (tracker_for PD_LONG) (cb_lpositions c) \<and>
    cb_filled_orders c = cb_filled_orders b @ filter done_status os1 \<and>
    (\<forall>ord \<in> set os1. fresh s ord \<or> done_status ord) \<and> (\<forall>ord \<in> set sos. fresh s ord)"
  using match_queue_queued [OF assms(1) _ assms(3), of s] assms(2) by (auto simp: queued_def)

text \<open>
  One order of a queue when its match throws: it is left waiting, or filled with a sale of what is not held; the missing
  generator, for the rest, is noticed when the order is among the finished ones.
\<close>

lemma matcher_thrown:
  assumes "matcher_match mt tick ord b = Inl (e, o1, c)" "thrown e"
  shows "e = OutOfRange \<and> (o1 = ord \<or> (\<exists>p. o1 = ord\<lparr>co_filled_price := p\<rparr>)) \<and>
    (c = b \<or> c = open_long (co_symbol ord) b)"
proof -
  have at: "at0 xs = Inl x \<longleftrightarrow> xs = [] \<and> x = OutOfRange" for xs :: "double list" and x
    by (auto simp: at0_def split: list.splits)
  have acc: "the_account x = Inl y \<Longrightarrow> y = MemFault" "on_account f x = Inl y \<Longrightarrow> y = MemFault" for f x y
    by (auto simp: the_account_def on_account_def rbind_eq_Inl split: option.splits)
  show ?thesis
    using assms
    by (auto simp: matcher_match_def process_market_order_def process_limit_order_def buy_at_def sell_at_def
        rbind_eq_Inl left_Inl at Let_def dest!: acc split: if_splits ORDER_TYPE.splits)
qed

lemma on_order_update_thrown:
  assumes "on_order_update ord b = Inl (e, c)"
  shows "e = LogicError \<and> c = open_long (co_symbol ord) b \<and> co_status ord = OS_FILLED"
proof -
  have "tracker_sell q p x t = Inl y \<Longrightarrow> y = LogicError" for q p x t y
    by (auto simp: tracker_sell_def Let_def split: if_splits)
  then show ?thesis
    using assms by (auto simp: on_order_update_def Let_def rbind_eq_Inl left_Inl split: if_splits)
qed

lemma open_long_ids [simp]: "cb_ids (open_long s b) = cb_ids b" by (simp add: open_long_eq)

lemma after_match_thrown:
  assumes "after_match ord b = Inl (e, o1, c)" "thrown e" "co_symbol ord = s" "co_unfilled_quantity ord \<noteq> d0 \<longrightarrow> co_status ord = OS_FILLED"
    "items_ok (tracker_for PD_LONG) (cb_lpositions b)"
    "co_status ord = OS_FILLED \<longrightarrow> co_action ord \<in> {OA_BUY, OA_SELL}"
  shows "same_frame b c \<and> items_ok (tracker_for PD_LONG) (cb_lpositions c) \<and> o1 = ord \<and> co_status ord = OS_FILLED \<and>
    cb_ids c = cb_ids b \<and>
    (if e = BadFunctionCall then cb_filled_orders c = cb_filled_orders b @ [ord]
     else e = LogicError \<and> cb_filled_orders c = cb_filled_orders b)"
proof (cases "on_order_update ord b")
  case (Inl x)
  obtain y d where x: "x = (y, d)" by fastforce
  then have "e = y \<and> o1 = ord \<and> c = d" using assms(1) Inl by (simp add: after_match_def)
  with on_order_update_thrown [OF Inl [unfolded x]] show ?thesis
    using assms(3, 5) open_long_ok by (auto simp: open_long_eq same_frame_def)
next
  case (Inr b1)
  define b2 where "b2 = (if co_status ord \<noteq> OS_PENDING_NEW then notify ord b1 else b1)"
  define b3 where "b3 = (if done_status ord then add_filled ord b2 else b2)"
  have T: "(if almost_ne (co_unfilled_quantity ord) d0 epsilon
      then rbind (left_at (ord, b3) (suborder ord b3)) (\<lambda>(so, b4). Inr (ord, [so], b4)) else Inr (ord, [], b3)) = Inl (e, o1, c)"
    using assms(1) by (simp only: after_match_def Inr left_simps rbind_simps Let_def b2_def b3_def)
  then have ne: "almost_ne (co_unfilled_quantity ord) d0 epsilon" by (auto split: if_splits)
  then have st: "co_status ord = OS_FILLED" using assms(4) by auto
  have S: "suborder ord b3 = Inl e" "o1 = ord" "c = b3" using T ne by (auto simp: rbind_eq_Inl left_Inl)
  from S(1) have e: "e = BadFunctionCall"
    by (auto simp: suborder_def rbind_eq_Inl next_order_id_def Let_def split: option.splits prod.splits)
  obtain t1 where t1: "traded ord (long_tracker s b) t1" "b1 = put_long s t1 (open_long s b)"
    using on_order_update_fills [OF Inr st] assms(3, 6) st by metis
  have "tracker_for PD_LONG s t1" using tracker_for_traded [OF t1(1)] long_tracker_ok [OF assms(5)] by simp
  then have "items_ok (tracker_for PD_LONG) (cb_lpositions b1)"
    using items_ok_put [OF open_long_ok [OF assms(5)]] by (simp add: t1(2) put_long_def)
  then show ?thesis
    using st e S(2, 3) by (simp add: b2_def b3_def done_status_def t1(2) add_filled_def notify_def put_long_def open_long_eq same_frame_def)
qed

lemma match_one_thrown:
  assumes "match_one tick ord b = Inl (e, o1, c)" "thrown e" "queued s ord" "items_ok (tracker_for PD_LONG) (cb_lpositions b)"
  shows "same_frame b c \<and> items_ok (tracker_for PD_LONG) (cb_lpositions c) \<and> queued s o1 \<and> co_order_id o1 = co_order_id ord \<and>
    cb_ids c = cb_ids b \<and>
    (if e = BadFunctionCall then done_status o1 \<and> cb_filled_orders c = cb_filled_orders b @ [o1]
     else cb_filled_orders c = cb_filled_orders b)"
proof -
  have nd: "\<not> done_status ord" using assms(1) by (auto simp: match_one_def)
  then have fr: "fresh s ord" and ord: "co_symbol ord = s" "co_unfilled_quantity ord = d0" "co_status ord = OS_PENDING_NEW"
    using assms(3) by (auto simp: queued_def fresh_def)
  obtain mt where mt: "map_of (cb_matchers b) (exchange_of (co_symbol ord)) = Some mt"
    using assms(1) nd by (auto simp: match_one_def split: option.splits)
  show ?thesis
  proof (cases "matcher_match mt tick ord b")
    case (Inl x)
    obtain y m1 d where x: "x = (y, m1, d)" by (metis prod_cases3)
    have "e = y \<and> o1 = m1 \<and> c = d" using assms(1) nd mt Inl x by (simp add: match_one_def)
    with matcher_thrown [OF Inl [unfolded x]] show ?thesis
      using assms(2, 4) fr ord(1) open_long_ok [OF assms(4)]
      by (auto simp: queued_def fresh_def is_special_order_def)
  next
    case (Inr x)
    obtain rc m1 d where x: "x = (rc, m1, d)" by (metis prod_cases3)
    define d2 where "d2 = snd (now_ms d)"
    define o2 where "o2 = m1\<lparr>co_mtime := fst (now_ms d)\<rparr>"
    note M = Inr [unfolded x]
    have A: "after_match o2 d2 = Inl (e, o1, c)"
      using assms(1) nd mt M by (auto simp: match_one_def Let_def case_prod_unfold o2_def d2_def split: if_splits)
    have q: "only_opens s b d2"
      using matcher_only_opens [OF M] ord(1) by (auto simp: only_opens_def d2_def now_ms_def same_frame_def)
    have i: "items_ok (tracker_for PD_LONG) (cb_lpositions d2)"
      using q assms(4) open_long_ok by (auto simp: only_opens_def)
    have ids: "co_order_id (fill_order w tick p v ord) = co_order_id ord" for w p v by (simp add: fill_order_def Let_def)
    have "co_symbol m1 = s \<and> (co_unfilled_quantity m1 \<noteq> d0 \<longrightarrow> co_status m1 = OS_FILLED) \<and>
      (co_status m1 = OS_FILLED \<longrightarrow> co_action m1 \<in> {OA_BUY, OA_SELL}) \<and> co_order_id m1 = co_order_id ord \<and> cb_ids d = cb_ids b"
      using M
    proof (cases rule: matcher_cases)
      case kept
      then show ?thesis using ord by auto
    next
      case (rejected y)
      then show ?thesis using ord by (auto simp: reject_def)
    next
      case (bought w p vol)
      then show ?thesis using ord by (simp add: ids)
    next
      case (sold w p vol)
      then show ?thesis using ord by (simp add: ids)
    qed
    then have o2: "co_symbol o2 = s" "co_unfilled_quantity o2 \<noteq> d0 \<longrightarrow> co_status o2 = OS_FILLED"
      "co_status o2 = OS_FILLED \<longrightarrow> co_action o2 \<in> {OA_BUY, OA_SELL}" "co_order_id o2 = co_order_id ord" "cb_ids d2 = cb_ids b"
      by (simp_all add: o2_def d2_def now_ms_def)
    have "same_frame b c" if "same_frame d2 c" using q that same_frame_trans by (auto simp: only_opens_def)
    moreover have "cb_filled_orders d2 = cb_filled_orders b" using q by (simp add: only_opens_def)
    ultimately show ?thesis
      using after_match_thrown [OF A assms(2) o2(1, 2) i o2(3)] o2 
      by (auto simp: queued_def done_status_def)
  qed
qed


lemma match_queue_thrown:
  assumes "match_queue tick os b = Inl (e, os1, c)" "thrown e" "\<forall>ord \<in> set os. queued s ord"
    "items_ok (tracker_for PD_LONG) (cb_lpositions b)"
  obtains pre ord post pre1 ord1 where "os = pre @ ord # post" "os1 = pre1 @ ord1 # post" "length pre1 = length pre"
    "same_frame b c" "items_ok (tracker_for PD_LONG) (cb_lpositions c)" "\<forall>ord \<in> set os1. queued s ord"
    "co_order_id ord1 = co_order_id ord"
    "cb_filled_orders c = cb_filled_orders b @ filter done_status pre1 @ (if e = BadFunctionCall then [ord1] else [])"
    "e = BadFunctionCall \<longrightarrow> done_status ord1"
  using assms
proof (induction os arbitrary: b os1 thesis)
  case (Cons ord os)
  have qs: "queued s ord" "\<forall>ord \<in> set os. queued s ord" using Cons.prems(4) by auto
  show ?case
  proof (cases "match_one tick ord b")
    case (Inl x)
    obtain y o1 d where x: "x = (y, o1, d)" by (metis prod_cases3)
    have E: "e = y" "os1 = o1 # os" "c = d" using Cons.prems(2) Inl x by simp_all
    have "match_one tick ord b = Inl (e, o1, c)" using Inl x E by simp
    note L = match_one_thrown [OF this Cons.prems(3) qs(1) Cons.prems(5)]
    show ?thesis
      by (rule Cons.prems(1) [of "[]" ord os "[]" o1]) (use L E(2) qs in \<open>auto split: if_splits\<close>)
  next
    case (Inr x)
    obtain o1 so d where x: "x = (o1, so, d)" by (metis prod_cases3)
    note M = match_one_book [OF Inr [unfolded x] qs(1) Cons.prems(5)]
    obtain os2 where T: "match_queue tick os d = Inl (e, os2, c)" and os1: "os1 = o1 # os2"
      using Cons.prems(2) Inr x by (auto simp: rbind_eq_Inl left_Inl)
    have i: "items_ok (tracker_for PD_LONG) (cb_lpositions d)" using M by simp
    obtain pre ordx post pre1 ord1 where R: "os = pre @ ordx # post" "os2 = pre1 @ ord1 # post" "length pre1 = length pre"
      "same_frame d c" "items_ok (tracker_for PD_LONG) (cb_lpositions c)" "\<forall>ord \<in> set os2. queued s ord"
      "co_order_id ord1 = co_order_id ordx"
      "cb_filled_orders c = cb_filled_orders d @ filter done_status pre1 @ (if e = BadFunctionCall then [ord1] else [])"
      "e = BadFunctionCall \<longrightarrow> done_status ord1"
      by (rule Cons.IH [OF _ T Cons.prems(3) qs(2) i])
    have "same_frame b c" using M R(4) same_frame_trans by blast
    then show ?thesis
      using R M os1 by (intro Cons.prems(1) [of "ord # pre" ordx post "o1 # pre1" ord1]) auto
  qed
qed simp



section \<open>The operations of a broker\<close>

datatype broker_op =
    OpGenerator "nat \<Rightarrow> i64" | OpCallback | OpMatcher bytes matcher | OpInit CerebroAccountWrap
  | OpInitConf CerebroConfig | OpDate i32
  | OpBuy Symbol double double | OpSell Symbol double double
  | OpBuyToCover Symbol double double | OpSellShort Symbol double double
  | OpDividend Symbol double double | OpCancel i64 | OpDeposit double bool | OpWithdraw double
  | OpTick CerebroTickRecord | OpSettle "CerebroKlineRecord list"

fun do_op :: "broker_op \<Rightarrow> CerebroBroker \<Rightarrow> (CerebroBroker, CerebroBroker) run" where
  "do_op (OpGenerator g) b = Inr (set_order_id_generator g b)"
| "do_op OpCallback b = Inr (set_order_update_callback b)"
| "do_op (OpMatcher e m) b = Inr (set_matcher e m b)"
| "do_op (OpInit w) b = Inr (broker_init w b)"
| "do_op (OpInitConf conf) b = Inr (broker_init_conf conf b)"
| "do_op (OpDate dt) b = Inr (set_date dt b)"
| "do_op (OpBuy s q p) b = left_at b (rbind (broker_buy s q p b) (\<lambda>(i, c). Inr c))"
| "do_op (OpSell s q p) b = left_at b (rbind (broker_sell s q p b) (\<lambda>(i, c). Inr c))"
| "do_op (OpBuyToCover s q p) b = left_at b (rbind (broker_buy_to_cover s q p b) (\<lambda>(i, c). Inr c))"
| "do_op (OpSellShort s q p) b = left_at b (rbind (broker_sell_short s q p b) (\<lambda>(i, c). Inr c))"
| "do_op (OpDividend s q p) b = left_at b (rbind (dividend_order s q p b) (\<lambda>(i, c). Inr c))"
| "do_op (OpCancel i) b = left_at b (rbind (cancel_order i b) (\<lambda>(i, c). Inr c))"
| "do_op (OpDeposit x f) b = left_at b (rbind (deposit_cash x f b) (\<lambda>(i, c). Inr c))"
| "do_op (OpWithdraw x) b = left_at b (rbind (withdraw_cash x b) (\<lambda>(i, c). Inr c))"
| "do_op (OpTick t) b = on_tick t b"
| "do_op (OpSettle rs) b = left_at b (settle rs b)"

text \<open>The states a run of operations without a fault leads to.\<close>

inductive reaches :: "CerebroBroker \<Rightarrow> CerebroBroker \<Rightarrow> bool" for b where
  start: "reaches b b"
| step: "reaches b c \<Longrightarrow> do_op op' c = Inr d \<Longrightarrow> reaches b d"

text \<open>The book after an operation, with what the finished orders have gained.\<close>

definition grows_of :: "(Symbol \<Rightarrow> CerebroOrder \<Rightarrow> bool) \<Rightarrow> CerebroBroker \<Rightarrow> CerebroBroker \<Rightarrow> bool" where
  "grows_of Q b c \<longleftrightarrow> book_of Q c \<and> (\<exists>os. cb_filled_orders c = cb_filled_orders b @ os)"

lemma book_grows_trans: "grows_of Q a b \<Longrightarrow> grows_of Q b c \<Longrightarrow> grows_of Q a c"
  by (auto simp: grows_of_def)

lemma book_grows_same:
  assumes "book_of Q b" "cb_unfill_orders c = cb_unfill_orders b" "cb_lpositions c = cb_lpositions b"
    "cb_spositions c = cb_spositions b" "cb_filled_orders c = cb_filled_orders b"
  shows "grows_of Q b c"
  using assms by (auto simp: grows_of_def book_of_def)

lemma special_order_book:
  assumes "process_special_order ord b = Inr (rc, c)" "book_of Q b"
  shows "grows_of Q b c"
proof -
  have lt: "items_ok (tracker_for PD_LONG) (cb_lpositions b)" using assms(2) by (simp add: book_of_def)
  have put: "grows_of Q b (put_long s t (open_long s b)\<lparr>cb_account := a\<rparr>)" if "tracker_for PD_LONG s t" for s t a
    using assms(2) items_ok_put [OF open_long_ok [OF lt] that]
    by (auto simp: grows_of_def book_of_def put_long_def) (simp_all add: open_long_eq split: if_splits)
  have opn: "grows_of Q b (open_long s b)" for s
    using assms(2) open_long_ok [OF lt]
    by (auto simp: grows_of_def book_of_def) (simp_all add: open_long_eq split: if_splits)
  have same: "grows_of Q b (b\<lparr>cb_account := a\<rparr>)" "grows_of Q b b" for a
    using assms(2) by (auto intro: book_grows_same)
  show ?thesis
    using assms(1) same
    by (auto simp: process_special_order_def Let_def rbind_eq_Inr on_account_Inr case_prod_unfold
        intro!: put opn tracker_for_buy long_tracker_ok lt split: ORDER_ACTION.splits if_splits)
qed

lemma commit_order_book:
  assumes "commit_order ord b = Inr c" "book_of Q b"
    "co_status ord = OS_PENDING_NEW \<and> co_unfilled_quantity ord = d0 \<or> done_status ord" "order_kind Q"
  shows "grows_of Q b c"
proof (cases "co_status ord = OS_PENDING_NEW \<and> \<not> is_special_order ord")
  case True
  have "fresh (co_symbol ord) ord" using True assms(3) by (auto simp: fresh_def done_status_def)
  then have "Q (co_symbol ord) ord" using assms(4) by (simp add: order_kind_def)
  moreover have "\<forall>x \<in> set (unfilled_of (co_symbol ord) b). Q (co_symbol ord) x"
    using assms(2) items_ok_get [of _ "cb_unfill_orders b" "co_symbol ord"]
    by (cases "map_of (cb_unfill_orders b) (co_symbol ord)") (auto simp: unfilled_of_def book_of_def)
  ultimately show ?thesis
    using True assms(1, 2)
    by (auto simp: commit_order_def grows_of_def book_of_def put_unfilled_def intro!: items_ok_put)
next
  case False
  have add: "grows_of Q d (add_filled x e)" if "grows_of Q d e" "done_status x" for d e x
    using that by (auto simp: grows_of_def book_of_def add_filled_def)
  have now: "grows_of Q d e" if "now_ms d = (t, e)" "book_of Q d" for d e t
    using that by (auto simp: now_ms_def intro!: book_grows_same)
  show ?thesis
  proof (cases "co_status ord = OS_PENDING_NEW")
    case True
    then obtain rc b1 where P: "process_special_order ord b = Inr (rc, b1)"
      "c = add_filled (ord\<lparr>co_ctime := fst (now_ms b1), co_status := (if rc \<noteq> 0 then OS_REJECTED else OS_FILLED),
         co_trading_date := cb_current_dt (snd (now_ms b1))\<rparr>) (snd (now_ms b1))"
      using False assms(1) by (auto simp: commit_order_def rbind_eq_Inr case_prod_unfold Let_def)
    have "grows_of Q b b1" by (rule special_order_book [OF P(1) assms(2)])
    then have "grows_of Q b (snd (now_ms b1))"
      using now [OF surjective_pairing] book_grows_trans by (auto simp: grows_of_def)
    then show ?thesis unfolding P(2) by (rule add) (simp add: done_status_def)
  next
    case False
    then show ?thesis
      using assms add [of b b ord] by (auto simp: commit_order_def grows_of_def)
  qed
qed


lemma submit_book:
  assumes "submit s q p st ty ac b = Inr (i, c)" "book_of Q b" "st \<in> {OS_PENDING_NEW, OS_FILLED}" "order_kind Q"
  shows "grows_of Q b c"
proof -
  define d where "d = b\<lparr>cb_ids := Suc (cb_ids b), cb_clock_calls := Suc (Suc (cb_clock_calls b))\<rparr>"
  have d: "grows_of Q b d" using assms(2) by (auto simp: d_def intro!: book_grows_same)
  obtain x where "commit_order x d = Inr c" "co_unfilled_quantity x = d0" "co_status x = st"
    using assms(1)
    by (force simp: submit_def rbind_eq_Inr next_order_id_def now_ms_def Let_def order_zero_def d_def
        split: option.splits)
  then show ?thesis
    using commit_order_book [of x d c Q] book_grows_trans [OF d] d assms(3, 4) by (auto simp: grows_of_def done_status_def)
qed

lemma notify_all_frame:
  "same_frame b (foldl (\<lambda>x ord. notify ord x) b os)"
  "cb_lpositions (foldl (\<lambda>x ord. notify ord x) b os) = cb_lpositions b"
  "cb_filled_orders (foldl (\<lambda>x ord. notify ord x) b os) = cb_filled_orders b"
  "cb_account (foldl (\<lambda>x ord. notify ord x) b os) = cb_account b"
proof (induction os arbitrary: b)
  case (Cons x os)
  { case 1 show ?case using Cons(1) [of "notify x b"] same_frame_trans [OF notify_frame(1)] by simp
  next case 2 show ?case using Cons(2) [of "notify x b"] by simp
  next case 3 show ?case using Cons(3) [of "notify x b"] by simp
  next case 4 show ?case using Cons(4) [of "notify x b"] by simp }
qed simp_all

lemma process_normal_order_book:
  assumes "process_normal_order tick b = Inr c" "book_of Q b" "order_kind Q"
  shows "grows_of Q b c"
proof (cases "map_of (cb_unfill_orders b) (ct_symbol tick)")
  case None
  then show ?thesis using assms by (simp add: process_normal_order_def book_grows_same)
next
  case (Some os)
  let ?s = "ct_symbol tick"
  obtain os1 sos b1 where M: "match_queue tick os b = Inr (os1, sos, b1)"
    and c: "c = put_unfilled ?s (filter (\<lambda>ord. \<not> done_status ord) os1 @ sos) (foldl (\<lambda>x ord. notify ord x) b1 sos)"
    using assms(1) Some by (auto simp: process_normal_order_def rbind_eq_Inr)
  have "\<forall>ord \<in> set os. Q ?s ord"
    using assms(2) Some items_ok_get [of _ "cb_unfill_orders b" ?s os] by (auto simp: book_of_def)
  then have "\<forall>ord \<in> set os. queued ?s ord" using assms(3) by (simp add: order_kind_def)
  note q = match_queue_queued [OF M this]
  have "items_ok (tracker_for PD_LONG) (cb_lpositions b)" using assms(2) by (simp add: book_of_def)
  note q = q [OF this]
  have "\<forall>ord \<in> set (filter (\<lambda>ord. \<not> done_status ord) os1 @ sos). Q ?s ord"
    using q assms(3) by (auto simp: queued_def order_kind_def)
  then have "book_of Q c"
    using q assms(2) notify_all_frame [of b1 sos]
    by (auto simp: book_of_def c put_unfilled_def same_frame_def intro!: items_ok_put)
  moreover have "cb_filled_orders c = cb_filled_orders b @ filter done_status os1"
    using q notify_all_frame(3) [of b1 sos] by (simp add: c put_unfilled_def)
  ultimately show ?thesis by (auto simp: grows_of_def)
qed

lemma update_account_book: "update_account b = Inr c \<Longrightarrow> book_of Q b \<Longrightarrow> grows_of Q b c"
  by (auto simp: update_account_def on_account_Inr intro!: book_grows_same)

lemma position_update_book: "book_of Q b \<Longrightarrow> grows_of Q b (do_position_update tick b)"
  by (auto simp: grows_of_def book_of_def do_position_update_def Let_def tracker_update_tick_def
      intro!: items_ok_put tracker_for_pnl split: option.splits dest: items_ok_get)

lemma on_tick_book:
  assumes "on_tick tick b = Inr c" "book_of Q b" "order_kind Q"
  shows "grows_of Q b c"
proof -
  define b1 where "b1 = (if has_position (ct_symbol tick) b then do_position_update tick b else b)"
  obtain b2 where P: "process_normal_order tick b1 = Inr b2" "update_account (do_position_update tick b2) = Inr c"
    using assms(1) by (auto simp: on_tick_def rbind_eq_Inr Let_def b1_def)
  have "grows_of Q b b1" using assms(2) position_update_book by (simp add: b1_def book_grows_same)
  then show ?thesis
    using process_normal_order_book [OF P(1)] position_update_book [of Q b2 tick] update_account_book [OF P(2)]
      book_grows_trans assms(3) by (meson grows_of_def)
qed

lemma settle_one_book:
  assumes "settle_one r b = Inr c" "book_of Q b"
  shows "grows_of Q b c"
  using assms
  by (auto simp: settle_one_def Let_def grows_of_def book_of_def put_long_def
      intro!: items_ok_put tracker_for_settle split: option.splits if_splits dest: items_ok_get)

lemma settle_all_book: "settle_all rs b = Inr c \<Longrightarrow> book_of Q b \<Longrightarrow> grows_of Q b c"
proof (induction rs arbitrary: b)
  case (Cons r rs)
  then obtain d where "settle_one r b = Inr d" "settle_all rs d = Inr c" by (auto simp: rbind_eq_Inr)
  then show ?case
    using Cons settle_one_book book_grows_trans by (meson grows_of_def)
qed (simp add: book_grows_same)

lemma remove_trackers_same: "remove_trackers ts b = Inr c \<Longrightarrow> c = b"
proof (induction ts arbitrary: b)
  case (Cons t ts)
  then obtain d where "remove_tracker (cp_symbol (pt_position t)) (cp_direction (pt_position t)) b = Inr d"
    "remove_trackers ts d = Inr c" by (auto simp: rbind_eq_Inr)
  moreover from this(1) have "d = b" by (auto simp: remove_tracker_def split: if_splits)
  ultimately show ?case using Cons.IH by simp
qed simp

lemma settle_book:
  assumes "settle rs b = Inr c" "book_of Q b"
  shows "grows_of Q b c"
proof -
  obtain d e where "settle_all rs b = Inr d" "update_account d = Inr e" "remove_trackers (get_all_tracker e) e = Inr c"
    using assms(1) by (auto simp: settle_def rbind_eq_Inr)
  then show ?thesis
    using settle_all_book update_account_book assms(2) book_grows_trans remove_trackers_same
    by (metis grows_of_def)
qed

lemma do_op_book:
  assumes "do_op op' b = Inr c" "book_of Q b" "order_kind Q"
  shows "grows_of Q b c"
  using assms
  by (cases op')
    (auto simp: rbind_eq_Inr broker_buy_def broker_sell_def broker_buy_to_cover_def broker_sell_short_def
      dividend_order_def cancel_order_def deposit_cash_def withdraw_cash_def set_order_id_generator_def
      set_order_update_callback_def set_matcher_def broker_init_def broker_init_conf_def set_date_def
      intro: book_grows_same submit_book on_tick_book settle_book split: if_splits)

abbreviation book_grows :: "CerebroBroker \<Rightarrow> CerebroBroker \<Rightarrow> bool" where "book_grows \<equiv> grows_of fresh"

lemmas book_grows_def = grows_of_def [of fresh]

lemma reaches_book: "reaches b c \<Longrightarrow> book_ok b \<Longrightarrow> book_grows b c"
proof (induction rule: reaches.induct)
  case start
  then show ?case by (simp add: book_grows_same)
next
  case (step c op' d)
  then show ?case using do_op_book book_grows_trans order_kinds by (meson grows_of_def)
qed

section \<open>Operations that throw\<close>

lemma process_normal_order_thrown:
  assumes "process_normal_order tick b = Inl (e, c)" "thrown e" "book_of queued b"
  shows "grows_of queued b c"
proof -
  let ?s = "ct_symbol tick"
  obtain os os1 d where os: "map_of (cb_unfill_orders b) ?s = Some os" "match_queue tick os b = Inl (e, os1, d)"
    and c: "c = put_unfilled ?s os1 d"
    using assms(1) by (auto simp: process_normal_order_def rbind_eq_Inl left_Inl split: option.splits)
  have q: "\<forall>ord \<in> set os. queued ?s ord" and i: "items_ok (tracker_for PD_LONG) (cb_lpositions b)"
    using assms(3) os(1) items_ok_get [of _ "cb_unfill_orders b" ?s os] by (auto simp: book_of_def)
  obtain pre1 ord1 post where "same_frame b d" "items_ok (tracker_for PD_LONG) (cb_lpositions d)" "\<forall>ord \<in> set os1. queued ?s ord"
    "cb_filled_orders d = cb_filled_orders b @ filter done_status pre1 @ (if e = BadFunctionCall then [ord1] else [])"
    "e = BadFunctionCall \<longrightarrow> done_status ord1"
    by (rule match_queue_thrown [OF os(2) assms(2) q i])
  then show ?thesis
    using assms(3) by (auto simp: grows_of_def book_of_def c put_unfilled_def same_frame_def intro!: items_ok_put)
qed

lemma update_account_faults: "thrown e \<Longrightarrow> update_account b \<noteq> Inl e"
  by (auto simp: update_account_def on_account_def the_account_def rbind_eq_Inl split: option.splits)

lemma on_tick_thrown:
  assumes "on_tick tick b = Inl (e, c)" "thrown e" "book_of queued b"
  shows "grows_of queued b c"
proof -
  define b1 where "b1 = (if has_position (ct_symbol tick) b then do_position_update tick b else b)"
  have P: "process_normal_order tick b1 = Inl (e, c)"
    using assms(1, 2) update_account_faults by (auto simp: on_tick_def Let_def b1_def rbind_eq_Inl left_Inl)
  have "grows_of queued b b1" using assms(3) position_update_book by (simp add: b1_def book_grows_same)
  then show ?thesis
    using process_normal_order_thrown [OF P assms(2)] book_grows_trans by (meson grows_of_def)
qed

lemma do_op_thrown:
  assumes "do_op op' b = Inl (e, c)" "thrown e" "book_of queued b"
  shows "grows_of queued b c"
  using assms by (cases op') (auto simp: left_Inl intro: on_tick_thrown book_grows_same)

text \<open>The states that a run of operations leads to which return or throw.\<close>

inductive endures :: "CerebroBroker \<Rightarrow> CerebroBroker \<Rightarrow> bool" for b where
  start: "endures b b"
| step: "endures b c \<Longrightarrow> do_op op' c = Inr d \<Longrightarrow> endures b d"
| throw: "endures b c \<Longrightarrow> do_op op' c = Inl (e, d) \<Longrightarrow> thrown e \<Longrightarrow> endures b d"

lemma endures_book: "endures b c \<Longrightarrow> book_of queued b \<Longrightarrow> grows_of queued b c"
proof (induction rule: endures.induct)
  case start
  then show ?case by (simp add: book_grows_same)
next
  case (step c op' d)
  then show ?case using do_op_book book_grows_trans order_kinds(2) by (meson grows_of_def)
next
  case (throw c op' e d)
  then show ?case using do_op_thrown book_grows_trans by (meson grows_of_def)
qed

lemma broker_start_ok: "book_of Q (broker_new clk)"
  by (simp add: book_of_def broker_new_def items_ok_def)



text \<open>
  The broker of the examples: an account, an order generator and the two matchers. A run is evaluated step by step:
  what follows a step is only looked at once the step has a result.
\<close>

declare rbind_def [code_unfold] left_at_def [code_unfold] left_in_def [code_unfold]

definition demo_sym :: Symbol where "demo_sym = text_bytes ''600000.SH''"

definition demo_clock :: "nat \<Rightarrow> i64" where "demo_clock n = word_of_nat n"
definition demo_ids :: "nat \<Rightarrow> i64" where "demo_ids n = 1000000 + word_of_nat n"

definition demo_ops :: "broker_op list" where
  "demo_ops = [OpGenerator demo_ids, OpInit (aw_new 1 []),
     OpMatcher (text_bytes ''SH'') SSEMatcher, OpMatcher (text_bytes ''SZ'') SZSEMatcher]"

definition demo_tick :: "int \<Rightarrow> int \<Rightarrow> CerebroTickRecord" where
  "demo_tick price vol =
     tick_zero\<lparr>ct_symbol := demo_sym, ct_last := d_of_int price, ct_ask_vols := [d_of_int vol],
       ct_bid_vols := [d_of_int vol], ct_bids := [d_of_int price]\<rparr>"

fun do_ops :: "broker_op list \<Rightarrow> CerebroBroker \<Rightarrow> (CerebroBroker, CerebroBroker) run" where
  "do_ops [] b = Inr b"
| "do_ops (x # xs) b = rbind (do_op x b) (do_ops xs)"

lemma do_ops_reaches: "do_ops xs b = Inr c \<Longrightarrow> reaches a b \<Longrightarrow> reaches a c"
  by (induction xs arbitrary: b) (auto simp: rbind_eq_Inr intro: reaches.step)

definition demo_run :: "broker_op list \<Rightarrow> (CerebroBroker, CerebroBroker) run" where
  "demo_run xs = do_ops (demo_ops @ xs) (broker_new demo_clock)"

text \<open>Operations one after the other, the ones that throw too.\<close>

fun endure_ops :: "broker_op list \<Rightarrow> CerebroBroker \<Rightarrow> CerebroBroker res" where
  "endure_ops [] b = Inr b"
| "endure_ops (x # xs) b =
     (case do_op x b of
        Inr c \<Rightarrow> endure_ops xs c
      | Inl (e, c) \<Rightarrow> if thrown e then endure_ops xs c else Inl e)"

lemma endure_ops_endures: "endure_ops xs b = Inr c \<Longrightarrow> endures a b \<Longrightarrow> endures a c"
  by (induction xs arbitrary: b) (auto intro: endures.step endures.throw split: sum.splits if_splits prod.splits)

definition demo_throws :: "broker_op list" where
  "demo_throws = demo_ops @ [OpDeposit (d_of_int 10) False, OpBuy demo_sym (d_of_int 10) d0, OpSell demo_sym (d_of_int (-5)) d0]"

text \<open>
  A deposit, a purchase that the tick rejects, and a sale of minus five shares, at which the tick throws. The rejected
  purchase is then among the finished orders and still queued; the next tick enters it a second time.
\<close>

lemma demo_throws_run:
  obtains b c d where "endure_ops demo_throws (broker_new demo_clock) = Inr b"
    "map co_status (unfilled_of demo_sym b) = [OS_PENDING_NEW, OS_PENDING_NEW]"
    "on_tick (demo_tick 10 4) b = Inl (LogicError, c)" "on_tick (demo_tick 10 4) c = Inr d"
    "map co_status (unfilled_of demo_sym c) = [OS_REJECTED, OS_FILLED]"
    "map co_status (cb_filled_orders c) = [OS_FILLED, OS_REJECTED]"
    "map co_status (cb_filled_orders d) = [OS_FILLED, OS_REJECTED, OS_REJECTED, OS_FILLED]"
proof -
  let ?t = "demo_tick 10 4"
  have "case endure_ops demo_throws (broker_new demo_clock) of Inl _ \<Rightarrow> False | Inr b \<Rightarrow>
      map co_status (unfilled_of demo_sym b) = [OS_PENDING_NEW, OS_PENDING_NEW] \<and>
      (case on_tick ?t b of Inr _ \<Rightarrow> False | Inl (e, c) \<Rightarrow>
        e = LogicError \<and> map co_status (unfilled_of demo_sym c) = [OS_REJECTED, OS_FILLED] \<and>
        map co_status (cb_filled_orders c) = [OS_FILLED, OS_REJECTED] \<and>
        (case on_tick ?t c of Inl _ \<Rightarrow> False | Inr d \<Rightarrow>
          map co_status (cb_filled_orders d) = [OS_FILLED, OS_REJECTED, OS_REJECTED, OS_FILLED]))"
    by code_simp
  then obtain b where b: "endure_ops demo_throws (broker_new demo_clock) = Inr b"
    "map co_status (unfilled_of demo_sym b) = [OS_PENDING_NEW, OS_PENDING_NEW]"
    and rb: "case on_tick ?t b of Inr _ \<Rightarrow> False | Inl (e, c) \<Rightarrow>
      e = LogicError \<and> map co_status (unfilled_of demo_sym c) = [OS_REJECTED, OS_FILLED] \<and>
      map co_status (cb_filled_orders c) = [OS_FILLED, OS_REJECTED] \<and>
      (case on_tick ?t c of Inl _ \<Rightarrow> False | Inr d \<Rightarrow>
        map co_status (cb_filled_orders d) = [OS_FILLED, OS_REJECTED, OS_REJECTED, OS_FILLED])"
    by (cases "endure_ops demo_throws (broker_new demo_clock)") simp_all
  obtain e c where "on_tick ?t b = Inl (e, c)" using rb by (cases "on_tick ?t b") auto
  with rb have c: "on_tick ?t b = Inl (LogicError, c)" "map co_status (unfilled_of demo_sym c) = [OS_REJECTED, OS_FILLED]"
      "map co_status (cb_filled_orders c) = [OS_FILLED, OS_REJECTED]"
    and r: "case on_tick ?t c of Inl _ \<Rightarrow> False | Inr d \<Rightarrow>
      map co_status (cb_filled_orders d) = [OS_FILLED, OS_REJECTED, OS_REJECTED, OS_FILLED]"
    by simp_all
  obtain d where d: "on_tick ?t c = Inr d"
    "map co_status (cb_filled_orders d) = [OS_FILLED, OS_REJECTED, OS_REJECTED, OS_FILLED]"
    using r by (cases "on_tick ?t c") auto
  show thesis by (rule that [OF b c(1) d(1) c(2, 3) d(2)])
qed


end
