(* ===== verification/Broker_Shares.thy ===== *)
theory Broker_Shares
  imports Broker_Book
begin

text \<open>
  Trading in whole shares: what a tick does to the position and the queue of its symbol when quantities and
  volumes are whole numbers. Shares bought today are not closable today, and no more than the closable ones are
  sold.
\<close>

section \<open>Positions in whole shares\<close>

definition shares :: "int \<Rightarrow> int \<Rightarrow> CerebroPositionTracker \<Rightarrow> bool" where
  "shares P C t \<longleftrightarrow>
     cp_quantity (pt_position t) = d_of_int P \<and> cp_closable (pt_position t) = d_of_int C \<and>
     pt_tplus t = 1 \<and> 0 \<le> C \<and> C \<le> P \<and> P < 2 ^ 53"

lemma shares_new [simp]: "shares 0 0 (tracker_new s PD_LONG 1)"
  by (simp add: shares_def tracker_new_def position_zero_def d0_def)

lemma shares_whole: "shares P C t \<Longrightarrow> whole P \<and> whole C" by (auto simp: shares_def)

lemma buy_shares:
  assumes "shares P C t" "0 \<le> f" "P + f < 2 ^ 53"
  shows "shares (P + f) C (tracker_buy (d_of_int f) p c t)"
proof -
  have w: "whole P" "whole f" using assms by (auto simp: shares_def)
  have z: "d_add (d_of_int P) (d_of_int f) = d_of_int (P + f)" using w by (rule d_add_of_int)
  show ?thesis
    using assms w by (auto simp: shares_def tracker_buy_def enlarge_def Let_def almost_zero_whole z)
qed

lemma sell_shares:
  assumes "shares P C t" "0 \<le> f" "f \<le> C"
  obtains t1 where "tracker_sell (d_of_int f) p c t = Inr t1" "shares (P - f) (C - f) t1"
proof (cases "f = 0")
  case True
  then show ?thesis using that [of t] assms(1) by (simp add: tracker_sell_def almost_zero_whole)
next
  case False
  have w: "whole P" "whole C" "whole f" "P \<noteq> 0" using assms False by (auto simp: shares_def)
  have z: "d_sub (d_of_int P) (d_of_int f) = d_of_int (P - f)" "d_sub (d_of_int C) (d_of_int f) = d_of_int (C - f)"
    using d_sub_of_int w by auto
  have "\<exists>t1. tracker_sell (d_of_int f) p c t = Inr t1 \<and> shares (P - f) (C - f) t1"
    using assms w False by (simp add: shares_def tracker_sell_def Let_def almost_zero_whole z)
  then show ?thesis using that by blast
qed

lemma shares_pnl: "shares P C t \<Longrightarrow> shares P C (update_pnl p t)"
  by (simp add: shares_def update_pnl_def Let_def)

text \<open>Orders over whole lots.\<close>

definition lots :: "int list \<Rightarrow> CerebroOrder list \<Rightarrow> bool" where
  "lots ns os \<longleftrightarrow> map co_quantity os = map d_of_int ns \<and> (\<forall>n \<in> set ns. 0 < n)"

lemma lots_simps [simp]:
  "lots [] os \<longleftrightarrow> os = []"
  "lots ns [] \<longleftrightarrow> ns = []"
  "lots (n # ns) (ord # os) \<longleftrightarrow> co_quantity ord = d_of_int n \<and> 0 < n \<and> lots ns os"
  by (auto simp: lots_def)

lemma lots_append: "lots ns os \<Longrightarrow> lots ms us \<Longrightarrow> lots (ns @ ms) (os @ us)"
  by (auto simp: lots_def)

lemma lots_sum: "lots ns os \<Longrightarrow> 0 \<le> sum_list ns"
  by (auto simp: lots_def intro!: sum_list_nonneg)

text \<open>A tick that offers whole volumes on both sides.\<close>

definition depth :: "int \<Rightarrow> int \<Rightarrow> CerebroTickRecord \<Rightarrow> bool" where
  "depth va vb tick \<longleftrightarrow>
     at0 (ct_ask_vols tick) = Inr (d_of_int va) \<and> at0 (ct_bid_vols tick) = Inr (d_of_int vb) \<and>
     ct_bids tick \<noteq> [] \<and> 0 \<le> va \<and> va < 2 ^ 53 \<and> 0 \<le> vb \<and> vb < 2 ^ 53"

definition ready :: "CerebroBroker \<Rightarrow> bool" where
  "ready b \<longleftrightarrow> cb_account b \<noteq> None \<and> cb_order_id_gen b \<noteq> None"

lemma ready_frame: "same_frame b c \<Longrightarrow> ready b \<Longrightarrow> ready c"
  by (simp add: ready_def same_frame_def)

section \<open>A match has a result\<close>

lemma the_account_ready: "ready b \<Longrightarrow> \<exists>w. cb_account b = Some w \<and> the_account b = Inr w"
  by (auto simp: ready_def the_account_def)

lemma matcher_total:
  assumes "depth va vb tick" "ready b"
  shows "\<exists>r. matcher_match mt tick ord b = Inr r"
proof -
  obtain w where w: "cb_account b = Some w" "the_account b = Inr w" using the_account_ready [OF assms(2)] by auto
  obtain x where x: "at0 (ct_bids tick) = Inr x" using assms(1) by (auto simp: depth_def at0_def neq_Nil_conv)
  have acc: "the_account (open_long (co_symbol ord) b) = Inr w" by (simp add: the_account_def w(1))
  have on: "on_account f d = Inr (d\<lparr>cb_account := Some (f w)\<rparr>)" if "the_account d = Inr w" for f d
    using that by (simp add: on_account_def)
  have buy: "\<exists>r. buy_at tick wanted ok ord b = Inr r" for wanted ok
    using assms(1) by (simp add: buy_at_def Let_def depth_def w on [OF w(2)])
  have sell: "\<exists>r. sell_at tick (Inr y) ok ord b = Inr r" for y ok
    using assms(1) by (simp add: sell_at_def Let_def depth_def acc on [OF acc])
  show ?thesis
    using buy sell x
    by (auto simp: matcher_match_def process_market_order_def process_limit_order_def split: ORDER_TYPE.splits)
qed

lemma suborder_total: "ready b \<Longrightarrow> \<exists>r. suborder ord b = Inr r"
  by (auto simp: ready_def suborder_def next_order_id_def now_ms_def Let_def)

lemma after_match_total:
  assumes "on_order_update ord b = Inr c" "ready c"
  shows "\<exists>r. after_match ord b = Inr r"
proof -
  define d where "d = (if done_status ord then add_filled ord (if co_status ord \<noteq> OS_PENDING_NEW then notify ord c else c)
    else (if co_status ord \<noteq> OS_PENDING_NEW then notify ord c else c))"
  have "ready d" using assms(2) by (auto simp: d_def ready_def add_filled_def notify_def)
  then obtain so e where "suborder ord d = Inr (so, e)" using suborder_total by fastforce
  then show ?thesis using assms(1) by (auto simp: after_match_def Let_def d_def)
qed


lemma not_more_whole:
  assumes "\<not> almost_gt (d_of_int n) (d_of_int C) epsilon" "0 \<le> n" "n < 2 ^ 53" "0 \<le> C" "C < 2 ^ 53"
  shows "n \<le> C"
proof -
  have "whole n" "whole C" "whole (n - C)" using assms by (auto simp: abs_if)
  then show ?thesis using almost_whole(3) [of n C] assms(1) by auto
qed

lemma filled_total:
  assumes "co_status ord = OS_FILLED" "co_action ord = OA_BUY \<or> co_action ord = OA_SELL \<and>
      (\<exists>t1. tracker_sell (co_filled_quantity ord) (co_filled_price ord) (co_transaction_cost ord)
         (long_tracker (co_symbol ord) b) = Inr t1)"
  shows "\<exists>c. on_order_update ord b = Inr c \<and> same_frame b c"
proof -
  have "same_frame b (put_long s t (open_long s b))" for s t
    using same_frame_trans [OF open_long_frame(1) put_long_frame(1)] .
  then show ?thesis
    using assms by (auto simp: on_order_update_def order_longshort_def is_special_order_def Let_def)
qed

lemma match_one_total:
  assumes "depth va vb tick" "ready b" "fresh s ord" "shares P C (long_tracker s b)"
    "co_quantity ord = d_of_int n" "0 < n" "n < 2 ^ 53"
  shows "\<exists>r. match_one tick ord b = Inr r"
proof (cases "map_of (cb_matchers b) (exchange_of (co_symbol ord))")
  case None
  then show ?thesis by (simp add: match_one_def)
next
  case (Some mt)
  obtain rc m1 c where M: "matcher_match mt tick ord b = Inr (rc, m1, c)"
    using matcher_total [OF assms(1, 2)] by (metis prod_cases3)
  obtain now d where N: "now_ms c = (now, d)" by fastforce
  define o2 where "o2 = m1\<lparr>co_mtime := now\<rparr>"
  have ord: "co_status ord = OS_PENDING_NEW" "co_symbol ord = s" using assms(3) by (auto simp: fresh_def)
  have opens: "only_opens s b c" using matcher_only_opens [OF M] ord by simp
  have frame: "same_frame b d" using opens now_ms_frame(1) [OF N] same_frame_trans by (auto simp: only_opens_def)
  have lt: "long_tracker s d = long_tracker s b"
    using opens now_ms_frame(2) [OF N] tracker_of_lpositions [of d b s] tracker_of_lpositions [of d "open_long s b" s]
    by (auto simp: only_opens_def)
  have waits: "on_order_update o2 d = Inr d" if "co_status o2 \<noteq> OS_FILLED"
    using that by (simp add: on_order_update_def Let_def)
  have "\<exists>e. on_order_update o2 d = Inr e \<and> same_frame d e"
    using M
  proof (cases rule: matcher_cases)
    case kept
    then show ?thesis using waits ord by (simp add: o2_def)
  next
    case (rejected y)
    then show ?thesis using waits by (simp add: o2_def)
  next
    case (bought w p vol)
    then show ?thesis by (intro filled_total) (simp_all add: o2_def)
  next
    case (sold w p vol)
    have "vol = d_of_int vb" using sold(4) assms(1) by (simp add: depth_def)
    then have q: "co_filled_quantity o2 = d_of_int (min vb n)"
      using sold(6) assms d_min_whole [of vb n] by (simp add: o2_def depth_def)
    have "n \<le> C"
      using not_more_whole [of n C] sold(5) assms ord(2) by (auto simp: shares_def)
    have le: "0 \<le> min vb n" "min vb n \<le> C" using assms(1, 6) \<open>n \<le> C\<close> by (auto simp: depth_def)
    obtain t1 where "tracker_sell (d_of_int (min vb n)) (co_filled_price o2) (co_transaction_cost o2)
        (long_tracker s b) = Inr t1"
      by (rule sell_shares [OF assms(4) le])
    then show ?thesis
      using sold(2, 6) q lt ord(2) by (intro filled_total) (simp_all add: o2_def)
  qed
  then obtain e where "on_order_update o2 d = Inr e" "ready e"
    using ready_frame [OF frame assms(2)] ready_frame by blast
  then obtain r where "after_match o2 d = Inr r" using after_match_total by blast
  then show ?thesis using Some M N ord by (cases r; cases "rc = 0") (auto simp: match_one_def done_status_def o2_def)
qed

text \<open>What one order does to the shares: f of them change hands, and an order for the rest may follow.\<close>

lemma match_one_shares:
  assumes "match_one tick ord b = Inr (o1, sos, b1)" "depth va vb tick" "fresh s ord"
    "shares P C (long_tracker s b)" "co_quantity ord = d_of_int n" "0 < n" "P + n < 2 ^ 53"
  obtains P' C' ms ks where "shares P' C' (long_tracker s b1)" "lots ms (filter (\<lambda>x. \<not> done_status x) [o1])"
    "lots ks sos" "P' + sum_list ms + sum_list ks \<le> P + n" "C' \<le> C" "P - C \<le> P' - C'"
    "same_frame b b1"
  using assms(1, 3)
proof (cases rule: match_one_cases)
  case waits
  have "long_tracker s b1 = long_tracker s b"
    using waits(7) tracker_of_lpositions [of b1 b s] tracker_of_lpositions [of b1 "open_long s b" s] by auto
  moreover have "\<not> done_status o1" using waits(1) by (auto simp: fresh_def done_status_def)
  ultimately show ?thesis using that [of P C "[n]" "[]"] waits assms by simp
next
  case rejects
  have "long_tracker s b1 = long_tracker s b"
    using rejects(6) tracker_of_lpositions [of b1 b s] tracker_of_lpositions [of b1 "open_long s b" s] by auto
  moreover have "done_status o1" using rejects(1) by (simp add: done_status_def)
  ultimately show ?thesis using that [of P C "[]" "[]"] rejects assms by simp
next
  case (fills t1)
  have lt: "long_tracker s b1 = t1" using fills(11) by (simp add: long_tracker_def)
  have n: "whole n" "n < 2 ^ 53" using assms by (auto simp: shares_def)
  have sellable: "co_action ord = OA_SELL \<longrightarrow> n \<le> C"
    using fills(5) not_more_whole [of n C] assms(4-6) n by (auto simp: shares_def)
  have "co_filled_quantity o1 = d_of_int (min va n) \<or> co_filled_quantity o1 = d_of_int (min vb n)"
    using fills(5) assms(2, 5) n d_min_whole [of va n] d_min_whole [of vb n] by (auto simp: depth_def)
  then obtain v where v: "co_filled_quantity o1 = d_of_int (min v n)" "0 \<le> v"
    "co_action ord = OA_SELL \<longrightarrow> n \<le> C"
    using assms(2) sellable by (auto simp: depth_def)
  define f where "f = min v n"
  have f: "0 \<le> f" "f \<le> n" using v(2) assms(6) by (auto simp: f_def)
  have fin: "done_status o1" using fills(1) by (simp add: done_status_def)
  have w: "whole f" "whole (n - f)" using n f by auto
  have u: "co_unfilled_quantity o1 = d_of_int (n - f)"
    using fills(6) v(1) assms(5) almost_whole(1) [OF n(1) w(1)] w(2) d_sub_of_int [OF n(1) w(1)]
    by (auto simp: d0_def simp flip: f_def)
  have rest: "\<exists>ks. lots ks sos \<and> sum_list ks = n - f"
  proof (cases "f = n")
    case True
    then have "sos = []" using fills(7) u by (simp add: rest_of_def flip: d0_def)
    then show ?thesis using True by (intro exI [of _ "[]"]) simp
  next
    case False
    then have "almost_ne (co_unfilled_quantity o1) d0 epsilon"
      using u n f almost_zero_whole(3) [of "n - f"] by simp
    then show ?thesis using fills(7) u f False by (intro exI [of _ "[n - f]"]) (auto simp: rest_of_def)
  qed
  then obtain ks where ks: "lots ks sos" "sum_list ks = n - f" by blast
  show ?thesis
  proof (cases "co_action ord = OA_BUY")
    case True
    then have "shares (P + f) C t1"
      using buy_shares [OF assms(4) f(1)] fills(4, 10) v(1) f assms(7) by (auto simp: traded_def Let_def f_def)
    then show ?thesis using that [of "P + f" C "[]" ks] lt ks fin f fills(8) by simp
  next
    case False
    then have sell: "co_action ord = OA_SELL" using fills(5) by auto
    then have le: "f \<le> C" using v(3) f by simp
    obtain t2 where "tracker_sell (d_of_int f) (co_filled_price o1) (co_transaction_cost o1) (long_tracker s b) = Inr t2"
      "shares (P - f) (C - f) t2"
      by (rule sell_shares [OF assms(4) f(1) le])
    then have "shares (P - f) (C - f) t1"
      using fills(4, 10) v(1) sell by (auto simp: traded_def Let_def f_def)
    then show ?thesis using that [of "P - f" "C - f" "[]" ks] lt ks fin f fills(8) by simp
  qed
qed


section \<open>Ticks\<close>

lemma match_queue_shares:
  assumes "depth va vb tick" "ready b" "\<forall>ord \<in> set os. fresh s ord" "shares P C (long_tracker s b)"
    "lots ns os" "P + sum_list ns < 2 ^ 53"
  shows "\<exists>os1 sos c P' C' ms ks. match_queue tick os b = Inr (os1, sos, c) \<and> same_frame b c \<and>
    shares P' C' (long_tracker s c) \<and> lots ms (filter (\<lambda>x. \<not> done_status x) os1) \<and> lots ks sos \<and>
    P' + sum_list ms + sum_list ks \<le> P + sum_list ns \<and> C' \<le> C \<and> P - C \<le> P' - C'"
  using assms
proof (induction os arbitrary: b P C ns)
  case Nil
  then show ?case by simp (metis order_refl)
next
  case (Cons ord os)
  obtain n ns' where ns: "ns = n # ns'" "co_quantity ord = d_of_int n" "0 < n" "lots ns' os"
    using Cons.prems(5) by (cases ns) auto
  have le: "0 \<le> sum_list ns'" "0 \<le> P" using lots_sum [OF ns(4)] Cons.prems(4) by (auto simp: shares_def)
  have bound: "n < 2 ^ 53" "P + n < 2 ^ 53" using Cons.prems(6) ns(1) le by simp_all
  have fr: "fresh s ord" "\<forall>ord \<in> set os. fresh s ord" using Cons.prems(3) by auto
  obtain o1 so b1 where M: "match_one tick ord b = Inr (o1, so, b1)"
    using match_one_total [OF Cons.prems(1, 2) fr(1) Cons.prems(4) ns(2, 3) bound(1)] by (metis prod_cases3)
  obtain P1 C1 ms ks where one: "shares P1 C1 (long_tracker s b1)" "lots ms (filter (\<lambda>x. \<not> done_status x) [o1])"
    "lots ks so" "P1 + sum_list ms + sum_list ks \<le> P + n" "C1 \<le> C" "P - C \<le> P1 - C1" "same_frame b b1"
    by (rule match_one_shares [OF M Cons.prems(1) fr(1) Cons.prems(4) ns(2, 3) bound(2)])
  have "P1 + sum_list ns' < 2 ^ 53"
    using one(4) Cons.prems(6) ns(1) lots_sum [OF one(2)] lots_sum [OF one(3)] by simp
  then obtain os2 sos2 c P2 C2 ms2 ks2 where rest: "match_queue tick os b1 = Inr (os2, sos2, c)" "same_frame b1 c"
    "shares P2 C2 (long_tracker s c)" "lots ms2 (filter (\<lambda>x. \<not> done_status x) os2)" "lots ks2 sos2"
    "P2 + sum_list ms2 + sum_list ks2 \<le> P1 + sum_list ns'" "C2 \<le> C1" "P1 - C1 \<le> P2 - C2"
    using Cons.IH [OF Cons.prems(1) ready_frame [OF one(7) Cons.prems(2)] fr(2) one(1) ns(4)] by blast
  have "match_queue tick (ord # os) b = Inr (o1 # os2, so @ sos2, c)" using M rest(1) by simp
  moreover have "lots (ms @ ms2) (filter (\<lambda>x. \<not> done_status x) (o1 # os2))"
    using lots_append [OF one(2) rest(4)] by (simp split: if_splits)
  moreover have "lots (ks @ ks2) (so @ sos2)" by (rule lots_append [OF one(3) rest(5)])
  moreover have "P2 + sum_list (ms @ ms2) + sum_list (ks @ ks2) \<le> P + sum_list ns"
    using rest(6) one(4) ns(1) by simp
  moreover have "C2 \<le> C" "P - C \<le> P2 - C2" "same_frame b c"
    using one(5-7) rest(2, 7, 8) same_frame_trans by auto
  ultimately show ?case using rest(3) by blast
qed

lemma position_update_shares:
  "shares P C (long_tracker (ct_symbol tick) b) \<Longrightarrow>
     shares P C (long_tracker (ct_symbol tick) (do_position_update tick b))"
  "unfilled_of s (do_position_update tick b) = unfilled_of s b"
  "ready (do_position_update tick b) = ready b"
  by (auto simp: long_tracker_def do_position_update_def Let_def tracker_update_tick_def unfilled_of_def
      ready_def shares_pnl split: option.splits)

lemma unfilled_put [simp]: "unfilled_of s (put_unfilled s os b) = os"
  by (simp add: unfilled_of_def put_unfilled_def)

lemma process_normal_order_shares:
  assumes "depth va vb tick" "ready b" "book_ok b" "ct_symbol tick = s" "shares P C (long_tracker s b)"
    "lots ns (unfilled_of s b)" "P + sum_list ns < 2 ^ 53"
  shows "\<exists>c P' C' ms. process_normal_order tick b = Inr c \<and> ready c \<and> shares P' C' (long_tracker s c) \<and>
    lots ms (unfilled_of s c) \<and> P' + sum_list ms \<le> P + sum_list ns \<and> C' \<le> C \<and> P - C \<le> P' - C'"
proof (cases "map_of (cb_unfill_orders b) s")
  case None
  then have "process_normal_order tick b = Inr b" using assms(4) by (simp add: process_normal_order_def)
  then show ?thesis using assms by (metis order_refl)
next
  case (Some os)
  have fr: "\<forall>ord \<in> set os. fresh s ord"
    using assms(3) Some items_ok_get [of _ "cb_unfill_orders b" s os] by (auto simp: book_ok_def)
  have "lots ns os" using assms(6) Some by (simp add: unfilled_of_def)
  then obtain os1 sos c P' C' ms ks where M: "match_queue tick os b = Inr (os1, sos, c)" "same_frame b c"
    "shares P' C' (long_tracker s c)" "lots ms (filter (\<lambda>x. \<not> done_status x) os1)" "lots ks sos"
    "P' + sum_list ms + sum_list ks \<le> P + sum_list ns" "C' \<le> C" "P - C \<le> P' - C'"
    using match_queue_shares [OF assms(1, 2) fr assms(5) _ assms(7)] by blast
  define d where "d = put_unfilled s (filter (\<lambda>x. \<not> done_status x) os1 @ sos) (foldl (\<lambda>x ord. notify ord x) c sos)"
  have "process_normal_order tick b = Inr d" using Some assms(4) M(1) by (simp add: process_normal_order_def d_def)
  moreover have "ready d" "long_tracker s d = long_tracker s c"
    using notify_all_frame [of c sos] ready_frame [OF M(2) assms(2)]
    by (simp_all add: d_def put_unfilled_def ready_def long_tracker_def same_frame_def)
  moreover have "lots (ms @ ks) (unfilled_of s d)" using lots_append [OF M(4, 5)] by (simp add: d_def)
  ultimately show ?thesis using M(3, 6-8) by (intro exI [of _ d] exI [of _ P'] exI [of _ C'] exI [of _ "ms @ ks"]) simp
qed

text \<open>
  C12. Whole shares under t+1. Take a broker in order whose long position in s is P shares, C of them closable,
  with orders over whole lots ns in the queue of s. A tick of s that offers whole volumes never faults (no
  \<open>logic_error\<close> for a sale without a position, no missing depth), keeps all of this, sells no more than the closable
  shares and makes none of those it buys closable; position and queue together do not grow.
\<close>

theorem tick_shares:
  assumes "book_ok b" "ready b" "depth va vb tick" "ct_symbol tick = s" "shares P C (long_tracker s b)"
    "lots ns (unfilled_of s b)" "P + sum_list ns < 2 ^ 53"
  shows "\<exists>c P' C' ms. on_tick tick b = Inr c \<and> book_ok c \<and> ready c \<and> shares P' C' (long_tracker s c) \<and>
    lots ms (unfilled_of s c) \<and> P' + sum_list ms \<le> P + sum_list ns \<and> C' \<le> C \<and> P - C \<le> P' - C'"
proof -
  define b1 where "b1 = (if has_position s b then do_position_update tick b else b)"
  have b1: "book_ok b1" "ready b1" "shares P C (long_tracker s b1)" "lots ns (unfilled_of s b1)"
    using assms position_update_shares(1) [of P C tick b] position_update_shares(3) position_update_book [OF assms(1), of tick]
      position_update_shares(2) [of s tick b]
    by (auto simp: b1_def grows_of_def)
  obtain d P' C' ms where D: "process_normal_order tick b1 = Inr d" "ready d" "shares P' C' (long_tracker s d)"
    "lots ms (unfilled_of s d)" "P' + sum_list ms \<le> P + sum_list ns" "C' \<le> C" "P - C \<le> P' - C'"
    using process_normal_order_shares [OF assms(3) b1(2, 1) assms(4) b1(3, 4) assms(7)] by blast
  define e where "e = do_position_update tick d"
  have e: "ready e" "shares P' C' (long_tracker s e)" "lots ms (unfilled_of s e)"
    using D position_update_shares(1) [of P' C' tick d] position_update_shares(2, 3) assms(4) by (auto simp: e_def)
  obtain w where w: "the_account e = Inr w" using the_account_ready [OF e(1)] by blast
  obtain c where c: "update_account e = Inr c"
    using w by (simp add: update_account_def on_account_def)
  have "ready c" "long_tracker s c = long_tracker s e" "unfilled_of s c = unfilled_of s e"
    using c e(1) by (auto simp: update_account_def on_account_Inr ready_def long_tracker_def unfilled_of_def)
  moreover have tick: "on_tick tick b = Inr c"
    using D(1) c assms(4) by (simp add: on_tick_def Let_def e_def flip: b1_def)
  moreover have "book_ok c" using on_tick_book [OF tick assms(1)] by (simp add: grows_of_def)
  ultimately show ?thesis using e D(5-7) by (intro exI [of _ c] exI [of _ P'] exI [of _ C'] exI [of _ ms]) simp
qed


text \<open>Four of ten shares are on offer; they are bought, and none of them can be sold in this tick.\<close>

lemma demo_book: "do_ops xs (broker_new clk) = Inr b \<Longrightarrow> book_ok b"
  using broker_start_ok reaches_book [of "broker_new clk" b] do_ops_reaches [of xs "broker_new clk" b "broker_new clk"]
  by (auto simp: grows_of_def intro: reaches.start)

theorem tick_shares_witness:
  "\<exists>b c P' C' ms. demo_run [OpDeposit (d_of_int 1000) False, OpBuy demo_sym (d_of_int 10) d0,
       OpSell demo_sym (d_of_int 2) d0] = Inr b \<and>
     on_tick (demo_tick 10 4) b = Inr c \<and> shares P' C' (long_tracker demo_sym c) \<and>
     lots ms (unfilled_of demo_sym c) \<and> P' + sum_list ms \<le> 12 \<and> C' \<le> 0 \<and> 0 \<le> P' - C'"
proof -
  let ?p = "demo_run [OpDeposit (d_of_int 1000) False, OpBuy demo_sym (d_of_int 10) d0,
    OpSell demo_sym (d_of_int 2) d0]"
  have "case ?p of Inl _ \<Rightarrow> False | Inr b \<Rightarrow> cb_account b \<noteq> None \<and> cb_order_id_gen b \<noteq> None \<and>
      map_of (cb_lpositions b) demo_sym = None \<and> map co_quantity (unfilled_of demo_sym b) = map d_of_int [10, 2]"
    by code_simp
  then obtain b where b: "?p = Inr b" "ready b" "map_of (cb_lpositions b) demo_sym = None"
    "map co_quantity (unfilled_of demo_sym b) = map d_of_int [10, 2]"
    by (auto simp: ready_def split: sum.splits)
  have "shares 0 0 (long_tracker demo_sym b)" "lots [10, 2] (unfilled_of demo_sym b)"
    using b(3, 4) by (simp_all add: long_tracker_def lots_def)
  moreover have "depth 4 4 (demo_tick 10 4)" "ct_symbol (demo_tick 10 4) = demo_sym"
    by (simp_all add: depth_def demo_tick_def at0_def tick_zero_def)
  ultimately show ?thesis
    using tick_shares [OF demo_book [OF b(1) [unfolded demo_run_def]] b(2), of 4 4 "demo_tick 10 4" demo_sym 0 0 "[10, 2]"]
      b(1) by auto
qed

end
