(* ===== verification/Broker_Money.thy ===== *)
theory Broker_Money
  imports Broker_Book
begin

text \<open>
  The money of an account. Deposits and the number of units; the check that a purchase can be paid; and the
  commission of an order that is filled in parts.
\<close>

section \<open>Units\<close>

definition fresh_account :: "CerebroAccountWrap \<Rightarrow> bool" where
  "fresh_account w \<longleftrightarrow> aw_account w = account_zero"

text \<open>
  Units after two deposits. The first deposit a buys a units at 1. A second deposit of q times as much should
  buy q a units more. The code divides the new total by the old number of units instead: q + 1 units remain, whatever
  was deposited, and at the next revaluation a unit is worth a, not 1.
\<close>

theorem deposit_units:
  assumes "fresh_account w" "0 < a" "0 \<le> q" "(q + 1) * a < 2 ^ 53"
    "aw_deposit_cash (d_of_int a) d0 w = (r1, w1)" "aw_deposit_cash (d_of_int (q * a)) d0 w1 = (r2, w2)"
  shows "r1 = 0 \<and> r2 = 0 \<and> ca_cash (aw_account w2) = d_of_int ((q + 1) * a) \<and>
    ca_units (aw_account w1) = d_of_int a \<and> ca_units (aw_account w2) = d_of_int (q + 1) \<and>
    ca_unit_value (aw_account (aw_update_market_value d0 w2)) = d_of_int a"
proof -
  have "(q + 1) * 1 \<le> (q + 1) * a" "0 \<le> q * a" using assms(2, 3) by (auto intro!: mult_left_mono)
  then have qa: "0 \<le> q * a" "q * a < 2 ^ 53" "a \<le> (q + 1) * a" "q + 1 \<le> (q + 1) * a"
    using assms(2-4) by (auto simp: ring_distribs)
  have w: "whole a" "whole (q * a)" "whole (q + 1)" "whole ((q + 1) * a)"
    using qa assms(2-4) by linarith+
  have w': "whole (a + q * a)" using w(4) by (simp add: ring_distribs add.commute)
  have z: "d_add d0 (d_of_int a) = d_of_int a" "d_sub (d_of_int x) d0 = d_of_int x" "d_add (d_of_int x) d0 = d_of_int x"
    if "whole x" for x
    using that w d_add_of_int [of 0 a] d_sub_of_int [of x 0] d_add_of_int [of x 0] by (simp_all add: d0_def)
  have m: "d_mul (d_of_int 1) (d_of_int a) = d_of_int a" using d_mul_of_int [of 1 a] w assms(2) by simp
  have s: "d_add (d_of_int a) (d_of_int (q * a)) = d_of_int ((q + 1) * a)"
    using d_add_of_int [OF w(1, 2)] by (simp add: ring_distribs add.commute)
  have d: "d_div (d_of_int ((q + 1) * a)) (d_of_int a) = d_of_int (q + 1)"
    "d_div (d_of_int ((q + 1) * a)) (d_of_int (q + 1)) = d_of_int a"
    using d_div_of_int_exact [of "q + 1" a] d_div_of_int_exact [of a "q + 1"] w assms(2, 3)
    by (simp_all add: mult.commute)
  have e: "almost_eq d0 d0 epsilon" "\<not> almost_eq (d_of_int a) d0 epsilon" "\<not> almost_eq (d_of_int 1) d0 epsilon"
    using almost_zero_whole(2) [of 0] almost_zero_whole(2) [OF w(1)] almost_zero_whole(2) [of 1] assms(2)
    by (simp_all add: d0_def)
  have w1: "r1 = 0" "aw_account w1 = account_zero\<lparr>ca_cash := d_of_int a, ca_transaction_cost := d0,
      ca_unit_value := d_of_int 1, ca_units := d_of_int a\<rparr>"
    using assms(1, 5) e z w z(3) [of 0, folded d0_def]
    by (auto simp: aw_deposit_cash_def Let_def fresh_account_def account_zero_def)
  have w2: "r2 = 0" "ca_cash (aw_account w2) = d_of_int ((q + 1) * a)" "ca_units (aw_account w2) = d_of_int (q + 1)"
    "ca_frozen_cash (aw_account w2) = d0"
    using assms(6) e z w s m d
    by (auto simp: aw_deposit_cash_def Let_def w1 account_zero_def)
  have "ca_unit_value (aw_account (aw_update_market_value d0 w2)) = d_of_int a"
    using z(3) [OF w(4)] d(2) by (simp add: aw_update_market_value_def revalue_def ca_total_cash_def w2)
  then show ?thesis using w1 w2 by (simp add: account_zero_def)
qed

theorem deposit_units_witness:
  "ca_units (aw_account (snd (aw_deposit_cash (d_of_int 300000) d0
      (snd (aw_deposit_cash (d_of_int 100000) d0 (aw_new 1 [])))))) = d_of_int 4"
proof -
  obtain r1 w1 where 1: "aw_deposit_cash (d_of_int 100000) d0 (aw_new 1 []) = (r1, w1)" by fastforce
  obtain r2 w2 where 2: "aw_deposit_cash (d_of_int (3 * 100000)) d0 w1 = (r2, w2)" by fastforce
  show ?thesis using deposit_units [OF _ _ _ _ 1 2] 1 2 by (simp add: fresh_account_def aw_new_def)
qed

section \<open>Paying\<close>

lemma d_add_zero_right: "whole x \<Longrightarrow> x \<noteq> 0 \<Longrightarrow> d_add (d_of_int x) (DZero s) = d_of_int x"
  by (elim d_of_int_fin) (simp add: fin_add_def)

lemma d_mul_zero: "d_mul (d_of_int 0) (DFin s m e) = DZero s"
  by (simp add: d_of_int_def d_round_def)

lemma d_sub_zero_neg: "d_lt d0 x \<Longrightarrow> d_lt (d_sub d0 x) d0"
proof (cases x)
  case (DFin s m e)
  assume "d_lt d0 x"
  then have m: "m \<noteq> 0" "0 < d_val (DFin s m e)"
    using DFin by (auto simp: d0_def d_of_int_def d_round_def d_lt_val simp del: d_lt.simps)
  have n: "d_val (DFin (\<not> s) m e) = - d_val (DFin s m e)" by (simp add: signed_by_def)
  have z: "d_val (DZero False) = 0" by simp
  have "d_lt (DFin (\<not> s) m e) (DZero False)" unfolding d_lt_val n z using m(2) by linarith
  then show ?thesis
    using DFin m(1) by (simp add: d_sub_def d0_def d_of_int_def d_round_def fin_add_def del: d_lt.simps)
qed (auto simp: d0_def d_of_int_def d_round_def d_sub_def)

text \<open>A tick without a limit on the price.\<close>

definition unlimited :: "CerebroTickRecord \<Rightarrow> bool" where
  "unlimited tick \<longleftrightarrow> ct_limit_up tick = d0 \<and> ct_limit_down tick = d0"

lemma unlimited_free: "unlimited tick \<Longrightarrow> \<not> is_over_limit_up ord tick \<and> \<not> is_over_limit_down ord tick"
  using almost_zero_whole(1) [of 0]
  by (simp add: unlimited_def is_over_limit_up_def is_over_limit_down_def Let_def d0_def)

text \<open>An order as the interface makes it: nothing filled, no commission yet.\<close>

definition untouched :: "CerebroOrder \<Rightarrow> bool" where
  "untouched ord \<longleftrightarrow> co_filled_price ord = d0 \<and> co_filled_quantity ord = d0 \<and> co_transaction_cost ord = d0"

text \<open>
  C35. The check for funds leaves the commission out, since it is computed from what is filled so far, which is
  nothing. A purchase for all of the cash is accepted, and the commission makes the cash negative.
\<close>

theorem fee_unchecked:
  assumes "cb_account b = Some w" "aw_slippage w = 0" "aw_commission_rate w = DFin False rm re"
    "aw_get_cash w = d_of_int (p * n)" "0 < p" "0 < n" "p * n < 2 ^ 53"
    "co_action ord = OA_BUY" "co_type ord = OT_MARKET" "co_quantity ord = d_of_int n" "untouched ord"
    "unlimited tick" "ct_last tick = d_of_int p" "at0 (ct_ask_vols tick) = Inr (d_of_int v)" "n \<le> v" "v < 2 ^ 53"
    "d_lt d0 (d_mul (d_of_int (p * n)) (aw_commission_rate w))"
  shows "\<exists>o1 c w1. matcher_match mt tick ord b = Inr (0, o1, c) \<and> co_status o1 = OS_FILLED \<and>
    co_filled_quantity o1 = co_quantity ord \<and> cb_account c = Some w1 \<and>
    aw_get_cash w1 = d_sub d0 (d_mul (d_of_int (p * n)) (aw_commission_rate w)) \<and> d_lt (aw_get_cash w1) d0"
proof -
  have "p * 1 \<le> p * n" "1 * n \<le> p * n"
    using assms(5, 6) by (auto intro!: mult_left_mono mult_right_mono)
  then have pn: "p \<le> p * n" "n \<le> p * n" by simp_all
  have wh: "whole p" "whole n" "whole v" "whole (p * n)" using pn assms(5-7, 15, 16) by linarith+
  have lit: "\<exists>s m e. price_unit x = DFin s m e" for x
    unfolding price_unit_def by (rule exI [of _ False], rule exI [of _ 5764607523034235], rule exI [of _ "-59"]) code_simp
  then obtain s m e where u: "price_unit (co_symbol ord) = DFin s m e" by blast
  have slip: "slip w ord (ct_last tick) = d_of_int p"
    using assms(2, 5, 13) wh(1) by (simp only: slip_def u) (simp add: d_mul_zero d_add_zero_right)
  have zero: "d_mul (d_mul d0 d0) (aw_commission_rate w) = DZero False"
    unfolding assms(3) by (simp add: d0_def d_of_int_def d_round_def)
  have total: "d_add (d_mul (slip w ord (ct_last tick)) (co_quantity ord)) (aw_calc_commission w ord) = d_of_int (p * n)"
    using assms(5, 6, 10, 11) d_mul_of_int [OF wh(1, 2)] d_add_zero_right [OF wh(4)]
    by (simp add: slip aw_calc_commission_def untouched_def zero)
  have fill: "d_min (d_of_int v) (d_of_int n) = d_of_int n" using d_min_whole [OF wh(3, 2)] assms(15) by (simp add: min_def)
  have z: "almost_eq d0 d0 epsilon" "\<not> almost_ne (d_of_int n) (d_of_int n) epsilon"
    "\<not> almost_gt (d_of_int (p * n)) (d_of_int (p * n)) epsilon"
    using almost_zero_whole(2) [of 0] almost_whole [of n n] almost_whole [OF wh(4, 4)] wh(2) by (simp_all add: d0_def)
  define o1 where "o1 = fill_order w tick (d_of_int p) (d_of_int v) ord"
  have o1: "co_status o1 = OS_FILLED" "co_filled_quantity o1 = d_of_int n" "co_filled_price o1 = d_of_int p"
    "co_transaction_cost o1 = d_mul (d_of_int (p * n)) (aw_commission_rate w)"
    using assms(5, 6, 10, 11) fill z d_mul_of_int [OF wh(1, 2)]
    by (simp_all add: o1_def) (simp add: fill_order_def aw_calc_commission_def untouched_def)
  have tv: "traded_value o1 = d_of_int (p * n)"
    using d_mul_of_int [OF wh(1, 2)] assms(5, 6) by (simp add: traded_value_def o1)
  define w1 where "w1 = aw_transform_cash_to_market_value (traded_value o1) (co_transaction_cost o1) w"
  have "the_account b = Inr w" using assms(1) by (simp add: the_account_def)
  then have "matcher_match mt tick ord b = Inr (0, o1, b\<lparr>cb_account := Some w1\<rparr>)"
    using assms(4, 8, 9, 14) unlimited_free [OF assms(12)] z(3)
    by (simp add: matcher_match_def process_market_order_def buy_at_def Let_def total)
      (simp add: slip on_account_def w1_def o1_def)
  moreover have "aw_get_cash w1 = d_sub d0 (d_mul (d_of_int (p * n)) (aw_commission_rate w))"
    using assms(4) d_sub_of_int [OF wh(4, 4)]
    by (simp add: w1_def aw_get_cash_def aw_transform_cash_to_market_value_def revalue_def Let_def tv o1 d0_def)
  ultimately show ?thesis using o1 assms(10) d_sub_zero_neg [OF assms(17)] by simp
qed


text \<open>All of 1000 is spent on ten shares at 100; the commission of three per ten thousand is owed.\<close>

definition demo_order :: CerebroOrder where
  "demo_order = order_zero\<lparr>co_symbol := demo_sym, co_action := OA_BUY, co_type := OT_MARKET,
     co_status := OS_PENDING_NEW, co_quantity := d_of_int 10\<rparr>"

theorem fee_unchecked_witness:
  "\<exists>o1 c w1. matcher_match SSEMatcher (demo_tick 100 10) demo_order
      (broker_init (aw_set_cash (d_of_int 1000) (aw_new 1 [])) (broker_new demo_clock)) = Inr (0, o1, c) \<and>
    cb_account c = Some w1 \<and> d_lt (aw_get_cash w1) d0"
proof -
  let ?w = "aw_set_cash (d_of_int 1000) (aw_new 1 [])"
  have r: "aw_commission_rate ?w = DFin False 5534023222112865 (- 64)"
    by (simp add: aw_set_cash_def aw_new_def) code_simp
  have f: "d_lt d0 (d_mul (d_of_int (100 * 10)) (DFin False 5534023222112865 (- 64)))" by code_simp
  have "\<exists>o1 c w1. matcher_match SSEMatcher (demo_tick 100 10) demo_order (broker_init ?w (broker_new demo_clock)) =
      Inr (0, o1, c) \<and> co_status o1 = OS_FILLED \<and> co_filled_quantity o1 = co_quantity demo_order \<and>
      cb_account c = Some w1 \<and>
      aw_get_cash w1 = d_sub d0 (d_mul (d_of_int (100 * 10)) (aw_commission_rate ?w)) \<and> d_lt (aw_get_cash w1) d0"
    by (rule fee_unchecked [OF _ _ r, where p = 100 and n = 10 and v = 10])
      (use r f in \<open>simp_all add: broker_init_def aw_set_cash_def aw_new_def aw_get_cash_def demo_order_def
        order_zero_def untouched_def unlimited_def demo_tick_def tick_zero_def at0_def\<close>)
  then show ?thesis by blast
qed

section \<open>The commission of a part\<close>

text \<open>Zero or not a number: what the commission of an order is when nothing of it is filled.\<close>

definition zero_or_nan :: "double \<Rightarrow> bool" where
  "zero_or_nan x \<longleftrightarrow> x = DNan \<or> (\<exists>s. x = DZero s)"

lemma zero_or_nan_mul: "zero_or_nan x \<Longrightarrow> zero_or_nan (d_mul x y) \<and> zero_or_nan (d_mul y x)"
  by (cases y) (auto simp: zero_or_nan_def d_round_def)

lemma d_mul_nan [simp]: "d_mul DNan x = DNan" "d_mul x DNan = DNan"
  by (cases x; simp)+

lemma d_sub_nan [simp]: "d_sub DNan x = DNan" "d_sub x DNan = DNan"
  by (cases x; simp add: d_sub_def)+

lemma nan_not_zero [simp]: "\<not> almost_eq DNan x e" "\<not> d_lt DNan x" "\<not> d_lt x DNan"
  by (cases x; simp add: almost_eq_def d_le_def)+

lemma no_volume_share:
  assumes "0 < n" "n < 2 ^ 53"
  shows "d_div (d_of_int 0) (d_of_int n) = DZero False"
  using d_div_of_int [of 0 n] assms by (simp add: d_round_def)

lemma zero_over_zero: "zero_or_nan x \<Longrightarrow> d_div x (DZero False) = DNan"
  by (auto simp: zero_or_nan_def)

lemma match_one_bought:
  assumes "match_one tick ord b = Inr (o1, sos, b1)" "fresh s ord" "co_action ord = OA_BUY" "co_status o1 = OS_FILLED"
  obtains w p vol m where "cb_account b = Some w" "at0 (ct_ask_vols tick) = Inr vol"
    "o1 = (fill_order w tick p vol ord)\<lparr>co_mtime := m\<rparr>" "rest_of o1 sos"
    "cb_account b1 = Some (aw_transform_cash_to_market_value (traded_value o1) (co_transaction_cost o1) w)"
proof -
  have ord: "co_status ord = OS_PENDING_NEW" "co_symbol ord = s" "co_unfilled_quantity ord = d0"
    using assms(2) by (auto simp: fresh_def)
  have nd: "\<not> done_status ord" by (simp add: done_status_def ord)
  obtain mt where mt: "map_of (cb_matchers b) (exchange_of (co_symbol ord)) = Some mt"
    using assms(1, 4) nd ord by (cases "map_of (cb_matchers b) (exchange_of (co_symbol ord))") (auto simp: match_one_def)
  obtain rc m1 c where M: "matcher_match mt tick ord b = Inr (rc, m1, c)"
    using assms(1) nd mt by (auto simp: match_one_def rbind_eq_Inr)
  obtain m d where N: "now_ms c = (m, d)" by fastforce
  have R: "if rc \<noteq> 0 then o1 = m1 else after_match (m1\<lparr>co_mtime := m\<rparr>) d = Inr (o1, sos, b1)"
    using assms(1) nd mt M N by (auto simp: match_one_def)
  from M show thesis
  proof (cases rule: matcher_cases)
    case kept
    then show ?thesis
      using R assms(4) ord after_match_waits [of "m1\<lparr>co_mtime := m\<rparr>" d] by (auto split: if_splits)
  next
    case (rejected y)
    then show ?thesis
      using R assms(4) ord after_match_rejects [of "m1\<lparr>co_mtime := m\<rparr>" d] by (auto split: if_splits)
  next
    case (bought w p vol)
    have A: "after_match (m1\<lparr>co_mtime := m\<rparr>) d = Inr (o1, sos, b1)" using R bought(1) by simp
    have "o1 = m1\<lparr>co_mtime := m\<rparr> \<and> rest_of o1 sos \<and> cb_account b1 = cb_account d"
      by (rule after_match_fills [OF _ _ A]) (use bought(2, 5) in auto)
    moreover have "cb_account d = cb_account c" by (rule now_ms_frame(4) [OF N])
    ultimately show ?thesis using that [of w vol m p] bought by (auto simp: traded_value_def)
  next
    case (sold w p vol)
    then show ?thesis using assms(3) by simp
  qed
qed

text \<open>
  A purchase that meets an empty book is filled with nothing, and leaves an order for all of it whose
  commission is zero over zero, not a number. When that order is filled, in part or in full, the cash of the
  account is no number either, and from then on no amount is too much for it.
\<close>

theorem no_volume_nan:
  assumes "match_one tick ord b = Inr (o1, sos, b1)" "fresh s ord" "untouched ord" "co_action ord = OA_BUY"
    "co_quantity ord = d_of_int n" "0 < n" "n < 2 ^ 53" "at0 (ct_ask_vols tick) = Inr (d_of_int 0)"
    "co_status o1 = OS_FILLED"
    "match_one tick2 (hd sos) b2 = Inr (o2, sos2, b3)" "co_status o2 = OS_FILLED"
  shows "co_filled_quantity o1 = d0 \<and>
    (\<exists>so. sos = [so] \<and> co_quantity so = co_quantity ord \<and> co_transaction_cost so = DNan) \<and>
    (\<exists>w. cb_account b3 = Some w \<and> aw_get_cash w = DNan \<and> (\<forall>x. \<not> almost_gt x (aw_get_cash w) epsilon))"
proof -
  obtain w p vol m where F: "cb_account b = Some w" "at0 (ct_ask_vols tick) = Inr vol"
    "o1 = (fill_order w tick p vol ord)\<lparr>co_mtime := m\<rparr>" "rest_of o1 sos"
    by (rule match_one_bought [OF assms(1, 2, 4, 9)])
  have vol: "vol = d_of_int 0" using F(2) assms(8) by simp
  have n: "whole n" "whole 0" using assms(6, 7) by auto
  have q: "d_min (d_of_int 0) (d_of_int n) = d_of_int 0" using d_min_whole [of 0 n] n assms(6) by simp
  have ne: "almost_ne (d_of_int n) (d_of_int 0) epsilon" "d_sub (d_of_int n) (d_of_int 0) = d_of_int n"
    using almost_whole(1) [of n 0] d_sub_of_int [of n 0] assms(6) n by auto
  have o1: "co_filled_quantity o1 = d_of_int 0" "co_quantity o1 = d_of_int n" "co_unfilled_quantity o1 = d_of_int n"
    using ne assms(5) by (simp_all add: F(3) vol q fill_order_unfilled)
  have "zero_or_nan (d_mul (d_mul p (d_of_int 0)) (aw_commission_rate w))"
  proof -
    have "zero_or_nan (d_of_int 0)" by (auto simp: zero_or_nan_def d_of_int_def d_round_def intro: exI [of _ False])
    then show ?thesis using zero_or_nan_mul by blast
  qed
  then have "zero_or_nan (co_transaction_cost o1)"
    using assms(3, 5) ne q vol almost_zero_whole(2) [of 0] zero_or_nan_mul
    by (simp add: F(3) fill_order_def Let_def untouched_def aw_calc_commission_def d0_def)
  then have cost: "rest_cost o1 = DNan"
    using no_volume_share [OF assms(6, 7)] zero_over_zero by (simp add: rest_cost_def Let_def o1)
  obtain so where so: "sos = [so]" "fresh s so" "co_action so = OA_BUY" "co_quantity so = d_of_int n"
    "co_transaction_cost so = DNan"
    using F(4) almost_zero_whole(3) [OF n(1)] assms(2, 4, 6) cost
    by (auto simp: rest_of_def o1) (auto simp: F(3) fresh_def)
  obtain w2 p2 vol2 m2 where G: "cb_account b2 = Some w2" "o2 = (fill_order w2 tick2 p2 vol2 so)\<lparr>co_mtime := m2\<rparr>"
    "cb_account b3 = Some (aw_transform_cash_to_market_value (traded_value o2) (co_transaction_cost o2) w2)"
    by (rule match_one_bought [OF assms(10) [unfolded so(1) list.sel(1)] so(2, 3) assms(11)])
  have "co_transaction_cost o2 = DNan" by (simp add: G(2) fill_order_def Let_def so(5))
  then have "aw_get_cash (aw_transform_cash_to_market_value (traded_value o2) (co_transaction_cost o2) w2) = DNan"
    by (simp add: aw_get_cash_def aw_transform_cash_to_market_value_def revalue_def Let_def)
  then show ?thesis using G(3) so o1 assms(5) by (simp add: d0_def almost_gt_def)
qed


text \<open>Ten shares are wanted, none is on offer; at the next tick four are, and the cash is gone.\<close>

definition demo_broker :: CerebroBroker where
  "demo_broker = set_matcher (text_bytes ''SH'') SSEMatcher (set_order_id_generator demo_ids
     (broker_init (aw_set_cash (d_of_int 5000) (aw_new 1 [])) (broker_new demo_clock)))"

theorem no_volume_nan_witness:
  "\<exists>o1 sos b1 o2 sos2 b3 w. match_one (demo_tick 100 0) demo_order demo_broker = Inr (o1, sos, b1) \<and>
     match_one (demo_tick 100 4) (hd sos) b1 = Inr (o2, sos2, b3) \<and> cb_account b3 = Some w \<and> aw_get_cash w = DNan"
proof -
  have "case match_one (demo_tick 100 0) demo_order demo_broker of Inl _ \<Rightarrow> False
    | Inr (o1, sos, b1) \<Rightarrow> co_status o1 = OS_FILLED \<and>
        (case match_one (demo_tick 100 4) (hd sos) b1 of Inl _ \<Rightarrow> False
         | Inr (o2, sos2, b3) \<Rightarrow> co_status o2 = OS_FILLED)"
    by code_simp
  then obtain o1 sos b1 where 1: "match_one (demo_tick 100 0) demo_order demo_broker = Inr (o1, sos, b1)"
    "co_status o1 = OS_FILLED"
    "case match_one (demo_tick 100 4) (hd sos) b1 of Inl _ \<Rightarrow> False | Inr (o2, sos2, b3) \<Rightarrow> co_status o2 = OS_FILLED"
    by (cases "match_one (demo_tick 100 0) demo_order demo_broker") auto
  then obtain o2 sos2 b3 where 2: "match_one (demo_tick 100 4) (hd sos) b1 = Inr (o2, sos2, b3)"
    "co_status o2 = OS_FILLED"
    by (cases "match_one (demo_tick 100 4) (hd sos) b1") auto
  have "fresh demo_sym demo_order" "untouched demo_order" "co_action demo_order = OA_BUY"
    "co_quantity demo_order = d_of_int 10" "at0 (ct_ask_vols (demo_tick 100 0)) = Inr (d_of_int 0)"
    by (simp_all add: fresh_def untouched_def demo_order_def order_zero_def is_special_order_def demo_tick_def
        at0_def)
  from no_volume_nan [OF 1(1) this(1-4) _ _ this(5) 1(2) 2] 1(1) 2(1) show ?thesis by auto
qed

end
