(* ===== verification/Broker_Settle.thy ===== *)
theory Broker_Settle
  imports Broker_Book
begin

text \<open>
  The end of a day. No operation ever opens a short position, so a settlement cannot meet the short tracker whose
  message reads a missing long one; it makes the positions of the settled symbols closable, and removes no tracker.
\<close>

section \<open>No short positions\<close>

lemma match_queue_shorts:
  assumes "match_queue tick os b = Inr (os1, sos, c)" "\<forall>ord \<in> set os. fresh s ord" "book_ok b"
  shows "cb_spositions c = cb_spositions b"
  using match_queue_book [OF assms(1, 2)] assms(3) by (auto simp: book_ok_def same_frame_def)

lemma process_normal_order_shorts:
  assumes "process_normal_order tick b = Inr c" "book_ok b"
  shows "cb_spositions c = cb_spositions b"
proof (cases "map_of (cb_unfill_orders b) (ct_symbol tick)")
  case None
  then show ?thesis using assms(1) by (simp add: process_normal_order_def)
next
  case (Some os)
  then obtain os1 sos d where M: "match_queue tick os b = Inr (os1, sos, d)"
    and c: "cb_spositions c = cb_spositions (foldl (\<lambda>x ord. notify ord x) d sos)"
    using assms(1) by (auto simp: process_normal_order_def rbind_eq_Inr put_unfilled_def)
  have "\<forall>ord \<in> set os. fresh (ct_symbol tick) ord"
    using assms(2) Some items_ok_get [of _ "cb_unfill_orders b" _ os] by (auto simp: book_ok_def)
  then show ?thesis
    using match_queue_shorts [OF M _ assms(2)] notify_all_frame(1) [of d sos] c by (auto simp: same_frame_def)
qed

lemma position_update_shorts: "cb_spositions b = [] \<Longrightarrow> cb_spositions (do_position_update tick b) = []"
  by (simp add: do_position_update_def Let_def)

lemma update_account_shorts: "update_account b = Inr c \<Longrightarrow> cb_spositions c = cb_spositions b"
  by (auto simp: update_account_def on_account_Inr)

lemma on_tick_shorts:
  assumes "on_tick tick b = Inr c" "book_ok b" "cb_spositions b = []"
  shows "cb_spositions c = []"
proof -
  define b1 where "b1 = (if has_position (ct_symbol tick) b then do_position_update tick b else b)"
  obtain b2 where P: "process_normal_order tick b1 = Inr b2" "update_account (do_position_update tick b2) = Inr c"
    using assms(1) by (auto simp: on_tick_def rbind_eq_Inr Let_def b1_def)
  have "book_ok b1 \<and> cb_spositions b1 = []"
    using assms(2, 3) position_update_book position_update_shorts by (auto simp: b1_def grows_of_def)
  then have "cb_spositions b2 = []" using process_normal_order_shorts [OF P(1)] by simp
  then show ?thesis using update_account_shorts [OF P(2)] position_update_shorts by simp
qed

lemma settle_one_shorts: "settle_one r b = Inr c \<Longrightarrow> cb_spositions b = [] \<Longrightarrow> cb_spositions c = []"
  by (auto simp: settle_one_def Let_def put_long_def split: option.splits)

lemma settle_all_shorts: "settle_all rs b = Inr c \<Longrightarrow> cb_spositions b = [] \<Longrightarrow> cb_spositions c = []"
  by (induction rs arbitrary: b) (auto simp: rbind_eq_Inr dest: settle_one_shorts)

lemma settle_shorts: "settle rs b = Inr c \<Longrightarrow> cb_spositions b = [] \<Longrightarrow> cb_spositions c = []"
  by (auto simp: settle_def rbind_eq_Inr dest!: remove_trackers_same update_account_shorts settle_all_shorts)

lemma commit_order_shorts: "commit_order ord b = Inr c \<Longrightarrow> cb_spositions c = cb_spositions b"
  by (auto simp: commit_order_def process_special_order_def put_unfilled_def add_filled_def now_ms_def rbind_eq_Inr
      Let_def on_account_Inr put_long_def open_long_eq case_prod_unfold split: if_splits ORDER_ACTION.splits)

lemma submit_shorts: "submit s q p st ty ac b = Inr (i, c) \<Longrightarrow> cb_spositions c = cb_spositions b"
  by (auto simp: submit_def rbind_eq_Inr next_order_id_def now_ms_def Let_def
      split: option.splits dest!: commit_order_shorts)

lemma do_op_shorts:
  assumes "do_op op' b = Inr c" "book_ok b" "cb_spositions b = []"
  shows "cb_spositions c = []"
  using assms
  by (cases op')
    (auto simp: rbind_eq_Inr broker_buy_def broker_sell_def broker_buy_to_cover_def broker_sell_short_def
      dividend_order_def cancel_order_def deposit_cash_def withdraw_cash_def set_order_id_generator_def
      set_order_update_callback_def set_matcher_def broker_init_def broker_init_conf_def set_date_def
      dest: submit_shorts on_tick_shorts settle_shorts split: if_splits)

lemma reaches_shorts: "reaches b c \<Longrightarrow> book_ok b \<Longrightarrow> cb_spositions b = [] \<Longrightarrow> book_ok c \<and> cb_spositions c = []"
  by (induction rule: reaches.induct) (auto dest: do_op_book do_op_shorts simp: grows_of_def)

section \<open>Settlement\<close>

text \<open>
  What the candles do to the positions: quantities stay, the positions of the settled symbols are closable, the
  trackers are the same ones.
\<close>

definition settled :: "CerebroKlineRecord list \<Rightarrow> CerebroBroker \<Rightarrow> CerebroBroker \<Rightarrow> bool" where
  "settled rs b c \<longleftrightarrow>
     map fst (cb_lpositions c) = map fst (cb_lpositions b) \<and>
     (\<forall>s. let p = pt_position (long_tracker s b); q = pt_position (long_tracker s c)
          in cp_quantity q = cp_quantity p \<and>
             cp_closable q = (if s \<in> ck_symbol ` set rs then cp_quantity p else cp_closable p))"

lemma tracker_settle_fields:
  "cp_quantity (pt_position (tracker_settle r t)) = cp_quantity (pt_position t)"
  "cp_closable (pt_position (tracker_settle r t)) = cp_quantity (pt_position t)"
  by (simp_all add: tracker_settle_def tracker_update_kline_def update_pnl_def Let_def)

lemma put_item_keys:
  assumes "ordered_items its" "map_of its k \<noteq> None"
  shows "map fst (put_item (k, v) its) = map fst its"
proof -
  have s: "sorted_wrt (<) (map fst (put_item (k, v) its))" "sorted_wrt (<) (map fst its)"
    using ordered_put [OF assms(1)] assms(1) by (auto simp: ordered_items_def)
  moreover have "set (map fst (put_item (k, v) its)) = set (map fst its)"
  proof -
    have "set (put_item (k, v) its) = insert (k, v) {y \<in> set its. fst y \<noteq> k}"
      using put_item_set [OF assms(1), of "(k, v)"] by simp
    then have "fst ` set (put_item (k, v) its) = insert k {x \<in> fst ` set its. x \<noteq> k}" by auto
    moreover have "k \<in> fst ` set its" using assms(2) by (simp add: map_of_eq_None_iff)
    ultimately show ?thesis by auto
  qed
  ultimately show ?thesis using strict_sorted_equal by blast
qed

lemma settle_one_settled:
  assumes "book_ok b" "cb_spositions b = []"
  shows "\<exists>c. settle_one r b = Inr c \<and> settled [r] b c \<and> cb_account c = cb_account b"
proof (cases "map_of (cb_lpositions b) (ck_symbol r)")
  case None
  then have "long_tracker (ck_symbol r) b = tracker_new (ck_symbol r) PD_LONG 1" by (simp add: long_tracker_def)
  then show ?thesis
    using None assms(2)
    by (simp add: settle_one_def settled_def Let_def tracker_new_def position_zero_def)
next
  case (Some t)
  have ord: "ordered_items (cb_lpositions b)" using assms(1) by (simp add: book_ok_def items_ok_def)
  have "long_tracker s (put_long (ck_symbol r) (tracker_settle r t) b) =
      (if s = ck_symbol r then tracker_settle r t else long_tracker s b)" for s
    using map_of_put [OF ord, of "ck_symbol r" "tracker_settle r t"] by (simp add: long_tracker_def put_long_def)
  moreover have "long_tracker (ck_symbol r) b = t" using Some by (simp add: long_tracker_def)
  ultimately show ?thesis
    using Some assms(2) put_item_keys [OF ord, of "ck_symbol r"]
    by (auto simp: settle_one_def settled_def Let_def tracker_settle_fields put_long_def)
qed

lemma settled_trans:
  assumes "settled [r] b c" "settled rs c d"
  shows "settled (r # rs) b d"
  using assms by (auto simp: settled_def Let_def)

lemma settle_all_settled:
  assumes "book_ok b" "cb_spositions b = []"
  shows "\<exists>c. settle_all rs b = Inr c \<and> settled rs b c \<and> cb_account c = cb_account b"
  using assms
proof (induction rs arbitrary: b)
  case Nil
  then show ?case by (simp add: settled_def Let_def)
next
  case (Cons r rs)
  obtain c where c: "settle_one r b = Inr c" "settled [r] b c" "cb_account c = cb_account b"
    using settle_one_settled [OF Cons.prems] by blast
  have "book_ok c" "cb_spositions c = []"
    using settle_one_book [OF c(1) Cons.prems(1)] settle_one_shorts [OF c(1) Cons.prems(2)]
    by (auto simp: grows_of_def)
  then obtain d where "settle_all rs c = Inr d" "settled rs c d" "cb_account d = cb_account c"
    using Cons.IH by blast
  then show ?case using c settled_trans by auto
qed

lemma remove_trackers_keep:
  assumes "\<forall>t \<in> set ts. cp_direction (pt_position t) = PD_LONG \<and>
      map_of (cb_lpositions b) (cp_symbol (pt_position t)) \<noteq> None"
  shows "remove_trackers ts b = Inr b"
  using assms by (induction ts) (auto simp: remove_tracker_def)

text \<open>
  C25. Settling a day. Whatever was done with a broker that has an account, a settlement has a result: the shares of
  every symbol with a candle become closable and no other ones do, quantities stay, and every tracker is
  still there, although the last step is to remove those of the empty positions; short positions there are none.
\<close>

theorem settle_day:
  assumes "reaches (broker_new clk) b" "cb_account b \<noteq> None"
  shows "\<exists>c. settle rs b = Inr c \<and> settled rs b c \<and> cb_spositions c = []"
proof -
  have ok: "book_ok b" "cb_spositions b = []"
    using reaches_shorts [OF assms(1) broker_start_ok] by (auto simp: broker_new_def)
  obtain d where d: "settle_all rs b = Inr d" "settled rs b d" "cb_account d = cb_account b"
    using settle_all_settled [OF ok] by blast
  obtain w where w: "cb_account d = Some w" using d(3) assms(2) by auto
  obtain e where e: "update_account d = Inr e" by (simp add: update_account_def on_account_def the_account_def w)
  have de: "book_grows b d" "cb_lpositions e = cb_lpositions d"
    using settle_all_book [OF d(1) ok(1)] e by (auto simp: update_account_def on_account_Inr)
  have sp: "cb_spositions e = []"
    using settle_all_shorts [OF d(1) ok(2)] update_account_shorts [OF e] by simp
  have "items_ok (tracker_for PD_LONG) (cb_lpositions e)"
    using de by (simp add: grows_of_def book_ok_def)
  then have "\<forall>t \<in> set (get_all_tracker e). cp_direction (pt_position t) = PD_LONG \<and>
      map_of (cb_lpositions e) (cp_symbol (pt_position t)) \<noteq> None"
    by (force simp: get_all_tracker_def sp items_ok_def tracker_for_def map_of_eq_None_iff)
  then have "settle rs b = Inr e"
    using d(1) e remove_trackers_keep [of "get_all_tracker e" e] by (simp add: settle_def)
  moreover have "settled rs b e"
    using d(2) tracker_of_lpositions [OF de(2)] by (simp add: settled_def de(2))
  ultimately show ?thesis using sp by blast
qed

text \<open>Four shares are bought, then the day is settled with one candle.\<close>

definition demo_day :: "broker_op list" where
  "demo_day = [OpDeposit (d_of_int 1000) False, OpBuy demo_sym (d_of_int 4) d0, OpTick (demo_tick 10 4)]"

theorem settle_day_witness:
  "\<exists>b c. demo_run demo_day = Inr b \<and> settle [kline_zero\<lparr>ck_symbol := demo_sym, ck_close := d_of_int 11\<rparr>] b = Inr c \<and>
     cp_closable (pt_position (long_tracker demo_sym b)) = d_of_int 0 \<and>
     cp_closable (pt_position (long_tracker demo_sym c)) = d_of_int 4"
proof -
  have "case demo_run demo_day of Inl _ \<Rightarrow> False | Inr b \<Rightarrow> cb_account b \<noteq> None \<and>
      cp_quantity (pt_position (long_tracker demo_sym b)) = d_of_int 4 \<and>
      cp_closable (pt_position (long_tracker demo_sym b)) = d_of_int 0"
    by code_simp
  then obtain b where b: "demo_run demo_day = Inr b" "cb_account b \<noteq> None"
    "cp_quantity (pt_position (long_tracker demo_sym b)) = d_of_int 4"
    "cp_closable (pt_position (long_tracker demo_sym b)) = d_of_int 0"
    by (auto split: sum.splits)
  have "reaches (broker_new demo_clock) b"
    using do_ops_reaches [OF b(1) [unfolded demo_run_def]] by (auto intro: reaches.start)
  from settle_day [OF this b(2), of "[kline_zero\<lparr>ck_symbol := demo_sym, ck_close := d_of_int 11\<rparr>]"] b show ?thesis
    by (auto simp: settled_def Let_def)
qed

end
