(* ===== verification/Broker_Orders.thy ===== *)
theory Broker_Orders
  imports Broker_Book "HOL-Library.Multiset"
begin

text \<open>
  What becomes of orders: the multiset of the order numbers that \<open>current_orders\<close> reports grows by exactly the numbers
  an operation draws from the generator. So no order is lost, and none is reported twice.
\<close>

section \<open>The numbers of a book\<close>

definition order_numbers :: "CerebroBroker \<Rightarrow> i64 multiset" where
  "order_numbers b = mset (map co_order_id (current_orders b))"

text \<open>The numbers drawn while the counter of the generator went from m to n.\<close>

definition drawn :: "(nat \<Rightarrow> i64) option \<Rightarrow> nat \<Rightarrow> nat \<Rightarrow> i64 multiset" where
  "drawn gen m n = (case gen of Some g \<Rightarrow> mset (map g [m ..< n]) | None \<Rightarrow> {#})"

lemma drawn_nothing [simp]: "drawn gen n n = {#}" by (simp add: drawn_def split: option.splits)

lemma drawn_one: "drawn (Some g) n (Suc n) = {#g n#}" by (simp add: drawn_def)

lemma drawn_trans:
  assumes "l \<le> m" "m \<le> n"
  shows "drawn gen l m + drawn gen m n = drawn gen l n"
proof -
  have "[l ..< n] = [l ..< m] @ [m ..< n]" using assms by (metis le_add_diff_inverse upt_add_eq_append)
  then show ?thesis by (simp add: drawn_def split: option.splits)
qed

definition numbered :: "CerebroBroker \<Rightarrow> CerebroBroker \<Rightarrow> bool" where
  "numbered b c \<longleftrightarrow> cb_order_id_gen c = cb_order_id_gen b \<and> cb_ids b \<le> cb_ids c \<and>
     order_numbers c = order_numbers b + drawn (cb_order_id_gen b) (cb_ids b) (cb_ids c)"

lemma numbered_trans: "numbered a b \<Longrightarrow> numbered b c \<Longrightarrow> numbered a c"
  by (auto simp: numbered_def drawn_trans add.assoc)

lemma numbered_same:
  "cb_filled_orders c = cb_filled_orders b \<Longrightarrow> cb_unfill_orders c = cb_unfill_orders b \<Longrightarrow>
   cb_order_id_gen c = cb_order_id_gen b \<Longrightarrow> cb_ids c = cb_ids b \<Longrightarrow> numbered b c"
  by (simp add: numbered_def order_numbers_def current_orders_def)

lemma queue_put:
  assumes "ordered_items its"
  shows "mset (concat (map snd (put_item (k, v) its))) + mset (case map_of its k of Some u \<Rightarrow> u | None \<Rightarrow> []) =
    mset (concat (map snd its)) + mset v"
  using assms
proof (induction its)
  case (Cons x its)
  have ord: "ordered_items its" "\<forall>y \<in> set its. fst x < fst y" using Cons.prems by auto
  show ?case
  proof (cases "fst x" k rule: linorder_cases)
    case less
    then have "put_item (k, v) (x # its) = x # put_item (k, v) its" by (simp add: put_item_def)
    then show ?thesis using Cons.IH [OF ord(1)] less by (cases x) (auto simp: ac_simps)
  next
    case equal
    then have "put_item (k, v) (x # its) = (k, v) # its"
      using ord put_item_first [of its "(k, v)"] by (cases x) (auto simp: put_item_def)
    then show ?thesis using equal by (cases x) (auto simp: ac_simps)
  next
    case greater
    then have "put_item (k, v) (x # its) = (k, v) # x # its"
      using ord by (intro put_item_first) auto
    moreover have "map_of (x # its) k = None"
      using greater ord by (auto simp: map_of_eq_None_iff)
    ultimately show ?thesis by (simp add: ac_simps)
  qed
qed (simp add: put_item_def)

lemma queue_numbers:
  assumes "ordered_items (cb_unfill_orders b)"
  shows "order_numbers (put_unfilled s os b) + mset (map co_order_id (unfilled_of s b)) =
    order_numbers b + mset (map co_order_id os)"
proof -
  have "image_mset co_order_id (mset (concat (map snd (put_item (s, os) (cb_unfill_orders b)))) + mset (unfilled_of s b)) =
      image_mset co_order_id (mset (concat (map snd (cb_unfill_orders b))) + mset os)"
    using queue_put [OF assms, of s os] by (simp add: unfilled_of_def)
  then show ?thesis
    by (simp add: order_numbers_def current_orders_def put_unfilled_def add.assoc)
qed

lemma add_filled_numbers: "order_numbers (add_filled ord b) = order_numbers b + {#co_order_id ord#}"
  by (simp add: order_numbers_def current_orders_def add_filled_def)

lemma book_queues: "book_of Q b \<Longrightarrow> ordered_items (cb_unfill_orders b)"
  by (simp add: book_of_def items_ok_def)

section \<open>Numbers through the operations\<close>

text \<open>What a step leaves to the numbers: the queues, the generator and its counter.\<close>

definition still :: "CerebroBroker \<Rightarrow> CerebroBroker \<Rightarrow> bool" where
  "still b c \<longleftrightarrow> cb_order_id_gen c = cb_order_id_gen b \<and> cb_ids c = cb_ids b \<and>
     cb_unfill_orders c = cb_unfill_orders b"

lemma still_trans: "still a b \<Longrightarrow> still b c \<Longrightarrow> still a c" by (simp add: still_def)

lemma still_steps [simp]:
  "still b b" "still b (open_long s b)" "still b (put_long s t b)" "still b (snd (now_ms b))" "still b (notify ord b)"
  "still b (add_filled ord b)" "still b (b\<lparr>cb_account := a\<rparr>)"
  by (simp_all add: still_def open_long_eq put_long_def now_ms_def notify_def add_filled_def)

lemma special_order_still:
  assumes "process_special_order ord b = Inr (rc, c)"
  shows "still b c \<and> cb_filled_orders c = cb_filled_orders b"
proof -
  have [simp]: "still b ((put_long s t (open_long s b))\<lparr>cb_account := a\<rparr>)" for s t a
    by (simp add: still_def open_long_eq put_long_def)
  have [simp]: "cb_filled_orders (put_long s t x) = cb_filled_orders x" for s t x by (simp add: put_long_def)
  show ?thesis
    using assms
    by (auto simp: process_special_order_def Let_def rbind_eq_Inr on_account_Inr case_prod_unfold
        split: ORDER_ACTION.splits if_splits)
qed

lemma commit_order_numbers:
  assumes "commit_order ord b = Inr c" "book_of Q b"
  shows "order_numbers c = order_numbers b + {#co_order_id ord#} \<and> cb_order_id_gen c = cb_order_id_gen b \<and> cb_ids c = cb_ids b"
proof -
  have queue: "order_numbers (put_unfilled s (unfilled_of s b @ [ord]) b) = order_numbers b + {#co_order_id ord#}" for s
    using queue_numbers [OF book_queues [OF assms(2)], of s "unfilled_of s b @ [ord]"] by simp
  have special: "order_numbers (add_filled x (snd (now_ms d))) = order_numbers b + {#co_order_id x#} \<and>
      cb_order_id_gen (add_filled x (snd (now_ms d))) = cb_order_id_gen b \<and> cb_ids (add_filled x (snd (now_ms d))) = cb_ids b"
    if "process_special_order ord b = Inr (rc, d)" for rc d x
    using special_order_still [OF that]
    by (simp add: add_filled_numbers still_def now_ms_def) (simp add: add_filled_def order_numbers_def current_orders_def)
  show ?thesis
    using assms(1) queue special add_filled_numbers [of ord b, unfolded add_filled_def]
    by (auto simp: commit_order_def rbind_eq_Inr case_prod_unfold Let_def add_filled_numbers put_unfilled_def
        add_filled_def split: if_splits)
qed

lemma submit_numbers:
  assumes "submit s q p st ty ac b = Inr (i, c)" "book_of Q b"
  shows "numbered b c"
proof -
  obtain g where g: "cb_order_id_gen b = Some g"
    using assms(1) by (auto simp: submit_def rbind_eq_Inr next_order_id_def split: option.splits)
  define d where "d = b\<lparr>cb_ids := Suc (cb_ids b), cb_clock_calls := Suc (Suc (cb_clock_calls b))\<rparr>"
  have d: "book_of Q d" "order_numbers d = order_numbers b" "cb_order_id_gen d = Some g"
    using assms(2) g by (simp_all add: d_def book_of_def order_numbers_def current_orders_def)
  obtain x where "commit_order x d = Inr c" "co_order_id x = g (cb_ids b)"
    using assms(1) g
    by (force simp: submit_def rbind_eq_Inr next_order_id_def now_ms_def Let_def d_def)
  then show ?thesis
    using commit_order_numbers [of x d c] d g by (simp add: numbered_def drawn_one) (simp add: d_def drawn_one)
qed

text \<open>An order keeps its number through a match, and the order for its rest draws the next one.\<close>

definition numbers_of :: "CerebroBroker \<Rightarrow> CerebroBroker \<Rightarrow> CerebroOrder list \<Rightarrow> bool" where
  "numbers_of b c sos \<longleftrightarrow> cb_order_id_gen c = cb_order_id_gen b \<and> cb_ids b \<le> cb_ids c \<and>
     cb_unfill_orders c = cb_unfill_orders b \<and>
     mset (map co_order_id sos) = drawn (cb_order_id_gen b) (cb_ids b) (cb_ids c)"

lemma numbers_of_still: "still b c \<Longrightarrow> numbers_of b c []" by (simp add: numbers_of_def still_def)

lemma numbers_of_append: "numbers_of a b xs \<Longrightarrow> numbers_of b c ys \<Longrightarrow> numbers_of a c (xs @ ys)"
  by (auto simp: numbers_of_def drawn_trans)

lemma numbers_of_after: "still a b \<Longrightarrow> numbers_of b c ys \<Longrightarrow> numbers_of a c ys"
  by (auto simp: numbers_of_def still_def)

lemma suborder_numbers:
  assumes "suborder ord b = Inr (so, c)"
  shows "numbers_of b c [so]"
  using assms
  by (auto simp: suborder_def rbind_eq_Inr next_order_id_def now_ms_def Let_def numbers_of_def drawn_one
      split: option.splits)

lemma matcher_still:
  assumes "matcher_match mt tick ord b = Inr (rc, o1, c)"
  shows "still b c \<and> co_order_id o1 = co_order_id ord"
  using assms
proof (cases rule: matcher_cases)
  case kept
  then show ?thesis by auto
next
  case (rejected y)
  then show ?thesis by (auto simp: reject_def)
next
  case (bought w p vol)
  then show ?thesis by (simp add: fill_order_def Let_def)
next
  case (sold w p vol)
  then show ?thesis by (simp add: fill_order_def Let_def still_def open_long_eq)
qed

lemma on_order_update_still: "on_order_update ord b = Inr c \<Longrightarrow> still b c"
  by (auto simp: on_order_update_def Let_def rbind_eq_Inr still_def open_long_eq put_long_def split: if_splits)

lemma after_match_numbers:
  assumes "after_match ord b = Inr (o1, sos, c)"
  shows "numbers_of b c sos \<and> o1 = ord"
proof -
  obtain b1 where b1: "on_order_update ord b = Inr b1" using assms by (auto simp: after_match_def rbind_eq_Inr)
  define b2 where "b2 = (if co_status ord \<noteq> OS_PENDING_NEW then notify ord b1 else b1)"
  define b3 where "b3 = (if done_status ord then add_filled ord b2 else b2)"
  have "still b b3"
    using on_order_update_still [OF b1] still_steps(5) [of b1 ord] still_steps(6) [of b2 ord]
    by (simp add: b2_def b3_def still_def split: if_splits)
  moreover have "(if almost_ne (co_unfilled_quantity ord) d0 epsilon
      then rbind (left_at (ord, b3) (suborder ord b3)) (\<lambda>(so, b4). Inr (ord, [so], b4)) else Inr (ord, [], b3)) = Inr (o1, sos, c)"
    using assms by (simp only: after_match_def b1 left_simps rbind_simps Let_def b2_def b3_def)
  ultimately show ?thesis
    using numbers_of_still numbers_of_after suborder_numbers
    by (auto simp: rbind_eq_Inr split: if_splits)
qed

lemma match_one_numbers:
  assumes "match_one tick ord b = Inr (o1, sos, c)"
  shows "numbers_of b c sos \<and> co_order_id o1 = co_order_id ord"
proof (cases "done_status ord \<or> map_of (cb_matchers b) (exchange_of (co_symbol ord)) = None")
  case True
  then show ?thesis using assms numbers_of_still by (auto simp: match_one_def split: if_splits option.splits)
next
  case False
  then obtain mt rc m d where M: "matcher_match mt tick ord b = Inr (rc, m, d)"
    "(if rc \<noteq> 0 then Inr (m, [], d)
      else let (now, d2) = now_ms d in after_match (m\<lparr>co_mtime := now\<rparr>) d2) = Inr (o1, sos, c)"
    using assms by (auto simp: match_one_def rbind_eq_Inr)
  note m = matcher_still [OF M(1)]
  show ?thesis
  proof (cases "rc = 0")
    case True
    then have "after_match (m\<lparr>co_mtime := fst (now_ms d)\<rparr>) (snd (now_ms d)) = Inr (o1, sos, c)"
      using M(2) by (simp add: case_prod_unfold Let_def)
    from after_match_numbers [OF this] show ?thesis
      using m numbers_of_after [OF still_trans [OF _ still_steps(4)], of b d c sos] by simp
  qed (use M(2) m numbers_of_still in auto)
qed

lemma match_queue_numbers:
  assumes "match_queue tick os b = Inr (os1, sos, c)"
  shows "numbers_of b c sos \<and> map co_order_id os1 = map co_order_id os"
  using assms
proof (induction os arbitrary: b os1 sos)
  case (Cons ord os)
  then obtain o1 so d os2 sos2 where "match_one tick ord b = Inr (o1, so, d)"
    "match_queue tick os d = Inr (os2, sos2, c)" "os1 = o1 # os2" "sos = so @ sos2"
    by (auto simp: rbind_eq_Inr)
  then show ?case using match_one_numbers Cons.IH numbers_of_append by fastforce
qed (simp add: numbers_of_still)

lemma notify_all_still: "still b (foldl (\<lambda>x ord. notify ord x) b os)"
proof (induction os arbitrary: b)
  case (Cons x os)
  have "still b (notify x b)" by simp
  from still_trans [OF this Cons.IH] show ?case by simp
qed simp

lemma split_done: "mset (map f (filter P xs)) + mset (map f (filter (\<lambda>x. \<not> P x) xs)) = mset (map f xs)"
  by (induction xs) auto

lemma process_normal_order_numbers:
  assumes "process_normal_order tick b = Inr c" "book_of queued b"
  shows "numbered b c"
proof (cases "map_of (cb_unfill_orders b) (ct_symbol tick)")
  case None
  then show ?thesis using assms by (simp add: process_normal_order_def numbered_same)
next
  case (Some os)
  let ?s = "ct_symbol tick"
  obtain os1 sos d where M: "match_queue tick os b = Inr (os1, sos, d)"
    and c: "c = put_unfilled ?s (filter (\<lambda>ord. \<not> done_status ord) os1 @ sos) (foldl (\<lambda>x ord. notify ord x) d sos)"
    using assms(1) Some by (auto simp: process_normal_order_def rbind_eq_Inr)
  define e where "e = foldl (\<lambda>x ord. notify ord x) d sos"
  have fr: "\<forall>ord \<in> set os. queued ?s ord"
    using assms(2) Some items_ok_get [of _ "cb_unfill_orders b" ?s os] by (auto simp: book_of_def)
  have filled: "cb_filled_orders e = cb_filled_orders b @ filter done_status os1"
    using match_queue_queued [OF M fr] assms(2) notify_all_frame(3) [of d sos] by (simp add: e_def book_of_def)
  have n: "numbers_of b d sos" "map co_order_id os1 = map co_order_id os" using match_queue_numbers [OF M] by auto
  have e: "cb_unfill_orders e = cb_unfill_orders b" "cb_order_id_gen e = cb_order_id_gen b" "cb_ids e = cb_ids d"
    using n(1) notify_all_still [of d sos] by (simp_all add: e_def numbers_of_def still_def)
  have "order_numbers e = order_numbers b + mset (map co_order_id (filter done_status os1))"
    by (simp add: order_numbers_def current_orders_def filled e)
  moreover have "order_numbers c + mset (map co_order_id os) =
      order_numbers e + mset (map co_order_id (filter (\<lambda>ord. \<not> done_status ord) os1 @ sos))"
    using queue_numbers [of e ?s "filter (\<lambda>ord. \<not> done_status ord) os1 @ sos"] book_queues [OF assms(2)] Some
    by (simp add: c e_def [symmetric] e unfilled_of_def)
  ultimately have "order_numbers c + mset (map co_order_id os) =
      order_numbers b + mset (map co_order_id sos) + mset (map co_order_id os)"
    using split_done [of co_order_id done_status os1] n(2) by (simp add: ac_simps)
  then have "order_numbers c = order_numbers b + mset (map co_order_id sos)" by simp
  then show ?thesis using n(1) e by (simp add: numbered_def numbers_of_def c e_def put_unfilled_def)
qed

lemma settle_one_numbers: "settle_one r b = Inr c \<Longrightarrow> numbered b c"
  by (auto simp: settle_one_def Let_def put_long_def intro!: numbered_same split: option.splits if_splits)

lemma settle_all_numbers: "settle_all rs b = Inr c \<Longrightarrow> numbered b c"
proof (induction rs arbitrary: b)
  case (Cons r rs)
  then show ?case using settle_one_numbers numbered_trans by (fastforce simp: rbind_eq_Inr)
qed (simp add: numbered_same)

lemma update_account_numbers: "update_account b = Inr c \<Longrightarrow> numbered b c"
  by (auto simp: update_account_def on_account_Inr intro!: numbered_same)

lemma position_update_numbers: "numbered b (do_position_update tick b)"
  by (simp add: do_position_update_def Let_def numbered_same)

lemma on_tick_numbers:
  assumes "on_tick tick b = Inr c" "book_of queued b"
  shows "numbered b c"
proof -
  define b1 where "b1 = (if has_position (ct_symbol tick) b then do_position_update tick b else b)"
  obtain b2 where P: "process_normal_order tick b1 = Inr b2" "update_account (do_position_update tick b2) = Inr c"
    using assms(1) by (auto simp: on_tick_def rbind_eq_Inr Let_def b1_def)
  have "numbered b b1" "book_of queued b1"
    using assms(2) position_update_numbers position_update_book by (auto simp: b1_def numbered_same grows_of_def)
  then show ?thesis
    using process_normal_order_numbers [OF P(1)] update_account_numbers [OF P(2)] position_update_numbers numbered_trans
    by meson
qed

lemma settle_numbers:
  assumes "settle rs b = Inr c"
  shows "numbered b c"
proof -
  obtain d e where "settle_all rs b = Inr d" "update_account d = Inr e" "remove_trackers (get_all_tracker e) e = Inr c"
    using assms by (auto simp: settle_def rbind_eq_Inr)
  then show ?thesis
    using settle_all_numbers update_account_numbers numbered_trans remove_trackers_same by metis
qed

lemma do_op_numbers:
  assumes "do_op op' b = Inr c" "book_of queued b" "\<forall>g. op' \<noteq> OpGenerator g"
  shows "numbered b c"
  using assms
  by (cases op')
    (auto simp: rbind_eq_Inr broker_buy_def broker_sell_def broker_buy_to_cover_def broker_sell_short_def
      dividend_order_def cancel_order_def deposit_cash_def withdraw_cash_def
      set_order_update_callback_def set_matcher_def broker_init_def broker_init_conf_def set_date_def
      intro: numbered_same submit_numbers on_tick_numbers settle_numbers split: if_splits)

text \<open>
  An operation that throws reports no new number, though it may have drawn some: a tick that throws loses the orders
  for the rests of the orders it has filled.
\<close>

definition numbers_within :: "CerebroBroker \<Rightarrow> CerebroBroker \<Rightarrow> bool" where
  "numbers_within b c \<longleftrightarrow> cb_order_id_gen c = cb_order_id_gen b \<and> cb_ids b \<le> cb_ids c \<and>
     set_mset (order_numbers c) \<subseteq> set_mset (order_numbers b) \<union> set_mset (drawn (cb_order_id_gen b) (cb_ids b) (cb_ids c))"

lemma numbers_within_numbered: "numbered b c \<Longrightarrow> numbers_within b c"
  by (simp add: numbered_def numbers_within_def)

lemma numbers_within_trans:
  assumes "numbers_within a b" "numbers_within b c"
  shows "numbers_within a c"
proof -
  have "drawn (cb_order_id_gen a) (cb_ids a) (cb_ids c) =
      drawn (cb_order_id_gen a) (cb_ids a) (cb_ids b) + drawn (cb_order_id_gen b) (cb_ids b) (cb_ids c)"
    using assms drawn_trans by (simp add: numbers_within_def)
  then show ?thesis using assms by (auto simp: numbers_within_def)
qed

lemma match_queue_drawn:
  assumes "match_queue tick os b = Inl (e, os1, c)" "thrown e" "\<forall>ord \<in> set os. queued s ord"
    "items_ok (tracker_for PD_LONG) (cb_lpositions b)"
  shows "cb_ids b \<le> cb_ids c \<and> map co_order_id os1 = map co_order_id os"
  using assms
proof (induction os arbitrary: b os1)
  case (Cons ord os)
  have qs: "queued s ord" "\<forall>ord \<in> set os. queued s ord" using Cons.prems(3) by auto
  show ?case
  proof (cases "match_one tick ord b")
    case (Inl x)
    obtain y o1 d where x: "x = (y, o1, d)" by (metis prod_cases3)
    have E: "e = y" "os1 = o1 # os" "c = d" using Cons.prems(1) Inl x by simp_all
    have "match_one tick ord b = Inl (e, o1, c)" using Inl x E by simp
    from match_one_thrown [OF this Cons.prems(2) qs(1) Cons.prems(4)] show ?thesis using E(2) by simp
  next
    case (Inr x)
    obtain o1 so d where x: "x = (o1, so, d)" by (metis prod_cases3)
    note M = Inr [unfolded x]
    obtain os2 where T: "match_queue tick os d = Inl (e, os2, c)" "os1 = o1 # os2"
      using Cons.prems(1) M by (auto simp: rbind_eq_Inl left_Inl)
    have "items_ok (tracker_for PD_LONG) (cb_lpositions d)" using match_one_book [OF M qs(1) Cons.prems(4)] by simp
    from Cons.IH [OF T(1) Cons.prems(2) qs(2) this] show ?thesis
      using match_one_numbers [OF M] T(2) by (auto simp: numbers_of_def)
  qed
qed simp

lemma process_normal_order_within:
  assumes "process_normal_order tick b = Inl (e, c)" "thrown e" "book_of queued b"
  shows "numbers_within b c"
proof -
  let ?s = "ct_symbol tick"
  obtain os os1 d where os: "map_of (cb_unfill_orders b) ?s = Some os" "match_queue tick os b = Inl (e, os1, d)"
    and c: "c = put_unfilled ?s os1 d"
    using assms(1) by (auto simp: process_normal_order_def rbind_eq_Inl left_Inl split: option.splits)
  have q: "\<forall>ord \<in> set os. queued ?s ord" and i: "items_ok (tracker_for PD_LONG) (cb_lpositions b)"
    using assms(3) os(1) items_ok_get [of _ "cb_unfill_orders b" ?s os] by (auto simp: book_of_def)
  note ids = match_queue_drawn [OF os(2) assms(2) q i]
  obtain pre ord post pre1 ord1 where R: "os = pre @ ord # post" "os1 = pre1 @ ord1 # post" "same_frame b d"
    "cb_filled_orders d = cb_filled_orders b @ filter done_status pre1 @ (if e = BadFunctionCall then [ord1] else [])"
    by (rule match_queue_thrown [OF os(2) assms(2) q i])
  have n: "order_numbers c = order_numbers d"
    using queue_numbers [of d ?s os1] book_queues [OF assms(3)] R(3) ids os(1)
    by (simp add: c same_frame_def unfilled_of_def)
  have "set (map co_order_id os1) \<subseteq> set_mset (order_numbers b)"
    using ids map_of_SomeD [OF os(1)] by (force simp: order_numbers_def current_orders_def)
  then have "set_mset (order_numbers d) \<subseteq> set_mset (order_numbers b)"
    using R by (auto simp: order_numbers_def current_orders_def same_frame_def split: if_splits)
  then show ?thesis
    using n ids R(3) by (auto simp: numbers_within_def c put_unfilled_def same_frame_def)
qed

lemma on_tick_within:
  assumes "on_tick tick b = Inl (e, c)" "thrown e" "book_of queued b"
  shows "numbers_within b c"
proof -
  define b1 where "b1 = (if has_position (ct_symbol tick) b then do_position_update tick b else b)"
  have P: "process_normal_order tick b1 = Inl (e, c)"
    using assms(1, 2) update_account_faults by (auto simp: on_tick_def Let_def b1_def rbind_eq_Inl left_Inl)
  have "numbered b b1" "book_of queued b1"
    using assms(3) position_update_numbers position_update_book by (auto simp: b1_def numbered_same grows_of_def)
  then show ?thesis
    using process_normal_order_within [OF P assms(2)] numbers_within_trans numbers_within_numbered by blast
qed

lemma do_op_within:
  assumes "do_op op' b = Inl (e, c)" "thrown e" "book_of queued b"
  shows "numbers_within b c"
  using assms by (cases op') (auto simp: left_Inl intro: on_tick_within numbers_within_numbered numbered_same)

text \<open>Runs that do not exchange the generator: of operations that return, and of operations that return or throw.\<close>

inductive runs :: "CerebroBroker \<Rightarrow> CerebroBroker \<Rightarrow> bool" for b where
  start: "runs b b"
| step: "runs b c \<Longrightarrow> do_op op' c = Inr d \<Longrightarrow> \<forall>g. op' \<noteq> OpGenerator g \<Longrightarrow> runs b d"

inductive lasts :: "CerebroBroker \<Rightarrow> CerebroBroker \<Rightarrow> bool" for b where
  start: "lasts b b"
| step: "lasts b c \<Longrightarrow> do_op op' c = Inr d \<Longrightarrow> \<forall>g. op' \<noteq> OpGenerator g \<Longrightarrow> lasts b d"
| throw: "lasts b c \<Longrightarrow> do_op op' c = Inl (e, d) \<Longrightarrow> thrown e \<Longrightarrow> lasts b d"

lemma lasts_book: "lasts b c \<Longrightarrow> book_of queued b \<Longrightarrow> book_of queued c"
  by (induction rule: lasts.induct) (auto dest: do_op_book do_op_thrown simp: grows_of_def)

lemma lasts_within: "lasts b c \<Longrightarrow> book_of queued b \<Longrightarrow> numbers_within b c"
proof (induction rule: lasts.induct)
  case start
  then show ?case by (simp add: numbers_within_numbered numbered_same)
next
  case (step c op' d)
  then show ?case using do_op_numbers lasts_book numbers_within_numbered numbers_within_trans by meson
next
  case (throw c op' e d)
  then show ?case using do_op_within lasts_book numbers_within_trans by meson
qed

lemma runs_lasts: "runs b c \<Longrightarrow> lasts b c"
  by (induction rule: runs.induct) (auto intro: lasts.intros)

lemma runs_numbers: "runs b c \<Longrightarrow> book_of queued b \<Longrightarrow> numbered b c"
proof (induction rule: runs.induct)
  case start
  then show ?case by (simp add: numbered_same)
next
  case (step c op' d)
  have "book_of queued c" using lasts_book [OF runs_lasts [OF step(1)] step(5)] .
  then show ?case using step do_op_numbers numbered_trans by blast
qed


lemma do_ops_runs: "do_ops xs b = Inr c \<Longrightarrow> \<forall>x \<in> set xs. \<forall>g. x \<noteq> OpGenerator g \<Longrightarrow> runs a b \<Longrightarrow> runs a c"
  by (induction xs arbitrary: b) (auto simp: rbind_eq_Inr intro: runs.step)

text \<open>A deposit and a purchase of ten shares, of which the first tick fills four and the second the rest.\<close>

definition demo_split :: "broker_op list" where
  "demo_split = [OpMatcher (text_bytes ''SH'') SSEMatcher, OpInit (aw_new 1 []), OpDeposit (d_of_int 1000) False,
     OpBuy demo_sym (d_of_int 10) d0, OpTick (demo_tick 10 4), OpTick (demo_tick 10 20)]"


section \<open>A tick that throws\<close>

lemma match_one_done: "match_one tick ord b = Inr (o1, so, c) \<Longrightarrow> done_status ord \<Longrightarrow> o1 = ord"
  by (simp add: match_one_def)

lemma match_queue_done:
  "match_queue tick os b = Inr (os1, sos, c) \<Longrightarrow> mset (filter done_status os) \<subseteq># mset (filter done_status os1)"
proof (induction os arbitrary: b os1 sos)
  case (Cons ord os)
  then obtain o1 so d os2 sos2 where M: "match_one tick ord b = Inr (o1, so, d)"
    "match_queue tick os d = Inr (os2, sos2, c)" "os1 = o1 # os2"
    by (auto simp: rbind_eq_Inr)
  have "mset (filter done_status os) \<subseteq># mset (filter done_status os2)" by (rule Cons.IH [OF M(2)])
  then show ?case using match_one_done [OF M(1)] M(3) by (auto intro: subset_mset.order_trans)
qed simp

lemma position_update_queues [simp]:
  "cb_unfill_orders (do_position_update tick b) = cb_unfill_orders b"
  "cb_filled_orders (do_position_update tick b) = cb_filled_orders b"
  by (simp_all add: do_position_update_def Let_def)

lemma unfilled_queued: "book_of queued b \<Longrightarrow> \<forall>ord \<in> set (unfilled_of s b). queued s ord"
  by (cases "map_of (cb_unfill_orders b) s") (auto simp: unfilled_of_def book_of_def dest: items_ok_get)

lemma on_tick_enters:
  assumes "on_tick tick b = Inr c" "book_of queued b"
  shows "mset (cb_filled_orders b) + mset (filter done_status (unfilled_of (ct_symbol tick) b)) \<subseteq># mset (cb_filled_orders c)"
proof -
  let ?s = "ct_symbol tick"
  define b1 where "b1 = (if has_position ?s b then do_position_update tick b else b)"
  obtain b2 where P: "process_normal_order tick b1 = Inr b2" "update_account (do_position_update tick b2) = Inr c"
    using assms(1) by (auto simp: on_tick_def rbind_eq_Inr Let_def b1_def)
  have b1: "book_of queued b1" "cb_unfill_orders b1 = cb_unfill_orders b" "cb_filled_orders b1 = cb_filled_orders b"
    using assms(2) position_update_book by (auto simp: b1_def grows_of_def)
  have c: "cb_filled_orders c = cb_filled_orders b2"
    using P(2) by (auto simp: update_account_def on_account_Inr)
  show ?thesis
  proof (cases "map_of (cb_unfill_orders b1) ?s")
    case None
    then show ?thesis using P(1) b1 c by (simp add: process_normal_order_def unfilled_of_def)
  next
    case (Some os)
    obtain os1 sos d where M: "match_queue tick os b1 = Inr (os1, sos, d)"
      and b2: "b2 = put_unfilled ?s (filter (\<lambda>ord. \<not> done_status ord) os1 @ sos) (foldl (\<lambda>x ord. notify ord x) d sos)"
      using P(1) Some by (auto simp: process_normal_order_def rbind_eq_Inr)
    have os: "unfilled_of ?s b = os" using Some b1 by (simp add: unfilled_of_def)
    have "\<forall>ord \<in> set os. queued ?s ord" using unfilled_queued [OF assms(2), of ?s] os by simp
    then have "cb_filled_orders d = cb_filled_orders b @ filter done_status os1"
      using match_queue_queued [OF M] b1 by (simp add: book_of_def)
    then show ?thesis
      using match_queue_done [OF M] c b2 notify_all_frame(3) [of d sos] os by (simp add: put_unfilled_def)
  qed
qed

text \<open>
  C100. A tick that throws enters orders twice. When a sale without a position, or a quote without depth, makes a tick
  throw, the orders of the queue before the failing one have been matched, and those that are finished are among the
  finished orders but are still queued; the ones behind are untouched. The next tick of the security that returns
  enters them among the finished orders once more, for good.
\<close>

theorem tick_throws:
  assumes "endures (broker_new clk) b" "on_tick tick b = Inl (e, c)" "e = LogicError \<or> e = OutOfRange"
  shows "\<exists>pre ord post pre1 ord1. unfilled_of (ct_symbol tick) b = pre @ ord # post \<and>
    unfilled_of (ct_symbol tick) c = pre1 @ ord1 # post \<and>
    map co_order_id (pre1 @ [ord1]) = map co_order_id (pre @ [ord]) \<and>
    cb_filled_orders c = cb_filled_orders b @ filter done_status pre1 \<and>
    (\<forall>tick2 d. ct_symbol tick2 = ct_symbol tick \<longrightarrow> on_tick tick2 c = Inr d \<longrightarrow>
      mset (cb_filled_orders b) + mset (filter done_status pre1) + mset (filter done_status pre1) \<subseteq># mset (cb_filled_orders d))"
proof -
  let ?s = "ct_symbol tick"
  have q: "book_of queued b" using endures_book [OF assms(1) broker_start_ok] by (simp add: grows_of_def)
  have e: "thrown e" "e \<noteq> BadFunctionCall" using assms(3) by auto
  define b1 where "b1 = (if has_position ?s b then do_position_update tick b else b)"
  have P: "process_normal_order tick b1 = Inl (e, c)"
    using assms(2) e(1) update_account_faults by (auto simp: on_tick_def Let_def b1_def rbind_eq_Inl left_Inl)
  have b1: "book_of queued b1" "cb_unfill_orders b1 = cb_unfill_orders b" "cb_filled_orders b1 = cb_filled_orders b"
    using q position_update_book by (auto simp: b1_def grows_of_def)
  obtain os os1 d where os: "map_of (cb_unfill_orders b1) ?s = Some os" "match_queue tick os b1 = Inl (e, os1, d)"
    and c: "c = put_unfilled ?s os1 d"
    using P by (auto simp: process_normal_order_def rbind_eq_Inl left_Inl split: option.splits)
  have U: "unfilled_of ?s b = os" "unfilled_of ?s c = os1"
    using os(1) b1(2) by (simp_all add: unfilled_of_def c put_unfilled_def)
  have qs: "\<forall>ord \<in> set os. queued ?s ord" and i: "items_ok (tracker_for PD_LONG) (cb_lpositions b1)"
    using unfilled_queued [OF q, of ?s] U b1(1) by (simp_all add: book_of_def)
  obtain pre ord post pre1 ord1 where R: "os = pre @ ord # post" "os1 = pre1 @ ord1 # post" "length pre1 = length pre"
    "cb_filled_orders d = cb_filled_orders b1 @ filter done_status pre1 @ (if e = BadFunctionCall then [ord1] else [])"
    by (rule match_queue_thrown [OF os(2) e(1) qs i])
  have F: "cb_filled_orders c = cb_filled_orders b @ filter done_status pre1"
    using R(4) e(2) b1(3) by (simp add: c put_unfilled_def)
  have ids: "map co_order_id (pre1 @ [ord1]) = map co_order_id (pre @ [ord])"
    using match_queue_drawn [OF os(2) e(1) qs i] R by simp
  have "book_of queued c" using on_tick_thrown [OF assms(2) e(1) q] by (simp add: grows_of_def)
  note enters = on_tick_enters [OF _ this]
  have "mset (cb_filled_orders b) + mset (filter done_status pre1) + mset (filter done_status pre1) \<subseteq># mset (cb_filled_orders x)"
    if "ct_symbol tick2 = ?s" "on_tick tick2 c = Inr x" for tick2 x
  proof -
    have "mset (filter done_status pre1) \<subseteq># mset (filter done_status os1)" using R(2) by simp
    then have "mset (cb_filled_orders c) + mset (filter done_status pre1) \<subseteq># mset (cb_filled_orders c) + mset (filter done_status os1)"
      by simp
    with enters [OF that(2)] show ?thesis using that(1) U(2) F by (metis mset_append subset_mset.order_trans)
  qed
  then show ?thesis
    using U R(1, 2) ids F
    by (intro exI [of _ pre] exI [of _ ord] exI [of _ post] exI [of _ pre1] exI [of _ ord1]) simp
qed

text \<open>The purchase that the tick rejects before it throws is entered by the next tick again.\<close>

theorem tick_throws_witness:
  "\<exists>b c d x. endure_ops demo_throws (broker_new demo_clock) = Inr b \<and> on_tick (demo_tick 10 4) b = Inl (LogicError, c) \<and>
     on_tick (demo_tick 10 4) c = Inr d \<and> co_status x = OS_REJECTED \<and> count (mset (cb_filled_orders d)) x \<ge> 2"
proof -
  let ?t = "demo_tick 10 4"
  obtain b c d where b: "endure_ops demo_throws (broker_new demo_clock) = Inr b"
    "map co_status (unfilled_of demo_sym b) = [OS_PENDING_NEW, OS_PENDING_NEW]"
    and c: "on_tick ?t b = Inl (LogicError, c)" and d: "on_tick ?t c = Inr d"
    and st: "map co_status (unfilled_of demo_sym c) = [OS_REJECTED, OS_FILLED]"
    by (rule demo_throws_run) (rule that)
  have sym: "ct_symbol ?t = demo_sym" by (simp add: demo_tick_def)
  have "endures (broker_new demo_clock) b" by (rule endure_ops_endures [OF b(1) endures.start])
  from tick_throws [OF this c] obtain pre ord post pre1 ord1 where
    R: "unfilled_of demo_sym b = pre @ ord # post" "unfilled_of demo_sym c = pre1 @ ord1 # post"
    "mset (cb_filled_orders b) + mset (filter done_status pre1) + mset (filter done_status pre1) \<subseteq># mset (cb_filled_orders d)"
    using d sym by auto
  have "post = []"
  proof (rule ccontr)
    assume ne: "post \<noteq> []"
    then have "last (unfilled_of demo_sym b) = last (unfilled_of demo_sym c)" using R by simp
    then show False
      using arg_cong [OF b(2), of last] arg_cong [OF st, of last] R ne by (simp add: last_map)
  qed
  then obtain x where x: "pre1 = [x]" "co_status x = OS_REJECTED" using R(2) st by (cases pre1) auto
  then have "count (mset (cb_filled_orders d)) x \<ge> 2"
    using mset_subset_eq_count [OF R(3), of x] by (simp add: done_status_def)
  then show ?thesis using b(1) c d x(2) by blast
qed

end
