(* ===== verification/Cerebro_Backtest.thy ===== *)
theory Cerebro_Backtest
  imports Broker_Money Broker_Settle Broker_Shares
begin

text \<open>
  What drives a broker: the player that replays the quotes of a day (\<open>cerebro/cerebro_quote.h\<close> and \<open>.cpp\<close>), the back
  test (\<open>cerebro/cerebro_backtest.h\<close> and \<open>.cpp\<close>) and the trader of the service
  (\<open>cerebro/cerebro_trader.h\<close> and \<open>.cpp\<close>). The provider of quotes, the strategies and the analyzers are
  interfaces that the program's users implement; here they are parameters. What strategies and analyzers keep for
  themselves is a state w of a type of theirs, and their methods are functions on that state and the broker they are
  handed. Their hooks for updated orders run in the middle of matching, where the queue is being changed: a hook here may
  change what the strategies keep, but does not call the broker. The calendar of the back test is a list of dates with
  a mark for weekends.
\<close>

section \<open>The player of quotes\<close>

record CerebroQuoteProvider =
  pv_get_daily_kline :: "i32 \<Rightarrow> int \<times> CerebroKlineRecord list"
  pv_get_last_tick :: "i32 \<Rightarrow> int \<times> CerebroTickRecord list"
  pv_is_trading_day :: "i32 \<Rightarrow> bool"
  pv_get_dividend :: "Symbol \<Rightarrow> i32 \<Rightarrow> int \<times> CerebroDividend"

record CerebroQuotePlayer =
  qp_qtype :: QUOTES_TYPE
  qp_current_dt :: i32
  qp_records :: "CerebroTickRecord list"
  qp_pos :: int

definition player_init :: "QUOTES_TYPE \<Rightarrow> CerebroQuotePlayer" where
  "player_init t = \<lparr>qp_qtype = t, qp_current_dt = 0, qp_records = [], qp_pos = -1\<rparr>"

definition seek_to :: "i32 \<Rightarrow> CerebroQuotePlayer \<Rightarrow> CerebroQuotePlayer" where
  "seek_to dt p = p\<lparr>qp_current_dt := dt, qp_pos := -1, qp_records := []\<rparr>"

text \<open>The next tick; \<^const>\<open>None\<close> is the null pointer. The result of the provider is not looked at.\<close>

definition player_next ::
    "CerebroQuoteProvider \<Rightarrow> CerebroQuotePlayer \<Rightarrow> (CerebroTickRecord option \<times> CerebroQuotePlayer) res" where
  "player_next pv p =
     (if qp_records p = [] \<and> qp_pos p < 0 then
        if qp_qtype p = QT_DAY then
          let rs = qp_records p @ snd (pv_get_last_tick pv (qp_current_dt p))
          in rbind (at0 rs) (\<lambda>t. Inr (Some t, p\<lparr>qp_records := rs, qp_pos := 1\<rparr>))
        else Inr (None, p)
      else if 0 \<le> qp_pos p \<and> qp_pos p < int (length (qp_records p))
        then Inr (Some (qp_records p ! nat (qp_pos p)), p\<lparr>qp_pos := qp_pos p + 1\<rparr>)
        else Inr (None, p))"

definition tick_to_kline :: "CerebroTickRecord \<Rightarrow> CerebroKlineRecord" where
  "tick_to_kline t =
     \<lparr>ck_symbol = ct_symbol t, ck_ts = ct_ts t, ck_dt = ct_dt t, ck_high = ct_high t, ck_close = ct_last t,
      ck_low = ct_low t, ck_open = ct_open t, ck_preclose = ct_preclose t, ck_turnover = ct_turnover t,
      ck_volume = ct_volume t, ck_open_interest = ct_open_interest t,
      ck_preopen_interest = ct_preopen_interest t, ck_prev_settlement = ct_prev_settlement t,
      ck_settlement = ct_settlement t\<rparr>"

text \<open>\<open>resize\<close> of a vector of five levels, and its first element.\<close>

definition first_of_five :: "double \<Rightarrow> double list \<Rightarrow> double list" where
  "first_of_five x xs = (take 5 (xs @ replicate 5 d0))[0 := x]"

definition kline_to_tick :: "CerebroKlineRecord \<Rightarrow> CerebroTickRecord \<Rightarrow> CerebroTickRecord" where
  "kline_to_tick k t =
     t\<lparr>ct_symbol := ck_symbol k, ct_ts := ck_ts k, ct_dt := ck_dt k, ct_open := ck_open k, ct_high := ck_high k,
       ct_low := ck_low k, ct_last := ck_close k, ct_preclose := ck_preclose k, ct_volume := ck_volume k,
       ct_turnover := ck_turnover k, ct_open_interest := ck_open_interest k,
       ct_preopen_interest := ck_preopen_interest k, ct_prev_settlement := ck_prev_settlement k,
       ct_settlement := ck_settlement k,
       ct_limit_down := d_mul (ck_preclose k) (d_lit 9 10), ct_limit_up := d_mul (ck_preclose k) (d_lit 11 10),
       ct_ask_vols := first_of_five (ck_volume k) (ct_ask_vols t),
       ct_bid_vols := first_of_five (ck_volume k) (ct_bid_vols t),
       ct_asks := first_of_five (ck_close k) (ct_asks t), ct_bids := first_of_five (ck_close k) (ct_bids t)\<rparr>"

section \<open>The back test\<close>

record 'w strategy =
  st_on_pre_market_open :: "i32 \<Rightarrow> 'w \<times> CerebroBroker \<Rightarrow> ('w \<times> CerebroBroker) res"
  st_on_market_open :: "i32 \<Rightarrow> 'w \<times> CerebroBroker \<Rightarrow> ('w \<times> CerebroBroker) res"
  st_on_market_close :: "i32 \<Rightarrow> 'w \<times> CerebroBroker \<Rightarrow> ('w \<times> CerebroBroker) res"
  st_on_tick :: "CerebroTickRecord \<Rightarrow> 'w \<times> CerebroBroker \<Rightarrow> ('w \<times> CerebroBroker) res"
  st_on_kline :: "CerebroKlineRecord \<Rightarrow> 'w \<times> CerebroBroker \<Rightarrow> ('w \<times> CerebroBroker) res"
  st_on_order_update :: "CerebroOrder \<Rightarrow> 'w \<Rightarrow> 'w"

record 'w analyzer =
  an_on_tick :: "CerebroTickRecord \<Rightarrow> 'w \<times> CerebroBroker \<Rightarrow> ('w \<times> CerebroBroker) res"
  an_on_order_update :: "CerebroOrder \<Rightarrow> 'w \<Rightarrow> 'w"
  an_on_settle :: "'w \<times> CerebroBroker \<Rightarrow> ('w \<times> CerebroBroker) res"

record 'w CerebroBacktest =
  bt_conf :: CerebroConfig
  bt_strategys :: "(bytes, 'w strategy) items"
  bt_analyzers :: "(bytes, 'w analyzer) items"
  bt_broker :: CerebroBroker
  bt_state :: int

definition add_strategy :: "bytes \<Rightarrow> 'w strategy \<Rightarrow> 'w CerebroBacktest \<Rightarrow> int \<times> 'w CerebroBacktest" where
  "add_strategy nm st bt =
     (if map_of (bt_strategys bt) nm \<noteq> None then (-1, bt)
      else (0, bt\<lparr>bt_strategys := put_item (nm, st) (bt_strategys bt)\<rparr>))"

definition add_analyzer :: "bytes \<Rightarrow> 'w analyzer \<Rightarrow> 'w CerebroBacktest \<Rightarrow> int \<times> 'w CerebroBacktest" where
  "add_analyzer nm an bt =
     (if map_of (bt_analyzers bt) nm \<noteq> None then (-1, bt)
      else (0, bt\<lparr>bt_analyzers := put_item (nm, an) (bt_analyzers bt)\<rparr>))"

definition set_matchers :: "CerebroBroker \<Rightarrow> CerebroBroker" where
  "set_matchers b = set_matcher (text_bytes ''SZ'') SZSEMatcher (set_matcher (text_bytes ''SH'') SSEMatcher b)"

text \<open>
  The callback for updated orders: every strategy learns of the order, the analyzers only of filled ones.
\<close>

definition order_update_callback :: "'w CerebroBacktest \<Rightarrow> CerebroOrder \<Rightarrow> 'w \<Rightarrow> 'w" where
  "order_update_callback bt ord w =
     (let w1 = fold (\<lambda>st. st_on_order_update st ord) (map snd (bt_strategys bt)) w
      in if co_status ord \<noteq> OS_FILLED then w1
         else fold (\<lambda>an. an_on_order_update an ord) (map snd (bt_analyzers bt)) w1)"

text \<open>
  The order numbers of a back test count up from a million. The commission rate and the slippage of the
  configuration are not passed on.
\<close>

definition backtest_ids :: "nat \<Rightarrow> i64" where "backtest_ids n = 1000000 + word_of_nat n"

definition backtest_init :: "CerebroConfig \<Rightarrow> 'w CerebroBacktest \<Rightarrow> 'w CerebroBacktest res" where
  "backtest_init conf bt =
     (let b1 = set_order_id_generator backtest_ids (set_order_update_callback (bt_broker bt));
          b2 = broker_init (aw_new (cc_aid conf) (cc_name conf)) b1
      in rbind (if bt_state bt = 0 then rbind (deposit_cash (cc_cash conf) False b2) (\<lambda>(i, b). Inr b) else Inr b2)
           (\<lambda>b3. Inr (bt\<lparr>bt_conf := conf, bt_broker := set_matchers b3\<rparr>)))"

text \<open>The whole lots of a position, as an \<open>int\<close>.\<close>

definition dividend_lots :: "CerebroPositionTracker \<Rightarrow> CerebroDividend \<Rightarrow> int res" where
  "dividend_lots t d =
     (case d_trunc (d_div (cp_quantity (pt_position t)) (d_of_int (sint (cd_round_lot d)))) of
        None \<Rightarrow> Inl SignedOverflow
      | Some n \<Rightarrow> if - (2 ^ 31) \<le> n \<and> n < 2 ^ 31 then Inr n else Inl SignedOverflow)"

definition process_dividend :: "CerebroQuoteProvider \<Rightarrow> Symbol \<Rightarrow> i32 \<Rightarrow> CerebroBroker \<Rightarrow> CerebroBroker res" where
  "process_dividend pv s dt b =
     (case pv_get_dividend pv s dt of (rc, d) \<Rightarrow>
        if rc \<noteq> 0 then Inr b
        else case fst (get_long_tracker s False b) of
          None \<Rightarrow> Inr b
        | Some t \<Rightarrow>
            rbind (dividend_lots t d) (\<lambda>num.
              rbind (dividend_order s (d_mul (cd_dividend_share d) (d_of_int num))
                       (d_mul (cd_dividend_cash d) (d_of_int num)) b)
                (\<lambda>(i, b1). Inr b1)))"

text \<open>One step after the other, and a step of the broker alone.\<close>

fun each :: "('a \<Rightarrow> 's \<Rightarrow> 's res) \<Rightarrow> 'a list \<Rightarrow> 's \<Rightarrow> 's res" where
  "each f [] b = Inr b"
| "each f (x # xs) b = rbind (f x b) (each f xs)"

definition with_broker :: "(CerebroBroker \<Rightarrow> CerebroBroker res) \<Rightarrow> 'w \<times> CerebroBroker \<Rightarrow> ('w \<times> CerebroBroker) res" where
  "with_broker f wb = rbind (f (snd wb)) (\<lambda>b. Inr (fst wb, b))"

definition all_strategys ::
    "('w strategy \<Rightarrow> 'w \<times> CerebroBroker \<Rightarrow> ('w \<times> CerebroBroker) res) \<Rightarrow> 'w CerebroBacktest \<Rightarrow> 'w \<times> CerebroBroker \<Rightarrow> ('w \<times> CerebroBroker) res"
where
  "all_strategys f bt = each f (map snd (bt_strategys bt))"

definition all_analyzers ::
    "('w analyzer \<Rightarrow> 'w \<times> CerebroBroker \<Rightarrow> ('w \<times> CerebroBroker) res) \<Rightarrow> 'w CerebroBacktest \<Rightarrow> 'w \<times> CerebroBroker \<Rightarrow> ('w \<times> CerebroBroker) res"
where
  "all_analyzers f bt = each f (map snd (bt_analyzers bt))"

text \<open>
  A tick of the broker calls the callback for the orders that are its new updates. Nothing else looks at what strategies
  keep in the meantime, so that the hooks may be run at the end; an exception ends the back test.
\<close>

definition broker_tick :: "'w CerebroBacktest \<Rightarrow> CerebroTickRecord \<Rightarrow> 'w \<times> CerebroBroker \<Rightarrow> ('w \<times> CerebroBroker) res" where
  "broker_tick bt q wb =
     (case on_tick q (snd wb) of
        Inl (e, b) \<Rightarrow> Inl e
      | Inr b \<Rightarrow>
          Inr (fold (order_update_callback bt) (drop (length (cb_updates (snd wb))) (cb_updates b)) (fst wb), b))"

text \<open>What one quote of the replay sets off.\<close>

definition one_quote :: "'w CerebroBacktest \<Rightarrow> CerebroTickRecord \<Rightarrow> 'w \<times> CerebroBroker \<Rightarrow> ('w \<times> CerebroBroker) res" where
  "one_quote bt q b =
     rbind (all_strategys (\<lambda>st. if cc_qtype (bt_conf bt) \<noteq> QT_TICK then st_on_kline st (tick_to_kline q)
                                else st_on_tick st q) bt b) (\<lambda>b1.
       rbind (broker_tick bt q b1) (all_analyzers (\<lambda>an. an_on_tick an q) bt))"

text \<open>The replay of a day, with a bound on its length; the bound is shown to be enough.\<close>

fun replay ::
    "nat \<Rightarrow> CerebroQuoteProvider \<Rightarrow> 'w CerebroBacktest \<Rightarrow> CerebroQuotePlayer \<Rightarrow> 'w \<times> CerebroBroker \<Rightarrow>
     (CerebroQuotePlayer \<times> 'w \<times> CerebroBroker) res" where
  "replay 0 pv bt p b = Inl OutOfFuel"
| "replay (Suc n) pv bt p b =
     rbind (player_next pv p) (\<lambda>(t, p1).
       case t of None \<Rightarrow> Inr (p1, b) | Some q \<Rightarrow> rbind (one_quote bt q b) (replay n pv bt p1))"

definition replay_bound :: "CerebroQuoteProvider \<Rightarrow> i32 \<Rightarrow> nat" where
  "replay_bound pv dt = length (snd (pv_get_last_tick pv dt)) + 2"

definition backtest_day ::
    "CerebroQuoteProvider \<Rightarrow> 'w CerebroBacktest \<Rightarrow> i32 \<Rightarrow> CerebroQuotePlayer \<Rightarrow> 'w \<times> CerebroBroker \<Rightarrow>
     (CerebroQuotePlayer \<times> 'w \<times> CerebroBroker) res" where
  "backtest_day pv bt dt p b =
     rbind (all_strategys (\<lambda>st. st_on_pre_market_open st dt) bt (fst b, set_date dt (snd b))) (\<lambda>b1.
     rbind (each (\<lambda>t. with_broker (process_dividend pv (cp_symbol (pt_position t)) dt)) (get_all_tracker (snd b1)) b1) (\<lambda>b2.
     rbind (all_strategys (\<lambda>st. st_on_market_open st dt) bt b2) (\<lambda>b3.
     rbind (replay (replay_bound pv dt) pv bt (seek_to dt p) b3) (\<lambda>(p1, b4).
     rbind (all_strategys (\<lambda>st. st_on_market_close st dt) bt b4) (\<lambda>b5.
     rbind (case pv_get_daily_kline pv dt of (rc, rs) \<Rightarrow> if rc \<noteq> 0 then Inr b5 else with_broker (settle rs) b5) (\<lambda>b6.
     rbind (all_analyzers an_on_settle bt b6) (\<lambda>b7. Inr (p1, b7))))))))"

fun backtest_days ::
    "CerebroQuoteProvider \<Rightarrow> 'w CerebroBacktest \<Rightarrow> (i32 \<times> bool) list \<Rightarrow> CerebroQuotePlayer \<Rightarrow> 'w \<times> CerebroBroker \<Rightarrow>
     ('w \<times> CerebroBroker) res" where
  "backtest_days pv bt [] p b = Inr b"
| "backtest_days pv bt ((dt, weekend) # ds) p b =
     (if weekend \<or> \<not> pv_is_trading_day pv dt then backtest_days pv bt ds p b
      else rbind (backtest_day pv bt dt p b) (\<lambda>(p1, b1). backtest_days pv bt ds p1 b1))"

definition backtest_run ::
    "CerebroQuoteProvider \<Rightarrow> (i32 \<times> bool) list \<Rightarrow> 'w CerebroBacktest \<Rightarrow> 'w \<Rightarrow> (int \<times> 'w \<times> 'w CerebroBacktest) res" where
  "backtest_run pv days bt w =
     rbind (backtest_days pv bt days (player_init (cc_qtype (bt_conf bt))) (w, bt_broker bt))
       (\<lambda>(w, b). Inr (0, w, bt\<lparr>bt_broker := b\<rparr>))"

section \<open>The trader of the service\<close>

record CerebroTrader =
  tr_id :: i64
  tr_name :: bytes
  tr_broker :: CerebroBroker
  tr_state :: int

definition trader_new :: "(nat \<Rightarrow> i64) \<Rightarrow> CerebroTrader" where
  "trader_new clk = \<lparr>tr_id = 0, tr_name = [], tr_broker = broker_new clk, tr_state = 0\<rparr>"

definition trader_init :: "i64 \<Rightarrow> bytes \<Rightarrow> double \<Rightarrow> CerebroTrader \<Rightarrow> (int \<times> CerebroTrader) res" where
  "trader_init tid nm cash t =
     (let b1 = broker_init (aw_new tid nm) (tr_broker t)
      in rbind (if tr_state t = 0 then rbind (deposit_cash cash False b1) (\<lambda>(i, b). Inr b) else Inr b1)
           (\<lambda>b2. Inr (0, t\<lparr>tr_id := tid, tr_name := nm, tr_broker := set_matchers b2\<rparr>)))"


section \<open>Replays\<close>

lemma player_next_more:
  assumes "0 \<le> qp_pos p" "qp_records p = xs @ q # ys" "qp_pos p = int (length xs)"
  shows "player_next pv p = Inr (Some q, p\<lparr>qp_pos := qp_pos p + 1\<rparr>)"
  using assms by (simp add: player_next_def nth_append)

lemma replay_rest:
  assumes "0 < qp_pos p" "qp_records p = xs @ ys" "qp_pos p = int (length xs)" "length ys < n"
  shows "replay n pv bt p b =
    rbind (each (one_quote bt) ys b) (\<lambda>c. Inr (p\<lparr>qp_pos := int (length (qp_records p))\<rparr>, c))"
  using assms
proof (induction ys arbitrary: n p xs b)
  case Nil
  then obtain m where "n = Suc m" by (cases n) auto
  moreover have "player_next pv p = Inr (None, p)" using Nil by (auto simp: player_next_def)
  ultimately show ?case using Nil by simp
next
  case (Cons q ys)
  then obtain m where n: "n = Suc m" by (cases n) auto
  have step: "player_next pv p = Inr (Some q, p\<lparr>qp_pos := qp_pos p + 1\<rparr>)"
    using player_next_more [of p xs q ys pv] Cons.prems by simp
  have "replay m pv bt (p\<lparr>qp_pos := qp_pos p + 1\<rparr>) c =
      rbind (each (one_quote bt) ys c) (\<lambda>d. Inr (p\<lparr>qp_pos := int (length (qp_records p))\<rparr>, d))" for c
    using Cons.IH [of "p\<lparr>qp_pos := qp_pos p + 1\<rparr>" "xs @ [q]" m c] Cons.prems n by simp
  then show ?case by (cases "one_quote bt q b") (simp_all add: n step)
qed

text \<open>
  C26. Replaying a day. With daily quotes the strategies, the broker and the analyzers get the ticks the provider
  has for the day, each once and in its order, and the replay ends; a trading day without a tick ends the
  whole back test with \<open>std::out_of_range\<close>. With any other kind of quotes nothing at all is replayed.
\<close>

theorem replay_day:
  fixes pv dt
  defines "ts \<equiv> snd (pv_get_last_tick pv dt)"
  shows "replay (replay_bound pv dt) pv bt (seek_to dt (player_init qt)) b =
    (if qt \<noteq> QT_DAY then Inr (seek_to dt (player_init qt), b)
     else if ts = [] then Inl OutOfRange
     else rbind (each (one_quote bt) ts b) (\<lambda>c.
       Inr (\<lparr>qp_qtype = qt, qp_current_dt = dt, qp_records = ts, qp_pos = int (length ts)\<rparr>, c)))"
proof (cases ts)
  case Nil
  then show ?thesis
    by (simp add: replay_bound_def ts_def player_next_def seek_to_def player_init_def at0_def)
next
  case (Cons q qs)
  let ?p = "seek_to dt (player_init qt)"
  show ?thesis
  proof (cases "qt = QT_DAY")
    case True
    let ?p1 = "?p\<lparr>qp_records := ts, qp_pos := 1\<rparr>"
    have first: "player_next pv ?p = Inr (Some q, ?p1)"
      using True Cons by (simp add: player_next_def seek_to_def player_init_def at0_def ts_def)
    have "replay (Suc (length ts)) pv bt ?p1 c = rbind (each (one_quote bt) qs c) (\<lambda>d.
        Inr (?p1\<lparr>qp_pos := int (length (qp_records ?p1))\<rparr>, d))" for c
      by (rule replay_rest [of _ "[q]"]) (simp_all add: Cons)
    then show ?thesis
      using True Cons first
      by (cases "one_quote bt q b")
        (simp_all add: replay_bound_def seek_to_def player_init_def flip: ts_def)
  next
    case False
    then show ?thesis by (simp add: replay_bound_def player_next_def seek_to_def player_init_def)
  qed
qed

section \<open>The start of a back test\<close>

text \<open>
  A back test for whole cash starts with that cash, as many units of value 1, and the order numbers from a
  million; but whatever commission rate and slippage its configuration asks for, it charges three per ten
  thousand and no slippage.
\<close>

theorem backtest_start:
  assumes "bt_state bt = 0" "cc_cash conf = d_of_int c" "0 < c" "c < 2 ^ 53"
  shows "\<exists>bt1 w. backtest_init conf bt = Inr bt1 \<and> cb_account (bt_broker bt1) = Some w \<and>
    aw_get_cash w = d_of_int c \<and> ca_units (aw_account w) = d_of_int c \<and> ca_unit_value (aw_account w) = d_of_int 1 \<and>
    aw_commission_rate w = d_lit 3 10000 \<and> aw_slippage w = 0 \<and>
    map co_order_id (drop (length (cb_filled_orders (bt_broker bt))) (cb_filled_orders (bt_broker bt1))) = [1000000]"
proof -
  have w: "whole c" using assms(3, 4) by simp
  have z: "d_add d0 (d_of_int c) = d_of_int c" "d_sub (d_of_int c) d0 = d_of_int c"
    "d_mul (d_of_int c) (d_of_int 1) = d_of_int c" "almost_eq d0 d0 epsilon"
    using d_add_of_int [of 0 c] d_sub_of_int [of c 0] d_mul_of_int [of c 1] almost_zero_whole(2) [of 0] w assms(3)
    by (simp_all add: d0_def)
  show ?thesis
    using assms z
    by (simp add: backtest_init_def deposit_cash_def submit_def next_order_id_def now_ms_def Let_def
        set_order_id_generator_def set_order_update_callback_def broker_init_def commit_order_def
        is_special_order_def process_special_order_def the_account_def aw_deposit_cash_def aw_new_def
        account_zero_def order_zero_def add_filled_def set_matchers_def set_matcher_def aw_get_cash_def backtest_ids_def)
qed

definition demo_conf :: CerebroConfig where
  "demo_conf = \<lparr>cc_name = [], cc_aid = 1, cc_cash = d_of_int 1000000, cc_comm_rate = d_lit 1 1000,
     cc_slippage = 2, cc_start_date = 20220101, cc_end_date = 20221231, cc_qtype = QT_DAY\<rparr>"

definition demo_backtest :: "(bytes, nat strategy) items \<Rightarrow> nat CerebroBacktest" where
  "demo_backtest sts = \<lparr>bt_conf = demo_conf, bt_strategys = sts, bt_analyzers = [],
     bt_broker = broker_new demo_clock, bt_state = 0\<rparr>"

theorem backtest_start_witness:
  "\<exists>bt1 w. backtest_init demo_conf (demo_backtest []) = Inr bt1 \<and> cb_account (bt_broker bt1) = Some w \<and>
     cc_comm_rate demo_conf = d_lit 1 1000 \<and> aw_commission_rate w = d_lit 3 10000 \<and> aw_slippage w = 0"
  using backtest_start [of "demo_backtest []" demo_conf 1000000]
  by (force simp: demo_conf_def demo_backtest_def)

text \<open>
  A dividend in cash only (no shares, as the provider of the example pays them) is lost: both the shares
  and the cash are entered under a test of the number of shares. The order is filled, and the account
  is as before.
\<close>

theorem cash_dividend_lost:
  assumes "cb_order_id_gen b = Some g"
  shows "\<exists>i c. dividend_order s d0 cash b = Inr (i, c) \<and> cb_account c = cb_account b \<and>
    cp_quantity (pt_position (long_tracker s c)) = cp_quantity (pt_position (long_tracker s b)) \<and>
    co_status (last (cb_filled_orders c)) = OS_FILLED \<and> co_price (last (cb_filled_orders c)) = cash"
proof -
  have z: "almost_zero d0 epsilon" using almost_zero_whole(1) [of 0] by (simp add: d0_def)
  define e where "e = b\<lparr>cb_ids := Suc (cb_ids b), cb_clock_calls := Suc (Suc (cb_clock_calls b))\<rparr>"
  have e: "cb_account e = cb_account b" "long_tracker s e = long_tracker s b"
    by (simp_all add: e_def long_tracker_def)
  define d where "d = snd (now_ms (open_long s e))"
  have d: "cb_account d = cb_account b" "long_tracker s d = long_tracker s b"
    using e now_ms_frame(2, 4) [OF surjective_pairing, of "open_long s e"] tracker_of_lpositions [of d "open_long s e" s]
    by (simp_all add: d_def)
  have "\<exists>i x. dividend_order s d0 cash b = Inr (i, add_filled x d) \<and> co_status x = OS_FILLED \<and> co_price x = cash"
    using assms z
    by (simp add: dividend_order_def submit_def next_order_id_def Let_def commit_order_def is_special_order_def
        process_special_order_def order_zero_def case_prod_unfold d_def e_def now_ms_def)
      (rule exI, rule conjI [OF refl], simp)
  then obtain i x where x: "dividend_order s d0 cash b = Inr (i, add_filled x d)" "co_status x = OS_FILLED" "co_price x = cash"
    by blast
  have "long_tracker s (add_filled x d) = long_tracker s d" by (simp add: long_tracker_def)
  then show ?thesis using x d by (intro exI [of _ i] exI [of _ "add_filled x d"]) simp
qed

theorem cash_dividend_lost_witness:
  "\<exists>i c. dividend_order demo_sym d0 (d_of_int 500) demo_broker = Inr (i, c) \<and> cb_account c = cb_account demo_broker \<and>
     co_status (last (cb_filled_orders c)) = OS_FILLED"
  using cash_dividend_lost [of demo_broker demo_ids demo_sym "d_of_int 500"]
  by (auto simp: demo_broker_def set_matcher_def set_order_id_generator_def broker_init_def)


section \<open>Back tests and the book\<close>

text \<open>Strategies and analyzers that use the broker through its operations only.\<close>

definition keeps :: "('w \<times> CerebroBroker \<Rightarrow> ('w \<times> CerebroBroker) res) \<Rightarrow> bool" where
  "keeps f \<longleftrightarrow> (\<forall>b c. f b = Inr c \<longrightarrow> reaches (snd b) (snd c))"

definition fair_strategy :: "'w strategy \<Rightarrow> bool" where
  "fair_strategy st \<longleftrightarrow> (\<forall>dt. keeps (st_on_pre_market_open st dt) \<and> keeps (st_on_market_open st dt) \<and>
     keeps (st_on_market_close st dt)) \<and> (\<forall>t. keeps (st_on_tick st t)) \<and> (\<forall>k. keeps (st_on_kline st k))"

definition fair_analyzer :: "'w analyzer \<Rightarrow> bool" where
  "fair_analyzer an \<longleftrightarrow> (\<forall>t. keeps (an_on_tick an t)) \<and> keeps (an_on_settle an)"

definition fair :: "'w CerebroBacktest \<Rightarrow> bool" where
  "fair bt \<longleftrightarrow> (\<forall>st \<in> snd ` set (bt_strategys bt). fair_strategy st) \<and>
     (\<forall>an \<in> snd ` set (bt_analyzers bt). fair_analyzer an)"

lemma reaches_trans: "reaches b c \<Longrightarrow> reaches a b \<Longrightarrow> reaches a c"
  by (induction rule: reaches.induct) (auto intro: reaches.step)

lemma reaches_op: "do_op x b = Inr c \<Longrightarrow> reaches b c"
  by (rule reaches.step [OF reaches.start])

lemma keepsD: "keeps f \<Longrightarrow> f b = Inr c \<Longrightarrow> reaches (snd b) (snd c)"
  unfolding keeps_def by blast

lemma keeps_bind:
  assumes "keeps f" "keeps g"
  shows "keeps (\<lambda>b. rbind (f b) g)"
  unfolding keeps_def rbind_eq_Inr using assms reaches_trans unfolding keeps_def by blast

lemma keeps_each: "\<forall>x \<in> set xs. keeps (f x) \<Longrightarrow> keeps (each f xs)"
proof (induction xs)
  case Nil
  then show ?case by (simp add: keeps_def reaches.start)
next
  case (Cons x xs)
  then show ?case using keeps_bind [of "f x" "each f xs"] by simp
qed

lemma keeps_id: "keeps (\<lambda>b. Inr b)" by (simp add: keeps_def reaches.start)

lemma keeps_with: "(\<And>b c. f b = Inr c \<Longrightarrow> reaches b c) \<Longrightarrow> keeps (with_broker f)"
  by (auto simp: keeps_def with_broker_def rbind_eq_Inr)

lemma keeps_tick: "keeps (broker_tick bt q)"
  using reaches_op [of "OpTick q"] by (auto simp: keeps_def broker_tick_def split: sum.splits prod.splits)

lemma dividend_reaches: "dividend_order s q p b = Inr (i, c) \<Longrightarrow> reaches b c"
  using reaches_op [of "OpDividend s q p" b c] by simp

lemma keeps_dividend: "keeps (with_broker (process_dividend pv s dt))"
  unfolding process_dividend_def
proof (rule keeps_with)
  fix b c
  assume "(case pv_get_dividend pv s dt of (rc, d) \<Rightarrow>
      if rc \<noteq> 0 then Inr b
      else case fst (get_long_tracker s False b) of
        None \<Rightarrow> Inr b
      | Some t \<Rightarrow> rbind (dividend_lots t d) (\<lambda>num.
          rbind (dividend_order s (d_mul (cd_dividend_share d) (d_of_int num))
             (d_mul (cd_dividend_cash d) (d_of_int num)) b) (\<lambda>(i, b1). Inr b1))) = Inr c"
  then show "reaches b c"
    by (auto simp: rbind_eq_Inr intro: reaches.start dividend_reaches
        split: prod.splits if_splits option.splits)
qed

lemma keeps_quote:
  assumes "fair bt"
  shows "keeps (one_quote bt q)"
proof -
  have s: "keeps (all_strategys (\<lambda>st. if cc_qtype (bt_conf bt) \<noteq> QT_TICK then st_on_kline st (tick_to_kline q)
      else st_on_tick st q) bt)"
    unfolding all_strategys_def by (rule keeps_each) (use assms in \<open>auto simp: fair_def fair_strategy_def\<close>)
  have a: "keeps (all_analyzers (\<lambda>an. an_on_tick an q) bt)"
    unfolding all_analyzers_def by (rule keeps_each) (use assms in \<open>auto simp: fair_def fair_analyzer_def\<close>)
  have "keeps (\<lambda>b. rbind (broker_tick bt q b) (all_analyzers (\<lambda>an. an_on_tick an q) bt))"
    by (rule keeps_bind [OF keeps_tick a])
  from keeps_bind [OF s this] show ?thesis by (simp add: one_quote_def [abs_def])
qed

lemma replay_reaches: "replay n pv bt p b = Inr (p1, c) \<Longrightarrow> fair bt \<Longrightarrow> reaches (snd b) (snd c)"
proof (induction n arbitrary: p b)
  case (Suc n)
  then obtain t p2 where t: "player_next pv p = Inr (t, p2)" by (auto simp: rbind_eq_Inr)
  show ?case
  proof (cases t)
    case None
    then show ?thesis using Suc.prems t by (simp add: reaches.start)
  next
    case (Some q)
    then obtain d where "one_quote bt q b = Inr d" "replay n pv bt p2 d = Inr (p1, c)"
      using Suc.prems t by (auto simp: rbind_eq_Inr)
    then show ?thesis using Suc.IH Suc.prems(2) keeps_quote [OF Suc.prems(2)] reaches_trans by (metis keeps_def)
  qed
qed simp


lemma keeps_all:
  assumes "fair bt"
  shows "keeps (all_strategys (\<lambda>st. st_on_pre_market_open st dt) bt)"
    "keeps (all_strategys (\<lambda>st. st_on_market_open st dt) bt)"
    "keeps (all_strategys (\<lambda>st. st_on_market_close st dt) bt)" "keeps (all_analyzers an_on_settle bt)"
proof -
  show "keeps (all_strategys (\<lambda>st. st_on_pre_market_open st dt) bt)"
    "keeps (all_strategys (\<lambda>st. st_on_market_open st dt) bt)"
    "keeps (all_strategys (\<lambda>st. st_on_market_close st dt) bt)"
    unfolding all_strategys_def by (rule keeps_each, use assms in \<open>auto simp: fair_def fair_strategy_def\<close>)+
  show "keeps (all_analyzers an_on_settle bt)"
    unfolding all_analyzers_def by (rule keeps_each) (use assms in \<open>auto simp: fair_def fair_analyzer_def\<close>)
qed

lemma keeps_settle: "keeps (with_broker (settle rs))"
  by (rule keeps_with) (auto intro: reaches_op [of "OpSettle rs"])

lemma backtest_day_reaches:
  assumes "backtest_day pv bt dt p b = Inr (p1, c)" "fair bt"
  shows "reaches (snd b) (snd c)"
proof -
  obtain b1 b2 b3 b4 b5 b6 where
    1: "all_strategys (\<lambda>st. st_on_pre_market_open st dt) bt (fst b, set_date dt (snd b)) = Inr b1" and
    2: "each (\<lambda>t. with_broker (process_dividend pv (cp_symbol (pt_position t)) dt)) (get_all_tracker (snd b1)) b1 = Inr b2" and
    3: "all_strategys (\<lambda>st. st_on_market_open st dt) bt b2 = Inr b3" and
    4: "replay (replay_bound pv dt) pv bt (seek_to dt p) b3 = Inr (p1, b4)" and
    5: "all_strategys (\<lambda>st. st_on_market_close st dt) bt b4 = Inr b5" and
    6: "(case pv_get_daily_kline pv dt of (rc, rs) \<Rightarrow> if rc \<noteq> 0 then Inr b5 else with_broker (settle rs) b5) = Inr b6" and
    7: "all_analyzers an_on_settle bt b6 = Inr c"
    using assms(1) unfolding backtest_day_def rbind_eq_Inr by (auto simp: rbind_eq_Inr)
  have "reaches (snd b) (snd b1)"
    using reaches_trans [OF keepsD [OF keeps_all(1) [OF assms(2)] 1] reaches_op [of "OpDate dt"]] by simp
  moreover have "reaches (snd b1) (snd b2)"
    by (rule keepsD [where f = "each _ _", OF keeps_each 2]) (simp add: keeps_dividend)
  moreover have "reaches (snd b2) (snd b3)" by (rule keepsD [OF keeps_all(2) [OF assms(2)] 3])
  moreover have "reaches (snd b3) (snd b4)" by (rule replay_reaches [OF 4 assms(2)])
  moreover have "reaches (snd b4) (snd b5)" by (rule keepsD [OF keeps_all(3) [OF assms(2)] 5])
  moreover have "reaches (snd b5) (snd b6)"
    using 6 by (auto intro: reaches.start keepsD [OF keeps_settle] split: prod.splits if_splits)
  moreover have "reaches (snd b6) (snd c)" by (rule keepsD [OF keeps_all(4) [OF assms(2)] 7])
  ultimately show ?thesis by (meson reaches_trans)
qed

lemma backtest_days_reaches: "backtest_days pv bt ds p b = Inr c \<Longrightarrow> fair bt \<Longrightarrow> reaches (snd b) (snd c)"
proof (induction pv bt ds p b rule: backtest_days.induct)
  case (2 pv bt dt weekend ds p b)
  show ?case
  proof (cases "weekend \<or> \<not> pv_is_trading_day pv dt")
    case False
    then obtain p1 b1 where d: "backtest_day pv bt dt p b = Inr (p1, b1)" "backtest_days pv bt ds p1 b1 = Inr c"
      using 2(3) by (auto simp: rbind_eq_Inr)
    have "reaches (snd b1) (snd c)" by (rule 2(2) [OF False d(2) 2(4)])
    then show ?thesis using backtest_day_reaches [OF d(1) 2(4)] reaches_trans by blast
  qed (use 2 in auto)
qed (simp add: reaches.start)

lemma backtest_init_reaches:
  assumes "backtest_init conf bt = Inr bt1"
  shows "reaches (bt_broker bt) (bt_broker bt1)"
proof -
  define b2 where "b2 = broker_init (aw_new (cc_aid conf) (cc_name conf))
    (set_order_id_generator backtest_ids (set_order_update_callback (bt_broker bt)))"
  have op: "reaches b (set_order_update_callback b)" "reaches b (set_order_id_generator g b)"
    "reaches b (broker_init w b)" "reaches b (set_matcher e m b)" for b g w e m
    using reaches_op [of OpCallback b] reaches_op [of "OpGenerator g" b] reaches_op [of "OpInit w" b]
      reaches_op [of "OpMatcher e m" b] by simp_all
  have 2: "reaches (bt_broker bt) b2"
    unfolding b2_def by (meson op reaches_trans)
  obtain b3 where 3: "(if bt_state bt = 0 then rbind (deposit_cash (cc_cash conf) False b2) (\<lambda>(i, b). Inr b)
      else Inr b2) = Inr b3" "bt_broker bt1 = set_matchers b3"
    using assms unfolding backtest_init_def Let_def b2_def [symmetric] by (auto simp: rbind_eq_Inr simp del: split_paired_Ex)
  then have "reaches b2 b3"
    using reaches_op [of "OpDeposit (cc_cash conf) False" b2 b3]
    by (cases "bt_state bt = 0") (auto simp: reaches.start)
  have "reaches b3 (set_matchers b3)"
    unfolding set_matchers_def by (meson op(4) reaches_trans)
  then show ?thesis using 2 \<open>reaches b2 b3\<close> 3(2) reaches_trans by metis
qed


text \<open>
  A strategy that buys a share at every candle until it has been told of two filled orders, over a weekend day and three
  days with one tick each.
\<close>

definition demo_strategy :: "nat strategy" where
  "demo_strategy = \<lparr>st_on_pre_market_open = (\<lambda>dt b. Inr b), st_on_market_open = (\<lambda>dt b. Inr b),
     st_on_market_close = (\<lambda>dt b. Inr b), st_on_tick = (\<lambda>t b. Inr b),
     st_on_kline = (\<lambda>k (w, b).
       if w < 2 then with_broker (\<lambda>b. rbind (broker_buy (ck_symbol k) (d_of_int 1) d0 b) (\<lambda>(i, c). Inr c)) (w, b) else Inr (w, b)),
     st_on_order_update = (\<lambda>ord w. if co_status ord = OS_FILLED then Suc w else w)\<rparr>"

definition demo_dividend :: CerebroDividend where
  "demo_dividend = \<lparr>cd_symbol = demo_sym, cd_pub_date = 0, cd_closure_date = 0, cd_dividend_date = 0,
     cd_payable_date = 0, cd_round_lot = 10, cd_dividend_cash = d_of_int 5, cd_dividend_share = d0\<rparr>"

definition demo_provider :: CerebroQuoteProvider where
  "demo_provider = \<lparr>pv_get_daily_kline = (\<lambda>dt. (-1, [])), pv_get_last_tick = (\<lambda>dt. (0, [demo_tick 10 4])),
     pv_is_trading_day = (\<lambda>dt. True), pv_get_dividend = (\<lambda>s dt. (-1, demo_dividend))\<rparr>"

definition demo_days :: "(i32 \<times> bool) list" where
  "demo_days = [(20220101, True), (20220104, False), (20220105, False), (20220106, False)]"

lemma demo_fair: "fair_strategy demo_strategy"
proof -
  let ?buy = "\<lambda>(k :: CerebroKlineRecord) b. rbind (broker_buy (ck_symbol k) (d_of_int 1) d0 b) (\<lambda>(i, c). Inr c)"
  have "reaches b c" if "?buy k b = Inr c" for k b c
    using that reaches_op [of "OpBuy (ck_symbol k) (d_of_int 1) d0" b c] by simp
  then have "keeps (with_broker (?buy k))" for k by (rule keeps_with)
  note k = this
  have "keeps (\<lambda>(w, b). if w < (2 :: nat) then with_broker (?buy k) (w, b) else Inr (w, b))" for k
    unfolding keeps_def using keepsD [OF k] by (auto simp: reaches.start)
  then show ?thesis
    by (simp add: fair_strategy_def demo_strategy_def keeps_id)
qed


end
