(* ===== verification/Cerebro_Persist.thy ===== *)
theory Cerebro_Persist
  imports Db_Manager Cerebro_Broker
begin

text \<open>
  The tables that trading records are kept in (\<open>cerebro/cerebro_persist.cpp\<close>): one function per table describes its
  columns, of which the first are the primary key, and has the database manager create it. The properties are what
  becomes of keys of several columns.
\<close>

section \<open>The tables\<close>

record column =
  cl_name :: string
  cl_type :: u16
  cl_len :: u32
  cl_key :: bool

definition key_column :: "string \<Rightarrow> u16 \<Rightarrow> column" where
  "key_column n ty = \<lparr>cl_name = n, cl_type = ty, cl_len = 0, cl_key = True\<rparr>"

definition value_columns :: "string list \<Rightarrow> column list" where
  "value_columns ns = map (\<lambda>n. \<lparr>cl_name = n, cl_type = FT_Float64, cl_len = 0, cl_key = False\<rparr>) ns"

text \<open>Symbols have at most 16 bytes.\<close>

definition symbol_column :: column where
  "symbol_column = (key_column ''symbol'' FT_FixedString)\<lparr>cl_len := 16\<rparr>"

text \<open>Each column gets the next id of the table and is entered into it; the ids of the key are collected.\<close>

definition add_column :: "column \<Rightarrow> table_descriptor \<times> u16 list \<Rightarrow> table_descriptor \<times> u16 list" where
  "add_column c x =
     (case x of (tbl, keyids) \<Rightarrow> case td_next_id tbl of (i, tbl) \<Rightarrow>
        (td_add_field (fd_new\<lparr>fd_name := text_bytes (cl_name c), fd_id := i, fd_type := cl_type c, fd_len := cl_len c,
            fd_flags := (if cl_key c then FLAG_PrimaryKey else 0)\<rparr>) tbl,
         if cl_key c then keyids @ [i] else keyids))"

definition trading_table :: "column list \<Rightarrow> bytes \<Rightarrow> table_descriptor" where
  "trading_table cs tblname =
     (case fold add_column cs (td_new\<lparr>td_name := tblname\<rparr>, []) of (tbl, keyids) \<Rightarrow> td_set_primary_key keyids tbl)"

definition create_trading_table ::
    "column list \<Rightarrow> ('s, 'c) engine \<Rightarrow> bool \<Rightarrow> bytes \<Rightarrow> bytes \<Rightarrow> 's db_manager \<Rightarrow> (int \<times> 's db_manager) res" where
  "create_trading_table cs E big dbname tblname m =
     rbind (dm_create_table E big dbname (trading_table cs tblname) True m) (\<lambda>(rc, tbl, m). Inr (rc, m))"

definition tick_columns :: "column list" where
  "tick_columns =
     [key_column ''dt'' FT_Int32, key_column ''ts'' FT_Int64, symbol_column] @
     value_columns [''last'', ''high'', ''low'', ''open'', ''preclose'', ''turnover'', ''volume'', ''open_interest'',
       ''preopen_interest'', ''settlement'', ''prev_settlement'', ''limit_down'', ''limit_up''] @
     map (\<lambda>n. \<lparr>cl_name = n, cl_type = FT_FixedString, cl_len = 40, cl_key = False\<rparr>)
       [''ask_vols'', ''asks'', ''bid_vols'', ''bids'']"

definition account_values :: "column list" where
  "account_values = value_columns
     [''margin'', ''buy_margin'', ''sell_margin'', ''cash'', ''daily_pnl'', ''position_pnl'', ''market_value'', ''equity'',
      ''frozen_cash'', ''trading_pnl'', ''transaction_cost'', ''units'', ''unit_value'']"

definition account_columns :: "column list" where
  "account_columns = [key_column ''dt'' FT_Int32, key_column ''aid'' FT_Int64] @ account_values"

text \<open>The table of orders has the columns of an account, none of an order.\<close>

definition order_columns :: "column list" where
  "order_columns =
     [key_column ''trading_date'' FT_Int32, key_column ''aid'' FT_Int64, symbol_column] @ account_values"

definition position_columns :: "column list" where
  "position_columns =
     [key_column ''dt'' FT_Int32, symbol_column, key_column ''direction'' FT_Int8] @
     value_columns [''closable'', ''margin'', ''market_value'', ''pnl'', ''position_pnl'', ''quantity'', ''today_closable'',
       ''trading_pnl'', ''avg_price'', ''commissions'']"

definition create_tick_table ::
    "('s, 'c) engine \<Rightarrow> bool \<Rightarrow> bytes \<Rightarrow> bytes \<Rightarrow> 's db_manager \<Rightarrow> (int \<times> 's db_manager) res" where
  "create_tick_table = create_trading_table tick_columns"

definition create_account_table ::
    "('s, 'c) engine \<Rightarrow> bool \<Rightarrow> bytes \<Rightarrow> bytes \<Rightarrow> 's db_manager \<Rightarrow> (int \<times> 's db_manager) res" where
  "create_account_table = create_trading_table account_columns"

definition create_order_table ::
    "('s, 'c) engine \<Rightarrow> bool \<Rightarrow> bytes \<Rightarrow> bytes \<Rightarrow> 's db_manager \<Rightarrow> (int \<times> 's db_manager) res" where
  "create_order_table = create_trading_table order_columns"

definition create_position_table ::
    "('s, 'c) engine \<Rightarrow> bool \<Rightarrow> bytes \<Rightarrow> bytes \<Rightarrow> 's db_manager \<Rightarrow> (int \<times> 's db_manager) res" where
  "create_position_table = create_trading_table position_columns"

text \<open>The conversions between ticks and rows are not there yet: one fails, the other does nothing and succeeds.\<close>

definition aquadb_record_to_tick :: "tuple_object \<Rightarrow> CerebroTickRecord \<Rightarrow> int \<times> CerebroTickRecord" where
  "aquadb_record_to_tick record tick = (-1, tick)"

definition tick_to_aquadb_record :: "CerebroTickRecord \<Rightarrow> tuple_object \<Rightarrow> int \<times> tuple_object" where
  "tick_to_aquadb_record tick record = (0, record)"

section \<open>Keys of several columns\<close>

text \<open>Filling up a buffer with room for it.\<close>

lemma fill_loop:
  assumes "Owned s" "Capacity s = int (length (mem s))" "Length s = int n" "n + k + 1 \<le> length (mem s)"
    "length (mem s) < 2 ^ 25"
  shows "\<exists>m len'. str_fill_loop k s (int n) c len = Inr (len', s\<lparr>mem := m, Length := int (n + k)\<rparr>) \<and>
    length m = length (mem s) \<and> take (n + k) m = take n (mem s) @ replicate k c \<and> (0 < k \<longrightarrow> m ! (n + k) = 0)"
  using assms
proof (induction k arbitrary: s n len)
  case (Suc k)
  let ?m = "(mem s)[n := c, Suc n := 0]"
  let ?s = "s\<lparr>mem := ?m, Length := int (Suc n)\<rparr>"
  have a: "str_append_from_char s (int n) c = Inr (1, ?s)"
    using Suc.prems by (simp add: str_append_from_char_def str_grow_def poke_i_def poke_at_def nat_add_distrib algebra_simps)
  have "Owned ?s" "Capacity ?s = int (length (mem ?s))" "Length ?s = int (Suc n)" "Suc n + k + 1 \<le> length (mem ?s)"
    "length (mem ?s) < 2 ^ 25"
    using Suc.prems by simp_all
  from Suc.IH [OF this, of 1] obtain m len' where m: "str_fill_loop k ?s (int (Suc n)) c 1 =
      Inr (len', ?s\<lparr>mem := m, Length := int (Suc n + k)\<rparr>)" "length m = length (mem s)"
    "take (Suc n + k) m = take (Suc n) ?m @ replicate k c" "0 < k \<longrightarrow> m ! (Suc n + k) = 0"
    by auto
  have "take (Suc n) ?m = take n (mem s) @ [c]"
    using Suc.prems(4) by (simp add: take_Suc_conv_app_nth)
  moreover have "m ! (n + Suc k) = 0"
  proof (cases "k = 0")
    case True
    then have "?s = ?s\<lparr>mem := m, Length := int (Suc n + k)\<rparr>" using m(1) by simp
    from arg_cong [OF this, of mem] have "m = ?m" by simp
    then show ?thesis using Suc.prems(4) True by simp
  qed (use m(4) in simp)
  moreover have "str_fill_loop (Suc k) s (int n) c len = Inr (len', s\<lparr>mem := m, Length := int (n + Suc k)\<rparr>)"
    using a m(1) by (simp add: add.commute)
  ultimately show ?case using m(2, 3) by (intro exI [of _ m] exI [of _ len']) (simp add: replicate_app_Cons_same)
next
  case 0
  then show ?case by (intro exI [of _ "mem s"]) simp
qed

text \<open>A key that starts with a zero byte is zeroed by every further column, and by the filling of a short symbol once more.\<close>

lemma zero_step:
  assumes "tight_key k" "hd (key_view k) = 0" "length (key_view k) = n" "0 < n" "n < 100" "bs \<noteq> []" "length bs < 100"
  obtains k' where "key_append k bs = Inr k'" "tight_key k'" "key_view k' = replicate n 0 @ bs" "hd (key_view k') = 0"
proof -
  have "key_view k \<noteq> []" using assms(3, 4) by auto
  from zeroed_append [OF assms(1) this assms(2) assms(6)] assms(3-5, 7) that show ?thesis
    by (auto simp: hd_append)
qed

lemma fixed_char_zero:
  assumes "tight_key k" "hd (key_view k) = 0" "length (key_view k) = n" "0 < n" "n < 80" "length x < 16"
  obtains k' where "append_fixed_char k x 16 = Inr k'" "tight_key k'" "key_view k' = replicate (n + 16) 0"
proof -
  obtain k1 where k1: "key_append k x = Inr k1" "tight_key k1" "hd (key_view k1) = 0" "length (key_view k1) = n + length x"
  proof (cases "x = []")
    case True
    then obtain k1 where "key_append k x = Inr k1" "tight_key k1" "key_view k1 = key_view k"
      using tight_append [OF assms(1), of x] assms(3, 5) by auto
    then show ?thesis using that assms(2, 3) True by simp
  next
    case False
    then obtain k1 where "key_append k x = Inr k1" "tight_key k1" "key_view k1 = replicate n 0 @ x" "hd (key_view k1) = 0"
      using zero_step [OF assms(1-4), of x] assms(5, 6) by auto
    then show ?thesis using that by simp
  qed
  let ?s = "mk_data k1" and ?l = "n + length x" and ?f = "16 - length x"
  have s: "str_ok ?s" "Length ?s = int ?l" "Capacity ?s = int ?l + 1" "str_view ?s \<noteq> []" "hd (str_view ?s) = 0"
    "length (str_view ?s) = ?l"
    using k1(2-4) tight_length [OF k1(2)] assms(4) by (auto simp: tight_key_def key_ok_def key_view_def)
  obtain m where m: "str_grow ?s (Length ?s + int ?f + 1) = Inr (?s\<lparr>mem := m, Capacity := Length ?s + int ?f + 1, Owned := True\<rparr>)"
    "length m = ?l + ?f + 1" "take ?l m = replicate ?l 0"
    using grow_eq [OF s(1), of "Length ?s + int ?f + 1"] s(2-6) nul_tail_hd [OF s(4, 5)] assms(5, 6)
    by (auto simp: nat_add_distrib)
  let ?t = "?s\<lparr>mem := m, Capacity := Length ?s + int ?f + 1, Owned := True\<rparr>"
  obtain m' len' where m': "str_fill_loop ?f ?t (int ?l) 0 0 = Inr (len', ?t\<lparr>mem := m', Length := int (?l + ?f)\<rparr>)"
    "length m' = length m" "take (?l + ?f) m' = take ?l m @ replicate ?f 0" "m' ! (?l + ?f) = 0"
    using fill_loop [of ?t ?l ?f 0 0] s(2) m(2) assms(5, 6) by auto
  define k' where "k' = k1\<lparr>mk_data := ?t\<lparr>mem := m', Length := int (?l + ?f)\<rparr>\<rparr>"
  have lf: "?l + ?f = n + 16" using assms(6) by simp
  have "take (n + 16) m' = replicate (n + 16) 0"
    using m'(3) m(3) lf by (simp add: replicate_add [symmetric])
  then have v: "key_view k' = replicate (n + 16) 0" by (simp add: k'_def key_view_def str_view_def lf nat_add_distrib)
  have "m' ! (n + 16) = 0" "length m' = n + 17" using m'(2, 4) m(2) lf by simp_all
  moreover from this have "nul_pos m' \<le> n + 16" by (intro nul_pos_zero) simp_all
  ultimately have "tight_key k'"
    using s(2) assms(5, 6) by (simp add: tight_key_def key_ok_def str_ok_def k'_def lf of_nat_diff nat_add_distrib)
  moreover have "append_fixed_char k x 16 = Inr k'"
  proof -
    have "str_append_fill ?s (int ?f) 0 = Inr (len', ?t\<lparr>mem := m', Length := int (?l + ?f)\<rparr>)"
      using m(1) m'(1) s(2) assms(6) by (simp add: str_append_fill_def nat_diff_distrib)
    then show ?thesis
      using k1(1) assms(6) by (simp add: append_fixed_char_def k'_def)
  qed
  ultimately show ?thesis using v that by blast
qed

text \<open>A column that can be appended, with no text that fills its 16 bytes, and what it leaves behind the zeros.\<close>

definition col_entry :: "field_descriptor \<Rightarrow> val \<Rightarrow> bool" where
  "col_entry fd v \<longleftrightarrow>
     (fd_type fd = FT_Int32 \<or> fd_type fd = FT_Int64) \<and> (\<exists>i. to_long v = Inr i) \<or>
     fd_type fd = FT_Int8 \<and> (\<exists>i. to_i32 v = Inr i) \<or>
     fd_type fd = FT_FixedString \<and> fd_len fd = 16 \<and> (\<exists>x. v = VString x \<and> length x < 16)"

definition col_image :: "field_descriptor \<Rightarrow> val \<Rightarrow> bytes" where
  "col_image fd v =
     (if fd_type fd = FT_FixedString then replicate 16 0
      else if fd_type fd = FT_Int8 then (case to_i32 v of Inr i \<Rightarrow> [encode_i8 (ucast i)] | Inl _ \<Rightarrow> [])
      else case to_long v of
        Inr i \<Rightarrow> if fd_type fd = FT_Int32 then be_bytes 4 (encode_i32 (ucast i)) else be_bytes 8 (encode_i64 i)
      | Inl _ \<Rightarrow> [])"

lemma append_entry:
  assumes "tight_key k" "hd (key_view k) = 0" "length (key_view k) = n" "0 < n" "n < 80" "col_entry fd v"
  obtains k' where "field_append_value atof big fd v k = Inr k'" "tight_key k'" "hd (key_view k') = 0"
    "key_view k' = replicate n 0 @ col_image fd v"
proof -
  have n: "n < 100" using assms(5) by simp
  consider (i4) i where "fd_type fd = FT_Int32" "to_long v = Inr i"
    | (i8) i where "fd_type fd = FT_Int64" "to_long v = Inr i"
    | (i1) i where "fd_type fd = FT_Int8" "to_i32 v = Inr i"
    | (sym) x where "fd_type fd = FT_FixedString" "fd_len fd = 16" "v = VString x" "length x < 16"
    using assms(6) unfolding col_entry_def by blast
  then show ?thesis
  proof cases
    case i4
    obtain k' where "key_append k (be_bytes 4 (encode_i32 (ucast i)))  = Inr k'" "tight_key k'"
      "key_view k' = replicate n 0 @ be_bytes 4 (encode_i32 (ucast i))" "hd (key_view k') = 0"
      using zero_step [OF assms(1-4) n, of "be_bytes 4 (encode_i32 (ucast i))"] be_bytes_nonempty [of 4] by auto
    then show ?thesis
      using i4 that by (simp add: field_append_value_def field_types append_i32_def col_bytes col_image_def)
  next
    case i8
    obtain k' where "key_append k (be_bytes 8 (encode_i64 i))  = Inr k'" "tight_key k'"
      "key_view k' = replicate n 0 @ be_bytes 8 (encode_i64 i)" "hd (key_view k') = 0"
      using zero_step [OF assms(1-4) n, of "be_bytes 8 (encode_i64 i)"] be_bytes_nonempty [of 8] by auto
    then show ?thesis
      using i8 that by (simp add: field_append_value_def field_types append_i64_def col_bytes col_image_def)
  next
    case i1
    obtain k' where "key_append k [encode_i8 (ucast i)] = Inr k'" "tight_key k'"
      "key_view k' = replicate n 0 @ [encode_i8 (ucast i)]" "hd (key_view k') = 0"
      using zero_step [OF assms(1-4) n, of "[encode_i8 (ucast i)]"] by auto
    then show ?thesis
      using i1 that by (simp add: field_append_value_def field_types append_i8_def col_i8_def col_image_def)
  next
    case sym
    obtain k' where k': "append_fixed_char k x 16 = Inr k'" "tight_key k'" "key_view k' = replicate (n + 16) 0"
      using fixed_char_zero [OF assms(1-5) sym(4)] by auto
    have "value_slice big v = Inr x" by (simp add: sym(3) value_slice_def read_block_def)
    moreover have "hd (key_view k') = 0" by (simp add: k'(3))
    ultimately show ?thesis
      using sym k' that by (simp add: field_append_value_def field_types col_image_def replicate_add)
  qed
qed

lemma col_image_short: "length (col_image fd v) \<le> 16"
  by (simp add: col_image_def split: sum.splits)

text \<open>Of a key of several columns the last one is left.\<close>

lemma append_entries:
  assumes "tight_key k" "hd (key_view k) = 0" "length (key_view k) = n" "0 < n" "n + 16 * length cs < 80" "cs \<noteq> []"
    "\<forall>c \<in> set cs. field_at t (fst c) = Inr (fst (snd c)) \<and> col_entry (fst (snd c)) (snd (snd c)) \<and>
      (\<forall>j. f j (fst (snd c)) = Inr (snd (snd c)))"
  shows "\<exists>k'. append_key_fields atof big t f (map fst cs) j k = Inr k' \<and> tight_key k' \<and>
    key_view k' = replicate (n + (\<Sum>c\<leftarrow>butlast cs. length (col_image (fst (snd c)) (snd (snd c))))) 0 @
      (case last cs of (i, fd, v) \<Rightarrow> col_image fd v)"
  using assms
proof (induction cs arbitrary: n j k)
  case (Cons c cs)
  obtain i fd v where c: "c = (i, fd, v)" by (cases c)
  have e: "field_at t i = Inr fd" "col_entry fd v" "f j fd = Inr v" using Cons.prems(7) by (auto simp: c)
  have "n < 80" using Cons.prems(5) by simp
  from append_entry [OF Cons.prems(1-4) this e(2), of atof big] obtain k1 where
    k1: "field_append_value atof big fd v k = Inr k1" "tight_key k1" "hd (key_view k1) = 0"
    "key_view k1 = replicate n 0 @ col_image fd v" .
  show ?case
  proof (cases "cs = []")
    case True
    then show ?thesis using e k1 by (simp add: c)
  next
    case False
    let ?n = "n + length (col_image fd v)"
    have "length (key_view k1) = ?n" "0 < ?n" "?n + 16 * length cs < 80"
      using k1(4) Cons.prems(4, 5) col_image_short [of fd v] by simp_all
    from Cons.IH [OF k1(2, 3) this False] Cons.prems(7) show ?thesis
      using e k1(1) False by (auto simp: c add.assoc)
  qed
qed simp

definition col_size :: "u16 \<Rightarrow> nat" where
  "col_size ty = (if ty = FT_FixedString then 16 else if ty = FT_Int8 then 1 else if ty = FT_Int32 then 4 else 8)"

lemma col_image_size: "col_entry fd v \<Longrightarrow> length (col_image fd v) = col_size (fd_type fd)"
  by (auto simp: col_entry_def col_image_def col_size_def field_types)

section \<open>Rows\<close>

text \<open>A row that has a value for each column of the key of a table.\<close>

definition key_columns :: "column list \<Rightarrow> column list" where "key_columns cs = filter cl_key cs"

definition column_fd :: "column \<Rightarrow> field_descriptor" where
  "column_fd c = fd_new\<lparr>fd_type := cl_type c, fd_len := cl_len c\<rparr>"

definition keyed_row :: "column list \<Rightarrow> table_row \<Rightarrow> bool" where
  "keyed_row cs r \<longleftrightarrow>
     (\<forall>c \<in> set (key_columns cs). case row_value r (text_bytes (cl_name c)) of Inl _ \<Rightarrow> False | Inr v \<Rightarrow> col_entry (column_fd c) v)"

definition trading_columns :: "column list list" where
  "trading_columns = [tick_columns, account_columns, order_columns, position_columns]"

text \<open>What the tables have as fields and as key.\<close>

lemma fold_add_name:
  "fold add_column cs (d\<lparr>td_name := n\<rparr>, ks) = (case fold add_column cs (d, ks) of (d', ks') \<Rightarrow> (d'\<lparr>td_name := n\<rparr>, ks'))"
proof (induction cs arbitrary: d ks)
  case (Cons c cs)
  obtain d1 ks1 where "add_column c (d, ks) = (d1, ks1)" by fastforce
  moreover from this have "add_column c (d\<lparr>td_name := n\<rparr>, ks) = (d1\<lparr>td_name := n\<rparr>, ks1)"
    by (auto simp: add_column_def td_next_id_def td_add_field_def)
  ultimately show ?case using Cons.IH by simp
qed simp

lemma trading_table_name: "trading_table cs n = (trading_table cs [])\<lparr>td_name := n\<rparr>"
  using fold_add_name [where d = td_new and n = n] fold_add_name [where d = td_new and n = "[]"]
  by (auto simp: trading_table_def td_set_primary_key_def split: prod.splits)

lemma fold_add_comment: "td_comment (fst (fold add_column cs x)) = td_comment (fst x)"
proof (induction cs arbitrary: x)
  case (Cons c cs)
  have "td_comment (fst (add_column c x)) = td_comment (fst x)"
    by (cases x) (simp add: add_column_def td_next_id_def td_add_field_def)
  then show ?case using Cons by simp
qed simp

lemma trading_table_parts [simp]:
  "td_name (trading_table cs n) = n" "td_comment (trading_table cs n) = []"
proof -
  show "td_name (trading_table cs n) = n" using arg_cong [OF trading_table_name [of cs n], of td_name] by simp
  show "td_comment (trading_table cs n) = []"
    using fold_add_comment [of cs "(td_new\<lparr>td_name := n\<rparr>, [])"]
    by (auto simp: trading_table_def td_set_primary_key_def td_new_def split: prod.splits)
qed

lemma trading_table_fields: "td_fields (trading_table cs n) = td_fields (trading_table cs [])"
  using arg_cong [OF trading_table_name [of cs n], of td_fields] by simp

definition table_keys :: "column list \<Rightarrow> (u16 \<times> field_descriptor) list" where
  "table_keys cs = map (\<lambda>(i, c). (word_of_nat (Suc i),
     (column_fd c)\<lparr>fd_name := text_bytes (cl_name c), fd_id := word_of_nat (Suc i), fd_flags := FLAG_PrimaryKey\<rparr>))
       (enumerate 0 (key_columns cs))"

lemma trading_table_keys:
  assumes "cs \<in> set trading_columns"
  shows "td_primarykey (trading_table cs n) = Some (ix_new\<lparr>ix_fields := map fst (table_keys cs), ix_type := 1\<rparr>)"
    "\<forall>p \<in> set (table_keys cs). map_of (td_fields (trading_table cs n)) (uint (fst p)) = Some (snd p)"
    "length (table_keys cs) \<le> 3" "table_keys cs \<noteq> []"
    "\<forall>x \<in> set (td_fields (trading_table cs n)). field_fits (snd x)"
proof -
  have "list_all (\<lambda>cs. td_primarykey (trading_table cs []) = Some (ix_new\<lparr>ix_fields := map fst (table_keys cs), ix_type := 1\<rparr>) \<and>
      list_all (\<lambda>p. map_of (td_fields (trading_table cs [])) (uint (fst p)) = Some (snd p)) (table_keys cs) \<and>
      length (table_keys cs) \<le> 3 \<and> table_keys cs \<noteq> [] \<and>
      list_all (\<lambda>x. length (fd_name (snd x)) < 100 \<and> fd_comment (snd x) = [] \<and> fd_extra (snd x) = []) (td_fields (trading_table cs []))) trading_columns"
    by code_simp
  moreover have "field_fits x" if "length (fd_name x) < 100 \<and> fd_comment x = [] \<and> fd_extra x = []" for x
    using that by (simp add: field_fits_def)
  ultimately show "td_primarykey (trading_table cs n) = Some (ix_new\<lparr>ix_fields := map fst (table_keys cs), ix_type := 1\<rparr>)"
    "\<forall>p \<in> set (table_keys cs). map_of (td_fields (trading_table cs n)) (uint (fst p)) = Some (snd p)"
    "length (table_keys cs) \<le> 3" "table_keys cs \<noteq> []"
    "\<forall>x \<in> set (td_fields (trading_table cs n)). field_fits (snd x)"
    using assms by (simp_all add: trading_table_name [of cs n] list_all_iff)
qed

text \<open>The key of a row depends on its last column only.\<close>

definition last_bytes :: "column list \<Rightarrow> table_row \<Rightarrow> bytes" where
  "last_bytes cs r =
     (let c = last (key_columns cs) in
      case row_value r (text_bytes (cl_name c)) of Inl _ \<Rightarrow> [] | Inr v \<Rightarrow> col_image (column_fd c) v)"

definition zeros_before :: "column list \<Rightarrow> nat" where
  "zeros_before cs = 8 + (\<Sum>c\<leftarrow>butlast (key_columns cs). col_size (cl_type c))"

lemma trading_row_key:
  assumes "cs \<in> set trading_columns" "tb_tbl t = (trading_table cs n)\<lparr>td_id := i\<rparr>" "uint (dd_id (tb_db t)) < 2 ^ 24"
    "keyed_row cs r"
  shows "rbind (key_of_row atof big t r) key_slice = Inr (replicate (zeros_before cs) 0 @ last_bytes cs r)"
proof -
  note K = trading_table_keys [OF assms(1)]
  obtain k where k: "table_prefix big t = Inr k" "tight_key k" "length (key_view k) = 8" "hd (key_view k) = 0"
    using table_prefix_zero [OF assms(3)] by blast
  define f where "f = (\<lambda>(j :: nat) (fd :: field_descriptor). row_value r (fd_name fd))"
  define V where "V = (\<lambda>c :: column. case row_value r (text_bytes (cl_name c)) of Inl _ \<Rightarrow> VNone | Inr v \<Rightarrow> v)"
  define fd where "fd = (\<lambda>(j, c :: column). (column_fd c)\<lparr>fd_name := text_bytes (cl_name c), fd_id := word_of_nat (Suc j), fd_flags := FLAG_PrimaryKey\<rparr>)"
  define es where "es = map (\<lambda>(j, c). (word_of_nat (Suc j) :: u16, fd (j, c), V c)) (enumerate 0 (key_columns cs))"
  have ids: "pk_ids t = Inr (map fst es)"
    using K(1) by (simp add: pk_ids_def assms(2) table_keys_def es_def comp_def case_prod_unfold)
  have len: "length es \<le> 3" "es \<noteq> []" using K(3, 4) by (auto simp: es_def table_keys_def)
  have V: "row_value r (text_bytes (cl_name c)) = Inr (V c) \<and> col_entry (column_fd c) (V c)" if "c \<in> set (key_columns cs)" for c
    using assms(4) that by (auto simp: keyed_row_def V_def split: sum.splits)
  have entry: "field_at t (fst e) = Inr (fst (snd e)) \<and> col_entry (fst (snd e)) (snd (snd e)) \<and>
      (\<forall>j. f j (fst (snd e)) = Inr (snd (snd e)))" if "e \<in> set es" for e
  proof -
    obtain j c where e: "e = (word_of_nat (Suc j), fd (j, c), V c)" "(j, c) \<in> set (enumerate 0 (key_columns cs))"
      using \<open>e \<in> set es\<close> by (auto simp: es_def)
    then have c: "c \<in> set (key_columns cs)" by (auto simp: in_set_enumerate_eq)
    have "(word_of_nat (Suc j), fd (j, c)) \<in> set (table_keys cs)"
      using e(2) unfolding table_keys_def fd_def by force
    with K(2) have "map_of (td_fields (trading_table cs n)) (uint (word_of_nat (Suc j) :: u16)) = Some (fd (j, c))"
      by force
    then have "field_at t (fst e) = Inr (fst (snd e))" by (simp add: field_at_def assms(2) e(1))
    then show ?thesis using V [OF c] by (simp add: e(1) f_def fd_def col_entry_def)
  qed
  obtain k' where k': "append_key_fields atof big t f (map fst es) 0 k = Inr k'" "tight_key k'"
    "key_view k' = replicate (8 + (\<Sum>c\<leftarrow>butlast es. length (col_image (fst (snd c)) (snd (snd c))))) 0 @
      (case last es of (i, fd, v) \<Rightarrow> col_image fd v)"
    using append_entries [OF k(2, 4, 3) _ _ len(2), of t f atof big 0] len(1) entry by auto
  have ci: "col_image (fd (j, c)) v = col_image (column_fd c) v" for j c v
    by (simp add: fd_def col_image_def split: sum.splits)
  have last: "(case last es of (i, fd, v) \<Rightarrow> col_image fd v) = last_bytes cs r"
  proof -
    have ne: "key_columns cs \<noteq> []" using len(2) by (auto simp: es_def)
    have "enumerate 0 (key_columns cs) \<noteq> []" using ne by (metis length_0_conv length_enumerate)
    from last_map [OF this, of snd] have "snd (last (enumerate 0 (key_columns cs))) = last (key_columns cs)" by simp
    moreover have "last es = (\<lambda>(j, c). (word_of_nat (Suc j) :: u16, fd (j, c), V c)) (last (enumerate 0 (key_columns cs)))"
      using len(2) unfolding es_def by (intro last_map) auto
    ultimately have "last es = (word_of_nat (Suc (fst (last (enumerate 0 (key_columns cs))))),
        fd (fst (last (enumerate 0 (key_columns cs))), last (key_columns cs)), V (last (key_columns cs)))"
      by (metis (no_types, lifting) case_prod_conv prod.collapse)
    then show ?thesis using V [of "last (key_columns cs)"] ne by (simp add: ci last_bytes_def Let_def)
  qed
  have zeros: "(\<Sum>c\<leftarrow>butlast es. length (col_image (fst (snd c)) (snd (snd c)))) = (\<Sum>c\<leftarrow>butlast (key_columns cs). col_size (cl_type c))"
  proof -
    have "length (col_image (fst (snd e)) (snd (snd e))) = col_size (fd_type (fst (snd e)))" if "e \<in> set (butlast es)" for e
      using entry [OF in_set_butlastD [OF that]] col_image_size by blast
    then have "map (\<lambda>c. length (col_image (fst (snd c)) (snd (snd c)))) (butlast es) = map (\<lambda>e. col_size (fd_type (fst (snd e)))) (butlast es)"
      by simp
    moreover have "map (\<lambda>e. col_size (fd_type (fst (snd e)))) es = map (\<lambda>c. col_size (cl_type c)) (key_columns cs)"
    proof -
      have "map (\<lambda>e. col_size (fd_type (fst (snd e)))) es = map (\<lambda>x. col_size (cl_type (snd x))) (enumerate 0 (key_columns cs))"
        by (simp add: es_def fd_def column_fd_def case_prod_unfold comp_def)
      also have "\<dots> = map (\<lambda>c. col_size (cl_type c)) (map snd (enumerate 0 (key_columns cs)))" by (simp only: map_map comp_def)
      finally show ?thesis by (simp only: map_snd_enumerate)
    qed
    ultimately show ?thesis by (metis map_butlast)
  qed
  have "key_of_row atof big t r = Inr k'"
    using k(1) ids k'(1) by (simp add: key_of_row_def key_of_fields_def f_def)
  then show ?thesis using key_slice_tight [OF k'(2)] k'(3) by (simp add: last zeros zeros_before_def)
qed

lemma create_trading_writer:
  assumes "ordered_items (dm_dbs m)" "dm_get_db m n = Some db" "\<not> dd_exists db tn" "ordered_items (dd_name2table db)"
    "create_trading_table cs E big n tn m = Inr (0, m')"
  shows "\<exists>t. dm_get_table_writer m' n tn = Some t \<and> dd_id (tb_db t) = dd_id db \<and>
    tb_tbl t = (trading_table cs tn)\<lparr>td_id := dd_last_tid db + 1\<rparr>"
proof -
  let ?db = "db\<lparr>dd_last_tid := dd_last_tid db + 1\<rparr>" and ?t = "(trading_table cs tn)\<lparr>td_id := dd_last_tid db + 1\<rparr>"
  have tn: "td_name (trading_table cs tn) = tn" by simp
  have "store_table E big n ?db ?t m = Inr (0, m')"
    using assms(2, 3, 5) tn
    by (auto simp: create_trading_table_def dm_create_table_def dd_next_id_def rbind_eq_Inr Let_def)
  then obtain c :: int and w where "(if c \<noteq> 0 then Inr (c, (dm_set_db n ?db m)\<lparr>dm_wrapper := w\<rparr>)
      else Inr (0, dm_set_db n (dd_add_table (td_name ?t) ?t ?db) ((dm_set_db n ?db m)\<lparr>dm_wrapper := w\<rparr>))) = (Inr (0, m') :: _ res)"
    by (auto simp: store_table_def rbind_eq_Inr Let_def)
  then have m': "m' = dm_set_db n (dd_add_table tn ?t ?db) ((dm_set_db n ?db m)\<lparr>dm_wrapper := w\<rparr>)"
    using tn by (simp split: if_splits)
  have "dm_dbs m' = map_assign n (dd_add_table tn ?t ?db) (map_assign n ?db (dm_dbs m))" by (simp add: m' dm_set_db_def)
  then show ?thesis
    using map_of_assign [OF map_assign_ordered [OF assms(1)]] map_of_assign [OF assms(4)]
    by (simp add: dm_get_table_writer_def dm_get_db_def dd_get_table_def dd_add_table_def)
qed

lemma table_insert_items:
  assumes "writes_ok E items" "data_store w h" "rbind (key_of_row atof big t r) key_slice = Inr k"
    "table_insert E atof big w t r = Inr (0, w1)"
  shows "data_store w1 h \<and>
    (\<exists>v. value_of_row big t r = Inr v \<and> items (rw_db w1) = (items (rw_db w))(h := put_item (k, v) (items (rw_db w) h)))"
proof -
  obtain v where v: "value_of_row big t r = Inr v"
    "rbind (rocks_put E w (get_data_handle w) k v) (\<lambda>x. Inr (write_code x)) = Inr (0, w1)"
    using assms(3, 4) by (auto simp: table_insert_def rbind_eq_Inr)
  obtain c s where c: "e_put E (rw_db w) (Some h) k v = (c, s)" by fastforce
  have "c = 0" "w1 = w\<lparr>rw_db := s\<rparr>"
    using v(2) assms(2) c
    by (auto simp: data_store_def rocks_put_def using_db_open set_db_def write_code_def ERR_WRITE_ABNORMALITY_def
        split: if_splits)
  then show ?thesis
    using v(1) c assms(2) writes_okD(2) [OF assms(1), of "rw_db w" h k v s] by auto
qed

lemma put_item_again: "put_item (k, v) (put_item (k, u) its) = put_item (k, v) its"
proof -
  have "filter (\<lambda>x. fst x < k \<and> k < fst x) its = []" "filter (\<lambda>x. k < fst x \<and> fst x < k) its = []"
    by (auto simp: filter_empty_conv)
  then show ?thesis by (simp add: put_item_def)
qed

text \<open>
  C22. Records of trading overwrite each other. In a database with an id below 2^24, a row of one of the four tables as the
  program creates them, with symbols below 16 bytes, replaces the row inserted before if the last column of its key
  looks the same: for ticks and orders, whose last column is the symbol, that is any row at all; for accounts those
  of the same account on whatever day; for positions those of the same direction, whatever the symbol. Of the
  first of two such rows nothing is left.
\<close>

theorem trading_rows_lost:
  assumes "writes_ok E items" "ordered_items (dm_dbs m)" "dm_get_db m n = Some db" "uint (dd_id db) < 2 ^ 24"
    and "\<not> dd_exists db tn" "ordered_items (dd_name2table db)" "cs \<in> set trading_columns"
    and "create_trading_table cs E big n tn m = Inr (0, m')" "keyed_row cs r1" "keyed_row cs r2"
    and "cs \<in> {tick_columns, order_columns} \<or>
      (let nm = text_bytes (cl_name (last (key_columns cs))) in row_value r1 nm = row_value r2 nm)"
  shows "\<exists>t. dm_get_table_writer m' n tn = Some t \<and>
    (\<forall>w w1 w2 h. data_store w h \<longrightarrow> table_insert E atof big w t r1 = Inr (0, w1) \<longrightarrow>
      table_insert E atof big w1 t r2 = Inr (0, w2) \<longrightarrow>
      (\<exists>k v. value_of_row big t r2 = Inr v \<and>
        items (rw_db w2) = (items (rw_db w))(h := put_item (k, v) (items (rw_db w) h))))"
proof -
  obtain t where t: "dm_get_table_writer m' n tn = Some t" "dd_id (tb_db t) = dd_id db"
    "tb_tbl t = (trading_table cs tn)\<lparr>td_id := dd_last_tid db + 1\<rparr>"
    using create_trading_writer [OF assms(2,3,5,6,8)] by blast
  have id: "uint (dd_id (tb_db t)) < 2 ^ 24" using assms(4) t(2) by simp
  note key = trading_row_key [OF assms(7) t(3) id]
  have "last_bytes cs r1 = last_bytes cs r2"
  proof (cases "cs \<in> {tick_columns, order_columns}")
    case True
    then have sym: "last (key_columns cs) = symbol_column"
      by (auto simp: key_columns_def tick_columns_def order_columns_def account_values_def value_columns_def key_column_def
          symbol_column_def)
    then have "symbol_column \<in> set (key_columns cs)"
      using True by (auto simp: key_columns_def tick_columns_def order_columns_def symbol_column_def key_column_def)
    then have "last_bytes cs r = replicate 16 0" if "keyed_row cs r" for r
      using that sym
      by (fastforce simp: last_bytes_def keyed_row_def Let_def col_image_def column_fd_def symbol_column_def key_column_def
          split: sum.splits)
    then show ?thesis using assms(9, 10) by simp
  next
    case False
    then show ?thesis using assms(11) by (simp add: last_bytes_def Let_def)
  qed
  then have k: "rbind (key_of_row atof big t r1) key_slice = Inr (replicate (zeros_before cs) 0 @ last_bytes cs r2)"
    using key [OF assms(9), of atof big] by simp
  have "\<exists>k v. value_of_row big t r2 = Inr v \<and> items (rw_db w2) = (items (rw_db w))(h := put_item (k, v) (items (rw_db w) h))"
    if a: "data_store w h" "table_insert E atof big w t r1 = Inr (0, w1)" "table_insert E atof big w1 t r2 = Inr (0, w2)"
    for w w1 w2 h
  proof -
    obtain v1 where 1: "data_store w1 h" "items (rw_db w1) = (items (rw_db w))(h :=
        put_item (replicate (zeros_before cs) 0 @ last_bytes cs r2, v1) (items (rw_db w) h))"
      using table_insert_items [OF assms(1) a(1) k a(2)] by blast
    obtain v2 where "value_of_row big t r2 = Inr v2" "items (rw_db w2) = (items (rw_db w1))(h :=
        put_item (replicate (zeros_before cs) 0 @ last_bytes cs r2, v2) (items (rw_db w1) h))"
      using table_insert_items [OF assms(1) 1(1) key [OF assms(10)] a(3)] by blast
    then show ?thesis
      by (intro exI [of _ "replicate (zeros_before cs) 0 @ last_bytes cs r2"] exI [of _ v2]) (simp add: 1(2) put_item_again)
  qed
  then show ?thesis using t(1) by blast
qed

text \<open>Two ticks of different securities, days and times.\<close>

definition demo_tick_row :: "int \<Rightarrow> bytes \<Rightarrow> table_row" where
  "demo_tick_row d s =
     row_append (row_append (row_append row_new (text_bytes ''dt'') (VLong (word_of_int d))) (text_bytes ''ts'') (VLong (word_of_int (d + 7))))
       (text_bytes ''symbol'') (VString s)"

lemma value_of_row_fields:
  assumes "td_fields (tb_tbl t) = td_fields (tb_tbl u)"
  shows "value_of_row big t r = value_of_row big u r"
proof -
  have "append_columns big t nm vl k i buf = append_columns big u nm vl k i buf" for nm vl k i buf
    by (induction k arbitrary: i buf) (simp_all add: assms rbind_def split: option.split sum.split prod.split)
  then show ?thesis by (simp add: value_of_row_def)
qed

lemma demo_tick_values:
  assumes "td_fields (tb_tbl t) = td_fields (trading_table tick_columns [])" "(d, s) \<in> {(20220104, [0x61]), (20220105, [0x62])}"
  shows "\<exists>v. value_of_row True t (demo_tick_row d s) = Inr v"
proof -
  let ?t = "\<lparr>tb_db = dd_new, tb_tbl = trading_table tick_columns []\<rparr>"
  have "(case value_of_row True ?t (demo_tick_row 20220104 [0x61]) of Inl _ \<Rightarrow> False | Inr v \<Rightarrow> True) \<and>
    (case value_of_row True ?t (demo_tick_row 20220105 [0x62]) of Inl _ \<Rightarrow> False | Inr v \<Rightarrow> True)"
    by code_simp
  then show ?thesis
    using assms value_of_row_fields [of t ?t] by (auto split: sum.splits)
qed

lemma demo_tick_keys:
  assumes "length s < 16"
  shows "keyed_row tick_columns (demo_tick_row d s)"
proof -
  have "text_bytes ''dt'' \<noteq> text_bytes ''ts'' \<and> text_bytes ''dt'' \<noteq> text_bytes ''symbol'' \<and> text_bytes ''ts'' \<noteq> text_bytes ''symbol''"
    by code_simp
  then show ?thesis using assms
  by (simp add: keyed_row_def key_columns_def tick_columns_def value_columns_def key_column_def symbol_column_def
      demo_tick_row_def row_value_def row_append_def row_new_def col_entry_def column_fd_def fd_new_def field_types vec_at_def)
qed

lemma demo_insert:
  assumes "data_store w 2" "length (rw_db w) = 5" "tb_tbl t = (trading_table tick_columns n)\<lparr>td_id := i\<rparr>"
    "uint (dd_id (tb_db t)) < 2 ^ 24" "(d, s) \<in> {(20220104, [0x61]), (20220105, [0x62])}"
  obtains w1 where "table_insert mem_engine (\<lambda>_. 0) True w t (demo_tick_row d s) = Inr (0, w1)" "data_store w1 2"
    "length (rw_db w1) = 5"
proof -
  have c: "tick_columns \<in> set trading_columns" by (simp add: trading_columns_def)
  have "length s < 16" using assms(5) by auto
  note k = trading_row_key [OF c assms(3,4) demo_tick_keys [OF this], of "\<lambda>_. 0" True d]
  have "td_fields (tb_tbl t) = td_fields (trading_table tick_columns [])"
    using trading_table_fields by (simp add: assms(3))
  then obtain v where v: "value_of_row True t (demo_tick_row d s) = Inr v" using demo_tick_values assms(5) by blast
  obtain s1 where s1: "e_put mem_engine (rw_db w) (Some 2) (replicate (zeros_before tick_columns) 0 @
      last_bytes tick_columns (demo_tick_row d s)) v = (0, s1)" "length s1 = 5"
    using assms(2) by (simp add: mem_engine_simps mem_set_def)
  have "table_insert mem_engine (\<lambda>_. 0) True w t (demo_tick_row d s) = Inr (0, w\<lparr>rw_db := s1\<rparr>)"
    using assms(1) k v s1(1)
    by (simp add: table_insert_def data_store_def rocks_put_def using_db_open set_db_def write_code_def)
  then show ?thesis using that s1(2) assms(1) by simp
qed

text \<open>Of two ticks of different securities on different days one is left.\<close>

theorem trading_rows_lost_witness:
  "\<exists>m1 m2 t w1 w2 k v. dm_create mem_engine True [0x64] demo_manager = Inr (0, m1) \<and>
     create_tick_table mem_engine True [0x64] [0x74] m1 = Inr (0, m2) \<and> dm_get_table_writer m2 [0x64] [0x74] = Some t \<and>
     table_insert mem_engine (\<lambda>_. 0) True (dm_wrapper m2) t (demo_tick_row 20220104 [0x61]) = Inr (0, w1) \<and>
     table_insert mem_engine (\<lambda>_. 0) True w1 t (demo_tick_row 20220105 [0x62]) = Inr (0, w2) \<and>
     mem_items (rw_db w2) 2 = put_item (k, v) (mem_items (rw_db (dm_wrapper m2)) 2)"
proof -
  let ?d = "dd_new\<lparr>dd_name := [0x64], dd_id := 1\<rparr>"
  obtain m1 where m1: "dm_create mem_engine True [0x64] demo_manager = Inr (0, m1)" "dm_dbs m1 = [([0x64], ?d)]"
      "length (rw_db (dm_wrapper m1)) = 5" "data_store (dm_wrapper m1) 2" "meta_store m1 3"
    using dm_create_eq [OF demo_manager(1), of "[0x64]" 1 True mem_engine] demo_manager(1,2,4,5,7)
    by (auto simp: mem_engine_simps mem_set_def Let_def meta_store_def)
  have db: "dm_get_db m1 [0x64] = Some ?d" "\<not> dd_exists ?d [0x74]" "ordered_items (dd_name2table ?d)"
      "ordered_items (dm_dbs m1)" "uint (dd_id ?d) < 2 ^ 24"
    using m1(2) by (simp_all add: dm_get_db_def dd_exists_def dd_new_def)
  have c: "tick_columns \<in> set trading_columns" by (simp add: trading_columns_def)
  note K = trading_table_keys(1,2,5) [OF c, of "[0x74]"] trading_table_keys(3,4) [OF c]
  let ?t = "(trading_table tick_columns [0x74])\<lparr>td_id := dd_last_tid ?d + 1\<rparr>"
  have nm: "td_name ?t = [0x74]" "td_comment ?t = []"
    by simp_all
  obtain v where v: "td_get_val True ?t = Inr v"
    using table_object [of ?t _ True] K nm by force
  obtain m2 where m2: "create_trading_table tick_columns mem_engine True [0x64] [0x74] m1 = Inr (0, m2)"
    "length (rw_db (dm_wrapper m2)) = 5" "data_store (dm_wrapper m2) 2"
    using store_table_eq [OF m1(5) v, of mem_engine "[0x64]" "?d\<lparr>dd_last_tid := dd_last_tid ?d + 1\<rparr>"] db(1, 2) nm m1(3, 4)
    by (auto simp: create_trading_table_def dm_create_table_def dd_next_id_def mem_engine_simps mem_set_def Let_def)
  obtain t where t: "dm_get_table_writer m2 [0x64] [0x74] = Some t" "dd_id (tb_db t) = 1" "tb_tbl t = ?t"
    using create_trading_writer [OF db(4, 1, 2, 3) m2(1)] by auto
  have id: "uint (dd_id (tb_db t)) < 2 ^ 24" by (simp add: t(2))
  obtain w1 where w1: "table_insert mem_engine (\<lambda>_. 0) True (dm_wrapper m2) t (demo_tick_row 20220104 [0x61]) = Inr (0, w1)"
    "data_store w1 2" "length (rw_db w1) = 5"
    using demo_insert [OF m2(3, 2) t(3) id, of 20220104 "[0x61]"] by auto
  obtain w2 where w2: "table_insert mem_engine (\<lambda>_. 0) True w1 t (demo_tick_row 20220105 [0x62]) = Inr (0, w2)"
    using demo_insert [OF w1(2, 3) t(3) id, of 20220105 "[0x62]"] by auto
  have k: "keyed_row tick_columns (demo_tick_row 20220104 [0x61])" "keyed_row tick_columns (demo_tick_row 20220105 [0x62])"
    by (simp_all add: demo_tick_keys)
  obtain u where "dm_get_table_writer m2 [0x64] [0x74] = Some u"
    "\<forall>w w1 w2 h. data_store w h \<longrightarrow> table_insert mem_engine (\<lambda>_. 0) True w u (demo_tick_row 20220104 [0x61]) = Inr (0, w1) \<longrightarrow>
      table_insert mem_engine (\<lambda>_. 0) True w1 u (demo_tick_row 20220105 [0x62]) = Inr (0, w2) \<longrightarrow>
      (\<exists>k v. value_of_row True u (demo_tick_row 20220105 [0x62]) = Inr v \<and>
        mem_items (rw_db w2) = (mem_items (rw_db w))(h := put_item (k, v) (mem_items (rw_db w) h)))"
    using trading_rows_lost [OF mem_laws(1) db(4, 1, 5, 2, 3) c m2(1) k, of "\<lambda>_. 0"] by auto
  then obtain k v where "mem_items (rw_db w2) = (mem_items (rw_db (dm_wrapper m2)))(2 := put_item (k, v) (mem_items (rw_db (dm_wrapper m2)) 2))"
    using t(1) m2(3) w1(1) w2 by auto blast
  then show ?thesis
    using m1(1) m2(1) t(1) w1(1) w2 by (auto simp: create_tick_table_def intro!: exI)
qed

end
