(* ===== verification/Json_Value.thy ===== *)
theory Json_Value
  imports Cerebro_Backtest
begin

text \<open>
  The JSON values the service exchanges with its clients (\<open>nlohmann::json\<close>): how the code builds, reads and extends
  them, and the \<open>to_json\<close> functions of the trading records in \<open>cerebro/cerebro_struct.h\<close>,
  \<open>cerebro/cerebro_broker.h\<close> and \<open>cerebro/cerebro_trader.h\<close>. Reading a request from text and writing a response
  are the library's; here a request is a value already.
\<close>

section \<open>Values\<close>

text \<open>The members of an object are kept in the order of their names, once each. Numbers without a fraction have
  64 bits, signed or unsigned.\<close>

datatype json =
    JNull | JBool bool | JInt int | JDouble double | JString bytes | JArray "json list"
  | JObject "(bytes \<times> json) list"

definition json_i64 :: "i64 \<Rightarrow> json" where "json_i64 i = JInt (sint i)"
definition json_i32 :: "i32 \<Rightarrow> json" where "json_i32 i = JInt (sint i)"

text \<open>\<open>js[name] = v\<close>: null becomes an object; other values are a \<open>type_error\<close>.\<close>

fun json_set :: "bytes \<Rightarrow> json \<Rightarrow> json \<Rightarrow> json res" where
  "json_set k v JNull = Inr (JObject [(k, v)])"
| "json_set k v (JObject ms) = Inr (JObject (put_item (k, v) ms))"
| "json_set k v js = Inl JsonTypeError"

text \<open>An object built from null by such assignments, one after the other.\<close>

definition json_object :: "(string \<times> json) list \<Rightarrow> json" where
  "json_object kvs = JObject (foldl (\<lambda>ms (k, v). put_item (text_bytes k, v) ms) [] kvs)"

text \<open>\<open>js.at(name)\<close>.\<close>

fun json_at :: "bytes \<Rightarrow> json \<Rightarrow> json res" where
  "json_at k (JObject ms) = (case map_of ms k of Some v \<Rightarrow> Inr v | None \<Rightarrow> Inl OutOfRange)"
| "json_at k js = Inl JsonTypeError"

text \<open>\<open>js.clear()\<close>: the empty value of the same type.\<close>

fun json_clear :: "json \<Rightarrow> json" where
  "json_clear JNull = JNull"
| "json_clear (JBool x) = JBool False"
| "json_clear (JInt i) = JInt 0"
| "json_clear (JDouble x) = JDouble d0"
| "json_clear (JString s) = JString []"
| "json_clear (JArray xs) = JArray []"
| "json_clear (JObject ms) = JObject []"

text \<open>
  \<open>get\<close> of a number. An integer is cast modulo the width of the result. Casting a double that does not fit is
  undefined. A boolean is a number for \<open>int\<close>, whose conversion is a template, not for \<open>int64_t\<close>.
\<close>

definition json_trunc :: "nat \<Rightarrow> double \<Rightarrow> int res" where
  "json_trunc w x =
     (case d_trunc x of None \<Rightarrow> Inl SignedOverflow
      | Some n \<Rightarrow> if - (2 ^ (w - 1)) \<le> n \<and> n < 2 ^ (w - 1) then Inr n else Inl SignedOverflow)"

fun json_get_i64 :: "json \<Rightarrow> i64 res" where
  "json_get_i64 (JInt i) = Inr (word_of_int i)"
| "json_get_i64 (JDouble x) = rbind (json_trunc 64 x) (\<lambda>n. Inr (word_of_int n))"
| "json_get_i64 js = Inl JsonTypeError"

fun json_get_i32 :: "json \<Rightarrow> i32 res" where
  "json_get_i32 (JInt i) = Inr (word_of_int i)"
| "json_get_i32 (JDouble x) = rbind (json_trunc 32 x) (\<lambda>n. Inr (word_of_int n))"
| "json_get_i32 (JBool x) = Inr (if x then 1 else 0)"
| "json_get_i32 js = Inl JsonTypeError"

fun json_get_double :: "json \<Rightarrow> double res" where
  "json_get_double (JInt i) = Inr (d_of_int i)"
| "json_get_double (JDouble x) = Inr x"
| "json_get_double js = Inl JsonTypeError"

fun json_get_string :: "json \<Rightarrow> bytes res" where
  "json_get_string (JString s) = Inr s"
| "json_get_string js = Inl JsonTypeError"

section \<open>The trading records\<close>

text \<open>An enumeration is written as its number.\<close>

definition direction_number :: "POSITION_DIRECTION \<Rightarrow> int" where
  "direction_number d = (case d of PD_NONE \<Rightarrow> 0 | PD_LONG \<Rightarrow> 1 | PD_SHORT \<Rightarrow> 2)"

definition action_number :: "ORDER_ACTION \<Rightarrow> int" where
  "action_number a =
     (case a of OA_NONE \<Rightarrow> 0 | OA_BUY \<Rightarrow> 1 | OA_SELL \<Rightarrow> 2 | OA_BUY_TO_COVER \<Rightarrow> 3 | OA_SELL_SHORT \<Rightarrow> 4
      | OA_CANCEL \<Rightarrow> 11 | OA_AMEND \<Rightarrow> 12 | OA_DIVIDEND \<Rightarrow> 101 | OA_DEPOSIT \<Rightarrow> 103 | OA_WITHDRAW \<Rightarrow> 104)"

definition type_number :: "ORDER_TYPE \<Rightarrow> int" where
  "type_number t = (case t of OT_NONE \<Rightarrow> 0 | OT_MARKET \<Rightarrow> 1 | OT_LIMIT \<Rightarrow> 2)"

definition status_number :: "ORDER_STATUS \<Rightarrow> int" where
  "status_number s =
     (case s of OS_NONE \<Rightarrow> 0 | OS_PENDING_NEW \<Rightarrow> 1 | OS_ACTIVE \<Rightarrow> 2 | OS_FILLED \<Rightarrow> 3 | OS_CANCELLED \<Rightarrow> 4
      | OS_REJECTED \<Rightarrow> 5)"

definition account_to_json :: "CerebroAccount \<Rightarrow> json" where
  "account_to_json a = json_object
     [(''margin'', JDouble (ca_margin a)), (''buy_margin'', JDouble (ca_buy_margin a)),
      (''sell_margin'', JDouble (ca_sell_margin a)), (''cash'', JDouble (ca_cash a)),
      (''total_cash'', JDouble (ca_total_cash a)), (''daily_pnl'', JDouble (ca_daily_pnl a)),
      (''equity'', JDouble (ca_equity a)), (''frozen_cash'', JDouble (ca_frozen_cash a)),
      (''market_value'', JDouble (ca_market_value a)), (''position_pnl'', JDouble (ca_position_pnl a)),
      (''total_value'', JDouble (ca_total_value a)), (''trading_pnl'', JDouble (ca_trading_pnl a)),
      (''transaction_cost'', JDouble (ca_transaction_cost a)), (''units'', JDouble (ca_units a)),
      (''unit_value'', JDouble (ca_unit_value a))]"

definition order_to_json :: "CerebroOrder \<Rightarrow> json" where
  "order_to_json x = json_object
     [(''filled_price'', JDouble (co_filled_price x)), (''ctime'', json_i64 (co_ctime x)),
      (''mtime'', json_i64 (co_mtime x)), (''filled_quantity'', JDouble (co_filled_quantity x)),
      (''unfilled_quantity'', JDouble (co_unfilled_quantity x)), (''frozen_price'', JDouble (co_frozen_price x)),
      (''symbol'', JString (co_symbol x)), (''order_id'', json_i64 (co_order_id x)),
      (''price'', JDouble (co_price x)), (''quantity'', JDouble (co_quantity x)),
      (''action'', JInt (action_number (co_action x))), (''status'', JInt (status_number (co_status x))),
      (''type'', JInt (type_number (co_type x))), (''trading_date'', json_i32 (co_trading_date x)),
      (''transaction_cost'', JDouble (co_transaction_cost x)),
      (''last_position_price'', JDouble (co_last_position_price x)), (''reason'', JString (co_reason x)),
      (''msg'', JString (co_msg x))]"

definition orders_to_json :: "CerebroOrder list \<Rightarrow> json" where "orders_to_json xs = JArray (map order_to_json xs)"

definition position_to_json :: "CerebroPosition \<Rightarrow> json" where
  "position_to_json p = json_object
     [(''closable'', JDouble (cp_closable p)), (''direction'', JInt (direction_number (cp_direction p))),
      (''margin'', JDouble (cp_margin p)), (''market_value'', JDouble (cp_market_value p)),
      (''symbol'', JString (cp_symbol p)), (''pnl'', JDouble (cp_pnl p)),
      (''position_pnl'', JDouble (cp_position_pnl p)), (''quantity'', JDouble (cp_quantity p)),
      (''today_closable'', JDouble (cp_today_closable p)), (''trading_pnl'', JDouble (cp_trading_pnl p)),
      (''avg_price'', JDouble (cp_avg_price p)), (''commissions'', JDouble (cp_commissions p)),
      (''open_dt'', json_i32 (cp_open_dt p)), (''close_dt'', json_i32 (cp_close_dt p))]"

definition positions_to_json :: "CerebroPosition list \<Rightarrow> json" where
  "positions_to_json ps = JArray (map position_to_json ps)"

definition tick_to_json :: "CerebroTickRecord \<Rightarrow> json" where
  "tick_to_json t = json_object
     [(''ts'', json_i64 (ct_ts t)), (''dt'', json_i32 (ct_dt t)), (''symbol'', JString (ct_symbol t)),
      (''last'', JDouble (ct_last t)), (''high'', JDouble (ct_high t)), (''low'', JDouble (ct_low t)),
      (''open'', JDouble (ct_open t)), (''preclose'', JDouble (ct_preclose t)),
      (''turnover'', JDouble (ct_turnover t)), (''volume'', JDouble (ct_volume t)),
      (''bids'', JArray (map JDouble (ct_bids t))), (''bid_vols'', JArray (map JDouble (ct_bid_vols t))),
      (''asks'', JArray (map JDouble (ct_asks t))), (''ask_vols'', JArray (map JDouble (ct_ask_vols t))),
      (''limit_up'', JDouble (ct_limit_up t)), (''limit_down'', JDouble (ct_limit_down t))]"

definition kline_to_json :: "CerebroKlineRecord \<Rightarrow> json" where
  "kline_to_json k = json_object
     [(''ts'', json_i64 (ck_ts k)), (''dt'', json_i32 (ck_dt k)), (''symbol'', JString (ck_symbol k)),
      (''high'', JDouble (ck_high k)), (''low'', JDouble (ck_low k)), (''open'', JDouble (ck_open k)),
      (''close'', JDouble (ck_close k)), (''preclose'', JDouble (ck_preclose k)),
      (''turnover'', JDouble (ck_turnover k)), (''volume'', JDouble (ck_volume k)),
      (''open_interest'', JDouble (ck_open_interest k)), (''preopen_interest'', JDouble (ck_preopen_interest k)),
      (''prev_settlement'', JDouble (ck_prev_settlement k)), (''settlement'', JDouble (ck_settlement k))]"

definition account_wrap_to_json :: "CerebroAccountWrap \<Rightarrow> json" where
  "account_wrap_to_json w = json_object
     [(''id'', json_i64 (aw_aid w)), (''name'', JString (aw_name w)),
      (''commission_rate'', JDouble (aw_commission_rate w)),
      (''slippage'', JDouble (d_of_int (sint (aw_slippage w)))), (''info'', account_to_json (aw_account w))]"

text \<open>A trader holds its account from \<open>init\<close> on; it is the account of its broker.\<close>

definition trader_to_json :: "CerebroTrader \<Rightarrow> json" where
  "trader_to_json t = json_object
     ([(''id'', json_i64 (tr_id t)), (''name'', JString (tr_name t)), (''state'', JInt (tr_state t))] @
      (case cb_account (tr_broker t) of Some w \<Rightarrow> [(''account'', account_wrap_to_json w)] | None \<Rightarrow> []))"

end
