(* ===== verification/Quote_Text.thy ===== *)
theory Quote_Text
  imports Cerebro_Broker Tuple_Value "HOL-Library.Multiset"
begin

text \<open>
  Quotes as text: the lines that the two quote services answer with, and how \<open>cerebro/sina_api.cpp\<close> and
  \<open>cerebro/tencent_api.cpp\<close> take them apart. Both files have the same helpers; they are modelled once. The
  conversion of a decimal fraction, \<open>atof\<close>, is a parameter; \<open>atoi\<close> and \<open>atoll\<close> are the \<open>strtol\<close> of the cells.
\<close>

section \<open>Splitting and trimming\<close>

text \<open>
  \<open>tokenize\<close>: the pieces between characters of \<open>delim\<close>. A delimiter at the end opens an empty last piece; at the end
  of a text the code looks at the zero byte behind it.
\<close>

function tokenize :: "bytes \<Rightarrow> bytes \<Rightarrow> bytes list" where
  "tokenize delim s =
     (case dropWhile (\<lambda>c. c \<notin> set delim) s of
        [] \<Rightarrow> takeWhile (\<lambda>c. c \<notin> set delim) s # (if 0 \<in> set delim then [[]] else [])
      | c # t \<Rightarrow> takeWhile (\<lambda>c. c \<notin> set delim) s # (if t = [] then [[]] else tokenize delim t))"
  by pat_completeness auto
termination
proof (relation "measure (\<lambda>(d, s). length s)")
  fix delim s and c :: u8 and t
  assume "dropWhile (\<lambda>c. c \<notin> set delim) s = c # t"
  then have "length (c # t) \<le> length s" using length_dropWhile_le by metis
  then show "((delim, t), delim, s) \<in> measure (\<lambda>(d, s). length s)" by simp
qed simp

declare tokenize.simps [simp del]

text \<open>A \<open>char\<close> is signed: bytes from 128 on are below the space, and are trimmed.\<close>

definition blank :: "u8 \<Rightarrow> bool" where "blank c \<longleftrightarrow> sint c \<le> 32"

definition text_trim :: "bytes \<Rightarrow> bytes" where
  "text_trim s = rev (dropWhile blank (rev (dropWhile blank s)))"

definition text_split :: "bytes \<Rightarrow> bytes \<Rightarrow> bool \<Rightarrow> bytes list" where
  "text_split s delim do_trim = (if do_trim then map text_trim (tokenize delim s) else tokenize delim s)"

text \<open>\<open>find\<close>, and \<open>remove_substr\<close>, which does not end when it is asked to remove the empty text.\<close>

fun find_at :: "bytes \<Rightarrow> bytes \<Rightarrow> nat option" where
  "find_at sub [] = (if sub = [] then Some 0 else None)"
| "find_at sub (c # s) =
     (if take (length sub) (c # s) = sub then Some 0 else map_option Suc (find_at sub s))"

partial_function (option) remove_substr :: "bytes \<Rightarrow> bytes \<Rightarrow> bytes option" where
  "remove_substr s sub =
     (case find_at sub s of
        None \<Rightarrow> Some s
      | Some i \<Rightarrow> remove_substr (take i s @ drop (i + length sub) s) sub)"

section \<open>Codes of securities\<close>

definition text_starts_with :: "bytes \<Rightarrow> bytes \<Rightarrow> bool" where
  "text_starts_with v p \<longleftrightarrow> length p \<le> length v \<and> take (length p) v = p"

definition text_ends_with :: "bytes \<Rightarrow> bytes \<Rightarrow> bool" where
  "text_ends_with v p \<longleftrightarrow> length p \<le> length v \<and> take (length p) (rev v) = rev p"

definition convert_to_inner_code :: "bytes \<Rightarrow> bytes" where
  "convert_to_inner_code code =
     (if text_ends_with code (text_bytes ''.SH'') then text_bytes ''sh'' @ take 6 code
      else if text_ends_with code (text_bytes ''.SZ'') then text_bytes ''sz'' @ take 6 code
      else code)"

definition convert_to_extend_code :: "bytes \<Rightarrow> bytes" where
  "convert_to_extend_code code =
     (if text_starts_with code (text_bytes ''sh'') then take 6 (drop 2 code) @ text_bytes ''.SH''
      else if text_starts_with code (text_bytes ''sz'') then take 6 (drop 2 code) @ text_bytes ''.SZ''
      else code)"

section \<open>Numbers\<close>

definition c_atoi :: "bytes \<Rightarrow> i32" where "c_atoi s = word_of_int (c_strtol (c_string s))"
definition c_atoll :: "bytes \<Rightarrow> i64" where "c_atoll s = word_of_int (c_strtol (c_string s))"

text \<open>
  \<open>sscanf\<close> with a conversion \<open>%wd\<close>: spaces are skipped, then at most w characters of a sign and digits are taken, of
  which one must be a digit. The result is the number and the rest of the text.
\<close>

definition scan_d :: "nat \<Rightarrow> bytes \<Rightarrow> (int \<times> bytes) option" where
  "scan_d w s =
     (let t = dropWhile is_space s;
          sign = (if t \<noteq> [] \<and> (hd t = 0x2d \<or> hd t = 0x2b) then 1 else 0);
          ds = takeWhile is_digit (take (w - sign) (drop sign t));
          n = digits_value ds
      in if ds = [] then None
         else Some (if t \<noteq> [] \<and> hd t = 0x2d then - n else n, drop (sign + length ds) t))"

text \<open>\<open>"%4d-%2d-%2d"\<close> and \<open>"%2d:%2d:%2d"\<close>: three numbers with a character between them; what is not read stays 0.\<close>

definition scan_three :: "nat \<Rightarrow> u8 \<Rightarrow> bytes \<Rightarrow> int \<times> int \<times> int" where
  "scan_three w c s =
     (case scan_d w s of None \<Rightarrow> (0, 0, 0)
      | Some (y, r) \<Rightarrow>
          if r = [] \<or> hd r \<noteq> c then (y, 0, 0)
          else case scan_d 2 (tl r) of None \<Rightarrow> (y, 0, 0)
          | Some (m, r) \<Rightarrow>
              if r = [] \<or> hd r \<noteq> c then (y, m, 0)
              else case scan_d 2 (tl r) of None \<Rightarrow> (y, m, 0) | Some (d, r) \<Rightarrow> (y, m, d))"

definition parse_date :: "bytes \<Rightarrow> i32" where
  "parse_date s = (case scan_three 4 0x2d (c_string s) of (y, m, d) \<Rightarrow> word_of_int (y * 10000 + m * 100 + d))"

definition parse_time :: "bytes \<Rightarrow> i32" where
  "parse_time s = (case scan_three 2 0x3a (c_string s) of (h, m, n) \<Rightarrow> word_of_int (h * 10000 + m * 100 + n))"

section \<open>A line of the first service\<close>

definition d_atoll :: "bytes \<Rightarrow> double" where "d_atoll s = d_of_int (sint (c_atoll s))"

text \<open>Five levels, at every other field.\<close>

definition levels :: "(bytes \<Rightarrow> 'a) \<Rightarrow> bytes list \<Rightarrow> nat \<Rightarrow> 'a list" where
  "levels f vs i = map (\<lambda>k. f (vs ! (i + 2 * k))) [0 ..< 5]"

text \<open>Day and time of day as one number.\<close>

definition stamp :: "i32 \<Rightarrow> i32 \<Rightarrow> i64" where
  "stamp dt hms = word_of_int (sint dt * 1000000 + sint hms)"

text \<open>The fields are read by index, without a look at their number.\<close>

definition sina_fields :: "(bytes \<Rightarrow> double) \<Rightarrow> bytes \<Rightarrow> bytes list \<Rightarrow> CerebroTickRecord res" where
  "sina_fields atof code vs =
     (if length vs < 32 then Inl MemFault
      else
        let dt = parse_date (vs ! 30)
        in Inr (tick_zero\<lparr>ct_symbol := code, ct_open := atof (vs ! 1), ct_preclose := atof (vs ! 2),
             ct_last := atof (vs ! 3), ct_high := atof (vs ! 4), ct_low := atof (vs ! 5),
             ct_volume := d_atoll (vs ! 8), ct_turnover := d_atoll (vs ! 9),
             ct_bid_vols := levels d_atoll vs 10, ct_bids := levels atof vs 11,
             ct_ask_vols := levels d_atoll vs 20, ct_asks := levels atof vs 21,
             ct_dt := dt, ct_ts := stamp dt (parse_time (vs ! 31))\<rparr>))"

text \<open>
  A line: the code behind the last underscore of what is left of the equals sign, the fields between the first two
  quotation marks of what is right of it. \<^const>\<open>None\<close> is the null pointer.
\<close>

definition parse_line ::
    "u8 \<Rightarrow> (bytes \<Rightarrow> bytes list \<Rightarrow> CerebroTickRecord res) \<Rightarrow> bytes \<Rightarrow> CerebroTickRecord option res" where
  "parse_line sep fill raw =
     (case Option.bind (remove_substr raw [0x0d]) (\<lambda>l. remove_substr l [0x0a]) of
        None \<Rightarrow> Inl OutOfFuel
      | Some line \<Rightarrow>
          let kv = text_split line [0x3d] True
          in if length kv \<noteq> 2 then Inr None
             else
               let code = convert_to_extend_code (last (text_split (kv ! 0) [0x5f] True))
               in if kv ! 1 = [0x22, 0x22] then Inr None
                  else
                    let tmp = text_split (kv ! 1) [0x22] False
                    in if length tmp < 2 then Inl MemFault
                       else rbind (fill code (text_split (tmp ! 1) [sep] True)) (\<lambda>q. Inr (Some q)))"

definition sina_parse_quote :: "(bytes \<Rightarrow> double) \<Rightarrow> bytes \<Rightarrow> CerebroTickRecord option res" where
  "sina_parse_quote atof = parse_line 0x2c (sina_fields atof)"

section \<open>A line of the second service\<close>

text \<open>Lots are of a hundred shares; the product of an \<open>int\<close> or \<open>long long\<close> must not overflow.\<close>

definition lots32 :: "bytes \<Rightarrow> double res" where
  "lots32 s =
     (let n = sint (c_atoi s) * 100
      in if - (2 ^ 31) \<le> n \<and> n < 2 ^ 31 then Inr (d_of_int n) else Inl SignedOverflow)"

definition times64 :: "int \<Rightarrow> bytes \<Rightarrow> double res" where
  "times64 k s = rbind (to_i64 (sint (c_atoll s) * k)) (\<lambda>n. Inr (d_of_int (sint n)))"

fun all_res :: "'a res list \<Rightarrow> 'a list res" where
  "all_res [] = Inr []"
| "all_res (x # xs) = rbind x (\<lambda>y. rbind (all_res xs) (\<lambda>ys. Inr (y # ys)))"

definition substr :: "nat \<Rightarrow> nat \<Rightarrow> bytes \<Rightarrow> bytes res" where
  "substr i n s = (if length s < i then Inl OutOfRange else Inr (take n (drop i s)))"

definition tencent_fields :: "(bytes \<Rightarrow> double) \<Rightarrow> bytes \<Rightarrow> bytes list \<Rightarrow> CerebroTickRecord res" where
  "tencent_fields atof code vs =
     (if length vs < 31 then Inl MemFault
      else
        rbind (times64 100 (vs ! 6)) (\<lambda>volume.
        rbind (all_res (levels lots32 vs 10)) (\<lambda>bid_vols.
        rbind (all_res (levels lots32 vs 20)) (\<lambda>ask_vols.
        rbind (substr 0 8 (vs ! 30)) (\<lambda>day.
        rbind (substr 8 6 (vs ! 30)) (\<lambda>tod.
          if length vs < 38 then Inl MemFault
          else rbind (times64 10000 (vs ! 37)) (\<lambda>turnover.
            Inr (tick_zero\<lparr>ct_symbol := code, ct_last := atof (vs ! 3), ct_preclose := atof (vs ! 4),
                 ct_open := atof (vs ! 5), ct_volume := volume,
                 ct_bids := levels atof vs 9, ct_bid_vols := bid_vols,
                 ct_asks := levels atof vs 19, ct_ask_vols := ask_vols,
                 ct_dt := c_atoi day, ct_ts := stamp (c_atoi day) (c_atoi tod),
                 ct_high := atof (vs ! 33), ct_low := atof (vs ! 34), ct_turnover := turnover\<rparr>))))))))"

definition tencent_parse_quote :: "(bytes \<Rightarrow> double) \<Rightarrow> bytes \<Rightarrow> CerebroTickRecord option res" where
  "tencent_parse_quote atof = parse_line 0x7e (tencent_fields atof)"


section \<open>Pieces\<close>

text \<open>The text of pieces with a character between them.\<close>

fun glue :: "u8 \<Rightarrow> bytes list \<Rightarrow> bytes" where
  "glue c [] = []"
| "glue c [t] = t"
| "glue c (t # ts) = t @ c # glue c ts"

lemma glue_Cons: "ts \<noteq> [] \<Longrightarrow> glue c (t # ts) = t @ c # glue c ts" by (cases ts) auto

lemma takeWhile_piece: "c \<notin> set t \<Longrightarrow> takeWhile (\<lambda>x. x \<noteq> c) (t @ c # s) = t \<and> dropWhile (\<lambda>x. x \<noteq> c) (t @ c # s) = c # s"
  by (induction t) auto

lemma takeWhile_whole: "c \<notin> set t \<Longrightarrow> takeWhile (\<lambda>x. x \<noteq> c) t = t \<and> dropWhile (\<lambda>x. x \<noteq> c) t = []"
  by (induction t) auto

lemma tokenize_piece:
  assumes "c \<noteq> 0" "c \<notin> set t"
  shows "tokenize [c] t = [t]" "tokenize [c] (t @ c # s) = t # tokenize [c] s"
proof -
  have nil: "tokenize [c] [] = [[]]" using assms(1) by (simp add: tokenize.simps)
  show "tokenize [c] t = [t]" using assms(1) by (simp add: tokenize.simps [of "[c]" t] takeWhile_whole [OF assms(2)])
  show "tokenize [c] (t @ c # s) = t # tokenize [c] s"
    using nil by (simp add: tokenize.simps [of "[c]" "t @ c # s"] takeWhile_piece [OF assms(2)])
qed

lemma tokenize_glue:
  assumes "c \<noteq> 0" "ts \<noteq> []" "\<forall>t \<in> set ts. c \<notin> set t"
  shows "tokenize [c] (glue c ts) = ts"
  using assms(2, 3)
proof (induction ts)
  case (Cons t ts)
  then show ?case
    using tokenize_piece [OF assms(1)] by (cases "ts = []") (simp_all add: glue_Cons)
qed simp

lemma tokenize_pieces:
  assumes "c \<noteq> 0"
  shows "tokenize [c] s \<noteq> [] \<and> (\<forall>t \<in> set (tokenize [c] s). c \<notin> set t) \<and> glue c (tokenize [c] s) = s"
proof (induction "length s" arbitrary: s rule: less_induct)
  case less
  show ?case
  proof (cases "c \<in> set s")
    case True
    then obtain t r where s: "s = t @ c # r" "c \<notin> set t" by (auto dest: split_list_first)
    then show ?thesis
      using less [of r] tokenize_piece(2) [OF assms s(2), of r] by (auto simp: glue_Cons)
  next
    case False
    then show ?thesis using tokenize_piece(1) [OF assms False] by simp
  qed
qed

text \<open>
  C31. \<open>tokenize\<close> with one delimiter is splitting: its result is the only list of pieces without the delimiter that
  gives the text back when they are glued with it. So no character of a line is lost or moved to another field,
  at its ends neither.
\<close>

theorem tokenize_splits:
  assumes "c \<noteq> 0"
  shows "tokenize [c] s = ts \<longleftrightarrow> ts \<noteq> [] \<and> (\<forall>t \<in> set ts. c \<notin> set t) \<and> glue c ts = s"
  using tokenize_pieces [OF assms, of s] tokenize_glue [OF assms, of ts] by metis

theorem tokenize_splits_witness:
  "tokenize [0x2c] [1, 0x2c, 0x2c, 2, 0x2c] = [[1], [], [2], []] \<and>
   glue 0x2c [[1], [], [2], []] = [1, 0x2c, 0x2c, 2, 0x2c :: u8]"
  using tokenize_splits [of "0x2c" "[1, 0x2c, 0x2c, 2, 0x2c]" "[[1], [], [2], []]"] by simp

section \<open>Removal of line ends\<close>

lemma find_one: "find_at [c] s = (if c \<in> set s then Some (length (takeWhile (\<lambda>x. x \<noteq> c) s)) else None)"
  by (induction s) auto

lemma remove_one: "remove_substr s [c] = Some (filter (\<lambda>x. x \<noteq> c) s)"
proof (induction "length s" arbitrary: s rule: less_induct)
  case less
  show ?case
  proof (cases "c \<in> set s")
    case False
    then have "filter (\<lambda>x. x \<noteq> c) s = s" by (auto simp: filter_id_conv)
    then show ?thesis using False by (simp add: remove_substr.simps [of s] find_one)
  next
    case True
    then obtain t r where s: "s = t @ c # r" "c \<notin> set t" by (auto dest: split_list_first)
    have "find_at [c] s = Some (length t)" using takeWhile_piece [OF s(2), of r] by (simp add: find_one s(1))
    then have "remove_substr s [c] = remove_substr (t @ r) [c]" by (simp add: remove_substr.simps [of "t @ c # r"] s(1))
    also have "\<dots> = Some (filter (\<lambda>x. x \<noteq> c) (t @ r))" by (rule less) (simp add: s(1))
    finally show ?thesis by (simp add: s(1))
  qed
qed

lemma remove_none: "c \<notin> set s \<Longrightarrow> remove_substr s [c] = Some s"
  by (simp add: remove_one filter_id_conv) metis

section \<open>Well-formed lines\<close>

text \<open>A text that trimming leaves alone, without given characters.\<close>

definition clean :: "u8 set \<Rightarrow> bytes \<Rightarrow> bool" where
  "clean bad t \<longleftrightarrow> set t \<inter> bad = {} \<and> (t = [] \<or> \<not> blank (hd t) \<and> \<not> blank (last t))"

lemma text_trim_clean: "clean bad t \<Longrightarrow> text_trim t = t"
proof -
  assume c: "clean bad t"
  have d: "dropWhile blank t = t" using c by (cases t) (auto simp: clean_def)
  have "dropWhile blank (rev t) = rev t" using c by (cases t rule: rev_cases) (auto simp: clean_def)
  then show ?thesis by (simp add: text_trim_def d)
qed

definition line_ends :: "u8 set" where "line_ends = {0x0a, 0x0d}"

text \<open>A line with a name before the equals sign, a code behind its last underscore, and fields in quotation marks.\<close>

definition quote_line :: "u8 \<Rightarrow> bytes \<Rightarrow> bytes \<Rightarrow> bytes list \<Rightarrow> bytes" where
  "quote_line sep nm code vs = nm @ 0x5f # code @ 0x3d # 0x22 # glue sep vs @ [0x22]"

lemma set_glue: "set (glue c ts) \<subseteq> insert c (\<Union> (set ` set ts))"
  by (induction ts rule: glue.induct [of _ c]) auto

lemma parse_quote_line:
  assumes nm: "clean ({0x3d} \<union> line_ends) nm" "nm \<noteq> []"
    and code: "clean ({0x3d, 0x5f} \<union> line_ends) code" "code \<noteq> []"
    and vs: "vs \<noteq> []" "\<forall>v \<in> set vs. set v \<inter> ({sep, 0x22, 0x3d} \<union> line_ends) = {}" "glue sep vs \<noteq> []"
    and sep: "sep \<notin> {0, 0x22, 0x3d} \<union> line_ends"
  shows "parse_line sep fill (quote_line sep nm code vs) =
    rbind (fill (convert_to_extend_code code) (map text_trim vs)) (\<lambda>q. Inr (Some q))"
proof -
  let ?l = "quote_line sep nm code vs" and ?k = "nm @ 0x5f # code" and ?q = "0x22 # glue sep vs @ [0x22]"
  have g: "set (glue sep vs) \<inter> ({0x22, 0x3d} \<union> line_ends) = {}"
    using vs(2) sep set_glue [of sep vs] by fastforce
  have ends: "0x0d \<notin> set ?l" "0x0a \<notin> set ?l"
    using g nm code by (auto simp: quote_line_def clean_def line_ends_def)
  have "tokenize [0x3d] ?l = [?k, ?q]"
    using tokenize_glue [of "0x3d" "[?k, ?q]"] g nm code
    by (simp add: quote_line_def clean_def)
  moreover have "text_trim ?k = ?k"
    by (rule text_trim_clean [of "{}"]) (use nm code in \<open>simp add: clean_def\<close>)
  moreover have "text_trim ?q = ?q"
    by (rule text_trim_clean [of "{}"]) (simp add: clean_def blank_def)
  ultimately have kv: "text_split ?l [0x3d] True = [?k, ?q]" by (simp add: text_split_def)
  have "tokenize [0x5f] ?k = tokenize [0x5f] nm @ [code]"
  proof -
    have p: "tokenize [0x5f] nm \<noteq> []" "\<forall>t \<in> set (tokenize [0x5f] nm). 0x5f \<notin> set t" "glue 0x5f (tokenize [0x5f] nm) = nm"
      using tokenize_pieces [of "0x5f" nm] by auto
    have "glue c (ts @ [t]) = glue c ts @ c # t" if "ts \<noteq> []" for c :: u8 and ts t
      using that by (induction ts rule: glue.induct [of _ c]) auto
    then have "glue 0x5f (tokenize [0x5f] nm @ [code]) = ?k" using p by simp
    then show ?thesis
      using tokenize_glue [of "0x5f" "tokenize [0x5f] nm @ [code]"] p(2) code(1) by (simp add: clean_def)
  qed
  then have tail: "last (text_split ?k [0x5f] True) = code"
    using text_trim_clean [OF code(1)] by (simp add: text_split_def)
  have "tokenize [0x22] ?q = [[], glue sep vs, []]"
    using tokenize_glue [of "0x22" "[[], glue sep vs, []]"] g by simp
  then have tmp: "text_split ?q [0x22] False = [[], glue sep vs, []]" by (simp add: text_split_def)
  have "tokenize [sep] (glue sep vs) = vs"
    by (rule tokenize_glue) (use sep vs in auto)
  then have fields: "text_split (glue sep vs) [sep] True = map text_trim vs" by (simp add: text_split_def)
  have "?q \<noteq> [0x22, 0x22]" using vs(3) by (cases "glue sep vs") auto
  then show ?thesis
    by (simp add: parse_line_def remove_none ends kv tail tmp fields)
qed

section \<open>Dates and times\<close>

lemma digit_facts: "is_digit d \<Longrightarrow> \<not> is_space d \<and> d \<noteq> 0x2d \<and> d \<noteq> 0x2b \<and> d \<noteq> 0x3a \<and> d \<noteq> 0"
  by (auto simp: is_digit_def is_space_def word_le_nat_alt)

lemma scan_d_digits:
  assumes "ds \<noteq> []" "length ds = w" "\<forall>d \<in> set ds. is_digit d"
  shows "scan_d w (ds @ r) = Some (digits_value ds, r)"
proof -
  obtain d ds' where d: "ds = d # ds'" using assms(1) by (cases ds) auto
  have "\<not> is_space d" "d \<noteq> 0x2d" "d \<noteq> 0x2b" using assms(3) digit_facts d by auto
  moreover have "takeWhile is_digit ds = ds" using assms(3) by (simp add: takeWhile_eq_all_conv)
  ultimately show ?thesis using assms(2) by (auto simp: scan_d_def Let_def d)
qed

lemma scan_three_digits:
  assumes "length y = w" "length m = 2" "length d = 2" "0 < w" "\<forall>x \<in> set (y @ m @ d). is_digit x"
  shows "scan_three w c (y @ c # m @ c # d) = (digits_value y, digits_value m, digits_value d)"
proof -
  have n: "y \<noteq> []" "m \<noteq> []" "d \<noteq> []" using assms by auto
  have "scan_d 2 d = Some (digits_value d, [])" using scan_d_digits [of d 2 "[]"] n assms by simp
  then show ?thesis
    using scan_d_digits [of y w "c # m @ c # d"] scan_d_digits [of m 2 "c # d"] n assms by (simp add: scan_three_def)
qed

lemma c_string_clean: "0 \<notin> set s \<Longrightarrow> c_string s = s"
  by (auto simp: c_string_def takeWhile_eq_all_conv)

lemma digits_value_bound:
  assumes "\<forall>d \<in> set ds. is_digit d"
  shows "0 \<le> digits_value ds \<and> digits_value ds < 10 ^ length ds"
  using assms
proof (induction ds rule: rev_induct)
  case (snoc d ds)
  have "0x30 \<le> uint d" "uint d \<le> 0x39" using snoc.prems by (auto simp: is_digit_def word_le_def)
  then show ?case using snoc by (auto simp: digits_value_def)
qed (simp add: digits_value_def)

lemma sint_of_i32: "- (2 ^ 31) \<le> n \<Longrightarrow> n < 2 ^ 31 \<Longrightarrow> sint (word_of_int n :: i32) = n"
  using signed_take_bit_int_eq_self [of 31 n] by (simp add: signed_of_int)

lemma sint_i64: "- (2 ^ 63) \<le> n \<Longrightarrow> n < 2 ^ 63 \<Longrightarrow> sint (word_of_int n :: i64) = n"
  using signed_take_bit_int_eq_self [of 63 n] by (simp add: signed_of_int)

text \<open>The day and the time of a line, as texts \<open>yyyy-mm-dd\<close> and \<open>hh:mm:ss\<close> of digits.\<close>

definition three_parts :: "nat \<Rightarrow> u8 \<Rightarrow> bytes \<Rightarrow> int \<Rightarrow> bool" where
  "three_parts w c s n \<longleftrightarrow> (\<exists>y m d. s = y @ c # m @ c # d \<and> length y = w \<and> length m = 2 \<and> length d = 2 \<and>
     (\<forall>x \<in> set (y @ m @ d). is_digit x) \<and> n = digits_value y * 10000 + digits_value m * 100 + digits_value d)"

lemma three_parts_value:
  assumes "three_parts w c s n" "0 < w" "w \<le> 4" "c \<noteq> 0"
  shows "case scan_three w c (c_string s) of (y, m, d) \<Rightarrow> y * 10000 + m * 100 + d = n" "0 \<le> n" "n < 2 ^ 27"
proof -
  obtain y m d where s: "s = y @ c # m @ c # d" "length y = w" "length m = 2" "length d = 2"
    "\<forall>x \<in> set (y @ m @ d). is_digit x" "n = digits_value y * 10000 + digits_value m * 100 + digits_value d"
    using assms(1) by (auto simp: three_parts_def)
  have "0 \<notin> set s" using s(5) assms(4) digit_facts by (auto simp: s(1))
  then show "case scan_three w c (c_string s) of (y, m, d) \<Rightarrow> y * 10000 + m * 100 + d = n"
    using scan_three_digits [OF s(2-4) assms(2) s(5), of c] by (simp add: c_string_clean s(1, 6))
  have "(10 :: int) ^ w \<le> 10 ^ 4" using assms(3) by (intro power_increasing) simp_all
  then have "0 \<le> digits_value y" "digits_value y < 10000" "0 \<le> digits_value m" "digits_value m < 100"
    "0 \<le> digits_value d" "digits_value d < 100"
    using digits_value_bound [of y] digits_value_bound [of m] digits_value_bound [of d] s(2-5) by auto
  then show "0 \<le> n" "n < 2 ^ 27" by (auto simp: s(6))
qed

lemma parsed_parts:
  "three_parts 4 0x2d s n \<Longrightarrow> sint (parse_date s) = n" "three_parts 2 0x3a s n \<Longrightarrow> sint (parse_time s) = n"
proof -
  have val: "sint (word_of_int (y * 10000 + m * 100 + d) :: i32) = n"
    if "three_parts w c s n" "0 < w" "w \<le> 4" "c \<noteq> 0" "scan_three w c (c_string s) = (y, m, d)" for w c y m d
    using three_parts_value [OF that(1-4)] that(5) sint_of_i32 [of n] by simp
  show "three_parts 4 0x2d s n \<Longrightarrow> sint (parse_date s) = n"
    using val [of 4 "0x2d"] unfolding parse_date_def by (cases "scan_three 4 0x2d (c_string s)") auto
  show "three_parts 2 0x3a s n \<Longrightarrow> sint (parse_time s) = n"
    using val [of 2 "0x3a"] unfolding parse_time_def by (cases "scan_three 2 0x3a (c_string s)") auto
qed

section \<open>Quotes of the first service\<close>

lemma codes_back:
  assumes "length ds = 6"
  shows "convert_to_extend_code (text_bytes ''sh'' @ ds) = ds @ text_bytes ''.SH''"
    "convert_to_extend_code (text_bytes ''sz'' @ ds) = ds @ text_bytes ''.SZ''"
    "convert_to_inner_code (ds @ text_bytes ''.SH'') = text_bytes ''sh'' @ ds"
    "convert_to_inner_code (ds @ text_bytes ''.SZ'') = text_bytes ''sz'' @ ds"
  using assms
  by (simp_all add: convert_to_extend_code_def convert_to_inner_code_def text_starts_with_def text_ends_with_def text_bytes_def)

lemma levels_nth: "k < 5 \<Longrightarrow> levels f vs i ! k = f (vs ! (i + 2 * k))"
  by (simp add: levels_def)

text \<open>
  C30. A line of the first service for a security of either exchange. With its 32 fields it is read into the quote of
  that security: the prices and volumes of the fields where the service puts them, and a time stamp that is the
  day and the time of day in decimal, not a number of milliseconds. With fewer fields the code reads behind the
  end of the vector.
\<close>

theorem sina_quote:
  assumes "clean ({0x3d} \<union> line_ends) nm" "nm \<noteq> []" "length ds = 6" "\<forall>d \<in> set ds. is_digit d"
    "(pre, exch) \<in> {(''sh'', ''.SH''), (''sz'', ''.SZ'')}"
    "\<forall>v \<in> set vs. set v \<inter> ({0x2c, 0x22, 0x3d} \<union> line_ends) = {}" "2 \<le> length vs"
    "line = quote_line 0x2c nm (text_bytes pre @ ds) vs"
    "32 \<le> length vs \<Longrightarrow> three_parts 4 0x2d (text_trim (vs ! 30)) day \<and> three_parts 2 0x3a (text_trim (vs ! 31)) tod"
  shows "(if length vs < 32 then sina_parse_quote atof line = Inl MemFault
    else \<exists>q. sina_parse_quote atof line = Inr (Some q) \<and> ct_symbol q = ds @ text_bytes exch \<and>
      convert_to_inner_code (ct_symbol q) = text_bytes pre @ ds \<and>
      ct_open q = atof (text_trim (vs ! 1)) \<and> ct_preclose q = atof (text_trim (vs ! 2)) \<and>
      ct_last q = atof (text_trim (vs ! 3)) \<and> ct_high q = atof (text_trim (vs ! 4)) \<and> ct_low q = atof (text_trim (vs ! 5)) \<and>
      ct_volume q = d_atoll (text_trim (vs ! 8)) \<and> ct_turnover q = d_atoll (text_trim (vs ! 9)) \<and>
      (\<forall>k < 5. ct_bids q ! k = atof (text_trim (vs ! (11 + 2 * k))) \<and> ct_asks q ! k = atof (text_trim (vs ! (21 + 2 * k))) \<and>
        ct_bid_vols q ! k = d_atoll (text_trim (vs ! (10 + 2 * k))) \<and> ct_ask_vols q ! k = d_atoll (text_trim (vs ! (20 + 2 * k)))) \<and>
      sint (ct_dt q) = day \<and> sint (ct_ts q) = day * 1000000 + tod)"
proof -
  let ?code = "text_bytes pre @ ds" and ?vs = "map text_trim vs"
  have ne: "\<not> blank d \<and> d \<noteq> 0x3d \<and> d \<noteq> 0x5f \<and> d \<noteq> 0x0a \<and> d \<noteq> 0x0d" if "is_digit d" for d
  proof -
    have "0x30 \<le> uint d" "uint d \<le> 0x39" using that by (auto simp: is_digit_def word_le_def)
    then have "sint d = uint d" by (simp add: sint_uint signed_take_bit_int_eq_self)
    then show ?thesis using \<open>0x30 \<le> uint d\<close> \<open>uint d \<le> 0x39\<close> by (auto simp: blank_def)
  qed
  have dsne: "ds \<noteq> []" using assms(3) by auto
  have "clean ({0x3d, 0x5f} \<union> line_ends) ?code"
    using assms(4, 5) ne dsne by (auto simp: clean_def line_ends_def text_bytes_def blank_def)
  moreover have "glue 0x2c vs \<noteq> []"
    using assms(7) by (cases vs; cases "tl vs") auto
  ultimately have p: "sina_parse_quote atof line = rbind (sina_fields atof (convert_to_extend_code ?code) ?vs) (\<lambda>q. Inr (Some q))"
    unfolding sina_parse_quote_def assms(8)
    by (intro parse_quote_line) (use assms dsne in \<open>auto simp: line_ends_def\<close>)
  show ?thesis
  proof (cases "length vs < 32")
    case True
    then show ?thesis using p by (simp add: sina_fields_def)
  next
    case False
    then have l: "32 \<le> length vs" by simp
    note d = three_parts_value [OF conjunct1 [OF assms(9) [OF l]]] and t = three_parts_value [OF conjunct2 [OF assms(9) [OF l]]]
    have day: "sint (parse_date (text_trim (vs ! 30))) = day"
      using parsed_parts(1) assms(9) [OF l] by blast
    have tod: "sint (parse_time (text_trim (vs ! 31))) = tod"
      using parsed_parts(2) assms(9) [OF l] by blast
    have ts: "sint (stamp (parse_date (text_trim (vs ! 30))) (parse_time (text_trim (vs ! 31)))) = day * 1000000 + tod"
      using d(2, 3) t(2, 3) unfolding stamp_def day tod by (intro sint_i64) simp_all
    have "convert_to_extend_code ?code = ds @ text_bytes exch" "convert_to_inner_code (ds @ text_bytes exch) = ?code"
      using assms(3, 5) codes_back by auto
    then show ?thesis
      using p l day ts by (simp add: sina_fields_def Let_def levels_nth)
  qed
qed

text \<open>A line with a name outside ASCII in its first field, a price of 7 in all others, and the day 4 January 2022.\<close>

definition demo_fields :: "bytes list" where
  "demo_fields = [0xc6, 0xd6, 0x37] # replicate 29 [0x37] @ [text_bytes ''2022-01-04'', text_bytes ''09:30:05'']"

definition demo_line :: bytes where
  "demo_line = quote_line 0x2c (text_bytes ''var hq_str'') (text_bytes ''sh600000'') demo_fields"

theorem sina_quote_witness:
  "\<exists>q. sina_parse_quote d_atoll demo_line = Inr (Some q) \<and> ct_symbol q = text_bytes ''600000.SH'' \<and>
     ct_last q = d_of_int 7 \<and> sint (ct_ts q) = 20220104093005"
proof -
  let ?y = "text_bytes ''2022-01-04''" and ?t = "text_bytes ''09:30:05''"
  have len: "length demo_fields = 32" by (simp add: demo_fields_def)
  have nth: "demo_fields ! 3 = [0x37]" "demo_fields ! 30 = ?y" "demo_fields ! 31 = ?t"
    by (simp_all add: demo_fields_def nth_append)
  have trims: "text_trim [0x37] = [0x37]" "text_trim ?y = ?y" "text_trim ?t = ?t" "d_atoll [0x37] = d_of_int 7"
    by code_simp+
  have y: "three_parts 4 0x2d ?y 20220104"
    unfolding three_parts_def
    by (intro exI [of _ "text_bytes ''2022''"] exI [of _ "text_bytes ''01''"] exI [of _ "text_bytes ''04''"])
      (simp add: text_bytes_def is_digit_def digits_value_def)
  have t: "three_parts 2 0x3a ?t 93005"
    unfolding three_parts_def
    by (intro exI [of _ "text_bytes ''09''"] exI [of _ "text_bytes ''30''"] exI [of _ "text_bytes ''05''"])
      (simp add: text_bytes_def is_digit_def digits_value_def)
  have l: "demo_line = quote_line 0x2c (text_bytes ''var hq_str'') (text_bytes ''sh'' @ text_bytes ''600000'') demo_fields"
    by (simp add: demo_line_def text_bytes_def)
  show ?thesis
    using sina_quote [of "text_bytes ''var hq_str''" "text_bytes ''600000''" "''sh''" "''.SH''" demo_fields demo_line
        20220104 93005 d_atoll] len nth trims y t l
    by (auto simp: clean_def line_ends_def blank_def text_bytes_def is_digit_def demo_fields_def)
qed

end
