(* ===== verification/Market_Data.thy ===== *)
theory Market_Data
  imports Quote_Text Json_Value
begin

text \<open>
  The link to the market (\<open>cerebro/mdlink.h\<close> and \<open>.cpp\<close>, and the clients of \<open>cerebro/sina_api.cpp\<close> and
  \<open>cerebro/tencent_api.cpp\<close>): which securities are asked for, in which requests, and what of the answers is passed
  on. The network is a parameter, a function from a path to an error number, a status and a body; so are the
  reader of JSON texts and \<open>atof\<close>. A job of the thread pool is the list of codes it will ask for; jobs run one at
  a time in any order.
\<close>

section \<open>Requests\<close>

type_synonym http = "bytes \<Rightarrow> int \<times> int \<times> bytes"

datatype quote_api = Sina | Tencent

definition line_prefix :: "quote_api \<Rightarrow> bytes" where
  "line_prefix api = (case api of Sina \<Rightarrow> text_bytes ''var'' | Tencent \<Rightarrow> text_bytes ''v'')"

definition url_prefix :: "quote_api \<Rightarrow> bytes" where
  "url_prefix api = (case api of Sina \<Rightarrow> text_bytes ''/list='' | Tencent \<Rightarrow> text_bytes ''/q='')"

definition parse_quote :: "quote_api \<Rightarrow> (bytes \<Rightarrow> double) \<Rightarrow> bytes \<Rightarrow> CerebroTickRecord option res" where
  "parse_quote api atof = (case api of Sina \<Rightarrow> sina_parse_quote atof | Tencent \<Rightarrow> tencent_parse_quote atof)"

text \<open>
  The lines of an answer; the function that gets a quote says whether it wants more. What it throws, and what reading a
  line throws, ends the loop, and leaves the state that the quotes before have made.
\<close>

fun each_line ::
    "quote_api \<Rightarrow> (bytes \<Rightarrow> double) \<Rightarrow> (CerebroTickRecord \<Rightarrow> 's \<Rightarrow> ('s, bool \<times> 's) run) \<Rightarrow> bytes list \<Rightarrow> 's \<Rightarrow> ('s, 's) run" where
  "each_line api atof fn [] st = Inr st"
| "each_line api atof fn (l # ls) st =
     (if \<not> text_starts_with l (line_prefix api) then each_line api atof fn ls st
      else rbind (left_at st (parse_quote api atof (text_trim l))) (\<lambda>q.
        case q of None \<Rightarrow> each_line api atof fn ls st
        | Some q \<Rightarrow> rbind (fn q st) (\<lambda>(more, st). if more then each_line api atof fn ls st else Inr st)))"

text \<open>
  One request. Without an answer the first client gives the error number; the second reads the status of an answer that
  is not there. An answer with another status than 200 is no error: its error number is 0.
\<close>

definition get_quotes_by_url ::
    "quote_api \<Rightarrow> (bytes \<Rightarrow> double) \<Rightarrow> http \<Rightarrow> (CerebroTickRecord \<Rightarrow> 's \<Rightarrow> ('s, bool \<times> 's) run) \<Rightarrow> bytes \<Rightarrow> 's \<Rightarrow>
     ('s, int \<times> 's) run" where
  "get_quotes_by_url api atof http fn url st =
     (case http url of (err, status, body) \<Rightarrow>
        if err \<noteq> 0 then (if api = Tencent then Inl (MemFault, st) else Inr (err, st))
        else if status = 200
          then rbind (each_line api atof fn (text_split body [0x3b] True) st) (\<lambda>st. Inr (0, st))
          else Inr (err, st))"

text \<open>The requests for a list of codes, a page of them at a time. The page size is 15 in all calls.\<close>

definition page_size :: nat where "page_size = 15"

definition page_num :: "bytes list \<Rightarrow> nat" where
  "page_num codes = (length codes + page_size - 1) div page_size"

definition page_codes :: "bytes list \<Rightarrow> nat \<Rightarrow> bytes list" where
  "page_codes codes n = map convert_to_inner_code (take page_size (drop (n * page_size) codes))"

definition page_url :: "quote_api \<Rightarrow> bytes list \<Rightarrow> nat \<Rightarrow> bytes" where
  "page_url api codes n = url_prefix api @ glue 0x2c (page_codes codes n)"

fun get_pages ::
    "quote_api \<Rightarrow> (bytes \<Rightarrow> double) \<Rightarrow> http \<Rightarrow> (CerebroTickRecord \<Rightarrow> 's \<Rightarrow> ('s, bool \<times> 's) run) \<Rightarrow> bytes list \<Rightarrow> 's \<Rightarrow> ('s, 's) run"
where
  "get_pages api atof http fn [] st = Inr st"
| "get_pages api atof http fn (u # us) st =
     rbind (get_quotes_by_url api atof http fn u st) (\<lambda>(rc, st). get_pages api atof http fn us st)"

definition get_quotes ::
    "quote_api \<Rightarrow> (bytes \<Rightarrow> double) \<Rightarrow> http \<Rightarrow> bytes list \<Rightarrow> (CerebroTickRecord \<Rightarrow> 's \<Rightarrow> ('s, bool \<times> 's) run) \<Rightarrow> 's \<Rightarrow>
     ('s, int \<times> 's) run" where
  "get_quotes api atof http codes fn st =
     rbind (get_pages api atof http fn (map (page_url api codes) [0 ..< page_num codes]) st) (\<lambda>st. Inr (0, st))"

section \<open>The list of all codes\<close>

definition json_request :: "http \<Rightarrow> bytes \<Rightarrow> int \<times> bytes" where
  "json_request http url =
     (case http url of (err, status, body) \<Rightarrow> if err \<noteq> 0 then (err, []) else if status = 200 then (0, body) else (err, []))"

definition node_page_size :: nat where "node_page_size = 90"

definition node_count_url :: "bytes \<Rightarrow> bytes" where
  "node_count_url node =
     text_bytes ''/quotes_service/api/json_v2.php/Market_Center.getHQNodeStockCount?node='' @ node"

definition node_page_url :: "bytes \<Rightarrow> nat \<Rightarrow> bytes" where
  "node_page_url node i =
     text_bytes ''/quotes_service/api/json_v2.php/Market_Center.getHQNodeData?node='' @ node @
     text_bytes ''&page='' @ decimal (int i) @ text_bytes ''&num='' @ decimal (int node_page_size)"

text \<open>\<open>sscanf\<close> of a number behind a quotation mark, 0 when there is none.\<close>

definition scan_count :: "bytes \<Rightarrow> u64" where
  "scan_count body = (case c_string body of c # r \<Rightarrow> if c = 0x22 then c_strtoul r else 0 | [] \<Rightarrow> 0)"

fun symbols :: "json list \<Rightarrow> bytes list res" where
  "symbols [] = Inr []"
| "symbols (a # as) =
     rbind (json_at (text_bytes ''symbol'') a) (\<lambda>v. rbind (json_get_string v) (\<lambda>s.
       rbind (symbols as) (\<lambda>ss. Inr (s # ss))))"

fun node_pages :: "http \<Rightarrow> (bytes \<Rightarrow> json option) \<Rightarrow> bytes \<Rightarrow> nat list \<Rightarrow> bytes list \<Rightarrow> (int \<times> bytes list) res" where
  "node_pages http parse node [] codes = Inr (0, codes)"
| "node_pages http parse node (i # is) codes =
     (case json_request http (node_page_url node i) of (rc, body) \<Rightarrow>
        if rc \<noteq> 0 then Inr (rc, codes)
        else if body = [] then Inr (0, codes)
        else case parse body of
          None \<Rightarrow> Inl JsonParseError
        | Some (JArray xs) \<Rightarrow>
            rbind (symbols xs) (\<lambda>ss.
              if length xs < node_page_size then Inr (0, codes @ ss) else node_pages http parse node is (codes @ ss))
        | Some js \<Rightarrow> Inr (-1, codes))"

definition node_codes :: "http \<Rightarrow> (bytes \<Rightarrow> json option) \<Rightarrow> bytes \<Rightarrow> bytes list \<Rightarrow> (int \<times> bytes list) res" where
  "node_codes http parse node codes =
     (case json_request http (node_count_url node) of (rc, body) \<Rightarrow>
        if rc \<noteq> 0 then Inr (rc, codes)
        else node_pages http parse node
               [1 ..< Suc (unat ((scan_count body + of_nat node_page_size - 1) div of_nat node_page_size))] codes)"

definition get_codes :: "http \<Rightarrow> (bytes \<Rightarrow> json option) \<Rightarrow> (int \<times> bytes list) res" where
  "get_codes http parse =
     rbind (node_codes http parse (text_bytes ''sz_a'') []) (\<lambda>(rc, codes).
       if rc \<noteq> 0 then Inr (rc, codes) else node_codes http parse (text_bytes ''sh_a'') codes)"

section \<open>The provider\<close>

record MarketDataProvider =
  md_pool_size :: i32
  md_api_name :: bytes
  md_codes :: "bytes list"
  md_quotes :: "(bytes, CerebroTickRecord) items"
  md_jobs :: "bytes list list option"

text \<open>The thread pool is there after \<open>init\<close> only.\<close>

definition provider_new :: MarketDataProvider where
  "provider_new = \<lparr>md_pool_size = 4, md_api_name = text_bytes ''sina'', md_codes = [], md_quotes = [], md_jobs = None\<rparr>"

definition provider_init :: "i32 \<Rightarrow> bytes \<Rightarrow> MarketDataProvider \<Rightarrow> int \<times> MarketDataProvider" where
  "provider_init sz api p =
     (let p1 = p\<lparr>md_pool_size := (if 0 <s sz then sz else 4)\<rparr>
      in if api \<noteq> text_bytes ''sina'' \<and> api \<noteq> text_bytes ''tencent'' then (-1, p1)
         else (0, p1\<lparr>md_api_name := api, md_jobs := Some []\<rparr>))"

definition api_of :: "MarketDataProvider \<Rightarrow> quote_api" where
  "api_of p = (if md_api_name p = text_bytes ''sina'' then Sina else Tencent)"

definition set_codes :: "bytes list \<Rightarrow> MarketDataProvider \<Rightarrow> MarketDataProvider" where
  "set_codes cs p = p\<lparr>md_codes := cs\<rparr>"

definition clear_quotes :: "MarketDataProvider \<Rightarrow> MarketDataProvider" where
  "clear_quotes p = p\<lparr>md_quotes := []\<rparr>"

definition update_codes :: "http \<Rightarrow> (bytes \<Rightarrow> json option) \<Rightarrow> MarketDataProvider \<Rightarrow> (int \<times> MarketDataProvider) res" where
  "update_codes http parse p =
     rbind (get_codes http parse) (\<lambda>(rc, codes).
       if rc \<noteq> 0 then Inr (rc, p) else if codes = [] then Inr (0, p) else Inr (0, p\<lparr>md_codes := codes\<rparr>))"

definition add_job :: "bytes list \<Rightarrow> MarketDataProvider \<Rightarrow> MarketDataProvider res" where
  "add_job cs p =
     (case md_jobs p of None \<Rightarrow> Inl MemFault | Some js \<Rightarrow> Inr (p\<lparr>md_jobs := Some (js @ [cs])\<rparr>))"

text \<open>Codes are collected until there are thirty, which are a job; the last job has what is left.\<close>

fun add_batches :: "bytes list \<Rightarrow> bytes list \<Rightarrow> MarketDataProvider \<Rightarrow> MarketDataProvider res" where
  "add_batches acc [] p = (if acc \<noteq> [] then add_job acc p else Inr p)"
| "add_batches acc (c # cs) p =
     (if length (acc @ [c]) = 30 then rbind (add_job (acc @ [c]) p) (add_batches [] cs)
      else add_batches (acc @ [c]) cs p)"

definition update_quotes :: "MarketDataProvider \<Rightarrow> (int \<times> MarketDataProvider) res" where
  "update_quotes p = rbind (add_batches [] (md_codes p) p) (\<lambda>p. Inr (0, p))"

definition update_quotes_of :: "bytes \<Rightarrow> MarketDataProvider \<Rightarrow> (int \<times> MarketDataProvider) res" where
  "update_quotes_of code p = rbind (add_job [convert_to_inner_code code] p) (\<lambda>p. Inr (0, p))"

text \<open>\<open>std::isnormal\<close>.\<close>

fun d_isnormal :: "double \<Rightarrow> bool" where
  "d_isnormal (DFin s m e) \<longleftrightarrow> m \<noteq> 0 \<and> - 1022 \<le> int_log m + e"
| "d_isnormal _ \<longleftrightarrow> False"

text \<open>
  A quote that comes in: whether it is passed to the callback, if there is one. The first quote of a security is kept
  and all later ones are compared with it; they do not replace it.
\<close>

definition on_quote :: "CerebroTickRecord \<Rightarrow> MarketDataProvider \<Rightarrow> bool \<times> MarketDataProvider" where
  "on_quote q p =
     (if \<not> d_isnormal (ct_last q) then (False, p)
      else case map_of (md_quotes p) (ct_symbol q) of
        None \<Rightarrow> (True, p\<lparr>md_quotes := put_item (ct_symbol q, q) (md_quotes p)\<rparr>)
      | Some old \<Rightarrow> if ct_ts q \<le>s ct_ts old then (False, p) else (True, p))"

section \<open>Every code is asked for once\<close>

lemma take_pages: "concat (map (\<lambda>n. take k (drop (n * k) xs)) [0 ..< m]) = take (m * k) xs"
proof (induction m)
  case (Suc m)
  have "take (m * k) xs @ take k (drop (m * k) xs) = take (Suc m * k) xs"
    using take_add [of "m * k" k xs] by (simp add: add.commute)
  then show ?case using Suc by simp
qed simp

lemma pages_all: "concat (map (\<lambda>n. take page_size (drop (n * page_size) codes)) [0 ..< page_num codes]) = codes"
proof -
  have "length codes \<le> page_num codes * page_size"
    by (simp add: page_num_def page_size_def)
  then show ?thesis by (simp add: take_pages)
qed

lemma page_start: "n < page_num codes \<Longrightarrow> n * page_size < length codes"
  by (simp add: page_num_def page_size_def)

lemma add_batches_jobs:
  assumes "md_jobs p = Some js" "length acc < 30"
  shows "\<exists>bs. add_batches acc cs p = Inr (p\<lparr>md_jobs := Some (js @ bs)\<rparr>) \<and> concat bs = acc @ cs \<and>
    (\<forall>b \<in> set bs. b \<noteq> [] \<and> length b \<le> 30) \<and> (\<forall>b \<in> set (butlast bs). length b = 30)"
  using assms
proof (induction cs arbitrary: acc p js)
  case Nil
  show ?case
  proof (cases "acc = []")
    case True
    then show ?thesis using Nil by (intro exI [of _ "[]"]) simp
  next
    case False
    then show ?thesis using Nil by (intro exI [of _ "[acc]"]) (simp add: add_job_def)
  qed
next
  case (Cons c cs)
  show ?case
  proof (cases "length (acc @ [c]) = 30")
    case True
    define p1 where "p1 = p\<lparr>md_jobs := Some (js @ [acc @ [c]])\<rparr>"
    have "md_jobs p1 = Some (js @ [acc @ [c]])" "length ([] :: bytes list) < 30" by (simp_all add: p1_def)
    from Cons.IH [OF this] obtain bs where bs: "add_batches [] cs p1 = Inr (p1\<lparr>md_jobs := Some ((js @ [acc @ [c]]) @ bs)\<rparr>)"
      "concat bs = cs" "\<forall>b \<in> set bs. b \<noteq> [] \<and> length b \<le> 30" "\<forall>b \<in> set (butlast bs). length b = 30"
      by auto
    show ?thesis
      using Cons.prems True bs
      by (intro exI [of _ "(acc @ [c]) # bs"]) (auto simp: add_job_def p1_def)
  next
    case False
    then have "length (acc @ [c]) < 30" using Cons.prems(2) by simp
    from Cons.IH [OF Cons.prems(1) this] show ?thesis using False by simp
  qed
qed

text \<open>
  C28. No code is forgotten or asked for twice. Updating all quotes adds jobs of thirty codes each, but for the
  last, that together have the codes of the provider in their order; and the requests a job makes have at most
  fifteen codes each and together the codes of the job.
\<close>

theorem codes_asked:
  assumes "md_jobs p = Some js"
  shows "\<exists>bs. update_quotes p = Inr (0, p\<lparr>md_jobs := Some (js @ bs)\<rparr>) \<and> concat bs = md_codes p \<and>
    (\<forall>b \<in> set bs. 0 < length b \<and> length b \<le> 30 \<and>
      concat (map (page_codes b) [0 ..< page_num b]) = map convert_to_inner_code b \<and>
      (\<forall>n < page_num b. 0 < length (page_codes b n) \<and> length (page_codes b n) \<le> 15)) \<and>
    (\<forall>b \<in> set (butlast bs). length b = 30)"
proof -
  obtain bs where bs: "add_batches [] (md_codes p) p = Inr (p\<lparr>md_jobs := Some (js @ bs)\<rparr>)" "concat bs = md_codes p"
    "\<forall>b \<in> set bs. b \<noteq> [] \<and> length b \<le> 30" "\<forall>b \<in> set (butlast bs). length b = 30"
    using add_batches_jobs [OF assms, of "[]" "md_codes p"] by auto
  have "concat (map (page_codes b) [0 ..< page_num b]) = map convert_to_inner_code b" for b
    using arg_cong [OF pages_all [of b], of "map convert_to_inner_code"]
    by (simp add: page_codes_def [abs_def] map_concat comp_def)
  moreover have "0 < length (page_codes b n) \<and> length (page_codes b n) \<le> 15" if "n < page_num b" for b n
    using page_start [OF that] by (simp add: page_codes_def page_size_def)
  ultimately show ?thesis using bs by (intro exI [of _ bs]) (auto simp: update_quotes_def)
qed

definition demo_provider_of :: "bytes list \<Rightarrow> MarketDataProvider" where
  "demo_provider_of cs = set_codes cs (snd (provider_init 4 (text_bytes ''sina'') provider_new))"

theorem codes_asked_witness:
  "\<exists>bs. update_quotes (demo_provider_of (replicate 40 demo_sym)) =
      Inr (0, (demo_provider_of (replicate 40 demo_sym))\<lparr>md_jobs := Some bs\<rparr>) \<and> concat bs = replicate 40 demo_sym"
  using codes_asked [of "demo_provider_of (replicate 40 demo_sym)" "[]"]
  by (auto simp: demo_provider_of_def set_codes_def provider_init_def)

section \<open>Stale quotes\<close>

text \<open>The quotes of a sequence that are passed on.\<close>

fun passed_on :: "CerebroTickRecord list \<Rightarrow> MarketDataProvider \<Rightarrow> CerebroTickRecord list" where
  "passed_on [] p = []"
| "passed_on (q # qs) p = (case on_quote q p of (fwd, p1) \<Rightarrow> (if fwd then [q] else []) @ passed_on qs p1)"

lemma passed_on_later:
  assumes "map_of (md_quotes p) s = Some old" "\<forall>q \<in> set qs. ct_symbol q = s \<and> d_isnormal (ct_last q)"
  shows "passed_on qs p = filter (\<lambda>q. sint (ct_ts old) < sint (ct_ts q)) qs"
  using assms(2)
proof (induction qs)
  case (Cons q qs)
  then have "on_quote q p = (\<not> ct_ts q \<le>s ct_ts old, p)" using assms(1) by (simp add: on_quote_def)
  then show ?case using Cons by (simp add: word_sle_eq not_le)
qed simp

text \<open>
  C27. Of the quotes of a security that come in, the first is passed on and after it those that are younger than the
  first, and no others are held back: a quote that is older than the one before it, or the same again, reaches the
  brokers, although the code means to drop old quotes.
\<close>

theorem stale_quotes:
  assumes "map_of (md_quotes p) s = None" "\<forall>q \<in> set (first # qs). ct_symbol q = s \<and> d_isnormal (ct_last q)"
  shows "passed_on (first # qs) p = first # filter (\<lambda>q. sint (ct_ts first) < sint (ct_ts q)) qs"
proof -
  let ?p = "p\<lparr>md_quotes := put_item (s, first) (md_quotes p)\<rparr>"
  have "map_of (md_quotes ?p) s = Some first" by simp
  from passed_on_later [OF this, of qs] show ?thesis using assms by (simp add: on_quote_def)
qed

definition demo_quote :: "i64 \<Rightarrow> CerebroTickRecord" where
  "demo_quote ts = tick_zero\<lparr>ct_symbol := demo_sym, ct_last := d_of_int 10, ct_ts := ts\<rparr>"

theorem stale_quotes_witness:
  "map ct_ts (passed_on [demo_quote 1, demo_quote 5, demo_quote 3, demo_quote 5, demo_quote 1] provider_new) = [1, 5, 3, 5]"
proof -
  have n: "d_isnormal (d_of_int 10)" by code_simp
  show ?thesis
    using stale_quotes [of provider_new demo_sym "demo_quote 1" "[demo_quote 5, demo_quote 3, demo_quote 5, demo_quote 1]"] n
    by (simp add: demo_quote_def provider_new_def)
qed

end
