(* ===== verification/Trader_Service.thy ===== *)
theory Trader_Service
  imports Market_Data Broker_Orders
begin

text \<open>
  The traders of the key-value service (\<open>HttpServiceImpl\<close> of \<open>kvstore/service_impl.h\<close> and \<open>.cpp\<close>): they are created
  and deleted by request, their brokers take orders, and every quote of the market link goes to all of them. The
  two generators of numbers and the clock are shared by all traders: each is a stream of values with the number of
  calls so far, lent to the broker that an operation works on. Requests and quotes are handled one at a time. An
  exception does not end the service: the thread pool keeps that of a job for a future that nobody asks
  (\<open>AddJob\<close> in \<open>util/threadpool.h\<close>), the HTTP server answers that of a request with an error; and the service goes
  on with what the operation has left.
\<close>

section \<open>State\<close>

record HttpService =
  hs_traders :: "(int, CerebroTrader) items"
  hs_traders_nm :: "(bytes, i64) items"
  hs_mdlink :: MarketDataProvider
  hs_quotes :: "(bytes, CerebroTickRecord) items"
  hs_trader_gen :: "nat \<Rightarrow> i64"
  hs_trader_calls :: nat
  hs_order_gen :: "nat \<Rightarrow> i64"
  hs_order_calls :: nat
  hs_clock :: "nat \<Rightarrow> i64"
  hs_clock_calls :: nat

text \<open>After \<open>Init\<close>: four threads, and the first of the two quote services.\<close>

definition service_new :: "(nat \<Rightarrow> i64) \<Rightarrow> (nat \<Rightarrow> i64) \<Rightarrow> (nat \<Rightarrow> i64) \<Rightarrow> HttpService" where
  "service_new tgen ogen clk =
     \<lparr>hs_traders = [], hs_traders_nm = [], hs_mdlink = snd (provider_init 4 (text_bytes ''sina'') provider_new),
      hs_quotes = [], hs_trader_gen = tgen, hs_trader_calls = 0, hs_order_gen = ogen, hs_order_calls = 0,
      hs_clock = clk, hs_clock_calls = 0\<rparr>"

text \<open>A broker works on the shared streams from where they are, and gives them back.\<close>

definition lend :: "HttpService \<Rightarrow> CerebroBroker \<Rightarrow> CerebroBroker" where
  "lend s b = b\<lparr>cb_ids := hs_order_calls s, cb_clock_calls := hs_clock_calls s\<rparr>"

definition give_back :: "CerebroBroker \<Rightarrow> HttpService \<Rightarrow> HttpService" where
  "give_back b s = s\<lparr>hs_order_calls := cb_ids b, hs_clock_calls := cb_clock_calls b\<rparr>"

definition put_broker :: "int \<Rightarrow> CerebroTrader \<Rightarrow> CerebroBroker \<Rightarrow> HttpService \<Rightarrow> HttpService" where
  "put_broker k t b s = (give_back b s)\<lparr>hs_traders := put_item (k, t\<lparr>tr_broker := b\<rparr>) (hs_traders s)\<rparr>"

text \<open>A call on the broker of the trader with key k; one that throws leaves the broker as it is.\<close>

definition on_broker ::
    "(CerebroBroker \<Rightarrow> ('a \<times> CerebroBroker) res) \<Rightarrow> int \<Rightarrow> CerebroTrader \<Rightarrow> HttpService \<Rightarrow> ('a \<times> HttpService) res" where
  "on_broker f k t s =
     rbind (f (lend s (tr_broker t))) (\<lambda>(r, b). Inr (r, put_broker k t b s))"

section \<open>Traders\<close>

definition get_trader :: "i64 \<Rightarrow> HttpService \<Rightarrow> CerebroTrader option" where
  "get_trader i s = map_of (hs_traders s) (sint i)"

definition get_trader_by_name :: "bytes \<Rightarrow> HttpService \<Rightarrow> CerebroTrader option" where
  "get_trader_by_name nm s =
     (case map_of (hs_traders_nm s) nm of None \<Rightarrow> None | Some i \<Rightarrow> map_of (hs_traders s) (sint i))"

text \<open>The generator of order numbers is set before \<open>init\<close>, which enters the first deposit as an order.\<close>

definition create_trader :: "bytes \<Rightarrow> double \<Rightarrow> HttpService \<Rightarrow> (CerebroTrader \<times> HttpService) res" where
  "create_trader nm cash s =
     (case map_of (hs_traders_nm s) nm of
        Some i \<Rightarrow> (case map_of (hs_traders s) (sint i) of Some t \<Rightarrow> Inr (t, s) | None \<Rightarrow> Inl OutOfRange)
      | None \<Rightarrow>
          let i = hs_trader_gen s (hs_trader_calls s);
              t0 = trader_new (hs_clock s);
              b0 = set_order_id_generator (hs_order_gen s) (tr_broker t0)
          in rbind (trader_init i nm cash (t0\<lparr>tr_broker := lend s b0\<rparr>)) (\<lambda>(rc, t).
               Inr (t, (give_back (tr_broker t) s)
                 \<lparr>hs_trader_calls := Suc (hs_trader_calls s),
                  hs_traders := put_item (sint i, t) (hs_traders s),
                  hs_traders_nm := put_item (nm, i) (hs_traders_nm s)\<rparr>)))"

definition delete_trader :: "i64 \<Rightarrow> HttpService \<Rightarrow> int \<times> HttpService" where
  "delete_trader i s =
     (case map_of (hs_traders s) (sint i) of
        None \<Rightarrow> (-1, s)
      | Some t \<Rightarrow> (0, s\<lparr>hs_traders_nm := delete_item (tr_name t) (hs_traders_nm s),
                       hs_traders := delete_item (sint i) (hs_traders s)\<rparr>))"

section \<open>Orders\<close>

record TradeOrderRequest =
  rq_trader_id :: i64
  rq_symbol :: Symbol
  rq_side :: i32
  rq_quantity :: double
  rq_price :: double

definition enter_order :: "TradeOrderRequest \<Rightarrow> HttpService \<Rightarrow> (i64 \<times> HttpService) res" where
  "enter_order req s =
     (case get_trader (rq_trader_id req) s of
        None \<Rightarrow> Inr (-1, s)
      | Some t \<Rightarrow>
          if rq_side req = 1
          then on_broker (broker_buy (rq_symbol req) (rq_quantity req) (rq_price req)) (sint (rq_trader_id req)) t s
          else if rq_side req = 2
          then on_broker (broker_sell (rq_symbol req) (rq_quantity req) (rq_price req)) (sint (rq_trader_id req)) t s
          else Inr (-1, s))"

definition service_cancel_order :: "i64 \<Rightarrow> i64 \<Rightarrow> HttpService \<Rightarrow> (i64 \<times> HttpService) res" where
  "service_cancel_order tid oid s =
     (case get_trader tid s of None \<Rightarrow> Inr (-1, s) | Some t \<Rightarrow> on_broker (cancel_order oid) (sint tid) t s)"

definition order_list :: "i64 \<Rightarrow> HttpService \<Rightarrow> int \<times> CerebroOrder list" where
  "order_list tid s = (case get_trader tid s of None \<Rightarrow> (-1, []) | Some t \<Rightarrow> (0, current_orders (tr_broker t)))"

definition position_list :: "i64 \<Rightarrow> HttpService \<Rightarrow> int \<times> CerebroPosition list" where
  "position_list tid s =
     (case get_trader tid s of None \<Rightarrow> (-1, []) | Some t \<Rightarrow> (0, current_positions (tr_broker t) []))"

section \<open>Quotes\<close>

text \<open>A tick for the broker of the trader with key k, which may throw and leave it changed.\<close>

definition tick_broker ::
    "CerebroTickRecord \<Rightarrow> int \<Rightarrow> CerebroTrader \<Rightarrow> HttpService \<Rightarrow> (HttpService, HttpService) run" where
  "tick_broker q k t s =
     rbind (left_in (\<lambda>b. put_broker k t b s) (on_tick q (lend s (tr_broker t)))) (\<lambda>b. Inr (put_broker k t b s))"

fun tick_traders :: "CerebroTickRecord \<Rightarrow> int list \<Rightarrow> HttpService \<Rightarrow> (HttpService, HttpService) run" where
  "tick_traders q [] s = Inr s"
| "tick_traders q (k # ks) s =
     (case map_of (hs_traders s) k of
        None \<Rightarrow> tick_traders q ks s
      | Some t \<Rightarrow> rbind (tick_broker q k t s) (tick_traders q ks))"

text \<open>
  The callback that \<open>Init\<close> gives to the market link, and what the link makes of a quote with it. An exception of one
  broker keeps the quote from the traders behind it.
\<close>

definition quotes_callback :: "CerebroTickRecord \<Rightarrow> HttpService \<Rightarrow> (HttpService, bool \<times> HttpService) run" where
  "quotes_callback q s =
     rbind (tick_traders q (map fst (hs_traders s)) (s\<lparr>hs_quotes := put_item (ct_symbol q, q) (hs_quotes s)\<rparr>))
       (\<lambda>s1. Inr (True, s1))"

definition service_quote :: "CerebroTickRecord \<Rightarrow> HttpService \<Rightarrow> (HttpService, bool \<times> HttpService) run" where
  "service_quote q s =
     (case on_quote q (hs_mdlink s) of (fwd, p) \<Rightarrow>
        rbind (if fwd then quotes_callback q (s\<lparr>hs_mdlink := p\<rparr>) else Inr (True, s\<lparr>hs_mdlink := p\<rparr>))
          (\<lambda>(r, s1). Inr (True, s1)))"

text \<open>The first job of the pool is taken and run.\<close>

definition run_job :: "(bytes \<Rightarrow> double) \<Rightarrow> http \<Rightarrow> HttpService \<Rightarrow> (HttpService, HttpService) run" where
  "run_job atof http s =
     (case md_jobs (hs_mdlink s) of
        Some (codes # js) \<Rightarrow>
          rbind (get_quotes (api_of (hs_mdlink s)) atof http codes service_quote
                   (s\<lparr>hs_mdlink := (hs_mdlink s)\<lparr>md_jobs := Some js\<rparr>\<rparr>))
            (\<lambda>(rc, s1). Inr s1)
      | _ \<Rightarrow> Inr s)"

text \<open>What the thread pool makes of a job: an exception is kept in a future, and with it lost.\<close>

definition swallow :: "('s, 's) run \<Rightarrow> 's res" where
  "swallow m = (case m of Inl (e, s) \<Rightarrow> if thrown e then Inr s else Inl e | Inr s \<Rightarrow> Inr s)"

fun ask_quotes :: "bytes list \<Rightarrow> MarketDataProvider \<Rightarrow> MarketDataProvider res" where
  "ask_quotes [] p = Inr p"
| "ask_quotes (c # cs) p = rbind (update_quotes_of c p) (\<lambda>(rc, p1). ask_quotes cs p1)"

text \<open>The quotes that are there already are the result; those just asked for come later.\<close>

definition service_get_quotes :: "bytes list \<Rightarrow> HttpService \<Rightarrow> (int \<times> CerebroTickRecord list \<times> HttpService) res" where
  "service_get_quotes codes s =
     rbind (ask_quotes codes (hs_mdlink s)) (\<lambda>p.
       Inr (0, List.map_filter (\<lambda>c. map_of (hs_quotes s) (convert_to_extend_code c)) codes, s\<lparr>hs_mdlink := p\<rparr>))"

definition subscribe_quotes :: "bytes list \<Rightarrow> HttpService \<Rightarrow> int \<times> HttpService" where
  "subscribe_quotes codes s = (0, s\<lparr>hs_mdlink := set_codes codes (hs_mdlink s)\<rparr>)"


section \<open>Operations and runs\<close>

datatype service_op =
    SCreate bytes double | SDelete i64 | SEnter TradeOrderRequest | SCancel i64 i64
  | SQuote CerebroTickRecord | SJob "bytes \<Rightarrow> double" http | SGetQuotes "bytes list" | SSubscribe "bytes list"

text \<open>An operation as it returns or throws, and as the service goes on after it.\<close>

fun do_run :: "service_op \<Rightarrow> HttpService \<Rightarrow> (HttpService, HttpService) run" where
  "do_run (SCreate nm cash) s = left_at s (rbind (create_trader nm cash s) (\<lambda>(t, s1). Inr s1))"
| "do_run (SDelete i) s = Inr (snd (delete_trader i s))"
| "do_run (SEnter req) s = left_at s (rbind (enter_order req s) (\<lambda>(i, s1). Inr s1))"
| "do_run (SCancel tid oid) s = left_at s (rbind (service_cancel_order tid oid s) (\<lambda>(i, s1). Inr s1))"
| "do_run (SQuote q) s = rbind (service_quote q s) (\<lambda>(r, s1). Inr s1)"
| "do_run (SJob atof http) s = run_job atof http s"
| "do_run (SGetQuotes codes) s = left_at s (rbind (service_get_quotes codes s) (\<lambda>(rc, rs, s1). Inr s1))"
| "do_run (SSubscribe codes) s = Inr (snd (subscribe_quotes codes s))"

definition do_service :: "service_op \<Rightarrow> HttpService \<Rightarrow> HttpService res" where
  "do_service op' s = swallow (do_run op' s)"

text \<open>The states the service comes to, and those it comes to as long as nothing throws.\<close>

inductive serves :: "HttpService \<Rightarrow> HttpService \<Rightarrow> bool" for s where
  start: "serves s s"
| step: "serves s s1 \<Longrightarrow> do_service op' s1 = Inr s2 \<Longrightarrow> serves s s2"

inductive calm :: "HttpService \<Rightarrow> HttpService \<Rightarrow> bool" for s where
  start: "calm s s"
| step: "calm s s1 \<Longrightarrow> do_run op' s1 = Inr s2 \<Longrightarrow> calm s s2"

section \<open>The invariant\<close>

definition trader_numbers :: "CerebroTrader \<Rightarrow> i64 list" where
  "trader_numbers t = map co_order_id (current_orders (tr_broker t))"

definition all_numbers :: "HttpService \<Rightarrow> i64 list" where
  "all_numbers s = concat (map (\<lambda>x. trader_numbers (snd x)) (hs_traders s))"

text \<open>
  With q, nothing has thrown: the books hold new orders only, and every trader reports its numbers once. In any case a
  number that was drawn belongs to one trader, and the others never report it.
\<close>

definition kind :: "bool \<Rightarrow> Symbol \<Rightarrow> CerebroOrder \<Rightarrow> bool" where "kind q = (if q then fresh else queued)"

lemma order_kind_kind [simp]: "order_kind (kind q)" by (simp add: kind_def)

definition among :: "bool \<Rightarrow> i64 list \<Rightarrow> i64 list \<Rightarrow> bool" where
  "among q xs ys \<longleftrightarrow> set xs \<subseteq> set ys \<and> (q \<longrightarrow> mset xs \<subseteq># mset ys)"

definition owned :: "HttpService \<Rightarrow> (nat \<Rightarrow> int) \<Rightarrow> int \<Rightarrow> i64 list" where
  "owned s own k = map (hs_order_gen s) (filter (\<lambda>n. own n = k) [0 ..< hs_order_calls s])"

definition trader_ok :: "bool \<Rightarrow> HttpService \<Rightarrow> int \<Rightarrow> CerebroTrader \<Rightarrow> bool" where
  "trader_ok q s k t \<longleftrightarrow>
     k = sint (tr_id t) \<and> map_of (hs_traders_nm s) (tr_name t) = Some (tr_id t) \<and>
     tr_id t \<in> hs_trader_gen s ` {..< hs_trader_calls s} \<and>
     book_of (kind q) (tr_broker t) \<and> cb_order_id_gen (tr_broker t) = Some (hs_order_gen s)"

definition service_ok :: "bool \<Rightarrow> HttpService \<Rightarrow> bool" where
  "service_ok q s \<longleftrightarrow>
     ordered_items (hs_traders s) \<and> ordered_items (hs_traders_nm s) \<and>
     (\<forall>(k, t) \<in> set (hs_traders s). trader_ok q s k t) \<and>
     (\<forall>(nm, i) \<in> set (hs_traders_nm s). \<exists>t. map_of (hs_traders s) (sint i) = Some t \<and> tr_name t = nm) \<and>
     (\<exists>own. \<forall>(k, t) \<in> set (hs_traders s). among q (trader_numbers t) (owned s own k))"

text \<open>What a broker operation must do: keep the book and account for its numbers.\<close>

definition broker_steps :: "bool \<Rightarrow> CerebroBroker \<Rightarrow> CerebroBroker \<Rightarrow> bool" where
  "broker_steps q b c \<longleftrightarrow> book_of (kind q) c \<and> numbers_within b c \<and> (q \<longrightarrow> numbered b c)"

definition keeps_book :: "(CerebroBroker \<Rightarrow> ('a \<times> CerebroBroker) res) \<Rightarrow> bool" where
  "keeps_book f \<longleftrightarrow> (\<forall>q b r c. f b = Inr (r, c) \<longrightarrow> book_of (kind q) b \<longrightarrow> broker_steps q b c)"

lemma steps_op:
  assumes "do_op op' b = Inr c" "\<forall>g. op' \<noteq> OpGenerator g" "book_of (kind q) b"
  shows "broker_steps q b c"
  using do_op_book [OF assms(1, 3)] do_op_numbers [OF assms(1) book_of_queued [OF assms(3)] assms(2)]
  by (simp add: broker_steps_def numbers_within_numbered grows_of_def)

lemma keeps_book_op:
  assumes "\<And>b r c. f b = Inr (r, c) \<Longrightarrow> do_op op' b = Inr c" "\<forall>g. op' \<noteq> OpGenerator g"
  shows "keeps_book f"
  using assms steps_op unfolding keeps_book_def by blast

lemma keeps_book_ops:
  "keeps_book (broker_buy x q p)" "keeps_book (broker_sell x q p)" "keeps_book (cancel_order i)"
  "keeps_book (deposit_cash v f)"
proof -
  show "keeps_book (broker_buy x q p)" by (rule keeps_book_op [of _ "OpBuy x q p"]) simp_all
  show "keeps_book (broker_sell x q p)" by (rule keeps_book_op [of _ "OpSell x q p"]) simp_all
  show "keeps_book (cancel_order i)" by (rule keeps_book_op [of _ "OpCancel i"]) simp_all
  show "keeps_book (deposit_cash v f)" by (rule keeps_book_op [of _ "OpDeposit v f"]) simp_all
qed

lemma tick_steps:
  "on_tick t b = Inr c \<Longrightarrow> book_of (kind q) b \<Longrightarrow> broker_steps q b c"
  "on_tick t b = Inl (e, c) \<Longrightarrow> thrown e \<Longrightarrow> book_of (kind False) b \<Longrightarrow> broker_steps False b c"
  using steps_op [of "OpTick t" b c q] on_tick_thrown on_tick_within
  by (auto simp: broker_steps_def kind_def grows_of_def)

lemma lend_simps [simp]:
  "book_of Q (lend s b) = book_of Q b" "order_numbers (lend s b) = order_numbers b"
  "cb_order_id_gen (lend s b) = cb_order_id_gen b" "cb_ids (lend s b) = hs_order_calls s"
  "cb_account (lend s b) = cb_account b"
  by (simp_all add: lend_def book_of_def order_numbers_def current_orders_def)

lemma sint_eqD: "sint (x :: i64) = sint (y :: i64) \<Longrightarrow> x = y"
  using word_eq_iff_signed by auto

lemma distinct_sub:
  assumes "mset xs \<subseteq># mset ys" "distinct ys"
  shows "distinct xs"
proof -
  obtain zs where "mset ys = mset (xs @ zs)"
    using assms(1) ex_mset by (metis mset_append mset_subset_eq_exists_conv)
  then show ?thesis using assms(2) mset_eq_imp_distinct_iff by fastforce
qed

lemma trader_numbers_broker: "mset (trader_numbers u) = order_numbers (tr_broker u)"
  by (simp add: trader_numbers_def order_numbers_def)

lemma service_trader: "service_ok q s \<Longrightarrow> map_of (hs_traders s) k = Some t \<Longrightarrow> trader_ok q s k t"
  by (auto simp: service_ok_def dest: map_of_SomeD)

text \<open>The numbers drawn by an operation for the trader with key k are owned by it.\<close>

definition owner_of_new :: "nat \<Rightarrow> int \<Rightarrow> (nat \<Rightarrow> int) \<Rightarrow> nat \<Rightarrow> int" where
  "owner_of_new m k own n = (if n < m then own n else k)"

lemma owned_new:
  assumes "hs_order_gen s1 = hs_order_gen s" "hs_order_calls s \<le> hs_order_calls s1"
  shows "owned s1 (owner_of_new (hs_order_calls s) k own) j =
    owned s own j @ (if j = k then map (hs_order_gen s) [hs_order_calls s ..< hs_order_calls s1] else [])"
proof -
  let ?m = "hs_order_calls s" and ?n = "hs_order_calls s1"
  have "[0 ..< ?n] = [0 ..< ?m] @ [?m ..< ?n]"
    using assms(2) by (metis le_add_diff_inverse upt_add_eq_append zero_le)
  moreover have "filter (\<lambda>n. owner_of_new ?m k own n = j) [0 ..< ?m] = filter (\<lambda>n. own n = j) [0 ..< ?m]"
    by (rule filter_cong) (auto simp: owner_of_new_def)
  moreover have "filter (\<lambda>n. owner_of_new ?m k own n = j) [?m ..< ?n] = (if j = k then [?m ..< ?n] else [])"
    by (auto simp: owner_of_new_def filter_empty_conv intro!: filter_True)
  ultimately show ?thesis using assms(1) by (simp add: owned_def)
qed

lemma among_more:
  assumes "among q (trader_numbers t) xs" "numbers_within (lend s (tr_broker t)) b" "q \<longrightarrow> numbered (lend s (tr_broker t)) b"
    "cb_order_id_gen (tr_broker t) = Some g" "tr_broker u = b"
  shows "among q (trader_numbers u) (xs @ map g [hs_order_calls s ..< cb_ids b])"
proof -
  have "set (trader_numbers v) = set_mset (order_numbers (tr_broker v))" for v
    using arg_cong [OF trader_numbers_broker [of v], of set_mset] by simp
  then have "set (trader_numbers u) \<subseteq> set xs \<union> set (map g [hs_order_calls s ..< cb_ids b])"
    using assms by (auto simp: among_def numbers_within_def drawn_def)
  moreover have "mset (trader_numbers u) \<subseteq># mset xs + mset (map g [hs_order_calls s ..< cb_ids b])" if q
    using assms that by (simp add: among_def numbered_def drawn_def trader_numbers_broker)
  ultimately show ?thesis by (simp add: among_def)
qed

text \<open>A call on a broker keeps the service in order.\<close>

lemma put_broker_ok:
  assumes "service_ok q s" "map_of (hs_traders s) k = Some t" "broker_steps q (lend s (tr_broker t)) b"
  shows "service_ok q (put_broker k t b s)"
proof -
  define s1 where "s1 = put_broker k t b s"
  note t = service_trader [OF assms(1, 2)]
  have n: "book_of (kind q) b" "numbers_within (lend s (tr_broker t)) b" "q \<longrightarrow> numbered (lend s (tr_broker t)) b"
    using assms(3) by (auto simp: broker_steps_def)
  have ord: "ordered_items (hs_traders s)" using assms(1) by (simp add: service_ok_def)
  have s1: "hs_traders s1 = put_item (k, t\<lparr>tr_broker := b\<rparr>) (hs_traders s)" "hs_order_gen s1 = hs_order_gen s"
    "hs_order_calls s1 = cb_ids b" "hs_order_calls s \<le> hs_order_calls s1" "hs_traders_nm s1 = hs_traders_nm s"
    "hs_trader_gen s1 = hs_trader_gen s" "hs_trader_calls s1 = hs_trader_calls s"
    using n(2) by (simp_all add: s1_def put_broker_def give_back_def numbers_within_def)
  have gen: "cb_order_id_gen (tr_broker t) = Some (hs_order_gen s)" "cb_order_id_gen b = Some (hs_order_gen s)"
    using t n(2) by (simp_all add: trader_ok_def numbers_within_def)
  obtain own where own: "\<forall>(j, u) \<in> set (hs_traders s). among q (trader_numbers u) (owned s own j)"
    using assms(1) by (auto simp: service_ok_def)
  have "among q (trader_numbers t) (owned s own k)" using own map_of_SomeD [OF assms(2)] by auto
  from among_more [OF this n(2, 3) gen(1), of "t\<lparr>tr_broker := b\<rparr>"]
  have new: "among q (trader_numbers (t\<lparr>tr_broker := b\<rparr>)) (owned s1 (owner_of_new (hs_order_calls s) k own) k)"
    using owned_new [OF s1(2, 4), of k own k] s1(3) by simp
  have "among q (trader_numbers u) (owned s1 (owner_of_new (hs_order_calls s) k own) j)" if "(j, u) \<in> set (hs_traders s1)" for j u
  proof (cases "j = k")
    case True
    then show ?thesis using that new by (auto simp: s1(1) put_item_set [OF ord])
  next
    case False
    then have "(j, u) \<in> set (hs_traders s)" using that by (auto simp: s1(1) put_item_set [OF ord])
    then show ?thesis using own owned_new [OF s1(2, 4), of k own j] False by auto
  qed
  moreover have "\<forall>(j, u) \<in> set (hs_traders s1). trader_ok q s1 j u"
    using assms(1) t n(1) gen(2) ord
    by (auto simp: s1 service_ok_def trader_ok_def put_item_set)
  moreover have "\<exists>u. map_of (hs_traders s1) (sint i) = Some u \<and> tr_name u = nm" if "(nm, i) \<in> set (hs_traders_nm s1)" for nm i
  proof -
    from that have "(nm, i) \<in> set (hs_traders_nm s)" by (simp add: s1)
    then obtain u where "map_of (hs_traders s) (sint i) = Some u" "tr_name u = nm"
      using assms(1) by (fastforce simp: service_ok_def)
    then show ?thesis using map_of_put [OF ord] assms(2) by (auto simp: s1)
  qed
  moreover have "ordered_items (hs_traders s1)" "ordered_items (hs_traders_nm s1)"
    using assms(1) ordered_put [OF ord] by (auto simp: service_ok_def s1)
  ultimately show ?thesis unfolding service_ok_def s1_def [symmetric] by blast
qed

lemma on_broker_ok:
  assumes "service_ok q s" "map_of (hs_traders s) k = Some t" "keeps_book f" "on_broker f k t s = Inr (r, s1)"
  shows "service_ok q s1"
proof -
  obtain b where b: "f (lend s (tr_broker t)) = Inr (r, b)" "s1 = put_broker k t b s"
    using assms(4) by (auto simp: on_broker_def rbind_eq_Inr)
  have "book_of (kind q) (lend s (tr_broker t))" using service_trader [OF assms(1, 2)] by (simp add: trader_ok_def)
  then have "broker_steps q (lend s (tr_broker t)) b" using assms(3) b(1) by (simp add: keeps_book_def)
  then show ?thesis unfolding b(2) by (rule put_broker_ok [OF assms(1, 2)])
qed

lemma trader_init_ok:
  assumes "trader_init i nm cash t = Inr (rc, u)" "book_of (kind q) (tr_broker t)"
  shows "tr_id u = i \<and> tr_name u = nm \<and> broker_steps q (tr_broker t) (tr_broker u)"
proof -
  define b where "b = broker_init (aw_new i nm) (tr_broker t)"
  obtain c where c: "(if tr_state t = 0 then rbind (deposit_cash cash False b) (\<lambda>(i, b). Inr b) else Inr b) = Inr c"
    "u = t\<lparr>tr_id := i, tr_name := nm, tr_broker := set_matchers c\<rparr>"
    using assms(1) by (auto simp: trader_init_def rbind_eq_Inr Let_def simp flip: b_def)
  have b: "book_of (kind q) b" "numbered (tr_broker t) b"
    using assms(2) by (simp_all add: b_def broker_init_def book_of_def numbered_same)
  have "broker_steps q b c"
    using c(1) b(1) keeps_book_ops(4) [of cash False]
    by (auto simp: keeps_book_def broker_steps_def rbind_eq_Inr numbered_same numbers_within_numbered split: if_splits)
  moreover have "book_of Q (set_matchers d) = book_of Q d" "numbered d (set_matchers d)" for d Q
    by (simp_all add: set_matchers_def set_matcher_def book_of_def numbered_same)
  ultimately have "book_of (kind q) (set_matchers c)" "numbers_within (tr_broker t) (set_matchers c)"
    "q \<longrightarrow> numbered (tr_broker t) (set_matchers c)"
    using b(2) unfolding broker_steps_def by (blast intro: numbers_within_trans numbers_within_numbered numbered_trans)+
  then show ?thesis using c(2) by (simp add: broker_steps_def)
qed

text \<open>
  What one step leads to: the generators stay, no identifier is taken back, and the order of the service is kept if
  the identifiers drawn are distinct.
\<close>

definition stays_ok :: "bool \<Rightarrow> HttpService \<Rightarrow> HttpService \<Rightarrow> bool" where
  "stays_ok q s s1 \<longleftrightarrow> hs_trader_gen s1 = hs_trader_gen s \<and> hs_order_gen s1 = hs_order_gen s \<and>
     hs_trader_calls s \<le> hs_trader_calls s1 \<and>
     (inj_on (hs_trader_gen s) {..< hs_trader_calls s1} \<longrightarrow> service_ok q s \<longrightarrow> service_ok q s1)"

lemma stays_ok_refl [simp]: "stays_ok q s s" by (simp add: stays_ok_def)

lemma stays_ok_trans: "stays_ok q a b \<Longrightarrow> stays_ok q b c \<Longrightarrow> stays_ok q a c"
  unfolding stays_ok_def by (auto intro: inj_on_subset)

lemma stays_ok_frame [simp]: "stays_ok q s (s\<lparr>hs_quotes := x\<rparr>)" "stays_ok q s (s\<lparr>hs_mdlink := p\<rparr>)"
  by (simp_all add: stays_ok_def service_ok_def trader_ok_def owned_def)

lemma create_trader_keeps:
  assumes "create_trader nm cash s = Inr (t, s1)"
  shows "stays_ok q s s1"
proof (cases "map_of (hs_traders_nm s) nm")
  case (Some i)
  then show ?thesis using assms by (auto simp: create_trader_def split: option.splits)
next
  case None
  let ?i = "hs_trader_gen s (hs_trader_calls s)"
  define t0 where "t0 = (trader_new (hs_clock s))
    \<lparr>tr_broker := lend s (set_order_id_generator (hs_order_gen s) (tr_broker (trader_new (hs_clock s))))\<rparr>"
  obtain rc where t: "trader_init ?i nm cash t0 = Inr (rc, t)"
    and s1: "s1 = (give_back (tr_broker t) s)\<lparr>hs_trader_calls := Suc (hs_trader_calls s),
      hs_traders := put_item (sint ?i, t) (hs_traders s), hs_traders_nm := put_item (nm, ?i) (hs_traders_nm s)\<rparr>"
    using assms None by (auto simp: create_trader_def rbind_eq_Inr Let_def t0_def)
  have t0: "book_of Q (tr_broker t0)" "trader_numbers t0 = []" "cb_order_id_gen (tr_broker t0) = Some (hs_order_gen s)"
    "lend s (tr_broker t0) = tr_broker t0" for Q
    using broker_start_ok [of _ "hs_clock s"]
    by (simp_all add: t0_def lend_def trader_new_def set_order_id_generator_def book_of_def trader_numbers_def
        current_orders_def broker_new_def)
  have ti: "tr_id t = ?i" "tr_name t = nm" and bs: "broker_steps q (tr_broker t0) (tr_broker t)"
    using trader_init_ok [OF t t0(1)] by auto
  have calls: "hs_order_gen s1 = hs_order_gen s" "hs_order_calls s1 = cb_ids (tr_broker t)" "hs_order_calls s \<le> hs_order_calls s1"
    "cb_order_id_gen (tr_broker t) = Some (hs_order_gen s)"
    using bs t0(3) t0(4) by (auto simp: s1 give_back_def broker_steps_def numbers_within_def t0_def)
  have "service_ok q s1" if ok: "service_ok q s" and inj: "inj_on (hs_trader_gen s) {..< Suc (hs_trader_calls s)}"
  proof -
    have ord: "ordered_items (hs_traders s)" "ordered_items (hs_traders_nm s)" using ok by (simp_all add: service_ok_def)
    have new: "tr_id u \<noteq> ?i" if "trader_ok q s k u" for k u
    proof -
      from that have "tr_id u \<in> hs_trader_gen s ` {..< hs_trader_calls s}" by (simp add: trader_ok_def)
      then obtain j where "j < hs_trader_calls s" "tr_id u = hs_trader_gen s j" by blast
      then show ?thesis using inj_onD [OF inj, of j "hs_trader_calls s"] by auto
    qed
    then have none: "map_of (hs_traders s) (sint ?i) = None"
    proof (cases "map_of (hs_traders s) (sint ?i)")
      case (Some u)
      note u = service_trader [OF ok Some]
      have "sint ?i = sint (tr_id u)" using u unfolding trader_ok_def by blast
      then have "?i = tr_id u" by (rule sint_eqD)
      then show ?thesis using new [OF u] by metis
    qed
    obtain own where own: "\<forall>(j, u) \<in> set (hs_traders s). among q (trader_numbers u) (owned s own j)"
      using ok by (auto simp: service_ok_def)
    let ?own = "owner_of_new (hs_order_calls s) (sint ?i) own"
    have "among q (trader_numbers t0) (owned s own (sint ?i))" by (simp add: among_def t0(2))
    from among_more [OF this, of s "tr_broker t" "hs_order_gen s" t]
    have "among q (trader_numbers t) (owned s1 ?own (sint ?i))"
      using bs t0(3, 4) owned_new [OF calls(1, 3), of "sint ?i" own "sint ?i"] calls(2) by (simp add: broker_steps_def)
    moreover have "among q (trader_numbers u) (owned s1 ?own j)" if "(j, u) \<in> set (hs_traders s)" for j u
    proof -
      have "map_of (hs_traders s) j = Some u" using that ord(1) by (simp add: ordered_items_def strict_sorted_iff)
      then have "j \<noteq> sint ?i" using none by auto
      then show ?thesis using own that owned_new [OF calls(1, 3), of "sint ?i" own j] by auto
    qed
    ultimately have nums: "\<forall>(j, u) \<in> set (hs_traders s1). among q (trader_numbers u) (owned s1 ?own j)"
      by (auto simp: s1 put_item_set [OF ord(1)])
    have "\<forall>(k, u) \<in> set (hs_traders s1). trader_ok q s1 k u"
    proof -
      have "trader_ok q s1 k u" if "(k, u) \<in> set (hs_traders s)" for k u
      proof -
        have u: "trader_ok q s k u" using ok that by (auto simp: service_ok_def)
        then show ?thesis
          using map_of_put [OF ord(2)] None by (auto simp: trader_ok_def s1 give_back_def)
      qed
      moreover have "trader_ok q s1 (sint ?i) t"
        using ti bs calls(4) by (auto simp: trader_ok_def s1 give_back_def broker_steps_def)
      ultimately show ?thesis by (auto simp: s1 put_item_set [OF ord(1)])
    qed
    moreover have "\<exists>u. map_of (hs_traders s1) (sint i) = Some u \<and> tr_name u = n"
      if "(n, i) \<in> set (hs_traders_nm s1)" for n i
    proof (cases "n = nm")
      case True
      then show ?thesis
        using that ti(2) by (auto simp: s1 put_item_set [OF ord(2)] map_of_put [OF ord(1)])
    next
      case False
      then have "(n, i) \<in> set (hs_traders_nm s)" using that by (simp add: s1 put_item_set [OF ord(2)])
      then obtain u where "map_of (hs_traders s) (sint i) = Some u" "tr_name u = n"
        using ok by (fastforce simp: service_ok_def)
      then show ?thesis using none by (auto simp: s1 map_of_put [OF ord(1)])
    qed
    moreover have "ordered_items (hs_traders s1)" "ordered_items (hs_traders_nm s1)"
      using ordered_put [OF ord(1)] ordered_put [OF ord(2)] by (auto simp: s1)
    ultimately show ?thesis using nums unfolding service_ok_def by blast
  qed
  then show ?thesis by (simp add: stays_ok_def s1 give_back_def)
qed

lemma delete_trader_keeps: "stays_ok q s (snd (delete_trader i s))"
proof (cases "map_of (hs_traders s) (sint i)")
  case (Some t)
  define s1 where "s1 = snd (delete_trader i s)"
  have s1: "s1 = s\<lparr>hs_traders_nm := delete_item (tr_name t) (hs_traders_nm s),
      hs_traders := delete_item (sint i) (hs_traders s)\<rparr>"
    using Some by (simp add: s1_def delete_trader_def)
  have "service_ok q s1" if ok: "service_ok q s"
  proof -
    have ord: "ordered_items (hs_traders s)" "ordered_items (hs_traders_nm s)" using ok by (simp_all add: service_ok_def)
    note t = service_trader [OF ok Some]
    have "\<exists>own. \<forall>(k, u) \<in> set (hs_traders s1). among q (trader_numbers u) (owned s1 own k)"
      using ok by (force simp: service_ok_def s1 owned_def delete_item_def)
    moreover have "\<forall>(k, u) \<in> set (hs_traders s1). trader_ok q s1 k u"
    proof -
      have "trader_ok q s1 k u" if "(k, u) \<in> set (hs_traders s1)" for k u
      proof -
        have u: "k \<noteq> sint i" "trader_ok q s k u"
          using that ok by (auto simp: s1 delete_item_def service_ok_def)
        then have "tr_name u \<noteq> tr_name t" using t by (auto simp: trader_ok_def)
        then show ?thesis using u(2) map_of_delete [OF ord(2)] by (simp add: trader_ok_def s1)
      qed
      then show ?thesis by auto
    qed
    moreover have "\<exists>u. map_of (hs_traders s1) (sint j) = Some u \<and> tr_name u = n"
      if "(n, j) \<in> set (hs_traders_nm s1)" for n j
    proof -
      have n: "n \<noteq> tr_name t" "(n, j) \<in> set (hs_traders_nm s)" using that by (auto simp: s1 delete_item_def)
      then obtain u where u: "map_of (hs_traders s) (sint j) = Some u" "tr_name u = n"
        using ok by (fastforce simp: service_ok_def)
      then have "sint j \<noteq> sint i" using n(1) Some by auto
      then show ?thesis using u map_of_delete [OF ord(1)] by (simp add: s1)
    qed
    moreover have "ordered_items (hs_traders s1)" "ordered_items (hs_traders_nm s1)"
      using ordered_delete [OF ord(1)] ordered_delete [OF ord(2)] by (auto simp: s1)
    ultimately show ?thesis unfolding service_ok_def by blast
  qed
  then show ?thesis by (simp add: stays_ok_def s1 flip: s1_def)
qed (simp add: delete_trader_def)

lemma on_broker_keeps:
  assumes "on_broker f k t s = Inr (r, s1)" "map_of (hs_traders s) k = Some t" "keeps_book f"
  shows "stays_ok q s s1"
  using assms on_broker_ok [OF _ assms(2, 3, 1)]
  by (auto simp: stays_ok_def on_broker_def put_broker_def rbind_eq_Inr give_back_def)

lemma enter_order_keeps: "enter_order req s = Inr (i, s1) \<Longrightarrow> stays_ok q s s1"
  by (auto simp: enter_order_def get_trader_def keeps_book_ops dest: on_broker_keeps split: option.splits if_splits)

lemma cancel_order_keeps: "service_cancel_order tid oid s = Inr (i, s1) \<Longrightarrow> stays_ok q s s1"
  by (auto simp: service_cancel_order_def get_trader_def keeps_book_ops dest: on_broker_keeps split: option.splits)

text \<open>A tick keeps it too, and one that throws keeps what is left of it.\<close>

lemma put_broker_keeps:
  assumes "map_of (hs_traders s) k = Some t" "book_of (kind q) (tr_broker t) \<Longrightarrow> broker_steps q (lend s (tr_broker t)) b"
  shows "stays_ok q s (put_broker k t b s)"
proof -
  have "service_ok q (put_broker k t b s)" if "service_ok q s"
    using put_broker_ok [OF that assms(1) assms(2)] service_trader [OF that assms(1)] by (simp add: trader_ok_def)
  then show ?thesis by (simp add: stays_ok_def put_broker_def give_back_def)
qed

lemma tick_broker_keeps:
  assumes "map_of (hs_traders s) k = Some t"
  shows "tick_broker x k t s = Inr s1 \<Longrightarrow> stays_ok q s s1"
    "tick_broker x k t s = Inl (e, s1) \<Longrightarrow> thrown e \<Longrightarrow> stays_ok False s s1"
proof -
  show "stays_ok q s s1" if "tick_broker x k t s = Inr s1"
    using that
    by (auto simp: tick_broker_def rbind_eq_Inr intro!: put_broker_keeps [OF assms] tick_steps(1) [of x])
  show "stays_ok False s s1" if "tick_broker x k t s = Inl (e, s1)" "thrown e"
    using that
    by (auto simp: tick_broker_def rbind_eq_Inl left_Inl intro!: put_broker_keeps [OF assms] tick_steps(2) [of x _ e])
qed

definition run_keeps :: "bool \<Rightarrow> HttpService \<Rightarrow> (HttpService, HttpService) run \<Rightarrow> bool" where
  "run_keeps q s m \<longleftrightarrow> (\<forall>s1. m = Inr s1 \<longrightarrow> stays_ok q s s1) \<and>
     (\<forall>e s1. m = Inl (e, s1) \<longrightarrow> thrown e \<longrightarrow> stays_ok False s s1)"

lemma run_keeps_Inr [simp]: "run_keeps q s (Inr s1) = stays_ok q s s1" by (simp add: run_keeps_def)

lemma run_keeps_after: "stays_ok q a b \<Longrightarrow> stays_ok False a b \<Longrightarrow> run_keeps q b m \<Longrightarrow> run_keeps q a m"
  using stays_ok_trans unfolding run_keeps_def by blast

lemma tick_traders_keeps: "run_keeps q s (tick_traders x ks s)"
proof (induction x ks s rule: tick_traders.induct)
  case (2 x k ks s)
  show ?case
  proof (cases "map_of (hs_traders s) k")
    case None
    then show ?thesis using 2 by simp
  next
    case (Some t)
    show ?thesis
    proof (cases "tick_broker x k t s")
      case (Inl y)
      then show ?thesis
        using Some tick_broker_keeps(2) [OF Some] by (cases y) (simp add: run_keeps_def)
    next
      case (Inr s1)
      have "run_keeps q s1 (tick_traders x ks s1)" using 2(2) Some by blast
      then have "run_keeps q s (tick_traders x ks s1)"
        using run_keeps_after [OF tick_broker_keeps(1) [OF Some Inr] tick_broker_keeps(1) [OF Some Inr]] by blast
      then show ?thesis using Some Inr by simp
    qed
  qed
qed simp

lemma quotes_callback_keeps: "run_keeps q s (rbind (quotes_callback x s) (\<lambda>(r, s1). Inr s1))"
proof -
  let ?s = "s\<lparr>hs_quotes := put_item (ct_symbol x, x) (hs_quotes s)\<rparr>"
  have "rbind (quotes_callback x s) (\<lambda>(r, s1). Inr s1) = tick_traders x (map fst (hs_traders s)) ?s"
    by (cases "tick_traders x (map fst (hs_traders s)) ?s") (simp_all add: quotes_callback_def)
  then show ?thesis
    using run_keeps_after [OF stays_ok_frame(1) stays_ok_frame(1) tick_traders_keeps] by simp
qed

lemma service_quote_keeps: "run_keeps q s (rbind (service_quote x s) (\<lambda>(r, s1). Inr s1))"
proof -
  obtain fwd p where p: "on_quote x (hs_mdlink s) = (fwd, p)" by fastforce
  let ?s = "s\<lparr>hs_mdlink := p\<rparr>"
  have "rbind (service_quote x s) (\<lambda>(r, s1). Inr s1) =
      (if fwd then rbind (quotes_callback x ?s) (\<lambda>(r, s1). Inr s1) else Inr ?s)"
    by (cases "quotes_callback x ?s") (auto simp: service_quote_def p)
  then show ?thesis
    using run_keeps_after [OF stays_ok_frame(2) stays_ok_frame(2) quotes_callback_keeps] by simp
qed

text \<open>Invariants of the loops of a job, for what they return and for what an exception leaves.\<close>

definition outcome :: "('a \<Rightarrow> bool) \<Rightarrow> ('s \<Rightarrow> bool) \<Rightarrow> ('s, 'a) run \<Rightarrow> bool" where
  "outcome P R m \<longleftrightarrow> (\<forall>x. m = Inr x \<longrightarrow> P x) \<and> (\<forall>e s. m = Inl (e, s) \<longrightarrow> thrown e \<longrightarrow> R s)"

lemma outcome_Inr [simp]: "outcome P R (Inr x) = P x" by (simp add: outcome_def)

lemma outcome_fault [simp]: "outcome P R (Inl (MemFault, s))" by (simp add: outcome_def)

lemma outcome_bind: "outcome Q R m \<Longrightarrow> (\<And>x. Q x \<Longrightarrow> outcome P R (f x)) \<Longrightarrow> outcome P R (rbind m f)"
  by (cases m) (simp_all add: outcome_def)

lemma outcome_at: "R s \<Longrightarrow> outcome (\<lambda>x. True) R (left_at s m)"
  by (auto simp: outcome_def left_Inl)

lemma each_line_inv:
  assumes "\<And>q x. P x \<Longrightarrow> outcome (\<lambda>(r, y). P y) R (fn q x)" "\<And>x. P x \<Longrightarrow> R x"
  shows "P st \<Longrightarrow> outcome P R (each_line api atof fn ls st)"
proof (induction ls arbitrary: st)
  case (Cons l ls)
  have step: "outcome P R (case q of None \<Rightarrow> each_line api atof fn ls st
      | Some q \<Rightarrow> rbind (fn q st) (\<lambda>(more, st). if more then each_line api atof fn ls st else Inr st))" for q
  proof (cases q)
    case (Some x)
    show ?thesis
      unfolding Some option.case
      by (rule outcome_bind [OF assms(1) [OF Cons.prems]]) (use Cons.IH in \<open>auto split: if_splits\<close>)
  qed (simp add: Cons)
  have "outcome P R (each_line api atof fn (l # ls) st)" if "text_starts_with l (line_prefix api)"
    using that
    by simp
      (rule outcome_bind [OF outcome_at], rule assms(2) [OF Cons.prems], rule step)
  then show ?case using Cons by (cases "text_starts_with l (line_prefix api)") simp_all
qed simp

lemma get_by_url_inv:
  assumes "\<And>q x. P x \<Longrightarrow> outcome (\<lambda>(r, y). P y) R (fn q x)" "\<And>x. P x \<Longrightarrow> R x" "P st"
  shows "outcome (\<lambda>(rc, y). P y) R (get_quotes_by_url api atof http fn url st)"
proof -
  obtain err status body where h: "http url = (err, status, body)" by (metis prod_cases3)
  have "outcome (\<lambda>(rc, y). P y) R (rbind (each_line a atof fn ls st) (\<lambda>st. Inr (0 :: int, st)))" for a ls
    by (rule outcome_bind [OF each_line_inv [OF assms]]) (simp_all add: assms)
  then show ?thesis using assms(3) by (simp add: get_quotes_by_url_def h)
qed

lemma get_pages_inv:
  assumes "\<And>q x. P x \<Longrightarrow> outcome (\<lambda>(r, y). P y) R (fn q x)" "\<And>x. P x \<Longrightarrow> R x"
  shows "P st \<Longrightarrow> outcome P R (get_pages api atof http fn us st)"
proof (induction us arbitrary: st)
  case (Cons u us)
  show ?case
    unfolding get_pages.simps
    by (rule outcome_bind [OF get_by_url_inv [where P = P, OF assms Cons.prems]]) (use Cons.IH in auto)
qed simp

lemma run_keeps_outcome:
  "run_keeps q s m \<longleftrightarrow> outcome (stays_ok q s) (stays_ok False s) m"
  by (simp add: run_keeps_def outcome_def)

lemma run_job_keeps: "run_keeps q s (run_job atof http s)"
proof -
  define P where "P x \<longleftrightarrow> stays_ok q s x \<and> stays_ok False s x" for x
  have one: "outcome (\<lambda>(r, y). P y) (stays_ok False s) (service_quote x z)" if "P z" for x z
  proof -
    have "run_keeps r z (rbind (service_quote x z) (\<lambda>(r, s1). Inr s1))" for r by (rule service_quote_keeps)
    then have "outcome (\<lambda>(r, y). stays_ok q z y \<and> stays_ok False z y) (stays_ok False z) (service_quote x z)"
      unfolding run_keeps_def by (cases "service_quote x z") (auto simp: outcome_def)
    then show ?thesis using that stays_ok_trans by (fastforce simp: outcome_def P_def)
  qed
  have "outcome P (stays_ok False s) (get_pages api atof http service_quote us (s\<lparr>hs_mdlink := p\<rparr>))" for api us p
    by (rule get_pages_inv [OF one]) (simp_all add: P_def)
  then have "outcome P (stays_ok False s) (rbind (get_quotes api atof http codes service_quote (s\<lparr>hs_mdlink := p\<rparr>)) (\<lambda>(rc, s1). Inr s1))"
    for api codes p
    unfolding get_quotes_def
    by (cases "get_pages api atof http service_quote (map (page_url api codes) [0 ..< page_num codes]) (s\<lparr>hs_mdlink := p\<rparr>)")
      (auto simp: outcome_def)
  then have "outcome P (stays_ok False s) (run_job atof http s)"
    by (auto simp: run_job_def P_def split: option.splits list.splits)
  then show ?thesis by (auto simp: run_keeps_outcome outcome_def P_def)
qed

lemma do_run_keeps: "run_keeps q s (do_run op' s)"
proof -
  have res: "run_keeps q s (left_at s m)" if "\<And>s1. m = Inr s1 \<Longrightarrow> stays_ok q s s1" for m
    using that by (simp add: run_keeps_def left_Inl)
  show ?thesis
    by (cases op')
      (auto simp: rbind_eq_Inr service_get_quotes_def subscribe_quotes_def delete_trader_keeps run_job_keeps service_quote_keeps
        intro!: res intro: create_trader_keeps enter_order_keeps cancel_order_keeps)
qed

lemma calm_keeps: "calm s s1 \<Longrightarrow> stays_ok True s s1"
proof (induction rule: calm.induct)
  case (step s1 op' s2)
  then show ?case using do_run_keeps [of True s1 op'] stays_ok_trans by (auto simp: run_keeps_def)
qed simp

lemma do_service_keeps: "do_service op' s = Inr s1 \<Longrightarrow> stays_ok False s s1"
  using do_run_keeps [of False s op']
  by (auto simp: do_service_def swallow_def run_keeps_def split: sum.splits if_splits)

lemma serves_keeps: "serves s s1 \<Longrightarrow> stays_ok False s s1"
  by (induction rule: serves.induct) (auto intro: stays_ok_trans do_service_keeps)

lemma do_run_service: "do_run op' s = Inr s1 \<Longrightarrow> do_service op' s = Inr s1"
  by (simp add: do_service_def swallow_def)

lemma calm_serves: "calm s s1 \<Longrightarrow> serves s s1"
  by (induction rule: calm.induct) (auto intro: serves.start serves.step do_run_service)

lemma service_new_ok: "service_ok q (service_new tgen ogen clk)"
  by (simp add: service_new_def service_ok_def)

lemma serves_ok:
  assumes "serves (service_new tgen ogen clk) s" "inj_on tgen {..< hs_trader_calls s}"
  shows "service_ok False s \<and> hs_trader_gen s = tgen \<and> hs_order_gen s = ogen"
proof -
  have "hs_trader_gen (service_new tgen ogen clk) = tgen" "hs_order_gen (service_new tgen ogen clk) = ogen"
    by (simp_all add: service_new_def)
  then show ?thesis using serves_keeps [OF assms(1)] assms(2) service_new_ok by (auto simp: stays_ok_def)
qed

lemma calm_ok:
  assumes "calm (service_new tgen ogen clk) s" "inj_on tgen {..< hs_trader_calls s}"
  shows "service_ok True s"
proof -
  have "hs_trader_gen (service_new tgen ogen clk) = tgen" by (simp add: service_new_def)
  then show ?thesis using calm_keeps [OF assms(1)] assms(2) service_new_ok by (auto simp: stays_ok_def)
qed

text \<open>
  C15. Traders and their names. In every state the service comes to with distinct identifiers, each trader is found
  under its own identifier and under its own name, what is found under a name has that name, and
  creating a trader with a name already taken gives the trader that has it and changes nothing.
\<close>

theorem service_names:
  assumes "serves (service_new tgen ogen clk) s" "inj_on tgen {..< hs_trader_calls s}"
  shows "(\<forall>i t. get_trader i s = Some t \<longrightarrow> tr_id t = i \<and> get_trader_by_name (tr_name t) s = Some t) \<and>
    (\<forall>nm t. get_trader_by_name nm s = Some t \<longrightarrow>
      tr_name t = nm \<and> get_trader (tr_id t) s = Some t \<and> (\<forall>cash. create_trader nm cash s = Inr (t, s))) \<and>
    (\<forall>nm. get_trader_by_name nm s = None \<longrightarrow> map_of (hs_traders_nm s) nm = None)"
proof -
  have ok: "service_ok False s" using serves_ok [OF assms] by simp
  have by_id: "tr_id t = i \<and> get_trader_by_name (tr_name t) s = Some t" if "get_trader i s = Some t" for i t
  proof -
    have "trader_ok False s (sint i) t" using service_trader [OF ok] that by (simp add: get_trader_def)
    then have "i = tr_id t" "map_of (hs_traders_nm s) (tr_name t) = Some (tr_id t)"
      by (auto simp: trader_ok_def intro: sint_eqD)
    then show ?thesis using that by (simp add: get_trader_def get_trader_by_name_def)
  qed
  have entry: "\<exists>t. get_trader_by_name nm s = Some t \<and> tr_name t = nm" if "map_of (hs_traders_nm s) nm = Some i" for nm i
    using map_of_SomeD [OF that] ok that by (fastforce simp: service_ok_def get_trader_by_name_def)
  have by_name: "tr_name t = nm \<and> get_trader (tr_id t) s = Some t \<and> create_trader nm cash s = Inr (t, s)"
    if n: "get_trader_by_name nm s = Some t" for nm t cash
  proof -
    obtain i where i: "map_of (hs_traders_nm s) nm = Some i" "map_of (hs_traders s) (sint i) = Some t"
      using n by (auto simp: get_trader_by_name_def split: option.splits)
    then have "get_trader i s = Some t" by (simp add: get_trader_def)
    then show ?thesis using by_id entry [OF i(1)] n i by (auto simp: create_trader_def)
  qed
  have "map_of (hs_traders_nm s) nm = None" if "get_trader_by_name nm s = None" for nm
    using entry [of nm] that by (cases "map_of (hs_traders_nm s) nm") auto
  then show ?thesis using by_id by_name by blast
qed

lemma distinct_owned:
  assumes "distinct (map fst its)" "\<forall>(k, t) \<in> set its. distinct (f t) \<and> set (f t) \<subseteq> N k" "\<forall>k j. k \<noteq> j \<longrightarrow> N k \<inter> N j = {}"
  shows "distinct (concat (map (\<lambda>x. f (snd x)) its))"
  using assms(1, 2)
proof (induction its)
  case (Cons x its)
  have "set (f (snd x)) \<inter> set (f (snd y)) = {}" if "y \<in> set its" for y
  proof -
    have "fst x \<noteq> fst y" using Cons.prems(1) that by auto
    moreover have "set (f (snd x)) \<subseteq> N (fst x)" "set (f (snd y)) \<subseteq> N (fst y)"
      using Cons.prems(2) that by (auto simp: case_prod_unfold)
    ultimately show ?thesis using assms(3) by blast
  qed
  then show ?case using Cons by (auto simp: case_prod_unfold)
qed simp

lemma owned_disjoint:
  assumes "inj_on (hs_order_gen s) {..< hs_order_calls s}"
  shows "distinct (owned s own k)" "k \<noteq> j \<Longrightarrow> set (owned s own k) \<inter> set (owned s own j) = {}"
proof -
  show "distinct (owned s own k)"
    using assms by (auto simp: owned_def distinct_map intro: inj_on_subset)
  show "set (owned s own k) \<inter> set (owned s own j) = {}" if "k \<noteq> j"
    using inj_onD [OF assms] that by (fastforce simp: owned_def)
qed


text \<open>A call on a broker changes its trader only, and its broker but for the shared counters as the call does.\<close>

lemma on_broker_others:
  assumes "on_broker f k t s = Inr (r, s1)" "ordered_items (hs_traders s)"
  shows "\<exists>b. f (lend s (tr_broker t)) = Inr (r, b) \<and> map_of (hs_traders s1) = (map_of (hs_traders s))(k \<mapsto> t\<lparr>tr_broker := b\<rparr>) \<and>
    ordered_items (hs_traders s1) \<and> hs_traders_nm s1 = hs_traders_nm s \<and> hs_quotes s1 = hs_quotes s \<and>
    hs_mdlink s1 = hs_mdlink s"
  using assms
  by (auto simp: on_broker_def put_broker_def rbind_eq_Inr give_back_def map_of_put ordered_put)

lemma tick_broker_others:
  assumes "tick_broker q k t s = Inr s1" "ordered_items (hs_traders s)"
  shows "\<exists>b. on_tick q (lend s (tr_broker t)) = Inr b \<and> map_of (hs_traders s1) = (map_of (hs_traders s))(k \<mapsto> t\<lparr>tr_broker := b\<rparr>) \<and>
    ordered_items (hs_traders s1) \<and> hs_traders_nm s1 = hs_traders_nm s \<and> hs_quotes s1 = hs_quotes s \<and>
    hs_mdlink s1 = hs_mdlink s"
  using assms
  by (auto simp: tick_broker_def put_broker_def rbind_eq_Inr give_back_def map_of_put ordered_put)

lemma tick_traders_all:
  assumes "tick_traders q ks s = Inr s1" "ordered_items (hs_traders s)" "distinct ks" "set ks \<subseteq> dom (map_of (hs_traders s))"
  shows "(\<forall>k t. map_of (hs_traders s) k = Some t \<longrightarrow>
      (if k \<in> set ks then \<exists>n m b. on_tick q ((tr_broker t)\<lparr>cb_ids := n, cb_clock_calls := m\<rparr>) = Inr b \<and>
          map_of (hs_traders s1) k = Some (t\<lparr>tr_broker := b\<rparr>)
       else map_of (hs_traders s1) k = Some t)) \<and>
    dom (map_of (hs_traders s1)) = dom (map_of (hs_traders s)) \<and> hs_traders_nm s1 = hs_traders_nm s \<and>
    hs_quotes s1 = hs_quotes s \<and> hs_mdlink s1 = hs_mdlink s"
  using assms
proof (induction ks arbitrary: s)
  case (Cons k ks)
  then obtain t where t: "map_of (hs_traders s) k = Some t" by auto
  obtain s2 where s2: "tick_broker q k t s = Inr s2" "tick_traders q ks s2 = Inr s1"
    using Cons.prems(1) t by (auto simp: rbind_eq_Inr)
  obtain b where b: "on_tick q (lend s (tr_broker t)) = Inr b"
    "map_of (hs_traders s2) = (map_of (hs_traders s))(k \<mapsto> t\<lparr>tr_broker := b\<rparr>)"
    "ordered_items (hs_traders s2)" "hs_traders_nm s2 = hs_traders_nm s" "hs_quotes s2 = hs_quotes s"
    "hs_mdlink s2 = hs_mdlink s"
    using tick_broker_others [OF s2(1) Cons.prems(2)] by auto
  have ks: "distinct ks" "k \<notin> set ks" "set ks \<subseteq> dom (map_of (hs_traders s2))"
    using Cons.prems(3, 4) b(2) by auto
  note IH = Cons.IH [OF s2(2) b(3) ks(1, 3)]
  have on: "on_tick q ((tr_broker t)\<lparr>cb_ids := hs_order_calls s, cb_clock_calls := hs_clock_calls s\<rparr>) = Inr b"
    using b(1) by (simp add: lend_def)
  have first: "map_of (hs_traders s1) k = Some (t\<lparr>tr_broker := b\<rparr>)" using IH ks(2) b(2) by auto
  have "dom (map_of (hs_traders s2)) = dom (map_of (hs_traders s))" using b(2) t by auto
  then have dom: "dom (map_of (hs_traders s1)) = dom (map_of (hs_traders s))" using IH by simp
  have "if j \<in> set (k # ks) then \<exists>n m c. on_tick q ((tr_broker x)\<lparr>cb_ids := n, cb_clock_calls := m\<rparr>) = Inr c \<and>
        map_of (hs_traders s1) j = Some (x\<lparr>tr_broker := c\<rparr>)
      else map_of (hs_traders s1) j = Some x"
    if x: "map_of (hs_traders s) j = Some x" for j x
  proof (cases "j = k")
    case True
    then show ?thesis using x t on first by auto
  next
    case False
    then have "map_of (hs_traders s2) j = Some x" using x b(2) by simp
    then show ?thesis using IH False by simp
  qed
  then show ?case using dom IH b(4, 5, 6) by (intro conjI allI impI) simp_all
qed simp

text \<open>
  C17. A quote reaches every trader. When the callback returns for a quote, it is the newest of its security, every
  trader is there as before with the broker that one \<open>on_tick\<close> of this quote makes of its old one, and no trader is added
  or lost; names and the market link are untouched.
\<close>

theorem quote_reaches_all:
  assumes "serves (service_new tgen ogen clk) s" "inj_on tgen {..< hs_trader_calls s}" "quotes_callback q s = Inr (r, s1)"
  shows "r \<and> map_of (hs_quotes s1) (ct_symbol q) = Some q \<and>
    (\<forall>i t. get_trader i s = Some t \<longrightarrow>
      (\<exists>n m b. on_tick q ((tr_broker t)\<lparr>cb_ids := n, cb_clock_calls := m\<rparr>) = Inr b \<and>
        get_trader i s1 = Some (t\<lparr>tr_broker := b\<rparr>))) \<and>
    (\<forall>i. get_trader i s = None \<longrightarrow> get_trader i s1 = None) \<and>
    hs_traders_nm s1 = hs_traders_nm s \<and> hs_mdlink s1 = hs_mdlink s"
proof -
  define s0 where "s0 = s\<lparr>hs_quotes := put_item (ct_symbol q, q) (hs_quotes s)\<rparr>"
  have "ordered_items (hs_traders s)" using serves_ok [OF assms(1, 2)] by (simp add: service_ok_def)
  then have o: "ordered_items (hs_traders s0)" "distinct (map fst (hs_traders s0))" "hs_traders s0 = hs_traders s"
    by (simp_all add: s0_def ordered_items_def strict_sorted_iff)
  have T: "tick_traders q (map fst (hs_traders s0)) s0 = Inr s1" and r: r
    using assms(3) by (auto simp: quotes_callback_def rbind_eq_Inr s0_def)
  have "set (map fst (hs_traders s0)) \<subseteq> dom (map_of (hs_traders s0))" by (simp add: dom_map_of_conv_image_fst)
  from tick_traders_all [OF T o(1, 2) this]
  have all: "\<forall>k t. map_of (hs_traders s) k = Some t \<longrightarrow>
      (if k \<in> set (map fst (hs_traders s)) then \<exists>n m b. on_tick q ((tr_broker t)\<lparr>cb_ids := n, cb_clock_calls := m\<rparr>) = Inr b \<and>
          map_of (hs_traders s1) k = Some (t\<lparr>tr_broker := b\<rparr>)
       else map_of (hs_traders s1) k = Some t)"
    and rest: "dom (map_of (hs_traders s1)) = dom (map_of (hs_traders s))" "hs_traders_nm s1 = hs_traders_nm s"
      "hs_quotes s1 = hs_quotes s0" "hs_mdlink s1 = hs_mdlink s"
    by (simp_all only: o(3)) (simp_all add: s0_def)
  have "k \<in> set (map fst (hs_traders s))" if "map_of (hs_traders s) k = Some t" for k t
    using map_of_SomeD [OF that] by force
  then have "\<exists>n m b. on_tick q ((tr_broker t)\<lparr>cb_ids := n, cb_clock_calls := m\<rparr>) = Inr b \<and>
      get_trader i s1 = Some (t\<lparr>tr_broker := b\<rparr>)" if "get_trader i s = Some t" for i t
    using all that by (auto simp: get_trader_def)
  moreover have "get_trader i s1 = None" if "get_trader i s = None" for i
    using rest(1) that unfolding get_trader_def by (metis domIff)
  ultimately show ?thesis using r rest by (auto simp: s0_def)
qed

section \<open>A run\<close>

fun do_services :: "service_op list \<Rightarrow> HttpService \<Rightarrow> HttpService res" where
  "do_services [] s = Inr s"
| "do_services (x # xs) s = rbind (do_service x s) (do_services xs)"

lemma do_services_serves: "do_services xs s = Inr s1 \<Longrightarrow> serves a s \<Longrightarrow> serves a s1"
  by (induction xs arbitrary: s) (auto simp: rbind_eq_Inr intro: serves.step)

fun do_runs :: "service_op list \<Rightarrow> HttpService \<Rightarrow> (HttpService, HttpService) run" where
  "do_runs [] s = Inr s"
| "do_runs (x # xs) s = rbind (do_run x s) (do_runs xs)"

lemma do_runs_calm: "do_runs xs s = Inr s1 \<Longrightarrow> calm a s \<Longrightarrow> calm a s1"
  by (induction xs arbitrary: s) (auto simp: rbind_eq_Inr intro: calm.step)

lemma do_runs_services: "do_runs xs s = Inr s1 \<Longrightarrow> do_services xs s = Inr s1"
  by (induction xs arbitrary: s) (auto simp: rbind_eq_Inr dest: do_run_service)

text \<open>Two traders buy ten shares each, of which the quote fills four; a third is deleted before.\<close>

definition demo_request :: "i64 \<Rightarrow> TradeOrderRequest" where
  "demo_request i = \<lparr>rq_trader_id = i, rq_symbol = demo_sym, rq_side = 1, rq_quantity = d_of_int 10, rq_price = d0\<rparr>"

definition demo_service :: HttpService where
  "demo_service = service_new demo_ids demo_ids demo_clock"

definition demo_requests :: "service_op list" where
  "demo_requests = [SCreate [0x61] (d_of_int 1000), SCreate [0x62] (d_of_int 1000), SCreate [0x63] (d_of_int 1000),
     SDelete 1000001, SEnter (demo_request 1000000), SEnter (demo_request 1000002), SQuote (demo_tick 10 4)]"

lemma demo_calm: "case do_runs demo_requests demo_service of Inl _ \<Rightarrow> False
   | Inr s \<Rightarrow> hs_trader_calls s = 3 \<and> hs_order_calls s = 7 \<and>
     map (\<lambda>(k, t). (tr_id t, map co_order_id (current_orders (tr_broker t)))) (hs_traders s) =
       [(1000000, [1000000, 1000003, 1000005]), (1000002, [1000002, 1000004, 1000006])] \<and>
     hs_traders_nm s = [([0x61], 1000000), ([0x63], 1000002)]"
  by code_simp

lemma demo_run:
  obtains s where "do_services demo_requests demo_service = Inr s" "calm demo_service s" "hs_trader_calls s = 3" "hs_order_calls s = 7"
    "map (\<lambda>(k, t). (tr_id t, map co_order_id (current_orders (tr_broker t)))) (hs_traders s) =
       [(1000000, [1000000, 1000003, 1000005]), (1000002, [1000002, 1000004, 1000006])]"
    "hs_traders_nm s = [([0x61], 1000000), ([0x63], 1000002)]"
  using demo_calm do_runs_services do_runs_calm calm.start by (auto split: sum.splits)

lemma demo_distinct: "n \<le> 7 \<Longrightarrow> inj_on demo_ids {..< n}"
  by (rule inj_on_subset [of _ "{0, 1, 2, 3, 4, 5, 6}"]) (auto simp: inj_on_def demo_ids_def)

theorem service_names_witness:
  "\<exists>s t. do_services demo_requests demo_service = Inr s \<and> get_trader_by_name [0x61] s = Some t \<and>
     tr_id t = 1000000 \<and> get_trader 1000000 s = Some t \<and> get_trader_by_name [0x62] s = None"
proof -
  obtain s where s: "do_services demo_requests demo_service = Inr s" "hs_trader_calls s = 3"
    "hs_traders_nm s = [([0x61], 1000000), ([0x63], 1000002)]"
    by (rule demo_run)
  have "serves demo_service s" by (rule do_services_serves [OF s(1) serves.start])
  then have r: "serves (service_new demo_ids demo_ids demo_clock) s" by (simp only: demo_service_def)
  have i: "inj_on demo_ids {..< hs_trader_calls s}" by (rule demo_distinct) (simp add: s(2))
  note n = service_names [OF r i]
  have "map_of (hs_traders_nm s) [0x61] = Some 1000000" by (simp add: s(3))
  then have "get_trader_by_name [0x61] s \<noteq> None" using n [THEN conjunct2, THEN conjunct2, THEN spec, of "[0x61]"] by auto
  then obtain t where t: "get_trader_by_name [0x61] s = Some t" by auto
  then have "get_trader 1000000 s = Some t" by (simp add: get_trader_def get_trader_by_name_def s(3))
  moreover from this have "tr_id t = 1000000" using n [THEN conjunct1] by blast
  moreover have "get_trader_by_name [0x62] s = None" by (simp add: get_trader_by_name_def s(3))
  ultimately show ?thesis using s(1) t by blast
qed


theorem quote_reaches_all_witness:
  "\<exists>s t n m b r s1. do_services (butlast demo_requests) demo_service = Inr s \<and>
     quotes_callback (demo_tick 10 4) s = Inr (r, s1) \<and> get_trader 1000002 s = Some t \<and>
     on_tick (demo_tick 10 4) ((tr_broker t)\<lparr>cb_ids := n, cb_clock_calls := m\<rparr>) = Inr b \<and>
     get_trader 1000002 s1 = Some (t\<lparr>tr_broker := b\<rparr>) \<and> map_of (hs_quotes s1) demo_sym = Some (demo_tick 10 4)"
proof -
  have "case do_services (butlast demo_requests) demo_service of Inl _ \<Rightarrow> False
     | Inr s \<Rightarrow> hs_trader_calls s = 3 \<and> (case get_trader 1000002 s of None \<Rightarrow> False | Some t \<Rightarrow> True) \<and>
        (case quotes_callback (demo_tick 10 4) s of Inl _ \<Rightarrow> False | Inr (r, s1) \<Rightarrow> r)"
    by code_simp
  then obtain s t r s1 where s: "do_services (butlast demo_requests) demo_service = Inr s" "hs_trader_calls s = 3"
    "get_trader 1000002 s = Some t" "quotes_callback (demo_tick 10 4) s = Inr (r, s1)"
    by (auto split: sum.splits option.splits)
  have "serves demo_service s" by (rule do_services_serves [OF s(1) serves.start])
  then have q: "serves (service_new demo_ids demo_ids demo_clock) s" by (simp only: demo_service_def)
  have "inj_on demo_ids {..< hs_trader_calls s}" by (rule demo_distinct) (simp add: s(2))
  note n = quote_reaches_all [OF q this s(4)]
  moreover have "ct_symbol (demo_tick 10 4) = demo_sym" by (simp add: demo_tick_def)
  ultimately show ?thesis using s by metis
qed

end
