(* ===== verification/Http_Routes.thy ===== *)
theory Http_Routes
  imports Trader_Service State_Manager
begin

text \<open>
  The routes of the service (the handlers \<open>HttpServiceImpl::Init\<close> registers in \<open>kvstore/service_impl.cpp\<close>): what
  each request does to the service and what it is answered, including the exceptions of malformed requests, which
  the HTTP library catches. A request is its parameters and its body; the reader of JSON texts is a parameter. The
  consensus instance is known by its answers.
\<close>

section \<open>Requests and answers\<close>

type_synonym params = "(bytes \<times> bytes) list"

definition has_param :: "bytes \<Rightarrow> params \<Rightarrow> bool" where
  "has_param k ps \<longleftrightarrow> map_of ps k \<noteq> None"

definition get_param_value :: "bytes \<Rightarrow> params \<Rightarrow> bytes" where
  "get_param_value k ps = (case map_of ps k of Some v \<Rightarrow> v | None \<Rightarrow> [])"

definition strto_i64 :: "bytes \<Rightarrow> i64" where
  "strto_i64 s = (if s \<noteq> [] then c_atoll s else 0)"

text \<open>The body as a value; a body that is no JSON text is an exception.\<close>

definition with_body :: "(bytes \<Rightarrow> json option) \<Rightarrow> bytes \<Rightarrow> (json \<Rightarrow> 'a res) \<Rightarrow> 'a res" where
  "with_body parse body f = (case parse body of None \<Rightarrow> Inl JsonParseError | Some js \<Rightarrow> f js)"

definition get_member :: "string \<Rightarrow> (json \<Rightarrow> 'a res) \<Rightarrow> json \<Rightarrow> 'a res" where
  "get_member k get js = rbind (json_at (text_bytes k) js) get"

text \<open>The end of all handlers but two: the error number, and a message for an error or else the data, if any.\<close>

definition err_code :: "int \<Rightarrow> json \<Rightarrow> json res" where
  "err_code rc js = json_set (text_bytes ''err_code'') (JInt rc) js"

definition err_msg :: "string \<Rightarrow> json \<Rightarrow> json res" where
  "err_msg msg js = json_set (text_bytes ''err_msg'') (JString (text_bytes msg)) js"

definition reply :: "int \<Rightarrow> json option \<Rightarrow> json \<Rightarrow> json res" where
  "reply rc data js =
     rbind (err_code rc js) (\<lambda>js.
       if rc \<noteq> 0 then err_msg ''internal error'' js
       else case data of None \<Rightarrow> Inr js | Some d \<Rightarrow> json_set (text_bytes ''data'') d js)"

section \<open>The consensus routes\<close>

record ServerRaftStatus =
  rs_server_id :: i32
  rs_leader_id :: i32
  rs_log_start_index :: u64
  rs_log_end_index :: u64
  rs_last_committed_index :: u64

definition status_to_json :: "ServerRaftStatus \<Rightarrow> json" where
  "status_to_json r = json_object
     [(''server_id'', json_i32 (rs_server_id r)), (''leader_id'', json_i32 (rs_leader_id r)),
      (''log_start_index'', JInt (uint (rs_log_start_index r))),
      (''log_end_index'', JInt (uint (rs_log_end_index r))),
      (''last_committed_index'', JInt (uint (rs_last_committed_index r)))]"

record ServerRaftConfig =
  sr_id :: i32
  sr_dc_id :: i32
  sr_endpoint :: bytes
  sr_aux :: bytes
  sr_learner :: bool
  sr_leader :: bool
  sr_priority :: i32

definition config_to_json :: "ServerRaftConfig \<Rightarrow> json" where
  "config_to_json c = json_object
     [(''id'', json_i32 (sr_id c)), (''dc_id'', json_i32 (sr_dc_id c)), (''endpoint'', JString (sr_endpoint c)),
      (''aux'', JString (sr_aux c)), (''learner'', JBool (sr_learner c)), (''leader'', JBool (sr_leader c)),
      (''priority'', json_i32 (sr_priority c))]"

text \<open>What the consensus instance answers: its leader, what it has committed, its servers, and whether it accepts a change.\<close>

record raft_instance =
  ri_leader :: i32
  ri_committed :: u64
  ri_configs :: "srv_config list"
  ri_add_srv :: "srv_config \<Rightarrow> bool"
  ri_remove_srv :: "i32 \<Rightarrow> bool"

definition raft_status ::
    "('s, 'c) engine \<Rightarrow> bool \<Rightarrow> i32 \<Rightarrow> raft_instance \<Rightarrow> 's state_mgr \<Rightarrow> (int \<times> ServerRaftStatus \<times> 's state_mgr) res" where
  "raft_status E big sid inst m =
     rbind (rl_next_slot E big (mg_load_log_store m)) (\<lambda>(slot, l).
       Inr (0, \<lparr>rs_server_id = sid, rs_leader_id = ri_leader inst,
                 rs_log_start_index = rl_start_index (mg_load_log_store m), rs_log_end_index = slot - 1,
                 rs_last_committed_index = ri_committed inst\<rparr>, m\<lparr>mg_log_store := l\<rparr>))"

definition server_list :: "raft_instance \<Rightarrow> int \<times> ServerRaftConfig list" where
  "server_list inst =
     (0, map (\<lambda>c. \<lparr>sr_id = sc_id c, sr_dc_id = sc_dc_id c, sr_endpoint = sc_endpoint c, sr_aux = sc_aux c,
                     sr_learner = sc_learner c, sr_leader = (sc_id c = ri_leader inst), sr_priority = sc_priority c\<rparr>)
           (ri_configs inst))"

definition add_server :: "i32 \<Rightarrow> raft_instance \<Rightarrow> i32 \<Rightarrow> bytes \<Rightarrow> int" where
  "add_server sid inst i endpoint =
     (if i = 0 \<or> i = sid then -1 else if \<not> ri_add_srv inst (srv_config_new i endpoint) then -1 else 0)"

definition remove_server :: "i32 \<Rightarrow> raft_instance \<Rightarrow> i32 \<Rightarrow> int" where
  "remove_server sid inst i = (if i <s 1 \<or> i = sid then -1 else if \<not> ri_remove_srv inst i then -1 else 0)"

definition route_status ::
    "('s, 'c) engine \<Rightarrow> bool \<Rightarrow> i32 \<Rightarrow> raft_instance \<Rightarrow> 's state_mgr \<Rightarrow> (json \<times> 's state_mgr) res" where
  "route_status E big sid inst m =
     rbind (raft_status E big sid inst m) (\<lambda>(rc, out, m1).
       rbind (reply rc (Some (status_to_json out)) JNull) (\<lambda>js. Inr (js, m1)))"

definition route_serverlist :: "raft_instance \<Rightarrow> json res" where
  "route_serverlist inst =
     (case server_list inst of (rc, out) \<Rightarrow>
        reply rc (if out = [] then None else Some (JArray (map config_to_json out))) JNull)"

definition route_addserver :: "i32 \<Rightarrow> raft_instance \<Rightarrow> json \<Rightarrow> json res" where
  "route_addserver sid inst js =
     rbind (get_member ''server_id'' json_get_i32 js) (\<lambda>i.
     rbind (get_member ''endpoint'' json_get_string js) (\<lambda>e.
       reply (add_server sid inst i e) None (json_clear js)))"

text \<open>Here, and in the subscription below, the answer is written into the request.\<close>

definition route_removeserver :: "i32 \<Rightarrow> raft_instance \<Rightarrow> json \<Rightarrow> json res" where
  "route_removeserver sid inst js =
     rbind (get_member ''server_id'' json_get_i32 js) (\<lambda>i. reply (remove_server sid inst i) None js)"

section \<open>The quote routes\<close>

definition route_quotes :: "params \<Rightarrow> HttpService \<Rightarrow> (json \<times> HttpService) res" where
  "route_quotes ps s =
     rbind (service_get_quotes [get_param_value (text_bytes ''codes'') ps] s) (\<lambda>(rc, qs, s1).
       rbind (reply rc (Some (JArray (map tick_to_json qs))) JNull) (\<lambda>js. Inr (js, s1)))"

definition codes_of :: "json \<Rightarrow> bytes list res" where
  "codes_of c =
     (case c of JArray xs \<Rightarrow> all_res (map json_get_string xs) | JString x \<Rightarrow> Inr [x] | _ \<Rightarrow> Inr [])"

definition route_subscribe :: "json \<Rightarrow> HttpService \<Rightarrow> (json \<times> HttpService) res" where
  "route_subscribe js s =
     rbind (get_member ''codes'' codes_of js) (\<lambda>codes.
       case subscribe_quotes codes s of (rc, s1) \<Rightarrow> rbind (reply rc None js) (\<lambda>out. Inr (out, s1)))"

section \<open>The trading routes\<close>

definition trader_reply :: "CerebroTrader option \<Rightarrow> json res" where
  "trader_reply t =
     (case t of
        None \<Rightarrow> rbind (err_code (-1) JNull) (err_msg ''not found the trader'')
      | Some t \<Rightarrow> reply 0 (Some (trader_to_json t)) JNull)"

definition route_trader :: "params \<Rightarrow> HttpService \<Rightarrow> json res" where
  "route_trader ps s =
     (if has_param (text_bytes ''trader_id'') ps
      then trader_reply (get_trader (strto_i64 (get_param_value (text_bytes ''trader_id'') ps)) s)
      else if has_param (text_bytes ''trader_name'') ps
      then trader_reply (get_trader_by_name (get_param_value (text_bytes ''trader_name'') ps) s)
      else rbind (err_code (-1) JNull) (err_msg ''invalid param: not found trader_id or trader_name''))"

text \<open>A trader is created always.\<close>

definition route_createtrader :: "json \<Rightarrow> HttpService \<Rightarrow> (json \<times> HttpService) res" where
  "route_createtrader js s =
     rbind (get_member ''name'' json_get_string js) (\<lambda>nm.
     rbind (get_member ''cash'' json_get_double js) (\<lambda>cash.
     rbind (create_trader nm cash s) (\<lambda>(t, s1).
     rbind (reply 0 (Some (trader_to_json t)) (json_clear js)) (\<lambda>out. Inr (out, s1)))))"

definition route_deletetrader :: "json \<Rightarrow> HttpService \<Rightarrow> (json \<times> HttpService) res" where
  "route_deletetrader js s =
     rbind (get_member ''id'' json_get_i64 js) (\<lambda>i.
       case delete_trader i s of (rc, s1) \<Rightarrow> rbind (reply rc None (json_clear js)) (\<lambda>out. Inr (out, s1)))"

definition order_request_from_json :: "json \<Rightarrow> TradeOrderRequest res" where
  "order_request_from_json js =
     rbind (get_member ''trader_id'' json_get_i64 js) (\<lambda>tid.
     rbind (get_member ''symbol'' json_get_string js) (\<lambda>symbol.
     rbind (get_member ''side'' json_get_i32 js) (\<lambda>side.
     rbind (get_member ''quantity'' json_get_double js) (\<lambda>quantity.
     rbind (get_member ''price'' json_get_double js) (\<lambda>price.
       Inr \<lparr>rq_trader_id = tid, rq_symbol = symbol, rq_side = side, rq_quantity = quantity, rq_price = price\<rparr>)))))"

definition order_request_to_json :: "TradeOrderRequest \<Rightarrow> json" where
  "order_request_to_json r = json_object
     [(''trader_id'', json_i64 (rq_trader_id r)), (''symbol'', JString (rq_symbol r)), (''side'', json_i32 (rq_side r)),
      (''quantity'', JDouble (rq_quantity r)), (''price'', JDouble (rq_price r))]"

text \<open>The number of an order is positive; everything else is an error.\<close>

definition order_reply :: "i64 \<Rightarrow> json \<Rightarrow> json res" where
  "order_reply rc js =
     (if rc <s 1 then reply (-1) None js else reply 0 (Some (json_object [(''order_id'', json_i64 rc)])) js)"

definition route_enterorder :: "json \<Rightarrow> HttpService \<Rightarrow> (json \<times> HttpService) res" where
  "route_enterorder js s =
     rbind (order_request_from_json js) (\<lambda>req.
     rbind (enter_order req s) (\<lambda>(rc, s1).
     rbind (order_reply rc (json_clear js)) (\<lambda>out. Inr (out, s1))))"

definition route_cancelorder :: "json \<Rightarrow> HttpService \<Rightarrow> (json \<times> HttpService) res" where
  "route_cancelorder js s =
     rbind (get_member ''trader_id'' json_get_i64 js) (\<lambda>tid.
     rbind (get_member ''order_id'' json_get_i64 js) (\<lambda>oid.
     rbind (service_cancel_order tid oid s) (\<lambda>(rc, s1).
     rbind (order_reply rc (json_clear js)) (\<lambda>out. Inr (out, s1)))))"

definition route_orderlist :: "params \<Rightarrow> HttpService \<Rightarrow> json res" where
  "route_orderlist ps s =
     (case order_list (strto_i64 (get_param_value (text_bytes ''trader_id'') ps)) s of (rc, os) \<Rightarrow>
        reply rc (Some (orders_to_json os)) JNull)"

definition route_positionlist :: "params \<Rightarrow> HttpService \<Rightarrow> json res" where
  "route_positionlist ps s =
     (case position_list (strto_i64 (get_param_value (text_bytes ''trader_id'') ps)) s of (rc, xs) \<Rightarrow>
        reply rc (Some (positions_to_json xs)) JNull)"

text \<open>The address to listen on: what is before and behind the first colon; without a colon both are the whole text.\<close>

definition endpoint_host :: "bytes \<Rightarrow> bytes" where
  "endpoint_host e = takeWhile (\<lambda>c. c \<noteq> 0x3a) e"

definition endpoint_port :: "bytes \<Rightarrow> i32" where
  "endpoint_port e = c_atoi (if 0x3a \<in> set e then tl (dropWhile (\<lambda>c. c \<noteq> 0x3a) e) else e)"

text \<open>A request to one of the routes that have a body and change the service.\<close>

datatype post_route = PSubscribe | PCreate | PDelete | PEnter | PCancel

fun handle_post :: "post_route \<Rightarrow> json \<Rightarrow> HttpService \<Rightarrow> (json \<times> HttpService) res" where
  "handle_post PSubscribe js s = route_subscribe js s"
| "handle_post PCreate js s = route_createtrader js s"
| "handle_post PDelete js s = route_deletetrader js s"
| "handle_post PEnter js s = route_enterorder js s"
| "handle_post PCancel js s = route_cancelorder js s"

definition post :: "(bytes \<Rightarrow> json option) \<Rightarrow> post_route \<Rightarrow> bytes \<Rightarrow> HttpService \<Rightarrow> (json \<times> HttpService) res" where
  "post parse r body s = with_body parse body (\<lambda>js. handle_post r js s)"

section \<open>What the routes do\<close>

lemma get_member_Inr:
  "get_member k get js = Inr v \<longleftrightarrow> (\<exists>ms x. js = JObject ms \<and> map_of ms (text_bytes k) = Some x \<and> get x = Inr v)"
  by (cases js) (auto simp: get_member_def rbind_eq_Inr split: option.splits)

lemma of_char_u8: "of_char c = (of_char d :: u8) \<Longrightarrow> c = d"
proof -
  have small: "unat (of_char x :: u8) = of_char x" for x
  proof -
    have "unat (word_of_nat (of_char x) :: u8) = of_char x"
      by (rule of_nat_inverse [OF refl]) (use nat_of_char_less_256 [of x] in simp)
    then show ?thesis by (simp only: of_nat_of_char)
  qed
  assume "of_char c = (of_char d :: u8)"
  then have "(of_char c :: nat) = of_char d" using small by metis
  then show "c = d" by simp
qed

lemma text_bytes_inj [simp]: "text_bytes a = text_bytes b \<longleftrightarrow> a = b"
proof
  show "text_bytes a = text_bytes b \<Longrightarrow> a = b"
    using of_char_u8 by (simp add: text_bytes_def inj_map_eq_map inj_def)
qed simp

text \<open>The members of an object built by assignments, the last one of a name.\<close>

lemma json_at_object:
  "json_at (text_bytes k) (json_object kvs) =
     (case map_of (rev kvs) k of Some v \<Rightarrow> Inr v | None \<Rightarrow> Inl OutOfRange)"
proof -
  have o: "ordered_items (foldl (\<lambda>ms (k, v). put_item (text_bytes k, v) ms) ms xs)" if "ordered_items ms" for ms xs
    using that by (induction xs arbitrary: ms) (auto simp: ordered_put)
  have "map_of (foldl (\<lambda>ms (k, v). put_item (text_bytes k, v) ms) [] kvs) (text_bytes k) = map_of (rev kvs) k"
  proof (induction kvs rule: rev_induct)
    case (snoc x xs)
    then show ?case using map_of_put [OF o [of "[]" xs]] by (cases x) simp
  qed simp
  then show ?thesis by (simp add: json_object_def)
qed

lemma reply_object:
  "reply 0 None (JObject []) = Inr (json_object [(''err_code'', JInt 0)])"
  "reply 0 (Some d) (JObject []) = Inr (json_object [(''err_code'', JInt 0), (''data'', d)])"
  "reply (-1) dat (JObject []) =
     Inr (json_object [(''err_code'', JInt (-1)), (''err_msg'', JString (text_bytes ''internal error''))])"
  by (simp_all add: reply_def err_code_def err_msg_def json_object_def)

lemma order_request_back: "order_request_from_json (order_request_to_json r) = Inr r"
  by (simp add: order_request_from_json_def order_request_to_json_def get_member_def json_at_object json_i64_def json_i32_def)

text \<open>
  Requests are read back. The object a client writes for an order request is read by the service as that request, for
  all values of its members.
\<close>

theorem order_request_roundtrip: "order_request_from_json (order_request_to_json r) = Inr r"
  by (rule order_request_back)

text \<open>A handler that answers has made one operation of the service, and its answer is an object.\<close>

lemma map_of_put_other:
  assumes "j \<noteq> k"
  shows "map_of (put_item (k, v) its) j = map_of its j"
proof -
  have f: "map_of (filter (\<lambda>y. P (fst y)) its) j = (if P j then map_of its j else None)" for P
    by (induction its) auto
  show ?thesis
    using assms f [of "\<lambda>x. x < k"] f [of "\<lambda>x. k < x"] by (cases j k rule: linorder_cases)
      (auto simp: put_item_def map_add_def split: option.splits)
qed

definition answers :: "json res \<Rightarrow> bool" where
  "answers r \<longleftrightarrow> (\<exists>out rc. r = Inr out \<and> json_at (text_bytes ''err_code'') out = Inr (JInt rc) \<and>
     (rc \<noteq> 0 \<longrightarrow> json_at (text_bytes ''err_msg'') out = Inr (JString (text_bytes ''internal error''))))"

lemma reply_answers: "answers (reply rc dat (JObject ms))"
  by (auto simp: answers_def reply_def err_code_def err_msg_def map_of_put_other split: option.splits)

lemma order_reply_answers: "answers (order_reply rc (JObject ms))"
  by (simp add: order_reply_def reply_answers)

lemma same_lists:
  assumes "on_broker f k t s = Inr (r, s1)" "ordered_items (hs_traders s)" "map_of (hs_traders s) k = Some t"
    "\<And>b r c. f b = Inr (r, c) \<Longrightarrow> c = b"
  shows "order_list i s1 = order_list i s \<and> position_list i s1 = position_list i s"
proof -
  obtain b where b: "f (lend s (tr_broker t)) = Inr (r, b)"
    "map_of (hs_traders s1) = (map_of (hs_traders s))(k \<mapsto> t\<lparr>tr_broker := b\<rparr>)"
    using on_broker_others [OF assms(1, 2)] by auto
  have "b = lend s (tr_broker t)" using assms(4) b(1) by blast
  then have "current_orders b = current_orders (tr_broker t)" "current_positions b ps = current_positions (tr_broker t) ps" for ps
    by (simp_all add: lend_def current_orders_def current_positions_def get_all_tracker_def)
  then show ?thesis
    using b(2) assms(3) by (auto simp: order_list_def position_list_def get_trader_def split: option.splits)
qed

definition error_answer :: json where
  "error_answer = json_object [(''err_code'', JInt (-1)), (''err_msg'', JString (text_bytes ''internal error''))]"

definition order_answer :: "i64 \<Rightarrow> json" where
  "order_answer i = json_object [(''err_code'', JInt 0), (''data'', json_object [(''order_id'', json_i64 i)])]"

lemma order_reply_simps [simp]:
  "rc <s 1 \<Longrightarrow> order_reply rc (JObject []) = Inr error_answer"
  "\<not> rc <s 1 \<Longrightarrow> order_reply rc (JObject []) = Inr (order_answer rc)"
  "order_reply (-1) (JObject []) = Inr error_answer" "order_reply 0 (JObject []) = Inr error_answer"
  by (simp_all add: order_reply_def reply_object error_answer_def order_answer_def word_sless_alt)

text \<open>
  C34. No order can be cancelled. Whatever trader and order a request names, if the route answers at all its answer is the
  error, and the orders and positions of all traders are what they were: a queued order stays queued.
\<close>

theorem cancel_never_works:
  assumes "serves (service_new tgen ogen clk) s" "inj_on tgen {..< hs_trader_calls s}"
    "route_cancelorder js s = Inr (out, s1)"
  shows "out = json_object [(''err_code'', JInt (-1)), (''err_msg'', JString (text_bytes ''internal error''))] \<and>
    (\<forall>i. order_list i s1 = order_list i s \<and> position_list i s1 = position_list i s)"
proof -
  have ord: "ordered_items (hs_traders s)" using serves_ok [OF assms(1, 2)] by (simp add: service_ok_def)
  obtain ms tid oid rc where js: "js = JObject ms" "service_cancel_order tid oid s = Inr (rc, s1)"
    "order_reply rc (json_clear js) = Inr out"
    using assms(3) by (auto simp: route_cancelorder_def rbind_eq_Inr get_member_Inr)
  show ?thesis
  proof (cases "map_of (hs_traders s) (sint tid)")
    case None
    then have "rc = -1" "s1 = s" using js(2) by (auto simp: service_cancel_order_def get_trader_def)
    then show ?thesis using js(1, 3) by (simp add: error_answer_def)
  next
    case (Some t)
    then have on: "on_broker (cancel_order oid) (sint tid) t s = Inr (rc, s1)"
      using js(2) by (simp add: service_cancel_order_def get_trader_def)
    then have "rc = 0" by (auto simp: on_broker_def cancel_order_def)
    then have "out = error_answer" using js(1, 3) by simp
    moreover have "order_list i s1 = order_list i s \<and> position_list i s1 = position_list i s" for i
      by (rule same_lists [OF on ord Some]) (simp add: cancel_order_def)
    ultimately show ?thesis by (simp add: error_answer_def)
  qed
qed

text \<open>
  C33. Orders that are refused. A request for an unknown trader, for a side that is neither 1 nor 2, or for a quantity of zero
  is answered with the error, and no order or position of any trader changes; a request without one of its members is an exception.
\<close>

theorem order_refused:
  assumes "serves (service_new tgen ogen clk) s" "inj_on tgen {..< hs_trader_calls s}"
  shows "(get_trader (rq_trader_id req) s = None \<or> rq_side req \<notin> {1, 2} \<or> almost_zero (rq_quantity req) epsilon \<longrightarrow>
      (\<exists>s1. route_enterorder (order_request_to_json req) s =
        Inr (json_object [(''err_code'', JInt (-1)), (''err_msg'', JString (text_bytes ''internal error''))], s1) \<and>
        (\<forall>i. order_list i s1 = order_list i s \<and> position_list i s1 = position_list i s))) \<and>
    (\<forall>k \<in> {''trader_id'', ''symbol'', ''side'', ''quantity'', ''price''}. map_of ms (text_bytes k) = None \<longrightarrow>
      (\<exists>e. route_enterorder (JObject ms) s = Inl e))"
proof (intro conjI impI ballI)
  fix k
  assume k: "k \<in> {''trader_id'', ''symbol'', ''side'', ''quantity'', ''price''}" "map_of ms (text_bytes k) = None"
  have "order_request_from_json (JObject ms) \<noteq> Inr r" for r
  proof
    assume "order_request_from_json (JObject ms) = Inr r"
    then have "map_of ms (text_bytes j) \<noteq> None" if "j \<in> {''trader_id'', ''symbol'', ''side'', ''quantity'', ''price''}" for j
      using that by (auto simp: order_request_from_json_def rbind_eq_Inr get_member_Inr)
    then show False using k by blast
  qed
  then show "\<exists>e. route_enterorder (JObject ms) s = Inl e"
    by (cases "order_request_from_json (JObject ms)") (auto simp: route_enterorder_def)
next
  have ord: "ordered_items (hs_traders s)" using serves_ok [OF assms] by (simp add: service_ok_def)
  have clear: "json_clear (order_request_to_json req) = JObject []" by (simp add: order_request_to_json_def json_object_def)
  assume bad: "get_trader (rq_trader_id req) s = None \<or> rq_side req \<notin> {1, 2} \<or> almost_zero (rq_quantity req) epsilon"
  show "\<exists>s1. route_enterorder (order_request_to_json req) s =
        Inr (json_object [(''err_code'', JInt (-1)), (''err_msg'', JString (text_bytes ''internal error''))], s1) \<and>
        (\<forall>i. order_list i s1 = order_list i s \<and> position_list i s1 = position_list i s)"
  proof (cases "get_trader (rq_trader_id req) s = None \<or> rq_side req \<notin> {1, 2}")
    case True
    then have "enter_order req s = Inr (-1, s)" by (auto simp: enter_order_def split: option.splits)
    then show ?thesis by (simp add: route_enterorder_def order_request_back clear error_answer_def)
  next
    case False
    then obtain t where t: "map_of (hs_traders s) (sint (rq_trader_id req)) = Some t" by (auto simp: get_trader_def)
    define f where "f = (if rq_side req = 1 then broker_buy (rq_symbol req) (rq_quantity req) (rq_price req)
       else broker_sell (rq_symbol req) (rq_quantity req) (rq_price req))"
    have f: "f b = Inr (-1, b)" for b using bad False by (auto simp: f_def broker_buy_def broker_sell_def)
    have e: "enter_order req s = on_broker f (sint (rq_trader_id req)) t s"
      using t False by (auto simp: enter_order_def get_trader_def f_def)
    obtain s1 where on: "on_broker f (sint (rq_trader_id req)) t s = Inr (-1, s1)"
      by (simp add: on_broker_def f)
    have "order_list i s1 = order_list i s \<and> position_list i s1 = position_list i s" for i
      by (rule same_lists [OF on ord t]) (simp add: f)
    then show ?thesis
      using e on by (simp add: route_enterorder_def order_request_back clear error_answer_def)
  qed
qed

text \<open>A purchase or a sale enters one order at the end of the queue of its symbol.\<close>

definition placed_order :: "TradeOrderRequest \<Rightarrow> i64 \<Rightarrow> i64 \<Rightarrow> i64 \<Rightarrow> CerebroOrder" where
  "placed_order req oid c m = order_zero\<lparr>co_order_id := oid, co_symbol := rq_symbol req, co_ctime := c, co_mtime := m,
     co_price := rq_price req, co_quantity := rq_quantity req, co_status := OS_PENDING_NEW,
     co_type := price_type (rq_price req), co_action := (if rq_side req = 1 then OA_BUY else OA_SELL)\<rparr>"

lemma submit_places:
  assumes "cb_order_id_gen b = Some g" "ordered_items (cb_unfill_orders b)" "ac \<in> {OA_BUY, OA_SELL}"
  shows "\<exists>d c m. submit x q p OS_PENDING_NEW ty ac b = Inr (g (cb_ids b), d) \<and>
    mset (current_orders d) = mset (current_orders b) + {#order_zero\<lparr>co_order_id := g (cb_ids b), co_symbol := x,
      co_ctime := c, co_mtime := m, co_price := p, co_quantity := q, co_status := OS_PENDING_NEW, co_type := ty,
      co_action := ac\<rparr>#}"
proof -
  let ?ord = "order_zero\<lparr>co_order_id := g (cb_ids b), co_symbol := x, co_ctime := cb_clock b (cb_clock_calls b),
    co_mtime := cb_clock b (Suc (cb_clock_calls b)), co_price := p, co_quantity := q, co_status := OS_PENDING_NEW,
    co_type := ty, co_action := ac\<rparr>"
  define a where "a = b\<lparr>cb_ids := Suc (cb_ids b), cb_clock_calls := Suc (Suc (cb_clock_calls b))\<rparr>"
  define d where "d = put_unfilled x (unfilled_of x a @ [?ord]) a"
  have "\<not> is_special_order ?ord" using assms(3) by (auto simp: is_special_order_def)
  then have "submit x q p OS_PENDING_NEW ty ac b = Inr (g (cb_ids b), d)"
    using assms(1) by (simp add: submit_def next_order_id_def now_ms_def commit_order_def Let_def d_def a_def)
  moreover have "mset (current_orders d) = mset (current_orders b) + {#?ord#}"
    using queue_put [OF assms(2), of x "unfilled_of x b @ [?ord]"]
    by (simp add: d_def a_def put_unfilled_def current_orders_def unfilled_of_def)
  ultimately show ?thesis by blast
qed

text \<open>
  C18. An order that is placed. For a trader there is, a side 1 or 2, a quantity that is not zero and a positive next number, the
  request is answered with that number; the trader has one more order than before, pending under this number with
  everything the request says, and the orders of all other traders are what they were.
\<close>

theorem order_placed:
  assumes "serves (service_new tgen ogen clk) s" "inj_on tgen {..< hs_trader_calls s}"
    "get_trader (rq_trader_id req) s = Some t" "rq_side req \<in> {1, 2}" "\<not> almost_zero (rq_quantity req) epsilon"
    "\<not> ogen (hs_order_calls s) <s 1"
  shows "\<exists>s1 c m os. route_enterorder (order_request_to_json req) s =
      Inr (json_object [(''err_code'', JInt 0),
        (''data'', json_object [(''order_id'', json_i64 (ogen (hs_order_calls s)))])], s1) \<and>
    order_list (rq_trader_id req) s1 = (0, os) \<and>
    mset os = mset (snd (order_list (rq_trader_id req) s)) + {#placed_order req (ogen (hs_order_calls s)) c m#} \<and>
    (\<forall>i. i \<noteq> rq_trader_id req \<longrightarrow> order_list i s1 = order_list i s)"
proof -
  have ok: "service_ok False s" "hs_order_gen s = ogen" using serves_ok [OF assms(1, 2)] by auto
  then have ord: "ordered_items (hs_traders s)" by (simp add: service_ok_def)
  let ?k = "sint (rq_trader_id req)"
  let ?b = "lend s (tr_broker t)"
  have t: "map_of (hs_traders s) ?k = Some t" using assms(3) by (simp add: get_trader_def)
  have b: "cb_order_id_gen ?b = Some ogen" "ordered_items (cb_unfill_orders ?b)" "cb_ids ?b = hs_order_calls s"
    "current_orders ?b = current_orders (tr_broker t)"
    using service_trader [OF ok(1) t] ok(2) book_queues
    by (auto simp: trader_ok_def lend_def current_orders_def)
  define ac where "ac = (if rq_side req = 1 then OA_BUY else OA_SELL)"
  define f where "f = submit (rq_symbol req) (rq_quantity req) (rq_price req) OS_PENDING_NEW (price_type (rq_price req)) ac"
  have "ac \<in> {OA_BUY, OA_SELL}" by (simp add: ac_def)
  from submit_places [OF b(1, 2) this, of "rq_symbol req" "rq_quantity req" "rq_price req" "price_type (rq_price req)"]
  obtain d c m where d: "f ?b = Inr (ogen (hs_order_calls s), d)"
    "mset (current_orders d) = mset (current_orders (tr_broker t)) + {#placed_order req (ogen (hs_order_calls s)) c m#}"
    by (auto simp: f_def b(3, 4) placed_order_def ac_def)
  have e: "enter_order req s = on_broker f ?k t s"
    using assms(3, 4, 5) by (auto simp: enter_order_def broker_buy_def broker_sell_def f_def ac_def fun_eq_iff on_broker_def)
  obtain s1 where on: "on_broker f ?k t s = Inr (ogen (hs_order_calls s), s1)" using d(1) by (simp add: on_broker_def)
  have m1: "map_of (hs_traders s1) = (map_of (hs_traders s))(?k \<mapsto> t\<lparr>tr_broker := d\<rparr>)"
    using on_broker_others [OF on ord] d(1) by auto
  have "json_clear (order_request_to_json req) = JObject []" by (simp add: order_request_to_json_def json_object_def)
  then have "route_enterorder (order_request_to_json req) s = Inr (order_answer (ogen (hs_order_calls s)), s1)"
    using e on assms(6) by (simp add: route_enterorder_def order_request_back)
  moreover have "order_list (rq_trader_id req) s1 = (0, current_orders d)" by (simp add: order_list_def get_trader_def m1)
  moreover have "order_list (rq_trader_id req) s = (0, current_orders (tr_broker t))" using assms(3) by (simp add: order_list_def)
  moreover have "order_list i s1 = order_list i s" if "i \<noteq> rq_trader_id req" for i
  proof -
    have "sint i \<noteq> ?k" using sint_eqD that by blast
    then show ?thesis by (simp add: order_list_def get_trader_def m1)
  qed
  ultimately show ?thesis using d(2) by (auto simp: order_answer_def)
qed

text \<open>A request that is answered is one operation of the service.\<close>

lemma handle_post_serves:
  assumes "handle_post r js s = Inr (out, s1)"
  shows "(\<exists>op'. do_service op' s = Inr s1) \<and> answers (Inr out)"
proof (cases r)
  case PSubscribe
  then obtain ms codes where ms: "js = JObject ms" "s1 = snd (subscribe_quotes codes s)"
    "reply (fst (subscribe_quotes codes s)) None js = Inr out"
    using assms by (auto simp: route_subscribe_def subscribe_quotes_def rbind_eq_Inr get_member_Inr)
  then have "do_service (SSubscribe codes) s = Inr s1" by (simp add: do_service_def swallow_def)
  then show ?thesis using ms reply_answers by metis
next
  case PCreate
  then obtain ms nm cash t where ms: "js = JObject ms" "create_trader nm cash s = Inr (t, s1)"
    "reply 0 (Some (trader_to_json t)) (JObject []) = Inr out"
    using assms by (auto simp: route_createtrader_def rbind_eq_Inr get_member_Inr)
  then have "do_service (SCreate nm cash) s = Inr s1" by (simp add: do_service_def swallow_def)
  then show ?thesis using ms reply_answers by metis
next
  case PDelete
  then obtain ms i where ms: "js = JObject ms" "s1 = snd (delete_trader i s)"
    "reply (fst (delete_trader i s)) None (JObject []) = Inr out"
    using assms by (auto simp: route_deletetrader_def rbind_eq_Inr get_member_Inr case_prod_beta)
  then have "do_service (SDelete i) s = Inr s1" by (simp add: do_service_def swallow_def)
  then show ?thesis using ms reply_answers by metis
next
  case PEnter
  then obtain req rc where ms: "enter_order req s = Inr (rc, s1)" "order_reply rc (json_clear js) = Inr out"
    "order_request_from_json js = Inr req"
    using assms by (auto simp: route_enterorder_def rbind_eq_Inr)
  then have "do_service (SEnter req) s = Inr s1" by (simp add: do_service_def swallow_def)
  moreover obtain xs where "js = JObject xs"
    using ms(3) by (auto simp: order_request_from_json_def rbind_eq_Inr get_member_Inr)
  ultimately show ?thesis using ms(2) order_reply_answers by (metis json_clear.simps(7))
next
  case PCancel
  then obtain ms tid oid rc where ms: "js = JObject ms" "service_cancel_order tid oid s = Inr (rc, s1)"
    "order_reply rc (JObject []) = Inr out"
    using assms by (auto simp: route_cancelorder_def rbind_eq_Inr get_member_Inr)
  then have "do_service (SCancel tid oid) s = Inr s1" by (simp add: do_service_def swallow_def)
  then show ?thesis using ms order_reply_answers by metis
qed

text \<open>
  Requests as operations. A request with a body that is answered leads from states of the service to states of the service, so that
  all of the above holds after any requests; and its answer is an object with a whole error number, with a
  message if that is not 0. A body that is no JSON text is an exception.
\<close>

theorem posts_answered:
  assumes "serves (service_new tgen ogen clk) s"
  shows "(case post parse r body s of
      Inl e \<Rightarrow> parse body = None \<longrightarrow> e = JsonParseError
    | Inr (out, s1) \<Rightarrow> parse body \<noteq> None \<and> serves (service_new tgen ogen clk) s1 \<and>
        (\<exists>rc. json_at (text_bytes ''err_code'') out = Inr (JInt rc) \<and>
          (rc \<noteq> 0 \<longrightarrow> json_at (text_bytes ''err_msg'') out = Inr (JString (text_bytes ''internal error'')))))"
proof (cases "post parse r body s")
  case (Inl e)
  then show ?thesis by (auto simp: post_def with_body_def)
next
  case (Inr x)
  obtain out s1 where x: "x = (out, s1)" by (cases x)
  then obtain js where js: "parse body = Some js" "handle_post r js s = Inr (out, s1)"
    using Inr by (auto simp: post_def with_body_def split: option.splits)
  then show ?thesis
    using Inr x handle_post_serves [OF js(2)] assms serves.step by (auto simp: answers_def)
qed

section \<open>A dialogue\<close>

text \<open>A client's texts are known by the values they stand for.\<close>

definition demo_cancel :: json where
  "demo_cancel = json_object [(''trader_id'', JInt 1000000), (''order_id'', JInt 1000003)]"

definition demo_parse :: "bytes \<Rightarrow> json option" where
  "demo_parse body = (if body = [] then None else Some demo_cancel)"

definition demo_bad :: TradeOrderRequest where
  "demo_bad = (demo_request 1000000)\<lparr>rq_side := 3\<rparr>"

lemma demo_answers:
  "case do_services demo_requests demo_service of Inl _ \<Rightarrow> False
   | Inr s \<Rightarrow> hs_trader_calls s = 3 \<and> hs_order_calls s = 7 \<and>
       (case get_trader 1000000 s of None \<Rightarrow> False | Some t \<Rightarrow> True) \<and>
       (case route_cancelorder demo_cancel s of Inl _ \<Rightarrow> False | Inr (out, s1) \<Rightarrow> True)"
  by code_simp

lemma demo_answersE:
  obtains s t out s1 where "do_services demo_requests demo_service = Inr s"
    "serves (service_new demo_ids demo_ids demo_clock) s" "inj_on demo_ids {..< hs_trader_calls s}"
    "hs_order_calls s = 7" "get_trader 1000000 s = Some t" "route_cancelorder demo_cancel s = Inr (out, s1)"
proof -
  obtain s t out s1 where s: "do_services demo_requests demo_service = Inr s" "hs_trader_calls s = 3" "hs_order_calls s = 7"
    "get_trader 1000000 s = Some t" "route_cancelorder demo_cancel s = Inr (out, s1)"
    using demo_answers by (auto split: sum.splits option.splits)
  have "serves demo_service s" by (rule do_services_serves [OF s(1) serves.start])
  then have "serves (service_new demo_ids demo_ids demo_clock) s" by (simp only: demo_service_def)
  moreover have "inj_on demo_ids {..< hs_trader_calls s}" by (rule demo_distinct) (simp add: s(2))
  ultimately show ?thesis using s that by blast
qed

theorem cancel_never_works_witness:
  "\<exists>s out s1. do_services demo_requests demo_service = Inr s \<and> route_cancelorder demo_cancel s = Inr (out, s1) \<and>
     out = json_object [(''err_code'', JInt (-1)), (''err_msg'', JString (text_bytes ''internal error''))] \<and>
     order_list 1000000 s1 = order_list 1000000 s"
proof -
  obtain s t out s1 where s: "do_services demo_requests demo_service = Inr s"
    "serves (service_new demo_ids demo_ids demo_clock) s" "inj_on demo_ids {..< hs_trader_calls s}"
    "route_cancelorder demo_cancel s = Inr (out, s1)"
    by (rule demo_answersE)
  from cancel_never_works [OF s(2, 3, 4)] show ?thesis using s(1, 4) by blast
qed

theorem order_refused_witness:
  "\<exists>s s1 e. do_services demo_requests demo_service = Inr s \<and>
     route_enterorder (order_request_to_json demo_bad) s =
       Inr (json_object [(''err_code'', JInt (-1)), (''err_msg'', JString (text_bytes ''internal error''))], s1) \<and>
     order_list 1000000 s1 = order_list 1000000 s \<and> route_enterorder (JObject []) s = Inl e"
proof -
  obtain s t out s1 where s: "do_services demo_requests demo_service = Inr s"
    "serves (service_new demo_ids demo_ids demo_clock) s" "inj_on demo_ids {..< hs_trader_calls s}"
    by (rule demo_answersE)
  note r = order_refused [OF s(2, 3), of demo_bad "[]"]
  have "rq_side demo_bad \<notin> {1, 2}" by (simp add: demo_bad_def demo_request_def)
  then obtain s2 where "route_enterorder (order_request_to_json demo_bad) s =
       Inr (json_object [(''err_code'', JInt (-1)), (''err_msg'', JString (text_bytes ''internal error''))], s2)"
     "order_list 1000000 s2 = order_list 1000000 s"
    using r [THEN conjunct1] by blast
  moreover obtain e where "route_enterorder (JObject []) s = Inl e" using r [THEN conjunct2] by auto
  ultimately show ?thesis using s(1) by blast
qed

theorem order_placed_witness:
  "\<exists>s s1. do_services demo_requests demo_service = Inr s \<and>
     route_enterorder (order_request_to_json (demo_request 1000000)) s =
       Inr (json_object [(''err_code'', JInt 0), (''data'', json_object [(''order_id'', JInt 1000007)])], s1)"
proof -
  obtain s t out s1 where s: "do_services demo_requests demo_service = Inr s"
    "serves (service_new demo_ids demo_ids demo_clock) s" "inj_on demo_ids {..< hs_trader_calls s}"
    "hs_order_calls s = 7" "get_trader 1000000 s = Some t"
    by (rule demo_answersE)
  have q: "get_trader (rq_trader_id (demo_request 1000000)) s = Some t" "rq_side (demo_request 1000000) \<in> {1, 2}"
    using s(5) by (simp_all add: demo_request_def)
  have "\<not> almost_zero (rq_quantity (demo_request 1000000)) epsilon \<and> \<not> (demo_ids 7 <s 1) \<and>
    json_i64 (demo_ids 7) = JInt 1000007" by code_simp
  then have z: "\<not> almost_zero (rq_quantity (demo_request 1000000)) epsilon" "\<not> (demo_ids (hs_order_calls s) <s 1)"
    "json_i64 (demo_ids (hs_order_calls s)) = JInt 1000007"
    unfolding s(4) by blast+
  from order_placed [OF s(2, 3) q z(1, 2), unfolded z(3)] show ?thesis using s(1) by blast
qed

theorem posts_answered_witness:
  "\<exists>s out s1 rc. do_services demo_requests demo_service = Inr s \<and> post demo_parse PCancel [0x7b] s = Inr (out, s1) \<and>
     serves (service_new demo_ids demo_ids demo_clock) s1 \<and> json_at (text_bytes ''err_code'') out = Inr (JInt rc)"
proof -
  obtain s t out s1 where s: "do_services demo_requests demo_service = Inr s"
    "serves (service_new demo_ids demo_ids demo_clock) s" "route_cancelorder demo_cancel s = Inr (out, s1)"
    by (rule demo_answersE)
  then have "post demo_parse PCancel [0x7b] s = Inr (out, s1)" by (simp add: post_def with_body_def demo_parse_def)
  with posts_answered [OF s(2), where parse = demo_parse and r = PCancel and body = "[0x7b]"] show ?thesis using s(1) by auto
qed

end
